(* ===== verification/Prelude.thy ===== *)
theory Prelude
  imports Main "HOL-Library.Sublist" "HOL-Library.Word"
begin

text \<open>
  Shared ground of the development: collections of simplification facts, the contract of a
  component that is driven by a list of events (\<open>step_invariant\<close>), the contract of a keyed
  table (\<open>keyed_table\<close>), first-match scans over rule lists, and a few facts on lists and options
  that several components use.
\<close>

section \<open>Collections\<close>

named_theorems str_simps "facts about the model of Rust's str methods"
named_theorems policy_simps "facts about the policy engine"

section \<open>Machines driven by a list of events\<close>

text \<open>
  A component whose public operations are values of an event type is run by folding its step
  function. The client's obligation is one preservation law; what it gets is preservation along
  every sequence of operations.
\<close>

definition run_events :: "('s \<Rightarrow> 'e \<Rightarrow> 's) \<Rightarrow> 's \<Rightarrow> 'e list \<Rightarrow> 's" where
  "run_events f s es = foldl f s es"

lemma run_events_Nil [simp]: "run_events f s [] = s"
  by (simp add: run_events_def)

lemma run_events_Cons [simp]: "run_events f s (e # es) = run_events f (f s e) es"
  by (simp add: run_events_def)

lemma run_events_append: "run_events f s (es @ fs) = run_events f (run_events f s es) fs"
  by (simp add: run_events_def)

locale step_invariant =
  fixes step :: "'s \<Rightarrow> 'e \<Rightarrow> 's"
    and Inv :: "'s \<Rightarrow> bool"
  assumes step_keeps: "Inv s \<Longrightarrow> Inv (step s e)"
begin

lemma run_keeps: "Inv s \<Longrightarrow> Inv (run_events step s es)"
  by (induction es arbitrary: s) (auto intro: step_keeps)

lemma run_prefix_keeps: "Inv s \<Longrightarrow> Inv (run_events step s (take n es))"
  by (rule run_keeps)

end

section \<open>Keyed tables\<close>

text \<open>
  The contract of a process-wide table behind a lock: what a lookup returns after an insertion and
  after a removal.
\<close>

locale keyed_table =
  fixes lookup :: "'m \<Rightarrow> 'k \<Rightarrow> 'v option"
    and put :: "'k \<Rightarrow> 'v \<Rightarrow> 'm \<Rightarrow> 'm"
    and del :: "'k \<Rightarrow> 'm \<Rightarrow> 'm"
  assumes lookup_put: "lookup (put k v m) k' = (if k' = k then Some v else lookup m k')"
    and lookup_del: "lookup (del k m) k' = (if k' = k then None else lookup m k')"
begin

lemma put_put: "lookup (put k v (put k w m)) = lookup (put k v m)"
  by (rule ext) (simp add: lookup_put)

lemma del_put: "lookup (del k (put k v m)) = lookup (del k m)"
  by (rule ext) (simp add: lookup_put lookup_del)

lemma put_frame: "k' \<noteq> k \<Longrightarrow> lookup (put k v m) k' = lookup m k'"
  by (simp add: lookup_put)

lemma put_all: "distinct (map fst kvs) \<Longrightarrow> (k, v) \<in> set kvs \<Longrightarrow>
    lookup (fold (\<lambda>(k, v). put k v) kvs m) k = Some v"
proof (induction kvs arbitrary: m)
  case Nil
  then show ?case by simp
next
  case (Cons kv kvs)
  obtain k0 v0 where kv: "kv = (k0, v0)" by fastforce
  have keep: "k \<notin> fst ` set l \<Longrightarrow> lookup (fold (\<lambda>(k, v). put k v) l m') k = lookup m' k" for l m'
    by (induction l arbitrary: m') (auto simp: lookup_put)
  show ?case
  proof (cases "(k, v) = kv")
    case True
    with Cons.prems kv have "k \<notin> fst ` set kvs" by auto
    with True kv keep [of kvs "put k v m"] show ?thesis by (auto simp: lookup_put)
  next
    case False
    with Cons.prems kv have "(k, v) \<in> set kvs" and "distinct (map fst kvs)" by auto
    then show ?thesis by (simp add: kv Cons.IH)
  qed
qed

end

section \<open>First-match scans\<close>

text \<open>
  Rule tables are scanned in order and the first hit decides; the hit carries its index, because
  the audit trail names it.
\<close>

fun find_index_from :: "nat \<Rightarrow> ('a \<Rightarrow> bool) \<Rightarrow> 'a list \<Rightarrow> (nat \<times> 'a) option" where
  "find_index_from n P [] = None"
| "find_index_from n P (x # xs) = (if P x then Some (n, x) else find_index_from (Suc n) P xs)"

abbreviation find_index :: "('a \<Rightarrow> bool) \<Rightarrow> 'a list \<Rightarrow> (nat \<times> 'a) option" where
  "find_index \<equiv> find_index_from 0"

lemma find_index_from_None [simp]: "find_index_from n P xs = None \<longleftrightarrow> (\<forall>x\<in>set xs. \<not> P x)"
  by (induction xs arbitrary: n) auto

lemma find_index_from_SomeD:
  "find_index_from n P xs = Some (i, x) \<Longrightarrow>
     P x \<and> n \<le> i \<and> i - n < length xs \<and> xs ! (i - n) = x \<and> (\<forall>j < i - n. \<not> P (xs ! j))"
proof (induction xs arbitrary: n)
  case Nil
  then show ?case by simp
next
  case (Cons y ys)
  show ?case
  proof (cases "P y")
    case True
    with Cons.prems show ?thesis by auto
  next
    case False
    with Cons have ih: "P x \<and> Suc n \<le> i \<and> i - Suc n < length ys \<and> ys ! (i - Suc n) = x
        \<and> (\<forall>j < i - Suc n. \<not> P (ys ! j))"
      by simp
    then have "i - n = Suc (i - Suc n)" by linarith
    with ih False show ?thesis by (auto simp: less_Suc_eq_0_disj)
  qed
qed

lemma find_index_Some_in: "find_index_from n P xs = Some (i, x) \<Longrightarrow> x \<in> set xs \<and> P x"
  using find_index_from_SomeD [of n P xs i x] by (auto simp: in_set_conv_nth)

lemma find_index_ex: "x \<in> set xs \<Longrightarrow> P x \<Longrightarrow> \<exists>i y. find_index_from n P xs = Some (i, y)"
  using find_index_from_None [of n P xs] by (metis not_None_eq surj_pair)

text \<open>The first answer a function gives along a list (a loop that returns early).\<close>

fun first_some :: "('a \<Rightarrow> 'b option) \<Rightarrow> 'a list \<Rightarrow> 'b option" where
  "first_some f [] = None"
| "first_some f (x # xs) = (case f x of Some y \<Rightarrow> Some y | None \<Rightarrow> first_some f xs)"

lemma first_some_None [simp]: "first_some f xs = None \<longleftrightarrow> (\<forall>x\<in>set xs. f x = None)"
  by (induction xs) (auto split: option.splits)

lemma first_some_SomeD: "first_some f xs = Some y \<Longrightarrow> \<exists>x\<in>set xs. f x = Some y"
  by (induction xs) (auto split: option.splits)

lemma find_SomeD: "find P xs = Some x \<Longrightarrow> x \<in> set xs \<and> P x"
  by (auto simp: find_Some_iff)

section \<open>Lists\<close>

lemma list_all_filter_id: "(\<And>x. x \<in> set xs \<Longrightarrow> P x) \<Longrightarrow> filter P xs = xs"
  by (simp add: filter_id_conv)

lemma takeWhile_neq_append: "x \<notin> set xs \<Longrightarrow> takeWhile (\<lambda>y. y \<noteq> x) (xs @ x # ys) = xs"
  by (induction xs) auto

lemma last_snoc_drop: "xs \<noteq> [] \<Longrightarrow> drop (length xs - 1) xs = [last xs]"
  by (metis append_butlast_last_id append_eq_conv_conj length_butlast)

lemma map_filter_Some: "List.map_filter f xs = map (\<lambda>x. the (f x)) (filter (\<lambda>x. f x \<noteq> None) xs)"
  by (simp add: List.map_filter_def comp_def)

end
