(* ===== verification/Rust_Str.thy ===== *)
theory Rust_Str
  imports Prelude
begin

text \<open>
  Rust's \<open>str\<close> methods that the modelled code calls, on HOL strings. A HOL \<open>char\<close> stands for one
  Unicode code point U+0000 to U+00FF; on that range the definitions below give the results of the
  standard library (\<open>char::is_whitespace\<close>, \<open>str::to_lowercase\<close>, \<open>trim\<close>, \<open>split\<close>, \<open>find\<close>, \<open>replace\<close>).
  Where the code counts bytes instead of characters (\<open>str::len\<close> used as a slice offset) the model
  uses \<open>utf8_len\<close>, two bytes for a code point from U+0080 on.
\<close>

section \<open>Characters\<close>

definition is_whitespace :: "char \<Rightarrow> bool" where
  "is_whitespace c \<longleftrightarrow> c \<in> {CHR 0x09, CHR 0x0A, CHR 0x0B, CHR 0x0C, CHR 0x0D, CHR '' '', CHR 0x85, CHR 0xA0}"

definition is_ascii :: "char \<Rightarrow> bool" where
  "is_ascii c \<longleftrightarrow> of_char c < (128 :: nat)"

definition is_ascii_alphabetic :: "char \<Rightarrow> bool" where
  "is_ascii_alphabetic c \<longleftrightarrow>
     (let n = of_char c :: nat in 65 \<le> n \<and> n \<le> 90 \<or> 97 \<le> n \<and> n \<le> 122)"

definition is_ascii_digit :: "char \<Rightarrow> bool" where
  "is_ascii_digit c \<longleftrightarrow> (let n = of_char c :: nat in 48 \<le> n \<and> n \<le> 57)"

definition is_ascii_alphanumeric :: "char \<Rightarrow> bool" where
  "is_ascii_alphanumeric c \<longleftrightarrow> is_ascii_alphabetic c \<or> is_ascii_digit c"

definition is_upper_char :: "char \<Rightarrow> bool" where
  "is_upper_char c \<longleftrightarrow>
     (let n = of_char c :: nat in 65 \<le> n \<and> n \<le> 90 \<or> 192 \<le> n \<and> n \<le> 222 \<and> n \<noteq> 215)"

definition to_lower_char :: "char \<Rightarrow> char" where
  "to_lower_char c = (if is_upper_char c then char_of (of_char c + 32 :: nat) else c)"

definition to_lowercase :: "string \<Rightarrow> string" where
  "to_lowercase s = map to_lower_char s"

text \<open>
  \<open>str::to_uppercase\<close>; U+00DF becomes two letters. U+00B5 and U+00FF have their capitals outside the
  range of \<open>char\<close> and are left alone: the one caller passes risk words in ASCII.
\<close>

definition to_upper_chars :: "char \<Rightarrow> string" where
  "to_upper_chars c =
     (let n = of_char c :: nat in
      if 97 \<le> n \<and> n \<le> 122 \<or> 224 \<le> n \<and> n \<le> 254 \<and> n \<noteq> 247 then [char_of (n - 32)]
      else if n = 223 then ''SS'' else [c])"

definition to_uppercase :: "string \<Rightarrow> string" where
  "to_uppercase s = concat (map to_upper_chars s)"

definition utf8_len :: "string \<Rightarrow> nat" where
  "utf8_len s = sum_list (map (\<lambda>c. if is_ascii c then 1 else 2) s)"

lemma to_lower_char_not_upper: "\<not> is_upper_char (to_lower_char c)"
proof -
  have "of_char (char_of (of_char c + 32 :: nat)) = (of_char c + 32 :: nat) mod 256"
    by (simp only: of_char_of)
  then show ?thesis
    by (auto simp: to_lower_char_def is_upper_char_def Let_def split: if_splits)
qed

lemma to_lower_char_idem [simp, str_simps]: "to_lower_char (to_lower_char c) = to_lower_char c"
  using to_lower_char_not_upper [of c] by (simp add: to_lower_char_def [of "to_lower_char c"])

lemma to_lowercase_idem [simp, str_simps]: "to_lowercase (to_lowercase s) = to_lowercase s"
  by (simp add: to_lowercase_def)

lemma to_lowercase_append [str_simps]: "to_lowercase (s @ t) = to_lowercase s @ to_lowercase t"
  by (simp add: to_lowercase_def)

lemma to_lowercase_Nil [simp, str_simps]: "to_lowercase s = [] \<longleftrightarrow> s = []"
  by (simp add: to_lowercase_def)

lemma utf8_len_append [str_simps]: "utf8_len (s @ t) = utf8_len s + utf8_len t"
  by (simp add: utf8_len_def)

lemma utf8_len_ascii: "(\<And>c. c \<in> set s \<Longrightarrow> is_ascii c) \<Longrightarrow> utf8_len s = length s"
  by (induction s) (auto simp: utf8_len_def)

section \<open>Trimming\<close>

definition trim_start :: "string \<Rightarrow> string" where
  "trim_start s = dropWhile is_whitespace s"

definition trim_end :: "string \<Rightarrow> string" where
  "trim_end s = rev (dropWhile is_whitespace (rev s))"

definition trim :: "string \<Rightarrow> string" where
  "trim s = trim_end (trim_start s)"

definition trim_end_char :: "char \<Rightarrow> string \<Rightarrow> string" where
  "trim_end_char c s = rev (dropWhile (\<lambda>d. d = c) (rev s))"

definition trimmed :: "string \<Rightarrow> bool" where
  "trimmed s \<longleftrightarrow> s = [] \<or> \<not> is_whitespace (hd s) \<and> \<not> is_whitespace (last s)"

lemma dropWhile_hd: "dropWhile P s \<noteq> [] \<Longrightarrow> \<not> P (hd (dropWhile P s))"
  by (induction s) auto

lemma hd_rev_dropWhile_rev:
  assumes "s \<noteq> []" and "\<not> P (hd s)"
  shows "rev (dropWhile P (rev s)) \<noteq> [] \<and> hd (rev (dropWhile P (rev s))) = hd s"
proof -
  have *: "dropWhile P (rev s) = dropWhile P (rev (tl s)) @ [hd s]"
    using assms dropWhile_append [of P "rev (tl s)" "[hd s]"]
    by (cases s) (auto simp: dropWhile_append3)
  then show ?thesis by simp
qed

lemma trim_trimmed: "trimmed (trim s)"
proof (cases "trim_start s = []")
  case True
  then show ?thesis by (simp add: trim_def trim_end_def trimmed_def)
next
  case False
  let ?t = "trim_start s"
  have h: "\<not> is_whitespace (hd ?t)"
    using False dropWhile_hd [of is_whitespace s] by (simp add: trim_start_def)
  note r = hd_rev_dropWhile_rev [of ?t is_whitespace, OF False h]
  have "dropWhile is_whitespace (rev ?t) \<noteq> []" using r by auto
  then have "\<not> is_whitespace (hd (dropWhile is_whitespace (rev ?t)))" by (rule dropWhile_hd)
  with r h show ?thesis
    by (simp add: trim_def trim_end_def trimmed_def last_rev)
qed

lemma trim_id: "trimmed s \<Longrightarrow> trim s = s"
proof -
  assume t: "trimmed s"
  then have a: "trim_start s = s"
    by (cases s) (auto simp: trim_start_def trimmed_def)
  from t have "dropWhile is_whitespace (rev s) = rev s"
    by (cases "rev s") (auto simp: trimmed_def dest: arg_cong [of _ _ rev] simp: last_rev
        hd_rev [symmetric])
  with a show ?thesis by (simp add: trim_def trim_end_def)
qed

lemma trim_idem [simp, str_simps]: "trim (trim s) = trim s"
  by (simp add: trim_id trim_trimmed)

lemma set_trim: "set (trim s) \<subseteq> set s"
  by (auto simp: trim_def trim_end_def trim_start_def dest!: set_dropWhileD)

section \<open>Searching and replacing\<close>

definition starts_with :: "string \<Rightarrow> string \<Rightarrow> bool" where
  "starts_with s p \<longleftrightarrow> prefix p s"

definition ends_with :: "string \<Rightarrow> string \<Rightarrow> bool" where
  "ends_with s p \<longleftrightarrow> suffix p s"

fun contains_str :: "string \<Rightarrow> string \<Rightarrow> bool" where
  "contains_str [] p \<longleftrightarrow> p = []"
| "contains_str (c # s) p \<longleftrightarrow> prefix p (c # s) \<or> contains_str s p"

text \<open>The text after the first occurrence of \<open>p\<close> (\<open>&s[s.find(p)? + p.len()..]\<close>).\<close>

fun after_first :: "string \<Rightarrow> string \<Rightarrow> string option" where
  "after_first p [] = (if p = [] then Some [] else None)"
| "after_first p (c # s) = (if prefix p (c # s) then Some (drop (length p) (c # s)) else after_first p s)"

text \<open>The characters before the first occurrence of a character, if it occurs.\<close>

definition before_char :: "char \<Rightarrow> string \<Rightarrow> string option" where
  "before_char c s = (if c \<in> set s then Some (takeWhile (\<lambda>d. d \<noteq> c) s) else None)"

definition strip_prefix :: "string \<Rightarrow> string \<Rightarrow> string option" where
  "strip_prefix p s = (if prefix p s then Some (drop (length p) s) else None)"

definition strip_suffix :: "string \<Rightarrow> string \<Rightarrow> string option" where
  "strip_suffix p s = (if suffix p s then Some (take (length s - length p) s) else None)"

definition replace_char :: "char \<Rightarrow> string \<Rightarrow> string \<Rightarrow> string" where
  "replace_char a b s = concat (map (\<lambda>c. if c = a then b else [c]) s)"

function replace_str :: "string \<Rightarrow> string \<Rightarrow> string \<Rightarrow> string" where
  "replace_str p r [] = []"
| "replace_str p r (c # s) =
     (if p \<noteq> [] \<and> prefix p (c # s) then r @ replace_str p r (drop (length p) (c # s))
      else c # replace_str p r s)"
  by pat_completeness auto
termination
  by (relation "measure (\<lambda>(p, r, s). length s)") auto

lemma contains_str_sublist: "contains_str s p \<longleftrightarrow> (\<exists>u v. s = u @ p @ v)"
proof (induction s)
  case Nil
  then show ?case by auto
next
  case (Cons c s)
  note IH = Cons
  show ?case
  proof
    assume "contains_str (c # s) p"
    then consider "prefix p (c # s)" | "contains_str s p" by auto
    then show "\<exists>u v. c # s = u @ p @ v"
    proof cases
      case 1
      then obtain v where "c # s = [] @ p @ v" by (auto simp: prefix_def)
      then show ?thesis by blast
    next
      case 2
      with Cons obtain u v where "s = u @ p @ v" by auto
      then have "c # s = (c # u) @ p @ v" by simp
      then show ?thesis by blast
    qed
  next
    assume "\<exists>u v. c # s = u @ p @ v"
    then obtain u v where uv: "c # s = u @ p @ v" by blast
    show "contains_str (c # s) p"
    proof (cases u)
      case Nil
      with uv have "prefix p (c # s)" by (simp add: prefix_def)
      then show ?thesis by simp
    next
      case (Cons d u')
      with uv have "s = u' @ p @ v" by simp
      then have "contains_str s p" using IH by blast
      then show ?thesis by simp
    qed
  qed
qed

lemma replace_char_append [str_simps]:
  "replace_char a b (s @ t) = replace_char a b s @ replace_char a b t"
  by (simp add: replace_char_def)

lemma replace_str_skip:
  "p \<noteq> [] \<Longrightarrow> c \<noteq> hd p \<Longrightarrow> replace_str p r (c # s) = c # replace_str p r s"
  by (cases p) auto

lemma replace_str_skips:
  "p \<noteq> [] \<Longrightarrow> hd p \<notin> set t \<Longrightarrow> replace_str p r (t @ s) = t @ replace_str p r s"
  by (induction t) (auto simp: replace_str_skip simp del: replace_str.simps)

lemma replace_str_hit: "p \<noteq> [] \<Longrightarrow> replace_str p r (p @ s) = r @ replace_str p r s"
  by (cases p) auto

text \<open>\<open>s.split_once(p)\<close>: the text before and after the first occurrence.\<close>

fun split_once :: "string \<Rightarrow> string \<Rightarrow> (string \<times> string) option" where
  "split_once p [] = (if p = [] then Some ([], []) else None)"
| "split_once p (c # s) =
     (if prefix p (c # s) then Some ([], drop (length p) (c # s))
      else (case split_once p s of None \<Rightarrow> None | Some (a, b) \<Rightarrow> Some (c # a, b)))"

lemma split_once_Some: "split_once p s = Some (a, b) \<Longrightarrow> s = a @ p @ b"
proof (induction s arbitrary: a)
  case Nil
  then show ?case by (simp split: if_splits)
next
  case (Cons c s)
  then show ?case by (auto simp: prefix_def split: if_splits option.splits)
qed

lemma split_once_None: "split_once p s = None \<longleftrightarrow> \<not> contains_str s p"
  by (induction s) (auto split: option.splits)

lemma count_replace_str:
  "c \<notin> set r \<Longrightarrow> count_list (replace_str p r s) c \<le> count_list s c"
proof (induction p r s rule: replace_str.induct)
  case (1 p r)
  then show ?case by simp
next
  case (2 p r d s)
  show ?case
  proof (cases "p \<noteq> [] \<and> prefix p (d # s)")
    case True
    have "count_list (replace_str p r (drop (length p) (d # s))) c \<le> count_list (drop (length p) (d # s)) c"
      using 2 True by blast
    also have "\<dots> \<le> count_list (d # s) c"
      by (metis append_take_drop_id count_list_append le_add2)
    finally show ?thesis using True 2(3) by (simp add: count_list_0_iff)
  next
    case False
    then show ?thesis using 2 by (auto simp del: replace_str.simps(2) simp: replace_str.simps(2) [of p r d s])
  qed
qed

lemma trim_parts: "\<exists>u v. s = u @ trim s @ v \<and> (\<forall>c \<in> set u \<union> set v. is_whitespace c)"
proof -
  let ?t = "trim_start s"
  let ?u = "takeWhile is_whitespace s" and ?v = "rev (takeWhile is_whitespace (rev ?t))"
  have s: "s = ?u @ ?t" by (simp add: trim_start_def)
  have "rev ?t = takeWhile is_whitespace (rev ?t) @ dropWhile is_whitespace (rev ?t)" by simp
  then have "?t = trim s @ ?v"
    unfolding trim_def trim_end_def by (metis rev_append rev_rev_ident)
  with s have "s = ?u @ trim s @ ?v" by simp
  moreover have "\<forall>c \<in> set ?u \<union> set ?v. is_whitespace c" by (auto dest: set_takeWhileD)
  ultimately show ?thesis by blast
qed

lemma contains_str_middle: "contains_str s p \<Longrightarrow> contains_str (u @ s @ v) p"
  unfolding contains_str_sublist by (metis append_assoc)

lemma contains_str_trans: "contains_str s p \<Longrightarrow> contains_str p q \<Longrightarrow> contains_str s q"
  unfolding contains_str_sublist by (metis append_assoc)

lemma replace_str_none: "\<not> contains_str s p \<Longrightarrow> replace_str p r s = s"
  by (induction s) auto

lemma replace_str_keeps_end:
  "p \<noteq> [] \<Longrightarrow> last p \<notin> set w \<Longrightarrow> replace_str p r (s @ w) = replace_str p r s @ w"
proof (induction p r s rule: replace_str.induct)
  case (1 p r)
  have "\<not> contains_str w p"
    using 1 by (auto simp: contains_str_sublist)
  then show ?case by (simp add: replace_str_none)
next
  case (2 p r c s)
  have pre: "prefix p (c # s @ w) = prefix p (c # s)"
  proof
    assume "prefix p (c # s @ w)"
    then consider "prefix p (c # s)" | w' where "p = (c # s) @ w'" "prefix w' w" "w' \<noteq> []"
      by (metis append_Cons append_Nil2 prefix_append prefix_order.order_refl)
    then show "prefix p (c # s)"
    proof cases
      case 2
      then have "last p = last w'" and "last w' \<in> set w'" and "set w' \<subseteq> set w" by (simp_all add: set_mono_prefix)
      then have "last p \<in> set w" by auto
      with "2.prems" \<open>last p \<notin> set w\<close> show ?thesis by simp
    qed
  next
    assume "prefix p (c # s)"
    then show "prefix p (c # s @ w)" using prefix_prefix [of p "c # s" w] by simp
  qed
  show ?case
  proof (cases "prefix p (c # s)")
    case True
    then have "length p \<le> length (c # s)" by (rule prefix_length_le)
    then have "drop (length p) (c # s @ w) = drop (length p) (c # s) @ w"
      by (metis append_Cons diff_is_0_eq drop_0 drop_append)
    with True pre 2 show ?thesis by simp
  next
    case False
    with pre 2 show ?thesis by simp
  qed
qed

section \<open>Splitting and joining\<close>

fun split_by :: "(char \<Rightarrow> bool) \<Rightarrow> string \<Rightarrow> string list" where
  "split_by P [] = [[]]"
| "split_by P (c # s) =
     (if P c then [] # split_by P s
      else (case split_by P s of [] \<Rightarrow> [[c]] | w # ws \<Rightarrow> (c # w) # ws))"

definition split_char :: "char \<Rightarrow> string \<Rightarrow> string list" where
  "split_char c s = split_by (\<lambda>d. d = c) s"

text \<open>\<open>s.split(' ').filter(|t| !t.is_empty())\<close>, the tokeniser of the policy code.\<close>

definition tokens :: "string \<Rightarrow> string list" where
  "tokens s = filter (\<lambda>w. w \<noteq> []) (split_char CHR '' '' s)"

definition split_whitespace :: "string \<Rightarrow> string list" where
  "split_whitespace s = filter (\<lambda>w. w \<noteq> []) (split_by is_whitespace s)"

fun join :: "string \<Rightarrow> string list \<Rightarrow> string" where
  "join sep [] = []"
| "join sep [w] = w"
| "join sep (w # v # ws) = w @ sep @ join sep (v # ws)"

lemma split_by_not_Nil [simp]: "split_by P s \<noteq> []"
  by (induction s) (auto split: list.splits)

lemma split_by_pieces: "w \<in> set (split_by P s) \<Longrightarrow> c \<in> set w \<Longrightarrow> \<not> P c"
proof (induction s arbitrary: w)
  case Nil
  then show ?case by simp
next
  case (Cons d s)
  obtain v vs where s: "split_by P s = v # vs" by (cases "split_by P s") auto
  have IH: "u \<in> set (v # vs) \<Longrightarrow> c \<in> set u \<Longrightarrow> \<not> P c" for u using Cons.IH s by simp
  from Cons.prems s IH [of v] IH [of w] show ?case by (auto split: if_splits)
qed

lemma split_by_chars: "w \<in> set (split_by P s) \<Longrightarrow> set w \<subseteq> set s"
proof (induction s arbitrary: w)
  case Nil
  then show ?case by simp
next
  case (Cons d s)
  obtain v vs where s: "split_by P s = v # vs" by (cases "split_by P s") auto
  have IH: "u \<in> set (v # vs) \<Longrightarrow> set u \<subseteq> set s" for u using Cons.IH s by simp
  from Cons.prems s IH show ?case by (fastforce split: if_splits)
qed

lemma split_by_none: "(\<And>c. c \<in> set s \<Longrightarrow> \<not> P c) \<Longrightarrow> split_by P s = [s]"
  by (induction s) auto

lemma split_by_append:
  "(\<And>c. c \<in> set u \<Longrightarrow> \<not> P c) \<Longrightarrow> P d \<Longrightarrow> split_by P (u @ d # s) = u # split_by P s"
  by (induction u) auto

lemma split_whitespace_words:
  "w \<in> set (split_whitespace s) \<Longrightarrow> w \<noteq> [] \<and> set w \<subseteq> set s \<and> (\<forall>c\<in>set w. \<not> is_whitespace c)"
  using split_by_pieces [of w is_whitespace s] split_by_chars [of w is_whitespace s]
  by (auto simp: split_whitespace_def)

lemma set_join: "set (join sep ws) \<subseteq> set sep \<union> \<Union> (set ` set ws)"
  by (induction sep ws rule: join.induct) auto

lemma split_by_mid: "P d \<Longrightarrow> split_by P (u @ d # v) = split_by P u @ split_by P v"
proof (induction u)
  case Nil
  then show ?case by simp
next
  case (Cons c u)
  obtain w ws where "split_by P u = w # ws" by (cases "split_by P u") auto
  with Cons show ?case by simp
qed

text \<open>Words without a separator survive joining with a separator and splitting again.\<close>

lemma split_by_join:
  assumes "P CHR '' ''" and "\<And>w. w \<in> set ws \<Longrightarrow> w \<noteq> [] \<and> (\<forall>c\<in>set w. \<not> P c)"
  shows "filter (\<lambda>w. w \<noteq> []) (split_by P (join '' '' ws)) = ws"
  using assms(2)
proof (induction "'' ''" ws rule: join.induct)
  case 1
  then show ?case by simp
next
  case (2 w)
  then have "split_by P w = [w]" by (intro split_by_none) auto
  with 2 show ?case by simp
next
  case (3 w v ws)
  have "split_by P (w @ CHR '' '' # join '' '' (v # ws)) = w # split_by P (join '' '' (v # ws))"
    using 3(2) assms(1) by (intro split_by_append) auto
  moreover have "filter (\<lambda>w. w \<noteq> []) (split_by P (join '' '' (v # ws))) = v # ws"
    using 3(2) by (intro 3(1)) auto
  ultimately show ?case using 3(2) [of w] by simp
qed

lemma tokens_join:
  assumes "\<And>w. w \<in> set ws \<Longrightarrow> w \<noteq> [] \<and> CHR '' '' \<notin> set w"
  shows "tokens (join '' '' ws) = ws"
  unfolding tokens_def split_char_def using assms by (intro split_by_join) auto

lemma split_whitespace_join:
  assumes "\<And>w. w \<in> set ws \<Longrightarrow> w \<noteq> [] \<and> (\<forall>c\<in>set w. \<not> is_whitespace c)"
  shows "split_whitespace (join '' '' ws) = ws"
  unfolding split_whitespace_def using assms by (intro split_by_join) (auto simp: is_whitespace_def)

lemma join_Nil_iff: "(\<And>w. w \<in> set ws \<Longrightarrow> w \<noteq> []) \<Longrightarrow> join '' '' ws = [] \<longleftrightarrow> ws = []"
  by (cases ws rule: list.exhaust) (auto elim: join.elims)

text \<open>\<open>t.rsplit(['/', '\\']).next()\<close>: what follows the last path separator.\<close>

definition basename :: "string \<Rightarrow> string" where
  "basename t = last (split_by (\<lambda>c. c = CHR ''/'' \<or> c = CHR 0x5C) t)"

text \<open>
  \<open>s.get(off..)\<close> with a byte offset: \<open>None\<close> past the end and inside a two-byte character.
\<close>

fun get_from :: "string \<Rightarrow> nat \<Rightarrow> string option" where
  "get_from s 0 = Some s"
| "get_from [] (Suc n) = None"
| "get_from (c # s) (Suc n) =
     (if is_ascii c then get_from s n else if n = 0 then None else get_from s (n - 1))"

lemma get_from_append: "get_from (u @ s) (utf8_len u) = Some s"
proof (induction u)
  case Nil
  then show ?case by (simp add: utf8_len_def)
next
  case (Cons c u)
  then show ?case
    by (auto simp: utf8_len_def)
qed

section \<open>Printing numbers\<close>

definition digit_char :: "nat \<Rightarrow> char" where
  "digit_char d = char_of (48 + d)"

fun decimal :: "nat \<Rightarrow> string" where
  "decimal n = (if n < 10 then [digit_char n] else decimal (n div 10) @ [digit_char (n mod 10)])"

declare decimal.simps [simp del]

lemma decimal_small: "n < 10 \<Longrightarrow> decimal n = [digit_char n]"
  by (simp add: decimal.simps)

lemma decimal_step: "10 \<le> n \<Longrightarrow> decimal n = decimal (n div 10) @ [digit_char (n mod 10)]"
  by (subst decimal.simps) simp

text \<open>\<open>format!("{:x}", n)\<close>\<close>

definition hex_digit :: "nat \<Rightarrow> char" where
  "hex_digit d = (if d < 10 then digit_char d else char_of (87 + d))"

fun hexadecimal :: "nat \<Rightarrow> string" where
  "hexadecimal n = (if n < 16 then [hex_digit n] else hexadecimal (n div 16) @ [hex_digit (n mod 16)])"

declare hexadecimal.simps [simp del]

text \<open>\<open>char::to_digit(radix)\<close>\<close>

definition to_digit :: "nat \<Rightarrow> char \<Rightarrow> nat option" where
  "to_digit radix c =
     (let n = of_char c :: nat;
          d = (if 48 \<le> n \<and> n \<le> 57 then n - 48 else if 65 \<le> n \<and> n \<le> 90 then n - 55
               else if 97 \<le> n \<and> n \<le> 122 then n - 87 else radix)
      in if d < radix then Some d else None)"

section \<open>Parsing numbers\<close>

fun digits_of :: "nat \<Rightarrow> string \<Rightarrow> nat list \<times> string" where
  "digits_of radix [] = ([], [])"
| "digits_of radix (c # s) =
     (case to_digit radix c of None \<Rightarrow> ([], c # s)
      | Some d \<Rightarrow> (let (ds, r) = digits_of radix s in (d # ds, r)))"

text \<open>
  \<open>str::parse\<close> of an unsigned type: an optional plus sign, at least one digit, nothing else, and a value
  not above the largest of the type.
\<close>

definition parse_unsigned :: "nat \<Rightarrow> string \<Rightarrow> nat option" where
  "parse_unsigned max_value s =
     (let t = (case s of CHR ''+'' # t \<Rightarrow> t | _ \<Rightarrow> s); (ds, r) = digits_of 10 t;
          n = foldl (\<lambda>n d. n * 10 + d) 0 ds
      in if ds = [] \<or> r \<noteq> [] \<or> max_value < n then None else Some n)"

lemma to_digit_digit: "d < 10 \<Longrightarrow> to_digit 10 (digit_char d) = Some d"
  by (simp add: to_digit_def digit_char_def)

lemma digits_of_append:
  "digits_of radix u = (ds, []) \<Longrightarrow> digits_of radix (u @ v) = (case digits_of radix v of (es, r) \<Rightarrow> (ds @ es, r))"
  by (induction u arbitrary: ds) (auto split: option.splits prod.splits)

lemma digits_of_decimal:
  "\<exists>ds. digits_of 10 (decimal n) = (ds, []) \<and> ds \<noteq> [] \<and> foldl (\<lambda>n d. n * 10 + d) 0 ds = n"
proof (induction n rule: decimal.induct)
  case (1 n)
  show ?case
  proof (cases "n < 10")
    case True
    then show ?thesis by (simp add: decimal_small to_digit_digit)
  next
    case False
    with 1 obtain ds where "digits_of 10 (decimal (n div 10)) = (ds, [])" "ds \<noteq> []"
      "foldl (\<lambda>n d. n * 10 + d) 0 ds = n div 10" by auto
    with False show ?thesis by (simp add: decimal_step digits_of_append to_digit_digit)
  qed
qed

lemma parse_unsigned_decimal: "n \<le> m \<Longrightarrow> parse_unsigned m (decimal n) = Some n"
proof -
  assume n: "n \<le> m"
  obtain ds where d: "digits_of 10 (decimal n) = (ds, [])" "ds \<noteq> []"
    "foldl (\<lambda>n d. n * 10 + d) 0 ds = n" using digits_of_decimal by blast
  have "to_digit 10 CHR ''+'' = None" by code_simp
  with d have "(case decimal n of CHR ''+'' # t \<Rightarrow> t | _ \<Rightarrow> decimal n) = decimal n"
    by (cases "decimal n") (auto split: char.splits bool.splits)
  with d n show ?thesis by (simp add: parse_unsigned_def)
qed

end
