(* ===== verification/Command_Arity.thy ===== *)
theory Command_Arity
  imports Rust_Str
begin

text \<open>
  \<open>crates/nemesis-security/src/command_arity.rs\<close>: quote-aware tokenising of a command line, the
  split of a compound command into its top-level segments, the removal of leading \<open>VAR=value\<close>
  assignments, and the reduction of a command to the prefix an approval rule remembers.
  The scanner loops carry the Rust loop's variables as arguments.
\<close>

section \<open>Tokens\<close>

abbreviation "single_quote \<equiv> CHR 0x27"
abbreviation "double_quote \<equiv> CHR 0x22"
abbreviation "back_quote \<equiv> CHR 0x60"

fun tokenize_loop :: "string \<Rightarrow> bool \<Rightarrow> bool \<Rightarrow> bool \<Rightarrow> string \<Rightarrow> string list" where
  "tokenize_loop cur in_single in_double has_content [] =
     (if has_content \<or> cur \<noteq> [] then [cur] else [])"
| "tokenize_loop cur in_single in_double has_content (c # cs) =
     (if c = single_quote \<and> \<not> in_double
      then tokenize_loop cur (\<not> in_single) in_double True cs
      else if c = double_quote \<and> \<not> in_single
      then tokenize_loop cur in_single (\<not> in_double) True cs
      else if is_whitespace c \<and> \<not> in_single \<and> \<not> in_double
      then (if has_content \<or> cur \<noteq> [] then cur # tokenize_loop [] in_single in_double False cs
            else tokenize_loop cur in_single in_double has_content cs)
      else tokenize_loop (cur @ [c]) in_single in_double True cs)"

definition tokenize_command :: "string \<Rightarrow> string list" where
  "tokenize_command cmd = tokenize_loop [] False False False cmd"

section \<open>Top-level segments\<close>

definition after_op :: "char \<Rightarrow> string \<Rightarrow> string" where
  "after_op c cs = (case cs of x # xs \<Rightarrow> if x = c then xs else cs | [] \<Rightarrow> [])"

lemma after_op_length [simp]: "length (after_op c cs) < Suc (length cs)"
  by (cases cs) (auto simp: after_op_def)

definition cons_segment :: "string \<Rightarrow> string list \<times> bool \<Rightarrow> string list \<times> bool" where
  "cons_segment seg r = (seg # fst r, snd r)"

text \<open>An \<open>&\<close> or \<open>|\<close> that belongs to a redirection: \<open>2>&1\<close>, \<open><&0\<close>, \<open>&>f\<close>, \<open>>|f\<close>.\<close>

definition is_redirection :: "char \<Rightarrow> char option \<Rightarrow> string \<Rightarrow> bool" where
  "is_redirection ch prev rest \<longleftrightarrow>
     ch = CHR ''&'' \<and> (prev = Some CHR ''>'' \<or> prev = Some CHR ''<'' \<or> (\<exists>r. rest = CHR ''>'' # r))
     \<or> ch = CHR ''|'' \<and> prev = Some CHR ''>''"

lemma is_redirection_code [code]:
  "is_redirection ch prev rest \<longleftrightarrow>
     ch = CHR ''&'' \<and> (prev = Some CHR ''>'' \<or> prev = Some CHR ''<''
        \<or> (case rest of [] \<Rightarrow> False | x # _ \<Rightarrow> x = CHR ''>''))
     \<or> ch = CHR ''|'' \<and> prev = Some CHR ''>''"
  by (cases rest) (auto simp: is_redirection_def)

function scan_loop ::
  "bool \<Rightarrow> string \<Rightarrow> bool \<Rightarrow> bool \<Rightarrow> char option \<Rightarrow> string \<Rightarrow> string list \<times> bool" where
  "scan_loop quote_aware cur in_single in_double prev [] = ([cur], \<not> in_single \<and> \<not> in_double)"
| "scan_loop quote_aware cur in_single in_double prev (c # cs) =
     (if (c = single_quote \<or> c = double_quote) \<and> quote_aware then
        scan_loop quote_aware (cur @ [c])
          (if c = single_quote \<and> \<not> in_double then \<not> in_single else in_single)
          (if c = double_quote \<and> \<not> in_single then \<not> in_double else in_double) (Some c) cs
      else if c \<in> {CHR '';'', CHR 0x0A, CHR 0x0D} \<and> \<not> in_single \<and> \<not> in_double then
        cons_segment cur (scan_loop quote_aware [] in_single in_double None cs)
      else if c \<in> {CHR ''&'', CHR ''|''} \<and> \<not> in_single \<and> \<not> in_double then
        (if is_redirection c prev cs
         then scan_loop quote_aware (cur @ [c]) in_single in_double (Some c) cs
         else cons_segment cur (scan_loop quote_aware [] in_single in_double None (after_op c cs)))
      else scan_loop quote_aware (cur @ [c]) in_single in_double (Some c) cs)"
  by pat_completeness auto
termination
  by (relation "measure (\<lambda>(q, cur, s, d, p, cs). length cs)") auto

definition scan_segments :: "string \<Rightarrow> bool \<Rightarrow> string list \<times> bool" where
  "scan_segments cmd quote_aware = scan_loop quote_aware [] False False None cmd"

definition finish_segments :: "string list \<Rightarrow> string list" where
  "finish_segments segments = remdups_adj (filter (\<lambda>s. s \<noteq> []) (map trim segments))"

definition command_segments :: "string \<Rightarrow> string list" where
  "command_segments cmd =
     (let (segments, balanced) = scan_segments cmd True in
      if balanced then finish_segments segments
      else finish_segments (fst (scan_segments cmd False)))"

section \<open>Environment assignments\<close>

definition is_env_assignment :: "string \<Rightarrow> bool" where
  "is_env_assignment token =
     (case before_char CHR ''='' token of
        None \<Rightarrow> False
      | Some [] \<Rightarrow> False
      | Some (c # cs) \<Rightarrow> (is_ascii_alphabetic c \<or> c = CHR ''_'')
          \<and> list_all (\<lambda>d. is_ascii_alphanumeric d \<or> d = CHR ''_'') cs)"

definition strip_env_tokens :: "string list \<Rightarrow> string list" where
  "strip_env_tokens ts = dropWhile is_env_assignment ts"

lemma after_first_shorter: "after_first p s = Some r \<Longrightarrow> p \<noteq> [] \<Longrightarrow> length r < length s"
proof (induction s)
  case Nil
  then show ?case by simp
next
  case (Cons c s)
  then have "0 < length p" by simp
  with Cons show ?case by (cases "prefix p (c # s)") (auto dest: prefix_length_le)
qed

lemma trim_start_length: "length (trim_start s) \<le> length s"
  by (simp add: trim_start_def length_dropWhile_le)

function strip_env_assignments :: "string \<Rightarrow> string" where
  "strip_env_assignments rest =
     (case split_whitespace rest of
        [] \<Rightarrow> rest
      | token # _ \<Rightarrow>
          if \<not> is_env_assignment token then rest
          else (case after_first token rest of
                  Some r \<Rightarrow> strip_env_assignments (trim_start r)
                | None \<Rightarrow> rest))"
  by pat_completeness auto
termination
proof (relation "measure length")
  fix rest t ts r
  assume s: "split_whitespace rest = t # ts" and r: "after_first t rest = Some r"
  from s have "t \<noteq> []" using split_whitespace_words [of t rest] by simp
  with r have "length r < length rest" by (rule after_first_shorter)
  then show "(trim_start r, rest) \<in> measure length"
    using trim_start_length [of r] by simp
qed simp

declare strip_env_assignments.simps [simp del]

section \<open>Reduction to an approval prefix\<close>

definition arity_table :: "(string \<times> nat) list" where
  "arity_table =
    [(''npm run'', 3), (''npm exec'', 3), (''pnpm run'', 3), (''yarn run'', 3),
     (''docker compose'', 3), (''cargo'', 2), (''rustup'', 2), (''npm'', 2),
     (''npx'', 2), (''pnpm'', 2), (''yarn'', 2), (''bun'', 2),
     (''bunx'', 2), (''deno'', 2), (''node'', 2), (''python'', 2),
     (''python3'', 2), (''pip'', 2), (''pip3'', 2), (''uv'', 2),
     (''poetry'', 2), (''go'', 2), (''dotnet'', 2), (''flutter'', 2),
     (''gradle'', 2), (''mvn'', 2), (''make'', 2), (''cmake'', 2),
     (''docker'', 2), (''docker-compose'', 2), (''podman'', 2), (''kubectl'', 2),
     (''helm'', 2), (''git'', 2), (''gh'', 2), (''adb'', 2),
     (''apt'', 2), (''apt-get'', 2), (''dnf'', 2), (''yum'', 2),
     (''pacman'', 2), (''brew'', 2), (''winget'', 2), (''choco'', 2),
     (''scoop'', 2), (''systemctl'', 2)]"

definition arity_keep :: "string list \<Rightarrow> nat" where
  "arity_keep rest =
     foldl (\<lambda>keep (key, arity). if prefix (split_whitespace key) rest \<and> arity > keep then arity else keep)
       1 arity_table"

definition reduce_command :: "string \<Rightarrow> string" where
  "reduce_command cmd =
     (let rest = strip_env_tokens (tokenize_command cmd) in
      if rest = [] then []
      else (let keep = arity_keep rest in
            if length rest \<le> keep then join '' '' rest
            else join '' '' (take keep rest) @ '' *''))"

section \<open>Facts about segments\<close>

lemma finish_segments_wf:
  "s \<in> set (finish_segments segs) \<Longrightarrow> s \<noteq> [] \<and> trimmed s"
  by (auto simp: finish_segments_def intro: trim_trimmed)

lemma finish_segments_adj: "distinct_adj (finish_segments segs)"
  by (simp add: finish_segments_def distinct_adj_remdups_adj)

lemma command_segments_finish: "\<exists>segs. command_segments cmd = finish_segments segs"
  by (auto simp: command_segments_def split: prod.splits)

lemma command_segments_wf: "s \<in> set (command_segments cmd) \<Longrightarrow> s \<noteq> [] \<and> trimmed s"
  using command_segments_finish [of cmd] finish_segments_wf by metis

text \<open>The scan loses no text but the operators: segments come from the command's characters.\<close>

lemma scan_loop_chars:
  "seg \<in> set (fst (scan_loop q cur s d p cs)) \<Longrightarrow> set seg \<subseteq> set cur \<union> set cs"
proof (induction q cur s d p cs arbitrary: seg rule: scan_loop.induct)
  case (1 q cur s d p)
  then show ?case by simp
next
  case (2 q cur s d p c cs)
  have tail: "set (after_op c cs) \<subseteq> set cs" by (cases cs) (auto simp: after_op_def)
  let ?quote = "(c = single_quote \<or> c = double_quote) \<and> q"
  let ?sep = "c \<in> {CHR '';'', CHR 0x0A, CHR 0x0D} \<and> \<not> s \<and> \<not> d"
  let ?op = "c \<in> {CHR ''&'', CHR ''|''} \<and> \<not> s \<and> \<not> d"
  consider (quote) "?quote" | (sep) "\<not> ?quote" "?sep" | (redir) "\<not> ?quote" "\<not> ?sep" "?op" "is_redirection c p cs"
    | (oper) "\<not> ?quote" "\<not> ?sep" "?op" "\<not> is_redirection c p cs"
    | (plain) "\<not> ?quote" "\<not> ?sep" "\<not> ?op"
    by argo
  then show ?case
  proof cases
    case quote
    then have "seg \<in> set (fst (scan_loop q (cur @ [c])
        (if c = single_quote \<and> \<not> d then \<not> s else s) (if c = double_quote \<and> \<not> s then \<not> d else d) (Some c) cs))"
      using "2.prems" by simp
    from "2.IH"(1) [OF quote this] show ?thesis by simp
  next
    case sep
    have "scan_loop q cur s d p (c # cs) = cons_segment cur (scan_loop q [] s d None cs)"
      by (simp only: scan_loop.simps if_not_P [OF sep(1)] if_P [OF sep(2)])
    with "2.prems" have "seg = cur \<or> seg \<in> set (fst (scan_loop q [] s d None cs))"
      by (simp add: cons_segment_def)
    with "2.IH"(2) [OF sep, of seg] show ?thesis by force
  next
    case redir
    have "scan_loop q cur s d p (c # cs) = scan_loop q (cur @ [c]) s d (Some c) cs"
      by (simp only: scan_loop.simps if_not_P [OF redir(1)] if_not_P [OF redir(2)] if_P [OF redir(3)]
          if_P [OF redir(4)])
    with "2.prems" have "seg \<in> set (fst (scan_loop q (cur @ [c]) s d (Some c) cs))" by simp
    from "2.IH"(3) [OF redir this] show ?thesis by simp
  next
    case oper
    have "scan_loop q cur s d p (c # cs) = cons_segment cur (scan_loop q [] s d None (after_op c cs))"
      by (simp only: scan_loop.simps if_not_P [OF oper(1)] if_not_P [OF oper(2)] if_P [OF oper(3)]
          if_not_P [OF oper(4)])
    with "2.prems" have "seg = cur \<or> seg \<in> set (fst (scan_loop q [] s d None (after_op c cs)))"
      by (simp add: cons_segment_def)
    with "2.IH"(4) [OF oper, of seg] tail show ?thesis by force
  next
    case plain
    have "scan_loop q cur s d p (c # cs) = scan_loop q (cur @ [c]) s d (Some c) cs"
      by (simp only: scan_loop.simps if_not_P [OF plain(1)] if_not_P [OF plain(2)] if_not_P [OF plain(3)])
    with "2.prems" have "seg \<in> set (fst (scan_loop q (cur @ [c]) s d (Some c) cs))" by simp
    from "2.IH"(5) [OF plain this] show ?thesis by simp
  qed
qed

definition operator_chars :: "char set" where
  "operator_chars = {CHR '';'', CHR 0x0A, CHR 0x0D, CHR ''&'', CHR ''|''}"

text \<open>A blind scan never leaves a separator inside a segment.\<close>

lemma scan_blind_separators:
  assumes "CHR '';'' \<notin> set cur" "CHR 0x0A \<notin> set cur" "CHR 0x0D \<notin> set cur"
  shows "seg \<in> set (fst (scan_loop False cur False False p cs)) \<Longrightarrow>
     CHR '';'' \<notin> set seg \<and> CHR 0x0A \<notin> set seg \<and> CHR 0x0D \<notin> set seg"
  using assms
proof (induction False cur False False p cs arbitrary: seg rule: scan_loop.induct)
  case (1 cur p)
  then show ?case by simp
next
  case (2 cur p c cs)
  then show ?case by (auto simp: cons_segment_def split: if_splits)
qed

text \<open>A command without operators and quotes is one segment, itself.\<close>

lemma scan_plain:
  assumes "\<And>c. c \<in> set cs \<Longrightarrow> c \<notin> operator_chars \<and> c \<noteq> single_quote \<and> c \<noteq> double_quote"
  shows "scan_loop q cur False False p cs = ([cur @ cs], True)"
  using assms
proof (induction cs arbitrary: cur p)
  case Nil
  then show ?case by simp
next
  case (Cons c cs)
  then have "c \<notin> operator_chars" "c \<noteq> single_quote" "c \<noteq> double_quote" by auto
  with Cons show ?case by (simp add: operator_chars_def)
qed

lemma command_segments_plain:
  assumes "\<And>c. c \<in> set cmd \<Longrightarrow> c \<notin> operator_chars \<and> c \<noteq> single_quote \<and> c \<noteq> double_quote"
    and "trim cmd \<noteq> []"
  shows "command_segments cmd = [trim cmd]"
  using scan_plain [OF assms(1), of cmd True "[]" None] assms(2)
  by (simp add: command_segments_def scan_segments_def finish_segments_def)

section \<open>Facts about tokens and reduction\<close>

lemma tokenize_plain_loop:
  assumes "\<And>c. c \<in> set cs \<Longrightarrow> c \<noteq> single_quote \<and> c \<noteq> double_quote"
  shows "tokenize_loop cur False False h cs =
     (let ws = split_by is_whitespace cs in
      (if h \<or> cur \<noteq> [] \<or> hd ws \<noteq> [] then [cur @ hd ws] else []) @ filter (\<lambda>w. w \<noteq> []) (tl ws))"
  using assms
proof (induction cs arbitrary: cur h)
  case Nil
  then show ?case by simp
next
  case (Cons c cs)
  obtain w ws where ws: "split_by is_whitespace cs = w # ws"
    by (cases "split_by is_whitespace cs") auto
  from Cons have q: "c \<noteq> single_quote" "c \<noteq> double_quote" by auto
  have IH: "tokenize_loop cur' False False h' cs =
      (if h' \<or> cur' \<noteq> [] \<or> w \<noteq> [] then [cur' @ w] else []) @ filter (\<lambda>w. w \<noteq> []) ws" for cur' h'
    using Cons.IH [of cur' h'] Cons.prems ws by simp
  show ?case using q by (auto simp: IH ws)
qed

lemma tokenize_plain:
  assumes "\<And>c. c \<in> set cmd \<Longrightarrow> c \<noteq> single_quote \<and> c \<noteq> double_quote"
  shows "tokenize_command cmd = split_whitespace cmd"
proof -
  obtain w ws where "split_by is_whitespace cmd = w # ws"
    by (cases "split_by is_whitespace cmd") auto
  with tokenize_plain_loop [OF assms, of cmd "[]" False] show ?thesis
    by (auto simp: tokenize_command_def split_whitespace_def)
qed

lemma strip_env_tokens_idem [simp]: "strip_env_tokens (strip_env_tokens ts) = strip_env_tokens ts"
  by (simp add: strip_env_tokens_def dropWhile_idem)

lemma foldl_choose_bounds:
  fixes m hi :: nat and P :: "'k \<Rightarrow> bool"
  assumes "\<And>k a. (k, a) \<in> set tab \<Longrightarrow> a \<le> hi" and "m \<le> hi"
  defines "f \<equiv> \<lambda>keep (key, arity). if P key \<and> arity > keep then arity else keep"
  shows "m \<le> foldl f m tab \<and> foldl f m tab \<le> hi"
  using assms(1,2)
proof (induction tab arbitrary: m)
  case Nil
  then show ?case by simp
next
  case (Cons ka tab)
  obtain k a where ka: "ka = (k, a)" by fastforce
  have le: "m \<le> f m ka" and hi: "f m ka \<le> hi"
    using Cons.prems ka by (auto simp: f_def)
  have "f m ka \<le> foldl f (f m ka) tab \<and> foldl f (f m ka) tab \<le> hi"
    using Cons.prems(1) hi by (intro Cons.IH) auto
  with le show ?case by auto
qed

lemma arity_keep_bounds: "1 \<le> arity_keep rest \<and> arity_keep rest \<le> 3"
proof -
  have "list_all (\<lambda>(k, a). a \<le> 3) arity_table" by (simp add: arity_table_def)
  then have "\<And>k a. (k, a) \<in> set arity_table \<Longrightarrow> a \<le> 3" by (auto simp: list_all_iff)
  from foldl_choose_bounds [where m = 1 and P = "\<lambda>key. prefix (split_whitespace key) rest", OF this]
  show ?thesis unfolding arity_keep_def by simp
qed

section \<open>Properties\<close>

lemma command_segments_chars: "s \<in> set (command_segments cmd) \<Longrightarrow> set s \<subseteq> set cmd"
proof -
  assume "s \<in> set (command_segments cmd)"
  then obtain q seg where seg: "seg \<in> set (fst (scan_segments cmd q))" "s = trim seg"
    by (auto simp: command_segments_def finish_segments_def split: prod.splits if_splits)
      (metis fst_conv)+
  then have "set seg \<subseteq> set cmd"
    using scan_loop_chars [of seg q "[]" False False None cmd] by (simp add: scan_segments_def)
  with seg(2) set_trim [of seg] show ?thesis by auto
qed

lemma command_segments_unbalanced:
  assumes "\<not> snd (scan_segments cmd True)" and "s \<in> set (command_segments cmd)"
  shows "CHR '';'' \<notin> set s \<and> CHR 0x0A \<notin> set s \<and> CHR 0x0D \<notin> set s"
proof -
  from assms obtain seg where seg: "seg \<in> set (fst (scan_segments cmd False))" "s = trim seg"
    by (cases "scan_segments cmd True") (auto simp: command_segments_def finish_segments_def)
  have "CHR '';'' \<notin> set seg \<and> CHR 0x0A \<notin> set seg \<and> CHR 0x0D \<notin> set seg"
    using scan_blind_separators [of "[]" seg None cmd] seg(1) by (simp add: scan_segments_def)
  with seg(2) set_trim [of seg] show ?thesis by auto
qed

text \<open>
  The segments of a compound command are what the policy rules are matched against: each is
  non-empty, trimmed and made of characters of the command, no two neighbours are equal, and when the
  command's quotes do not balance the scan falls back to one that no quote can blind, so that no
  segment contains a separator.
\<close>

theorem segments_wellformed:
  "distinct_adj (command_segments cmd)
   \<and> (\<forall>s\<in>set (command_segments cmd). s \<noteq> [] \<and> trimmed s \<and> set s \<subseteq> set cmd
        \<and> (\<not> snd (scan_segments cmd True) \<longrightarrow>
             CHR '';'' \<notin> set s \<and> CHR 0x0A \<notin> set s \<and> CHR 0x0D \<notin> set s))"
  using command_segments_finish [of cmd] finish_segments_adj command_segments_wf [of _ cmd]
    command_segments_chars [of _ cmd] command_segments_unbalanced [of cmd]
  by metis

lemma segments_wellformed_witness:
  "command_segments (''echo '' @ [single_quote] @ ''a; rm -rf x'') =
     [''echo '' @ [single_quote] @ ''a'', ''rm -rf x'']
   \<and> CHR '';'' \<notin> set ''rm -rf x''"
proof -
  let ?cmd = "''echo '' @ [single_quote] @ ''a; rm -rf x''"
  have s: "command_segments ?cmd = [''echo '' @ [single_quote] @ ''a'', ''rm -rf x'']"
    and u: "\<not> snd (scan_segments ?cmd True)" by code_simp+
  have "CHR '';'' \<notin> set ''rm -rf x''"
    using segments_wellformed [of ?cmd] u unfolding s by (meson list.set_intros)
  with s show ?thesis by simp
qed

end
