(* ===== verification/Matcher.thy ===== *)
theory Matcher
  imports Command_Arity "HOL-Library.List_Lexorder" "HOL-Library.Char_ord"
begin

text \<open>
  \<open>crates/nemesis-security/src/matcher.rs\<close>: glob patterns for paths, commands and domains, the
  normal form of a command line, the payload of an interpreter wrapper, the bucket match of exec
  rules and the sensitive flags.

  The crates \<open>regex\<close> and \<open>unicode-normalization\<close> are not part of the repository: they are the fields
  of \<open>externals\<close>, which every function that uses them takes as an argument. The code builds the
  regular expression text itself; what it relies on of the engine is the locale \<open>regex_engine\<close>.
\<close>

section \<open>External code\<close>

record externals =
  nfkc :: "string \<Rightarrow> string"
  re_match :: "string \<Rightarrow> string \<Rightarrow> bool option" \<comment> \<open>\<open>Regex::new(re).map(|re| re.is_match(t))\<close>, \<open>None\<close>: no regex\<close>
  re_escape :: "string \<Rightarrow> string"
  on_windows :: bool \<comment> \<open>\<open>cfg!(windows)\<close>\<close>

abbreviation "backslash \<equiv> CHR 0x5C"
abbreviation "NUL \<equiv> CHR 0x00"

section \<open>Path patterns\<close>

definition normalize_separators :: "string \<Rightarrow> string" where
  "normalize_separators path = replace_char backslash ''/'' path"

definition wildcard_meta :: "char set" where
  "wildcard_meta = {CHR 0x5E, CHR 0x24, CHR 0x2B, CHR 0x2E, CHR 0x3F, CHR 0x28, CHR 0x29, CHR 0x5B,
     CHR 0x5D, CHR 0x7B, CHR 0x7D, CHR 0x7C, CHR 0x5C}"

fun wildcard_body :: "string \<Rightarrow> string" where
  "wildcard_body [] = []"
| "wildcard_body [c] =
     (if c = CHR ''*'' then ''[^/]*''
      else if c \<in> wildcard_meta then [backslash, c] else [c])"
| "wildcard_body (c # d # cs) =
     (if c = CHR ''*'' \<and> d = CHR ''*'' then ''.*'' @ wildcard_body cs
      else if c = CHR ''*'' then ''[^/]*'' @ wildcard_body (d # cs)
      else if c \<in> wildcard_meta then backslash # c # wildcard_body (d # cs)
      else c # wildcard_body (d # cs))"

definition wildcard_to_regex :: "string \<Rightarrow> string" where
  "wildcard_to_regex pattern = ''^'' @ wildcard_body pattern @ ''$''"

definition do_match :: "externals \<Rightarrow> string \<Rightarrow> string \<Rightarrow> bool" where
  "do_match E pattern target =
     (case re_match E (wildcard_to_regex pattern) target of Some b \<Rightarrow> b | None \<Rightarrow> False)"

definition match_pattern :: "externals \<Rightarrow> string \<Rightarrow> string \<Rightarrow> bool" where
  "match_pattern E pattern target =
     (let pattern = normalize_separators pattern; target = normalize_separators target in
      if CHR ''*'' \<notin> set pattern then pattern = target
      else if CHR ''/'' \<notin> set pattern then do_match E (''**'' @ pattern) target
      else do_match E pattern target)"

definition match_path_rule :: "externals \<Rightarrow> string \<Rightarrow> string \<Rightarrow> bool" where
  "match_path_rule E pattern target =
     (if on_windows E then match_pattern E (to_lowercase pattern) (to_lowercase target)
      else match_pattern E pattern target)"

section \<open>Command and domain patterns\<close>

definition wildcard_placeholder :: string where
  "wildcard_placeholder = NUL # ''WILDCARD'' @ [NUL]"

definition dot_placeholder :: string where
  "dot_placeholder = NUL # ''LITERALDOT'' @ [NUL]"

definition command_regex :: "externals \<Rightarrow> string \<Rightarrow> string" where
  "command_regex E pattern =
     (let escaped = replace_char CHR ''*'' wildcard_placeholder pattern;
          quoted = re_escape E escaped;
          regex_body = replace_str wildcard_placeholder ''.*'' quoted
      in ''^'' @ regex_body @ ''$'')"

definition match_command_pattern :: "externals \<Rightarrow> string \<Rightarrow> string \<Rightarrow> bool" where
  "match_command_pattern E pattern command =
     (case re_match E (command_regex E pattern) command of Some b \<Rightarrow> b | None \<Rightarrow> False)"

definition domain_regex :: "externals \<Rightarrow> string \<Rightarrow> string" where
  "domain_regex E pattern =
     (let p1 = replace_char CHR ''*'' wildcard_placeholder pattern;
          p2 = replace_char CHR ''.'' dot_placeholder p1;
          p3 = re_escape E p2;
          p4 = replace_str wildcard_placeholder ''[^.]*'' p3;
          p5 = replace_str dot_placeholder [backslash, CHR ''.''] p4
      in ''^'' @ p5 @ ''$'')"

definition match_domain_pattern :: "externals \<Rightarrow> string \<Rightarrow> string \<Rightarrow> bool" where
  "match_domain_pattern E pattern domain =
     (let domain = to_lowercase domain; pattern = to_lowercase pattern in
      if CHR ''*'' \<notin> set pattern then domain = pattern
      else (case re_match E (domain_regex E pattern) domain of Some b \<Rightarrow> b | None \<Rightarrow> False))"

section \<open>Normal form of a command line\<close>

definition quote_chars :: "char set" where
  "quote_chars = {double_quote, single_quote, back_quote}"

definition normalize_exec_command :: "externals \<Rightarrow> string \<Rightarrow> string" where
  "normalize_exec_command E command =
     (let folded = nfkc E command;
          collapsed = join '' '' (split_whitespace folded);
          no_quotes = filter (\<lambda>c. c \<notin> quote_chars) collapsed
      in to_lowercase no_quotes)"

definition bin_key :: "string \<Rightarrow> string" where
  "bin_key token =
     (case strip_suffix ''.exe'' (basename token) of Some b \<Rightarrow> b | None \<Rightarrow> basename token)"

section \<open>Interpreter wrappers\<close>

definition wrappers :: "(string \<times> string list) list" where
  "wrappers =
    [(''powershell'', [''-c'', ''-command'', ''-e'', ''-enc'']),
     (''pwsh'', [''-c'', ''-command'', ''-e'', ''-enc'']),
     (''cmd'', [''/c'', ''/k'']),
     (''sh'', [''-c'']), (''bash'', [''-c'']), (''zsh'', [''-c'']), (''ksh'', [''-c'']), (''fish'', [''-c'']),
     (''python'', [''-c'']), (''python3'', [''-c'']), (''python2'', [''-c'']),
     (''node'', [''-e'', ''--eval'']), (''perl'', [''-e'']), (''ruby'', [''-e''])]"

text \<open>Byte offsets the code gives the tokens: it adds one per separator, whatever stands between.\<close>

fun token_offsets :: "nat \<Rightarrow> string list \<Rightarrow> (string \<times> nat) list" where
  "token_offsets off [] = []"
| "token_offsets off (t # ts) = (t, off) # token_offsets (off + utf8_len t + 1) ts"

definition payload_after :: "string \<Rightarrow> (string \<times> nat) list \<Rightarrow> string list \<Rightarrow> string list" where
  "payload_after cmd later flags =
     (case find (\<lambda>(u, off). u \<in> set flags) later of
        None \<Rightarrow> []
      | Some (u, off) \<Rightarrow>
          (case get_from cmd (off + utf8_len u) of
             None \<Rightarrow> []
           | Some payload \<Rightarrow> if trim payload = [] then [] else [trim payload]))"

fun payload_scan :: "string \<Rightarrow> (string \<times> nat) list \<Rightarrow> string list" where
  "payload_scan cmd [] = []"
| "payload_scan cmd ((t, off) # later) =
     (case map_of wrappers (bin_key t) of
        None \<Rightarrow> []
      | Some flags \<Rightarrow> payload_after cmd later flags) @ payload_scan cmd later"

definition extract_interpreter_payloads :: "string \<Rightarrow> string list" where
  "extract_interpreter_payloads cmd = payload_scan cmd (token_offsets 0 (tokens cmd))"

fun glob_contains_loop :: "string list \<Rightarrow> string \<Rightarrow> bool" where
  "glob_contains_loop [] rest = True"
| "glob_contains_loop (seg # segs) rest =
     (case after_first seg rest of Some r \<Rightarrow> glob_contains_loop segs r | None \<Rightarrow> False)"

definition glob_contains :: "string \<Rightarrow> string \<Rightarrow> bool" where
  "glob_contains pattern text =
     glob_contains_loop (filter (\<lambda>s. s \<noteq> []) (split_char CHR ''*'' pattern)) text"

section \<open>Exec rules\<close>

definition exec_rule_segments :: "externals \<Rightarrow> string \<Rightarrow> string list" where
  "exec_rule_segments E target =
     map (\<lambda>seg. strip_env_assignments (normalize_exec_command E seg)) (command_segments target)"

definition exec_rule_bucket_match ::
  "externals \<Rightarrow> string \<Rightarrow> string \<Rightarrow> string \<Rightarrow> string list \<Rightarrow> bool" where
  "exec_rule_bucket_match E bucket pattern target_normalized segs =
     (let hit = match_command_pattern E (normalize_exec_command E pattern) in
      if bucket = ''allow'' then segs \<noteq> [] \<and> list_all hit segs
      else list_ex hit segs \<or> hit (strip_env_assignments target_normalized) \<or> hit target_normalized)"

section \<open>Sensitive flags\<close>

definition any_starts :: "string \<Rightarrow> string list \<Rightarrow> bool" where
  "any_starts p ts = list_ex (\<lambda>t. starts_with t p) ts"

definition adjacent_pair :: "string \<Rightarrow> string \<Rightarrow> string list \<Rightarrow> bool" where
  "adjacent_pair a b ts = list_ex (\<lambda>(x, y). x = a \<and> y = b) (zip ts (tl ts))"

definition rm_combo :: "string \<Rightarrow> bool" where
  "rm_combo t \<longleftrightarrow> 1 < length t \<and> starts_with t ''-'' \<and> \<not> starts_with t ''--''
     \<and> CHR ''r'' \<in> set t \<and> CHR ''f'' \<in> set t"

definition segment_flag_hits :: "string \<Rightarrow> string list" where
  "segment_flag_hits seg =
     (case tokens seg of
        [] \<Rightarrow> []
      | raw_head # rest \<Rightarrow>
          (let head = bin_key raw_head; has = (\<lambda>f. f \<in> set rest) in
           if head = ''git'' then
             (if has ''push'' \<and> (has ''--force'' \<or> has ''-f'' \<or> any_starts ''--force-with-lease'' rest)
              then [''--force'']
              else if has ''reset'' \<and> has ''--hard'' then [''--hard'']
              else if has ''clean'' \<and> list_ex (\<lambda>t. starts_with t ''-'' \<and> CHR ''f'' \<in> set t) rest
              then [''-f'']
              else if (has ''checkout'' \<or> has ''restore'') \<and> has ''--force'' then [''--force'']
              else [])
           else if head = ''rm'' then
             (if list_ex rm_combo rest
                 \<or> (has ''-r'' \<and> has ''-f'' \<or> has ''--recursive'' \<and> has ''--force'')
              then [''-rf''] else [])
           else if head = ''taskkill'' \<and> (has ''/f'' \<or> has ''//f'') then [''/f'']
           else if head = ''docker'' then
             (if (has ''rm'' \<or> has ''rmi'' \<or> adjacent_pair ''system'' ''prune'' rest
                  \<or> adjacent_pair ''volume'' ''rm'' rest) \<and> (has ''--force'' \<or> has ''-f'')
              then [''--force''] else [])
           else []))"

definition scan_dangerous_flags :: "string list \<Rightarrow> string list" where
  "scan_dangerous_flags segs = remdups_adj (sort (concat (map segment_flag_hits segs)))"

lemma scan_dangerous_flags_empty:
  "scan_dangerous_flags segs = [] \<longleftrightarrow> (\<forall>seg\<in>set segs. segment_flag_hits seg = [])"
proof -
  have "sort xs = [] \<longleftrightarrow> xs = []" for xs :: "string list"
    by (metis length_0_conv length_sort)
  then show ?thesis by (auto simp: scan_dangerous_flags_def)
qed

end
