(* ===== verification/Glob_Spec.thy ===== *)
theory Glob_Spec
  imports Matcher
begin

text \<open>
  What the three pattern matchers of \<open>matcher.rs\<close> promise: the set of strings a pattern denotes, as
  a language of atoms (a literal, or a run of characters of a class). The locale \<open>regex_engine\<close> states
  what the code relies on of the crate \<open>regex\<close>: \<open>escape\<close> works character by character, and an anchored
  sequence of such atoms matches exactly its language. Under that contract the regular expressions
  that \<open>matcher.rs\<close> assembles decide the languages. The contract is met by a small engine for the
  fragment of the syntax the code produces (\<open>reference_externals\<close>), with which witnesses evaluate.
\<close>

section \<open>Atoms and their language\<close>

datatype char_class = NotNewline | NotSlash | NotDot

fun in_class :: "char_class \<Rightarrow> char \<Rightarrow> bool" where
  "in_class NotNewline c \<longleftrightarrow> c \<noteq> CHR 0x0A"
| "in_class NotSlash c \<longleftrightarrow> c \<noteq> CHR ''/''"
| "in_class NotDot c \<longleftrightarrow> c \<noteq> CHR ''.''"

datatype atom = Lit char | Esc char | Many char_class

fun atom_text :: "atom \<Rightarrow> string" where
  "atom_text (Lit c) = [c]"
| "atom_text (Esc c) = [backslash, c]"
| "atom_text (Many NotNewline) = ''.*''"
| "atom_text (Many NotSlash) = ''[^/]*''"
| "atom_text (Many NotDot) = ''[^.]*''"

abbreviation atoms_text :: "atom list \<Rightarrow> string" where
  "atoms_text as \<equiv> concat (map atom_text as)"

definition regex_specials :: "char set" where
  "regex_specials = insert CHR ''*'' wildcard_meta"

definition escapable :: "char set" where
  "escapable = regex_specials \<union> {CHR 0x23, CHR 0x26, CHR 0x2D, CHR 0x7E}"

fun wf_atom :: "atom \<Rightarrow> bool" where
  "wf_atom (Lit c) \<longleftrightarrow> c \<notin> regex_specials"
| "wf_atom (Esc c) \<longleftrightarrow> c \<in> escapable"
| "wf_atom (Many k) \<longleftrightarrow> True"

definition escape_char :: "char \<Rightarrow> string" where
  "escape_char c = (if c \<in> escapable then [backslash, c] else [c])"

fun atom_lang :: "atom list \<Rightarrow> string set" where
  "atom_lang [] = {[]}"
| "atom_lang (Lit c # as) = {c # w | w. w \<in> atom_lang as}"
| "atom_lang (Esc c # as) = {c # w | w. w \<in> atom_lang as}"
| "atom_lang (Many k # as) = {u @ w | u w. (\<forall>c\<in>set u. in_class k c) \<and> w \<in> atom_lang as}"

fun atoms_match :: "atom list \<Rightarrow> string \<Rightarrow> bool" where
  "atoms_match [] t \<longleftrightarrow> t = []"
| "atoms_match (Lit c # as) t \<longleftrightarrow> (case t of [] \<Rightarrow> False | x # xs \<Rightarrow> x = c \<and> atoms_match as xs)"
| "atoms_match (Esc c # as) t \<longleftrightarrow> (case t of [] \<Rightarrow> False | x # xs \<Rightarrow> x = c \<and> atoms_match as xs)"
| "atoms_match (Many k # as) t \<longleftrightarrow> atoms_match as t
     \<or> (case t of [] \<Rightarrow> False | x # xs \<Rightarrow> in_class k x \<and> atoms_match (Many k # as) xs)"

lemma many_lang_unfold:
  "t \<in> atom_lang (Many k # as) \<longleftrightarrow> t \<in> atom_lang as
     \<or> (\<exists>x xs. t = x # xs \<and> in_class k x \<and> xs \<in> atom_lang (Many k # as))" (is "?L \<longleftrightarrow> ?R")
proof
  assume ?L
  then obtain u w where t: "t = u @ w" and u: "\<forall>c\<in>set u. in_class k c" and w: "w \<in> atom_lang as"
    by auto
  show ?R
  proof (cases u)
    case Nil
    with t w show ?thesis by simp
  next
    case (Cons x u')
    with u w have "u' @ w \<in> atom_lang (Many k # as)" by auto
    with Cons t u show ?thesis by auto
  qed
next
  assume ?R
  then show ?L
  proof
    assume "t \<in> atom_lang as"
    then have "t = [] @ t \<and> (\<forall>c\<in>set []. in_class k c) \<and> t \<in> atom_lang as" by simp
    then show ?L unfolding atom_lang.simps by blast
  next
    assume "\<exists>x xs. t = x # xs \<and> in_class k x \<and> xs \<in> atom_lang (Many k # as)"
    then obtain x u w where "t = (x # u) @ w" "\<forall>c\<in>set (x # u). in_class k c" "w \<in> atom_lang as"
      by auto
    then show ?L unfolding atom_lang.simps by blast
  qed
qed

lemma atoms_match_lang: "atoms_match as t \<longleftrightarrow> t \<in> atom_lang as"
proof (induction as t rule: atoms_match.induct)
  case (4 k as t)
  then show ?case
    by (subst many_lang_unfold) (auto simp del: atom_lang.simps split: list.splits)
qed (auto split: list.splits)

section \<open>The contract of the regex crate\<close>

locale regex_engine =
  fixes E :: externals
  assumes escape_chars: "re_escape E s = concat (map escape_char s)"
    and match_atoms: "list_all wf_atom as \<Longrightarrow>
      re_match E (''^'' @ atoms_text as @ ''$'') t = Some (atoms_match as t)"

section \<open>Atoms of a pattern\<close>

definition char_atom :: "char set \<Rightarrow> char \<Rightarrow> atom" where
  "char_atom S c = (if c \<in> S then Esc c else Lit c)"

fun path_atoms :: "string \<Rightarrow> atom list" where
  "path_atoms [] = []"
| "path_atoms [c] = (if c = CHR ''*'' then [Many NotSlash] else [char_atom wildcard_meta c])"
| "path_atoms (c # d # cs) =
     (if c = CHR ''*'' \<and> d = CHR ''*'' then Many NotNewline # path_atoms cs
      else if c = CHR ''*'' then Many NotSlash # path_atoms (d # cs)
      else char_atom wildcard_meta c # path_atoms (d # cs))"

definition command_atoms :: "string \<Rightarrow> atom list" where
  "command_atoms p = map (\<lambda>c. if c = CHR ''*'' then Many NotNewline else char_atom escapable c) p"

definition domain_atoms :: "string \<Rightarrow> atom list" where
  "domain_atoms p = map (\<lambda>c. if c = CHR ''*'' then Many NotDot else char_atom escapable c) p"

lemma star_not_meta [simp]: "CHR ''*'' \<notin> wildcard_meta"
  by (simp add: wildcard_meta_def)

lemma meta_subset: "wildcard_meta \<subseteq> regex_specials" "regex_specials \<subseteq> escapable"
  by (auto simp: regex_specials_def escapable_def)

lemma wf_path_char: "c \<noteq> CHR ''*'' \<Longrightarrow> wf_atom (char_atom wildcard_meta c)"
  using meta_subset by (auto simp: char_atom_def regex_specials_def)

lemma wf_escape_char: "wf_atom (char_atom escapable c)"
  using meta_subset by (auto simp: char_atom_def)

lemma text_char_atom: "atom_text (char_atom S c) = (if c \<in> S then [backslash, c] else [c])"
  by (simp add: char_atom_def)

lemma wildcard_body_atoms: "wildcard_body p = atoms_text (path_atoms p)"
  by (induction p rule: path_atoms.induct) (auto simp: text_char_atom)

lemma wf_path_atoms: "list_all wf_atom (path_atoms p)"
  by (induction p rule: path_atoms.induct) (auto simp: wf_path_char)

lemma wf_command_atoms: "list_all wf_atom (command_atoms p)"
  by (induction p) (auto simp: command_atoms_def wf_escape_char)

lemma wf_domain_atoms: "list_all wf_atom (domain_atoms p)"
  by (induction p) (auto simp: domain_atoms_def wf_escape_char)

section \<open>Placeholders\<close>

text \<open>Replacing a placeholder in a text made of chunks, one per pattern character.\<close>

lemma replace_chunks:
  assumes ph: "ph \<noteq> []"
    and chunk: "\<And>c. c \<in> set p \<Longrightarrow> f c = ph \<and> g c = r \<or> hd ph \<notin> set (f c) \<and> g c = f c"
  shows "replace_str ph r (concat (map f p)) = concat (map g p)"
  using chunk
proof (induction p)
  case Nil
  then show ?case by simp
next
  case (Cons c p)
  have IH: "replace_str ph r (concat (map f p)) = concat (map g p)"
    using Cons by auto
  from Cons.prems [of c] show ?case
    using IH replace_str_hit [OF ph] replace_str_skips [OF ph] by auto
qed

lemma escape_placeholder:
  "concat (map escape_char wildcard_placeholder) = wildcard_placeholder"
  "concat (map escape_char dot_placeholder) = dot_placeholder"
  by (simp_all add: wildcard_placeholder_def dot_placeholder_def escape_char_def escapable_def
      regex_specials_def wildcard_meta_def)

lemma placeholder_shape:
  "wildcard_placeholder \<noteq> []" "hd wildcard_placeholder = NUL"
  "dot_placeholder \<noteq> []" "hd dot_placeholder = NUL"
  by (simp_all add: wildcard_placeholder_def dot_placeholder_def)

lemma escape_char_nul: "NUL \<in> set (escape_char c) \<longleftrightarrow> c = NUL"
  by (auto simp: escape_char_def)

lemma concat_map_replace_char:
  "concat (map h (replace_char a b s)) = concat (map (\<lambda>c. if c = a then concat (map h b) else h c) s)"
  by (induction s) (auto simp: replace_char_def)

text \<open>
  A closed dot placeholder followed by lower-case text is not mistaken for a wildcard placeholder:
  after its final NUL the text would have to go on with the upper-case letter \<open>W\<close>.
\<close>

lemma skip_dot_placeholder:
  assumes "s = [] \<or> hd s \<noteq> CHR ''W''"
  shows "replace_str wildcard_placeholder r (dot_placeholder @ s) =
     dot_placeholder @ replace_str wildcard_placeholder r s"
proof -
  have "\<not> prefix wildcard_placeholder (NUL # s)"
    using assms by (cases s) (auto simp: wildcard_placeholder_def)
  then show ?thesis
    by (simp add: dot_placeholder_def wildcard_placeholder_def)
qed

lemma replace_wildcard_in_domain:
  assumes "NUL \<notin> set p" "CHR ''W'' \<notin> set p"
  shows "replace_str wildcard_placeholder r
      (concat (map (\<lambda>c. if c = CHR ''*'' then wildcard_placeholder
                        else if c = CHR ''.'' then dot_placeholder else escape_char c) p)) =
     concat (map (\<lambda>c. if c = CHR ''*'' then r
                        else if c = CHR ''.'' then dot_placeholder else escape_char c) p)"
  using assms
proof (induction p)
  case Nil
  then show ?case by simp
next
  case (Cons c p)
  let ?f = "\<lambda>c. if c = CHR ''*'' then wildcard_placeholder
      else if c = CHR ''.'' then dot_placeholder else escape_char c"
  let ?s = "concat (map ?f p)"
  have IH: "replace_str wildcard_placeholder r ?s = concat (map (\<lambda>c. if c = CHR ''*'' then r
      else if c = CHR ''.'' then dot_placeholder else escape_char c) p)"
    using Cons by simp
  have hd: "?s = [] \<or> hd ?s \<noteq> CHR ''W''"
    using Cons.prems by (cases p)
      (auto simp: wildcard_placeholder_def dot_placeholder_def escape_char_def)
  consider "c = CHR ''*''" | "c = CHR ''.''" | "c \<noteq> CHR ''*''" "c \<noteq> CHR ''.''" by blast
  then show ?case
  proof cases
    case 1
    then show ?thesis using IH replace_str_hit [OF placeholder_shape(1)] by simp
  next
    case 2
    then show ?thesis using IH skip_dot_placeholder [OF hd, of r] by simp
  next
    case 3
    have "hd wildcard_placeholder \<notin> set (escape_char c)"
      using Cons.prems by (auto simp: placeholder_shape escape_char_nul)
    then have "replace_str wildcard_placeholder r (escape_char c @ ?s) =
        escape_char c @ replace_str wildcard_placeholder r ?s"
      by (rule replace_str_skips [OF placeholder_shape(1)])
    then show ?thesis using 3 IH by simp
  qed
qed

section \<open>The matchers decide their languages\<close>

context regex_engine begin

lemma do_match_lang: "do_match E p t \<longleftrightarrow> t \<in> atom_lang (path_atoms p)"
  using match_atoms [OF wf_path_atoms, of p t]
  by (simp add: do_match_def wildcard_to_regex_def wildcard_body_atoms atoms_match_lang)

lemma command_regex_atoms:
  assumes "NUL \<notin> set p"
  shows "command_regex E p = ''^'' @ atoms_text (command_atoms p) @ ''$''"
proof -
  let ?f = "\<lambda>c. if c = CHR ''*'' then wildcard_placeholder else escape_char c"
  let ?g = "\<lambda>c. if c = CHR ''*'' then ''.*'' else escape_char c"
  have esc: "re_escape E (replace_char CHR ''*'' wildcard_placeholder p) = concat (map ?f p)"
    unfolding escape_chars concat_map_replace_char escape_placeholder ..
  have clean: "hd wildcard_placeholder \<notin> set (escape_char c)" if "c \<in> set p" for c
    using that assms by (auto simp: placeholder_shape escape_char_nul)
  have "replace_str wildcard_placeholder ''.*'' (concat (map ?f p)) = concat (map ?g p)"
    by (intro replace_chunks placeholder_shape) (use clean in \<open>simp\<close>)
  moreover have "concat (map ?g p) = atoms_text (command_atoms p)"
    by (induction p) (auto simp: command_atoms_def text_char_atom escape_char_def)
  ultimately show ?thesis by (simp add: command_regex_def esc)
qed

lemma match_command_lang:
  "NUL \<notin> set p \<Longrightarrow> match_command_pattern E p t \<longleftrightarrow> t \<in> atom_lang (command_atoms p)"
  using match_atoms [OF wf_command_atoms, of p t]
  by (simp add: match_command_pattern_def command_regex_atoms atoms_match_lang)

lemma domain_regex_atoms:
  assumes "NUL \<notin> set p" "CHR ''W'' \<notin> set p"
  shows "domain_regex E p = ''^'' @ atoms_text (domain_atoms p) @ ''$''"
proof -
  let ?f = "\<lambda>c. if c = CHR ''*'' then wildcard_placeholder
      else if c = CHR ''.'' then dot_placeholder else escape_char c"
  let ?g = "\<lambda>c. if c = CHR ''*'' then ''[^.]*''
      else if c = CHR ''.'' then dot_placeholder else escape_char c"
  let ?h = "\<lambda>c. if c = CHR ''*'' then ''[^.]*''
      else if c = CHR ''.'' then [backslash, CHR ''.''] else escape_char c"
  let ?d = "\<lambda>c. if c = CHR ''.'' then dot_placeholder else escape_char c"
  have dots: "re_escape E (replace_char CHR ''.'' dot_placeholder s) = concat (map ?d s)" for s
    unfolding escape_chars concat_map_replace_char escape_placeholder ..
  have wild: "concat (map ?d wildcard_placeholder) = wildcard_placeholder"
    by (simp add: wildcard_placeholder_def escape_char_def escapable_def regex_specials_def
        wildcard_meta_def)
  have esc: "re_escape E (replace_char CHR ''.'' dot_placeholder
      (replace_char CHR ''*'' wildcard_placeholder p)) = concat (map ?f p)"
    unfolding dots by (simp only: concat_map_replace_char wild)
  have clean: "hd dot_placeholder \<notin> set (?g c) \<and> ?h c = ?g c \<or>
      ?g c = dot_placeholder \<and> ?h c = [backslash, CHR ''.'']" if "c \<in> set p" for c
  proof -
    have "NUL \<notin> set (escape_char c)" using that assms by (auto simp: escape_char_nul)
    then show ?thesis by (simp add: placeholder_shape)
  qed
  have "replace_str dot_placeholder [backslash, CHR ''.''] (concat (map ?g p)) = concat (map ?h p)"
    by (intro replace_chunks placeholder_shape) (use clean in blast)
  moreover have "concat (map ?h p) = atoms_text (domain_atoms p)"
    by (induction p)
      (auto simp: domain_atoms_def text_char_atom escape_char_def escapable_def regex_specials_def
        wildcard_meta_def)
  ultimately show ?thesis
    by (simp add: domain_regex_def Let_def esc replace_wildcard_in_domain [OF assms])
qed

end

lemma lower_no_W: "CHR ''W'' \<notin> set (to_lowercase p)"
proof -
  have "is_upper_char CHR ''W''" by (simp add: is_upper_char_def)
  then show ?thesis using to_lower_char_not_upper by (auto simp: to_lowercase_def)
qed

lemma lower_nul: "NUL \<in> set (to_lowercase p) \<longleftrightarrow> NUL \<in> set p"
proof -
  have "to_lower_char c = NUL \<longleftrightarrow> c = NUL" for c
  proof (cases "is_upper_char c")
    case True
    then have "of_char (char_of (of_char c + 32 :: nat)) = (of_char c + 32 :: nat)"
      by (auto simp: is_upper_char_def Let_def)
    then have "char_of (of_char c + 32 :: nat) \<noteq> NUL" by (auto dest: arg_cong [of _ _ "of_char :: char \<Rightarrow> nat"])
    moreover have "c \<noteq> NUL" using True by (auto simp: is_upper_char_def)
    ultimately show ?thesis using True by (simp add: to_lower_char_def)
  next
    case False
    then show ?thesis by (simp add: to_lower_char_def)
  qed
  then have "NUL \<in> to_lower_char ` set p \<longleftrightarrow> NUL \<in> set p" by (metis (no_types, lifting) image_iff)
  then show ?thesis by (simp add: to_lowercase_def)
qed

context regex_engine begin

lemma match_domain_lang:
  assumes "NUL \<notin> set p"
  shows "match_domain_pattern E p d \<longleftrightarrow>
    (if CHR ''*'' \<in> set (to_lowercase p)
     then to_lowercase d \<in> atom_lang (domain_atoms (to_lowercase p))
     else to_lowercase d = to_lowercase p)"
  using match_atoms [OF wf_domain_atoms, of "to_lowercase p" "to_lowercase d"]
    domain_regex_atoms [of "to_lowercase p"] assms
  by (simp add: match_domain_pattern_def Let_def lower_no_W lower_nul atoms_match_lang)

end

section \<open>A concrete engine for the fragment\<close>

fun parse_atoms :: "string \<Rightarrow> atom list option" where
  "parse_atoms [] = None"
| "parse_atoms (c # s) =
     (if c = CHR ''$'' then (if s = [] then Some [] else None)
      else if c = backslash then
        (case s of [] \<Rightarrow> None
         | d # r \<Rightarrow> if d \<in> escapable then map_option (\<lambda>as. Esc d # as) (parse_atoms r) else None)
      else if c = CHR ''.'' then
        (case s of [] \<Rightarrow> None
         | d # r \<Rightarrow> if d = CHR ''*'' then map_option (\<lambda>as. Many NotNewline # as) (parse_atoms r) else None)
      else if c = CHR ''['' then
        (if prefix ''^/]*'' s then map_option (\<lambda>as. Many NotSlash # as) (parse_atoms (drop 4 s))
         else if prefix ''^.]*'' s then map_option (\<lambda>as. Many NotDot # as) (parse_atoms (drop 4 s))
         else None)
      else if c \<in> regex_specials then None
      else map_option (\<lambda>as. Lit c # as) (parse_atoms s))"

definition reference_regex :: "string \<Rightarrow> string \<Rightarrow> bool option" where
  "reference_regex re t =
     (case re of [] \<Rightarrow> None
      | c # s \<Rightarrow> if c = CHR 0x5E then map_option (\<lambda>as. atoms_match as t) (parse_atoms s) else None)"

definition reference_escape :: "string \<Rightarrow> string" where
  "reference_escape s = concat (map escape_char s)"

definition reference_externals :: externals where
  "reference_externals = \<lparr>nfkc = (\<lambda>s. s), re_match = reference_regex, re_escape = reference_escape,
     on_windows = False\<rparr>"

lemma regex_specials_mem:
  "CHR ''$'' \<in> regex_specials" "backslash \<in> regex_specials" "CHR ''.'' \<in> regex_specials"
  "CHR ''['' \<in> regex_specials"
  by (simp_all add: regex_specials_def wildcard_meta_def)

lemma parse_atoms_text: "list_all wf_atom as \<Longrightarrow> parse_atoms (atoms_text as @ ''$'') = Some as"
proof (induction as)
  case Nil
  then show ?case by simp
next
  case (Cons a as)
  then have IH: "parse_atoms (atoms_text as @ ''$'') = Some as" by simp
  show ?case
  proof (cases a)
    case (Lit c)
    then have "c \<notin> regex_specials" using Cons.prems by simp
    then show ?thesis using Lit IH regex_specials_mem by auto
  next
    case (Esc c)
    then show ?thesis using Cons.prems IH by simp
  next
    case (Many k)
    then show ?thesis using IH by (cases k) simp_all
  qed
qed

interpretation reference: regex_engine reference_externals
proof
  fix s as t
  show "re_escape reference_externals s = concat (map escape_char s)"
    by (simp add: reference_externals_def reference_escape_def)
  assume "list_all wf_atom as"
  then show "re_match reference_externals (''^'' @ atoms_text as @ ''$'') t = Some (atoms_match as t)"
    by (simp add: reference_externals_def reference_regex_def parse_atoms_text)
qed

lemma reference_nfkc [simp]: "nfkc reference_externals s = s"
  by (simp add: reference_externals_def)

section \<open>Properties\<close>

text \<open>
  Path patterns denote the language of their atoms: after both sides have their separators
  normalised, a pattern without star matches only itself; otherwise the target must be in the language
  where \<open>**\<close> is any run of characters but a newline and a single star any run without a slash. A
  pattern without a slash is matched at any depth.
\<close>

theorem path_pattern_language:
  assumes "regex_engine E"
  shows "match_pattern E p t \<longleftrightarrow>
    (let p' = normalize_separators p; t' = normalize_separators t in
     if CHR ''*'' \<notin> set p' then p' = t'
     else t' \<in> atom_lang (path_atoms (if CHR ''/'' \<in> set p' then p' else ''**'' @ p')))"
  by (simp add: match_pattern_def Let_def regex_engine.do_match_lang [OF assms])

lemma path_pattern_language_witness:
  "match_pattern reference_externals ''/etc/*.conf'' ''/etc/host.conf''
   \<and> \<not> match_pattern reference_externals ''/etc/*.conf'' ''/etc/a/host.conf''"
proof -
  let ?p = "path_atoms ''/etc/*.conf''"
  have "atoms_match ?p ''/etc/host.conf''" "\<not> atoms_match ?p ''/etc/a/host.conf''" by code_simp+
  then have "''/etc/host.conf'' \<in> atom_lang ?p" "''/etc/a/host.conf'' \<notin> atom_lang ?p"
    by (simp_all only: atoms_match_lang simp_thms)
  moreover have "normalize_separators ''/etc/*.conf'' = ''/etc/*.conf''"
    "normalize_separators ''/etc/host.conf'' = ''/etc/host.conf''"
    "normalize_separators ''/etc/a/host.conf'' = ''/etc/a/host.conf''" by code_simp+
  ultimately show ?thesis
    using path_pattern_language [OF reference.regex_engine_axioms, of "''/etc/*.conf''" "''/etc/host.conf''"]
      path_pattern_language [OF reference.regex_engine_axioms, of "''/etc/*.conf''" "''/etc/a/host.conf''"]
    by (simp only: Let_def) simp
qed

text \<open>
  Command patterns: for a pattern without NUL (the code's placeholder starts with one), a command
  matches exactly when it is in the language in which every star is a run of characters but a newline
  and every other character stands for itself.
\<close>

theorem command_pattern_language:
  assumes "regex_engine E" and "NUL \<notin> set p"
  shows "match_command_pattern E p t \<longleftrightarrow> t \<in> atom_lang (command_atoms p)"
  by (rule regex_engine.match_command_lang [OF assms])

lemma command_pattern_language_witness:
  "match_command_pattern reference_externals ''rm -rf *'' ''rm -rf /tmp''"
proof -
  have "atoms_match (command_atoms ''rm -rf *'') ''rm -rf /tmp''" by code_simp
  then have "''rm -rf /tmp'' \<in> atom_lang (command_atoms ''rm -rf *'')"
    by (simp only: atoms_match_lang)
  then show ?thesis
    by (subst command_pattern_language [OF reference.regex_engine_axioms]) simp_all
qed

text \<open>
  Domain patterns: case is ignored, a pattern without star matches only itself, and a star stands
  for a run of characters inside one label (no dot), every other character for itself.
\<close>

theorem domain_pattern_language:
  assumes "regex_engine E" and "NUL \<notin> set p"
  shows "match_domain_pattern E p d \<longleftrightarrow>
    (if CHR ''*'' \<in> set (to_lowercase p)
     then to_lowercase d \<in> atom_lang (domain_atoms (to_lowercase p))
     else to_lowercase d = to_lowercase p)"
  by (rule regex_engine.match_domain_lang [OF assms])

lemma domain_pattern_language_witness:
  "match_domain_pattern reference_externals ''*.GitHub.com'' ''api.github.com''
   \<and> \<not> match_domain_pattern reference_externals ''*.github.com'' ''a.b.github.com''"
proof -
  have p: "to_lowercase ''*.GitHub.com'' = ''*.github.com''" "to_lowercase ''*.github.com'' = ''*.github.com''"
    "to_lowercase ''api.github.com'' = ''api.github.com''"
    "to_lowercase ''a.b.github.com'' = ''a.b.github.com''" by code_simp+
  have "atoms_match (domain_atoms ''*.github.com'') ''api.github.com''"
    "\<not> atoms_match (domain_atoms ''*.github.com'') ''a.b.github.com''" by code_simp+
  then have "''api.github.com'' \<in> atom_lang (domain_atoms ''*.github.com'')"
    "''a.b.github.com'' \<notin> atom_lang (domain_atoms ''*.github.com'')"
    by (simp_all only: atoms_match_lang simp_thms)
  then show ?thesis
    using domain_pattern_language [OF reference.regex_engine_axioms, of "''*.GitHub.com''" "''api.github.com''"]
      domain_pattern_language [OF reference.regex_engine_axioms, of "''*.github.com''" "''a.b.github.com''"]
    unfolding p by simp
qed

text \<open>
  The dot of the engine does not match a newline, and the code compiles its patterns without the
  flag that would change it: a path rule that is meant to cover everything below a directory misses a
  file whose name holds one.
\<close>

theorem path_rule_misses_newline:
  assumes "regex_engine E"
  shows "\<not> match_pattern E ''/etc/**'' (''/etc/a'' @ [CHR 0x0A] @ ''b'')
    \<and> match_pattern E ''/etc/**'' ''/etc/ab''"
proof -
  let ?p = "path_atoms ''/etc/**''"
  have "\<not> atoms_match ?p (''/etc/a'' @ [CHR 0x0A] @ ''b'')" "atoms_match ?p ''/etc/ab''" by code_simp+
  then have "\<not> do_match E ''/etc/**'' (''/etc/a'' @ [CHR 0x0A] @ ''b'')" "do_match E ''/etc/**'' ''/etc/ab''"
    by (simp_all only: regex_engine.do_match_lang [OF assms] atoms_match_lang simp_thms)
  moreover have "normalize_separators ''/etc/**'' = ''/etc/**''"
    "normalize_separators (''/etc/a'' @ [CHR 0x0A] @ ''b'') = ''/etc/a'' @ [CHR 0x0A] @ ''b''"
    "normalize_separators ''/etc/ab'' = ''/etc/ab''" by code_simp+
  ultimately show ?thesis by (simp only: match_pattern_def Let_def) simp
qed

lemma path_rule_misses_newline_witness:
  "\<not> match_pattern reference_externals ''/etc/**'' (''/etc/a'' @ [CHR 0x0A] @ ''b'')"
  using path_rule_misses_newline [OF reference.regex_engine_axioms] by (rule conjunct1)

lemma normalize_exec_quotes: "set (normalize_exec_command E cmd) \<inter> quote_chars = {}"
proof -
  have "to_lower_char c \<in> quote_chars \<Longrightarrow> c \<in> quote_chars" for c
  proof -
    assume a: "to_lower_char c \<in> quote_chars"
    have "\<not> is_upper_char c"
    proof
      assume u: "is_upper_char c"
      then have "of_char (to_lower_char c) = (of_char c + 32 :: nat)"
        by (auto simp: to_lower_char_def is_upper_char_def Let_def)
      moreover have "97 \<le> (of_char c + 32 :: nat)" using u by (auto simp: is_upper_char_def Let_def)
      ultimately show False using a by (auto simp: quote_chars_def)
    qed
    with a show "c \<in> quote_chars" by (simp add: to_lower_char_def)
  qed
  then show ?thesis by (auto simp: normalize_exec_command_def to_lowercase_def Let_def)
qed

text \<open>
  The normal form of a command line has no quote character and no upper-case letter, whatever the
  Unicode folding returns.
\<close>

theorem normal_form_clean:
  "set (normalize_exec_command E cmd) \<inter> quote_chars = {}
   \<and> to_lowercase (normalize_exec_command E cmd) = normalize_exec_command E cmd"
  using normalize_exec_quotes [of E cmd] by (simp add: normalize_exec_command_def Let_def)

text \<open>
  Quotes are removed after the white space has been collapsed, so an empty quoted argument leaves
  two spaces in the normal form, and a deny rule written for the plain command does not match it.
\<close>

theorem empty_argument_evades_rule:
  "normalize_exec_command reference_externals ([CHR ''r'', CHR ''m'', CHR '' '', double_quote, double_quote]
       @ '' -rf x'') = ''rm  -rf x''
   \<and> \<not> match_command_pattern reference_externals ''rm -rf *'' ''rm  -rf x''
   \<and> match_command_pattern reference_externals ''rm -rf *'' ''rm -rf x''"
proof -
  have "\<not> atoms_match (command_atoms ''rm -rf *'') ''rm  -rf x''"
    "atoms_match (command_atoms ''rm -rf *'') ''rm -rf x''" by code_simp+
  moreover have "normalize_exec_command reference_externals
     ([CHR ''r'', CHR ''m'', CHR '' '', double_quote, double_quote] @ '' -rf x'') = ''rm  -rf x''"
    by code_simp
  ultimately show ?thesis
    by (simp add: reference.match_command_lang atoms_match_lang [symmetric])
qed

end
