(* ===== verification/Json.thy ===== *)
theory Json
  imports Prelude
begin

text \<open>
  JSON values as \<open>serde_json::Value\<close> has them. A number is kept as the text that is printed for it; an
  object is the list of its entries in the order the program visits them.
\<close>

datatype json =
    JNull
  | JBool bool
  | JNumber string
  | JString string
  | JArray "json list"
  | JObject "(string \<times> json) list"

fun as_object :: "json \<Rightarrow> (string \<times> json) list option" where
  "as_object (JObject kvs) = Some kvs"
| "as_object _ = None"

fun as_array :: "json \<Rightarrow> json list option" where
  "as_array (JArray xs) = Some xs"
| "as_array _ = None"

fun as_str :: "json \<Rightarrow> string option" where
  "as_str (JString s) = Some s"
| "as_str _ = None"

text \<open>\<open>Value::get\<close> with a string key: the field of an object, \<open>None\<close> for every other value.\<close>

definition json_get :: "string \<Rightarrow> json \<Rightarrow> json option" where
  "json_get k v = Option.bind (as_object v) (\<lambda>kvs. map_of kvs k)"

lemma json_get_simps [simp]:
  "json_get k (JObject kvs) = map_of kvs k" "json_get k JNull = None" "json_get k (JBool b) = None"
  "json_get k (JNumber n) = None" "json_get k (JString s) = None" "json_get k (JArray xs) = None"
  by (simp_all add: json_get_def)

lemma json_get_size: "json_get k v = Some w \<Longrightarrow> size w < size v"
proof (cases v)
  case (JObject kvs)
  assume "json_get k v = Some w"
  with JObject have "(k, w) \<in> set kvs" by (auto simp: json_get_def dest: map_of_SomeD)
  then have "size w < Suc (size_list (size_prod (\<lambda>x. 0) size) kvs)"
    by (induction kvs) (auto simp: less_Suc_eq_le)
  with JObject show ?thesis by simp
qed (auto simp: json_get_def)

lemma json_array_size: "as_array v = Some xs \<Longrightarrow> x \<in> set xs \<Longrightarrow> size x < size v"
proof (cases v)
  case (JArray ys)
  assume "as_array v = Some xs" "x \<in> set xs"
  with JArray have "x \<in> set ys" by simp
  then have "size x < Suc (size_list size ys)" by (induction ys) auto
  with JArray show ?thesis by simp
qed auto

end
