(* ===== verification/Security_Types.thy ===== *)
theory Security_Types
  imports Rust_Str Json
begin

text \<open>
  \<open>crates/nemesis-security/src/types.rs\<close>: operation types and their slugs, danger levels, the
  table that gives a tool its operation type (with the process-wide declarations of dynamic tools),
  and what the pipeline extracts from a tool's JSON arguments. \<open>serde_json::Value\<close> is the datatype
  \<open>json\<close>; a number keeps its literal text, which nothing here reads.
\<close>

section \<open>Operation types\<close>

datatype operation_type =
    FileRead | FileWrite | FileDelete | DirRead
  | DirCreate | DirDelete | ProcessExec | ProcessSpawn
  | ProcessKill | ProcessSuspend | NetworkDownload | NetworkUpload
  | NetworkRequest | HardwareI2C | HardwareSPI | HardwareGPIO
  | SystemShutdown | SystemReboot | SystemConfig | SystemService
  | SystemInstall | RegistryRead | RegistryWrite | RegistryDelete
  | Internal | Ziwei

fun op_display :: "operation_type \<Rightarrow> string" where
  "op_display FileRead = ''file_read''"
| "op_display FileWrite = ''file_write''"
| "op_display FileDelete = ''file_delete''"
| "op_display DirRead = ''dir_read''"
| "op_display DirCreate = ''dir_create''"
| "op_display DirDelete = ''dir_delete''"
| "op_display ProcessExec = ''process_exec''"
| "op_display ProcessSpawn = ''process_spawn''"
| "op_display ProcessKill = ''process_kill''"
| "op_display ProcessSuspend = ''process_suspend''"
| "op_display NetworkDownload = ''network_download''"
| "op_display NetworkUpload = ''network_upload''"
| "op_display NetworkRequest = ''network_request''"
| "op_display HardwareI2C = ''hardware_i2c''"
| "op_display HardwareSPI = ''hardware_spi''"
| "op_display HardwareGPIO = ''hardware_gpio''"
| "op_display SystemShutdown = ''system_shutdown''"
| "op_display SystemReboot = ''system_reboot''"
| "op_display SystemConfig = ''system_config''"
| "op_display SystemService = ''system_service''"
| "op_display SystemInstall = ''system_install''"
| "op_display RegistryRead = ''registry_read''"
| "op_display RegistryWrite = ''registry_write''"
| "op_display RegistryDelete = ''registry_delete''"
| "op_display Internal = ''internal''"
| "op_display Ziwei = ''ziwei''"

datatype danger_level = Low | Medium | High | Critical

fun danger_rank :: "danger_level \<Rightarrow> nat" where
  "danger_rank Low = 0"
| "danger_rank Medium = 1"
| "danger_rank High = 2"
| "danger_rank Critical = 3"

text \<open>\<open>#[derive(PartialOrd, Ord)]\<close> compares the discriminants.\<close>

instantiation danger_level :: linorder
begin

definition less_eq_danger_level :: "danger_level \<Rightarrow> danger_level \<Rightarrow> bool" where
  "less_eq_danger_level a b \<longleftrightarrow> danger_rank a \<le> danger_rank b"

definition less_danger_level :: "danger_level \<Rightarrow> danger_level \<Rightarrow> bool" where
  "less_danger_level a b \<longleftrightarrow> danger_rank a < danger_rank b"

instance
proof
  fix x y z :: danger_level
  show "x < y \<longleftrightarrow> x \<le> y \<and> \<not> y \<le> x"
    by (auto simp: less_eq_danger_level_def less_danger_level_def)
  show "x \<le> x" by (simp add: less_eq_danger_level_def)
  show "x \<le> y \<Longrightarrow> y \<le> z \<Longrightarrow> x \<le> z" by (simp add: less_eq_danger_level_def)
  show "x \<le> y \<Longrightarrow> y \<le> x \<Longrightarrow> x = y"
    by (cases x; cases y) (simp_all add: less_eq_danger_level_def)
  show "x \<le> y \<or> y \<le> x" by (auto simp: less_eq_danger_level_def)
qed

end

fun danger_display :: "danger_level \<Rightarrow> string" where
  "danger_display Low = ''LOW''"
| "danger_display Medium = ''MEDIUM''"
| "danger_display High = ''HIGH''"
| "danger_display Critical = ''CRITICAL''"

definition get_danger_level :: "operation_type \<Rightarrow> danger_level" where
  "get_danger_level op =
     (if op \<in> {FileRead, DirRead, Internal} then Low
      else if op \<in> {NetworkDownload, NetworkRequest} then Medium
      else if op \<in> {FileWrite, FileDelete, DirCreate, DirDelete, ProcessSpawn} then High
      else if op \<in> {ProcessExec, ProcessKill, SystemShutdown, SystemReboot, SystemConfig,
                     SystemService, SystemInstall, RegistryWrite, RegistryDelete, Ziwei}
           then Critical
      else Medium)"

definition operation_type_from_slug :: "string \<Rightarrow> operation_type option" where
  "operation_type_from_slug slug =
     (if slug = ''file_read'' then Some FileRead
      else if slug = ''file_write'' then Some FileWrite
      else if slug = ''file_delete'' then Some FileDelete
      else if slug = ''dir_read'' then Some DirRead
      else if slug = ''dir_create'' then Some DirCreate
      else if slug = ''dir_delete'' then Some DirDelete
      else if slug = ''process_exec'' then Some ProcessExec
      else if slug = ''process_spawn'' then Some ProcessSpawn
      else if slug = ''process_kill'' then Some ProcessKill
      else if slug = ''process_suspend'' then Some ProcessSuspend
      else if slug = ''network_download'' then Some NetworkDownload
      else if slug = ''network_upload'' then Some NetworkUpload
      else if slug = ''network_request'' then Some NetworkRequest
      else if slug = ''hardware_i2c'' then Some HardwareI2C
      else if slug = ''hardware_spi'' then Some HardwareSPI
      else if slug = ''hardware_gpio'' then Some HardwareGPIO
      else if slug = ''system_shutdown'' then Some SystemShutdown
      else if slug = ''system_reboot'' then Some SystemReboot
      else if slug = ''system_config'' then Some SystemConfig
      else if slug = ''system_service'' then Some SystemService
      else if slug = ''system_install'' then Some SystemInstall
      else if slug = ''registry_read'' then Some RegistryRead
      else if slug = ''registry_write'' then Some RegistryWrite
      else if slug = ''registry_delete'' then Some RegistryDelete
      else if slug = ''internal'' then Some Internal
      else if slug = ''ziwei'' then Some Ziwei
      else None)"

definition danger_level_of_slug :: "string \<Rightarrow> string" where
  "danger_level_of_slug slug =
     (case operation_type_from_slug slug of
        Some op \<Rightarrow> danger_display (get_danger_level op)
      | None \<Rightarrow> ''CRITICAL'')"

record security_rule =
  sr_pattern :: string
  sr_action :: string
  sr_comment :: string

datatype security_decision = Allowed | Denied | RequireApproval

fun decision_display :: "security_decision \<Rightarrow> string" where
  "decision_display Allowed = ''allowed''"
| "decision_display Denied = ''denied''"
| "decision_display RequireApproval = ''require_approval''"

section \<open>Declared operations of dynamic tools\<close>

text \<open>
  \<open>DECLARED_TOOL_OPERATIONS\<close> is a process-wide map behind an \<open>RwLock\<close>; every function takes the map
  and the writers return the new one.
\<close>

type_synonym declared_operations = "string \<rightharpoonup> operation_type"

definition declare_tool_operation ::
  "string \<Rightarrow> operation_type \<Rightarrow> declared_operations \<Rightarrow> declared_operations" where
  "declare_tool_operation tool_name op m = m(tool_name \<mapsto> op)"

definition undeclare_tool_operation :: "string \<Rightarrow> declared_operations \<Rightarrow> declared_operations" where
  "undeclare_tool_operation tool_name m = m(tool_name := None)"

definition undeclare_tool_operations_with_prefix ::
  "string \<Rightarrow> declared_operations \<Rightarrow> declared_operations" where
  "undeclare_tool_operations_with_prefix p m = (\<lambda>name. if starts_with name p then None else m name)"

definition declared_tool_operation :: "declared_operations \<Rightarrow> string \<Rightarrow> operation_type option" where
  "declared_tool_operation m tool_name = m tool_name"

text \<open>The built-in table, arm by arm in the order of the \<open>match\<close>.\<close>

definition builtin_tool_operation :: "string \<Rightarrow> operation_type option" where
  "builtin_tool_operation t =
     (if t \<in> {''read_file'', ''file_exists''} then Some FileRead
      else if t \<in> {''write_file'', ''edit_file'', ''multiedit''} then Some FileWrite
      else if t = ''delete_file'' then Some FileDelete
      else if t \<in> {''list_directory'', ''list_dir''} then Some DirRead
      else if t \<in> {''create_directory'', ''create_dir''} then Some DirCreate
      else if t \<in> {''delete_directory'', ''delete_dir''} then Some DirDelete
      else if t \<in> {''exec'', ''execute_command'', ''shell'', ''exec_async'', ''background_start'',
                    ''background_steer'', ''cron'', ''run_script'', ''run_checks'', ''claude_code'',
                    ''codex_delegate'', ''delegate_start''} then Some ProcessExec
      else if t \<in> {''git'', ''grep''} then Some FileRead
      else if t = ''spawn'' then Some ProcessSpawn
      else if t = ''desktop'' then Some ProcessSpawn
      else if t \<in> {''kill'', ''kill_process''} then Some ProcessKill
      else if t \<in> {''download'', ''install_skill''} then Some NetworkDownload
      else if t = ''upload'' then Some NetworkUpload
      else if t \<in> {''http_request'', ''web_request'', ''web_fetch'', ''web_search'', ''cluster_rpc'',
                    ''find_skills''} then Some NetworkRequest
      else if t \<in> {''browser'', ''mcp_discover''} then Some NetworkRequest
      else if t = ''screen_capture'' then Some FileWrite
      else if t = ''todowrite'' then Some FileWrite
      else if t = ''workflow'' then Some FileWrite
      else if t = ''generate_image'' then Some NetworkRequest
      else if t = ''lsp'' then Some FileRead
      else if t = ''i2c'' then Some HardwareI2C
      else if t = ''spi'' then Some HardwareSPI
      else if t = ''board_issue'' then Some FileWrite
      else if t = ''board_evidence_read'' then Some FileRead
      else if t = ''skill_manage'' then Some FileWrite
      else if t = ''complete_bootstrap'' then Some FileDelete
      else if t = ''memory_store'' then Some FileWrite
      else if t = ''memory_forget'' then Some FileDelete
      else if t \<in> {''message'', ''sleep'', ''question'', ''subagent'', ''skills_list'', ''skills_info'',
                    ''cli_reference'', ''history_search'', ''mcp_list'', ''memory_search'',
                    ''memory_list'', ''background_output'', ''background_kill'', ''delegate_send'',
                    ''delegate_output'', ''delegate_stop''} then Some Internal
      else if t = ''ziwei_bridge'' then Some Ziwei
      else None)"

definition tool_to_operation :: "declared_operations \<Rightarrow> string \<Rightarrow> operation_type option" where
  "tool_to_operation m tool_name =
     (case declared_tool_operation m tool_name of
        Some op \<Rightarrow> Some op
      | None \<Rightarrow> builtin_tool_operation tool_name)"

section \<open>JSON arguments\<close>

text \<open>\<open>args.get(k).and_then(|v| v.as_str()).unwrap_or("")\<close>\<close>

definition str_or_empty :: "json option \<Rightarrow> string" where
  "str_or_empty v = (case Option.bind v as_str of Some s \<Rightarrow> s | None \<Rightarrow> [])"

definition arg_str :: "string \<Rightarrow> json \<Rightarrow> string" where
  "arg_str k args = str_or_empty (json_get k args)"

definition or_else :: "'a option \<Rightarrow> 'a option \<Rightarrow> 'a option" where
  "or_else a b = (case a of Some x \<Rightarrow> Some x | None \<Rightarrow> b)"

definition first_elem :: "json list \<Rightarrow> json option" where
  "first_elem xs = (case xs of [] \<Rightarrow> None | x # _ \<Rightarrow> Some x)"

text \<open>The \<open>mcp_discover\<close> arm: the command line with its string arguments, or the URL.\<close>

definition mcp_discover_target :: "json \<Rightarrow> string" where
  "mcp_discover_target args =
     (let command = (case Option.bind (json_get ''command'' args) as_str of
                       Some s \<Rightarrow> trim s | None \<Rightarrow> []) in
      if command = [] then arg_str ''url'' args
      else (let extra = (case Option.bind (json_get ''args'' args) as_array of
                           Some a \<Rightarrow> join '' '' (List.map_filter as_str a) | None \<Rightarrow> []) in
            if extra = [] then command else command @ '' '' @ extra))"

definition extract_target :: "string \<Rightarrow> json \<Rightarrow> string" where
  "extract_target t args =
     (if t \<in> {''read_file'', ''write_file'', ''edit_file'', ''delete_file'', ''board_evidence_read''}
      then arg_str ''path'' args
      else if t \<in> {''list_directory'', ''list_dir'', ''create_directory'', ''create_dir'',
                    ''delete_directory'', ''delete_dir''} then arg_str ''path'' args
      else if t \<in> {''exec'', ''execute_command'', ''spawn'', ''shell'', ''exec_async'',
                    ''background_start''} then arg_str ''command'' args
      else if t = ''background_steer'' then arg_str ''text'' args
      else if t = ''run_script'' then arg_str ''script'' args
      else if t = ''multiedit'' then
        str_or_empty (Option.bind (Option.bind (Option.bind (json_get ''edits'' args) as_array) first_elem)
                        (json_get ''path''))
      else if t = ''workflow'' then
        (case or_else (Option.bind (json_get ''workflow'' args) as_str)
                (Option.bind (Option.bind (json_get ''definition'' args) (json_get ''name'')) as_str) of
           Some s \<Rightarrow> s | None \<Rightarrow> [])
      else if t \<in> {''download'', ''upload'', ''http_request'', ''web_request'', ''web_fetch'',
                    ''web_search'', ''find_skills''} then arg_str ''url'' args
      else if t = ''mcp_discover'' then mcp_discover_target args
      else if t = ''cluster_rpc'' then arg_str ''peer_id'' args
      else if t = ''cron'' then str_or_empty (or_else (json_get ''command'' args) (json_get ''message'' args))
      else if t = ''screen_capture'' then
        str_or_empty (or_else (json_get ''save_path'' args) (json_get ''path'' args))
      else if t = ''generate_image'' then arg_str ''output'' args
      else if t = ''install_skill'' then str_or_empty (or_else (json_get ''url'' args) (json_get ''source'' args))
      else [])"

definition extract_url :: "string \<Rightarrow> json \<Rightarrow> string" where
  "extract_url t args =
     (if t \<in> {''download'', ''upload'', ''http_request'', ''web_request'', ''web_fetch'', ''web_search'',
               ''install_skill'', ''find_skills'', ''mcp_discover'', ''browser''}
      then str_or_empty (or_else (json_get ''url'' args) (json_get ''source'' args))
      else if t = ''cluster_rpc'' then []
      else [])"

section \<open>Facts\<close>

lemma slug_of_display [simp, policy_simps]: "operation_type_from_slug (op_display op) = Some op"
  by (cases op) (simp_all add: operation_type_from_slug_def)

lemma display_of_slug: "operation_type_from_slug s = Some op \<Longrightarrow> s = op_display op"
  by (auto simp: operation_type_from_slug_def split: if_splits)

lemma op_display_inject [simp]: "op_display a = op_display b \<longleftrightarrow> a = b"
  by (metis option.inject slug_of_display)

lemma danger_display_inject [simp]: "danger_display a = danger_display b \<longleftrightarrow> a = b"
  by (cases a; cases b) simp_all

interpretation declared: keyed_table declared_tool_operation declare_tool_operation
    undeclare_tool_operation
  by unfold_locales
    (auto simp: declared_tool_operation_def declare_tool_operation_def undeclare_tool_operation_def)

text \<open>A declaration overrides the built-in table, until it is withdrawn.\<close>

lemma tool_to_operation_declared:
  "declared_tool_operation m t = Some op \<Longrightarrow> tool_to_operation m t = Some op"
  by (simp add: tool_to_operation_def)

lemma tool_to_operation_declare:
  "tool_to_operation (declare_tool_operation t op m) t' =
     (if t' = t then Some op else tool_to_operation m t')"
  by (simp add: tool_to_operation_def declared.lookup_put)

lemma tool_to_operation_undeclare:
  "tool_to_operation (undeclare_tool_operation t m) t' =
     (if t' = t then builtin_tool_operation t else tool_to_operation m t')"
  by (simp add: tool_to_operation_def declared.lookup_del)

lemma tool_to_operation_undeclare_prefix:
  "tool_to_operation (undeclare_tool_operations_with_prefix p m) t =
     (if starts_with t p then builtin_tool_operation t else tool_to_operation m t)"
  by (simp add: tool_to_operation_def declared_tool_operation_def
      undeclare_tool_operations_with_prefix_def)

section \<open>Properties\<close>

text \<open>
  The slug of an operation type is its display text, both ways: parsing inverts printing, and a
  slug that parses is the printed form of what it parses to. A slug that is no operation is graded
  CRITICAL, and one that is gets the level of its operation.
\<close>

theorem slug_roundtrip:
  "(operation_type_from_slug s = Some op \<longleftrightarrow> s = op_display op)
   \<and> danger_level_of_slug (op_display op) = danger_display (get_danger_level op)
   \<and> (danger_level_of_slug s \<noteq> ''CRITICAL'' \<longrightarrow> s \<in> range op_display)"
proof (intro conjI impI)
  show "operation_type_from_slug s = Some op \<longleftrightarrow> s = op_display op"
    using display_of_slug [of s op] by auto
  show "danger_level_of_slug (op_display op) = danger_display (get_danger_level op)"
    by (simp add: danger_level_of_slug_def)
  assume "danger_level_of_slug s \<noteq> ''CRITICAL''"
  then obtain o' where "operation_type_from_slug s = Some o'"
    by (cases "operation_type_from_slug s") (auto simp: danger_level_of_slug_def)
  from display_of_slug [OF this] show "s \<in> range op_display" by simp
qed

lemma slug_roundtrip_witness:
  "danger_level_of_slug ''file_write'' = ''HIGH'' \<and> ''file_write'' \<in> range op_display"
proof -
  have "danger_level_of_slug ''file_write'' = ''HIGH''" by code_simp
  then show ?thesis using slug_roundtrip [of "''file_write''" FileWrite] by simp
qed

text \<open>
  The table of declared operations overrides the built-in table until the declaration is
  withdrawn, by name or by prefix, and no operation on it changes another tool.
\<close>

theorem declared_overrides:
  "tool_to_operation (declare_tool_operation t op m) t' =
     (if t' = t then Some op else tool_to_operation m t')
   \<and> tool_to_operation (undeclare_tool_operation t m) t' =
     (if t' = t then builtin_tool_operation t else tool_to_operation m t')
   \<and> tool_to_operation (undeclare_tool_operations_with_prefix p m) t' =
     (if starts_with t' p then builtin_tool_operation t' else tool_to_operation m t')"
  by (intro conjI tool_to_operation_declare tool_to_operation_undeclare
      tool_to_operation_undeclare_prefix)

text \<open>
  Built-in tools that the policy engine grades but never sees the target of: the built-in table
  gives \<open>file_exists\<close>, \<open>git\<close>, \<open>grep\<close> and \<open>lsp\<close> the operation \<open>FileRead\<close> and \<open>kill_process\<close> the
  operation \<open>ProcessKill\<close>, but \<open>extract_target\<close> has no arm for them and returns the empty string for
  every argument object, so that a path or process rule has nothing to match.
\<close>

theorem graded_without_target:
  "map builtin_tool_operation [''file_exists'', ''git'', ''grep'', ''lsp'', ''kill_process''] =
     [Some FileRead, Some FileRead, Some FileRead, Some FileRead, Some ProcessKill]
   \<and> map (\<lambda>t. extract_target t args) [''file_exists'', ''git'', ''grep'', ''lsp'', ''kill_process''] =
     [[], [], [], [], []]"
  by (simp add: builtin_tool_operation_def extract_target_def)

end
