(* ===== verification/Approval_State.thy ===== *)
theory Approval_State
  imports Security_Types
begin

text \<open>
  The run-time switches the auditor consults before it asks a human: the per-session allow-all table
  (\<open>session_allow_all.rs\<close>), the process-wide auto-approve switch (\<open>approval_auto.rs\<close>) and the editor's
  full-access flags with their workspace roots (\<open>editor_access.rs\<close>). Counters are \<open>64 word\<close>, as
  \<open>AtomicU64::fetch_add\<close> wraps; the clock is the argument \<open>now\<close>.
\<close>

section \<open>Session allow-all\<close>

record allow_all_entry =
  aa_enabled :: bool
  aa_since :: string
  aa_count :: "64 word"

type_synonym session_allow_all = "string \<rightharpoonup> allow_all_entry"

definition entry_new :: "string \<Rightarrow> allow_all_entry" where
  "entry_new since = \<lparr>aa_enabled = True, aa_since = since, aa_count = 0\<rparr>"

definition allow_all_new :: session_allow_all where
  "allow_all_new = Map.empty"

definition allow_all_check :: "session_allow_all \<Rightarrow> string \<Rightarrow> bool" where
  "allow_all_check m session_key = (case m session_key of Some e \<Rightarrow> aa_enabled e | None \<Rightarrow> False)"

definition allow_all_set ::
  "string \<Rightarrow> session_allow_all \<Rightarrow> string \<Rightarrow> bool \<Rightarrow> session_allow_all \<times> (string \<times> 64 word)" where
  "allow_all_set now m session_key enabled =
     (if enabled then (m(session_key \<mapsto> entry_new now), (now, 0))
      else (case m session_key of
              Some e \<Rightarrow> (m(session_key \<mapsto> e\<lparr>aa_enabled := False\<rparr>), ([], aa_count e))
            | None \<Rightarrow> (m, ([], 0))))"

definition allow_all_bump :: "session_allow_all \<Rightarrow> string \<Rightarrow> session_allow_all" where
  "allow_all_bump m session_key =
     (case m session_key of
        Some e \<Rightarrow> m(session_key \<mapsto> e\<lparr>aa_count := aa_count e + 1\<rparr>)
      | None \<Rightarrow> m)"

definition allow_all_status ::
  "session_allow_all \<Rightarrow> string \<Rightarrow> (bool \<times> string \<times> 64 word) option" where
  "allow_all_status m session_key =
     map_option (\<lambda>e. (aa_enabled e, aa_since e, aa_count e)) (m session_key)"

text \<open>\<open>map.entry(key).or_insert_with(..)\<close>: an entry that is there is kept.\<close>

fun allow_all_hydrate :: "session_allow_all \<Rightarrow> (string \<times> string) list \<Rightarrow> session_allow_all" where
  "allow_all_hydrate m [] = m"
| "allow_all_hydrate m ((key, since) # entries) =
     allow_all_hydrate (case m key of Some _ \<Rightarrow> m | None \<Rightarrow> m(key \<mapsto> entry_new since)) entries"

definition enabled_keys :: "session_allow_all \<Rightarrow> string set" where
  "enabled_keys m = {k \<in> dom m. aa_enabled (the (m k))}"

lemma check_set: "allow_all_check (fst (allow_all_set now m k b)) k' =
    (if k' = k then b else allow_all_check m k')"
  by (auto simp: allow_all_check_def allow_all_set_def entry_new_def split: option.splits)

lemma check_bump [simp, policy_simps]: "allow_all_check (allow_all_bump m k) k' = allow_all_check m k'"
  by (auto simp: allow_all_check_def allow_all_bump_def split: option.splits)

lemma hydrate_keeps: "m k = Some e \<Longrightarrow> allow_all_hydrate m es k = Some e"
proof (induction m es rule: allow_all_hydrate.induct)
  case (1 m)
  then show ?case by simp
next
  case (2 m key since entries)
  then have "(case m key of Some _ \<Rightarrow> m | None \<Rightarrow> m(key \<mapsto> entry_new since)) k = Some e"
    by (cases "k = key") (auto split: option.splits)
  from 2(1) [OF this] show ?case by simp
qed

lemma hydrate_new:
  "m k = None \<Longrightarrow> allow_all_hydrate m es k = map_option entry_new (map_of es k)"
proof (induction m es rule: allow_all_hydrate.induct)
  case (1 m)
  then show ?case by simp
next
  case (2 m key since entries)
  show ?case
  proof (cases "k = key")
    case True
    then show ?thesis using 2(2) by (simp add: hydrate_keeps)
  next
    case False
    then have "(case m key of Some _ \<Rightarrow> m | None \<Rightarrow> m(key \<mapsto> entry_new since)) k = None"
      using 2(2) by (simp split: option.splits)
    from 2(1) [OF this] False show ?thesis by simp
  qed
qed

lemma enabled_keys_check: "k \<in> enabled_keys m \<longleftrightarrow> allow_all_check m k"
  by (auto simp: enabled_keys_def allow_all_check_def split: option.splits)

section \<open>Auto-approve\<close>

record auto_approve =
  ap_enabled :: bool
  ap_count :: "64 word"

definition auto_new :: "bool \<Rightarrow> auto_approve" where
  "auto_new enabled = \<lparr>ap_enabled = enabled, ap_count = 0\<rparr>"

definition auto_set_enabled :: "bool \<Rightarrow> auto_approve \<Rightarrow> auto_approve" where
  "auto_set_enabled v s = s\<lparr>ap_enabled := v\<rparr>"

definition auto_bump :: "auto_approve \<Rightarrow> auto_approve" where
  "auto_bump s = s\<lparr>ap_count := ap_count s + 1\<rparr>"

section \<open>Editor access\<close>

record editor_access =
  full_access :: bool
  external_write :: bool
  workspace_roots :: "string list"

definition write_delete_ops :: "operation_type list" where
  "write_delete_ops = [FileWrite, FileDelete, DirCreate, DirDelete]"

definition editor_new :: editor_access where
  "editor_new = \<lparr>full_access = False, external_write = False, workspace_roots = []\<rparr>"

text \<open>Each flag is its own atomic: \<open>set_flags\<close> is a sequence of two stores.\<close>

datatype flag_store = StoreFull bool | StoreExt bool

fun do_store :: "editor_access \<Rightarrow> flag_store \<Rightarrow> editor_access" where
  "do_store s (StoreFull b) = s\<lparr>full_access := b\<rparr>"
| "do_store s (StoreExt b) = s\<lparr>external_write := b\<rparr>"

definition set_flags_stores :: "bool \<Rightarrow> bool \<Rightarrow> flag_store list" where
  "set_flags_stores full_acc ext =
     (let full = full_acc \<or> ext in
      if full then [StoreFull True, StoreExt ext] else [StoreExt False, StoreFull False])"

definition set_flags :: "bool \<Rightarrow> bool \<Rightarrow> editor_access \<Rightarrow> editor_access" where
  "set_flags full_acc ext s = run_events do_store s (set_flags_stores full_acc ext)"

definition snapshot :: "editor_access \<Rightarrow> bool \<times> bool" where
  "snapshot s = (full_access s, external_write s)"

definition normalize_path :: "string \<Rightarrow> string" where
  "normalize_path p =
     (let s = replace_char CHR 0x5C ''/'' (to_lowercase p) in
      case strip_prefix ''//?/unc/'' s of
        Some rest \<Rightarrow> ''//'' @ rest
      | None \<Rightarrow> (case strip_prefix ''//?/'' s of Some rest \<Rightarrow> rest | None \<Rightarrow> s))"

definition normalize_target :: "string \<Rightarrow> string option" where
  "normalize_target target =
     (let t = trim target in if t = [] then None else Some (normalize_path t))"

text \<open>\<open>bytes[1] == b':'\<close>: the first character must be a single byte.\<close>

definition is_absolute_normalized :: "string \<Rightarrow> bool" where
  "is_absolute_normalized s \<longleftrightarrow>
     (case s of c # d # _ \<Rightarrow> is_ascii c \<and> d = CHR '':'' | _ \<Rightarrow> False) \<or> starts_with s ''/''"

definition set_workspace_roots :: "string list \<Rightarrow> editor_access \<Rightarrow> editor_access" where
  "set_workspace_roots roots s =
     s\<lparr>workspace_roots :=
        List.map_filter (\<lambda>r0. let r = trim r0 in
          if r = [] then None else Some (trim_end_char CHR ''/'' (normalize_path r))) roots\<rparr>"

definition is_inside_workspace :: "editor_access \<Rightarrow> string \<Rightarrow> bool" where
  "is_inside_workspace s norm =
     (if norm = ''~'' \<or> starts_with norm ''~/'' \<or> ''..'' \<in> set (split_char CHR ''/'' norm) then False
      else if \<not> is_absolute_normalized norm then True
      else list_ex (\<lambda>r. norm = r \<or> starts_with norm (r @ ''/'')) (workspace_roots s))"

datatype editor_rule = EditorFull | EditorFullExt
datatype editor_reason =
    InsideRoots operation_type
  | OutsideRoots operation_type
  | WithoutApproval operation_type

definition editor_evaluate ::
  "editor_access \<Rightarrow> operation_type \<Rightarrow> string \<Rightarrow>
     (security_decision \<times> editor_reason \<times> editor_rule) option" where
  "editor_evaluate s op_type target =
     (if \<not> full_access s then None
      else if op_type \<in> set write_delete_ops then
        (case normalize_target target of
           None \<Rightarrow> None
         | Some norm \<Rightarrow>
             if is_inside_workspace s norm then Some (Allowed, InsideRoots op_type, EditorFull)
             else if external_write s then Some (Allowed, OutsideRoots op_type, EditorFullExt)
             else None)
      else Some (Allowed, WithoutApproval op_type, EditorFull))"

definition fence_gate :: "editor_access \<Rightarrow> string \<Rightarrow> bool \<Rightarrow> bool" where
  "fence_gate s path is_write_delete =
     (case editor_evaluate s (if is_write_delete then FileWrite else FileRead) path of
        Some (Allowed, _) \<Rightarrow> True
      | _ \<Rightarrow> False)"

text \<open>The operations on the flags and roots, as events.\<close>

datatype editor_event = SetFlags bool bool | SetRoots "string list"

fun editor_step :: "editor_access \<Rightarrow> editor_event \<Rightarrow> editor_access" where
  "editor_step s (SetFlags f e) = set_flags f e s"
| "editor_step s (SetRoots rs) = set_workspace_roots rs s"

definition editor_inv :: "editor_access \<Rightarrow> bool" where
  "editor_inv s \<longleftrightarrow> (external_write s \<longrightarrow> full_access s)"

lemma set_flags_eq: "set_flags f e s = s\<lparr>full_access := f \<or> e, external_write := e\<rparr>"
  by (cases s) (auto simp: set_flags_def set_flags_stores_def Let_def)

interpretation editor: step_invariant editor_step editor_inv
proof
  fix s e
  assume "editor_inv s"
  then show "editor_inv (editor_step s e)"
    by (cases e) (auto simp: set_flags_eq editor_inv_def set_workspace_roots_def)
qed

lemma editor_evaluate_allowed [policy_simps]: "editor_evaluate s op t = Some (d, r) \<Longrightarrow> d = Allowed"
  by (auto simp: editor_evaluate_def split: if_splits option.splits)

definition under_root :: "editor_access \<Rightarrow> string \<Rightarrow> bool" where
  "under_root s norm \<longleftrightarrow> (\<exists>r\<in>set (workspace_roots s). norm = r \<or> (\<exists>rest. norm = r @ ''/'' @ rest))"

lemma inside_workspace_confined:
  "is_inside_workspace s norm \<Longrightarrow>
     ''..'' \<notin> set (split_char CHR ''/'' norm) \<and> norm \<noteq> ''~'' \<and> \<not> starts_with norm ''~/''
     \<and> (is_absolute_normalized norm \<longrightarrow> under_root s norm)"
  by (auto simp: is_inside_workspace_def under_root_def list_ex_iff starts_with_def prefix_def
      split: if_splits)

section \<open>Properties\<close>

text \<open>
  The session switch is per session: flipping one session's switch decides that session and no
  other, counting leaves every switch alone, and the start-up hydration turns on exactly the listed
  sessions that have no entry yet (an entry switched off by hand stays off).
\<close>

theorem session_switch_semantics:
  "allow_all_check (fst (allow_all_set now m k b)) k' = (if k' = k then b else allow_all_check m k')
   \<and> allow_all_check (allow_all_bump m k) k' = allow_all_check m k'
   \<and> allow_all_check (allow_all_hydrate m es) k' =
       (if k' \<in> dom m then allow_all_check m k' else k' \<in> fst ` set es)"
proof (intro conjI)
  show "allow_all_check (allow_all_hydrate m es) k' =
      (if k' \<in> dom m then allow_all_check m k' else k' \<in> fst ` set es)"
  proof (cases "m k'")
    case None
    then have "allow_all_check (allow_all_hydrate m es) k' \<longleftrightarrow> map_of es k' \<noteq> None"
      by (auto simp: allow_all_check_def hydrate_new entry_new_def split: option.splits)
    with None show ?thesis by (auto simp: map_of_eq_None_iff dom_def)
  next
    case (Some e)
    then have "allow_all_hydrate m es k' = Some e" by (rule hydrate_keeps)
    with Some show ?thesis by (simp add: allow_all_check_def dom_def)
  qed
qed (simp_all add: check_set)

text \<open>
  Whatever sequence of flag and root updates is run from start-up, the external-write flag is on
  only when full access is; in every state between the two stores of an update as well.
\<close>

theorem editor_flags_invariant:
  "editor_inv (run_events editor_step editor_new es)
   \<and> editor_inv (run_events do_store (run_events editor_step editor_new es)
        (take n (set_flags_stores f e)))"
proof -
  let ?s = "run_events editor_step editor_new es"
  have inv: "editor_inv ?s"
    by (rule editor.run_keeps) (simp add: editor_inv_def editor_new_def)
  consider "n = 0" | "n = 1" | m where "n = Suc (Suc m)"
    by (metis One_nat_def nat.exhaust)
  then have "editor_inv (run_events do_store ?s (take n (set_flags_stores f e)))"
    using inv by cases (auto simp: set_flags_stores_def Let_def editor_inv_def)
  with inv show ?thesis by simp
qed

text \<open>
  Two updates at the same time can break it: the stores of an opening and of a closing update,
  interleaved, leave external write on with full access off. The reading side is safe all the same,
  since it looks at full access first.
\<close>

theorem editor_flags_race:
  "snapshot (run_events do_store editor_new
      ([hd (set_flags_stores True True)] @ set_flags_stores False False @ tl (set_flags_stores True True)))
     = (False, True)
   \<and> editor_evaluate (s\<lparr>full_access := False\<rparr>) op t = None"
  by (simp add: editor_evaluate_def set_flags_stores_def editor_new_def snapshot_def)

text \<open>
  What full access without external write can let through. The short cut never denies; for a
  write or delete it answers only if the normalised target has no parent segment, does not start at
  the home directory, and is relative or lies at or below a workspace root at a separator.
\<close>

theorem editor_write_confined:
  assumes "editor_evaluate s op t = Some (d, r)" and "\<not> external_write s"
    and "op \<in> {FileWrite, FileDelete, DirCreate, DirDelete}"
  shows "d = Allowed \<and> full_access s \<and> (\<exists>norm. normalize_target t = Some norm
    \<and> ''..'' \<notin> set (split_char CHR ''/'' norm) \<and> norm \<noteq> ''~'' \<and> \<not> starts_with norm ''~/''
    \<and> (is_absolute_normalized norm \<longrightarrow> under_root s norm))"
proof -
  have w: "op \<in> set write_delete_ops" using assms(3) by (simp add: write_delete_ops_def)
  with assms(1,2) obtain norm where n: "normalize_target t = Some norm" "is_inside_workspace s norm"
    and f: "full_access s"
    by (auto simp: editor_evaluate_def split: if_splits option.splits)
  from inside_workspace_confined [OF n(2)] n(1) f editor_evaluate_allowed [OF assms(1)]
  show ?thesis by blast
qed

lemma editor_write_confined_witness:
  "let s = set_workspace_roots [''C:'' @ [CHR 0x5C] @ ''Proj/''] (set_flags True False editor_new) in
   editor_evaluate s FileWrite ''c:/proj/a.txt'' = Some (Allowed, InsideRoots FileWrite, EditorFull)
   \<and> editor_evaluate s FileWrite ''c:/project/a.txt'' = None
   \<and> under_root s ''c:/proj/a.txt''"
proof -
  let ?s = "set_workspace_roots [''C:'' @ [CHR 0x5C] @ ''Proj/''] (set_flags True False editor_new)"
  have e: "editor_evaluate ?s FileWrite ''c:/proj/a.txt'' = Some (Allowed, InsideRoots FileWrite, EditorFull)"
    and o: "editor_evaluate ?s FileWrite ''c:/project/a.txt'' = None"
    and x: "\<not> external_write ?s" and n: "normalize_target ''c:/proj/a.txt'' = Some ''c:/proj/a.txt''"
    and a: "is_absolute_normalized ''c:/proj/a.txt''"
    by code_simp+
  from editor_write_confined [OF e x] n a have "under_root ?s ''c:/proj/a.txt''" by auto
  with e o show ?thesis by simp
qed

end
