(* ===== verification/Policy.thy ===== *)
theory Policy
  imports Glob_Spec Approval_State
begin

text \<open>
  The decision function of \<open>crates/nemesis-security/src/auditor.rs\<close>: \<open>evaluate_request\<close> with its
  stages in the order of the code (self-destruct guard, editor short cut, deny and ask passes,
  interpreter payloads, allow pass, posture for unknown commands, default action). A stage is a
  function into an option: \<open>Some\<close> is the early return. The texts the code formats are constructors
  (\<open>reason\<close>, \<open>policy_tag\<close>) with the values they interpolate.
\<close>

section \<open>Requests and verdicts\<close>

record operation_request =
  req_id :: string
  req_op :: operation_type
  req_danger :: danger_level
  req_user :: string
  req_source :: string
  req_target :: string
  req_timestamp :: "string option"
  req_approver :: "string option"
  req_approved_at :: "string option"
  req_denied_reason :: "string option"
  req_force :: "string option"

definition default_request :: operation_request where
  "default_request = \<lparr>req_id = [], req_op = FileRead, req_danger = Low, req_user = [],
     req_source = [], req_target = [], req_timestamp = None, req_approver = None,
     req_approved_at = None, req_denied_reason = None, req_force = None\<rparr>"

datatype reason =
    SelfDestructReason string
  | EditorReason editor_reason
  | RuleMatched string
  | PayloadMatchedRule string
  | PayloadStructure string
  | FlagBehindAllow "string list" string
  | UnknownCommand string
  | NoRuleMatched
  | ForcedReason string

datatype policy_tag =
    SelfDestructTag
  | EditorTag editor_rule
  | RuleTag nat
  | RuleInnerTag nat
  | InterpreterStructureTag
  | SensitiveFlagTag
  | ExecUnknownTag
  | DefaultTag
  | PreexecScanTag

type_synonym verdict = "security_decision \<times> reason \<times> policy_tag"

record policy_state =
  ps_rules :: "operation_type \<rightharpoonup> security_rule list"
  ps_default_action :: string
  ps_exec_unknown_policy :: string
  ps_protected_paths :: "string list"
  ps_self_destruct_exempt :: string
  ps_editor_access :: "editor_access option"

section \<open>The self-destruct guard\<close>

definition destructive_bins :: "string list" where
  "destructive_bins = [''rm'', ''del'', ''rd'', ''erase'', ''rmdir'', ''deltree'', ''rimraf'', ''remove-item'']"

definition strict_descendant :: "string \<Rightarrow> string \<Rightarrow> bool" where
  "strict_descendant t root \<longleftrightarrow>
     length root < length t \<and> starts_with t root \<and> t ! length root = CHR ''/''"

definition protected_hit :: "string \<Rightarrow> string \<Rightarrow> string \<Rightarrow> bool" where
  "protected_hit exempt tt p0 =
     (let p = trim_end_char CHR ''/'' p0 in
      if exempt \<noteq> [] \<and> strict_descendant tt exempt then False
      else p = tt \<or> strict_descendant p tt \<or> strict_descendant tt p)"

definition is_hit :: "string list \<Rightarrow> string \<Rightarrow> string \<Rightarrow> bool" where
  "is_hit protected exempt t =
     (if t = ''/'' \<or> t = [backslash] then True
      else if starts_with t ''-'' then False
      else if starts_with t ''/'' \<and> length t \<le> 2 then False
      else (let tt = trim_end_char CHR ''/'' (replace_char backslash ''/'' t) in
        if tt = [] then True
        else tt = ''.'' \<or> tt = ''..'' \<or> tt = ''*'' \<or> tt = ''.git'' \<or> starts_with t ''~''
          \<or> list_ex (protected_hit exempt tt) protected))"

definition boundary_tokens :: "string list" where
  "boundary_tokens = [''&&'', '';'', ''||'', ''|'', ''&'']"

definition recursive_flag :: "string \<Rightarrow> bool" where
  "recursive_flag t \<longleftrightarrow>
     starts_with t ''-'' \<and> CHR ''r'' \<in> set t
     \<or> starts_with t ''/'' \<and> length t = 2 \<and> ends_with t ''s''"

fun destruct_scan :: "string list \<Rightarrow> string \<Rightarrow> string list \<Rightarrow> string option" where
  "destruct_scan protected exempt [] = None"
| "destruct_scan protected exempt (token # rest) =
     (if bin_key token \<notin> set destructive_bins then destruct_scan protected exempt rest
      else (let window = takeWhile (\<lambda>t. t \<notin> set boundary_tokens) rest in
        if list_ex recursive_flag window then
          (case find (is_hit protected exempt) window of
             Some target \<Rightarrow> Some target
           | None \<Rightarrow> destruct_scan protected exempt rest)
        else destruct_scan protected exempt rest))"

definition detect_self_destruct :: "string \<Rightarrow> string list \<Rightarrow> string \<Rightarrow> string option" where
  "detect_self_destruct normalized protected exempt = destruct_scan protected exempt (tokens normalized)"

section \<open>Buckets and rule matching\<close>

definition normalize_decision :: "string \<Rightarrow> security_decision" where
  "normalize_decision action =
     (if action = ''allow'' \<or> action = ''allowed'' then Allowed
      else if action = ''deny'' \<or> action = ''denied'' then Denied
      else if action = ''ask'' \<or> action = ''require_approval'' then RequireApproval
      else Denied)"

definition action_bucket :: "string \<Rightarrow> string" where
  "action_bucket action =
     (if action = ''deny'' \<or> action = ''denied'' then ''deny''
      else if action = ''ask'' \<or> action = ''require_approval'' \<or> action = ''approval''
        \<or> action = ''pending'' then ''ask''
      else if action = ''allow'' \<or> action = ''allowed'' then ''allow''
      else ''deny'')"

definition is_command_type :: "operation_type \<Rightarrow> bool" where
  "is_command_type op \<longleftrightarrow> op \<in> {ProcessExec, ProcessSpawn, ProcessKill, ProcessSuspend}"

definition is_exec_type :: "operation_type \<Rightarrow> bool" where
  "is_exec_type op \<longleftrightarrow> op \<in> {ProcessExec, ProcessSpawn}"

definition match_target :: "externals \<Rightarrow> operation_request \<Rightarrow> string" where
  "match_target E req =
     (if is_command_type (req_op req) then normalize_exec_command E (req_target req) else req_target req)"

definition rule_matches :: "externals \<Rightarrow> operation_request \<Rightarrow> string \<Rightarrow> security_rule \<Rightarrow> bool" where
  "rule_matches E req bucket rule =
     (if req_op req \<in> {FileRead, FileWrite, FileDelete, DirRead, DirCreate, DirDelete,
                        RegistryRead, RegistryWrite, RegistryDelete}
      then match_path_rule E (sr_pattern rule) (req_target req)
      else if is_command_type (req_op req) then
        exec_rule_bucket_match E bucket (sr_pattern rule) (match_target E req)
          (exec_rule_segments E (req_target req))
      else if req_op req \<in> {NetworkDownload, NetworkUpload, NetworkRequest}
      then match_domain_pattern E (sr_pattern rule) (req_target req)
      else sr_pattern rule = ''*'' \<or> match_path_rule E (sr_pattern rule) (req_target req))"

section \<open>The stages\<close>

definition op_rules :: "'a policy_state_scheme \<Rightarrow> operation_request \<Rightarrow> security_rule list" where
  "op_rules P req = (case ps_rules P (req_op req) of Some r \<Rightarrow> r | None \<Rightarrow> [])"

definition self_destruct_stage ::
  "externals \<Rightarrow> 'a policy_state_scheme \<Rightarrow> operation_request \<Rightarrow> verdict option" where
  "self_destruct_stage E P req =
     (if is_exec_type (req_op req) \<and> ps_protected_paths P \<noteq> [] then
        map_option (\<lambda>target. (Denied, SelfDestructReason target, SelfDestructTag))
          (detect_self_destruct (match_target E req) (ps_protected_paths P) (ps_self_destruct_exempt P))
      else None)"

definition editor_stage :: "'a policy_state_scheme \<Rightarrow> operation_request \<Rightarrow> verdict option" where
  "editor_stage P req =
     (case ps_editor_access P of
        None \<Rightarrow> None
      | Some editor \<Rightarrow> map_option (\<lambda>(d, r, p). (d, EditorReason r, EditorTag p))
          (editor_evaluate editor (req_op req) (req_target req)))"

definition bucket_pass ::
  "externals \<Rightarrow> security_rule list \<Rightarrow> operation_request \<Rightarrow> string \<Rightarrow> verdict option" where
  "bucket_pass E rules req want =
     map_option (\<lambda>(i, rule). (normalize_decision (sr_action rule), RuleMatched (sr_pattern rule), RuleTag i))
       (find_index (\<lambda>rule. action_bucket (sr_action rule) = want \<and> rule_matches E req want rule) rules)"

definition deny_ask_stage ::
  "externals \<Rightarrow> 'a policy_state_scheme \<Rightarrow> operation_request \<Rightarrow> verdict option" where
  "deny_ask_stage E P req = first_some (bucket_pass E (op_rules P req) req) [''deny'', ''ask'']"

definition interpreter_dangerous_structures :: "string list" where
  "interpreter_dangerous_structures =
     [''shutil.rmtree'', ''rmsync'', ''rmdirsync'', ''removedirectory'', ''deltree'']"

definition payload_pass :: "security_rule list \<Rightarrow> string \<Rightarrow> string \<Rightarrow> verdict option" where
  "payload_pass rules payload want =
     map_option (\<lambda>(i, rule). (normalize_decision (sr_action rule), PayloadMatchedRule (sr_pattern rule),
                               RuleInnerTag i))
       (find_index (\<lambda>rule. action_bucket (sr_action rule) = want
          \<and> glob_contains (to_lowercase (sr_pattern rule)) payload) rules)"

definition payload_verdict :: "security_rule list \<Rightarrow> string \<Rightarrow> verdict option" where
  "payload_verdict rules payload =
     (case first_some (payload_pass rules payload) [''deny'', ''ask''] of
        Some hit \<Rightarrow> Some hit
      | None \<Rightarrow> map_option (\<lambda>s. (RequireApproval, PayloadStructure s, InterpreterStructureTag))
          (find (contains_str payload) interpreter_dangerous_structures))"

definition interpreter_stage ::
  "externals \<Rightarrow> 'a policy_state_scheme \<Rightarrow> operation_request \<Rightarrow> verdict option" where
  "interpreter_stage E P req =
     (if req_op req = ProcessExec
      then first_some (payload_verdict (op_rules P req)) (extract_interpreter_payloads (match_target E req))
      else None)"

definition allow_stage ::
  "externals \<Rightarrow> 'a policy_state_scheme \<Rightarrow> operation_request \<Rightarrow> verdict option" where
  "allow_stage E P req =
     map_option (\<lambda>(i, rule).
        (let flags = scan_dangerous_flags (exec_rule_segments E (req_target req)) in
         if is_exec_type (req_op req) \<and> flags \<noteq> []
         then (RequireApproval, FlagBehindAllow flags (sr_pattern rule), SensitiveFlagTag)
         else (normalize_decision (sr_action rule), RuleMatched (sr_pattern rule), RuleTag i)))
       (find_index (\<lambda>rule. action_bucket (sr_action rule) = ''allow'' \<and> rule_matches E req ''allow'' rule)
          (op_rules P req))"

definition exec_unknown_stage :: "'a policy_state_scheme \<Rightarrow> operation_request \<Rightarrow> verdict option" where
  "exec_unknown_stage P req =
     (if is_exec_type (req_op req) then
        (let policy = ps_exec_unknown_policy P in
         if policy = ''ask'' then Some (RequireApproval, UnknownCommand policy, ExecUnknownTag)
         else if policy = ''deny'' then Some (Denied, UnknownCommand policy, ExecUnknownTag)
         else if policy = ''allow'' then Some (Allowed, UnknownCommand policy, ExecUnknownTag)
         else None)
      else None)"

definition evaluate_request_inner ::
  "externals \<Rightarrow> 'a policy_state_scheme \<Rightarrow> operation_request \<Rightarrow> verdict" where
  "evaluate_request_inner E P req =
     (case self_destruct_stage E P req of Some v \<Rightarrow> v | None \<Rightarrow>
     (case editor_stage P req of Some v \<Rightarrow> v | None \<Rightarrow>
     (case deny_ask_stage E P req of Some v \<Rightarrow> v | None \<Rightarrow>
     (case interpreter_stage E P req of Some v \<Rightarrow> v | None \<Rightarrow>
     (case allow_stage E P req of Some v \<Rightarrow> v | None \<Rightarrow>
     (case exec_unknown_stage P req of Some v \<Rightarrow> v | None \<Rightarrow>
        (normalize_decision (ps_default_action P), NoRuleMatched, DefaultTag)))))))"

definition forced_reason :: "operation_request \<Rightarrow> string option" where
  "forced_reason req =
     (case req_force req of None \<Rightarrow> None | Some s \<Rightarrow> if trim s = [] then None else Some (trim s))"

definition evaluate_request ::
  "externals \<Rightarrow> 'a policy_state_scheme \<Rightarrow> operation_request \<Rightarrow> verdict" where
  "evaluate_request E P req =
     (let inner = evaluate_request_inner E P req in
      if fst inner \<noteq> Denied then
        (case forced_reason req of
           Some reason \<Rightarrow> (RequireApproval, ForcedReason reason, PreexecScanTag)
         | None \<Rightarrow> inner)
      else inner)"

section \<open>When an operation is allowed\<close>

text \<open>
  The specification of the verdict \<open>Allowed\<close>, without the order of the passes: nothing blocks, and
  something grants. A rule of the deny or ask bucket blocks when it matches the target or, for a
  command line, the payload of an interpreter in it.
\<close>

definition blocks :: "externals \<Rightarrow> operation_request \<Rightarrow> security_rule \<Rightarrow> bool" where
  "blocks E req rule \<longleftrightarrow>
     action_bucket (sr_action rule) \<noteq> ''allow''
     \<and> (rule_matches E req (action_bucket (sr_action rule)) rule
        \<or> req_op req = ProcessExec
          \<and> list_ex (glob_contains (to_lowercase (sr_pattern rule)))
              (extract_interpreter_payloads (match_target E req)))"

definition dangerous_payload :: "externals \<Rightarrow> operation_request \<Rightarrow> bool" where
  "dangerous_payload E req \<longleftrightarrow>
     req_op req = ProcessExec
     \<and> list_ex (\<lambda>payload. list_ex (contains_str payload) interpreter_dangerous_structures)
         (extract_interpreter_payloads (match_target E req))"

definition grants :: "externals \<Rightarrow> 'a policy_state_scheme \<Rightarrow> operation_request \<Rightarrow> bool" where
  "grants E P req \<longleftrightarrow>
     (if list_ex (\<lambda>r. action_bucket (sr_action r) = ''allow'' \<and> rule_matches E req ''allow'' r) (op_rules P req)
      then \<not> is_exec_type (req_op req)
        \<or> scan_dangerous_flags (exec_rule_segments E (req_target req)) = []
      else if is_exec_type (req_op req) \<and> ps_exec_unknown_policy P \<in> {''ask'', ''deny'', ''allow''}
      then ps_exec_unknown_policy P = ''allow''
      else normalize_decision (ps_default_action P) = Allowed)"

definition allowed_spec :: "externals \<Rightarrow> 'a policy_state_scheme \<Rightarrow> operation_request \<Rightarrow> bool" where
  "allowed_spec E P req \<longleftrightarrow>
     self_destruct_stage E P req = None
     \<and> (editor_stage P req \<noteq> None
        \<or> \<not> list_ex (blocks E req) (op_rules P req) \<and> \<not> dangerous_payload E req \<and> grants E P req)"

lemma bucket_cases: "action_bucket a = ''deny'' \<or> action_bucket a = ''ask'' \<or> action_bucket a = ''allow''"
  by (simp add: action_bucket_def)

lemma bucket_decision:
  "action_bucket a = ''deny'' \<Longrightarrow> normalize_decision a = Denied"
  "action_bucket a = ''ask'' \<Longrightarrow> normalize_decision a \<noteq> Allowed"
  "action_bucket a = ''allow'' \<Longrightarrow> normalize_decision a = Allowed"
  by (auto simp: action_bucket_def normalize_decision_def split: if_splits)

lemma bucket_pass_None: "bucket_pass E rules req want = None \<longleftrightarrow>
    (\<forall>r\<in>set rules. \<not> (action_bucket (sr_action r) = want \<and> rule_matches E req want r))"
  by (simp add: bucket_pass_def)

lemma bucket_pass_Some: "bucket_pass E rules req want = Some v \<Longrightarrow>
    \<exists>i r. r \<in> set rules \<and> action_bucket (sr_action r) = want \<and> rule_matches E req want r
      \<and> v = (normalize_decision (sr_action r), RuleMatched (sr_pattern r), RuleTag i)"
  by (auto simp: bucket_pass_def dest!: find_index_Some_in)

lemma deny_ask_None: "deny_ask_stage E P req = None \<longleftrightarrow>
    (\<forall>r\<in>set (op_rules P req). action_bucket (sr_action r) \<noteq> ''allow'' \<longrightarrow>
       \<not> rule_matches E req (action_bucket (sr_action r)) r)"
proof -
  have "deny_ask_stage E P req = None \<longleftrightarrow> (\<forall>r\<in>set (op_rules P req).
      \<not> (action_bucket (sr_action r) = ''deny'' \<and> rule_matches E req ''deny'' r)
      \<and> \<not> (action_bucket (sr_action r) = ''ask'' \<and> rule_matches E req ''ask'' r))"
    unfolding deny_ask_stage_def first_some_None by (auto simp: bucket_pass_None)
  also have "\<dots> \<longleftrightarrow> (\<forall>r\<in>set (op_rules P req). action_bucket (sr_action r) \<noteq> ''allow'' \<longrightarrow>
       \<not> rule_matches E req (action_bucket (sr_action r)) r)"
    (is "(\<forall>r\<in>_. ?A r) \<longleftrightarrow> (\<forall>r\<in>_. ?B r)")
  proof -
    have "?A r \<longleftrightarrow> ?B r" for r
      using bucket_cases [of "sr_action r"] by (elim disjE) simp_all
    then show ?thesis by simp
  qed
  finally show ?thesis .
qed

lemma deny_ask_not_allowed: "deny_ask_stage E P req = Some v \<Longrightarrow> fst v \<noteq> Allowed"
proof -
  assume "deny_ask_stage E P req = Some v"
  then obtain w where "w \<in> set [''deny'', ''ask'']" and w: "bucket_pass E (op_rules P req) req w = Some v"
    unfolding deny_ask_stage_def by (meson first_some_SomeD)
  then have "w = ''deny'' \<or> w = ''ask''" by simp
  then show ?thesis using bucket_pass_Some [OF w] bucket_decision by auto
qed

lemma payload_pass_None: "payload_pass rules payload want = None \<longleftrightarrow>
    (\<forall>r\<in>set rules. \<not> (action_bucket (sr_action r) = want
       \<and> glob_contains (to_lowercase (sr_pattern r)) payload))"
  by (simp add: payload_pass_def)

lemma payload_pass_Some: "payload_pass rules payload want = Some v \<Longrightarrow>
    \<exists>a. action_bucket a = want \<and> fst v = normalize_decision a"
  by (auto simp: payload_pass_def dest!: find_index_Some_in)

lemma payload_verdict_None: "payload_verdict rules payload = None \<longleftrightarrow>
    (\<forall>r\<in>set rules. action_bucket (sr_action r) \<noteq> ''allow'' \<longrightarrow>
       \<not> glob_contains (to_lowercase (sr_pattern r)) payload)
    \<and> \<not> list_ex (contains_str payload) interpreter_dangerous_structures"
proof -
  have "first_some (payload_pass rules payload) [''deny'', ''ask''] = None \<longleftrightarrow>
      (\<forall>r\<in>set rules. \<not> (action_bucket (sr_action r) = ''deny'' \<and> glob_contains (to_lowercase (sr_pattern r)) payload)
        \<and> \<not> (action_bucket (sr_action r) = ''ask'' \<and> glob_contains (to_lowercase (sr_pattern r)) payload))"
    unfolding first_some_None by (auto simp: payload_pass_None)
  also have "\<dots> \<longleftrightarrow> (\<forall>r\<in>set rules. action_bucket (sr_action r) \<noteq> ''allow'' \<longrightarrow>
       \<not> glob_contains (to_lowercase (sr_pattern r)) payload)"
    (is "(\<forall>r\<in>_. ?A r) \<longleftrightarrow> (\<forall>r\<in>_. ?B r)")
  proof -
    have "?A r \<longleftrightarrow> ?B r" for r
      using bucket_cases [of "sr_action r"] by (elim disjE) simp_all
    then show ?thesis by simp
  qed
  finally have passes: "first_some (payload_pass rules payload) [''deny'', ''ask''] = None \<longleftrightarrow>
      (\<forall>r\<in>set rules. action_bucket (sr_action r) \<noteq> ''allow'' \<longrightarrow>
       \<not> glob_contains (to_lowercase (sr_pattern r)) payload)" .
  have "payload_verdict rules payload = None \<longleftrightarrow>
      first_some (payload_pass rules payload) [''deny'', ''ask''] = None
      \<and> find (contains_str payload) interpreter_dangerous_structures = None"
    by (cases "first_some (payload_pass rules payload) [''deny'', ''ask'']")
      (simp_all add: payload_verdict_def del: first_some.simps first_some_None)
  also have "find (contains_str payload) interpreter_dangerous_structures = None \<longleftrightarrow>
      \<not> list_ex (contains_str payload) interpreter_dangerous_structures"
    by (auto simp: find_None_iff list_ex_iff)
  finally show ?thesis unfolding passes .
qed

lemma payload_verdict_not_allowed: "payload_verdict rules payload = Some v \<Longrightarrow> fst v \<noteq> Allowed"
proof -
  assume v: "payload_verdict rules payload = Some v"
  show ?thesis
  proof (cases "first_some (payload_pass rules payload) [''deny'', ''ask'']")
    case None
    with v show ?thesis by (auto simp: payload_verdict_def)
  next
    case (Some hit)
    then obtain w where "w \<in> set [''deny'', ''ask'']" and w: "payload_pass rules payload w = Some hit"
      by (meson first_some_SomeD)
    then have "w = ''deny'' \<or> w = ''ask''" by simp
    moreover have "hit = v" using v Some by (simp add: payload_verdict_def)
    ultimately show ?thesis
      using payload_pass_Some [OF w] bucket_decision(1,2) by (metis security_decision.distinct(1))
  qed
qed

lemma interpreter_None: "interpreter_stage E P req = None \<longleftrightarrow>
    (req_op req = ProcessExec \<longrightarrow>
      (\<forall>payload\<in>set (extract_interpreter_payloads (match_target E req)).
         payload_verdict (op_rules P req) payload = None))"
  by (auto simp: interpreter_stage_def)

lemma interpreter_not_allowed: "interpreter_stage E P req = Some v \<Longrightarrow> fst v \<noteq> Allowed"
  by (auto simp: interpreter_stage_def split: if_splits dest!: first_some_SomeD
      dest: payload_verdict_not_allowed)

lemma no_block_iff:
  "deny_ask_stage E P req = None \<and> interpreter_stage E P req = None \<longleftrightarrow>
     \<not> list_ex (blocks E req) (op_rules P req) \<and> \<not> dangerous_payload E req"
  unfolding deny_ask_None interpreter_None payload_verdict_None blocks_def dangerous_payload_def
    list_ex_iff
  by blast

lemma editor_stage_allowed: "editor_stage P req = Some v \<Longrightarrow> fst v = Allowed"
  by (auto simp: editor_stage_def split: option.splits dest: editor_evaluate_allowed)

lemma allow_stage_None: "allow_stage E P req = None \<longleftrightarrow>
    \<not> list_ex (\<lambda>r. action_bucket (sr_action r) = ''allow'' \<and> rule_matches E req ''allow'' r) (op_rules P req)"
  by (auto simp: allow_stage_def list_ex_iff)

lemma allow_stage_Some: "allow_stage E P req = Some v \<Longrightarrow>
    fst v = (if is_exec_type (req_op req)
        \<and> scan_dangerous_flags (exec_rule_segments E (req_target req)) \<noteq> []
      then RequireApproval else Allowed)"
  by (auto simp: allow_stage_def Let_def bucket_decision dest!: find_index_Some_in split: if_splits)

lemma self_destruct_denied: "self_destruct_stage E P req = Some v \<Longrightarrow> fst v = Denied"
  by (auto simp: self_destruct_stage_def split: if_splits)

lemma grants_stages:
  "(case allow_stage E P req of Some v \<Rightarrow> fst v = Allowed | None \<Rightarrow>
     (case exec_unknown_stage P req of Some v \<Rightarrow> fst v = Allowed
      | None \<Rightarrow> normalize_decision (ps_default_action P) = Allowed)) \<longleftrightarrow> grants E P req"
proof (cases "allow_stage E P req")
  case None
  then have "\<not> list_ex (\<lambda>r. action_bucket (sr_action r) = ''allow'' \<and> rule_matches E req ''allow'' r)
      (op_rules P req)"
    by (simp add: allow_stage_None)
  with None show ?thesis by (simp add: grants_def exec_unknown_stage_def Let_def)
next
  case (Some v)
  then have ex: "list_ex (\<lambda>r. action_bucket (sr_action r) = ''allow'' \<and> rule_matches E req ''allow'' r)
      (op_rules P req)"
    using allow_stage_None [of E P req] by simp
  show ?thesis using Some allow_stage_Some [OF Some] by (simp add: grants_def ex)
qed

lemma inner_allowed_iff: "fst (evaluate_request_inner E P req) = Allowed \<longleftrightarrow> allowed_spec E P req"
proof (cases "self_destruct_stage E P req")
  case (Some v)
  then show ?thesis
    using self_destruct_denied [OF Some] by (simp add: evaluate_request_inner_def allowed_spec_def)
next
  case s: None
  show ?thesis
  proof (cases "editor_stage P req")
    case (Some v)
    then show ?thesis
      using s editor_stage_allowed [OF Some] by (simp add: evaluate_request_inner_def allowed_spec_def)
  next
    case e: None
    show ?thesis
    proof (cases "deny_ask_stage E P req = None \<and> interpreter_stage E P req = None")
      case True
      have "fst (evaluate_request_inner E P req) = Allowed \<longleftrightarrow> grants E P req"
        using s e True grants_stages [of P req E]
        by (auto simp: evaluate_request_inner_def split: option.splits)
      then show ?thesis using s e True no_block_iff [of E P req] by (simp add: allowed_spec_def)
    next
      case False
      then have "fst (evaluate_request_inner E P req) \<noteq> Allowed"
        using s e by (auto simp: evaluate_request_inner_def split: option.splits
            dest: deny_ask_not_allowed interpreter_not_allowed)
      moreover have "list_ex (blocks E req) (op_rules P req) \<or> dangerous_payload E req"
        using False no_block_iff [of E P req] by argo
      ultimately show ?thesis using e by (simp add: allowed_spec_def) blast
    qed
  qed
qed

lemma evaluate_allowed_iff:
  "fst (evaluate_request E P req) = Allowed \<longleftrightarrow> forced_reason req = None \<and> allowed_spec E P req"
  using inner_allowed_iff [of E P req]
  by (auto simp: evaluate_request_def Let_def split: option.splits)

lemma evaluate_denied_iff:
  "fst (evaluate_request E P req) = Denied \<longleftrightarrow> fst (evaluate_request_inner E P req) = Denied"
  by (auto simp: evaluate_request_def Let_def split: option.splits)

section \<open>The guard fires on a protected target\<close>

lemma destruct_scan_fires:
  assumes "ts = pre @ bin # win @ post"
    and "bin_key bin \<in> set destructive_bins"
    and "list_all (\<lambda>t. t \<notin> set boundary_tokens) win" and "list_ex recursive_flag win"
    and "t \<in> set win" and "is_hit protected exempt t"
  shows "destruct_scan protected exempt ts \<noteq> None"
  using assms(1)
proof (induction pre arbitrary: ts)
  case Nil
  have w: "takeWhile (\<lambda>t. t \<notin> set boundary_tokens) (win @ post) = win @ takeWhile (\<lambda>t. t \<notin> set boundary_tokens) post"
    by (rule takeWhile_append2) (use assms(3) in \<open>auto simp: list_all_iff\<close>)
  have "find (is_hit protected exempt) (win @ takeWhile (\<lambda>t. t \<notin> set boundary_tokens) post) \<noteq> None"
    using assms(5,6) by (auto simp: find_None_iff)
  moreover have "list_ex recursive_flag (win @ takeWhile (\<lambda>t. t \<notin> set boundary_tokens) post)" using assms(4) by simp
  ultimately show ?case using Nil assms(2) by (auto simp: Let_def w)
next
  case (Cons t pre)
  have IH: "destruct_scan protected exempt (pre @ bin # win @ post) \<noteq> None"
    by (rule Cons.IH) simp
  then show ?case using Cons.prems
    by (auto simp: Let_def split: option.splits if_splits)
qed

text \<open>
  What the guard protects: the root, the home, the current and the parent directory, everything in the current one, a
  repository, and every path that is a protected one, above one or below one, unless it lies strictly below the exempt
  root. Flags are no targets, and neither is a slash with one more character (a flag of Windows).
\<close>

definition at_risk :: "string list \<Rightarrow> string \<Rightarrow> string \<Rightarrow> bool" where
  "at_risk protected exempt t \<longleftrightarrow>
     t \<in> {''/'', [backslash], ''.'', ''..'', ''*'', ''.git''} \<or> starts_with t ''~'' \<or>
     (\<not> starts_with t ''-'' \<and> \<not> (starts_with t ''/'' \<and> length t \<le> 2) \<and>
      (let tt = trim_end_char CHR ''/'' (replace_char backslash ''/'' t) in
       (exempt = [] \<or> \<not> strict_descendant tt exempt) \<and>
       (\<exists>p \<in> set protected. let q = trim_end_char CHR ''/'' p in q = tt \<or> strict_descendant q tt \<or> strict_descendant tt q)))"

lemma home_survives_trim: "starts_with (trim_end_char CHR ''/'' (CHR ''~'' # s)) ''~''"
proof -
  have "dropWhile (\<lambda>d. d = CHR ''/'') (rev s @ [CHR ''~'']) = dropWhile (\<lambda>d. d = CHR ''/'') (rev s) @ [CHR ''~'']"
    by (induction "rev s") (auto simp: dropWhile_append3 dropWhile_append)
  then show ?thesis by (simp add: trim_end_char_def starts_with_def)
qed

lemma at_risk_is_hit:
  assumes "at_risk protected exempt t"
  shows "is_hit protected exempt t"
proof -
  let ?tt = "trim_end_char CHR ''/'' (replace_char backslash ''/'' t)"
  let ?near = "\<lambda>p. let q = trim_end_char CHR ''/'' p in q = ?tt \<or> strict_descendant q ?tt \<or> strict_descendant ?tt q"
  have near: "protected_hit exempt ?tt p" if "exempt = [] \<or> \<not> strict_descendant ?tt exempt" "?near p" for p
    using that by (auto simp: protected_hit_def Let_def)
  have cases: "t \<in> {''/'', [backslash], ''.'', ''..'', ''*'', ''.git''} \<or> starts_with t ''~'' \<or>
     (\<not> starts_with t ''-'' \<and> \<not> (starts_with t ''/'' \<and> length t \<le> 2) \<and>
      (exempt = [] \<or> \<not> strict_descendant ?tt exempt) \<and> (\<exists>p \<in> set protected. ?near p))"
    using assms by (simp only: at_risk_def Let_def)
  then consider "t \<in> {''/'', [backslash], ''.'', ''..'', ''*'', ''.git''}" | "starts_with t ''~''"
    | "\<not> starts_with t ''-''" "\<not> (starts_with t ''/'' \<and> length t \<le> 2)" "list_ex (protected_hit exempt ?tt) protected"
    using near unfolding list_ex_iff by blast
  then show ?thesis
  proof cases
    case 1
    have "list_all (is_hit protected exempt) [''/'', [backslash], ''.'', ''..'', ''*'', ''.git'']"
      by (simp add: is_hit_def Let_def starts_with_def trim_end_char_def replace_char_def)
    with 1 show ?thesis by auto
  next
    case 2
    then obtain s where "t = CHR ''~'' # s" by (cases t) (auto simp: starts_with_def)
    then show ?thesis
      using home_survives_trim by (simp add: is_hit_def Let_def starts_with_def replace_char_def)
  next
    case 3
    then show ?thesis by (auto simp: is_hit_def Let_def)
  qed
qed

section \<open>Properties\<close>

text \<open>
  C1. The specification of the verdict Allowed. The engine's ordered passes allow an operation exactly
  when it carries no forced review, the self-destruct guard is silent, and either the editor switch
  takes it or no deny or ask rule matches the target or an interpreter payload in it, no payload holds
  a dangerous structure, and an allow rule matches whose command has no sensitive flag; without an
  allow rule the posture for unknown commands, or else the default action, must grant it.
\<close>

theorem allowed_iff_spec:
  "fst (evaluate_request E P req) = Allowed \<longleftrightarrow> forced_reason req = None \<and> allowed_spec E P req"
  by (rule evaluate_allowed_iff)

text \<open>
  C2. Deny first. Unless the editor switch takes the operation, a matching rule whose action is deny,
  denied or a word the engine does not know gives Denied, whatever else stands in the table, at any
  position, and whatever review is forced.
\<close>

theorem deny_first:
  assumes "editor_stage P req = None" and "r \<in> set (op_rules P req)"
    and "action_bucket (sr_action r) = ''deny''" and "rule_matches E req ''deny'' r"
  shows "fst (evaluate_request E P req) = Denied"
proof -
  obtain v where v: "bucket_pass E (op_rules P req) req ''deny'' = Some v"
    using bucket_pass_None [of E "op_rules P req" req "''deny''"] assms(2-4) by fastforce
  from bucket_pass_Some [OF this] have "fst v = Denied" using bucket_decision(1) by auto
  moreover have "deny_ask_stage E P req = Some v" using v by (simp add: deny_ask_stage_def)
  ultimately have "fst (evaluate_request_inner E P req) = Denied"
    using assms(1) self_destruct_denied [of E P req]
    by (auto simp: evaluate_request_inner_def split: option.splits)
  then show ?thesis by (simp only: evaluate_denied_iff)
qed

definition sample_rule :: "string \<Rightarrow> string \<Rightarrow> security_rule" where
  "sample_rule pat act = \<lparr>sr_pattern = pat, sr_action = act, sr_comment = []\<rparr>"

definition sample_policy :: "security_rule list \<Rightarrow> operation_type \<Rightarrow> policy_state" where
  "sample_policy rules op = \<lparr>ps_rules = [op \<mapsto> rules], ps_default_action = ''deny'',
     ps_exec_unknown_policy = [], ps_protected_paths = [], ps_self_destruct_exempt = [],
     ps_editor_access = None\<rparr>"

definition sample_request :: "operation_type \<Rightarrow> string \<Rightarrow> operation_request" where
  "sample_request op target = default_request\<lparr>req_id := ''r1'', req_op := op,
     req_danger := get_danger_level op, req_target := target\<rparr>"

lemma deny_first_witness:
  "fst (evaluate_request reference_externals (sample_policy [sample_rule ''*'' ''allow'', sample_rule ''*'' ''deny''] Internal)
     (sample_request Internal ''x'')) = Denied"
proof (rule deny_first)
  show "sample_rule ''*'' ''deny'' \<in> set (op_rules
      (sample_policy [sample_rule ''*'' ''allow'', sample_rule ''*'' ''deny''] Internal)
      (sample_request Internal ''x''))"
    by (simp add: sample_policy_def sample_request_def op_rules_def)
qed (simp_all add: sample_policy_def sample_request_def editor_stage_def sample_rule_def
    action_bucket_def rule_matches_def is_command_type_def)

text \<open>
  C3. The self-destruct guard. Let there be protected paths, and let the normalised command of an exec or spawn request,
  split at blanks, have a token whose base name is a destructive verb, followed by tokens none of which is a command
  boundary, among them a recursive flag and, before or after it, a target at risk: literally the root, the home, the
  current or parent directory, a star or a repository, or a path that is equal to a protected path, above it or below
  it (backslashes read as slashes, slashes at the ends dropped) and not strictly below the exempt root. Then the request
  is denied with the guard's own tag: before the rules, whatever the editor switch allows and whatever review is forced.
\<close>

theorem self_destruct_guard:
  assumes "is_exec_type (req_op req)" and "ps_protected_paths P \<noteq> []"
    and "tokens (match_target E req) = pre @ bin # win @ post"
    and "bin_key bin \<in> set destructive_bins" and "list_all (\<lambda>t. t \<notin> set boundary_tokens) win"
    and "list_ex recursive_flag win" and "t \<in> set win"
    and "at_risk (ps_protected_paths P) (ps_self_destruct_exempt P) t"
  shows "\<exists>target. evaluate_request E P req = (Denied, SelfDestructReason target, SelfDestructTag)"
proof -
  have "destruct_scan (ps_protected_paths P) (ps_self_destruct_exempt P) (tokens (match_target E req)) \<noteq> None"
    by (rule destruct_scan_fires [OF assms(3-7) at_risk_is_hit [OF assms(8)]])
  then obtain target where "detect_self_destruct (match_target E req) (ps_protected_paths P)
      (ps_self_destruct_exempt P) = Some target"
    by (auto simp: detect_self_destruct_def)
  then have "self_destruct_stage E P req = Some (Denied, SelfDestructReason target, SelfDestructTag)"
    using assms(1,2) by (simp add: self_destruct_stage_def)
  then show ?thesis by (simp add: evaluate_request_def evaluate_request_inner_def)
qed

lemma self_destruct_guard_witness:
  "\<exists>target. evaluate_request reference_externals
     ((sample_policy [sample_rule ''*'' ''allow''] ProcessExec)
        \<lparr>ps_protected_paths := [''/home/bot/''], ps_self_destruct_exempt := ''/home/bot/ws'',
         ps_editor_access := Some (set_flags True True editor_new)\<rparr>)
     (sample_request ProcessExec ''cd /tmp && RM /home/bot -rf'') =
     (Denied, SelfDestructReason target, SelfDestructTag)"
proof (rule self_destruct_guard)
  show "tokens (match_target reference_externals (sample_request ProcessExec ''cd /tmp && RM /home/bot -rf'')) =
      [''cd'', ''/tmp'', ''&&''] @ ''rm'' # [''/home/bot'', ''-rf''] @ []"
    by code_simp
  show "bin_key ''rm'' \<in> set destructive_bins" "list_ex recursive_flag [''/home/bot'', ''-rf'']"
    "list_all (\<lambda>t. t \<notin> set boundary_tokens) [''/home/bot'', ''-rf'']" by code_simp+
  have "at_risk [''/home/bot/''] ''/home/bot/ws'' ''/home/bot''" by code_simp
  then show "at_risk (ps_protected_paths ((sample_policy [sample_rule ''*'' ''allow''] ProcessExec)
        \<lparr>ps_protected_paths := [''/home/bot/''], ps_self_destruct_exempt := ''/home/bot/ws'',
         ps_editor_access := Some (set_flags True True editor_new)\<rparr>))
      (ps_self_destruct_exempt ((sample_policy [sample_rule ''*'' ''allow''] ProcessExec)
        \<lparr>ps_protected_paths := [''/home/bot/''], ps_self_destruct_exempt := ''/home/bot/ws'',
         ps_editor_access := Some (set_flags True True editor_new)\<rparr>)) ''/home/bot''"
    by simp
qed (simp_all add: sample_request_def is_exec_type_def)

text \<open>
  What the guard does not see. It splits the command at spaces and knows a boundary only as a token
  of its own, so a separator glued to the verb or to the target hides either; and the exemption of the
  workspace is a comparison of texts, so a path that climbs out of the workspace with parent segments
  counts as inside it.
\<close>

theorem self_destruct_evasions:
  "detect_self_destruct ''true;rm -rf /home/bot'' [''/home/bot''] [] = None
   \<and> detect_self_destruct ''rm -rf /home/bot;true'' [''/home/bot''] [] = None
   \<and> detect_self_destruct ''rm -rf /home/bot/ws/../../bot'' [''/home/bot'', ''/home/bot/ws''] ''/home/bot/ws'' = None
   \<and> detect_self_destruct ''rm -rf /home/bot'' [''/home/bot'', ''/home/bot/ws''] ''/home/bot/ws'' = Some ''/home/bot''"
  by code_simp

lemma evaluate_rule_tag:
  assumes "evaluate_request E P req = (Allowed, why, RuleTag i)"
  shows "allow_stage E P req = Some (Allowed, why, RuleTag i)"
proof -
  have inner: "evaluate_request_inner E P req = (Allowed, why, RuleTag i)"
    using assms by (auto simp: evaluate_request_def Let_def split: if_splits option.splits)
  have "self_destruct_stage E P req = None"
    using inner by (auto simp: evaluate_request_inner_def self_destruct_stage_def split: if_splits option.splits)
  moreover have "editor_stage P req = None"
    using inner calculation
    by (auto simp: evaluate_request_inner_def editor_stage_def split: option.splits)
  moreover have "deny_ask_stage E P req = None"
    using inner calculation deny_ask_not_allowed [of E P req]
    by (auto simp: evaluate_request_inner_def split: option.splits)
  moreover have "interpreter_stage E P req = None"
    using inner calculation interpreter_not_allowed [of E P req]
    by (auto simp: evaluate_request_inner_def split: option.splits)
  moreover have "exec_unknown_stage P req \<noteq> Some (Allowed, why, RuleTag i)"
    by (simp add: exec_unknown_stage_def Let_def)
  ultimately show ?thesis
    using inner by (auto simp: evaluate_request_inner_def split: option.splits)
qed

text \<open>
  An allow rule lets a compound command through only as a whole: when a process command is allowed
  with the tag of a rule, that rule of the table grants, the command has at least one segment, every
  segment matches the rule's pattern, and no segment holds a sensitive flag.
\<close>

theorem compound_allow:
  assumes "evaluate_request E P req = (Allowed, why, RuleTag i)" and "is_exec_type (req_op req)"
  shows "i < length (op_rules P req) \<and> action_bucket (sr_action (op_rules P req ! i)) = ''allow''
    \<and> exec_rule_segments E (req_target req) \<noteq> []
    \<and> (\<forall>seg\<in>set (exec_rule_segments E (req_target req)).
         match_command_pattern E (normalize_exec_command E (sr_pattern (op_rules P req ! i))) seg
         \<and> segment_flag_hits seg = [])"
proof -
  from evaluate_rule_tag [OF assms(1)]
  obtain r where f: "find_index (\<lambda>rule. action_bucket (sr_action rule) = ''allow''
        \<and> rule_matches E req ''allow'' rule) (op_rules P req) = Some (i, r)"
    and flags: "scan_dangerous_flags (exec_rule_segments E (req_target req)) = []"
    using assms(2) by (auto simp: allow_stage_def Let_def split: if_splits)
  from find_index_from_SomeD [OF f] have r: "i < length (op_rules P req)" "op_rules P req ! i = r"
    "action_bucket (sr_action r) = ''allow''" "rule_matches E req ''allow'' r" by auto
  have "rule_matches E req ''allow'' r \<longleftrightarrow> exec_rule_bucket_match E ''allow'' (sr_pattern r)
      (match_target E req) (exec_rule_segments E (req_target req))"
    using assms(2) by (auto simp: rule_matches_def is_exec_type_def is_command_type_def)
  with r flags show ?thesis
    by (simp add: exec_rule_bucket_match_def Let_def list_all_iff scan_dangerous_flags_empty)
qed

lemma compound_allow_witness:
  "segment_flag_hits ''git status'' = [] \<and>
   match_command_pattern reference_externals ''git *'' ''git log''"
proof -
  let ?P = "sample_policy [sample_rule ''Git *'' ''allow''] ProcessExec"
  let ?r = "sample_request ProcessExec ''git status && git log''"
  have segs: "exec_rule_segments reference_externals (req_target ?r) = [''git status'', ''git log'']"
    and pat: "normalize_exec_command reference_externals ''Git *'' = ''git *''"
    and mt: "match_target reference_externals ?r = ''git status && git log''"
    and pay: "extract_interpreter_payloads ''git status && git log'' = []"
    and flags: "scan_dangerous_flags [''git status'', ''git log''] = []" by code_simp+
  have m: "match_command_pattern reference_externals ''git *'' ''git status''"
    "match_command_pattern reference_externals ''git *'' ''git log''"
  proof -
    have "atoms_match (command_atoms ''git *'') ''git status''"
      "atoms_match (command_atoms ''git *'') ''git log''" by code_simp+
    then show "match_command_pattern reference_externals ''git *'' ''git status''"
      "match_command_pattern reference_externals ''git *'' ''git log''"
      by (simp_all add: reference.match_command_lang atoms_match_lang)
  qed
  have rules: "op_rules ?P ?r = [sample_rule ''Git *'' ''allow'']"
    by (simp add: op_rules_def sample_policy_def sample_request_def)
  have bucket: "action_bucket (sr_action (sample_rule ''Git *'' ''allow'')) = ''allow''"
    "normalize_decision (sr_action (sample_rule ''Git *'' ''allow'')) = Allowed"
    "sr_pattern (sample_rule ''Git *'' ''allow'') = ''Git *''"
    by (simp_all add: sample_rule_def action_bucket_def normalize_decision_def)
  have hit: "rule_matches reference_externals ?r ''allow'' (sample_rule ''Git *'' ''allow'')"
    using m segs pat
    by (simp add: rule_matches_def exec_rule_bucket_match_def sample_request_def sample_rule_def
        is_command_type_def Let_def)
  have "allow_stage reference_externals ?P ?r = Some (Allowed, RuleMatched ''Git *'', RuleTag 0)"
    using hit segs flags bucket by (simp add: allow_stage_def rules)
  moreover have "interpreter_stage reference_externals ?P ?r = None"
    by (simp add: interpreter_stage_def mt pay)
  moreover have "deny_ask_stage reference_externals ?P ?r = None"
    using bucket by (simp add: deny_ask_None rules)
  moreover have "self_destruct_stage reference_externals ?P ?r = None" "editor_stage ?P ?r = None"
    by (simp_all add: self_destruct_stage_def editor_stage_def sample_policy_def)
  ultimately have "evaluate_request reference_externals ?P ?r = (Allowed, RuleMatched ''Git *'', RuleTag 0)"
    by (simp add: evaluate_request_def evaluate_request_inner_def forced_reason_def sample_request_def
        default_request_def)
  from compound_allow [OF this] show ?thesis
    unfolding rules segs
    by (simp add: sample_request_def is_exec_type_def sample_rule_def pat)
qed

text \<open>
  Rules that do not allow can only tighten. Inserting a rule of the deny or ask bucket at any
  position of an operation's table never turns an operation that was not allowed into an allowed one.
\<close>

theorem restrictive_rule_monotone:
  assumes "ps_rules P op = Some (u @ v)" and "action_bucket (sr_action r) \<noteq> ''allow''"
    and "fst (evaluate_request E (P\<lparr>ps_rules := (ps_rules P)(op \<mapsto> u @ r # v)\<rparr>) req) = Allowed"
  shows "fst (evaluate_request E P req) = Allowed"
proof -
  let ?P = "P\<lparr>ps_rules := (ps_rules P)(op \<mapsto> u @ r # v)\<rparr>"
  have same: "self_destruct_stage E ?P req = self_destruct_stage E P req"
    "editor_stage ?P req = editor_stage P req"
    by (simp_all add: self_destruct_stage_def editor_stage_def)
  have rules: "op_rules ?P req = (if req_op req = op then u @ r # v else op_rules P req)"
    "req_op req = op \<Longrightarrow> op_rules P req = u @ v"
    using assms(1) by (simp_all add: op_rules_def)
  have "list_ex (blocks E req) (op_rules P req) \<Longrightarrow> list_ex (blocks E req) (op_rules ?P req)"
    using rules by (auto split: if_splits)
  moreover have "grants E ?P req \<longleftrightarrow> grants E P req"
    using rules assms(2) by (auto simp: grants_def split: if_splits)
  ultimately show ?thesis
    using assms(3) by (auto simp: evaluate_allowed_iff allowed_spec_def same)
qed

lemma restrictive_rule_monotone_witness:
  "fst (evaluate_request reference_externals (sample_policy [sample_rule ''*'' ''allow''] Internal)
     (sample_request Internal ''x'')) = Allowed"
proof (rule restrictive_rule_monotone)
  let ?P = "sample_policy [sample_rule ''*'' ''allow''] Internal"
  show "ps_rules ?P Internal = Some ([sample_rule ''*'' ''allow''] @ [])"
    by (simp add: sample_policy_def)
  show "action_bucket (sr_action (sample_rule ''y'' ''ask'')) \<noteq> ''allow''"
    by (simp add: sample_rule_def action_bucket_def)
  have miss: "\<not> match_path_rule reference_externals ''y'' ''x''" by code_simp
  show "fst (evaluate_request reference_externals (?P\<lparr>ps_rules := (ps_rules ?P)(Internal \<mapsto>
      [sample_rule ''*'' ''allow''] @ sample_rule ''y'' ''ask'' # [])\<rparr>) (sample_request Internal ''x'')) = Allowed"
    using miss
    by (simp add: evaluate_allowed_iff allowed_spec_def self_destruct_stage_def grants_def op_rules_def
        blocks_def dangerous_payload_def forced_reason_def sample_policy_def sample_request_def
        sample_rule_def is_exec_type_def is_command_type_def rule_matches_def action_bucket_def
        default_request_def)
qed

text \<open>
  A forced review overrides everything but a denial: with a non-blank reason the verdict is Denied
  if it was Denied without the force, and otherwise RequireApproval with that reason and the tag of the
  pre-exec scan.
\<close>

theorem force_upgrades:
  assumes "forced_reason req = Some s"
  shows "evaluate_request E P req =
    (if fst (evaluate_request_inner E P req) = Denied then evaluate_request_inner E P req
     else (RequireApproval, ForcedReason s, PreexecScanTag))"
  by (simp add: evaluate_request_def assms Let_def)

lemma force_upgrades_witness:
  "fst (evaluate_request reference_externals (sample_policy [sample_rule ''*'' ''allow''] Internal)
     ((sample_request Internal ''x'')\<lparr>req_force := Some '' script deletes /data ''\<rparr>)) = RequireApproval"
proof -
  let ?P = "sample_policy [sample_rule ''*'' ''allow''] Internal"
  let ?r = "(sample_request Internal ''x'')\<lparr>req_force := Some '' script deletes /data ''\<rparr>"
  have f: "forced_reason ?r = Some ''script deletes /data''" by code_simp
  have "fst (evaluate_request_inner reference_externals ?P ?r) = Allowed"
    unfolding inner_allowed_iff
    by (simp add: allowed_spec_def self_destruct_stage_def grants_def op_rules_def
        blocks_def dangerous_payload_def sample_policy_def sample_request_def
        sample_rule_def is_exec_type_def is_command_type_def rule_matches_def action_bucket_def)
  then show ?thesis using force_upgrades [OF f, of reference_externals ?P] by simp
qed

text \<open>
  The two words of the ask bucket that are not asked: a rule with action \<open>approval\<close> or
  \<open>pending\<close> is scanned in the ask pass, but its hit is turned into Denied.
\<close>

theorem ask_words_denied:
  "action_bucket ''approval'' = ''ask'' \<and> action_bucket ''pending'' = ''ask''
   \<and> evaluate_request E (sample_policy [sample_rule ''*'' ''approval''] Internal) (sample_request Internal ''x'')
     = (Denied, RuleMatched ''*'', RuleTag 0)"
  by (simp add: evaluate_request_def evaluate_request_inner_def self_destruct_stage_def editor_stage_def
      deny_ask_stage_def bucket_pass_def op_rules_def sample_policy_def sample_request_def sample_rule_def
      is_exec_type_def is_command_type_def rule_matches_def action_bucket_def normalize_decision_def)

end
