(* ===== verification/Approval_Rules.thy ===== *)
theory Approval_Rules
  imports Command_Arity
begin

text \<open>
  \<open>crates/nemesis-security/src/approval_rules.rs\<close>: the remembered approvals ("always allow"). A rule
  holds an operation, a pattern and an action; exec operations remember the reduced command prefix,
  every other operation its exact target. The rules file is the value \<open>rules_file\<close>; reading it never
  fails, and a write either replaces the file or leaves it as it was (\<open>write_file_atomic\<close>), which the
  argument \<open>io\<close> says.
\<close>

section \<open>Rules\<close>

record approval_rule =
  ar_op :: string
  ar_pattern :: string
  ar_action :: string
  ar_created_at :: string

definition is_command_op :: "string \<Rightarrow> bool" where
  "is_command_op op \<longleftrightarrow> op = ''process_exec'' \<or> op = ''process_spawn''"

definition is_install_op :: "string \<Rightarrow> bool" where
  "is_install_op op \<longleftrightarrow> op = ''plugins.install'' \<or> op = ''skills.install''"

definition pattern_for :: "string \<Rightarrow> string \<Rightarrow> string" where
  "pattern_for op target0 =
     (let target = trim target0 in
      if target = [] then []
      else if is_command_op op then
        (if length (command_segments target) > 1 then []
         else (let reduced = reduce_command target in
               if reduced = [] then []
               else if ends_with reduced '' *'' then reduced
               else reduced @ '' *''))
      else target)"

definition rule_permitted_for :: "string \<Rightarrow> string \<Rightarrow> bool" where
  "rule_permitted_for op risk =
     (if is_install_op op then False else risk \<noteq> ''CRITICAL'' \<or> is_command_op op)"

definition prefix_hits :: "string list \<Rightarrow> string \<Rightarrow> bool" where
  "prefix_hits prefix_tokens seg =
     (let seg_tokens = strip_env_tokens (tokenize_command seg) in
      length seg_tokens \<ge> length prefix_tokens
      \<and> list_all (\<lambda>(t, p). t = p) (zip seg_tokens prefix_tokens))"

definition matches_rule :: "string \<Rightarrow> string \<Rightarrow> string \<Rightarrow> string \<Rightarrow> bool" where
  "matches_rule rule_op rule_pattern op target =
     (if rule_op \<noteq> op \<or> rule_pattern = [] \<or> target = [] then False
      else if rule_pattern = ''*'' then False
      else (case strip_suffix '' *'' rule_pattern of
              Some p \<Rightarrow>
                (let prefix_tokens = tokenize_command p in
                 if prefix_tokens = [] then False
                 else if is_command_op rule_op then
                   (let segments = command_segments target in
                    segments \<noteq> [] \<and> list_all (prefix_hits prefix_tokens) segments)
                 else prefix_hits prefix_tokens target)
            | None \<Rightarrow>
                if is_command_op rule_op
                then tokenize_command rule_pattern = strip_env_tokens (tokenize_command target)
                else rule_pattern = target))"

definition find_auto_allow_rule ::
  "approval_rule list \<Rightarrow> string \<Rightarrow> string \<Rightarrow> string \<Rightarrow> approval_rule option" where
  "find_auto_allow_rule rules op target risk =
     (if \<not> rule_permitted_for op risk then None
      else find (\<lambda>r. ar_action r = ''allow'' \<and> matches_rule (ar_op r) (ar_pattern r) op target) rules)"

section \<open>The rules file\<close>

fun upsert_rule :: "string \<Rightarrow> approval_rule list \<Rightarrow> string \<Rightarrow> string \<Rightarrow> approval_rule list \<times> bool" where
  "upsert_rule now rules op pattern =
     (if pattern = [] then (rules, False)
      else (case find_index (\<lambda>r. ar_op r = op \<and> ar_pattern r = pattern) rules of
              Some (i, existing) \<Rightarrow>
                (if ar_created_at existing \<noteq> now
                 then rules[i := existing\<lparr>ar_created_at := now\<rparr>] else rules, True)
            | None \<Rightarrow>
                (rules @ [\<lparr>ar_op = op, ar_pattern = pattern, ar_action = ''allow'', ar_created_at = now\<rparr>],
                 True)))"

declare upsert_rule.simps [simp del]

datatype rules_file = Absent | Malformed | Stored "approval_rule list"

fun load_rules :: "rules_file \<Rightarrow> approval_rule list" where
  "load_rules Absent = []"
| "load_rules Malformed = []"
| "load_rules (Stored rules) = rules"

fun save_rules :: "string option \<Rightarrow> rules_file \<Rightarrow> approval_rule list \<Rightarrow> (string + unit) \<times> rules_file" where
  "save_rules (Some e) file rules = (Inl e, file)"
| "save_rules None file rules = (Inr (), Stored rules)"

datatype persist_error = CompoundCommand | NoPattern string | SaveFailed string

definition persist_auto_allow_rule ::
  "string option \<Rightarrow> string \<Rightarrow> rules_file \<Rightarrow> string \<Rightarrow> string \<Rightarrow> string \<Rightarrow>
     (persist_error + string option) \<times> rules_file" where
  "persist_auto_allow_rule io now file operation target risk_level =
     (if \<not> rule_permitted_for operation risk_level then (Inr None, file)
      else (let pattern = pattern_for operation target in
        if pattern = [] then
          (if is_command_op operation \<and> length (command_segments (trim target)) > 1
           then (Inl CompoundCommand, file)
           else (Inl (NoPattern operation), file))
        else (let stored = fst (upsert_rule now (load_rules file) operation pattern) in
          (case save_rules io file stored of
             (Inl e, file') \<Rightarrow> (Inl (SaveFailed e), file')
           | (Inr _, file') \<Rightarrow> (Inr (Some pattern), file')))))"

section \<open>The prefix a rule remembers\<close>

definition command_words :: "string \<Rightarrow> string list" where
  "command_words cmd = strip_env_tokens (tokenize_command cmd)"

definition remembered_prefix :: "string \<Rightarrow> string list" where
  "remembered_prefix cmd = (let ws = command_words (trim cmd) in take (arity_keep ws) ws)"

definition plain_word :: "string \<Rightarrow> bool" where
  "plain_word w \<longleftrightarrow> w \<noteq> [] \<and> list_all (\<lambda>c. \<not> is_whitespace c \<and> c \<noteq> single_quote \<and> c \<noteq> double_quote) w"

lemma prefix_zip: "length p \<le> length t \<and> list_all (\<lambda>(a, b). a = b) (zip t p) \<longleftrightarrow> prefix p t"
proof (induction p arbitrary: t)
  case Nil
  then show ?case by simp
next
  case (Cons x p)
  then show ?case by (cases t) auto
qed

lemma prefix_hits_prefix: "prefix_hits p seg \<longleftrightarrow> prefix p (command_words seg)"
  by (simp add: prefix_hits_def Let_def command_words_def prefix_zip)

lemma strip_suffix_append [simp]: "strip_suffix s (p @ s) = Some p"
  by (simp add: strip_suffix_def suffix_def)

lemma tokenize_join:
  assumes "list_all plain_word ws"
  shows "tokenize_command (join '' '' ws) = ws"
proof -
  have "c \<noteq> single_quote \<and> c \<noteq> double_quote" if "c \<in> set (join '' '' ws)" for c
  proof -
    from that set_join [of "'' ''" ws] consider "c = CHR '' ''" | w where "w \<in> set ws" "c \<in> set w"
      by auto
    then show ?thesis using assms by cases (auto simp: plain_word_def list_all_iff)
  qed
  then have "tokenize_command (join '' '' ws) = split_whitespace (join '' '' ws)"
    by (rule tokenize_plain)
  also have "\<dots> = ws"
    using assms by (intro split_whitespace_join) (auto simp: plain_word_def list_all_iff)
  finally show ?thesis .
qed

lemma join_ends_star:
  assumes "list_all plain_word ws" and "ends_with (join '' '' ws) '' *''"
  shows "last ws = ''*''"
proof -
  from assms(2) obtain u where u: "join '' '' ws = u @ CHR '' '' # ''*''"
    by (auto simp: ends_with_def suffix_def)
  have "ws = split_whitespace (join '' '' ws)"
    using assms(1) by (intro split_whitespace_join [symmetric]) (auto simp: plain_word_def list_all_iff)
  also have "\<dots> = split_whitespace u @ [''*'']"
    by (simp add: u split_whitespace_def split_by_mid is_whitespace_def)
  finally show ?thesis by (metis last_snoc)
qed

text \<open>What the write side produces for an exec operation, when the words are plain.\<close>

definition rememberable :: "string \<Rightarrow> bool" where
  "rememberable target \<longleftrightarrow>
     (let ws = command_words (trim target) in
      length (command_segments (trim target)) \<le> 1 \<and> ws \<noteq> [] \<and> list_all plain_word ws
      \<and> (arity_keep ws < length ws \<or> last ws \<noteq> ''*''))"

lemma pattern_for_exec:
  assumes "is_command_op op" "rememberable t"
  shows "pattern_for op t = join '' '' (remembered_prefix t) @ '' *''"
    and "remembered_prefix t \<noteq> []" "list_all plain_word (remembered_prefix t)"
proof -
  let ?ws = "command_words (trim t)"
  have ws: "?ws \<noteq> []" and plain: "list_all plain_word ?ws"
    and one: "length (command_segments (trim t)) \<le> 1"
    and star: "arity_keep ?ws < length ?ws \<or> last ?ws \<noteq> ''*''"
    using assms(2) by (auto simp: rememberable_def Let_def)
  have t: "trim t \<noteq> []" using ws
    by (auto simp: command_words_def tokenize_command_def strip_env_tokens_def)
  have keep: "arity_keep ?ws \<noteq> 0" using arity_keep_bounds [of ?ws] by simp
  have join: "join '' '' ?ws \<noteq> []"
    using ws plain join_Nil_iff [of ?ws] by (auto simp: plain_word_def list_all_iff)
  show ne: "remembered_prefix t \<noteq> []" using ws keep by (simp add: remembered_prefix_def Let_def)
  show "list_all plain_word (remembered_prefix t)"
    using plain by (auto simp: remembered_prefix_def Let_def list_all_iff dest: in_set_takeD)
  show "pattern_for op t = join '' '' (remembered_prefix t) @ '' *''"
  proof (cases "length ?ws \<le> arity_keep ?ws")
    case True
    then have "\<not> ends_with (join '' '' ?ws) '' *''" using star join_ends_star [OF plain] by auto
    with True t assms(1) one ws join show ?thesis
      by (simp add: pattern_for_def reduce_command_def remembered_prefix_def Let_def
          command_words_def [symmetric])
  next
    case False
    with t assms(1) one ws show ?thesis
      by (simp add: pattern_for_def reduce_command_def remembered_prefix_def Let_def
          command_words_def [symmetric] ends_with_def suffix_def)
  qed
qed

lemma command_segments_Nil [simp]: "command_segments [] = []"
  by (simp add: command_segments_def scan_segments_def finish_segments_def trim_def trim_start_def
      trim_end_def)

lemma pattern_for_scope:
  assumes "is_command_op op" "rememberable t"
  shows "matches_rule op (pattern_for op t) op u \<longleftrightarrow>
    command_segments u \<noteq> []
    \<and> (\<forall>seg\<in>set (command_segments u). prefix (remembered_prefix t) (command_words seg))"
proof -
  note p = pattern_for_exec [OF assms]
  have tok: "tokenize_command (join '' '' (remembered_prefix t)) = remembered_prefix t"
    by (rule tokenize_join [OF p(3)])
  have star: "join '' '' (remembered_prefix t) @ '' *'' \<noteq> ''*''"
    by (auto dest: arg_cong [of _ _ length])
  have "command_segments u \<noteq> [] \<Longrightarrow> u \<noteq> []" by auto
  then show ?thesis
    using assms(1) p(2) star
    by (auto simp: matches_rule_def p(1) tok Let_def list_all_iff prefix_hits_prefix)
qed

text \<open>A command without operators and quotes is matched by the rule remembered for it.\<close>

definition plain_command :: "string \<Rightarrow> bool" where
  "plain_command t \<longleftrightarrow>
     list_all (\<lambda>c. c \<notin> operator_chars \<and> c \<noteq> single_quote \<and> c \<noteq> double_quote) t"

lemma plain_command_trim: "plain_command t \<Longrightarrow> plain_command (trim t)"
  using set_trim [of t] by (auto simp: plain_command_def list_all_iff)

lemma plain_command_words:
  assumes "plain_command t"
  shows "command_words t = strip_env_tokens (split_whitespace t)"
    and "list_all plain_word (command_words t)"
proof -
  show eq: "command_words t = strip_env_tokens (split_whitespace t)"
    using assms by (simp add: command_words_def tokenize_plain plain_command_def list_all_iff)
  have "plain_word w" if "w \<in> set (split_whitespace t)" for w
    using split_whitespace_words [OF that] assms
    by (auto simp: plain_word_def plain_command_def list_all_iff)
  then show "list_all plain_word (command_words t)"
    by (auto simp: eq list_all_iff strip_env_tokens_def dest: set_dropWhileD)
qed

lemma plain_command_segments:
  "plain_command t \<Longrightarrow> trim t \<noteq> [] \<Longrightarrow> command_segments t = [trim t]"
  by (rule command_segments_plain) (auto simp: plain_command_def list_all_iff)

lemma remembered_roundtrip:
  assumes "is_command_op op" "plain_command t" "command_words (trim t) \<noteq> []"
    and "arity_keep (command_words (trim t)) < length (command_words (trim t))
      \<or> last (command_words (trim t)) \<noteq> ''*''"
  shows "matches_rule op (pattern_for op t) op t"
proof -
  have t: "trim t \<noteq> []" using assms(3)
    by (auto simp: command_words_def tokenize_command_def strip_env_tokens_def)
  have seg: "command_segments (trim t) = [trim t]"
    using plain_command_segments [OF plain_command_trim [OF assms(2)]] t by simp
  have "rememberable t"
    using assms(3,4) seg plain_command_words(2) [OF plain_command_trim [OF assms(2)]]
    by (simp add: rememberable_def Let_def)
  then show ?thesis
    using pattern_for_scope [OF assms(1), of t t] plain_command_segments [OF assms(2) t]
    by (simp add: remembered_prefix_def Let_def take_is_prefix)
qed

section \<open>The table and its file\<close>

abbreviation rule_key :: "approval_rule \<Rightarrow> string \<times> string" where
  "rule_key r \<equiv> (ar_op r, ar_pattern r)"

lemma upsert_cases:
  obtains "pattern = []" "upsert_rule now rules op pattern = (rules, False)"
  | i where "pattern \<noteq> []" "i < length rules" "rule_key (rules ! i) = (op, pattern)"
      "\<forall>j < i. rule_key (rules ! j) \<noteq> (op, pattern)"
      "upsert_rule now rules op pattern = (rules[i := (rules ! i)\<lparr>ar_created_at := now\<rparr>], True)"
  | "pattern \<noteq> []" "(op, pattern) \<notin> rule_key ` set rules"
      "upsert_rule now rules op pattern =
        (rules @ [\<lparr>ar_op = op, ar_pattern = pattern, ar_action = ''allow'', ar_created_at = now\<rparr>], True)"
proof (cases "pattern = []")
  case True
  then show ?thesis using that(1) by (simp add: upsert_rule.simps)
next
  case False
  let ?P = "\<lambda>r. ar_op r = op \<and> ar_pattern r = pattern"
  show ?thesis
  proof (cases "find_index ?P rules")
    case None
    then have "(op, pattern) \<notin> rule_key ` set rules" by auto
    then show ?thesis using that(3) False None by (simp add: upsert_rule.simps)
  next
    case (Some ix)
    obtain i r where ix: "ix = (i, r)" by fastforce
    with Some have r: "?P r" "i < length rules" "rules ! i = r" "\<forall>j < i. \<not> ?P (rules ! j)"
      using find_index_from_SomeD [of 0 ?P rules i r] by auto
    have same: "rules[i := r\<lparr>ar_created_at := now\<rparr>] = rules" if "ar_created_at r = now"
    proof -
      have "r\<lparr>ar_created_at := now\<rparr> = r" using that by simp
      then show ?thesis using r by (metis list_update_id)
    qed
    show ?thesis
      by (rule that(2) [of i]) (use False Some ix r same in \<open>auto simp: upsert_rule.simps\<close>)
  qed
qed

lemma upsert_keys:
  "set (map rule_key (fst (upsert_rule now rules op pattern))) =
     (if pattern = [] then {} else {(op, pattern)}) \<union> rule_key ` set rules"
  "distinct (map rule_key rules) \<Longrightarrow> distinct (map rule_key (fst (upsert_rule now rules op pattern)))"
proof -
  have upd: "map rule_key (rules[i := (rules ! i)\<lparr>ar_created_at := now\<rparr>]) = map rule_key rules" for i
    by (simp add: map_update list_update_same_conv[symmetric])
      (metis (no_types, lifting) list_update_beyond list_update_id length_map map_update not_le nth_map)
  show "set (map rule_key (fst (upsert_rule now rules op pattern))) =
     (if pattern = [] then {} else {(op, pattern)}) \<union> rule_key ` set rules"
    by (cases rule: upsert_cases [of pattern now rules op])
      (use upd in \<open>auto \<close>)
  show "distinct (map rule_key rules) \<Longrightarrow> distinct (map rule_key (fst (upsert_rule now rules op pattern)))"
    by (cases rule: upsert_cases [of pattern now rules op])
      (use upd in \<open>auto \<close>)
qed

lemma upsert_actions:
  "list_all (\<lambda>r. ar_action r = ''allow'') rules \<Longrightarrow>
     list_all (\<lambda>r. ar_action r = ''allow'') (fst (upsert_rule now rules op pattern))"
proof (cases rule: upsert_cases [of pattern now rules op])
  case (2 i)
  assume a: "list_all (\<lambda>r. ar_action r = ''allow'') rules"
  then have "ar_action (rules ! i) = ''allow''" using 2(2) by (simp add: list_all_length)
  then show ?thesis
    using a 2(5) set_update_subset_insert [of rules i "(rules ! i)\<lparr>ar_created_at := now\<rparr>"]
    by (auto simp: list_all_iff dest!: subsetD)
qed auto

lemma find_auto_allow_ex:
  assumes "rule_permitted_for op risk" "r \<in> set rules" "ar_action r = ''allow''"
    and "matches_rule (ar_op r) (ar_pattern r) op target"
  shows "find_auto_allow_rule rules op target risk \<noteq> None"
  using assms by (auto simp: find_auto_allow_rule_def find_None_iff)

lemma persist_Inr_Some:
  assumes "persist_auto_allow_rule io now file op target risk = (Inr (Some p), file')"
  shows "rule_permitted_for op risk" "p = pattern_for op target" "p \<noteq> []"
    "file' = Stored (fst (upsert_rule now (load_rules file) op p))"
  using assms
  by (auto simp: persist_auto_allow_rule_def Let_def 
      split: if_splits sum.splits prod.splits elim: save_rules.elims)

section \<open>Properties\<close>

text \<open>
  The scope of a remembered exec approval. For a command whose words are plain, the rule that
  \<open>pattern_for\<close> writes is read back by \<open>matches_rule\<close> as: the other command has at least one
  top-level segment, and the words of every segment begin with the remembered prefix (the arity
  prefix of the approved command). So \<open>cd *\<close> does not cover \<open>cd x && rm -rf y\<close>.
\<close>

theorem remembered_scope:
  assumes "is_command_op op" and "rememberable t"
  shows "matches_rule op (pattern_for op t) op u \<longleftrightarrow>
    command_segments u \<noteq> []
    \<and> (\<forall>seg\<in>set (command_segments u). prefix (remembered_prefix t) (command_words seg))"
  by (rule pattern_for_scope [OF assms])

lemma remembered_scope_witness:
  "matches_rule ''process_exec'' (pattern_for ''process_exec'' ''cargo test --release'') ''process_exec''
     ''FOO=1 cargo test -q'' \<and>
   \<not> matches_rule ''process_exec'' (pattern_for ''process_exec'' ''cargo test --release'') ''process_exec''
     ''cargo test && rm -rf y''"
proof -
  have t: "is_command_op ''process_exec''" "rememberable ''cargo test --release''" by code_simp+
  have "command_segments ''FOO=1 cargo test -q'' = [''FOO=1 cargo test -q'']"
    and "command_segments ''cargo test && rm -rf y'' = [''cargo test'', ''rm -rf y'']"
    and "prefix (remembered_prefix ''cargo test --release'') (command_words ''FOO=1 cargo test -q'')"
    and "\<not> prefix (remembered_prefix ''cargo test --release'') (command_words ''rm -rf y'')"
    by code_simp+
  then show ?thesis
    using remembered_scope [OF t, of "''FOO=1 cargo test -q''"]
      remembered_scope [OF t, of "''cargo test && rm -rf y''"] by simp
qed

text \<open>
  What was persisted is found. After a successful \<open>persist_auto_allow_rule\<close> of a plain exec
  command, the reloaded table answers the same command at the same risk with a rule, provided every
  rule of the file has the action \<open>allow\<close> (upsert only refreshes the time stamp of a rule that is
  there, and would keep another action).
\<close>

theorem persisted_rule_found:
  assumes "persist_auto_allow_rule io now file op t risk = (Inr (Some p), file')"
    and "is_command_op op" and "plain_command t"
    and "arity_keep (command_words (trim t)) < length (command_words (trim t))
      \<or> last (command_words (trim t)) \<noteq> ''*''"
    and "list_all (\<lambda>r. ar_action r = ''allow'') (load_rules file)"
  shows "find_auto_allow_rule (load_rules file') op t risk \<noteq> None"
proof -
  note p = persist_Inr_Some [OF assms(1)]
  have "command_words (trim t) \<noteq> []"
  proof
    assume "command_words (trim t) = []"
    then have "pattern_for op t = []"
      using assms(2) by (simp add: pattern_for_def Let_def reduce_command_def
          command_words_def [symmetric])
    with p show False by simp
  qed
  then have m: "matches_rule op p op t"
    using remembered_roundtrip [OF assms(2,3) _ assms(4)] p(2) by simp
  have "(op, p) \<in> set (map rule_key (load_rules file'))"
    using upsert_keys(1) [of now "load_rules file" op p] p by simp
  then obtain r where r: "r \<in> set (load_rules file')" "ar_op r = op" "ar_pattern r = p" by auto
  have "list_all (\<lambda>r. ar_action r = ''allow'') (load_rules file')"
    using upsert_actions [OF assms(5)] p(4) by simp
  with r m p(1) show ?thesis by (intro find_auto_allow_ex [of _ _ r]) (auto simp: list_all_iff)
qed

lemma persisted_rule_found_witness:
  "find_auto_allow_rule (load_rules (snd (persist_auto_allow_rule None ''t1'' Absent ''process_exec''
     ''git push origin'' ''CRITICAL''))) ''process_exec'' ''git push origin'' ''CRITICAL'' \<noteq> None"
proof -
  have "persist_auto_allow_rule None ''t1'' Absent ''process_exec'' ''git push origin'' ''CRITICAL'' =
      (Inr (Some ''git push *''),
       Stored [\<lparr>ar_op = ''process_exec'', ar_pattern = ''git push *'', ar_action = ''allow'',
                ar_created_at = ''t1''\<rparr>])"
    by code_simp
  moreover from this have "find_auto_allow_rule (load_rules (Stored [\<lparr>ar_op = ''process_exec'',
      ar_pattern = ''git push *'', ar_action = ''allow'', ar_created_at = ''t1''\<rparr>]))
      ''process_exec'' ''git push origin'' ''CRITICAL'' \<noteq> None"
    by (rule persisted_rule_found) code_simp+
  ultimately show ?thesis by simp
qed

text \<open>
  The tier gate of remembered approvals. A rule that lets an operation through is a rule of the
  table with action \<open>allow\<close> that matches it; installs never pass, and a CRITICAL operation passes only
  when it is an exec operation (\<open>process_exec\<close> or \<open>process_spawn\<close>).
\<close>

theorem auto_allow_gate:
  assumes "find_auto_allow_rule rules op target risk = Some r"
  shows "r \<in> set rules \<and> ar_action r = ''allow''
    \<and> matches_rule (ar_op r) (ar_pattern r) op target
    \<and> op \<noteq> ''plugins.install'' \<and> op \<noteq> ''skills.install''
    \<and> (risk \<noteq> ''CRITICAL'' \<or> op \<in> {''process_exec'', ''process_spawn''})"
proof -
  have gate: "rule_permitted_for op risk" and f:
    "find (\<lambda>r. ar_action r = ''allow'' \<and> matches_rule (ar_op r) (ar_pattern r) op target) rules = Some r"
    using assms by (simp_all add: find_auto_allow_rule_def split: if_splits)
  from gate have "\<not> is_install_op op" "risk \<noteq> ''CRITICAL'' \<or> is_command_op op"
    by (simp_all add: rule_permitted_for_def split: if_splits)
  moreover have "r \<in> set rules" "ar_action r = ''allow''" "matches_rule (ar_op r) (ar_pattern r) op target"
    using find_SomeD [OF f] by simp_all
  ultimately show ?thesis unfolding is_install_op_def is_command_op_def by blast
qed

lemma auto_allow_gate_witness:
  "\<exists>rules r. find_auto_allow_rule rules ''process_spawn'' ''cargo test -q'' ''CRITICAL'' = Some r
     \<and> ar_action r = ''allow''"
proof -
  let ?r = "\<lparr>ar_op = ''process_spawn'', ar_pattern = ''cargo test *'', ar_action = ''allow'',
     ar_created_at = []\<rparr>"
  have f: "find_auto_allow_rule [?r] ''process_spawn'' ''cargo test -q'' ''CRITICAL'' = Some ?r"
    by code_simp
  from auto_allow_gate [OF this] have "ar_action ?r = ''allow''" by (elim conjE)
  with f show ?thesis by blast
qed

text \<open>
  Upserting keeps the table a table: keys (operation, pattern) that were distinct stay
  distinct, no key is lost, and a non-empty pattern is a key afterwards.
\<close>

theorem upsert_keeps_table:
  "(distinct (map rule_key rules) \<longrightarrow> distinct (map rule_key (fst (upsert_rule now rules op pattern))))
   \<and> set (map rule_key (fst (upsert_rule now rules op pattern))) =
       (if pattern = [] then {} else {(op, pattern)}) \<union> rule_key ` set rules"
  using upsert_keys(1) [of now rules op pattern] upsert_keys(2) [of rules now op pattern] by blast

lemma upsert_keeps_table_witness:
  "distinct (map rule_key (fst (upsert_rule ''t2'' [\<lparr>ar_op = ''process_exec'', ar_pattern = ''ls *'',
     ar_action = ''allow'', ar_created_at = ''t1''\<rparr>] ''process_exec'' ''ls *'')))"
  by (rule conjunct1 [OF upsert_keeps_table, rule_format]) simp

text \<open>
  An exact exec rule (one without the suffix, as a hand-written file may hold) is compared with
  the words of the whole command after its leading assignments, not segment by segment. A separator
  glued to an assignment hides a second command: the rule \<open>ls\<close> answers \<open>A=1;rm ls\<close>, whose segments
  are \<open>A=1\<close> and \<open>rm ls\<close>.
\<close>

theorem exact_rule_ignores_segments:
  "matches_rule ''process_exec'' ''ls'' ''process_exec'' ''A=1;rm ls''
   \<and> command_segments ''A=1;rm ls'' = [''A=1'', ''rm ls'']"
  by code_simp

end
