(* ===== verification/Auditor.thy ===== *)
theory Auditor
  imports Policy Approval_Rules
begin

text \<open>
  The \<open>SecurityAuditor\<close> of \<open>crates/nemesis-security/src/auditor.rs\<close> around the decision function: its
  configuration and run-time state, the permission request with the ways a required approval can be
  settled (remembered rule, session allow-all, auto-approve, the approval manager, the pending table),
  the later approval or denial of a pending request, the direct reviews, and the audit log.

  The state is the record \<open>auditor\<close>, an extension of \<open>policy_state\<close>; counters are \<open>64 word\<close>
  (\<open>AtomicI64\<close>). What the environment supplies in one call (clock, fresh identifiers, whether an append
  or a save succeeds) is the record \<open>call_env\<close>. The approval manager is a trait object: its record holds
  whether it runs and the function that answers a card. Audit files are a map from paths to events.
\<close>

section \<open>Data\<close>

record approval_verdict =
  av_approved :: bool
  av_note :: "string option"

record approval_context =
  ctx_channel :: string
  ctx_chat_id :: string
  ctx_sender_id :: string
  ctx_session_key :: string
  ctx_tool_args :: json
  ctx_batch_id :: string

datatype review_reason =
    ReviewText string
  | GuardianText string bool string \<comment> \<open>recommendation, matches rules, rationale\<close>

datatype card_reason = CardPolicy reason | CardReview review_reason

record approval_card =
  card_request_id :: string
  card_operation :: string
  card_target :: string
  card_risk :: string
  card_reason_text :: card_reason
  card_timeout :: "64 word"

record approval_manager =
  mgr_running :: bool
  mgr_decide :: "approval_card \<Rightarrow> approval_context option \<Rightarrow> string + approval_verdict"

record auditor_config =
  cfg_enabled :: bool
  cfg_timeout_secs :: "64 word"
  cfg_log_enabled :: bool
  cfg_log_dir :: "string option"
  cfg_default_action :: string

definition default_config :: auditor_config where
  "default_config = \<lparr>cfg_enabled = True, cfg_timeout_secs = 300, cfg_log_enabled = False,
     cfg_log_dir = None, cfg_default_action = ''deny''\<rparr>"

datatype review_kind = GuardianFailure | LimitReview | CredentialUse | GuardianVerdictReview

datatype review_outcome =
    ReviewApproved
  | ReviewRejected string
  | ReviewRejectedOrTimeout
  | ReviewUnavailable string
  | ReviewNoManager
  | ReviewNotRunning

datatype audit_reason =
    AuPolicy reason
  | AuFlagBlockedRule "string list" string
  | AuAutoAllowedByRule string string
  | AuSessionAllowAll
  | AuAutoApprove
  | AuGuardianVerdict string bool string string string
  | AuReview review_kind review_reason review_outcome

datatype audit_tag =
    AuTag policy_tag
  | AuAutoByRule string
  | AuSessionTag
  | AuAutoByConfig
  | AuGuardianFailurePolicy
  | AuSecurityLimits
  | AuCredentialGate
  | AuGuardianMode string

record audit_event =
  ev_id :: string
  ev_request :: operation_request
  ev_decision :: string
  ev_reason :: audit_reason
  ev_timestamp :: string
  ev_policy_rule :: audit_tag

record auditor = policy_state +
  au_config :: auditor_config
  au_enabled :: bool
  au_total :: "64 word"
  au_allowed :: "64 word"
  au_denied :: "64 word"
  au_approved :: "64 word"
  au_pending :: "64 word"
  au_active :: "string \<rightharpoonup> operation_request"
  au_manager :: "approval_manager option"
  au_rules :: "rules_file option"
  au_log_file :: "string option"
  au_auto :: "auto_approve option"
  au_sessions :: "session_allow_all option"
  au_jsonl :: "(bool \<times> string) option"
  au_files :: "string \<Rightarrow> audit_event list"

record call_env =
  env_now :: string
  env_uuid :: "nat \<Rightarrow> string"
  env_append_ok :: "string \<Rightarrow> bool"
  env_save_error :: "string option"

definition auditor_new :: "auditor_config \<Rightarrow> auditor" where
  "auditor_new config =
     \<lparr>ps_rules = Map.empty, ps_default_action = cfg_default_action config, ps_exec_unknown_policy = [],
      ps_protected_paths = [], ps_self_destruct_exempt = [], ps_editor_access = None,
      au_config = config, au_enabled = cfg_enabled config, au_total = 0, au_allowed = 0, au_denied = 0,
      au_approved = 0, au_pending = 0, au_active = Map.empty, au_manager = None, au_rules = None,
      au_log_file = None, au_auto = None, au_sessions = None, au_jsonl = None, au_files = (\<lambda>_. [])\<rparr>"

section \<open>Settings\<close>

definition set_protected_paths :: "string list \<Rightarrow> auditor \<Rightarrow> auditor" where
  "set_protected_paths paths s =
     s\<lparr>ps_protected_paths :=
        map (\<lambda>p. to_lowercase (replace_char backslash ''/'' p)) (filter (\<lambda>p. trim p \<noteq> []) paths)\<rparr>"

definition set_self_destruct_exempt_path :: "string \<Rightarrow> auditor \<Rightarrow> auditor" where
  "set_self_destruct_exempt_path path s =
     s\<lparr>ps_self_destruct_exempt :=
        to_lowercase (trim_end_char CHR ''/'' (replace_char backslash ''/'' (trim path)))\<rparr>"

definition set_rules :: "operation_type \<Rightarrow> security_rule list \<Rightarrow> auditor \<Rightarrow> auditor" where
  "set_rules op_type rules s = s\<lparr>ps_rules := (ps_rules s)(op_type \<mapsto> rules)\<rparr>"

definition set_default_action :: "string \<Rightarrow> auditor \<Rightarrow> auditor" where
  "set_default_action action s = s\<lparr>ps_default_action := action\<rparr>"

definition set_exec_unknown_policy :: "string \<Rightarrow> auditor \<Rightarrow> auditor" where
  "set_exec_unknown_policy policy s = s\<lparr>ps_exec_unknown_policy := to_lowercase policy\<rparr>"

definition set_editor_access :: "editor_access \<Rightarrow> auditor \<Rightarrow> auditor" where
  "set_editor_access e s = s\<lparr>ps_editor_access := Some e\<rparr>"

definition set_approval_manager :: "approval_manager \<Rightarrow> auditor \<Rightarrow> auditor" where
  "set_approval_manager mgr s = s\<lparr>au_manager := Some mgr\<rparr>"

definition set_approval_rules :: "rules_file \<Rightarrow> auditor \<Rightarrow> auditor" where
  "set_approval_rules file s = s\<lparr>au_rules := Some file\<rparr>"

definition set_approval_auto_approve :: "auto_approve \<Rightarrow> auditor \<Rightarrow> auditor" where
  "set_approval_auto_approve a s = s\<lparr>au_auto := Some a\<rparr>"

definition set_session_allow_all :: "session_allow_all \<Rightarrow> auditor \<Rightarrow> auditor" where
  "set_session_allow_all m s = s\<lparr>au_sessions := Some m\<rparr>"

definition set_log_file :: "string \<Rightarrow> auditor \<Rightarrow> auditor" where
  "set_log_file path s = s\<lparr>au_log_file := Some path\<rparr>"

definition set_audit_jsonl_log :: "bool \<Rightarrow> string \<Rightarrow> auditor \<Rightarrow> auditor" where
  "set_audit_jsonl_log enabled dir s = s\<lparr>au_jsonl := Some (enabled, dir)\<rparr>"

definition enable :: "auditor \<Rightarrow> auditor" where
  "enable s = s\<lparr>au_enabled := True\<rparr>"

definition disable :: "auditor \<Rightarrow> auditor" where
  "disable s = s\<lparr>au_enabled := False\<rparr>"

definition approval_auto_enabled :: "auditor \<Rightarrow> bool" where
  "approval_auto_enabled s = (case au_auto s of Some a \<Rightarrow> ap_enabled a | None \<Rightarrow> False)"

definition has_approval_channel :: "auditor \<Rightarrow> bool" where
  "has_approval_channel s = (case au_manager s of Some m \<Rightarrow> mgr_running m | None \<Rightarrow> False)"

section \<open>The audit log\<close>

definition jsonl_dir :: "auditor \<Rightarrow> string option" where
  "jsonl_dir s =
     (case au_jsonl s of
        Some (enabled, dir) \<Rightarrow> if enabled \<and> dir \<noteq> [] then Some dir else None
      | None \<Rightarrow>
          if cfg_log_enabled (au_config s) then
            (case cfg_log_dir (au_config s) of
               Some d \<Rightarrow> if d = [] then None else Some d
             | None \<Rightarrow> None)
          else None)"

definition jsonl_path :: "string \<Rightarrow> string" where
  "jsonl_path dir = (if ends_with dir ''/'' then dir else dir @ ''/'') @ ''audit.jsonl''"

definition append_line :: "call_env \<Rightarrow> string \<Rightarrow> audit_event \<Rightarrow> auditor \<Rightarrow> auditor" where
  "append_line env path event s =
     (if env_append_ok env path
      then s\<lparr>au_files := (au_files s)(path := au_files s path @ [event])\<rparr> else s)"

definition log_audit_event :: "call_env \<Rightarrow> audit_event \<Rightarrow> auditor \<Rightarrow> auditor" where
  "log_audit_event env event s =
     (let s1 = (case jsonl_dir s of
                  Some dir \<Rightarrow> append_line env (jsonl_path dir) event s
                | None \<Rightarrow> s)
      in (case au_log_file s1 of
            Some path \<Rightarrow> append_line env path event s1
          | None \<Rightarrow> s1))"

record audit_filter =
  af_op :: "operation_type option"
  af_user :: "string option"
  af_source :: "string option"
  af_decision :: "string option"
  af_start :: "string option"
  af_end :: "string option"

definition empty_filter :: audit_filter where
  "empty_filter = \<lparr>af_op = None, af_user = None, af_source = None, af_decision = None,
     af_start = None, af_end = None\<rparr>"

definition filter_is_empty :: "audit_filter \<Rightarrow> bool" where
  "filter_is_empty f \<longleftrightarrow> af_op f = None \<and> af_user f = None \<and> af_source f = None
     \<and> af_decision f = None \<and> af_start f = None \<and> af_end f = None"

definition filter_matches :: "audit_filter \<Rightarrow> audit_event \<Rightarrow> bool" where
  "filter_matches f event \<longleftrightarrow>
     (case af_op f of Some op \<Rightarrow> req_op (ev_request event) = op | None \<Rightarrow> True)
     \<and> (case af_user f of Some u \<Rightarrow> req_user (ev_request event) = u | None \<Rightarrow> True)
     \<and> (case af_source f of
          Some src \<Rightarrow> req_source (ev_request event) \<noteq> [] \<and> contains_str (req_source (ev_request event)) src
        | None \<Rightarrow> True)
     \<and> (case af_decision f of Some d \<Rightarrow> ev_decision event = d | None \<Rightarrow> True)
     \<and> (case af_start f of Some start \<Rightarrow> \<not> ev_timestamp event < start | None \<Rightarrow> True)
     \<and> (case af_end f of Some end_time \<Rightarrow> \<not> ev_timestamp event > end_time | None \<Rightarrow> True)"

definition get_audit_log :: "auditor \<Rightarrow> audit_filter \<Rightarrow> audit_event list" where
  "get_audit_log s f =
     (case jsonl_dir s of
        None \<Rightarrow> []
      | Some dir \<Rightarrow> filter (\<lambda>e. filter_is_empty f \<or> filter_matches f e) (au_files s (jsonl_path dir)))"

section \<open>Requests\<close>

datatype permission_message =
    PolicyDenied operation_type string reason
  | UserRejected operation_type string reason "string option"
  | ApprovalRequired reason string

type_synonym permission = "bool \<times> permission_message option \<times> string option"

definition make_event ::
  "call_env \<Rightarrow> nat \<Rightarrow> operation_request \<Rightarrow> string \<Rightarrow> audit_reason \<Rightarrow> audit_tag \<Rightarrow> audit_event" where
  "make_event env i req decision why tag =
     \<lparr>ev_id = env_uuid env i, ev_request = req, ev_decision = decision, ev_reason = why,
      ev_timestamp = env_now env, ev_policy_rule = tag\<rparr>"

text \<open>The arms return the new state and whether they allowed the operation.\<close>

definition memory_arm ::
  "call_env \<Rightarrow> externals \<Rightarrow> operation_request \<Rightarrow> auditor \<Rightarrow> auditor \<times> bool" where
  "memory_arm env E req s =
     (if req_force req \<noteq> None then (s, False)
      else (case au_rules s of
        None \<Rightarrow> (s, False)
      | Some file \<Rightarrow>
          (case find_auto_allow_rule (load_rules file) (op_display (req_op req)) (req_target req)
                  (danger_display (req_danger req)) of
             None \<Rightarrow> (s, False)
           | Some rule \<Rightarrow>
               (let flags = scan_dangerous_flags (exec_rule_segments E (req_target req)) in
                if is_exec_type (req_op req) \<and> flags \<noteq> [] then
                  (log_audit_event env (make_event env 0 req ''require_approval''
                     (AuFlagBlockedRule flags (ar_pattern rule)) (AuTag SensitiveFlagTag)) s, False)
                else
                  (log_audit_event env (make_event env 0 req ''allowed''
                     (AuAutoAllowedByRule (ar_op rule) (ar_pattern rule)) (AuAutoByRule (ar_pattern rule)))
                     (s\<lparr>au_allowed := au_allowed s + 1\<rparr>), True)))))"

definition session_arm ::
  "call_env \<Rightarrow> operation_request \<Rightarrow> approval_context option \<Rightarrow> auditor \<Rightarrow> auditor \<times> bool" where
  "session_arm env req ctx s =
     (case (au_sessions s, ctx) of
        (Some sa, Some c) \<Rightarrow>
          if ctx_session_key c \<noteq> [] \<and> allow_all_check sa (ctx_session_key c) then
            (log_audit_event env (make_event env 1 req ''allowed'' AuSessionAllowAll AuSessionTag)
               (s\<lparr>au_allowed := au_allowed s + 1,
                  au_sessions := Some (allow_all_bump sa (ctx_session_key c))\<rparr>), True)
          else (s, False)
      | _ \<Rightarrow> (s, False))"

definition persist_cluster_rule ::
  "call_env \<Rightarrow> operation_request \<Rightarrow> approval_context option \<Rightarrow> auditor \<Rightarrow> auditor" where
  "persist_cluster_rule env req ctx s =
     (case (ctx, au_rules s) of
        (Some c, Some file) \<Rightarrow>
          if ctx_channel c = ''cluster'' then
            s\<lparr>au_rules := Some (snd (persist_auto_allow_rule (env_save_error env) (env_now env) file
                 (op_display (req_op req)) (req_target req) (danger_display (req_danger req))))\<rparr>
          else s
      | _ \<Rightarrow> s)"

definition auto_arm ::
  "call_env \<Rightarrow> operation_request \<Rightarrow> approval_context option \<Rightarrow> auditor \<Rightarrow> auditor \<times> bool" where
  "auto_arm env req ctx s =
     (if approval_auto_enabled s then
        (let s1 = s\<lparr>au_allowed := au_allowed s + 1, au_auto := map_option auto_bump (au_auto s)\<rparr>;
             s2 = persist_cluster_rule env req ctx s1
         in (log_audit_event env (make_event env 2 req ''allowed'' AuAutoApprove AuAutoByConfig) s2, True))
      else (s, False))"

definition trimmed_note :: "approval_verdict \<Rightarrow> string option" where
  "trimmed_note v =
     (case av_note v of None \<Rightarrow> None | Some n \<Rightarrow> if trim n = [] then None else Some (trim n))"

definition request_card :: "auditor \<Rightarrow> operation_request \<Rightarrow> reason \<Rightarrow> approval_card" where
  "request_card s req why =
     \<lparr>card_request_id = req_id req, card_operation = op_display (req_op req), card_target = req_target req,
      card_risk = danger_display (req_danger req), card_reason_text = CardPolicy why,
      card_timeout = cfg_timeout_secs (au_config s)\<rparr>"

definition manager_verdict ::
  "auditor \<Rightarrow> approval_card \<Rightarrow> approval_context option \<Rightarrow> approval_verdict option" where
  "manager_verdict s the_card ctx =
     (case au_manager s of
        None \<Rightarrow> None
      | Some mgr \<Rightarrow>
          if mgr_running mgr then (case mgr_decide mgr the_card ctx of Inr v \<Rightarrow> Some v | Inl _ \<Rightarrow> None)
          else None)"

definition approval_arm ::
  "operation_request \<Rightarrow> approval_context option \<Rightarrow> reason \<Rightarrow> auditor \<Rightarrow> auditor \<times> permission" where
  "approval_arm req ctx why s0 =
     (let s = s0\<lparr>au_pending := au_pending s0 + 1\<rparr> in
      case manager_verdict s (request_card s req why) ctx of
        Some v \<Rightarrow>
          if av_approved v then
            (s\<lparr>au_pending := au_pending s - 1, au_approved := au_approved s + 1\<rparr>,
             (True, None, Some (req_id req)))
          else
            (s\<lparr>au_pending := au_pending s - 1, au_denied := au_denied s + 1\<rparr>,
             (False, Some (UserRejected (req_op req) (req_target req) why (trimmed_note v)), None))
      | None \<Rightarrow>
          (s\<lparr>au_active := (au_active s)(req_id req \<mapsto> req)\<rparr>,
           (False, Some (ApprovalRequired why (req_id req)), None)))"

fun decision_word :: "security_decision \<Rightarrow> string" where
  "decision_word Allowed = ''allowed''"
| "decision_word Denied = ''denied''"
| "decision_word RequireApproval = ''pending''"

definition settle ::
  "call_env \<Rightarrow> operation_request \<Rightarrow> approval_context option \<Rightarrow> verdict \<Rightarrow> auditor \<Rightarrow>
     auditor \<times> permission" where
  "settle env req ctx v s0 =
     (let (decision, why, tag) = v;
          s = log_audit_event env (make_event env 3 req (decision_word decision) (AuPolicy why) (AuTag tag)) s0
      in (case decision of
            Allowed \<Rightarrow> (s\<lparr>au_allowed := au_allowed s + 1\<rparr>, (True, None, None))
          | Denied \<Rightarrow> (s\<lparr>au_denied := au_denied s + 1\<rparr>,
              (False, Some (PolicyDenied (req_op req) (req_target req) why), None))
          | RequireApproval \<Rightarrow> approval_arm req ctx why s))"

definition request_permission_tracked ::
  "call_env \<Rightarrow> externals \<Rightarrow> operation_request \<Rightarrow> approval_context option \<Rightarrow> auditor \<Rightarrow>
     auditor \<times> permission" where
  "request_permission_tracked env E req ctx s0 =
     (if \<not> au_enabled s0 then (s0, (True, None, None))
      else (let s = s0\<lparr>au_total := au_total s0 + 1\<rparr>; v = evaluate_request E s req in
        if fst v = RequireApproval then
          (let (s1, done1) = memory_arm env E req s in
           if done1 then (s1, (True, None, None))
           else (let (s2, done2) = session_arm env req ctx s1 in
             if done2 then (s2, (True, None, None))
             else (let (s3, done3) = auto_arm env req ctx s2 in
               if done3 then (s3, (True, None, None))
               else settle env req ctx v s3)))
        else settle env req ctx v s))"

definition request_permission_with_ctx ::
  "call_env \<Rightarrow> externals \<Rightarrow> operation_request \<Rightarrow> approval_context option \<Rightarrow> auditor \<Rightarrow>
     auditor \<times> (bool \<times> permission_message option \<times> string)" where
  "request_permission_with_ctx env E req ctx s =
     (let (s', (allowed, err, _)) = request_permission_tracked env E req ctx s in
      (s', (allowed, err, req_id req)))"

definition request_permission ::
  "call_env \<Rightarrow> externals \<Rightarrow> operation_request \<Rightarrow> auditor \<Rightarrow>
     auditor \<times> (bool \<times> permission_message option \<times> string)" where
  "request_permission env E req s = request_permission_with_ctx env E req None s"

section \<open>Pending requests\<close>

definition approve_request :: "string \<Rightarrow> string \<Rightarrow> auditor \<Rightarrow> auditor \<times> (string + unit)" where
  "approve_request request_id approver s =
     (case au_active s request_id of
        Some req \<Rightarrow>
          (s\<lparr>au_active := (au_active s)(request_id := None), au_pending := au_pending s - 1,
             au_approved := au_approved s + 1\<rparr>, Inr ())
      | None \<Rightarrow> (s, Inl (''request not found: '' @ request_id)))"

definition deny_request :: "string \<Rightarrow> string \<Rightarrow> string \<Rightarrow> auditor \<Rightarrow> auditor \<times> (string + unit)" where
  "deny_request request_id approver why s =
     (case au_active s request_id of
        Some req \<Rightarrow>
          (s\<lparr>au_active := (au_active s)(request_id := None), au_pending := au_pending s - 1,
             au_denied := au_denied s + 1\<rparr>, Inr ())
      | None \<Rightarrow> (s, Inl (''request not found: '' @ request_id)))"

definition pending_count :: "auditor \<Rightarrow> nat" where
  "pending_count s = card (dom (au_active s))"

definition get_pending_requests :: "auditor \<Rightarrow> operation_request set" where
  "get_pending_requests s = ran (au_active s)"

definition close :: "auditor \<Rightarrow> auditor" where
  "close s = s\<lparr>au_active := Map.empty\<rparr>"

record auditor_statistics =
  st_total :: "64 word"
  st_allowed :: "64 word"
  st_denied :: "64 word"
  st_approved :: "64 word"
  st_pending :: "64 word"
  st_active :: nat
  st_enabled :: bool
  st_rule_types :: nat

definition get_statistics :: "auditor \<Rightarrow> auditor_statistics" where
  "get_statistics s =
     \<lparr>st_total = au_total s, st_allowed = au_allowed s, st_denied = au_denied s,
      st_approved = au_approved s, st_pending = au_pending s, st_active = card (dom (au_active s)),
      st_enabled = au_enabled s, st_rule_types = card (dom (ps_rules s))\<rparr>"

section \<open>What an operation leaves alone\<close>

lemma append_line_frame:
  "append_line env p e s = s\<lparr>au_files :=
     (if env_append_ok env p then (au_files s)(p := au_files s p @ [e]) else au_files s)\<rparr>"
  by (simp add: append_line_def)

text \<open>The files after an event, as a function of the files before.\<close>

definition extend_file ::
  "call_env \<Rightarrow> string option \<Rightarrow> audit_event \<Rightarrow> (string \<Rightarrow> audit_event list) \<Rightarrow> (string \<Rightarrow> audit_event list)" where
  "extend_file env po e F =
     (case po of None \<Rightarrow> F | Some p \<Rightarrow> if env_append_ok env p then F(p := F p @ [e]) else F)"

lemma log_frame:
  "log_audit_event env e s = s\<lparr>au_files :=
     extend_file env (au_log_file s) e
       (extend_file env (map_option jsonl_path (jsonl_dir s)) e (au_files s))\<rparr>"
  by (auto simp: log_audit_event_def append_line_frame extend_file_def split: option.splits)

lemma log_fields [simp, policy_simps]:
  "au_config (log_audit_event env e s) = au_config s"
  "au_enabled (log_audit_event env e s) = au_enabled s"
  "au_total (log_audit_event env e s) = au_total s"
  "au_allowed (log_audit_event env e s) = au_allowed s"
  "au_denied (log_audit_event env e s) = au_denied s"
  "au_approved (log_audit_event env e s) = au_approved s"
  "au_pending (log_audit_event env e s) = au_pending s"
  "au_active (log_audit_event env e s) = au_active s"
  "au_manager (log_audit_event env e s) = au_manager s"
  "au_rules (log_audit_event env e s) = au_rules s"
  "au_log_file (log_audit_event env e s) = au_log_file s"
  "au_auto (log_audit_event env e s) = au_auto s"
  "au_sessions (log_audit_event env e s) = au_sessions s"
  "au_jsonl (log_audit_event env e s) = au_jsonl s"
  by (simp_all add: log_frame)

lemma log_policy [simp, policy_simps]:
  "ps_rules (log_audit_event env e s) = ps_rules s"
  "ps_default_action (log_audit_event env e s) = ps_default_action s"
  "ps_exec_unknown_policy (log_audit_event env e s) = ps_exec_unknown_policy s"
  "ps_protected_paths (log_audit_event env e s) = ps_protected_paths s"
  "ps_self_destruct_exempt (log_audit_event env e s) = ps_self_destruct_exempt s"
  "ps_editor_access (log_audit_event env e s) = ps_editor_access s"
  by (simp_all add: log_frame)

lemmas arm_defs = memory_arm_def session_arm_def auto_arm_def persist_cluster_rule_def
lemmas request_defs = request_permission_tracked_def settle_def approval_arm_def

section \<open>The counters\<close>

definition balanced :: "auditor \<Rightarrow> bool" where
  "balanced s \<longleftrightarrow> au_total s = au_allowed s + au_denied s + au_approved s + au_pending s"

text \<open>What an arm does to the counters: nothing, or one more allowed.\<close>

definition arm_counts :: "auditor \<Rightarrow> auditor \<times> bool \<Rightarrow> bool" where
  "arm_counts s r \<longleftrightarrow>
     au_total (fst r) = au_total s \<and> au_denied (fst r) = au_denied s \<and> au_approved (fst r) = au_approved s
     \<and> au_pending (fst r) = au_pending s \<and> au_active (fst r) = au_active s
     \<and> au_manager (fst r) = au_manager s \<and> au_config (fst r) = au_config s
     \<and> au_allowed (fst r) = (if snd r then au_allowed s + 1 else au_allowed s)"

lemma memory_arm_counts: "arm_counts s (memory_arm env E req s)"
  by (auto simp: arm_counts_def memory_arm_def Let_def split: option.splits)

lemma session_arm_counts: "arm_counts s (session_arm env req ctx s)"
  by (auto simp: arm_counts_def session_arm_def split: option.splits)

lemma persist_cluster_fields [simp]:
  "au_total (persist_cluster_rule env req ctx s) = au_total s"
  "au_allowed (persist_cluster_rule env req ctx s) = au_allowed s"
  "au_denied (persist_cluster_rule env req ctx s) = au_denied s"
  "au_approved (persist_cluster_rule env req ctx s) = au_approved s"
  "au_pending (persist_cluster_rule env req ctx s) = au_pending s"
  "au_active (persist_cluster_rule env req ctx s) = au_active s"
  "au_manager (persist_cluster_rule env req ctx s) = au_manager s"
  "au_config (persist_cluster_rule env req ctx s) = au_config s"
  "au_jsonl (persist_cluster_rule env req ctx s) = au_jsonl s"
  "au_log_file (persist_cluster_rule env req ctx s) = au_log_file s"
  "au_files (persist_cluster_rule env req ctx s) = au_files s"
  "au_enabled (persist_cluster_rule env req ctx s) = au_enabled s"
  by (auto simp: persist_cluster_rule_def split: option.splits)

lemma auto_arm_counts: "arm_counts s (auto_arm env req ctx s)"
  by (auto simp: arm_counts_def auto_arm_def Let_def)

lemma arm_counts_trans:
  "arm_counts s (s1, False) \<Longrightarrow> arm_counts s1 r \<Longrightarrow> arm_counts s r"
  by (auto simp: arm_counts_def)

text \<open>
  The three automatic arms in sequence. Either one of them allowed the operation, or none did and the
  request goes on to be settled.
\<close>

definition automatic_arms ::
  "call_env \<Rightarrow> externals \<Rightarrow> operation_request \<Rightarrow> approval_context option \<Rightarrow> auditor \<Rightarrow> auditor \<times> bool" where
  "automatic_arms env E req ctx s =
     (let (s1, done1) = memory_arm env E req s in
      if done1 then (s1, True)
      else (let (s2, done2) = session_arm env req ctx s1 in
        if done2 then (s2, True) else auto_arm env req ctx s2))"

lemma automatic_arms_counts: "arm_counts s (automatic_arms env E req ctx s)"
proof -
  obtain s1 d1 where 1: "memory_arm env E req s = (s1, d1)" by fastforce
  obtain s2 d2 where 2: "session_arm env req ctx s1 = (s2, d2)" by fastforce
  have c1: "arm_counts s (s1, d1)" using memory_arm_counts [of s env E req] by (simp add: 1)
  have c2: "arm_counts s1 (s2, d2)" using session_arm_counts [of s1 env req ctx] by (simp add: 2)
  show ?thesis
    using c1 c2 arm_counts_trans auto_arm_counts [of s2 env req ctx]
    by (cases d1; cases d2) (auto simp: automatic_arms_def 1 2)
qed

lemma request_by_arms:
  "request_permission_tracked env E req ctx s0 =
     (if \<not> au_enabled s0 then (s0, (True, None, None))
      else (let s = s0\<lparr>au_total := au_total s0 + 1\<rparr>; v = evaluate_request E s req;
                (s3, auto) = (if fst v = RequireApproval then automatic_arms env E req ctx s else (s, False))
            in if auto then (s3, (True, None, None)) else settle env req ctx v s3))"
  by (auto simp: request_permission_tracked_def automatic_arms_def Let_def split: prod.splits)

end
