(* ===== verification/Reviews.thy ===== *)
theory Reviews
  imports Auditor
begin

text \<open>
  The direct reviews of \<open>auditor.rs\<close>: guardian failure, rate limit, credential use and guardian verdict.
  Each asks the approval manager outside the permission request and is fail-closed. The four functions
  share one shape, the function \<open>run_review\<close> over a \<open>review_spec\<close>; what differs (operation word, risk,
  identifiers, audit source and tag, and whether a missing manager is logged) is the specification of
  each.
\<close>

section \<open>The shape of a review\<close>

record review_spec =
  rs_kind :: review_kind
  rs_id_prefix :: string
  rs_operation :: string
  rs_risk :: string
  rs_danger :: danger_level
  rs_source :: string
  rs_tag :: audit_tag
  rs_log_unavailable :: bool

datatype review_error = NoManagerError review_kind | NotRunningError review_kind | ManagerError string

definition review_event ::
  "call_env \<Rightarrow> nat \<Rightarrow> review_spec \<Rightarrow> string \<Rightarrow> string \<Rightarrow> string \<Rightarrow> review_reason \<Rightarrow>
     review_outcome \<Rightarrow> audit_event" where
  "review_event env i spec request_id tool decision why outcome =
     \<lparr>ev_id = env_uuid env i,
      ev_request = default_request\<lparr>req_id := request_id, req_op := ProcessExec,
        req_danger := rs_danger spec, req_source := rs_source spec, req_target := tool\<rparr>,
      ev_decision = decision, ev_reason = AuReview (rs_kind spec) why outcome,
      ev_timestamp = env_now env, ev_policy_rule = rs_tag spec\<rparr>"

definition review_id :: "call_env \<Rightarrow> review_spec \<Rightarrow> string" where
  "review_id env spec = rs_id_prefix spec @ env_uuid env 0"

definition unavailable ::
  "call_env \<Rightarrow> review_spec \<Rightarrow> string \<Rightarrow> review_reason \<Rightarrow> review_outcome \<Rightarrow> auditor \<Rightarrow> auditor" where
  "unavailable env spec tool why outcome s =
     (if rs_log_unavailable spec
      then log_audit_event env (review_event env 1 spec (review_id env spec) tool ''denied'' why outcome) s
      else s)"

definition review_card :: "auditor \<Rightarrow> call_env \<Rightarrow> review_spec \<Rightarrow> string \<Rightarrow> review_reason \<Rightarrow> approval_card" where
  "review_card s env spec tool why =
     \<lparr>card_request_id = review_id env spec, card_operation = rs_operation spec, card_target = tool,
      card_risk = rs_risk spec, card_reason_text = CardReview why,
      card_timeout = cfg_timeout_secs (au_config s)\<rparr>"

definition answer_outcome :: "approval_verdict \<Rightarrow> review_outcome" where
  "answer_outcome v =
     (if av_approved v then ReviewApproved
      else (case trimmed_note v of Some n \<Rightarrow> ReviewRejected n | None \<Rightarrow> ReviewRejectedOrTimeout))"

definition run_review ::
  "call_env \<Rightarrow> review_spec \<Rightarrow> string \<Rightarrow> review_reason \<Rightarrow> approval_context option \<Rightarrow> auditor \<Rightarrow>
     auditor \<times> (review_error + approval_verdict)" where
  "run_review env spec tool why ctx s =
     (case au_manager s of
        None \<Rightarrow> (unavailable env spec tool why ReviewNoManager s, Inl (NoManagerError (rs_kind spec)))
      | Some mgr \<Rightarrow>
          if \<not> mgr_running mgr
          then (unavailable env spec tool why ReviewNotRunning s, Inl (NotRunningError (rs_kind spec)))
          else (let log = (\<lambda>decision outcome. log_audit_event env
                      (review_event env 1 spec (review_id env spec) tool decision why outcome) s) in
            (case mgr_decide mgr (review_card s env spec tool why) ctx of
               Inr v \<Rightarrow> (log (if av_approved v then ''approved'' else ''denied'') (answer_outcome v), Inr v)
             | Inl e \<Rightarrow> (log ''denied'' (ReviewUnavailable e), Inl (ManagerError e)))))"

section \<open>The four reviews\<close>

definition guardian_failure_spec :: review_spec where
  "guardian_failure_spec = \<lparr>rs_kind = GuardianFailure, rs_id_prefix = ''guardian-'',
     rs_operation = ''guardian_review'', rs_risk = ''CRITICAL'', rs_danger = Critical,
     rs_source = ''guardian_failure_approval'', rs_tag = AuGuardianFailurePolicy,
     rs_log_unavailable = False\<rparr>"

definition request_guardian_failure_approval ::
  "call_env \<Rightarrow> string \<Rightarrow> string \<Rightarrow> approval_context option \<Rightarrow> auditor \<Rightarrow>
     auditor \<times> (review_error + approval_verdict)" where
  "request_guardian_failure_approval env tool why ctx s =
     run_review env guardian_failure_spec tool (ReviewText why) ctx s"

definition limit_spec :: review_spec where
  "limit_spec = \<lparr>rs_kind = LimitReview, rs_id_prefix = ''limit-'', rs_operation = ''limit_review'',
     rs_risk = ''HIGH'', rs_danger = High, rs_source = ''limit_review'', rs_tag = AuSecurityLimits,
     rs_log_unavailable = True\<rparr>"

definition request_limit_approval ::
  "call_env \<Rightarrow> string \<Rightarrow> string \<Rightarrow> approval_context option \<Rightarrow> auditor \<Rightarrow>
     auditor \<times> (review_error + approval_verdict)" where
  "request_limit_approval env tool why ctx s = run_review env limit_spec tool (ReviewText why) ctx s"

definition credential_spec :: review_spec where
  "credential_spec = \<lparr>rs_kind = CredentialUse, rs_id_prefix = ''creduse-'',
     rs_operation = ''credential_use'', rs_risk = ''HIGH'', rs_danger = High,
     rs_source = ''credential_gate'', rs_tag = AuCredentialGate, rs_log_unavailable = True\<rparr>"

definition request_credential_use_approval ::
  "call_env \<Rightarrow> string \<Rightarrow> string \<Rightarrow> approval_context option \<Rightarrow> auditor \<Rightarrow>
     auditor \<times> (review_error + approval_verdict)" where
  "request_credential_use_approval env tool why ctx s =
     run_review env credential_spec tool (ReviewText why) ctx s"

record judge_verdict =
  jv_intent :: string
  jv_matches_rules :: bool
  jv_risk_level :: string
  jv_recommendation :: string
  jv_rationale :: string

definition is_allow :: "judge_verdict \<Rightarrow> bool" where
  "is_allow v \<longleftrightarrow> to_lowercase (trim (jv_recommendation v)) = ''allow''"

definition verdict_spec :: "string \<Rightarrow> string \<Rightarrow> review_spec" where
  "verdict_spec risk mode =
     \<lparr>rs_kind = GuardianVerdictReview, rs_id_prefix = ''guardian-'', rs_operation = ''guardian_review'',
      rs_risk = (let d = to_uppercase (trim risk) in if d = [] then ''UNKNOWN'' else d),
      rs_danger = Critical, rs_source = ''guardian_verdict_approval'', rs_tag = AuGuardianMode mode,
      rs_log_unavailable = False\<rparr>"

definition request_guardian_verdict_approval ::
  "call_env \<Rightarrow> string \<Rightarrow> string \<Rightarrow> string \<Rightarrow> judge_verdict \<Rightarrow> approval_context option \<Rightarrow> auditor \<Rightarrow>
     auditor \<times> (review_error + approval_verdict)" where
  "request_guardian_verdict_approval env tool risk mode v ctx s =
     run_review env (verdict_spec risk mode) tool
       (GuardianText (jv_recommendation v) (jv_matches_rules v) (jv_rationale v)) ctx s"

definition log_guardian_verdict ::
  "call_env \<Rightarrow> string \<Rightarrow> string \<Rightarrow> judge_verdict \<Rightarrow> auditor \<Rightarrow> auditor" where
  "log_guardian_verdict env tool mode v s =
     log_audit_event env
       \<lparr>ev_id = env_uuid env 0,
        ev_request = default_request\<lparr>req_id := env_uuid env 1, req_op := ProcessExec,
          req_danger := Critical, req_source := ''guardian_review'', req_target := tool\<rparr>,
        ev_decision = (if is_allow v then ''allow'' else ''escalate''),
        ev_reason = AuGuardianVerdict (jv_recommendation v) (jv_matches_rules v) (jv_risk_level v)
          (jv_intent v) (jv_rationale v),
        ev_timestamp = env_now env, ev_policy_rule = AuGuardianMode mode\<rparr> s"

section \<open>Facts\<close>

text \<open>A review writes audit files and nothing else.\<close>

definition only_files :: "auditor \<Rightarrow> auditor \<Rightarrow> bool" where
  "only_files s s' \<longleftrightarrow> s' = s\<lparr>au_files := au_files s'\<rparr>"

lemma only_files_refl: "only_files s s"
  by (simp add: only_files_def)

lemma only_files_log: "only_files s (log_audit_event env e s)"
  by (simp add: only_files_def log_frame)

lemma only_files_unavailable: "only_files s (unavailable env spec tool why out s)"
  by (simp add: unavailable_def only_files_refl only_files_log)

lemma run_review_frame: "only_files s (fst (run_review env spec tool why ctx s))"
  by (auto simp: run_review_def Let_def only_files_log only_files_unavailable
      split: option.splits sum.splits)

lemma run_review_approved:
  assumes "snd (run_review env spec tool why ctx s) = Inr v"
  shows "\<exists>mgr. au_manager s = Some mgr \<and> mgr_running mgr
    \<and> mgr_decide mgr (review_card s env spec tool why) ctx = Inr v"
  using assms by (auto simp: run_review_def Let_def split: option.splits sum.splits if_splits)

end
