(* ===== verification/Auditor_Safety.thy ===== *)
theory Auditor_Safety
  imports Reviews
begin

text \<open>
  What the auditor guarantees over sequences of operations and for one request: conservation of the
  counters, the only ways an operation can be let through, fail-closed reviews, the trace every decision
  leaves in the audit log, and the relation between the pending counter and the pending table.
\<close>

section \<open>The auditor as a machine\<close>

datatype auditor_op =
    Request call_env externals operation_request "approval_context option"
  | Approve string string
  | Deny string string string
  | CloseAuditor
  | SetProtectedPaths "string list"
  | SetExemptPath string
  | SetRules operation_type "security_rule list"
  | SetDefaultAction string
  | SetExecUnknown string
  | SetEditor editor_access
  | SetManager approval_manager
  | SetRulesFile rules_file
  | SetAuto auto_approve
  | SetSessions session_allow_all
  | SetLogFile string
  | SetJsonl bool string
  | Enable
  | Disable
  | GuardianFailed call_env string string "approval_context option"
  | LimitExceeded call_env string string "approval_context option"
  | CredentialUsed call_env string string "approval_context option"
  | GuardianFlagged call_env string string string judge_verdict "approval_context option"
  | GuardianLogged call_env string string judge_verdict

fun auditor_step :: "auditor \<Rightarrow> auditor_op \<Rightarrow> auditor" where
  "auditor_step s (Request env E req ctx) = fst (request_permission_tracked env E req ctx s)"
| "auditor_step s (Approve request_id approver) = fst (approve_request request_id approver s)"
| "auditor_step s (Deny request_id approver why) = fst (deny_request request_id approver why s)"
| "auditor_step s CloseAuditor = close s"
| "auditor_step s (SetProtectedPaths paths) = set_protected_paths paths s"
| "auditor_step s (SetExemptPath path) = set_self_destruct_exempt_path path s"
| "auditor_step s (SetRules op rules) = set_rules op rules s"
| "auditor_step s (SetDefaultAction a) = set_default_action a s"
| "auditor_step s (SetExecUnknown p) = set_exec_unknown_policy p s"
| "auditor_step s (SetEditor e) = set_editor_access e s"
| "auditor_step s (SetManager m) = set_approval_manager m s"
| "auditor_step s (SetRulesFile f) = set_approval_rules f s"
| "auditor_step s (SetAuto a) = set_approval_auto_approve a s"
| "auditor_step s (SetSessions m) = set_session_allow_all m s"
| "auditor_step s (SetLogFile p) = set_log_file p s"
| "auditor_step s (SetJsonl b d) = set_audit_jsonl_log b d s"
| "auditor_step s Enable = enable s"
| "auditor_step s Disable = disable s"
| "auditor_step s (GuardianFailed env tool why ctx) = fst (request_guardian_failure_approval env tool why ctx s)"
| "auditor_step s (LimitExceeded env tool why ctx) = fst (request_limit_approval env tool why ctx s)"
| "auditor_step s (CredentialUsed env tool why ctx) = fst (request_credential_use_approval env tool why ctx s)"
| "auditor_step s (GuardianFlagged env tool risk mode v ctx) =
     fst (request_guardian_verdict_approval env tool risk mode v ctx s)"
| "auditor_step s (GuardianLogged env tool mode v) = log_guardian_verdict env tool mode v s"

lemmas setting_defs = set_protected_paths_def set_self_destruct_exempt_path_def set_rules_def
  set_default_action_def set_exec_unknown_policy_def set_editor_access_def set_approval_manager_def
  set_approval_rules_def set_approval_auto_approve_def set_session_allow_all_def set_log_file_def
  set_audit_jsonl_log_def enable_def disable_def close_def

lemmas review_defs = request_guardian_failure_approval_def request_limit_approval_def
  request_credential_use_approval_def request_guardian_verdict_approval_def

text \<open>Everything but a request and its settlement keeps the counters and, but for close, the table.\<close>

definition same_counts :: "auditor \<Rightarrow> auditor \<Rightarrow> bool" where
  "same_counts s s' \<longleftrightarrow> au_total s' = au_total s \<and> au_allowed s' = au_allowed s \<and> au_denied s' = au_denied s
     \<and> au_approved s' = au_approved s \<and> au_pending s' = au_pending s \<and> au_active s' = au_active s"

lemma only_files_counts: "only_files s s' \<Longrightarrow> same_counts s s'"
  unfolding only_files_def same_counts_def
  by (metis (no_types, lifting) auditor.simps auditor.select_convs auditor.surjective auditor.update_convs)


lemma reviews_only_files:
  "only_files s (auditor_step s (GuardianFailed env tool why ctx))"
  "only_files s (auditor_step s (LimitExceeded env tool why ctx))"
  "only_files s (auditor_step s (CredentialUsed env tool why ctx))"
  "only_files s (auditor_step s (GuardianFlagged env tool risk mode v ctx))"
  "only_files s (auditor_step s (GuardianLogged env tool mode v))"
  by (simp_all add: review_defs run_review_frame log_guardian_verdict_def only_files_log)

lemma evaluate_policy_fields:
  "evaluate_request E (s\<lparr>au_total := n\<rparr>) req = evaluate_request E s req" for s :: auditor
proof -
  have rules: "op_rules (s\<lparr>au_total := n\<rparr>) req = op_rules s req" by (simp add: op_rules_def)
  have stages: "ps_default_action (s\<lparr>au_total := n\<rparr>) = ps_default_action s"
    "self_destruct_stage E (s\<lparr>au_total := n\<rparr>) req = self_destruct_stage E s req"
    "editor_stage (s\<lparr>au_total := n\<rparr>) req = editor_stage s req"
    "deny_ask_stage E (s\<lparr>au_total := n\<rparr>) req = deny_ask_stage E s req"
    "interpreter_stage E (s\<lparr>au_total := n\<rparr>) req = interpreter_stage E s req"
    "allow_stage E (s\<lparr>au_total := n\<rparr>) req = allow_stage E s req"
    "exec_unknown_stage (s\<lparr>au_total := n\<rparr>) req = exec_unknown_stage s req"
    by (simp_all add: self_destruct_stage_def editor_stage_def deny_ask_stage_def
        interpreter_stage_def allow_stage_def exec_unknown_stage_def rules)
  show ?thesis unfolding evaluate_request_def evaluate_request_inner_def stages ..
qed

section \<open>Counters\<close>

lemma approval_arm_balanced:
  assumes "au_total s = au_allowed s + au_denied s + au_approved s + au_pending s + 1"
  shows "balanced (fst (approval_arm req ctx why s))"
  using assms by (auto simp: approval_arm_def balanced_def Let_def algebra_simps split: option.splits)

lemma settle_balanced:
  assumes "au_total s = au_allowed s + au_denied s + au_approved s + au_pending s + 1"
  shows "balanced (fst (settle env req ctx v s))"
proof -
  obtain d why tag where v: "v = (d, why, tag)" by (cases v) auto
  let ?s = "log_audit_event env (make_event env 3 req (decision_word d) (AuPolicy why) (AuTag tag)) s"
  have "au_total ?s = au_allowed ?s + au_denied ?s + au_approved ?s + au_pending ?s + 1"
    using assms by simp
  from approval_arm_balanced [OF this] assms show ?thesis
    by (cases d) (simp_all add: settle_def v Let_def balanced_def algebra_simps)
qed

lemma request_balanced:
  assumes "balanced s"
  shows "balanced (fst (request_permission_tracked env E req ctx s))"
proof (cases "au_enabled s")
  case False
  then show ?thesis using assms by (simp add: request_by_arms)
next
  case True
  let ?s = "s\<lparr>au_total := au_total s + 1\<rparr>"
  let ?v = "evaluate_request E ?s req"
  let ?r = "if fst ?v = RequireApproval then automatic_arms env E req ctx ?s else (?s, False)"
  have c: "arm_counts ?s ?r"
    using automatic_arms_counts [of ?s env E req ctx] by (auto simp: arm_counts_def)
  obtain s3 auto where r: "?r = (s3, auto)" by fastforce
  have b: "au_total s = au_allowed s + au_denied s + au_approved s + au_pending s"
    using assms by (simp add: balanced_def)
  have eq: "request_permission_tracked env E req ctx s =
      (if auto then (s3, (True, None, None)) else settle env req ctx ?v s3)"
    using True by (simp only: request_by_arms Let_def r split) simp
  show ?thesis
  proof (cases auto)
    case a: True
    have "balanced s3" using c b a unfolding r arm_counts_def by (simp add: balanced_def algebra_simps)
    then show ?thesis by (simp add: eq a)
  next
    case a: False
    have "au_total s3 = au_allowed s3 + au_denied s3 + au_approved s3 + au_pending s3 + 1"
      using c b a unfolding r arm_counts_def by (simp add: algebra_simps)
    then show ?thesis using settle_balanced by (simp add: eq a)
  qed
qed

lemma step_balanced: "balanced s \<Longrightarrow> balanced (auditor_step s ev)"
proof (cases ev)
  case (Request env E req ctx)
  then show "balanced s \<Longrightarrow> ?thesis" by (simp add: request_balanced)
next
  case (Approve i a)
  then show "balanced s \<Longrightarrow> ?thesis"
    by (auto simp: approve_request_def balanced_def algebra_simps split: option.splits)
next
  case (Deny i a w)
  then show "balanced s \<Longrightarrow> ?thesis"
    by (auto simp: deny_request_def balanced_def algebra_simps split: option.splits)
qed (use only_files_counts [OF reviews_only_files(1)] only_files_counts [OF reviews_only_files(2)]
      only_files_counts [OF reviews_only_files(3)] only_files_counts [OF reviews_only_files(4)]
      only_files_counts [OF reviews_only_files(5)]
    in \<open>auto simp: balanced_def same_counts_def setting_defs simp del: auditor_step.simps(19-23)\<close>)

interpretation counters: step_invariant auditor_step balanced
  by unfold_locales (rule step_balanced)

text \<open>
  Every event is in one place. From a fresh auditor, after any sequence of its operations
  (requests with any environment and any manager, late approvals and denials, close, settings, reviews),
  the number of events counted is the sum of those allowed, denied, approved and pending, in 64-bit
  arithmetic.
\<close>

theorem counters_balanced:
  "let s = run_events auditor_step (auditor_new config) evs in
     au_total s = au_allowed s + au_denied s + au_approved s + au_pending s"
  using counters.run_keeps [of "auditor_new config" evs]
  by (simp add: balanced_def auditor_new_def)

section \<open>Who may let an operation through\<close>

definition remembered :: "externals \<Rightarrow> auditor \<Rightarrow> operation_request \<Rightarrow> bool" where
  "remembered E s req \<longleftrightarrow> req_force req = None
     \<and> (\<exists>file rule. au_rules s = Some file
        \<and> find_auto_allow_rule (load_rules file) (op_display (req_op req)) (req_target req)
            (danger_display (req_danger req)) = Some rule)
     \<and> \<not> (is_exec_type (req_op req) \<and> scan_dangerous_flags (exec_rule_segments E (req_target req)) \<noteq> [])"

definition session_allows :: "auditor \<Rightarrow> approval_context option \<Rightarrow> bool" where
  "session_allows s ctx \<longleftrightarrow> (\<exists>sa c. au_sessions s = Some sa \<and> ctx = Some c
     \<and> ctx_session_key c \<noteq> [] \<and> allow_all_check sa (ctx_session_key c))"

definition human_approved ::
  "auditor \<Rightarrow> operation_request \<Rightarrow> reason \<Rightarrow> approval_context option \<Rightarrow> bool" where
  "human_approved s req why ctx \<longleftrightarrow> (\<exists>mgr v. au_manager s = Some mgr \<and> mgr_running mgr
     \<and> mgr_decide mgr (request_card s req why) ctx = Inr v \<and> av_approved v)"

lemma memory_arm_done: "snd (memory_arm env E req s) \<longleftrightarrow> remembered E s req"
  by (auto simp: memory_arm_def remembered_def Let_def split: option.splits)

lemma memory_arm_frame:
  "au_sessions (fst (memory_arm env E req s)) = au_sessions s"
  "au_auto (fst (memory_arm env E req s)) = au_auto s"
  by (auto simp: memory_arm_def Let_def split: option.splits)

lemma session_arm_done: "snd (session_arm env req ctx s) \<longleftrightarrow> session_allows s ctx"
  by (auto simp: session_arm_def session_allows_def split: option.splits)

lemma session_arm_frame: "au_auto (fst (session_arm env req ctx s)) = au_auto s"
  by (auto simp: session_arm_def split: option.splits)

lemma auto_arm_done: "snd (auto_arm env req ctx s) \<longleftrightarrow> approval_auto_enabled s"
  by (simp add: auto_arm_def Let_def)

lemma automatic_arms_done:
  "snd (automatic_arms env E req ctx s) \<longleftrightarrow>
     remembered E s req \<or> session_allows s ctx \<or> approval_auto_enabled s"
proof -
  obtain s1 d1 where 1: "memory_arm env E req s = (s1, d1)" by fastforce
  obtain s2 d2 where 2: "session_arm env req ctx s1 = (s2, d2)" by fastforce
  have "d1 \<longleftrightarrow> remembered E s req" using memory_arm_done [of env E req s] by (simp add: 1)
  moreover have "d2 \<longleftrightarrow> session_allows s ctx"
    using session_arm_done [of env req ctx s1] memory_arm_frame(1) [of env E req s]
    by (simp add: 1 2 session_allows_def)
  moreover have "approval_auto_enabled s2 \<longleftrightarrow> approval_auto_enabled s"
    using session_arm_frame [of env req ctx s1] memory_arm_frame(2) [of env E req s]
    by (simp add: 1 2 approval_auto_enabled_def)
  ultimately show ?thesis by (simp add: automatic_arms_def 1 2 auto_arm_done)
qed


text \<open>One request, in terms of the arms: the form the properties use.\<close>

lemma request_cases:
  assumes "au_enabled s"
  obtains (auto) s3 where "fst (evaluate_request E s req) = RequireApproval"
      "remembered E s req \<or> session_allows s ctx \<or> approval_auto_enabled s"
      "request_permission_tracked env E req ctx s = (s3, (True, None, None))"
      "s3 = fst (automatic_arms env E req ctx (s\<lparr>au_total := au_total s + 1\<rparr>))"
  | (settled) s3 where
      "fst (evaluate_request E s req) = RequireApproval \<longrightarrow> \<not> (remembered E s req \<or> session_allows s ctx \<or> approval_auto_enabled s)"
      "request_permission_tracked env E req ctx s = settle env req ctx (evaluate_request E s req) s3"
      "s3 = (if fst (evaluate_request E s req) = RequireApproval
             then fst (automatic_arms env E req ctx (s\<lparr>au_total := au_total s + 1\<rparr>))
             else s\<lparr>au_total := au_total s + 1\<rparr>)"
proof -
  let ?v = "evaluate_request E s req"
  let ?s = "s\<lparr>au_total := au_total s + 1\<rparr>"
  have v: "evaluate_request E ?s req = ?v" by (rule evaluate_policy_fields)
  obtain s3 fin where a: "automatic_arms env E req ctx ?s = (s3, fin)" by fastforce
  have fin: "fin \<longleftrightarrow> remembered E s req \<or> session_allows s ctx \<or> approval_auto_enabled s"
    using automatic_arms_done [of env E req ctx ?s]
    by (simp add: a remembered_def session_allows_def approval_auto_enabled_def)
  have eq: "request_permission_tracked env E req ctx s =
      (if fst ?v = RequireApproval \<and> fin then (s3, (True, None, None))
       else settle env req ctx ?v (if fst ?v = RequireApproval then s3 else ?s))"
    using assms unfolding request_by_arms by (simp only: v a Let_def split if_True if_False not_True_eq_False)
      (cases "fst ?v = RequireApproval"; simp)
  have s3: "s3 = fst (automatic_arms env E req ctx ?s)" by (simp add: a)
  show ?thesis
  proof (cases "fst ?v = RequireApproval \<and> fin")
    case True
    then have "request_permission_tracked env E req ctx s = (s3, (True, None, None))" by (simp only: eq) simp
    moreover have "remembered E s req \<or> session_allows s ctx \<or> approval_auto_enabled s"
      using True fin by blast
    ultimately show ?thesis using auto [of s3] True s3 by blast
  next
    case False
    let ?t = "if fst ?v = RequireApproval then s3 else ?s"
    have "request_permission_tracked env E req ctx s = settle env req ctx ?v ?t"
      using False by (simp only: eq if_False)
    moreover have "fst ?v = RequireApproval \<longrightarrow>
        \<not> (remembered E s req \<or> session_allows s ctx \<or> approval_auto_enabled s)"
      using False fin by blast
    moreover have "?t = (if fst ?v = RequireApproval then fst (automatic_arms env E req ctx ?s) else ?s)"
      by (simp only: s3)
    ultimately show ?thesis using settled [of ?t] by blast
  qed
qed

lemma settle_allowed:
  "fst (snd (settle env req ctx (d, why, tag) s)) \<longleftrightarrow>
     d = Allowed \<or> d = RequireApproval \<and> human_approved s req why ctx"
  by (cases d)
    (auto simp: settle_def approval_arm_def human_approved_def manager_verdict_def request_card_def Let_def
      split: option.splits sum.splits)

lemma settle_reference:
  "snd (snd (snd (settle env req ctx (d, why, tag) s))) =
     (if d = RequireApproval \<and> human_approved s req why ctx then Some (req_id req) else None)"
  by (cases d)
    (auto simp: settle_def approval_arm_def human_approved_def manager_verdict_def request_card_def Let_def
      split: option.splits sum.splits)

lemma human_approved_cong:
  "au_manager s' = au_manager s \<Longrightarrow> au_config s' = au_config s \<Longrightarrow>
     human_approved s' req why ctx = human_approved s req why ctx"
  by (simp add: human_approved_def request_card_def)

lemma settled_frame:
  fixes s :: auditor
  assumes "s3 = (if b then fst (automatic_arms env E req ctx (s\<lparr>au_total := au_total s + 1\<rparr>))
             else s\<lparr>au_total := au_total s + 1\<rparr>)"
  shows "au_manager s3 = au_manager s" "au_config s3 = au_config s" "au_active s3 = au_active s"
    "au_pending s3 = au_pending s"
  using assms automatic_arms_counts [of "s\<lparr>au_total := au_total s + 1\<rparr>" env E req ctx]
  by (auto simp: arm_counts_def)

text \<open>
  C4. The only ways through. When an enabled auditor lets an operation pass, its policy says Allowed,
  or it says RequireApproval and a remembered rule of the table takes it (no forced review and no
  sensitive flag), or the session is in allow-all, or auto-approve is on, or the running manager
  answered the card of this request with an approval. The approval reference is given in that last case
  only, and it is the identifier of the request: nothing else poses as a human.
\<close>

theorem only_ways_through:
  assumes "au_enabled s"
    and "request_permission_tracked env E req ctx s = (s', (True, msg, ref))"
    and "evaluate_request E s req = (d, why, tag)"
  shows "(d = Allowed \<and> ref = None)
    \<or> (d = RequireApproval \<and> ref = None
        \<and> (remembered E s req \<or> session_allows s ctx \<or> approval_auto_enabled s))
    \<or> (d = RequireApproval \<and> ref = Some (req_id req) \<and> human_approved s req why ctx)"
  using assms(1)
proof (cases rule: request_cases [of s E req ctx env])
  case (auto s3)
  then show ?thesis using assms(2,3) by simp
next
  case (settled s3)
  have h: "human_approved s3 req why ctx = human_approved s req why ctx"
    using settled_frame [OF settled(3)] by (intro human_approved_cong)
  have r: "settle env req ctx (d, why, tag) s3 = (s', (True, msg, ref))"
    using settled(2) assms(2,3) by simp
  have "d = Allowed \<or> d = RequireApproval \<and> human_approved s req why ctx"
    using settle_allowed [of env req ctx d why tag s3] by (simp add: r h)
  moreover have "ref = (if d = RequireApproval \<and> human_approved s req why ctx then Some (req_id req) else None)"
    using settle_reference [of env req ctx d why tag s3] by (simp add: r h)
  ultimately show ?thesis by auto
qed

definition sample_env :: call_env where
  "sample_env = \<lparr>env_now = ''t0'', env_uuid = (\<lambda>_. ''u''), env_append_ok = (\<lambda>_. True), env_save_error = None\<rparr>"

definition sample_manager :: "bool \<Rightarrow> approval_manager" where
  "sample_manager ok = \<lparr>mgr_running = True, mgr_decide = (\<lambda>_ _. Inr \<lparr>av_approved = ok, av_note = None\<rparr>)\<rparr>"

definition asking_auditor :: auditor where
  "asking_auditor = set_approval_manager (sample_manager True)
     (set_default_action ''ask'' (set_audit_jsonl_log True ''logs'' (auditor_new default_config)))"

lemma asking_auditor_evaluates:
  "evaluate_request E asking_auditor (sample_request Internal ''x'') =
     (RequireApproval, NoRuleMatched, DefaultTag)"
  by (simp add: asking_auditor_def setting_defs auditor_new_def evaluate_request_def
      evaluate_request_inner_def self_destruct_stage_def editor_stage_def deny_ask_stage_def
      bucket_pass_def interpreter_stage_def allow_stage_def exec_unknown_stage_def op_rules_def
      sample_request_def is_exec_type_def normalize_decision_def default_config_def forced_reason_def
      default_request_def)

lemma asking_auditor_fields:
  "au_enabled asking_auditor" "au_rules asking_auditor = None" "au_sessions asking_auditor = None"
  "au_auto asking_auditor = None" "au_manager asking_auditor = Some (sample_manager True)"
  "au_log_file asking_auditor = None" "jsonl_dir asking_auditor = Some ''logs''"
  "au_pending asking_auditor = 0" "au_active asking_auditor = Map.empty"
  by (simp_all add: asking_auditor_def setting_defs auditor_new_def default_config_def jsonl_dir_def)

lemma asking_auditor_request:
  "\<exists>s'. request_permission_tracked sample_env E (sample_request Internal ''x'') None asking_auditor =
     (s', (True, None, Some ''r1''))"
  using asking_auditor_fields(1)
proof (cases rule: request_cases [of asking_auditor E "sample_request Internal ''x''" None sample_env])
  case (auto s3)
  then show ?thesis
    by (simp add: remembered_def session_allows_def approval_auto_enabled_def asking_auditor_fields)
next
  case (settled s3)
  have "au_manager s3 = Some (sample_manager True)"
    using settled_frame(1) [OF settled(3)] by (simp add: asking_auditor_fields)
  then show ?thesis
    using settled(2) by (simp add: asking_auditor_evaluates settle_def approval_arm_def
        manager_verdict_def Let_def sample_manager_def) (simp add: sample_request_def)
qed

lemma only_ways_through_witness:
  "human_approved asking_auditor (sample_request Internal ''x'') NoRuleMatched None"
proof -
  obtain s' where r: "request_permission_tracked sample_env reference_externals
      (sample_request Internal ''x'') None asking_auditor = (s', (True, None, Some ''r1''))"
    using asking_auditor_request by blast
  from only_ways_through [OF asking_auditor_fields(1) r asking_auditor_evaluates] show ?thesis by simp
qed

text \<open>
  Denied is final. When the policy says Denied, no remembered rule, session switch, auto-approve
  switch or manager is consulted: the operation is refused with the policy's reason, the denied counter
  goes up by one, nothing becomes pending, and the switches and the rules file are as they were.
\<close>

theorem denied_is_final:
  assumes "au_enabled s" and "evaluate_request E s req = (Denied, why, tag)"
  shows "\<exists>s'. request_permission_tracked env E req ctx s =
      (s', (False, Some (PolicyDenied (req_op req) (req_target req) why), None))
    \<and> au_denied s' = au_denied s + 1 \<and> au_allowed s' = au_allowed s \<and> au_active s' = au_active s
    \<and> au_rules s' = au_rules s \<and> au_auto s' = au_auto s \<and> au_sessions s' = au_sessions s"
  using assms by (simp add: request_permission_tracked_def evaluate_policy_fields settle_def Let_def)

lemma denied_is_final_witness:
  "\<exists>s'. request_permission_tracked sample_env reference_externals (sample_request Internal ''x'') None
      (set_default_action ''deny'' asking_auditor) =
      (s', (False, Some (PolicyDenied Internal ''x'' NoRuleMatched), None))"
proof -
  let ?s = "set_default_action ''deny'' asking_auditor"
  have e: "evaluate_request reference_externals ?s (sample_request Internal ''x'') = (Denied, NoRuleMatched, DefaultTag)"
    by (simp add: asking_auditor_def setting_defs auditor_new_def evaluate_request_def
        evaluate_request_inner_def self_destruct_stage_def editor_stage_def deny_ask_stage_def
        bucket_pass_def interpreter_stage_def allow_stage_def exec_unknown_stage_def op_rules_def
        sample_request_def is_exec_type_def normalize_decision_def)
  have "au_enabled ?s" using asking_auditor_fields(1) by (simp add: set_default_action_def)
  from denied_is_final [OF this e, of sample_env None] show ?thesis
    by (auto simp: sample_request_def)
qed


text \<open>
  Fail closed. When an approval is required and no automatic arm applies, and there is no manager,
  or it is not running, or its call fails, the operation is refused, the caller is told the request
  identifier, and the request is in the pending table under it.
\<close>

theorem unanswered_is_pending:
  assumes "au_enabled s" and "evaluate_request E s req = (RequireApproval, why, tag)"
    and "\<not> remembered E s req" "\<not> session_allows s ctx" "\<not> approval_auto_enabled s"
    and "case au_manager s of None \<Rightarrow> True
         | Some mgr \<Rightarrow> mgr_running mgr \<longrightarrow> (\<exists>e. mgr_decide mgr (request_card s req why) ctx = Inl e)"
  shows "\<exists>s'. request_permission_tracked env E req ctx s =
      (s', (False, Some (ApprovalRequired why (req_id req)), None))
    \<and> au_active s' = (au_active s)(req_id req \<mapsto> req) \<and> au_pending s' = au_pending s + 1"
  using assms(1)
proof (cases rule: request_cases [of s E req ctx env])
  case (auto s3)
  then show ?thesis using assms(3-5) by blast
next
  case (settled s3)
  note f = settled_frame [OF settled(3)]
  have "manager_verdict (log_audit_event env e s3\<lparr>au_pending := n\<rparr>)
      (request_card (log_audit_event env e s3\<lparr>au_pending := n\<rparr>) req why) ctx = None" for e n
    using assms(6) by (auto simp: manager_verdict_def request_card_def f split: option.splits sum.splits)
  then show ?thesis
    using settled(2) by (simp add: assms(2) settle_def approval_arm_def Let_def f)
qed

lemma unanswered_is_pending_witness:
  "\<exists>s'. request_permission_tracked sample_env reference_externals (sample_request Internal ''x'') None
      (asking_auditor\<lparr>au_manager := None\<rparr>) =
      (s', (False, Some (ApprovalRequired NoRuleMatched ''r1''), None))
    \<and> au_active s' ''r1'' = Some (sample_request Internal ''x'')"
proof -
  let ?s = "asking_auditor\<lparr>au_manager := None\<rparr>" and ?r = "sample_request Internal ''x''"
  have e: "evaluate_request reference_externals ?s ?r = (RequireApproval, NoRuleMatched, DefaultTag)"
    by (simp add: asking_auditor_def setting_defs auditor_new_def evaluate_request_def
        evaluate_request_inner_def self_destruct_stage_def editor_stage_def deny_ask_stage_def
        bucket_pass_def interpreter_stage_def allow_stage_def exec_unknown_stage_def op_rules_def
        sample_request_def is_exec_type_def normalize_decision_def default_config_def forced_reason_def
        default_request_def)
  have "\<exists>s'. request_permission_tracked sample_env reference_externals ?r None ?s =
      (s', (False, Some (ApprovalRequired NoRuleMatched (req_id ?r)), None))
    \<and> au_active s' = (au_active ?s)(req_id ?r \<mapsto> ?r) \<and> au_pending s' = au_pending ?s + 1"
    by (rule unanswered_is_pending [OF _ e])
      (simp_all add: asking_auditor_fields remembered_def session_allows_def approval_auto_enabled_def)
  moreover have "req_id ?r = ''r1''" by (simp add: sample_request_def)
  ultimately show ?thesis by auto
qed

section \<open>The trail of a decision\<close>

definition logging :: "call_env \<Rightarrow> auditor \<Rightarrow> bool" where
  "logging env s \<longleftrightarrow> (\<exists>dir. jsonl_dir s = Some dir \<and> env_append_ok env (jsonl_path dir)
     \<and> au_log_file s \<noteq> Some (jsonl_path dir))"

definition trail :: "auditor \<Rightarrow> audit_event list" where
  "trail s = get_audit_log s empty_filter"

definition same_log :: "auditor \<Rightarrow> auditor \<Rightarrow> bool" where
  "same_log s s' \<longleftrightarrow> au_jsonl s' = au_jsonl s \<and> au_config s' = au_config s
     \<and> au_log_file s' = au_log_file s \<and> au_files s' = au_files s"

lemma jsonl_dir_cong:
  assumes "au_jsonl s' = au_jsonl s" "au_config s' = au_config s"
  shows "jsonl_dir s' = jsonl_dir s"
  unfolding jsonl_dir_def assms ..

lemma same_log_trail: "same_log s s' \<Longrightarrow> trail s' = trail s \<and> logging env s' = logging env s"
proof -
  assume s: "same_log s s'"
  then have "jsonl_dir s' = jsonl_dir s" by (intro jsonl_dir_cong) (simp_all add: same_log_def)
  with s show ?thesis
    by (cases "jsonl_dir s") (simp_all add: same_log_def trail_def get_audit_log_def logging_def)
qed

lemma trail_log:
  assumes "logging env s"
  shows "trail (log_audit_event env e s) = trail s @ [e]" and "logging env (log_audit_event env e s)"
proof -
  obtain dir where dir: "jsonl_dir s = Some dir" "env_append_ok env (jsonl_path dir)"
      "au_log_file s \<noteq> Some (jsonl_path dir)"
    using assms by (auto simp: logging_def)
  have j: "jsonl_dir (log_audit_event env e s) = Some dir" using dir(1) by (subst jsonl_dir_cong [of _ s]) simp_all
  have f: "au_files (log_audit_event env e s) (jsonl_path dir) = au_files s (jsonl_path dir) @ [e]"
    using dir by (auto simp: log_frame extend_file_def split: option.splits)
  show "trail (log_audit_event env e s) = trail s @ [e]"
    by (simp add: trail_def get_audit_log_def j f dir(1) filter_is_empty_def empty_filter_def)
  show "logging env (log_audit_event env e s)" using dir j by (auto simp: logging_def)
qed

text \<open>What an arm writes: at most one note on a blocked rule, or the event of the allowed operation.\<close>

definition arm_trail :: "call_env \<Rightarrow> operation_request \<Rightarrow> auditor \<Rightarrow> auditor \<times> bool \<Rightarrow> nat \<Rightarrow> bool" where
  "arm_trail env req s r k \<longleftrightarrow> logging env (fst r)
     \<and> (\<exists>pre. trail (fst r) = trail s @ pre \<and> list_all (\<lambda>e. ev_request e = req) pre
        \<and> (if snd r then pre \<noteq> [] \<and> ev_decision (last pre) = ''allowed'' \<and> length pre \<le> Suc k
           else length pre \<le> k))"

lemma memory_arm_trail:
  assumes "logging env s"
  shows "arm_trail env req s (memory_arm env E req s) 1"
proof -
  have nop: "arm_trail env req s (s, False) 1" using assms by (simp add: arm_trail_def)
  have blk: "arm_trail env req s (log_audit_event env (make_event env 0 req d w tg) s, False) 1" for d w tg
    using trail_log [OF assms] by (simp add: arm_trail_def make_event_def)
  have same: "same_log s (s\<lparr>au_allowed := n\<rparr>)" for n by (simp add: same_log_def)
  have ok: "arm_trail env req s
      (log_audit_event env (make_event env 0 req ''allowed'' w tg) (s\<lparr>au_allowed := n\<rparr>), True) 1" for w tg n
    using trail_log [of env "s\<lparr>au_allowed := n\<rparr>"] same_log_trail [OF same [of n], of env] assms
    by (simp add: arm_trail_def make_event_def)
  show ?thesis
    using nop blk ok by (auto simp: memory_arm_def Let_def split: option.splits)
qed

lemma allowing_arm_trail:
  assumes "logging env s" "same_log s s'"
  shows "arm_trail env req s (log_audit_event env (make_event env i req ''allowed'' w tg) s', True) 0"
  using assms trail_log [of env s'] same_log_trail [OF assms(2), of env]
  by (simp add: arm_trail_def make_event_def)

lemma session_arm_trail: "logging env s \<Longrightarrow> arm_trail env req s (session_arm env req ctx s) 0"
proof -
  assume l: "logging env s"
  have nop: "arm_trail env req s (s, False) 0" using l by (simp add: arm_trail_def)
  have "same_log s (s\<lparr>au_allowed := n, au_sessions := m\<rparr>)" for n m by (simp add: same_log_def)
  from allowing_arm_trail [OF l this] nop show ?thesis
    by (auto simp: session_arm_def split: option.splits)
qed

lemma auto_arm_trail: "logging env s \<Longrightarrow> arm_trail env req s (auto_arm env req ctx s) 0"
proof -
  assume l: "logging env s"
  have nop: "arm_trail env req s (s, False) 0" using l by (simp add: arm_trail_def)
  have "same_log s (persist_cluster_rule env req ctx (s\<lparr>au_allowed := n, au_auto := m\<rparr>))" for n m
    by (simp add: same_log_def)
  from allowing_arm_trail [OF l this] nop show ?thesis by (simp add: auto_arm_def Let_def)
qed

lemma arm_trail_chain:
  assumes "arm_trail env req s (s1, False) k" "arm_trail env req s1 r 0"
  shows "arm_trail env req s r k"
proof -
  obtain pre where p: "trail s1 = trail s @ pre" "list_all (\<lambda>e. ev_request e = req) pre" "length pre \<le> k"
    using assms(1) by (auto simp: arm_trail_def)
  obtain q where q: "trail (fst r) = trail s1 @ q" "list_all (\<lambda>e. ev_request e = req) q"
      "if snd r then q \<noteq> [] \<and> ev_decision (last q) = ''allowed'' \<and> length q \<le> Suc 0 else length q \<le> 0"
    using assms(2) by (auto simp: arm_trail_def)
  have "trail (fst r) = trail s @ (pre @ q)" using p q by simp
  moreover have "if snd r then pre @ q \<noteq> [] \<and> ev_decision (last (pre @ q)) = ''allowed''
      \<and> length (pre @ q) \<le> Suc k else length (pre @ q) \<le> k"
    using p(3) q(3) by (cases "snd r") simp_all
  ultimately show ?thesis
    using p(2) q(2) assms(2) unfolding arm_trail_def by (metis list_all_append)
qed

lemma automatic_arms_trail:
  assumes "logging env s"
  shows "arm_trail env req s (automatic_arms env E req ctx s) 1"
proof -
  obtain s1 d1 where 1: "memory_arm env E req s = (s1, d1)" by fastforce
  obtain s2 d2 where 2: "session_arm env req ctx s1 = (s2, d2)" by fastforce
  have t1: "arm_trail env req s (s1, d1) 1" using memory_arm_trail [OF assms, of req E] by (simp add: 1)
  then have l1: "logging env s1" by (simp add: arm_trail_def)
  have t2: "arm_trail env req s1 (s2, d2) 0" using session_arm_trail [OF l1, of req ctx] by (simp add: 2)
  then have l2: "logging env s2" by (simp add: arm_trail_def)
  show ?thesis
  proof (cases d1)
    case True
    then show ?thesis using t1 by (simp add: automatic_arms_def 1)
  next
    case False
    then have t12: "arm_trail env req s (s2, d2) 1" using arm_trail_chain t1 t2 by simp
    then show ?thesis
      using False arm_trail_chain auto_arm_trail [OF l2, of req ctx]
      by (cases d2) (simp_all add: automatic_arms_def 1 2)
  qed
qed


text \<open>
  Every decision leaves its trace. With the structured log on and appends succeeding, one request
  to an enabled auditor appends one event, or two when a remembered rule was blocked by a sensitive flag;
  all are about this request. The last one says \<open>allowed\<close> exactly when the operation passed without a
  human, \<open>denied\<close> when the policy denied it, and \<open>pending\<close> in every other case: the answer of the human
  itself is not written by this function.
\<close>

theorem decision_leaves_trace:
  assumes "au_enabled s" and "logging env s"
    and "request_permission_tracked env E req ctx s = (s', (ok, msg, ref))"
  shows "\<exists>pre e. trail s' = trail s @ pre @ [e] \<and> length pre \<le> 1
    \<and> list_all (\<lambda>e. ev_request e = req) (pre @ [e])
    \<and> ev_decision e = (if ok \<and> ref = None then ''allowed''
        else if fst (evaluate_request E s req) = Denied then ''denied'' else ''pending'')"
  using assms(1)
proof (cases rule: request_cases [of s E req ctx env])
  case (auto s3)
  let ?s = "s\<lparr>au_total := au_total s + 1\<rparr>"
  have "same_log s ?s" by (simp add: same_log_def)
  note l = same_log_trail [OF this]
  have t: "arm_trail env req ?s (automatic_arms env E req ctx ?s) 1"
    using automatic_arms_trail [of env ?s] l assms(2) by simp
  have d: "snd (automatic_arms env E req ctx ?s)"
    using auto(2) by (simp add: automatic_arms_done remembered_def session_allows_def approval_auto_enabled_def)
  obtain pre where p: "trail s3 = trail s @ pre" "list_all (\<lambda>e. ev_request e = req) pre" "pre \<noteq> []"
      "ev_decision (last pre) = ''allowed''" "length pre \<le> 2"
    using t d l [of env] auto(4) by (auto simp: arm_trail_def)
  have "pre = butlast pre @ [last pre]" "length (butlast pre) \<le> 1" using p by simp_all
  then show ?thesis using p auto(3) assms(3) by (metis Pair_inject)
next
  case (settled s3)
  obtain d why tag where v: "evaluate_request E s req = (d, why, tag)" by (cases "evaluate_request E s req") auto
  let ?s = "s\<lparr>au_total := au_total s + 1\<rparr>"
  have "same_log s ?s" by (simp add: same_log_def)
  note l = same_log_trail [OF this]
  have "\<not> snd (automatic_arms env E req ctx ?s)" if "fst (evaluate_request E s req) = RequireApproval"
    using settled(1) that
    by (simp add: automatic_arms_done remembered_def session_allows_def approval_auto_enabled_def)
  then obtain pre where p: "trail s3 = trail s @ pre" "list_all (\<lambda>e. ev_request e = req) pre" "length pre \<le> 1"
      and l3: "logging env s3"
    using automatic_arms_trail [of env ?s req E ctx] l [of env] settled(3) assms(2)
    by (cases "fst (evaluate_request E s req) = RequireApproval") (auto simp: arm_trail_def)
  let ?e = "make_event env 3 req (decision_word d) (AuPolicy why) (AuTag tag)"
  have r: "settle env req ctx (d, why, tag) s3 = (s', (ok, msg, ref))" using settled(2) v assms(3) by simp
  have "same_log (log_audit_event env ?e s3) s'"
  proof -
    have "same_log (log_audit_event env ?e s3) (fst (settle env req ctx (d, why, tag) s3))"
      by (cases d) (auto simp: settle_def approval_arm_def same_log_def Let_def split: option.splits)
    then show ?thesis by (simp add: r)
  qed
  then have "trail s' = trail s3 @ [?e]" using same_log_trail trail_log(1) [OF l3] by simp
  moreover have "decision_word d = (if ok \<and> ref = None then ''allowed''
      else if d = Denied then ''denied'' else ''pending'')"
    using settle_allowed [of env req ctx d why tag s3] settle_reference [of env req ctx d why tag s3] r
    by (cases d) auto
  ultimately show ?thesis using p v
    by (intro exI [of _ pre] exI [of _ ?e]) (simp add: make_event_def)
qed

lemma decision_leaves_trace_witness:
  "\<exists>s' e. request_permission_tracked sample_env reference_externals (sample_request Internal ''x'') None
     asking_auditor = (s', (True, None, Some ''r1'')) \<and> last (trail s') = e \<and> ev_decision e = ''pending''"
proof -
  obtain s' where r: "request_permission_tracked sample_env reference_externals
      (sample_request Internal ''x'') None asking_auditor = (s', (True, None, Some ''r1''))"
    using asking_auditor_request by blast
  have l: "logging sample_env asking_auditor"
    by (simp add: logging_def asking_auditor_fields sample_env_def)
  from decision_leaves_trace [OF asking_auditor_fields(1) l r] r show ?thesis
    by (auto simp: asking_auditor_evaluates)
qed

section \<open>The pending counter and the pending table\<close>

definition pending_exact :: "auditor \<Rightarrow> bool" where
  "pending_exact s \<longleftrightarrow> finite (dom (au_active s)) \<and> au_pending s = of_nat (pending_count s)"

text \<open>
  The runs in which the counter is exact: no request arrives under the identifier of one that is still
  pending, and the auditor is closed only when nothing is pending.
\<close>

fun orderly :: "auditor \<Rightarrow> auditor_op \<Rightarrow> bool" where
  "orderly s (Request env E req ctx) \<longleftrightarrow> au_active s (req_id req) = None"
| "orderly s CloseAuditor \<longleftrightarrow> au_active s = Map.empty"
| "orderly s _ \<longleftrightarrow> True"

inductive orderly_run :: "auditor \<Rightarrow> bool" where
  start: "orderly_run (auditor_new config)"
| step: "orderly_run s \<Longrightarrow> orderly s ev \<Longrightarrow> orderly_run (auditor_step s ev)"

lemma pending_insert:
  assumes "pending_exact s" "au_active s i = None" "au_active s' = (au_active s)(i \<mapsto> r)"
    and "au_pending s' = au_pending s + 1"
  shows "pending_exact s'"
  using assms by (auto simp: pending_exact_def pending_count_def card_insert_disjoint domIff)

lemma pending_remove:
  assumes "pending_exact s" "au_active s i = Some r" "au_active s' = (au_active s)(i := None)"
    and "au_pending s' = au_pending s - 1"
  shows "pending_exact s'"
proof -
  have "card (dom (au_active s)) = Suc (card (dom (au_active s) - {i}))"
    using assms(1,2) by (intro card.remove) (auto simp: pending_exact_def)
  then show ?thesis using assms by (simp add: pending_exact_def pending_count_def)
qed

lemma pending_same:
  "pending_exact s \<Longrightarrow> au_active s' = au_active s \<Longrightarrow> au_pending s' = au_pending s \<Longrightarrow> pending_exact s'"
  by (simp add: pending_exact_def pending_count_def)

lemma request_pending:
  assumes "pending_exact s" "au_active s (req_id req) = None"
  shows "pending_exact (fst (request_permission_tracked env E req ctx s))"
proof (cases "au_enabled s")
  case False
  then show ?thesis using assms by (simp add: request_by_arms)
next
  case True
  then show ?thesis
  proof (cases rule: request_cases [of s E req ctx env])
    case (auto s3)
    have "arm_counts (s\<lparr>au_total := au_total s + 1\<rparr>)
        (automatic_arms env E req ctx (s\<lparr>au_total := au_total s + 1\<rparr>))"
      by (rule automatic_arms_counts)
    then show ?thesis using auto(3,4) assms(1) by (auto simp: arm_counts_def intro: pending_same)
  next
    case (settled s3)
    note f = settled_frame [OF settled(3)]
    obtain d why tag where v: "evaluate_request E s req = (d, why, tag)"
      by (cases "evaluate_request E s req") auto
    have "pending_exact (fst (settle env req ctx (d, why, tag) s3))"
    proof (cases d)
      case RequireApproval
      let ?l = "log_audit_event env (make_event env 3 req (decision_word d) (AuPolicy why) (AuTag tag)) s3"
      let ?s = "?l\<lparr>au_pending := au_pending ?l + 1\<rparr>"
      show ?thesis
      proof (cases "manager_verdict ?s (request_card ?s req why) ctx")
        case None
        then show ?thesis
          using RequireApproval f pending_insert [OF assms]
          by (simp add: settle_def approval_arm_def Let_def)
      next
        case (Some v)
        then show ?thesis
          using RequireApproval f pending_same [OF assms(1)]
          by (simp add: settle_def approval_arm_def Let_def)
      qed
    qed (use f pending_same [OF assms(1)] in \<open>simp_all add: settle_def Let_def\<close>)
    then show ?thesis using settled(2) v by simp
  qed
qed

lemma step_pending: "pending_exact s \<Longrightarrow> orderly s ev \<Longrightarrow> pending_exact (auditor_step s ev)"
proof (cases ev)
  case (Request env E req ctx)
  then show "pending_exact s \<Longrightarrow> orderly s ev \<Longrightarrow> ?thesis" by (simp add: request_pending)
next
  case (Approve i a)
  then show "pending_exact s \<Longrightarrow> orderly s ev \<Longrightarrow> ?thesis"
    by (auto simp: approve_request_def split: option.splits intro: pending_remove)
next
  case (Deny i a w)
  then show "pending_exact s \<Longrightarrow> orderly s ev \<Longrightarrow> ?thesis"
    by (auto simp: deny_request_def split: option.splits intro: pending_remove)
next
  case CloseAuditor
  then show "pending_exact s \<Longrightarrow> orderly s ev \<Longrightarrow> ?thesis" by (simp add: close_def pending_exact_def pending_count_def)
qed (use only_files_counts [OF reviews_only_files(1)] only_files_counts [OF reviews_only_files(2)]
      only_files_counts [OF reviews_only_files(3)] only_files_counts [OF reviews_only_files(4)]
      only_files_counts [OF reviews_only_files(5)]
    in \<open>auto simp: same_counts_def setting_defs intro: pending_same simp del: auditor_step.simps(19-23)\<close>)

text \<open>
  In every orderly run the pending counter is the number of requests in the pending table.
\<close>

theorem pending_counter_exact:
  assumes "orderly_run s"
  shows "finite (dom (au_active s)) \<and> au_pending s = of_nat (pending_count s)"
proof -
  from assms have "pending_exact s"
    by (induction rule: orderly_run.induct)
      (simp_all add: step_pending, simp add: pending_exact_def auditor_new_def pending_count_def)
  then show ?thesis by (simp add: pending_exact_def)
qed

lemma pending_counter_exact_witness:
  "au_pending (auditor_step (auditor_new default_config) (Request sample_env reference_externals
     (sample_request Internal ''x'') None)) =
   of_nat (pending_count (auditor_step (auditor_new default_config) (Request sample_env reference_externals
     (sample_request Internal ''x'') None)))"
proof -
  have "orderly_run (auditor_step (auditor_new default_config) (Request sample_env reference_externals
      (sample_request Internal ''x'') None))"
    by (intro orderly_run.intros) (simp add: auditor_new_def)
  from pending_counter_exact [OF this] show ?thesis by (rule conjunct2)
qed

text \<open>
  Outside orderly runs the counter drifts for good: closing the auditor empties the table and
  leaves the counter, so that one unanswered request followed by a close leaves a counter of one
  with an empty table.
\<close>

theorem close_leaves_counter:
  "pending_count (close s) = 0 \<and> au_pending (close s) = au_pending s"
  by (simp add: close_def pending_count_def)

section \<open>Reviews\<close>

text \<open>
  The four direct reviews fail closed. A review returns an approval only if a running manager
  answered the very card of this review with it; it never changes a counter, the pending table, the rules
  or the switches.
\<close>

theorem reviews_fail_closed:
  assumes "snd (run_review env spec tool why ctx s) = Inr v" and "av_approved v"
  shows "only_files s (fst (run_review env spec tool why ctx s))
    \<and> (\<exists>mgr. au_manager s = Some mgr \<and> mgr_running mgr
        \<and> mgr_decide mgr (review_card s env spec tool why) ctx = Inr v)"
  using run_review_approved [OF assms(1)] run_review_frame by blast

lemma reviews_fail_closed_witness:
  "only_files asking_auditor (fst (request_limit_approval sample_env ''exec'' ''20/min'' None asking_auditor))"
proof -
  have "snd (run_review sample_env limit_spec ''exec'' (ReviewText ''20/min'') None asking_auditor) =
      Inr \<lparr>av_approved = True, av_note = None\<rparr>"
    by (simp add: run_review_def asking_auditor_fields sample_manager_def Let_def)
  from reviews_fail_closed [OF this] show ?thesis by (simp add: request_limit_approval_def)
qed

end
