(* ===== verification/Audit_Chain.thy ===== *)
theory Audit_Chain
  imports Rust_Str "HOL-Library.List_Lexorder" "HOL-Library.Char_ord"
begin

text \<open>
  \<open>crates/nemesis-security/src/integrity.rs\<close>: the hash chain of audit events over rotated segment files.
  The directory of the storage path is an association list from file names to files in the order of
  creation. A file has terminated lines, each an event or text that does not parse (\<open>serde_json\<close> is the identity
  on events), the bytes behind its last line feed, and whether it is valid UTF-8. What the write of an append
  does is the environment's choice: it succeeds, or it fails and leaves nothing, a piece of its line or the whole
  line without its line feed. The critical section of \<open>append_lock\<close> makes an append one step. The digest (crate
  \<open>sha2\<close>, 64 hexadecimal characters) is the argument \<open>H\<close>.
\<close>

section \<open>Data\<close>

record chain_event =
  ce_id :: string
  ce_timestamp :: string
  ce_operation :: string
  ce_tool_name :: string
  ce_user :: string
  ce_source :: string
  ce_target :: string
  ce_decision :: string
  ce_reason :: string
  ce_hash :: string
  ce_prev_hash :: string
  ce_sign :: "string option"
  ce_hash_version :: "8 word"

record chain_config =
  cc_enabled :: bool
  cc_stem :: string \<comment> \<open>file stem of the storage path\<close>
  cc_ext :: string \<comment> \<open>its extension with the dot, or empty\<close>
  cc_max_file_size :: "64 word"
  cc_verify_on_load :: bool
  cc_max_events_per_segment :: "64 word"
  cc_signing_key :: "string option"

definition default_chain_config :: chain_config where
  "default_chain_config = \<lparr>cc_enabled = True, cc_stem = ''audit_chain'', cc_ext = ''.jsonl'',
     cc_max_file_size = 50 * 1024 * 1024, cc_verify_on_load = False,
     cc_max_events_per_segment = 100000, cc_signing_key = None\<rparr>"

datatype file_line = EventLine chain_event | OtherLine

record segment_file =
  sf_lines :: "file_line list"
  sf_tail :: "file_line option" \<comment> \<open>what stands behind the last line feed\<close>
  sf_utf8 :: bool

definition empty_file :: segment_file where
  "empty_file = \<lparr>sf_lines = [], sf_tail = None, sf_utf8 = True\<rparr>"

type_synonym directory = "(string \<times> segment_file) list"

record audit_chain =
  ac_config :: chain_config
  ac_last_hash :: string
  ac_event_count :: "64 word"
  ac_segment_count :: "64 word"
  ac_total_events :: "64 word"
  ac_closed :: bool
  ac_dir :: directory

definition genesis_hash :: string where
  "genesis_hash = replicate 64 CHR ''0''"

definition chain_new :: "chain_config \<Rightarrow> directory \<Rightarrow> audit_chain" where
  "chain_new config dir = \<lparr>ac_config = config, ac_last_hash = genesis_hash, ac_event_count = 0,
     ac_segment_count = 1, ac_total_events = 0, ac_closed = False, ac_dir = dir\<rparr>"

section \<open>Segment files\<close>

text \<open>\<open>format!("{:04}", n)\<close>\<close>

definition pad4 :: "nat \<Rightarrow> string" where
  "pad4 n = replicate (4 - length (decimal n)) CHR ''0'' @ decimal n"

definition segment_name :: "chain_config \<Rightarrow> nat \<Rightarrow> string" where
  "segment_name c seg =
     (if seg = 1 then cc_stem c @ cc_ext c else cc_stem c @ ''_seg'' @ pad4 seg @ cc_ext c)"

definition get_current_segment_path :: "audit_chain \<Rightarrow> string" where
  "get_current_segment_path s = segment_name (ac_config s) (unat (ac_segment_count s))"

text \<open>
  What \<open>writeln!\<close> on a file opened to append leaves behind when it fails: the file was not opened; it was opened
  (and created) but no byte was written; a piece of the line was written, cut inside a character or not; the line
  was written but not its line feed. A later write goes directly behind what is left, and the joined text is no
  event.
\<close>

datatype leftover = Not_Opened | No_Bytes | Piece_Of_Line bool | Line_Without_End

datatype write_result = Written | Write_Failed string leftover

definition joined :: "file_line option \<Rightarrow> file_line \<Rightarrow> file_line" where
  "joined before l = (case before of None \<Rightarrow> l | Some _ \<Rightarrow> OtherLine)"

fun write_line :: "chain_event \<Rightarrow> write_result \<Rightarrow> segment_file \<Rightarrow> segment_file" where
  "write_line e Written f = f\<lparr>sf_lines := sf_lines f @ [joined (sf_tail f) (EventLine e)], sf_tail := None\<rparr>"
| "write_line e (Write_Failed x (Piece_Of_Line inside)) f = f\<lparr>sf_tail := Some OtherLine, sf_utf8 := sf_utf8 f \<and> \<not> inside\<rparr>"
| "write_line e (Write_Failed x Line_Without_End) f = f\<lparr>sf_tail := Some (joined (sf_tail f) (EventLine e))\<rparr>"
| "write_line e (Write_Failed x Not_Opened) f = f"
| "write_line e (Write_Failed x No_Bytes) f = f"

fun change_file :: "string \<Rightarrow> (segment_file \<Rightarrow> segment_file) \<Rightarrow> directory \<Rightarrow> directory" where
  "change_file name g [] = [(name, g empty_file)]"
| "change_file name g ((n, f) # dir) = (if n = name then (n, g f) # dir else (n, f) # change_file name g dir)"

definition opens_file :: "write_result \<Rightarrow> bool" where
  "opens_file w = (case w of Written \<Rightarrow> True | Write_Failed _ l \<Rightarrow> l \<noteq> Not_Opened)"

definition append_file :: "string \<Rightarrow> chain_event \<Rightarrow> write_result \<Rightarrow> directory \<Rightarrow> directory" where
  "append_file name e w dir =
     (if opens_file w then change_file name (write_line e w) dir else dir)"

definition collect_segment_files :: "audit_chain \<Rightarrow> string list" where
  "collect_segment_files s =
     (let main = cc_stem (ac_config s) @ cc_ext (ac_config s); names = map fst (ac_dir s) in
      (if main \<in> set names then [main] else [])
      @ sort (filter (\<lambda>name. starts_with name (cc_stem (ac_config s)) \<and> contains_str name ''_seg'') names))"

fun line_event :: "file_line \<Rightarrow> chain_event option" where
  "line_event (EventLine e) = Some e"
| "line_event OtherLine = None"

text \<open>\<open>read_to_string\<close> fails on a file that is no UTF-8, and the file is passed over.\<close>

definition sf_events :: "segment_file \<Rightarrow> chain_event list" where
  "sf_events f = (if sf_utf8 f
     then List.map_filter line_event (sf_lines f @ (case sf_tail f of None \<Rightarrow> [] | Some l \<Rightarrow> [l])) else [])"

definition file_events :: "directory \<Rightarrow> string \<Rightarrow> chain_event list" where
  "file_events dir name =
     (case map_of dir name of None \<Rightarrow> [] | Some f \<Rightarrow> sf_events f)"

definition read_events :: "audit_chain \<Rightarrow> chain_event list" where
  "read_events s = concat (map (file_events (ac_dir s)) (collect_segment_files s))"

section \<open>Operations\<close>

definition event_text :: "chain_event \<Rightarrow> string" where
  "event_text e = ce_prev_hash e @ ce_timestamp e @ ce_operation e @ ce_tool_name e @ ce_user e
     @ ce_target e @ ce_decision e
     @ (if ce_hash_version e \<ge> 1 then ce_source e @ ce_reason e else [])"

definition compute_event_hash :: "(string \<Rightarrow> string) \<Rightarrow> chain_event \<Rightarrow> string" where
  "compute_event_hash H e = H (event_text e)"

fun verify_from :: "(string \<Rightarrow> string) \<Rightarrow> string option \<Rightarrow> chain_event list \<Rightarrow> bool" where
  "verify_from H prev [] = True"
| "verify_from H prev (e # es) =
     (if (case prev of Some h \<Rightarrow> ce_prev_hash e \<noteq> h | None \<Rightarrow> False) then False
      else if ce_hash_version e > 1 then False
      else if compute_event_hash H e \<noteq> ce_hash e then False
      else verify_from H (Some (ce_hash e)) es)"

definition verify_chain :: "(string \<Rightarrow> string) \<Rightarrow> chain_event list \<Rightarrow> bool" where
  "verify_chain H es = verify_from H None es"

datatype chain_error = ChainClosed | PersistFailed string | VerificationFailed | ParseFailed string | IoFailed string

record append_env =
  ae_now :: string
  ae_uuid :: string
  ae_write :: write_result

definition rotate_segment :: "audit_chain \<Rightarrow> audit_chain" where
  "rotate_segment s = s\<lparr>ac_event_count := 0, ac_segment_count := ac_segment_count s + 1\<rparr>"

record event_fields =
  ef_operation :: string
  ef_tool_name :: string
  ef_user :: string
  ef_source :: string
  ef_target :: string
  ef_decision :: string
  ef_reason :: string

definition new_event ::
  "(string \<Rightarrow> string) \<Rightarrow> append_env \<Rightarrow> event_fields \<Rightarrow> string option \<Rightarrow> string \<Rightarrow> chain_event" where
  "new_event H env f sign prev_hash =
     \<lparr>ce_id = ae_uuid env, ce_timestamp = ae_now env, ce_operation = ef_operation f,
      ce_tool_name = ef_tool_name f, ce_user = ef_user f, ce_source = ef_source f,
      ce_target = ef_target f, ce_decision = ef_decision f, ce_reason = ef_reason f,
      ce_hash = H (prev_hash @ ae_now env @ ef_operation f @ ef_tool_name f @ ef_user f @ ef_target f
        @ ef_decision f @ ef_source f @ ef_reason f),
      ce_prev_hash = prev_hash, ce_sign = sign, ce_hash_version = 1\<rparr>"

definition append_with_sign ::
  "(string \<Rightarrow> string) \<Rightarrow> append_env \<Rightarrow> event_fields \<Rightarrow> string option \<Rightarrow> audit_chain \<Rightarrow>
     audit_chain \<times> (chain_error + chain_event)" where
  "append_with_sign H env f sign s =
     (if ac_closed s then (s, Inl ChainClosed)
      else (let event = new_event H env f sign (ac_last_hash s);
                dir = append_file (get_current_segment_path s) event (ae_write env) (ac_dir s) in
        (case ae_write env of
           Write_Failed e _ \<Rightarrow> (s\<lparr>ac_dir := dir\<rparr>, Inl (PersistFailed e))
         | Written \<Rightarrow>
             (let s1 = s\<lparr>ac_dir := dir, ac_last_hash := ce_hash event, ac_event_count := ac_event_count s + 1,
                         ac_total_events := ac_total_events s + 1\<rparr>;
                  s2 = (if ac_event_count s1 \<ge> cc_max_events_per_segment (ac_config s) then rotate_segment s1 else s1)
              in (s2, Inr event)))))"

definition append ::
  "(string \<Rightarrow> string) \<Rightarrow> append_env \<Rightarrow> event_fields \<Rightarrow> audit_chain \<Rightarrow>
     audit_chain \<times> (chain_error + chain_event)" where
  "append H env f s = append_with_sign H env f None s"

definition close_chain :: "audit_chain \<Rightarrow> audit_chain" where
  "close_chain s = s\<lparr>ac_closed := True\<rparr>"

definition load_segments :: "audit_chain \<Rightarrow> audit_chain \<times> 64 word" where
  "load_segments s =
     (let es = read_events s; total = of_nat (length es) in
      if es = [] then (s, 0)
      else (s\<lparr>ac_last_hash := ce_hash (last es), ac_total_events := total\<rparr>, total))"

text \<open>
  The events of an exported chain are appended to the first file, which is opened once, until a write fails; the
  tail and the total are changed before. The list gives what each write does.
\<close>

fun write_events :: "string \<Rightarrow> chain_event list \<Rightarrow> write_result list \<Rightarrow> directory \<Rightarrow> directory \<times> string option" where
  "write_events name (e # es) (Write_Failed x l # ws) dir = (change_file name (write_line e (Write_Failed x l)) dir, Some x)"
| "write_events name (e # es) ws dir = write_events name es (tl ws) (change_file name (write_line e Written) dir)"
| "write_events name [] ws dir = (dir, None)"

definition load_chain ::
  "(string \<Rightarrow> string) \<Rightarrow> string + chain_event list \<Rightarrow> string option \<Rightarrow> write_result list \<Rightarrow> audit_chain \<Rightarrow>
     audit_chain \<times> (chain_error + 64 word)" where
  "load_chain H input open_error ws s =
     (case input of
        Inl e \<Rightarrow> (s, Inl (ParseFailed e))
      | Inr es \<Rightarrow>
          if \<not> verify_chain H es then (s, Inl VerificationFailed)
          else (let main = cc_stem (ac_config s) @ cc_ext (ac_config s);
                    s1 = s\<lparr>ac_last_hash := (if es = [] then ac_last_hash s else ce_hash (last es)),
                           ac_total_events := ac_total_events s + of_nat (length es)\<rparr> in
            (case open_error of
               Some x \<Rightarrow> (s1, Inl (IoFailed x))
             | None \<Rightarrow>
                 (case write_events main es ws (change_file main id (ac_dir s)) of
                    (dir, None) \<Rightarrow> (s1\<lparr>ac_dir := dir\<rparr>, Inr (of_nat (length es)))
                  | (dir, Some x) \<Rightarrow> (s1\<lparr>ac_dir := dir\<rparr>, Inl (IoFailed x))))))"

definition export_chain :: "audit_chain \<Rightarrow> chain_event list" where
  "export_chain s = read_events s"

definition get_event :: "audit_chain \<Rightarrow> nat \<Rightarrow> chain_event option" where
  "get_event s index = (let es = read_events s in if index < length es then Some (es ! index) else None)"

definition read_events_range :: "audit_chain \<Rightarrow> nat \<Rightarrow> nat \<Rightarrow> chain_event list" where
  "read_events_range s from_idx to_idx = drop from_idx (take to_idx (read_events s))"

definition verify_range :: "(string \<Rightarrow> string) \<Rightarrow> audit_chain \<Rightarrow> 64 word \<Rightarrow> 64 word \<Rightarrow> bool" where
  "verify_range H s from_idx to_idx =
     (let events = read_events_range s (unat from_idx) (unat (to_idx + 1)) in
      if length events < 2 then True else verify_chain H events)"

section \<open>Segment names sort in the order of their numbers\<close>

lemma zero_digit: "CHR ''0'' = digit_char 0"
  by code_simp

lemma replicate_small:
  "replicate 3 x = [x, x, x]" "replicate 2 x = [x, x]" "replicate (Suc 0) x = [x]"
  by (simp_all add: numeral_eq_Suc)

lemma pad4_digits:
  assumes "n < 10000"
  shows "pad4 n = [digit_char (n div 1000), digit_char (n div 100 mod 10), digit_char (n div 10 mod 10),
    digit_char (n mod 10)]"
proof -
  consider "n < 10" | "10 \<le> n" "n < 100" | "100 \<le> n" "n < 1000" | "1000 \<le> n" by linarith
  then show ?thesis
  proof cases
    case 1
    then show ?thesis by (simp add: pad4_def decimal_small zero_digit replicate_small)
  next
    case 2
    then have "decimal n = [digit_char (n div 10), digit_char (n mod 10)]"
      by (simp add: decimal_step decimal_small)
    with 2 show ?thesis by (simp add: pad4_def zero_digit replicate_small)
  next
    case 3
    then have "decimal n = [digit_char (n div 10 div 10), digit_char (n div 10 mod 10), digit_char (n mod 10)]"
      by (simp add: decimal_step decimal_small)
    with 3 show ?thesis by (simp add: pad4_def zero_digit replicate_small div_mult2_eq [symmetric])
  next
    case 4
    then have "decimal n = [digit_char (n div 10 div 10 div 10), digit_char (n div 10 div 10 mod 10),
        digit_char (n div 10 mod 10), digit_char (n mod 10)]"
      using assms by (simp add: decimal_step decimal_small)
    with 4 show ?thesis by (simp add: pad4_def div_mult2_eq [symmetric])
  qed
qed

lemma digit_less: "a < 10 \<Longrightarrow> b < 10 \<Longrightarrow> digit_char a < digit_char b \<longleftrightarrow> a < b"
  by (simp add: digit_char_def less_char_def)

lemma digit_eq: "a < 10 \<Longrightarrow> b < 10 \<Longrightarrow> digit_char a = digit_char b \<longleftrightarrow> a = b"
  using digit_less [of a b] digit_less [of b a] by (metis less_irrefl nat_neq_iff)

lemma less_by_digits:
  "(i :: nat) < j \<Longrightarrow> i div 10 < j div 10 \<or> i div 10 = j div 10 \<and> i mod 10 < j mod 10"
proof -
  assume "i < j"
  then have "i div 10 \<le> j div 10" by (simp add: div_le_mono)
  moreover have "i div 10 = j div 10 \<Longrightarrow> i mod 10 < j mod 10"
    using \<open>i < j\<close> div_mult_mod_eq [of i 10] div_mult_mod_eq [of j 10] by linarith
  ultimately show ?thesis by linarith
qed

lemma pad4_mono:
  assumes "i < j" "j < 10000"
  shows "pad4 i < pad4 j"
proof -
  have d: "i div 1000 < 10" "j div 1000 < 10" using assms by linarith+
  have 1: "i div 10 div 10 = i div 100" "j div 10 div 10 = j div 100"
    "i div 100 div 10 = i div 1000" "j div 100 div 10 = j div 1000"
    by (simp_all add: div_mult2_eq [symmetric])
  have "i div 1000 < j div 1000 \<or> i div 1000 = j div 1000 \<and>
      (i div 100 mod 10 < j div 100 mod 10 \<or> i div 100 mod 10 = j div 100 mod 10 \<and>
        (i div 10 mod 10 < j div 10 mod 10 \<or> i div 10 mod 10 = j div 10 mod 10 \<and> i mod 10 < j mod 10))"
  proof -
    have e: "i div 10 = j div 10 \<Longrightarrow> i div 100 = j div 100" "i div 100 = j div 100 \<Longrightarrow> i div 1000 = j div 1000"
      "i div 10 = j div 10 \<Longrightarrow> i div 10 mod 10 = j div 10 mod 10"
      "i div 100 = j div 100 \<Longrightarrow> i div 100 mod 10 = j div 100 mod 10"
      using 1 by metis+
    note f = less_by_digits [OF assms(1)] less_by_digits [of "i div 10" "j div 10", unfolded 1]
      less_by_digits [of "i div 100" "j div 100", unfolded 1]
    show ?thesis using e f by argo
  qed
  then show ?thesis
    using assms d by (auto simp: pad4_digits digit_less digit_eq)
qed

lemma less_append_same: "(u @ x :: string) < u @ y \<longleftrightarrow> x < y"
  by (induction u) auto

lemma less_append_right: "(x :: string) < y \<Longrightarrow> length x = length y \<Longrightarrow> x @ e < y @ e"
proof (induction x y rule: list_induct2')
  case (4 a x b y)
  then show ?case by auto
qed auto

lemma segment_name_mono:
  assumes "1 < i" "i < j" "j < 10000"
  shows "segment_name c i < segment_name c j"
proof -
  have "length (pad4 i) = length (pad4 j)" using assms by (simp add: pad4_digits)
  then have "pad4 i @ cc_ext c < pad4 j @ cc_ext c"
    using pad4_mono [OF assms(2,3)] by (intro less_append_right)
  then show ?thesis using assms by (simp add: segment_name_def less_append_same)
qed

section \<open>The files of a running chain\<close>

text \<open>The directory that holds the given segments under their names, in order.\<close>

definition dir_of :: "chain_config \<Rightarrow> segment_file list \<Rightarrow> directory" where
  "dir_of c segs = zip (map (segment_name c) [1..<Suc (length segs)]) segs"

definition plain_names :: "chain_config \<Rightarrow> bool" where
  "plain_names c \<longleftrightarrow> \<not> contains_str (cc_stem c @ cc_ext c) ''_seg''"

definition segment_log :: "segment_file list \<Rightarrow> chain_event list" where
  "segment_log segs = concat (map sf_events segs)"

text \<open>No bytes behind the last line feed, and text.\<close>

definition whole_file :: "segment_file \<Rightarrow> bool" where
  "whole_file f \<longleftrightarrow> sf_tail f = None \<and> sf_utf8 f"

lemma dir_of_snoc:
  "dir_of c (segs @ [ls]) = dir_of c segs @ [(segment_name c (Suc (length segs)), ls)]"
  by (simp add: dir_of_def upt_Suc_append del: upt_Suc)

lemma dir_of_names: "map fst (dir_of c segs) = map (segment_name c) [1..<Suc (length segs)]"
  by (simp add: dir_of_def del: upt_Suc)

lemma segment_name_1: "segment_name c 1 = cc_stem c @ cc_ext c"
  "segment_name c (Suc 0) = cc_stem c @ cc_ext c"
  by (simp_all add: segment_name_def)

lemma segment_name_shape:
  "1 < k \<Longrightarrow> starts_with (segment_name c k) (cc_stem c) \<and> contains_str (segment_name c k) ''_seg''"
  by (auto simp: segment_name_def starts_with_def contains_str_sublist)

lemma segment_name_neq:
  assumes "plain_names c" "1 \<le> i" "i < j" "j < 10000"
  shows "segment_name c i \<noteq> segment_name c j"
proof (cases "i = 1")
  case True
  then show ?thesis
    using assms segment_name_shape [of j c] by (auto simp: segment_name_1 plain_names_def)
next
  case False
  then show ?thesis using assms segment_name_mono [of i j c] by auto
qed

lemma segment_names_distinct:
  assumes "plain_names c" "n \<le> 10000"
  shows "distinct (map (segment_name c) [1..<n])"
proof -
  have "inj_on (segment_name c) {1..<n}"
  proof (rule inj_onI)
    fix i j assume ij: "i \<in> {1..<n}" "j \<in> {1..<n}" "segment_name c i = segment_name c j"
    show "i = j"
      using ij assms segment_name_neq [of c i j] segment_name_neq [of c j i]
      by (cases i j rule: linorder_cases) auto
  qed
  then show ?thesis by (simp add: distinct_map)
qed

lemma segment_names_sorted: "n \<le> 10000 \<Longrightarrow> sorted (map (segment_name c) [2..<n])"
  by (auto simp: sorted_wrt_iff_nth_less intro!: less_imp_le segment_name_mono)

lemma collect_dir_of:
  assumes "plain_names c" "length segs \<le> 9999" "ac_config s = c" "ac_dir s = dir_of c segs"
  shows "collect_segment_files s = map (segment_name c) [1..<Suc (length segs)]"
proof (cases "segs = []")
  case True
  then show ?thesis using assms by (simp add: collect_segment_files_def dir_of_def Let_def)
next
  case False
  let ?P = "\<lambda>name. starts_with name (cc_stem c) \<and> contains_str name ''_seg''"
  have up: "[1..<Suc (length segs)] = 1 # [2..<Suc (length segs)]"
    using False by (simp add: upt_rec numeral_2_eq_2)
  have "filter ?P (map (segment_name c) [2..<Suc (length segs)]) = map (segment_name c) [2..<Suc (length segs)]"
    using segment_name_shape by (auto simp: filter_id_conv)
  moreover have "\<not> ?P (segment_name c 1)" using assms(1) by (simp add: segment_name_1 plain_names_def)
  ultimately have f: "filter ?P (map (segment_name c) [1..<Suc (length segs)]) =
      map (segment_name c) [2..<Suc (length segs)]"
    unfolding up by simp
  have "sort (map (segment_name c) [2..<Suc (length segs)]) = map (segment_name c) [2..<Suc (length segs)]"
    by (rule sorted_sort_id) (rule segment_names_sorted, use assms(2) in simp)
  then show ?thesis
    unfolding collect_segment_files_def Let_def assms(3,4) dir_of_names f
    unfolding segment_name_1(1) [symmetric] up by simp
qed

lemma map_of_zip_id: "distinct ns \<Longrightarrow> length ns = length vs \<Longrightarrow> map (map_of (zip ns vs)) ns = map Some vs"
  by (rule nth_equalityI) (auto simp: map_of_zip_nth)

lemma read_dir_of:
  assumes "plain_names c" "length segs \<le> 9999" "ac_config s = c" "ac_dir s = dir_of c segs"
  shows "read_events s = segment_log segs"
proof -
  let ?ns = "map (segment_name c) [1..<Suc (length segs)]"
  have "distinct ?ns" using assms by (intro segment_names_distinct) auto
  then have m: "map (map_of (dir_of c segs)) ?ns = map Some segs"
    unfolding dir_of_def by (rule map_of_zip_id) (simp del: upt_Suc)
  have "map (file_events (dir_of c segs)) ?ns =
      map (\<lambda>v. case v of None \<Rightarrow> [] | Some f \<Rightarrow> sf_events f) (map (map_of (dir_of c segs)) ?ns)"
    by (simp add: file_events_def)
  also have "\<dots> = map sf_events segs" unfolding m by (simp add: comp_def)
  finally show ?thesis
    unfolding read_events_def collect_dir_of [OF assms] assms(4) segment_log_def by simp
qed

lemma change_file_new: "name \<notin> fst ` set dir \<Longrightarrow> change_file name g dir = dir @ [(name, g empty_file)]"
  by (induction name g dir rule: change_file.induct) auto

lemma change_file_last:
  "name \<notin> fst ` set dir \<Longrightarrow> change_file name g (dir @ [(name, f)]) = dir @ [(name, g f)]"
  by (induction name g dir rule: change_file.induct) auto

lemma fresh_name:
  assumes "plain_names c" "length segs < 9999"
  shows "segment_name c (Suc (length segs)) \<notin> fst ` set (dir_of c segs)"
proof -
  have "fst ` set (dir_of c segs) = segment_name c ` {1..<Suc (length segs)}"
    using dir_of_names [of c segs] by (metis list.set_map set_upt)
  moreover have "segment_name c k \<noteq> segment_name c (Suc (length segs))" if "k \<in> {1..<Suc (length segs)}" for k
    using that assms by (intro segment_name_neq) auto
  ultimately show ?thesis by (metis imageE)
qed

text \<open>A write that leaves no piece of a line behind.\<close>

definition clean_write :: "write_result \<Rightarrow> bool" where
  "clean_write w \<longleftrightarrow> (case w of Written \<Rightarrow> True | Write_Failed _ l \<Rightarrow> l = Not_Opened \<or> l = No_Bytes)"

lemma write_line_clean:
  assumes "clean_write w" "whole_file f"
  shows "whole_file (write_line e w f) \<and> sf_events (write_line e w f) = sf_events f @ (if w = Written then [e] else [])"
  using assms
  by (cases w) (auto simp: clean_write_def whole_file_def sf_events_def joined_def map_filter_Some split: leftover.splits)

lemma whole_empty: "whole_file empty_file \<and> sf_events empty_file = []"
  by (simp add: whole_file_def empty_file_def sf_events_def List.map_filter_simps)

lemma append_dir_of:
  assumes "plain_names c" "length segs < 9999" "seg = length segs \<and> segs \<noteq> [] \<or> seg = Suc (length segs)"
    and "list_all whole_file segs" "clean_write w"
  shows "\<exists>segs'. append_file (segment_name c seg) e w (dir_of c segs) = dir_of c segs' \<and> list_all whole_file segs'
    \<and> (seg = length segs' \<and> segs' \<noteq> [] \<or> seg = Suc (length segs')) \<and> (w = Written \<longrightarrow> seg = length segs')
    \<and> segment_log segs' = segment_log segs @ (if w = Written then [e] else [])"
proof (cases "opens_file w")
  case False
  then show ?thesis using assms(3,4) by (intro exI [of _ segs]) (auto simp: append_file_def opens_file_def)
next
  case True
  then have a: "append_file n e w d = change_file n (write_line e w) d" for n d
    by (simp add: append_file_def)
  from assms(3) show ?thesis
  proof
    assume s: "seg = length segs \<and> segs \<noteq> []"
    then obtain ss f where segs: "segs = ss @ [f]" by (metis rev_exhaust)
    have "segment_name c seg \<notin> fst ` set (dir_of c ss)"
      using fresh_name [of c ss] assms(1,2) s segs by simp
    then have "change_file (segment_name c seg) (write_line e w) (dir_of c segs) = dir_of c (ss @ [write_line e w f])"
      using s by (simp add: segs dir_of_snoc change_file_last)
    moreover have "whole_file f" using assms(4) segs by simp
    ultimately show ?thesis
      using s segs assms(4) write_line_clean [OF assms(5), of f e]
      by (intro exI [of _ "ss @ [write_line e w f]"]) (simp add: a segment_log_def)
  next
    assume s: "seg = Suc (length segs)"
    then have "change_file (segment_name c seg) (write_line e w) (dir_of c segs)
        = dir_of c (segs @ [write_line e w empty_file])"
      using fresh_name [OF assms(1,2)] by (simp add: dir_of_snoc change_file_new)
    then show ?thesis
      using s assms(4) whole_empty write_line_clean [OF assms(5), of empty_file e]
      by (intro exI [of _ "segs @ [write_line e w empty_file]"]) (simp add: a segment_log_def)
  qed
qed

section \<open>The invariant of appending\<close>

lemma verify_from_snoc:
  "verify_from H p (es @ [e]) \<longleftrightarrow> verify_from H p es
     \<and> (case (if es = [] then p else Some (ce_hash (last es))) of Some h \<Rightarrow> ce_prev_hash e = h | None \<Rightarrow> True)
     \<and> \<not> ce_hash_version e > 1 \<and> compute_event_hash H e = ce_hash e"
  by (induction H p es rule: verify_from.induct) (auto split: option.splits)

definition chain_inv :: "(string \<Rightarrow> string) \<Rightarrow> chain_config \<Rightarrow> nat \<Rightarrow> audit_chain \<Rightarrow> bool" where
  "chain_inv H c n s \<longleftrightarrow> ac_config s = c \<and> (\<exists>segs. ac_dir s = dir_of c segs \<and> list_all whole_file segs
     \<and> (unat (ac_segment_count s) = length segs \<and> segs \<noteq> [] \<or> unat (ac_segment_count s) = Suc (length segs))
     \<and> unat (ac_segment_count s) \<le> Suc n
     \<and> verify_chain H (segment_log segs)
     \<and> (segment_log segs = [] \<or> ac_last_hash s = ce_hash (last (segment_log segs))))"

datatype chain_op = Append append_env event_fields "string option" | CloseChain

fun chain_step :: "(string \<Rightarrow> string) \<Rightarrow> audit_chain \<Rightarrow> chain_op \<Rightarrow> audit_chain" where
  "chain_step H s (Append env f sign) = fst (append_with_sign H env f sign s)"
| "chain_step H s CloseChain = close_chain s"

fun clean_op :: "chain_op \<Rightarrow> bool" where
  "clean_op (Append env f sign) \<longleftrightarrow> clean_write (ae_write env)"
| "clean_op CloseChain \<longleftrightarrow> True"

text \<open>The events a run of operations acknowledged to its callers, in order.\<close>

fun acknowledged :: "(string \<Rightarrow> string) \<Rightarrow> audit_chain \<Rightarrow> chain_op list \<Rightarrow> chain_event list" where
  "acknowledged H s [] = []"
| "acknowledged H s (Append env f sign # ops) =
     (case append_with_sign H env f sign s of
        (s', Inr e) \<Rightarrow> e # acknowledged H s' ops
      | (s', Inl _) \<Rightarrow> acknowledged H s' ops)"
| "acknowledged H s (CloseChain # ops) = acknowledged H (close_chain s) ops"

lemma new_event_verifies:
  "compute_event_hash H (new_event H env f sign p) = ce_hash (new_event H env f sign p)"
  "\<not> ce_hash_version (new_event H env f sign p) > 1" "ce_prev_hash (new_event H env f sign p) = p"
  by (simp_all add: compute_event_hash_def event_text_def new_event_def)

lemma append_inv:
  assumes "plain_names c" "chain_inv H c n s" "n < 9998" "clean_write (ae_write env)"
    and "append_with_sign H env f sign s = (s', r)"
  shows "chain_inv H c (Suc n) s'
    \<and> read_events s' = read_events s @ (case r of Inr e \<Rightarrow> [e] | Inl _ \<Rightarrow> [])"
proof -
  obtain segs where c: "ac_config s = c" and dir: "ac_dir s = dir_of c segs" and whole: "list_all whole_file segs"
    and seg: "unat (ac_segment_count s) = length segs \<and> segs \<noteq> [] \<or> unat (ac_segment_count s) = Suc (length segs)"
    and le: "unat (ac_segment_count s) \<le> Suc n" and ver: "verify_chain H (segment_log segs)"
    and last: "segment_log segs = [] \<or> ac_last_hash s = ce_hash (last (segment_log segs))"
    using assms(2) by (auto simp: chain_inv_def)
  have short: "length segs < 9999" using seg le assms(3) by auto
  have read: "read_events s = segment_log segs"
    by (rule read_dir_of [OF assms(1) _ c dir]) (use short in simp)
  show ?thesis
  proof (cases "ac_closed s")
    case True
    then have "s' = s" "\<exists>e. r = Inl e" using assms(5) by (auto simp: append_with_sign_def)
    moreover have "chain_inv H c (Suc n) s" using assms(2) by (auto simp: chain_inv_def)
    ultimately show ?thesis by auto
  next
    case False
    let ?e = "new_event H env f sign (ac_last_hash s)" and ?w = "ae_write env"
    let ?dir = "append_file (get_current_segment_path s) ?e ?w (ac_dir s)"
    obtain segs' where s': "?dir = dir_of c segs'" "list_all whole_file segs'"
      "unat (ac_segment_count s) = length segs' \<and> segs' \<noteq> [] \<or> unat (ac_segment_count s) = Suc (length segs')"
      "?w = Written \<longrightarrow> unat (ac_segment_count s) = length segs'"
      "segment_log segs' = segment_log segs @ (if ?w = Written then [?e] else [])"
      using append_dir_of [OF assms(1) short seg whole assms(4), of ?e] by (auto simp: get_current_segment_path_def c dir)
    have len: "length segs' \<le> 9999" using s'(3) le assms(3) by auto
    show ?thesis
    proof (cases ?w)
      case (Write_Failed x l)
      then have r: "r = Inl (PersistFailed x)" and st: "s' = s\<lparr>ac_dir := ?dir\<rparr>"
        using assms(5) False by (simp_all add: append_with_sign_def Let_def)
      have "read_events s' = segment_log segs'"
        by (rule read_dir_of [OF assms(1) len]) (use st s'(1) c in simp_all)
      moreover have "chain_inv H c (Suc n) s'"
        unfolding chain_inv_def using st s' Write_Failed c le ver last by (auto intro!: exI [of _ segs'])
      ultimately show ?thesis using r read s'(5) Write_Failed by simp
    next
      case Written
      have ne: "segs' \<noteq> []" using s'(3,4) Written by auto
      have v: "verify_chain H (segment_log segs')"
        using ver last new_event_verifies [of H env f sign "ac_last_hash s"]
        by (auto simp: s'(5) Written verify_chain_def verify_from_snoc)
      have r: "r = Inr ?e" and fields: "ac_config s' = c" "ac_dir s' = ?dir" "ac_last_hash s' = ce_hash ?e"
        and cnt: "ac_segment_count s' = ac_segment_count s \<or> ac_segment_count s' = ac_segment_count s + 1"
        using assms(5) False Written by (auto simp: append_with_sign_def Let_def rotate_segment_def c split: if_splits)
      have inc: "unat (ac_segment_count s + 1) = Suc (unat (ac_segment_count s))"
        using le assms(3) unat_add_lem [of "ac_segment_count s" 1] by simp
      have "chain_inv H c (Suc n) s'"
        unfolding chain_inv_def
      proof (intro conjI exI [of _ segs'])
        show "unat (ac_segment_count s') = length segs' \<and> segs' \<noteq> [] \<or> unat (ac_segment_count s') = Suc (length segs')"
          using cnt inc s'(4) Written ne by auto
        show "unat (ac_segment_count s') \<le> Suc (Suc n)" using cnt inc le by auto
        show "segment_log segs' = [] \<or> ac_last_hash s' = ce_hash (last (segment_log segs'))"
          using fields s'(5) Written by simp
      qed (use fields s'(1,2) v in simp_all)
      moreover have "read_events s' = segment_log segs'"
        using fields s'(1) by (intro read_dir_of [OF assms(1) len]) auto
      ultimately show ?thesis using read s'(5) r Written by simp
    qed
  qed
qed

lemma close_inv:
  "chain_inv H c n s \<Longrightarrow> chain_inv H c (Suc n) (close_chain s)" "read_events (close_chain s) = read_events s"
  by (auto simp: chain_inv_def close_chain_def read_events_def collect_segment_files_def)

lemma run_inv:
  assumes "plain_names c" "chain_inv H c n s" "n + length ops < 9999" "list_all clean_op ops"
  shows "chain_inv H c (n + length ops) (run_events (chain_step H) s ops)
    \<and> read_events (run_events (chain_step H) s ops) = read_events s @ acknowledged H s ops"
  using assms(2,3,4)
proof (induction H s ops arbitrary: n rule: acknowledged.induct)
  case (1 H s)
  then show ?case by simp
next
  case (2 H s env f sign ops)
  obtain s' r where a: "append_with_sign H env f sign s = (s', r)" by fastforce
  have i: "chain_inv H c (Suc n) s' \<and> read_events s' = read_events s @ (case r of Inr e \<Rightarrow> [e] | Inl _ \<Rightarrow> [])"
    by (rule append_inv [OF assms(1) 2(3) _ _ a]) (use 2(4,5) in simp_all)
  show ?case
  proof (cases r)
    case (Inl x)
    show ?thesis using 2(1) [OF a [symmetric] Inl, of "Suc n"] i 2(4,5) by (simp add: a Inl)
  next
    case (Inr e)
    show ?thesis using 2(2) [OF a [symmetric] Inr, of "Suc n"] i 2(4,5) by (simp add: a Inr)
  qed
next
  case (3 H s ops)
  show ?case using 3(1) [OF close_inv(1) [OF 3(2)]] close_inv(2) [of s] 3(3,4) by simp
qed

lemma new_inv: "chain_inv H c 0 (chain_new c [])"
  by (auto simp: chain_inv_def chain_new_def dir_of_def segment_log_def verify_chain_def
      intro!: exI [of _ "[]"])

lemma chain_inv_verifies:
  assumes "plain_names c" "chain_inv H c n s" "n < 9999"
  shows "verify_chain H (read_events s)"
    and "read_events s = [] \<or> ac_last_hash s = ce_hash (last (read_events s))"
proof -
  obtain segs where s: "ac_config s = c" "ac_dir s = dir_of c segs" "verify_chain H (segment_log segs)"
      "segment_log segs = [] \<or> ac_last_hash s = ce_hash (last (segment_log segs))"
    and len: "unat (ac_segment_count s) \<le> Suc n" "length segs \<le> unat (ac_segment_count s)"
    using assms(2) by (auto simp: chain_inv_def)
  have "read_events s = segment_log segs"
    by (rule read_dir_of [OF assms(1) _ s(1,2)]) (use len assms(3) in linarith)
  with s show "verify_chain H (read_events s)"
    "read_events s = [] \<or> ac_last_hash s = ce_hash (last (read_events s))" by simp_all
qed

section \<open>Properties\<close>

text \<open>
  C8. The log on disk is what was acknowledged, and it verifies. From a fresh chain in an empty directory (with a file
  name that does not contain the segment mark itself), after any sequence of fewer than 9999 appends and closes in one
  process, in which every write that fails leaves no byte of its line behind (it could not open the file, or wrote
  nothing), reading the segment files back in name order gives exactly the events whose append returned Ok, in order,
  across every rotation and every failed write; the list passes \<open>verify_chain\<close> and the chain's tail is the hash of its
  last event. (A write that fails in the middle of a line is another matter: \<open>torn_write_swallows_next\<close>.)
\<close>

theorem log_is_acknowledged:
  assumes "plain_names c" and "length ops < 9999" and "list_all clean_op ops"
  shows "let s = run_events (chain_step H) (chain_new c []) ops in
    read_events s = acknowledged H (chain_new c []) ops \<and> verify_chain H (read_events s)
    \<and> (read_events s = [] \<or> ac_last_hash s = ce_hash (last (read_events s)))"
proof -
  have r: "read_events (chain_new c []) = []"
    by (simp add: read_events_def collect_segment_files_def chain_new_def)
  have inv: "chain_inv H c (length ops) (run_events (chain_step H) (chain_new c []) ops)"
    using run_inv [OF assms(1) new_inv, of ops H] assms(2,3) by simp
  show ?thesis
    using run_inv [OF assms(1) new_inv, of ops H] assms(2,3) r
      chain_inv_verifies [OF assms(1) inv assms(2)]
    by (simp add: Let_def)
qed

definition sample_fields :: "string \<Rightarrow> string \<Rightarrow> event_fields" where
  "sample_fields user target = \<lparr>ef_operation = ''file_write'', ef_tool_name = ''write_file'', ef_user = user,
     ef_source = ''web'', ef_target = target, ef_decision = ''allowed'', ef_reason = ''ok''\<rparr>"

definition ok_env :: "string \<Rightarrow> append_env" where
  "ok_env now = \<lparr>ae_now = now, ae_uuid = ''u'', ae_write = Written\<rparr>"

definition full_env :: append_env where
  "full_env = \<lparr>ae_now = ''t'', ae_uuid = ''u'', ae_write = Write_Failed ''disk full'' No_Bytes\<rparr>"

definition one_per_segment :: chain_config where
  "one_per_segment = default_chain_config\<lparr>cc_max_events_per_segment := 1\<rparr>"

text \<open>A digest for evaluation: it keeps the digits of a text.\<close>

definition sample_digest :: "string \<Rightarrow> string" where
  "sample_digest s = filter (\<lambda>c. c = CHR ''1'' \<or> c = CHR ''2'' \<or> c = CHR ''3'') s"

lemma log_is_acknowledged_witness:
  "verify_chain sample_digest (read_events (run_events (chain_step sample_digest) (chain_new one_per_segment [])
      [Append (ok_env ''t1'') (sample_fields ''a'' ''b'') None, Append full_env (sample_fields ''a'' ''c'') None,
       Append (ok_env ''t2'') (sample_fields ''a'' ''d'') None]))"
proof -
  let ?ops = "[Append (ok_env ''t1'') (sample_fields ''a'' ''b'') None, Append full_env (sample_fields ''a'' ''c'') None,
      Append (ok_env ''t2'') (sample_fields ''a'' ''d'') None]"
  have "plain_names one_per_segment" by code_simp
  moreover have "length ?ops < 9999" by simp
  moreover have "list_all clean_op ?ops" by code_simp
  ultimately show ?thesis
    using log_is_acknowledged [of one_per_segment ?ops sample_digest] unfolding Let_def by blast
qed

lemma verify_chain_snoc:
  "verify_chain H (es @ [e]) \<longleftrightarrow> verify_chain H es \<and> (es = [] \<or> ce_prev_hash e = ce_hash (last es))
     \<and> \<not> ce_hash_version e > 1 \<and> H (event_text e) = ce_hash e"
  by (auto simp: verify_chain_def verify_from_snoc compute_event_hash_def)

lemma event_text_prev: "take (length (ce_prev_hash e)) (event_text e) = ce_prev_hash e"
  by (simp add: event_text_def)

lemma same_tail_same_texts:
  assumes "inj_on H (event_text ` S)" and "\<forall>e\<in>S. length (ce_prev_hash e) = n"
  shows "verify_chain H es \<Longrightarrow> verify_chain H fs \<Longrightarrow> length es = length fs \<Longrightarrow> set es \<union> set fs \<subseteq> S \<Longrightarrow>
    es = [] \<or> ce_hash (last es) = ce_hash (last fs) \<Longrightarrow> map event_text es = map event_text fs"
proof (induction es arbitrary: fs rule: rev_induct)
  case Nil
  then show ?case by simp
next
  case (snoc e es)
  then obtain f gs where fs: "fs = gs @ [f]" by (metis length_0_conv rev_exhaust snoc_eq_iff_butlast)
  have S: "e \<in> S" "f \<in> S" "set es \<union> set gs \<subseteq> S" using snoc.prems(4) fs by auto
  have "H (event_text e) = H (event_text f)"
    using snoc.prems(1,2,5) by (simp add: fs verify_chain_snoc)
  then have eq: "event_text e = event_text f" using assms(1) S by (meson imageI inj_onD)
  then have "ce_prev_hash e = ce_prev_hash f" using assms(2) S event_text_prev by metis
  then have "es = [] \<or> ce_hash (last es) = ce_hash (last gs)"
    using snoc.prems(1-3) by (auto simp: fs verify_chain_snoc)
  moreover have "length es = length gs" using snoc.prems(3) fs by simp
  ultimately have "map event_text es = map event_text gs"
    using snoc.IH [of gs] snoc.prems(1,2) S(3) by (simp add: fs verify_chain_snoc)
  with eq fs show ?case by simp
qed

text \<open>
  The fields a hash covers, in its order: the link, and for events of version 1 also the source and the reason. The
  list is written out here independently of the text the digest is given.
\<close>

definition covered_fields :: "chain_event \<Rightarrow> string list" where
  "covered_fields e = [ce_prev_hash e, ce_timestamp e, ce_operation e, ce_tool_name e, ce_user e, ce_target e, ce_decision e]
     @ (if ce_hash_version e = 0 then [] else [ce_source e, ce_reason e])"

lemma event_text_fields: "event_text e = concat (covered_fields e)"
proof -
  have "1 \<le> ce_hash_version e \<longleftrightarrow> ce_hash_version e \<noteq> 0" by (simp add: word_le_nat_alt unat_eq_0 Suc_le_eq unat_gt_0)
  then show ?thesis by (simp add: event_text_def covered_fields_def)
qed

lemma concat_pieces: "map length xs = map length ys \<Longrightarrow> concat xs = concat ys \<Longrightarrow> xs = ys"
  by (induction xs arbitrary: ys) auto

lemma one_piece:
  assumes "concat xs = concat ys" "length xs = length ys" "\<forall>j < length xs. j \<noteq> k \<longrightarrow> xs ! j = ys ! j"
  shows "xs = ys"
proof (cases "k < length xs")
  case True
  then have x: "xs = take k xs @ xs ! k # drop (Suc k) xs" and y: "ys = take k ys @ ys ! k # drop (Suc k) ys"
    using assms(2) by (simp_all add: id_take_nth_drop)
  have t: "take k xs = take k ys" "drop (Suc k) xs = drop (Suc k) ys"
    using assms(2,3) True by (auto intro!: nth_equalityI)
  have "concat (take k xs @ xs ! k # drop (Suc k) xs) = concat (take k ys @ ys ! k # drop (Suc k) ys)"
    using assms(1) x y by metis
  then have "xs ! k = ys ! k" unfolding t by simp
  with assms show ?thesis by (metis nth_equalityI)
qed (use assms in \<open>auto intro: nth_equalityI\<close>)

text \<open>
  C9. Tampering shows. Two logs of the same length that both verify and end in the same hash, if the digest has no
  collision among their texts and every link has the width of a digest: at every position the links are the same, and
  so is everything the hashes cover as one text; if the covered fields of the two events have the same lengths they are
  the same fields, and two events of one hash version cannot differ in exactly one covered field. So whoever changes
  a single timestamp, operation, tool, user, target, decision, source, reason or link cannot keep the tail.
\<close>

theorem tampering_shows:
  assumes "inj_on H (event_text ` (set es \<union> set fs))"
    and "verify_chain H es" and "verify_chain H fs" and "length es = length fs"
    and "es = [] \<or> ce_hash (last es) = ce_hash (last fs)"
    and "\<forall>e\<in>set es \<union> set fs. length (ce_prev_hash e) = n" and "i < length es"
  shows "ce_prev_hash (es ! i) = ce_prev_hash (fs ! i) \<and> concat (covered_fields (es ! i)) = concat (covered_fields (fs ! i)) \<and>
    (map length (covered_fields (es ! i)) = map length (covered_fields (fs ! i)) \<longrightarrow>
       covered_fields (es ! i) = covered_fields (fs ! i)) \<and>
    (ce_hash_version (es ! i) = ce_hash_version (fs ! i) \<longrightarrow>
       \<not> (\<exists>k < length (covered_fields (es ! i)). covered_fields (es ! i) ! k \<noteq> covered_fields (fs ! i) ! k \<and>
            (\<forall>j < length (covered_fields (es ! i)). j \<noteq> k \<longrightarrow> covered_fields (es ! i) ! j = covered_fields (fs ! i) ! j)))"
proof -
  have "map event_text es = map event_text fs"
    using same_tail_same_texts [OF assms(1,6,2-4) _ assms(5)] by simp
  then have t: "event_text (es ! i) = event_text (fs ! i)" using assms(4,7) by (metis nth_map)
  have m: "es ! i \<in> set es \<union> set fs" "fs ! i \<in> set es \<union> set fs" using assms(4,7) by simp_all
  with assms(6) have w: "length (ce_prev_hash (es ! i)) = length (ce_prev_hash (fs ! i))" by metis
  then have "ce_prev_hash (es ! i) = ce_prev_hash (fs ! i)" using t event_text_prev by metis
  moreover have c: "concat (covered_fields (es ! i)) = concat (covered_fields (fs ! i))"
    using t by (simp add: event_text_fields)
  moreover have "length (covered_fields (es ! i)) = length (covered_fields (fs ! i))"
    if "ce_hash_version (es ! i) = ce_hash_version (fs ! i)" using that by (simp add: covered_fields_def)
  ultimately show ?thesis using concat_pieces one_piece by metis
qed

definition two_events :: "chain_event list" where
  "two_events = acknowledged sample_digest (chain_new one_per_segment [])
     [Append (ok_env ''t1'') (sample_fields ''a'' ''b'') None, Append (ok_env ''t2'') (sample_fields ''a'' ''d'') None]"

lemma tampering_shows_witness:
  "covered_fields (hd two_events) = covered_fields ((hd two_events)\<lparr>ce_id := ''other''\<rparr>)"
proof -
  let ?f = "(hd two_events)\<lparr>ce_id := ''other''\<rparr>"
  have v: "verify_chain sample_digest [hd two_events]" "verify_chain sample_digest [?f]" by code_simp+
  have c: "map length (covered_fields (hd two_events)) = map length (covered_fields ?f)" by code_simp
  have "inj_on sample_digest (event_text ` (set [hd two_events] \<union> set [?f]))"
    "[hd two_events] = [] \<or> ce_hash (last [hd two_events]) = ce_hash (last [?f])"
    "\<forall>e\<in>set [hd two_events] \<union> set [?f]. length (ce_prev_hash e) = length (ce_prev_hash (hd two_events))"
    by (simp_all add: event_text_def inj_on_def)
  from tampering_shows [OF this(1) v _ this(2,3), of 0] c show ?thesis by simp
qed

text \<open>
  What it does not show. The hashed fields are joined without separators, so moving the last
  characters of the user to the front of the target leaves the hash as it was: the altered log verifies
  with any digest. And the event's identifier and signature are not hashed at all.
\<close>

theorem field_boundaries_unprotected:
  assumes "ce_user e = u @ v"
  shows "verify_chain H (es @ e # fs) \<longleftrightarrow>
    verify_chain H (es @ e\<lparr>ce_user := u, ce_target := v @ ce_target e, ce_id := i, ce_sign := sg\<rparr> # fs)"
proof -
  let ?e = "e\<lparr>ce_user := u, ce_target := v @ ce_target e, ce_id := i, ce_sign := sg\<rparr>"
  have h: "compute_event_hash H ?e = compute_event_hash H e"
    by (simp add: compute_event_hash_def event_text_def assms(1))
  have "verify_from H p (es @ e # fs) = verify_from H p (es @ ?e # fs)" for p
    by (induction es arbitrary: p) (auto simp: h split: option.splits)
  then show ?thesis by (simp add: verify_chain_def)
qed

lemma field_boundaries_unprotected_witness:
  "verify_chain sample_digest ([] @ (hd two_events)\<lparr>ce_user := ''a'', ce_target := ''b''\<rparr> # [])
   \<longleftrightarrow> verify_chain sample_digest ([] @ (hd two_events)\<lparr>ce_user := [], ce_target := ''ab'',
         ce_id := ''x'', ce_sign := None\<rparr> # [])"
  using field_boundaries_unprotected [of "(hd two_events)\<lparr>ce_user := ''a'', ce_target := ''b''\<rparr>" "[]" "''a''"
      sample_digest "[]" "[]" None "''x''"] by simp

text \<open>
  A restart after a rotation breaks the order. \<open>load_segments\<close> restores the tail and the total but not
  the segment number, so the next append goes to the first file, whose events are read before those of the
  later segments: with one event per segment, two appends, a restart and a third append give a log that
  does not verify although every append returned Ok.
\<close>

theorem restart_after_rotation_breaks:
  "let s = run_events (chain_step sample_digest) (chain_new one_per_segment [])
         [Append (ok_env ''t1'') (sample_fields ''a'' ''b'') None, Append (ok_env ''t2'') (sample_fields ''a'' ''c'') None];
       r = fst (load_segments (chain_new one_per_segment (ac_dir s)));
       r' = chain_step sample_digest r (Append (ok_env ''t3'') (sample_fields ''a'' ''d'') None)
   in verify_chain sample_digest (read_events r) \<and> ac_last_hash r = ac_last_hash s
     \<and> \<not> verify_chain sample_digest (read_events r')
     \<and> map ce_target (read_events r') = [''b'', ''d'', ''c'']"
  by code_simp

text \<open>
  A write that fails in the middle of its line takes the next acknowledged event with it: the next line is written
  directly behind the piece and the two together are no event. The caller of that append got Ok, but the log read back
  has a gap and no longer verifies. If the cut is inside a character, the whole file is passed over.
\<close>

definition torn_env :: "bool \<Rightarrow> append_env" where
  "torn_env inside = \<lparr>ae_now = ''t'', ae_uuid = ''u'', ae_write = Write_Failed ''disk full'' (Piece_Of_Line inside)\<rparr>"

lemma torn_write_swallows_next:
  "let ops = (\<lambda>inside. [Append (ok_env ''t1'') (sample_fields ''a'' ''b'') None, Append (torn_env inside) (sample_fields ''a'' ''c'') None,
         Append (ok_env ''t2'') (sample_fields ''a'' ''d'') None, Append (ok_env ''t3'') (sample_fields ''a'' ''e'') None]);
       new = chain_new default_chain_config [];
       log = (\<lambda>inside. read_events (run_events (chain_step sample_digest) new (ops inside)))
   in map ce_target (acknowledged sample_digest new (ops False)) = [''b'', ''d'', ''e'']
     \<and> map ce_target (log False) = [''b'', ''e''] \<and> \<not> verify_chain sample_digest (log False) \<and> log True = []"
  by code_simp

text \<open>
  A range of one event is never checked: \<open>verify_range\<close> answers true for it even when the event's hash
  is wrong; and the largest upper bound wraps to an empty range.
\<close>

theorem short_range_unchecked:
  "let s = chain_new default_chain_config [(''audit_chain.jsonl'',
         empty_file\<lparr>sf_lines := [EventLine ((hd two_events)\<lparr>ce_hash := ''forged''\<rparr>), EventLine (hd two_events)]\<rparr>)]
   in verify_range sample_digest s 0 0 \<and> \<not> verify_range sample_digest s 0 1
     \<and> \<not> verify_chain sample_digest (read_events_range s 0 1) \<and> verify_range sample_digest s 0 (- 1)"
  by code_simp

end
