(* ===== verification/Merkle.thy ===== *)
theory Merkle
  imports Prelude
begin

text \<open>
  \<open>crates/nemesis-security/src/merkle.rs\<close>: the binary Merkle tree of the audit log. The digest function
  (crate \<open>sha2\<close>, printed as 64 hexadecimal characters) is the argument \<open>H\<close>; bytes are characters. The
  tree keeps its leaf hashes and its root, and rebuilds the root level by level.
\<close>

section \<open>The tree\<close>

definition sha256_hex :: "(string \<Rightarrow> string) \<Rightarrow> string \<Rightarrow> string" where
  "sha256_hex H data = H data"

definition sha256_pair_hex :: "(string \<Rightarrow> string) \<Rightarrow> string \<Rightarrow> string \<Rightarrow> string" where
  "sha256_pair_hex H a b = H (a @ b)"

datatype proof_step = Step (step_hash: string) (step_direction: string)

record merkle_tree =
  mt_leaves :: "string list"
  mt_root :: string

fun next_level :: "(string \<Rightarrow> string) \<Rightarrow> string list \<Rightarrow> string list" where
  "next_level H [] = []"
| "next_level H [x] = [x]"
| "next_level H (x # y # rest) = sha256_pair_hex H x y # next_level H rest"

lemma next_level_length [simp]: "length (next_level H level) = (length level + 1) div 2"
  by (induction H level rule: next_level.induct) auto

function climb :: "(string \<Rightarrow> string) \<Rightarrow> string list \<Rightarrow> string" where
  "climb H level = (if length level > 1 then climb H (next_level H level) else hd level)"
  by pat_completeness auto
termination
  by (relation "measure (\<lambda>(H, level). length level)") auto

declare climb.simps [simp del]

definition rebuild_root :: "(string \<Rightarrow> string) \<Rightarrow> string list \<Rightarrow> string" where
  "rebuild_root H leaves = (if leaves = [] then sha256_hex H [] else climb H leaves)"

definition merkle_new :: "(string \<Rightarrow> string) \<Rightarrow> merkle_tree" where
  "merkle_new H = \<lparr>mt_leaves = [], mt_root = sha256_hex H []\<rparr>"

definition add_leaf :: "(string \<Rightarrow> string) \<Rightarrow> string \<Rightarrow> merkle_tree \<Rightarrow> merkle_tree \<times> string" where
  "add_leaf H data t =
     (let leaf_hash = sha256_hex H data; leaves = mt_leaves t @ [leaf_hash] in
      (\<lparr>mt_leaves = leaves, mt_root = rebuild_root H leaves\<rparr>, leaf_hash))"

text \<open>
  One pass of \<open>build_proof\<close> over a level: \<open>i\<close> is the loop's position, \<open>n\<close> the length of the next
  level so far, \<open>next_idx\<close> the loop's variable of that name.
\<close>

fun proof_scan :: "nat \<Rightarrow> nat \<Rightarrow> nat \<Rightarrow> nat \<Rightarrow> string list \<Rightarrow> proof_step list \<times> nat" where
  "proof_scan idx i n next_idx [] = ([], next_idx)"
| "proof_scan idx i n next_idx [x] = ([], if i = idx then n else next_idx)"
| "proof_scan idx i n next_idx (x # y # rest) =
     (if i = idx then
        (let (steps, k) = proof_scan idx (i + 2) (n + 1) n rest in (Step y ''right'' # steps, k))
      else if i + 1 = idx then
        (let (steps, k) = proof_scan idx (i + 2) (n + 1) n rest in (Step x ''left'' # steps, k))
      else proof_scan idx (i + 2) (n + 1) next_idx rest)"

function build_proof :: "(string \<Rightarrow> string) \<Rightarrow> string list \<Rightarrow> nat \<Rightarrow> proof_step list" where
  "build_proof H level idx =
     (if length level > 1 then
        (let (steps, k) = proof_scan idx 0 0 0 level in steps @ build_proof H (next_level H level) k)
      else [])"
  by pat_completeness auto
termination
  by (relation "measure (\<lambda>(H, level, idx). length level)") auto

declare build_proof.simps [simp del]

datatype merkle_error = IndexOutOfRange nat nat

definition merkle_proof ::
  "(string \<Rightarrow> string) \<Rightarrow> merkle_tree \<Rightarrow> nat \<Rightarrow> merkle_error + proof_step list" where
  "merkle_proof H t leaf_index =
     (if leaf_index \<ge> length (mt_leaves t)
      then Inl (IndexOutOfRange leaf_index (length (mt_leaves t)))
      else if length (mt_leaves t) = 1 then Inr []
      else Inr (build_proof H (mt_leaves t) leaf_index))"

fun verify_path :: "(string \<Rightarrow> string) \<Rightarrow> string \<Rightarrow> proof_step list \<Rightarrow> string option" where
  "verify_path H current [] = Some current"
| "verify_path H current (Step h d # steps) =
     (if d = ''left'' then verify_path H (sha256_pair_hex H h current) steps
      else if d = ''right'' then verify_path H (sha256_pair_hex H current h) steps
      else None)"

definition verify_from_hash :: "(string \<Rightarrow> string) \<Rightarrow> string \<Rightarrow> proof_step list \<Rightarrow> string \<Rightarrow> bool" where
  "verify_from_hash H leaf_hash steps root = (verify_path H leaf_hash steps = Some root)"

definition merkle_verify :: "(string \<Rightarrow> string) \<Rightarrow> merkle_tree \<Rightarrow> string \<Rightarrow> proof_step list \<Rightarrow> bool" where
  "merkle_verify H t leaf_data steps = verify_from_hash H (sha256_hex H leaf_data) steps (mt_root t)"

section \<open>Completeness of proofs\<close>

text \<open>The scan of one level emits the sibling of the index, if it has one, and halves the index.\<close>

lemma proof_scan_past: "idx < i \<Longrightarrow> proof_scan idx i n k level = ([], k)"
  by (induction idx i n k level rule: proof_scan.induct) auto

lemma proof_scan_hit:
  assumes "i \<le> idx" "idx < i + length level" "even (idx - i)"
  shows "proof_scan idx i n k level =
    (if idx + 1 < i + length level then [Step (level ! (idx + 1 - i)) ''right''] else [], n + (idx - i) div 2)"
  using assms
proof (induction idx i n k level rule: proof_scan.induct)
  case (3 idx i n next_idx x y rest)
  show ?case
  proof (cases "i = idx")
    case True
    then show ?thesis by (simp add: proof_scan_past)
  next
    case False
    with 3(4,6) have ge: "i + 2 \<le> idx" by presburger
    then have d: "idx - i = Suc (Suc (idx - (i + 2)))" "idx + 1 - i = Suc (Suc (idx + 1 - (i + 2)))" by linarith+
    have "even (idx - (i + 2))" using 3(6) d by simp
    then have "proof_scan idx (i + 2) (n + 1) next_idx rest =
        (if idx + 1 < i + 2 + length rest then [Step (rest ! (idx + 1 - (i + 2))) ''right''] else [],
         n + 1 + (idx - (i + 2)) div 2)"
      using 3 False ge by simp
    then show ?thesis using False ge d by simp
  qed
qed auto

lemma proof_scan_hit_odd:
  assumes "i \<le> idx" "idx < i + length level" "odd (idx - i)"
  shows "proof_scan idx i n k level = ([Step (level ! (idx - 1 - i)) ''left''], n + (idx - i) div 2)"
  using assms
proof (induction idx i n k level rule: proof_scan.induct)
  case (3 idx i n next_idx x y rest)
  show ?case
  proof (cases "i + 1 = idx")
    case True
    then show ?thesis by (auto simp: proof_scan_past)
  next
    case False
    with 3(4,6) have ge: "i + 3 \<le> idx" by presburger
    then have d: "idx - i = Suc (Suc (idx - (i + 2)))" "idx - 1 - i = Suc (Suc (idx - 1 - (i + 2)))" by linarith+
    have "odd (idx - (i + 2))" using 3(6) d by simp
    then have "proof_scan idx (i + 2) (n + 1) next_idx rest =
        ([Step (rest ! (idx - 1 - (i + 2))) ''left''], n + 1 + (idx - (i + 2)) div 2)"
      using 3 False ge by simp
    then show ?thesis using False ge d by simp
  qed
qed auto

lemma next_level_nth:
  assumes "idx < length level"
  shows "next_level H level ! (idx div 2) =
    (if odd idx then sha256_pair_hex H (level ! (idx - 1)) (level ! idx)
     else if idx + 1 < length level then sha256_pair_hex H (level ! idx) (level ! (idx + 1))
     else level ! idx)"
  using assms
proof (induction H level arbitrary: idx rule: next_level.induct)
  case (3 H x y rest)
  show ?case
  proof (cases "idx < 2")
    case True
    then show ?thesis by (cases idx) (auto simp: less_2_cases_iff)
  next
    case False
    then obtain j where j: "idx = Suc (Suc j)" by (metis add_2_eq_Suc le_add_diff_inverse not_less)
    show ?thesis using 3(1) [of j] 3(2) by (cases j) (auto simp: j nth_Cons')
  qed
qed auto

lemma build_proof_complete:
  "idx < length level \<Longrightarrow> verify_path H (level ! idx) (build_proof H level idx) = Some (climb H level)"
proof (induction H level idx rule: build_proof.induct)
  case (1 H level idx)
  show ?case
  proof (cases "length level > 1")
    case False
    with 1(2) have "idx = 0" "length level = 1" by linarith+
    then show ?thesis by (cases level) (auto simp: build_proof.simps climb.simps)
  next
    case True
    obtain steps k where sk: "proof_scan idx 0 0 0 level = (steps, k)" by fastforce
    have k: "k = idx div 2"
      using proof_scan_hit [of 0 idx level 0 0] proof_scan_hit_odd [of 0 idx level 0 0] sk 1(2)
      by (cases "even idx") (simp_all split: if_splits)
    have lt: "idx div 2 < length (next_level H level)" using 1(2) by simp
    have IH: "verify_path H (next_level H level ! (idx div 2)) (build_proof H (next_level H level) (idx div 2)) =
        Some (climb H (next_level H level))"
      using 1(1) [OF True sk [symmetric] refl] lt k by simp
    have "verify_path H (level ! idx) (steps @ rest) = verify_path H (next_level H level ! (idx div 2)) rest"
      for rest
      using proof_scan_hit [of 0 idx level 0 0] proof_scan_hit_odd [of 0 idx level 0 0] sk 1(2)
        next_level_nth [OF 1(2), of H]
      by (cases "even idx") (auto split: if_splits)
    then show ?thesis
      using True IH sk k by (simp add: build_proof.simps [of H level] climb.simps [of H level])
  qed
qed

section \<open>The tree as a component\<close>

definition wf_tree :: "(string \<Rightarrow> string) \<Rightarrow> merkle_tree \<Rightarrow> bool" where
  "wf_tree H t \<longleftrightarrow> mt_root t = rebuild_root H (mt_leaves t)"

definition merkle_step :: "(string \<Rightarrow> string) \<Rightarrow> merkle_tree \<Rightarrow> string \<Rightarrow> merkle_tree" where
  "merkle_step H t data = fst (add_leaf H data t)"

interpretation tree: step_invariant "merkle_step H" "wf_tree H" for H
  by unfold_locales (simp add: merkle_step_def add_leaf_def wf_tree_def Let_def)

lemma leaves_of_data: "mt_leaves (run_events (merkle_step H) t ds) = mt_leaves t @ map (sha256_hex H) ds"
  by (induction ds arbitrary: t) (auto simp: merkle_step_def add_leaf_def Let_def)

definition tree_of :: "(string \<Rightarrow> string) \<Rightarrow> string list \<Rightarrow> merkle_tree" where
  "tree_of H ds = run_events (merkle_step H) (merkle_new H) ds"

lemma tree_of_leaves [simp]: "mt_leaves (tree_of H ds) = map (sha256_hex H) ds"
  by (simp add: tree_of_def leaves_of_data merkle_new_def)

lemma tree_of_root: "mt_root (tree_of H ds) = rebuild_root H (map (sha256_hex H) ds)"
proof -
  have "wf_tree H (tree_of H ds)"
    unfolding tree_of_def
    by (rule tree.run_keeps) (simp add: wf_tree_def merkle_new_def rebuild_root_def)
  then show ?thesis by (simp add: wf_tree_def)
qed

text \<open>
  Every leaf has a proof that verifies. For a tree grown by any sequence of insertions and an index
  in range, \<open>proof\<close> succeeds and \<open>verify\<close> accepts the data inserted at that index with it; out of range
  it fails with the index and the size.
\<close>

theorem proofs_complete:
  "if i < length ds
   then (\<exists>steps. merkle_proof H (tree_of H ds) i = Inr steps \<and> merkle_verify H (tree_of H ds) (ds ! i) steps)
   else merkle_proof H (tree_of H ds) i = Inl (IndexOutOfRange i (length ds))"
proof (cases "i < length ds")
  case True
  let ?ls = "map (sha256_hex H) ds"
  have root: "mt_root (tree_of H ds) = climb H ?ls"
    using True by (auto simp: tree_of_root rebuild_root_def)
  have "verify_path H (?ls ! i) (build_proof H ?ls i) = Some (climb H ?ls)"
    by (rule build_proof_complete) (use True in simp)
  moreover have "length ds = 1 \<Longrightarrow> build_proof H ?ls i = []" by (simp add: build_proof.simps)
  ultimately show ?thesis
    using True root
    by (auto simp: merkle_proof_def merkle_verify_def verify_from_hash_def)
next
  case False
  then show ?thesis by (simp add: merkle_proof_def)
qed

section \<open>Soundness of proofs\<close>

text \<open>The texts that are hashed in pairs when the tree is built, and along a proof.\<close>

fun level_pairs :: "string list \<Rightarrow> string list" where
  "level_pairs [] = []"
| "level_pairs [x] = []"
| "level_pairs (x # y # rest) = (x @ y) # level_pairs rest"

function tree_pairs :: "(string \<Rightarrow> string) \<Rightarrow> string list \<Rightarrow> string list" where
  "tree_pairs H level =
     (if length level > 1 then level_pairs level @ tree_pairs H (next_level H level) else [])"
  by pat_completeness auto
termination
  by (relation "measure (\<lambda>(H, level). length level)") auto

declare tree_pairs.simps [simp del]

fun path_pairs :: "(string \<Rightarrow> string) \<Rightarrow> string \<Rightarrow> proof_step list \<Rightarrow> string list" where
  "path_pairs H current [] = []"
| "path_pairs H current (Step h d # steps) =
     (let text = (if d = ''left'' then h @ current else current @ h) in
      text # path_pairs H (H text) steps)"

text \<open>The labels of the tree: the leaves and, level by level, the hashes of pairs of labels.\<close>

inductive_set labels :: "(string \<Rightarrow> string) \<Rightarrow> string list \<Rightarrow> string set" for H and leaves where
  leaf: "x \<in> set leaves \<Longrightarrow> x \<in> labels H leaves"
| pair: "x \<in> labels H leaves \<Longrightarrow> y \<in> labels H leaves \<Longrightarrow> x @ y \<in> set (tree_pairs H leaves) \<Longrightarrow>
    H (x @ y) \<in> labels H leaves"

lemma next_level_labels:
  assumes "v \<in> set (next_level H level)"
  shows "v \<in> set level \<or> (\<exists>x y. x \<in> set level \<and> y \<in> set level \<and> x @ y \<in> set (level_pairs level) \<and> v = H (x @ y))"
  using assms by (induction H level rule: next_level.induct) (auto simp: sha256_pair_hex_def)

lemma climb_label:
  assumes "level \<noteq> []" "set level \<subseteq> labels H leaves" "set (tree_pairs H level) \<subseteq> set (tree_pairs H leaves)"
  shows "climb H level \<in> labels H leaves"
  using assms
proof (induction H level rule: climb.induct)
  case (1 H level)
  show ?case
  proof (cases "length level > 1")
    case False
    then have "length level = 1" using 1(2) by (cases level) auto
    then show ?thesis using 1(3) by (cases level) (auto simp: climb.simps)
  next
    case True
    have pairs: "set (level_pairs level) \<subseteq> set (tree_pairs H leaves)"
      and rest: "set (tree_pairs H (next_level H level)) \<subseteq> set (tree_pairs H leaves)"
      using 1(4) True by (auto simp: tree_pairs.simps [of H level])
    have "set (next_level H level) \<subseteq> labels H leaves"
    proof
      fix v assume "v \<in> set (next_level H level)"
      from next_level_labels [OF this] show "v \<in> labels H leaves"
        using 1(3) pairs by (auto intro: labels.pair)
    qed
    moreover have "next_level H level \<noteq> []" using True next_level_length [of H level] by (cases "next_level H level") auto
    ultimately have "climb H (next_level H level) \<in> labels H leaves" using 1(1) True rest by blast
    then show ?thesis using True by (simp add: climb.simps [of H level])
  qed
qed

text \<open>
  Domain separation: no leaf's data, and not the data in question, is a text that is hashed as a pair.
  It is what the code leaves to the caller, as the two kinds of hash input are not tagged.
\<close>

definition separated ::
  "(string \<Rightarrow> string) \<Rightarrow> string list \<Rightarrow> string \<Rightarrow> proof_step list \<Rightarrow> bool" where
  "separated H ds data steps \<longleftrightarrow>
     insert data (set ds) \<inter>
       (set (tree_pairs H (map (sha256_hex H) ds)) \<union> set (path_pairs H (sha256_hex H data) steps)) = {}"

definition hashed_texts ::
  "(string \<Rightarrow> string) \<Rightarrow> string list \<Rightarrow> string \<Rightarrow> proof_step list \<Rightarrow> string set" where
  "hashed_texts H ds data steps =
     insert data (set ds) \<union> set (tree_pairs H (map (sha256_hex H) ds))
       \<union> set (path_pairs H (sha256_hex H data) steps)"

lemma labels_length:
  assumes "\<forall>x. length (H x) = n" and "\<forall>x\<in>set leaves. length x = n" and "v \<in> labels H leaves"
  shows "length v = n"
  using assms(3) by induction (use assms in auto)

lemma label_of_pair:
  assumes len: "\<forall>x. length (H x) = n" and inj: "inj_on H S"
    and leaves: "ds \<subseteq> S" "set leaves = H ` ds" and tree: "set (tree_pairs H leaves) \<subseteq> S"
    and tx: "text \<in> S" "text \<notin> ds" and lab: "H text \<in> labels H leaves"
  shows "\<exists>x y. x \<in> labels H leaves \<and> y \<in> labels H leaves \<and> text = x @ y"
  using lab
proof cases
  case leaf
  then obtain d where "d \<in> ds" "H text = H d" using leaves(2) by auto
  then have "text = d" using inj tx(1) leaves(1) by (meson inj_onD subsetD)
  with \<open>d \<in> ds\<close> tx(2) show ?thesis by simp
next
  case (pair x y)
  then have "text = x @ y" using inj tx(1) tree by (meson inj_onD subsetD)
  with pair show ?thesis by blast
qed

lemma verify_path_label:
  assumes len: "\<forall>x. length (H x) = n" and inj: "inj_on H S"
    and leaves: "ds \<subseteq> S" "set leaves = H ` ds" and tree: "set (tree_pairs H leaves) \<subseteq> S"
  shows "verify_path H current steps = Some v \<Longrightarrow> v \<in> labels H leaves \<Longrightarrow> length current = n \<Longrightarrow>
    set (path_pairs H current steps) \<subseteq> S \<Longrightarrow> ds \<inter> set (path_pairs H current steps) = {} \<Longrightarrow>
    current \<in> labels H leaves"
proof (induction steps arbitrary: current)
  case Nil
  then show ?case by simp
next
  case (Cons s steps)
  obtain h d where s: "s = Step h d" by (cases s)
  let ?text = "if d = ''left'' then h @ current else current @ h"
  have dir: "d = ''left'' \<or> d = ''right''" using Cons.prems(1) s by (auto split: if_splits)
  have v: "verify_path H (H ?text) steps = Some v"
    using Cons.prems(1) dir s by (auto simp: sha256_pair_hex_def)
  have "H ?text \<in> labels H leaves"
    by (rule Cons.IH [OF v Cons.prems(2)]) (use len Cons.prems(4,5) s in \<open>auto simp: Let_def\<close>)
  moreover have "?text \<in> S" "?text \<notin> ds" using Cons.prems(4,5) s by (auto simp: Let_def)
  ultimately obtain x y where xy: "x \<in> labels H leaves" "y \<in> labels H leaves" "?text = x @ y"
    using label_of_pair [OF len inj leaves tree] by blast
  have ll: "\<forall>x\<in>set leaves. length x = n" using leaves(2) len by auto
  have l: "length x = n" "length y = n" using labels_length [OF len ll] xy(1,2) by simp_all
  have "current = x \<or> current = y"
  proof (cases "d = ''left''")
    case True
    then have "h @ current = x @ y" using xy(3) by simp
    then show ?thesis using l Cons.prems(3) by (metis append_eq_append_conv)
  next
    case False
    then have "current @ h = x @ y" using xy(3) by simp
    then show ?thesis using l Cons.prems(3) by (metis append_eq_append_conv)
  qed
  with xy show ?case by blast
qed

text \<open>
  A proof cannot be forged. For a digest of fixed width that has no collision among the texts hashed
  when the tree is built and along the presented proof, and with leaf data separated from pair texts, data
  that \<open>verify\<close> accepts, with any list of steps whatever, is data of a leaf.
\<close>

theorem proofs_sound:
  assumes "\<forall>x. length (H x) = n" and "ds \<noteq> []"
    and "inj_on H (hashed_texts H ds data steps)" and "separated H ds data steps"
    and "merkle_verify H (tree_of H ds) data steps"
  shows "data \<in> set ds"
proof -
  let ?ls = "map (sha256_hex H) ds" and ?S = "hashed_texts H ds data steps"
  have root: "mt_root (tree_of H ds) = climb H ?ls"
    using assms(2) by (auto simp: tree_of_root rebuild_root_def)
  have v: "verify_path H (H data) steps = Some (climb H ?ls)"
    using assms(5) root by (simp add: merkle_verify_def verify_from_hash_def sha256_hex_def)
  have lab: "climb H ?ls \<in> labels H ?ls"
    by (rule climb_label) (use assms(2) in \<open>auto intro: labels.leaf\<close>)
  have S: "set ds \<subseteq> ?S" "set (tree_pairs H ?ls) \<subseteq> ?S" "set (path_pairs H (H data) steps) \<subseteq> ?S" "data \<in> ?S"
    by (auto simp: hashed_texts_def sha256_hex_def)
  have leaves: "set ?ls = H ` set ds" by (auto simp: sha256_hex_def)
  have "H data \<in> labels H ?ls"
    by (rule verify_path_label [OF assms(1,3) S(1) leaves S(2) v lab])
      (use assms(1,4) S(3) in \<open>auto simp: separated_def sha256_hex_def\<close>)
  show ?thesis
  proof (rule ccontr)
    assume "data \<notin> set ds"
    from \<open>H data \<in> labels H ?ls\<close> show False
    proof cases
      case leaf
      then obtain d where "d \<in> set ds" "H data = H d" by (auto simp: sha256_hex_def)
      then have "data = d" using assms(3) S(1,4) by (meson inj_onD subsetD)
      with \<open>d \<in> set ds\<close> \<open>data \<notin> set ds\<close> show False by simp
    next
      case (pair x y)
      then have "data = x @ y" using assms(3) S(2,4) by (meson inj_onD subsetD)
      with pair assms(4) show False by (auto simp: separated_def)
    qed
  qed
qed

text \<open>A digest for evaluation: it tells texts apart by their length.\<close>

definition length_digest :: "string \<Rightarrow> string" where
  "length_digest s = replicate 4 (char_of (length s))"

lemma proofs_sound_witness:
  "''ab'' \<in> set [''a'', ''ab'']"
proof (rule proofs_sound [of length_digest 4])
  let ?ds = "[''a'', ''ab'']" and ?steps = "[Step (length_digest ''a'') ''left'']"
  let ?p = "length_digest ''a'' @ length_digest ''ab''"
  show "\<forall>x. length (length_digest x) = 4" by (simp add: length_digest_def)
  show "merkle_verify length_digest (tree_of length_digest ?ds) ''ab'' ?steps" by code_simp
  have t: "tree_pairs length_digest (map (sha256_hex length_digest) ?ds) = [?p]"
    and q: "path_pairs length_digest (sha256_hex length_digest ''ab'') ?steps = [?p]"
    by (simp_all add: tree_pairs.simps sha256_hex_def)
  have l: "length ?p = 8" by (simp add: length_digest_def)
  have ne: "?p \<noteq> ''a''" "?p \<noteq> ''ab''" using l by (auto dest: arg_cong [of _ _ length])
  have h: "hashed_texts length_digest ?ds ''ab'' ?steps = {''a'', ''ab'', ?p}"
    unfolding hashed_texts_def t q by auto
  show "separated length_digest ?ds ''ab'' ?steps" unfolding separated_def t q using ne by simp
  have d: "length_digest ''a'' = replicate 4 CHR 0x01" "length_digest ''ab'' = replicate 4 CHR 0x02"
    "length_digest ?p = replicate 4 CHR 0x08"
    unfolding length_digest_def by code_simp+
  show "inj_on length_digest (hashed_texts length_digest ?ds ''ab'' ?steps)"
    unfolding h inj_on_def using d by auto
qed simp

text \<open>
  Without separation the guarantee fails: leaves and pairs are hashed alike, so the concatenated
  hashes of two leaves, presented as data, are accepted as a leaf of the tree, whatever the digest.
\<close>

theorem inner_node_passes_as_leaf:
  "merkle_verify H (tree_of H [a, b, c, d]) (H a @ H b) [Step (H (H c @ H d)) ''right'']
   \<and> merkle_verify H (tree_of H [a, b]) (H a @ H b) []"
  by (simp add: merkle_verify_def verify_from_hash_def tree_of_root rebuild_root_def climb.simps
      sha256_pair_hex_def sha256_hex_def)

end
