(* ===== verification/Ip_Address.thy ===== *)
theory Ip_Address
  imports Rust_Str "HOL-Library.Code_Target_Nat"
begin

unbundle bit_operations_syntax

text \<open>
  IP addresses and their classification: the parts of \<open>std::net\<close> that the guard uses (\<open>Ipv4Addr\<close> as
  four octets, \<open>Ipv6Addr\<close> as eight 16-bit segments, parsing and printing) and the address predicates
  of \<open>crates/nemesis-security/src/resolver.rs\<close>. The octet tests of the code are proved equal to a list
  of address blocks in prefix notation.
\<close>

section \<open>Addresses\<close>

datatype ipv4 = Ipv4 (oct0: "8 word") (oct1: "8 word") (oct2: "8 word") (oct3: "8 word")

datatype ipv6 = Ipv6 (seg0: "16 word") (seg1: "16 word") (seg2: "16 word") (seg3: "16 word")
  (seg4: "16 word") (seg5: "16 word") (seg6: "16 word") (seg7: "16 word")

datatype ip_addr = V4 ipv4 | V6 ipv6

fun segments :: "ipv6 \<Rightarrow> 16 word list" where
  "segments (Ipv6 a b c d e f g h) = [a, b, c, d, e, f, g, h]"

text \<open>\<open>u16::from_be_bytes\<close> and \<open>to_be_bytes\<close>\<close>

definition be16 :: "8 word \<Rightarrow> 8 word \<Rightarrow> 16 word" where
  "be16 a b = push_bit 8 (ucast a) OR ucast b"

definition hi8 :: "16 word \<Rightarrow> 8 word" where
  "hi8 w = ucast (drop_bit 8 w)"

definition lo8 :: "16 word \<Rightarrow> 8 word" where
  "lo8 w = ucast w"

fun to_ipv4_mapped :: "ipv6 \<Rightarrow> ipv4 option" where
  "to_ipv4_mapped (Ipv6 a b c d e f g h) =
     (if a = 0 \<and> b = 0 \<and> c = 0 \<and> d = 0 \<and> e = 0 \<and> f = 0xffff
      then Some (Ipv4 (hi8 g) (lo8 g) (hi8 h) (lo8 h)) else None)"

fun to_ipv6_mapped :: "ipv4 \<Rightarrow> ipv6" where
  "to_ipv6_mapped (Ipv4 a b c d) = Ipv6 0 0 0 0 0 0xffff (be16 a b) (be16 c d)"

fun is_loopback :: "ip_addr \<Rightarrow> bool" where
  "is_loopback (V4 a) \<longleftrightarrow> oct0 a = 127"
| "is_loopback (V6 a) \<longleftrightarrow> segments a = [0, 0, 0, 0, 0, 0, 0, 1]"

fun is_unspecified :: "ip_addr \<Rightarrow> bool" where
  "is_unspecified (V4 a) \<longleftrightarrow> oct0 a = 0 \<and> oct1 a = 0 \<and> oct2 a = 0 \<and> oct3 a = 0"
| "is_unspecified (V6 a) \<longleftrightarrow> segments a = [0, 0, 0, 0, 0, 0, 0, 0]"

section \<open>Parsing\<close>

text \<open>
  \<open>core::net::parser\<close>: a reader takes the rest of the text and returns the value with what is left, or
  \<open>None\<close>, in which case nothing is consumed.
\<close>

definition read_number :: "nat \<Rightarrow> nat \<Rightarrow> bool \<Rightarrow> nat \<Rightarrow> string \<Rightarrow> (nat \<times> string) option" where
  "read_number radix max_digits allow_zero_prefix limit s =
     (let (ds, r) = digits_of radix s; n = foldl (\<lambda>n d. n * radix + d) 0 ds in
      if max_digits < length ds \<or> ds = [] then None
      else if \<not> allow_zero_prefix \<and> hd ds = 0 \<and> 1 < length ds then None
      else if limit \<le> n then None else Some (n, r))"

fun read_char :: "char \<Rightarrow> string \<Rightarrow> string option" where
  "read_char c [] = None"
| "read_char c (d # s) = (if d = c then Some s else None)"

definition read_octet :: "string \<Rightarrow> (8 word \<times> string) option" where
  "read_octet s = map_option (\<lambda>(n, r). (of_nat n, r)) (read_number 10 3 False 256 s)"

definition dot_octet :: "string \<Rightarrow> (8 word \<times> string) option" where
  "dot_octet s = Option.bind (read_char CHR ''.'' s) read_octet"

definition read_ipv4_addr :: "string \<Rightarrow> (ipv4 \<times> string) option" where
  "read_ipv4_addr s =
     Option.bind (read_octet s) (\<lambda>(a, s). Option.bind (dot_octet s) (\<lambda>(b, s).
     Option.bind (dot_octet s) (\<lambda>(c, s). Option.bind (dot_octet s) (\<lambda>(d, s).
       Some (Ipv4 a b c d, s)))))"

text \<open>
  \<open>read_groups\<close> with \<open>n\<close> groups still to read; \<open>first\<close> tells that no separator comes first. The result is
  the groups read, whether the last two came from a dotted address, and the rest.
\<close>

definition read_separator :: "bool \<Rightarrow> (string \<Rightarrow> ('a \<times> string) option) \<Rightarrow> string \<Rightarrow> ('a \<times> string) option" where
  "read_separator first rd s = (if first then rd s else Option.bind (read_char CHR '':'' s) rd)"

fun read_groups :: "nat \<Rightarrow> bool \<Rightarrow> string \<Rightarrow> 16 word list \<times> bool \<times> string" where
  "read_groups 0 first s = ([], False, s)"
| "read_groups (Suc n) first s =
     (case (if 0 < n then read_separator first read_ipv4_addr s else None) of
        Some (Ipv4 a b c d, r) \<Rightarrow> ([be16 a b, be16 c d], True, r)
      | None \<Rightarrow>
          (case read_separator first (read_number 16 4 True 65536) s of
             None \<Rightarrow> ([], False, s)
           | Some (g, r) \<Rightarrow>
               (let (gs, v4, r') = read_groups n False r in (of_nat g # gs, v4, r'))))"

fun ipv6_of_segments :: "16 word list \<Rightarrow> ipv6 option" where
  "ipv6_of_segments [a, b, c, d, e, f, g, h] = Some (Ipv6 a b c d e f g h)"
| "ipv6_of_segments _ = None"

definition read_ipv6_addr :: "string \<Rightarrow> (ipv6 \<times> string) option" where
  "read_ipv6_addr s =
     (case read_groups 8 True s of
        (head, head_v4, r) \<Rightarrow>
          if length head = 8 then map_option (\<lambda>a. (a, r)) (ipv6_of_segments head)
          else if head_v4 then None
          else Option.bind (read_char CHR '':'' r) (\<lambda>r. Option.bind (read_char CHR '':'' r) (\<lambda>r.
            (case read_groups (8 - (length head + 1)) True r of
               (tail, _, r') \<Rightarrow>
                 map_option (\<lambda>a. (a, r'))
                   (ipv6_of_segments (head @ replicate (8 - length head - length tail) 0 @ tail))))))"

text \<open>\<open>str::parse::<IpAddr>()\<close>\<close>

definition parse_ip :: "string \<Rightarrow> ip_addr option" where
  "parse_ip s =
     (case read_ipv4_addr s of
        Some (a, r) \<Rightarrow> if r = [] then Some (V4 a) else None
      | None \<Rightarrow> (case read_ipv6_addr s of Some (a, r) \<Rightarrow> if r = [] then Some (V6 a) else None | None \<Rightarrow> None))"

text \<open>\<open>str::parse::<u16>()\<close>\<close>

definition parse_u16 :: "string \<Rightarrow> 16 word option" where
  "parse_u16 s = map_option of_nat (parse_unsigned 65535 s)"

section \<open>Printing\<close>

fun show_ipv4 :: "ipv4 \<Rightarrow> string" where
  "show_ipv4 (Ipv4 a b c d) = join ''.'' (map (\<lambda>w. decimal (unat w)) [a, b, c, d])"

text \<open>The first longest run of zero segments: its start and its length.\<close>

fun zero_run :: "16 word list \<Rightarrow> nat \<Rightarrow> nat \<times> nat \<Rightarrow> nat \<times> nat \<Rightarrow> nat \<times> nat" where
  "zero_run [] i cur longest = longest"
| "zero_run (w # ws) i cur longest =
     (if w = 0 then
        (let cur' = (if snd cur = 0 then i else fst cur, snd cur + 1)
         in zero_run ws (i + 1) cur' (if snd longest < snd cur' then cur' else longest))
      else zero_run ws (i + 1) (0, 0) longest)"

definition show_segments :: "16 word list \<Rightarrow> string" where
  "show_segments ws = join '':'' (map (\<lambda>w. hexadecimal (unat w)) ws)"

definition show_ipv6 :: "ipv6 \<Rightarrow> string" where
  "show_ipv6 a =
     (case to_ipv4_mapped a of
        Some v4 \<Rightarrow> ''::ffff:'' @ show_ipv4 v4
      | None \<Rightarrow>
          (let ws = segments a; (start, len) = zero_run ws 0 (0, 0) (0, 0) in
           if 1 < len then show_segments (take start ws) @ ''::'' @ show_segments (drop (start + len) ws)
           else show_segments ws))"

fun show_ip :: "ip_addr \<Rightarrow> string" where
  "show_ip (V4 a) = show_ipv4 a"
| "show_ip (V6 a) = show_ipv6 a"

section \<open>Classification (resolver.rs)\<close>

fun normalize_ipv4_mapped :: "ip_addr \<Rightarrow> ip_addr" where
  "normalize_ipv4_mapped (V6 v6) =
     (case to_ipv4_mapped v6 of Some v4 \<Rightarrow> V4 v4 | None \<Rightarrow> V6 v6)"
| "normalize_ipv4_mapped (V4 v4) = V4 v4"

definition is_private_ipv4 :: "ipv4 \<Rightarrow> bool" where
  "is_private_ipv4 ip =
     (let a = oct0 ip; b = oct1 ip; c = oct2 ip in
      if a = 10 then True
      else if a = 172 \<and> b \<ge> 16 \<and> b \<le> 31 then True
      else if a = 192 \<and> b = 168 then True
      else if a = 192 \<and> b = 0 \<and> c = 2 then True
      else if a = 198 \<and> b = 51 \<and> c = 100 then True
      else if a = 203 \<and> b = 0 \<and> c = 113 then True
      else if a = 100 \<and> b \<ge> 64 \<and> b \<le> 127 then True
      else if a = 192 \<and> b = 0 \<and> c = 0 then True
      else if a = 192 \<and> b = 88 \<and> c = 99 then True
      else if a = 198 \<and> (b = 18 \<or> b = 19) then True
      else False)"

definition is_private_ipv6 :: "ipv6 \<Rightarrow> bool" where
  "is_private_ipv6 ip =
     (if seg0 ip AND 0xfe00 = 0xfc00 then True
      else if seg0 ip = 0x0064 \<and> seg1 ip = 0xff9b then True
      else False)"

fun is_private_ip :: "ip_addr \<Rightarrow> bool" where
  "is_private_ip (V4 v4) = is_private_ipv4 v4"
| "is_private_ip (V6 v6) = is_private_ipv6 v6"

definition is_loopback_ip :: "ip_addr \<Rightarrow> bool" where
  "is_loopback_ip ip = is_loopback ip"

fun is_metadata_ip :: "ip_addr \<Rightarrow> bool" where
  "is_metadata_ip (V4 a) \<longleftrightarrow> oct0 a = 169 \<and> oct1 a = 254 \<and> oct2 a = 169 \<and> oct3 a = 254"
| "is_metadata_ip (V6 a) \<longleftrightarrow> seg0 a = 0xfd00 \<and> seg1 a = 0x0ec2
     \<and> list_all (\<lambda>s. s = 0) (take 5 (drop 2 (segments a))) \<and> seg7 a = 0x0254"

fun is_link_local_ip :: "ip_addr \<Rightarrow> bool" where
  "is_link_local_ip (V4 a) \<longleftrightarrow> oct0 a = 169 \<and> oct1 a = 254"
| "is_link_local_ip (V6 a) \<longleftrightarrow> seg0 a AND 0xffc0 = 0xfe80"

fun is_reserved_ip :: "ip_addr \<Rightarrow> bool" where
  "is_reserved_ip (V4 a) =
     (if is_unspecified (V4 a) then True
      else if oct0 a = 0 then True
      else if oct0 a \<ge> 224 then True
      else if oct0 a = 255 \<and> oct1 a = 255 \<and> oct2 a = 255 \<and> oct3 a = 255 then True
      else False)"
| "is_reserved_ip (V6 a) =
     (if is_unspecified (V6 a) then True else seg0 a AND 0xff00 = 0xff00)"

section \<open>Address blocks\<close>

text \<open>
  The reference for the classification: an address block is a network address and a prefix length, and
  an address belongs to it when the two numbers agree on that many leading bits.
\<close>

definition place :: "nat \<Rightarrow> nat \<Rightarrow> nat \<Rightarrow> nat" where
  "place B x y = x * B + y"

fun number :: "nat \<Rightarrow> nat list \<Rightarrow> nat" where
  "number B [] = 0"
| "number B [x] = x"
| "number B (x # y # ws) = number B (place B x y # ws)"

type_synonym block = "nat list \<times> nat"

fun in_block :: "ip_addr \<Rightarrow> block \<Rightarrow> bool" where
  "in_block (V4 (Ipv4 a b c d)) (net, len) \<longleftrightarrow>
     number 256 [unat a, unat b, unat c, unat d] div 2 ^ (32 - len) = number 256 net div 2 ^ (32 - len)"
| "in_block (V6 (Ipv6 a b c d e f g h)) (net, len) \<longleftrightarrow>
     number 65536 [unat a, unat b, unat c, unat d, unat e, unat f, unat g, unat h] div 2 ^ (128 - len)
       = number 65536 net div 2 ^ (128 - len)"

record block_table =
  blocks4 :: "block list"
  blocks6 :: "block list"

fun in_table :: "block_table \<Rightarrow> ip_addr \<Rightarrow> bool" where
  "in_table t (V4 a) = list_ex (in_block (V4 a)) (blocks4 t)"
| "in_table t (V6 a) = list_ex (in_block (V6 a)) (blocks6 t)"

definition private_blocks :: block_table where
  "private_blocks = \<lparr>blocks4 = [([10, 0, 0, 0], 8), ([172, 16, 0, 0], 12), ([192, 168, 0, 0], 16),
       ([192, 0, 2, 0], 24), ([198, 51, 100, 0], 24), ([203, 0, 113, 0], 24), ([100, 64, 0, 0], 10),
       ([192, 0, 0, 0], 24), ([192, 88, 99, 0], 24), ([198, 18, 0, 0], 15)],
     blocks6 = [([0xfc00, 0, 0, 0, 0, 0, 0, 0], 7), ([0x64, 0xff9b, 0, 0, 0, 0, 0, 0], 32)]\<rparr>"

definition loopback_blocks :: block_table where
  "loopback_blocks = \<lparr>blocks4 = [([127, 0, 0, 0], 8)], blocks6 = [([0, 0, 0, 0, 0, 0, 0, 1], 128)]\<rparr>"

definition metadata_blocks :: block_table where
  "metadata_blocks = \<lparr>blocks4 = [([169, 254, 169, 254], 32)],
     blocks6 = [([0xfd00, 0xec2, 0, 0, 0, 0, 0, 0x254], 128)]\<rparr>"

definition link_local_blocks :: block_table where
  "link_local_blocks = \<lparr>blocks4 = [([169, 254, 0, 0], 16)],
     blocks6 = [([0xfe80, 0, 0, 0, 0, 0, 0, 0], 10)]\<rparr>"

definition reserved_blocks :: block_table where
  "reserved_blocks = \<lparr>blocks4 = [([0, 0, 0, 0], 8), ([224, 0, 0, 0], 3)],
     blocks6 = [([0, 0, 0, 0, 0, 0, 0, 0], 128), ([0xff00, 0, 0, 0, 0, 0, 0, 0], 8)]\<rparr>"

text \<open>Numbers in a place-value system\<close>

lemma place_div: "y < B \<Longrightarrow> place B x y div B = x"
  by (simp add: place_def)

lemma place_inj: "y < B \<Longrightarrow> y' < B \<Longrightarrow> place B x y = place B x' y' \<longleftrightarrow> x = x' \<and> y = y'"
  by (metis place_div place_def add_left_cancel)

lemma place_part: "k * m = B \<Longrightarrow> 0 < m \<Longrightarrow> place B x y div m = x * k + y div m"
  unfolding place_def by (metis div_mult_self3 mult.assoc add.commute less_irrefl)

lemma part_inj:
  assumes a: "y < B" "y' < B" and m: "k * m = B"
  shows "place B x y div m = place B x' y' div m \<longleftrightarrow> x = x' \<and> y div m = y' div m"
proof -
  from a m have m0: "0 < m" and k0: "0 < k" by (auto intro: Nat.gr0I)
  from a m have "y div m < k" "y' div m < k" by (simp_all add: less_mult_imp_div_less)
  then show ?thesis unfolding place_part [OF m m0] using k0
    by (metis div_mult_self3 div_less add.right_neutral add_left_cancel less_irrefl mult.commute)
qed

lemmas part_injs = part_inj [where B = 256 and m = 16 and k = 16]
  part_inj [where B = 256 and m = 64 and k = 4] part_inj [where B = 256 and m = 2 and k = 128]

lemma div_divs:
  "(x :: nat) div 65536 = x div 256 div 256" "x div 16777216 = x div 256 div 256 div 256"
  "x div 1048576 = x div 256 div 256 div 16" "x div 4194304 = x div 256 div 256 div 64"
  "x div 131072 = x div 256 div 256 div 2" "x div 536870912 = x div 256 div 256 div 256 div 32"
  by (simp_all add: div_mult2_eq [symmetric])

lemma div_eq_range: "0 < m \<Longrightarrow> (x :: nat) div m = k \<longleftrightarrow> k * m \<le> x \<and> x < Suc k * m"
  by (metis div_nat_eqI less_eq_div_iff_mult_less_eq dividend_less_div_times order_refl mult_Suc
      mult.commute)

lemma unat8: "unat (w :: 8 word) < 256"
  using unsigned_less [of w] by simp

lemma unat16: "unat (w :: 16 word) < 65536"
  using unsigned_less [of w] by simp

lemma in_block_v4:
  assumes "q < 256" "r < 256" "s < 256"
  shows "in_block (V4 (Ipv4 a b c d)) ([p, q, r, s], 3) \<longleftrightarrow> unat a div 32 = p div 32"
    and "in_block (V4 (Ipv4 a b c d)) ([p, q, r, s], 8) \<longleftrightarrow> unat a = p"
    and "in_block (V4 (Ipv4 a b c d)) ([p, q, r, s], 10) \<longleftrightarrow> unat a = p \<and> unat b div 64 = q div 64"
    and "in_block (V4 (Ipv4 a b c d)) ([p, q, r, s], 12) \<longleftrightarrow> unat a = p \<and> unat b div 16 = q div 16"
    and "in_block (V4 (Ipv4 a b c d)) ([p, q, r, s], 15) \<longleftrightarrow> unat a = p \<and> unat b div 2 = q div 2"
    and "in_block (V4 (Ipv4 a b c d)) ([p, q, r, s], 16) \<longleftrightarrow> unat a = p \<and> unat b = q"
    and "in_block (V4 (Ipv4 a b c d)) ([p, q, r, s], 24) \<longleftrightarrow> unat a = p \<and> unat b = q \<and> unat c = r"
    and "in_block (V4 (Ipv4 a b c d)) ([p, q, r, s], 32) \<longleftrightarrow>
      unat a = p \<and> unat b = q \<and> unat c = r \<and> unat d = s"
  using assms by (simp_all add: div_divs place_div place_inj part_injs unat8)

lemma div_divs6:
  "(x :: nat) div 2 ^ 112 = x div 65536 div 65536 div 65536 div 65536 div 65536 div 65536 div 65536"
  "x div 2 ^ 96 = x div 65536 div 65536 div 65536 div 65536 div 65536 div 65536"
  "x div 2 ^ 118 = x div 2 ^ 112 div 64" "x div 2 ^ 120 = x div 2 ^ 112 div 256"
  "x div 2 ^ 121 = x div 2 ^ 112 div 512"
  by (simp_all only: div_mult2_eq [symmetric]) simp_all

lemma in_block_v6:
  assumes "q < 65536" "r < 65536" "s < 65536" "t < 65536" "u < 65536" "v < 65536" "w < 65536"
  shows "in_block (V6 (Ipv6 a b c d e f g h)) ([p, q, r, s, t, u, v, w], 7) \<longleftrightarrow> unat a div 512 = p div 512"
    and "in_block (V6 (Ipv6 a b c d e f g h)) ([p, q, r, s, t, u, v, w], 8) \<longleftrightarrow> unat a div 256 = p div 256"
    and "in_block (V6 (Ipv6 a b c d e f g h)) ([p, q, r, s, t, u, v, w], 10) \<longleftrightarrow> unat a div 64 = p div 64"
    and "in_block (V6 (Ipv6 a b c d e f g h)) ([p, q, r, s, t, u, v, w], 32) \<longleftrightarrow> unat a = p \<and> unat b = q"
    and "in_block (V6 (Ipv6 a b c d e f g h)) ([p, q, r, s, t, u, v, w], 128) \<longleftrightarrow>
      unat a = p \<and> unat b = q \<and> unat c = r \<and> unat d = s \<and> unat e = t \<and> unat f = u \<and> unat g = v \<and> unat h = w"
  using assms by (simp_all add: div_divs6 place_div place_inj unat16 del: power_numeral)

declare in_block.simps [simp del]

text \<open>Masked 16-bit comparisons\<close>

lemma and_high: fixes w :: "16 word" shows "w AND NOT (mask n) = push_bit n (drop_bit n w)"
  by (rule bit_word_eqI) (auto simp: bit_simps)

lemma drop_and_high: fixes w :: "16 word" shows "drop_bit n (w AND NOT (mask n)) = drop_bit n w"
  by (rule bit_word_eqI) (auto simp: bit_simps dest: bit_imp_le_length)

lemma high_bits:
  fixes w :: "16 word"
  shows "w AND NOT (mask n) = v AND NOT (mask n) \<longleftrightarrow> unat w div 2 ^ n = unat v div 2 ^ n"
proof -
  have u: "unat (drop_bit n x) = unat x div 2 ^ n" for x :: "16 word"
    by (subst unat_drop_bit_eq) (simp only: drop_bit_eq_div)
  have "w AND NOT (mask n) = v AND NOT (mask n) \<longleftrightarrow> drop_bit n w = drop_bit n v"
    by (metis and_high drop_and_high)
  then show ?thesis by (simp only: word_unat_eq_iff u)
qed

lemma masks:
  "NOT (mask 9) = (0xfe00 :: 16 word)" "NOT (mask 8) = (0xff00 :: 16 word)"
  "NOT (mask 6) = (0xffc0 :: 16 word)"
  by code_simp+

lemma masked:
  "(w :: 16 word) AND 0xfe00 = 0xfc00 \<longleftrightarrow> unat w div 512 = 126"
  "w AND 0xffc0 = 0xfe80 \<longleftrightarrow> unat w div 64 = 1018" "w AND 0xff00 = 0xff00 \<longleftrightarrow> unat w div 256 = 255"
  using high_bits [of w 9 "0xfc00"] high_bits [of w 6 "0xfe80"] high_bits [of w 8 "0xff00"]
  by (simp_all add: masks)

lemma masked_nat:
  "unat ((w :: 16 word) AND 0xfe00) = 0xfc00 \<longleftrightarrow> unat w div 512 = 126"
  "unat (w AND 0xffc0) = 0xfe80 \<longleftrightarrow> unat w div 64 = 1018"
  "unat (w AND 0xff00) = 0xff00 \<longleftrightarrow> unat w div 256 = 255"
  using masked [of w] by (simp_all add: word_unat_eq_iff)

section \<open>The tests of the code are the block tables\<close>

lemma div_ranges:
  "(x :: nat) div 16 = Suc 0 \<longleftrightarrow> 16 \<le> x \<and> x \<le> 31" "x div 64 = Suc 0 \<longleftrightarrow> 64 \<le> x \<and> x \<le> 127"
  "x div 2 = 9 \<longleftrightarrow> x = 18 \<or> x = 19"
  by (auto simp: div_eq_range)

lemma word8_eq: "(w :: 8 word) = v \<longleftrightarrow> unat w = unat v"
  by (rule word_unat_eq_iff)

lemma word16_eq: "(w :: 16 word) = v \<longleftrightarrow> unat w = unat v"
  by (rule word_unat_eq_iff)

lemma is_private_blocks: "is_private_ip ip = in_table private_blocks ip"
proof (cases ip)
  case (V4 a)
  then show ?thesis
    by (cases a) (simp add: is_private_ipv4_def private_blocks_def in_block_v4 word8_eq
        word_le_nat_alt Let_def div_ranges)
next
  case (V6 a)
  then show ?thesis
    by (cases a) (simp add: is_private_ipv6_def private_blocks_def in_block_v6 masked_nat word16_eq)
qed

lemma is_reserved_blocks: "is_reserved_ip ip = in_table reserved_blocks ip"
proof (cases ip)
  case (V4 v4)
  obtain a b c d where v4: "v4 = Ipv4 a b c d" by (cases v4)
  have "224 \<le> unat a \<longleftrightarrow> unat a div 32 = 7" using unat8 [of a] by (auto simp: div_eq_range)
  with V4 v4 show ?thesis by (auto simp: reserved_blocks_def in_block_v4 word8_eq word_le_nat_alt)
next
  case (V6 a)
  then show ?thesis
    by (cases a) (simp add: reserved_blocks_def in_block_v6 masked_nat word16_eq)
qed

lemma other_blocks:
  "is_loopback_ip ip = in_table loopback_blocks ip" "is_metadata_ip ip = in_table metadata_blocks ip"
  "is_link_local_ip ip = in_table link_local_blocks ip"
proof -
  have v4: "is_loopback_ip (V4 a) = in_table loopback_blocks (V4 a)"
    "is_metadata_ip (V4 a) = in_table metadata_blocks (V4 a)"
    "is_link_local_ip (V4 a) = in_table link_local_blocks (V4 a)" for a
    by (cases a; simp add: is_loopback_ip_def loopback_blocks_def metadata_blocks_def
        link_local_blocks_def in_block_v4 word8_eq)+
  have v6: "is_loopback_ip (V6 a) = in_table loopback_blocks (V6 a)"
    "is_metadata_ip (V6 a) = in_table metadata_blocks (V6 a)"
    "is_link_local_ip (V6 a) = in_table link_local_blocks (V6 a)" for a
    by (cases a; simp add: is_loopback_ip_def loopback_blocks_def metadata_blocks_def
        link_local_blocks_def in_block_v6 word16_eq masked_nat)+
  show "is_loopback_ip ip = in_table loopback_blocks ip" "is_metadata_ip ip = in_table metadata_blocks ip"
    "is_link_local_ip ip = in_table link_local_blocks ip"
    by (cases ip; simp only: v4 v6)+
qed

lemmas block_tests = is_private_blocks is_reserved_blocks other_blocks

section \<open>The embedded address survives the mapping\<close>

lemma bytes_be16: "hi8 (be16 a b) = a" "lo8 (be16 a b) = b"
  by (rule bit_word_eqI; auto simp: hi8_def lo8_def be16_def bit_simps dest: bit_imp_le_length)+

lemma mapped_roundtrip: "to_ipv4_mapped (to_ipv6_mapped a) = Some a"
  by (cases a) (simp add: bytes_be16)

lemma normalize_idem: "normalize_ipv4_mapped (normalize_ipv4_mapped ip) = normalize_ipv4_mapped ip"
  by (cases ip) (auto split: option.splits)

end
