(* ===== verification/Ssrf.thy ===== *)
theory Ssrf
  imports Ip_Address
begin

text \<open>
  \<open>crates/nemesis-security/src/ssrf.rs\<close> and \<open>parse_url\<close> of \<open>resolver.rs\<close>: the guard that decides whether
  an outgoing request may be made. The crates \<open>url\<close> and \<open>ipnet\<close> are the record \<open>net_env\<close>; name
  resolution by the operating system is the argument \<open>dns\<close> of the operations that resolve, a new one
  for every call. The guard's lock makes every operation one step on the state \<open>guard\<close>.
\<close>

section \<open>Data\<close>

record url =
  u_scheme :: string
  u_username :: string
  u_password :: "string option"
  u_host :: "string option"
  u_port :: "16 word option"
  u_path :: string

record 'net net_env =
  url_parse :: "string \<Rightarrow> string + url" \<comment> \<open>\<open>url::Url::parse\<close>; the error is its text\<close>
  cidr_parse :: "string \<Rightarrow> string + 'net" \<comment> \<open>\<open>IpNet::from_str\<close>\<close>
  cidr_contains :: "'net \<Rightarrow> ip_addr \<Rightarrow> bool"
  cidr_show :: "'net \<Rightarrow> string"

type_synonym resolver = "string \<Rightarrow> string + ip_addr list"

datatype resolver_error =
    REmptyUrl | RParseError string | RNoHost | RUnsupportedScheme string | REmbeddedCredentials
  | RControlChars | RInvalidHost | RInvalidPort string | RDnsFailed string string | RNoAddresses string

record parsed_url =
  p_scheme :: string
  p_host :: string
  p_port :: "16 word option"
  p_path :: string

datatype ssrf_error =
    PrivateIp string | Localhost string | MetadataEndpoint string | LinkLocal string
  | ReservedIp string | BlockedCidr string string | InvalidUrl string | BlockedScheme string
  | InvalidIp string | DnsFailed string string | NoAddresses string
  | ResolvesToBlocked string string string | InvalidCidr string

record ssrf_config =
  sc_enabled :: bool
  blocked_cidrs :: "string list"
  allowed_hosts :: "string list"
  block_metadata :: bool
  block_localhost :: bool
  block_private_ips :: bool
  max_redirects :: "64 word"

definition default_ssrf_config :: ssrf_config where
  "default_ssrf_config = \<lparr>sc_enabled = True, blocked_cidrs = [], allowed_hosts = [],
     block_metadata = True, block_localhost = True, block_private_ips = True, max_redirects = 5\<rparr>"

record 'net guard =
  g_config :: ssrf_config
  blocked_nets :: "'net list"
  allowed_set :: "string set"

section \<open>Error texts\<close>

fun resolver_error_display :: "resolver_error \<Rightarrow> string" where
  "resolver_error_display REmptyUrl = ''empty URL''"
| "resolver_error_display (RParseError e) = ''failed to parse URL: '' @ e"
| "resolver_error_display RNoHost = ''URL has no host''"
| "resolver_error_display (RUnsupportedScheme s) = ''unsupported scheme: '' @ s"
| "resolver_error_display REmbeddedCredentials = ''URLs with embedded credentials are not allowed''"
| "resolver_error_display RControlChars = ''hostname contains control characters''"
| "resolver_error_display RInvalidHost = ''invalid hostname''"
| "resolver_error_display (RInvalidPort p) = ''invalid port: '' @ p"
| "resolver_error_display (RDnsFailed h e) = ''DNS lookup failed for '' @ h @ '': '' @ e"
| "resolver_error_display (RNoAddresses h) = ''no IP addresses resolved for '' @ h"

fun ssrf_error_display :: "ssrf_error \<Rightarrow> string" where
  "ssrf_error_display (PrivateIp s) = ''private IP address blocked: '' @ s"
| "ssrf_error_display (Localhost s) = ''localhost access blocked: '' @ s"
| "ssrf_error_display (MetadataEndpoint s) = ''metadata endpoint blocked: '' @ s"
| "ssrf_error_display (LinkLocal s) = ''link-local address blocked: '' @ s"
| "ssrf_error_display (ReservedIp s) = ''reserved IP address blocked: '' @ s"
| "ssrf_error_display (BlockedCidr ip cidr) = ''blocked CIDR: IP '' @ ip @ '' is in '' @ cidr"
| "ssrf_error_display (InvalidUrl s) = ''invalid URL: '' @ s"
| "ssrf_error_display (BlockedScheme s) = ''blocked scheme: '' @ s"
| "ssrf_error_display (InvalidIp s) = ''invalid IP address: '' @ s"
| "ssrf_error_display (DnsFailed h r) = ''DNS resolution failed for '' @ h @ '': '' @ r"
| "ssrf_error_display (NoAddresses h) = ''no IP addresses found for '' @ h"
| "ssrf_error_display (ResolvesToBlocked h ip r) =
     ''host '' @ h @ '' resolves to blocked IP '' @ ip @ '': '' @ r"
| "ssrf_error_display (InvalidCidr s) = ''invalid CIDR: '' @ s"

section \<open>Parsing a URL (resolver.rs)\<close>

definition contains_control_chars :: "string \<Rightarrow> bool" where
  "contains_control_chars s = list_ex (\<lambda>c. (of_char c :: nat) < 0x20 \<or> c = CHR 0x7F) s"

definition invalid_port :: "16 word option \<Rightarrow> string option" where
  "invalid_port port =
     (case port of None \<Rightarrow> None
      | Some p \<Rightarrow> if parse_u16 (decimal (unat p)) = None then Some (decimal (unat p)) else None)"

definition checked_url :: "url \<Rightarrow> resolver_error + parsed_url" where
  "checked_url parsed =
     (let host = (case u_host parsed of None \<Rightarrow> [] | Some h \<Rightarrow> h);
          scheme = to_lowercase (u_scheme parsed)
      in if host = [] then Inl RNoHost
         else if scheme \<noteq> ''http'' \<and> scheme \<noteq> ''https'' then Inl (RUnsupportedScheme scheme)
         else if u_username parsed \<noteq> [] \<or> u_password parsed \<noteq> None then Inl REmbeddedCredentials
         else if contains_control_chars host then Inl RControlChars
         else if CHR ''@'' \<in> set host \<or> host = ''['' \<or> host = '']'' \<or> host = ''[]'' then Inl RInvalidHost
         else (case invalid_port (u_port parsed) of
             Some p \<Rightarrow> Inl (RInvalidPort p)
           | None \<Rightarrow> Inr \<lparr>p_scheme = scheme, p_host = host, p_port = u_port parsed,
                          p_path = u_path parsed\<rparr>))"

definition parse_url :: "'net net_env \<Rightarrow> string \<Rightarrow> resolver_error + parsed_url" where
  "parse_url E raw_url =
     (if raw_url = [] then Inl REmptyUrl
      else (case url_parse E (if \<not> contains_str raw_url ''://'' then ''http://'' @ raw_url else raw_url) of
          Inl e \<Rightarrow> Inl (RParseError e)
        | Inr parsed \<Rightarrow> checked_url parsed))"

text \<open>\<open>resolve_host\<close> of the same file: the asynchronous resolver with its own bracket rule.\<close>

definition resolve_host :: "resolver \<Rightarrow> string \<Rightarrow> resolver_error + ip_addr list" where
  "resolve_host dns host =
     (let clean_host =
        (if starts_with host ''['' \<and> ends_with host '']'' \<and> 2 < utf8_len host
         then take (length host - 2) (drop 1 host) else host)
      in case parse_ip clean_host of
           Some ip \<Rightarrow> Inr [ip]
         | None \<Rightarrow>
             (case dns (clean_host @ '':0'') of
                Inl e \<Rightarrow> Inl (RDnsFailed clean_host e)
              | Inr ips \<Rightarrow> if ips = [] then Inl (RNoAddresses clean_host) else Inr ips))"

section \<open>Construction and changes of the guard\<close>

fun parse_cidrs :: "'net net_env \<Rightarrow> string list \<Rightarrow> ssrf_error + 'net list" where
  "parse_cidrs E [] = Inr []"
| "parse_cidrs E (cidr # cidrs) =
     (case cidr_parse E cidr of
        Inl e \<Rightarrow> Inl (InvalidCidr (cidr @ '': '' @ e))
      | Inr net \<Rightarrow>
          (case parse_cidrs E cidrs of Inl e \<Rightarrow> Inl e | Inr nets \<Rightarrow> Inr (net # nets)))"

definition guard_new :: "'net net_env \<Rightarrow> ssrf_config \<Rightarrow> ssrf_error + 'net guard" where
  "guard_new E config =
     (case parse_cidrs E (blocked_cidrs config) of
        Inl e \<Rightarrow> Inl e
      | Inr nets \<Rightarrow> Inr \<lparr>g_config = config, blocked_nets = nets,
                        allowed_set = to_lowercase ` set (allowed_hosts config)\<rparr>)"

definition from_enabled_with_allowlist :: "'net net_env \<Rightarrow> bool \<Rightarrow> string list \<Rightarrow> ssrf_error + 'net guard" where
  "from_enabled_with_allowlist E enabled hosts =
     guard_new E (default_ssrf_config\<lparr>sc_enabled := enabled, allowed_hosts := hosts\<rparr>)"

definition from_enabled :: "'net net_env \<Rightarrow> bool \<Rightarrow> ssrf_error + 'net guard" where
  "from_enabled E enabled = guard_new E (default_ssrf_config\<lparr>sc_enabled := enabled\<rparr>)"

definition add_blocked_cidr :: "'net net_env \<Rightarrow> string \<Rightarrow> 'net guard \<Rightarrow> ssrf_error + 'net guard" where
  "add_blocked_cidr E cidr g =
     (case cidr_parse E cidr of
        Inl e \<Rightarrow> Inl (InvalidCidr (cidr @ '': '' @ e))
      | Inr net \<Rightarrow> Inr (g\<lparr>blocked_nets := blocked_nets g @ [net]\<rparr>))"

definition add_allowed_host :: "string \<Rightarrow> 'net guard \<Rightarrow> 'net guard" where
  "add_allowed_host host g = g\<lparr>allowed_set := insert (to_lowercase host) (allowed_set g)\<rparr>"

definition remove_allowed_host :: "string \<Rightarrow> 'net guard \<Rightarrow> 'net guard" where
  "remove_allowed_host host g = g\<lparr>allowed_set := allowed_set g - {to_lowercase host}\<rparr>"

section \<open>Checks\<close>

definition check_ip_locked :: "'net net_env \<Rightarrow> 'net guard \<Rightarrow> ip_addr \<Rightarrow> ssrf_error + unit" where
  "check_ip_locked E g ip0 =
     (let ip = normalize_ipv4_mapped ip0; c = g_config g in
      if block_localhost c \<and> is_loopback_ip ip then
        Inl (Localhost (''loopback IP '' @ show_ip ip @ '' is blocked''))
      else if block_metadata c \<and> is_metadata_ip ip then
        Inl (MetadataEndpoint (''cloud metadata IP '' @ show_ip ip @ '' is blocked''))
      else if block_private_ips c \<and> is_private_ip ip then
        Inl (PrivateIp (''private IP '' @ show_ip ip @ '' is blocked''))
      else if is_link_local_ip ip then
        Inl (LinkLocal (''link-local IP '' @ show_ip ip @ '' is blocked''))
      else if is_reserved_ip ip then
        Inl (ReservedIp (''reserved IP '' @ show_ip ip @ '' is blocked''))
      else (case find (\<lambda>net. cidr_contains E net ip) (blocked_nets g) of
          Some net \<Rightarrow> Inl (BlockedCidr (show_ip ip) (cidr_show E net))
        | None \<Rightarrow> Inr ()))"

definition check_ip :: "'net net_env \<Rightarrow> 'net guard \<Rightarrow> string \<Rightarrow> ssrf_error + unit" where
  "check_ip E g ip_str =
     (if \<not> sc_enabled (g_config g) then Inr ()
      else (case parse_ip ip_str of
          None \<Rightarrow> Inl (InvalidIp ip_str)
        | Some ip \<Rightarrow> check_ip_locked E g ip))"

definition strip_ipv6_brackets :: "string \<Rightarrow> string" where
  "strip_ipv6_brackets host =
     (if starts_with host ''['' \<and> ends_with host '']'' then take (length host - 2) (drop 1 host) else host)"

definition resolve_host_dns :: "resolver \<Rightarrow> string \<Rightarrow> ssrf_error + ip_addr list" where
  "resolve_host_dns dns host =
     (let clean = strip_ipv6_brackets host in
      case parse_ip clean of
        Some ip \<Rightarrow> Inr [ip]
      | None \<Rightarrow>
          (case dns (clean @ '':0'') of
             Inl e \<Rightarrow> Inl (DnsFailed clean e)
           | Inr addrs \<Rightarrow> if addrs = [] then Inl (NoAddresses clean) else Inr addrs))"

fun check_all :: "'net net_env \<Rightarrow> 'net guard \<Rightarrow> string \<Rightarrow> ip_addr list \<Rightarrow> ssrf_error + unit" where
  "check_all E g host [] = Inr ()"
| "check_all E g host (ip # ips) =
     (case check_ip_locked E g ip of
        Inl e \<Rightarrow> Inl (ResolvesToBlocked host (show_ip ip) (ssrf_error_display e))
      | Inr _ \<Rightarrow> check_all E g host ips)"

definition resolve_and_validate_collect_locked ::
  "'net net_env \<Rightarrow> resolver \<Rightarrow> 'net guard \<Rightarrow> string \<Rightarrow> ssrf_error + ip_addr list" where
  "resolve_and_validate_collect_locked E dns g host =
     (let host_lower = to_lowercase host in
      if block_localhost (g_config g) \<and> (host_lower = ''localhost'' \<or> ends_with host_lower ''.localhost''
           \<or> host_lower = ''localhost.localdomain'')
      then Inl (Localhost (''localhost hostname '' @ host @ '' is blocked''))
      else (case parse_ip host_lower of
          Some ip \<Rightarrow> (case check_ip_locked E g ip of Inl e \<Rightarrow> Inl e | Inr _ \<Rightarrow> Inr [ip])
        | None \<Rightarrow>
            (case resolve_host_dns dns (strip_ipv6_brackets host) of
               Inl e \<Rightarrow> Inl e
             | Inr ips \<Rightarrow>
                 if ips = [] then Inl (NoAddresses host)
                 else (case check_all E g host ips of Inl e \<Rightarrow> Inl e | Inr _ \<Rightarrow> Inr ips))))"

definition resolve_and_validate_locked ::
  "'net net_env \<Rightarrow> resolver \<Rightarrow> 'net guard \<Rightarrow> string \<Rightarrow> ssrf_error + unit" where
  "resolve_and_validate_locked E dns g host =
     map_sum id (\<lambda>_. ()) (resolve_and_validate_collect_locked E dns g host)"

section \<open>Entry points\<close>

definition validate_url :: "'net net_env \<Rightarrow> resolver \<Rightarrow> 'net guard \<Rightarrow> string \<Rightarrow> ssrf_error + unit" where
  "validate_url E dns g raw =
     (if \<not> sc_enabled (g_config g) then Inr ()
      else (case parse_url E raw of
          Inl e \<Rightarrow> Inl (InvalidUrl (resolver_error_display e))
        | Inr parsed \<Rightarrow>
            if to_lowercase (p_host parsed) \<in> allowed_set g then Inr ()
            else (let scheme = to_lowercase (p_scheme parsed) in
              if scheme \<noteq> ''http'' \<and> scheme \<noteq> ''https'' then Inl (BlockedScheme scheme)
              else resolve_and_validate_locked E dns g (p_host parsed))))"

definition resolve_and_validate :: "'net net_env \<Rightarrow> resolver \<Rightarrow> 'net guard \<Rightarrow> string \<Rightarrow> ssrf_error + unit" where
  "resolve_and_validate E dns g raw =
     (if \<not> sc_enabled (g_config g) then Inr ()
      else (case parse_url E raw of
          Inl e \<Rightarrow> Inl (InvalidUrl (resolver_error_display e))
        | Inr parsed \<Rightarrow>
            if to_lowercase (p_host parsed) \<in> allowed_set g then Inr ()
            else resolve_and_validate_locked E dns g (p_host parsed)))"

definition resolve_and_validate_collect ::
  "'net net_env \<Rightarrow> resolver \<Rightarrow> 'net guard \<Rightarrow> string \<Rightarrow> ssrf_error + ip_addr list" where
  "resolve_and_validate_collect E dns g raw =
     (if \<not> sc_enabled (g_config g) then Inr []
      else (case parse_url E raw of
          Inl e \<Rightarrow> Inl (InvalidUrl (resolver_error_display e))
        | Inr parsed \<Rightarrow>
            if to_lowercase (p_host parsed) \<in> allowed_set g then Inr []
            else (let scheme = to_lowercase (p_scheme parsed) in
              if scheme \<noteq> ''http'' \<and> scheme \<noteq> ''https'' then Inl (BlockedScheme scheme)
              else resolve_and_validate_collect_locked E dns g (p_host parsed))))"

section \<open>Events on a shared guard\<close>

datatype guard_event = AddCidr string | AddHost string | RemoveHost string

fun guard_step :: "'net net_env \<Rightarrow> 'net guard \<Rightarrow> guard_event \<Rightarrow> 'net guard" where
  "guard_step E g (AddCidr c) = (case add_blocked_cidr E c g of Inl _ \<Rightarrow> g | Inr g' \<Rightarrow> g')"
| "guard_step E g (AddHost h) = add_allowed_host h g"
| "guard_step E g (RemoveHost h) = remove_allowed_host h g"

definition hosts_lowercase :: "'net guard \<Rightarrow> bool" where
  "hosts_lowercase g \<longleftrightarrow> (\<forall>h\<in>allowed_set g. to_lowercase h = h)"

lemma guard_step_config [simp]: "g_config (guard_step E g e) = g_config g"
  by (cases e) (simp_all add: add_blocked_cidr_def add_allowed_host_def remove_allowed_host_def
      split: sum.splits)

lemma guard_step_nets: "set (blocked_nets g) \<subseteq> set (blocked_nets (guard_step E g e))"
  by (cases e) (auto simp: add_blocked_cidr_def add_allowed_host_def remove_allowed_host_def
      split: sum.splits)

interpretation lower: step_invariant "guard_step E" hosts_lowercase for E
proof unfold_locales
  fix g :: "'a guard" and e
  assume "hosts_lowercase g"
  then show "hosts_lowercase (guard_step E g e)"
    by (cases e) (auto simp: hosts_lowercase_def add_blocked_cidr_def add_allowed_host_def
        remove_allowed_host_def split: sum.splits)
qed

interpretation keeps: step_invariant "guard_step E" "\<lambda>g. g_config g = c \<and> set N \<subseteq> set (blocked_nets g)"
  for E c N
  by unfold_locales (use guard_step_nets in fastforce)

lemma guard_new_lowercase: "guard_new E c = Inr g \<Longrightarrow> hosts_lowercase g"
  by (auto simp: guard_new_def hosts_lowercase_def split: sum.splits)

section \<open>Facts about the checks\<close>

text \<open>The block tables a configuration refuses, in the order of the code.\<close>

definition refused_tables :: "ssrf_config \<Rightarrow> block_table list" where
  "refused_tables c = (if block_localhost c then [loopback_blocks] else [])
     @ (if block_metadata c then [metadata_blocks] else [])
     @ (if block_private_ips c then [private_blocks] else []) @ [link_local_blocks, reserved_blocks]"

definition refused_address :: "'net net_env \<Rightarrow> 'net guard \<Rightarrow> ip_addr \<Rightarrow> bool" where
  "refused_address E g ip \<longleftrightarrow>
     list_ex (\<lambda>t. in_table t ip) (refused_tables (g_config g))
       \<or> list_ex (\<lambda>net. cidr_contains E net ip) (blocked_nets g)"

lemma check_ip_locked_iff:
  "check_ip_locked E g ip = Inr () \<longleftrightarrow> \<not> refused_address E g (normalize_ipv4_mapped ip)"
  unfolding check_ip_locked_def Let_def refused_address_def refused_tables_def block_tests
  by (auto simp: find_None_iff list_ex_iff split: option.splits dest!: find_SomeD)

lemma check_ip_locked_normal:
  "check_ip_locked E g (normalize_ipv4_mapped ip) = check_ip_locked E g ip"
  by (simp add: check_ip_locked_def normalize_idem)

lemma check_all_iff: "check_all E g host ips = Inr () \<longleftrightarrow> (\<forall>ip\<in>set ips. check_ip_locked E g ip = Inr ())"
  by (induction ips) (auto split: sum.splits)

lemma collect_locked_checked:
  "resolve_and_validate_collect_locked E dns g host = Inr ips \<Longrightarrow>
     ips \<noteq> [] \<and> (\<forall>ip\<in>set ips. check_ip_locked E g ip = Inr ())"
  by (auto simp: resolve_and_validate_collect_locked_def Let_def check_all_iff split: if_splits
      option.splits sum.splits)

lemma parse_u16_decimal: "parse_u16 (decimal (unat p)) = Some p"
  using unat16 [of p] by (simp add: parse_u16_def parse_unsigned_decimal)

lemma invalid_port_None: "invalid_port p = None"
  by (simp add: invalid_port_def parse_u16_decimal split: option.splits)

lemma checked_url_clean:
  "checked_url u = Inr p \<Longrightarrow> p_host p \<noteq> [] \<and> (p_scheme p = ''http'' \<or> p_scheme p = ''https'')
     \<and> u_host u = Some (p_host p) \<and> u_username u = [] \<and> u_password u = None
     \<and> \<not> contains_control_chars (p_host p) \<and> CHR ''@'' \<notin> set (p_host p)"
  by (auto simp: checked_url_def Let_def invalid_port_None split: if_splits option.splits)

lemma parse_url_clean: "parse_url E raw = Inr p \<Longrightarrow> \<exists>u. checked_url u = Inr p"
  by (auto simp: parse_url_def split: if_splits sum.splits)

lemma http_lower: "to_lowercase ''http'' = ''http''" "to_lowercase ''https'' = ''https''"
  by code_simp+

section \<open>Concrete crates for evaluation\<close>

definition reference_url_parse :: "string \<Rightarrow> string + url" where
  "reference_url_parse s =
     (case after_first ''://'' s of
        None \<Rightarrow> Inl ''relative URL without a base''
      | Some r \<Rightarrow> Inr \<lparr>u_scheme = takeWhile (\<lambda>c. c \<noteq> CHR '':'') s, u_username = [], u_password = None,
          u_host = Some (takeWhile (\<lambda>c. c \<noteq> CHR ''/'') r), u_port = None,
          u_path = dropWhile (\<lambda>c. c \<noteq> CHR ''/'') r\<rparr>)"

definition reference_net_env :: "block net_env" where
  "reference_net_env = \<lparr>url_parse = reference_url_parse,
     cidr_parse = (\<lambda>s. if s = ''8.8.0.0/16'' then Inr ([8, 8, 0, 0], 16) else Inl ''invalid IP address syntax''),
     cidr_contains = (\<lambda>n ip. in_block ip n), cidr_show = (\<lambda>_. ''8.8.0.0/16'')\<rparr>"

definition reference_dns :: resolver where
  "reference_dns s =
     (if s = ''one.example:0'' then Inr [V4 (Ipv4 93 184 216 34), V6 (Ipv6 0x2606 0x2800 0 0 0 0 0 1)]
      else if s = ''rebind.example:0'' then Inr [V4 (Ipv4 93 184 216 34), V6 (Ipv6 0 0 0 0 0 0xffff 0xa9fe 0xa9fe)]
      else Inl ''failed to lookup address information'')"

definition reference_guard :: "block guard" where
  "reference_guard = \<lparr>g_config = default_ssrf_config, blocked_nets = [], allowed_set = {''api.local''}\<rparr>"

section \<open>The blocks as the comments name them\<close>

text \<open>
  The tables written from the comments of \<open>resolver.rs\<close>. They differ from the tests at two places: the comments name
  64:ff9b::/96 where the test compares two segments, and 224.0.0.0/4 and the broadcast address where the test takes
  every first octet from 224 on. The addresses in between are \<open>between_tables\<close>.
\<close>

definition documented_private_blocks :: block_table where
  "documented_private_blocks = \<lparr>blocks4 = blocks4 private_blocks,
     blocks6 = [([0xfc00, 0, 0, 0, 0, 0, 0, 0], 7), ([0x64, 0xff9b, 0, 0, 0, 0, 0, 0], 96)]\<rparr>"

definition documented_reserved_blocks :: block_table where
  "documented_reserved_blocks = \<lparr>blocks4 = [([0, 0, 0, 0], 8), ([224, 0, 0, 0], 4), ([255, 255, 255, 255], 32)],
     blocks6 = [([0, 0, 0, 0, 0, 0, 0, 0], 128), ([0xff00, 0, 0, 0, 0, 0, 0, 0], 8)]\<rparr>"

definition documented_tables :: "ssrf_config \<Rightarrow> block_table list" where
  "documented_tables c = (if block_localhost c then [loopback_blocks] else [])
     @ (if block_metadata c then [metadata_blocks] else [])
     @ (if block_private_ips c then [documented_private_blocks] else []) @ [link_local_blocks, documented_reserved_blocks]"

definition documented_address :: "'net net_env \<Rightarrow> 'net guard \<Rightarrow> ip_addr \<Rightarrow> bool" where
  "documented_address E g ip \<longleftrightarrow>
     list_ex (\<lambda>t. in_table t ip) (documented_tables (g_config g))
       \<or> list_ex (\<lambda>net. cidr_contains E net ip) (blocked_nets g)"

fun between_tables :: "ip_addr \<Rightarrow> bool" where
  "between_tables (V4 a) \<longleftrightarrow> in_block (V4 a) ([240, 0, 0, 0], 4) \<and> \<not> in_block (V4 a) ([255, 255, 255, 255], 32)"
| "between_tables (V6 a) \<longleftrightarrow> in_block (V6 a) ([0x64, 0xff9b, 0, 0, 0, 0, 0, 0], 32)
     \<and> \<not> in_block (V6 a) ([0x64, 0xff9b, 0, 0, 0, 0, 0, 0], 96)"

lemma in_block_quarter:
  "q < 256 \<Longrightarrow> r < 256 \<Longrightarrow> s < 256 \<Longrightarrow> in_block (V4 (Ipv4 a b c d)) ([p, q, r, s], 4) \<longleftrightarrow> unat a div 16 = p div 16"
proof -
  have d: "(x :: nat) div 268435456 = x div 256 div 256 div 256 div 16" for x by (simp add: div_mult2_eq [symmetric])
  show "q < 256 \<Longrightarrow> r < 256 \<Longrightarrow> s < 256 \<Longrightarrow> in_block (V4 (Ipv4 a b c d)) ([p, q, r, s], 4) \<longleftrightarrow> unat a div 16 = p div 16"
    by (simp add: in_block.simps d place_div unat8)
qed

lemma longer_prefix: "in_block (V6 a) (net, 96) \<Longrightarrow> in_block (V6 a) (net, 32)"
proof -
  have d: "(x :: nat) div 2 ^ 96 = x div 2 ^ 32 div 2 ^ 64" for x by (simp add: div_mult2_eq [symmetric])
  show "in_block (V6 a) (net, 96) \<Longrightarrow> in_block (V6 a) (net, 32)"
    by (cases a) (simp add: in_block.simps d del: power_numeral)
qed

lemma first_octets: "unat (a :: 8 word) div 32 = 7 \<longleftrightarrow> unat a div 16 = 14 \<or> unat a div 16 = 15"
  using unat8 [of a] by (auto simp: div_eq_range)

lemma reserved_documented:
  "in_table reserved_blocks ip \<longleftrightarrow> in_table documented_reserved_blocks ip \<or>
     in_table reserved_blocks ip \<and> between_tables ip"
proof (cases ip)
  case (V4 v)
  then show ?thesis
    by (cases v) (auto simp: documented_reserved_blocks_def reserved_blocks_def in_block_v4 in_block_quarter first_octets)
next
  case (V6 v)
  then show ?thesis by (auto simp: documented_reserved_blocks_def reserved_blocks_def)
qed

lemma private_documented:
  "in_table private_blocks ip \<longleftrightarrow> in_table documented_private_blocks ip \<or>
     in_table private_blocks ip \<and> between_tables ip"
proof (cases ip)
  case (V4 v)
  then show ?thesis by (auto simp: documented_private_blocks_def)
next
  case (V6 v)
  then show ?thesis
    using longer_prefix [of v] by (auto simp: documented_private_blocks_def private_blocks_def)
qed

lemma refused_documented:
  "refused_address E g ip \<longleftrightarrow> documented_address E g ip \<or> refused_address E g ip \<and> between_tables ip"
  using private_documented [of ip] reserved_documented [of ip]
  by (auto simp: refused_address_def documented_address_def refused_tables_def documented_tables_def)

section \<open>Properties\<close>

text \<open>
  C10. The check of an address, written in the code as tests on octets and masked segments, refuses every address that
  lies in a block the comments of the classification name (loopback, metadata and private blocks under their switches,
  link-local and reserved ones always) or in a blocked CIDR. Apart from the addresses where tests and comments differ,
  which are 64:ff9b::/32 without 64:ff9b::/96 and 240.0.0.0/4 without the broadcast address, it accepts every other
  one. An address in IPv4-mapped IPv6 form is judged exactly as the IPv4 address inside it.
\<close>

theorem address_check_is_block_tables:
  "(documented_address E g (normalize_ipv4_mapped ip) \<longrightarrow> check_ip_locked E g ip \<noteq> Inr ()) \<and>
   (\<not> between_tables (normalize_ipv4_mapped ip) \<longrightarrow>
      (check_ip_locked E g ip = Inr ()) = (\<not> documented_address E g (normalize_ipv4_mapped ip))) \<and>
   check_ip_locked E g (V6 (to_ipv6_mapped a)) = check_ip_locked E g (V4 a)"
  using check_ip_locked_normal [of E g "V6 (to_ipv6_mapped a)"] refused_documented [of E g "normalize_ipv4_mapped ip"]
  by (auto simp: check_ip_locked_iff mapped_roundtrip)

lemma address_check_is_block_tables_witness:
  "check_ip_locked reference_net_env reference_guard (V4 (Ipv4 8 8 8 8)) = Inr () \<and>
   check_ip_locked reference_net_env reference_guard (V6 (to_ipv6_mapped (Ipv4 10 0 0 1))) \<noteq> Inr ()"
proof -
  have "\<not> between_tables (normalize_ipv4_mapped (V4 (Ipv4 8 8 8 8)))"
    "\<not> documented_address reference_net_env reference_guard (normalize_ipv4_mapped (V4 (Ipv4 8 8 8 8)))"
    "documented_address reference_net_env reference_guard (normalize_ipv4_mapped (V4 (Ipv4 10 0 0 1)))" by code_simp+
  then show ?thesis
    using address_check_is_block_tables [of reference_net_env reference_guard "V4 (Ipv4 8 8 8 8)" "Ipv4 10 0 0 1"]
      address_check_is_block_tables [of reference_net_env reference_guard "V4 (Ipv4 10 0 0 1)" "Ipv4 10 0 0 1"]
    by simp
qed



text \<open>
  The three entry points that resolve a URL decide alike: validating a URL and validating its resolution are
  the same function, and both succeed or fail, with the same error, exactly as the operation that returns
  the addresses. The scheme test that follows the parse is never the one that refuses.
\<close>

theorem entry_points_agree:
  "validate_url E dns g raw = map_sum id (\<lambda>_. ()) (resolve_and_validate_collect E dns g raw) \<and>
   resolve_and_validate E dns g raw = validate_url E dns g raw \<and>
   validate_url E dns g raw \<noteq> Inl (BlockedScheme s)"
proof -
  have s: "p_scheme p = ''http'' \<or> p_scheme p = ''https''" if "parse_url E raw = Inr p" for p
    using parse_url_clean [OF that] checked_url_clean by blast
  have a: "check_ip_locked E g ip \<noteq> Inl (BlockedScheme s)" for ip
    by (auto simp: check_ip_locked_def Let_def split: option.splits)
  have b: "check_all E g host ips \<noteq> Inl (BlockedScheme s)" for host ips
    by (induction ips) (auto split: sum.splits)
  have c: "resolve_and_validate_collect_locked E dns g host \<noteq> Inl (BlockedScheme s)" for host
    using a b by (auto simp: resolve_and_validate_collect_locked_def resolve_host_dns_def Let_def
        split: option.splits sum.splits if_splits)
  have d: "map_sum id (\<lambda>_. ()) (resolve_and_validate_collect_locked E dns g host) \<noteq> Inl (BlockedScheme s)" for host
    using c [of host] by (cases "resolve_and_validate_collect_locked E dns g host") auto
  show ?thesis
    using s d by (auto simp: validate_url_def resolve_and_validate_def resolve_and_validate_collect_def
        resolve_and_validate_locked_def Let_def http_lower split: sum.splits)
qed

text \<open>
  A CIDR added to a running guard holds from then on: whatever hosts and CIDRs are added or removed
  afterwards, an address in it is refused by every later check and no later resolution returns it.
\<close>

theorem added_cidr_holds:
  assumes "add_blocked_cidr E cidr g = Inr g'" and "cidr_parse E cidr = Inr net"
    and "cidr_contains E net (normalize_ipv4_mapped ip)"
    and "g2 = run_events (guard_step E) g' es"
  shows "check_ip_locked E g2 ip \<noteq> Inr () \<and>
    (case resolve_and_validate_collect E dns g2 raw of Inl _ \<Rightarrow> True | Inr ips \<Rightarrow> ip \<notin> set ips)"
proof -
  have "g_config g' = g_config g' \<and> set [net] \<subseteq> set (blocked_nets g')"
    using assms(1,2) by (auto simp: add_blocked_cidr_def)
  then have "net \<in> set (blocked_nets g2)"
    using keeps.run_keeps [where c = "g_config g'" and N = "[net]" and E = E and s = g' and es = es]
    by (simp add: assms(4))
  then have c: "check_ip_locked E g2 ip \<noteq> Inr ()"
    using assms(3) by (auto simp: check_ip_locked_iff refused_address_def list_ex_iff)
  then show ?thesis
    using collect_locked_checked [of E dns g2]
    by (auto simp: resolve_and_validate_collect_def Let_def split: sum.splits if_splits)
qed

lemma added_cidr_holds_witness:
  "check_ip_locked reference_net_env
      (run_events (guard_step reference_net_env) (reference_guard\<lparr>blocked_nets := [([8, 8, 0, 0], 16)]\<rparr>)
        [AddHost ''X'', RemoveHost ''API.local'']) (V4 (Ipv4 8 8 4 4)) \<noteq> Inr () \<and>
    (case resolve_and_validate_collect reference_net_env reference_dns
      (run_events (guard_step reference_net_env) (reference_guard\<lparr>blocked_nets := [([8, 8, 0, 0], 16)]\<rparr>)
        [AddHost ''X'', RemoveHost ''API.local'']) ''8.8.4.4''
     of Inl _ \<Rightarrow> True | Inr ips \<Rightarrow> V4 (Ipv4 8 8 4 4) \<notin> set ips)"
  by (rule added_cidr_holds [where cidr = "''8.8.0.0/16''" and g = reference_guard and
        net = "([8, 8, 0, 0], 16)" and es = "[AddHost ''X'', RemoveHost ''API.local'']"])
    (code_simp | rule refl)+

text \<open>
  The comment of \<open>is_private_ipv6\<close> names the translation prefix of RFC 6052, 64:ff9b::/96; the test covers
  64:ff9b::/32.
\<close>

lemma translation_prefix_wider:
  "is_private_ip (V6 (Ipv6 0x64 0xff9b 1 0 0 0 0 0)) \<and>
   \<not> in_block (V6 (Ipv6 0x64 0xff9b 1 0 0 0 0 0)) ([0x64, 0xff9b, 0, 0, 0, 0, 0, 0], 96)"
  by code_simp

text \<open>The comment of \<open>is_reserved_ip\<close> names 224.0.0.0/4; the test covers 240.0.0.0/4 as well.\<close>

lemma multicast_test_wider:
  "is_reserved_ip (V4 (Ipv4 240 0 0 1)) \<and> \<not> in_block (V4 (Ipv4 240 0 0 1)) ([224, 0, 0, 0], 4)"
  by code_simp

end
