(* ===== verification/Workflow_Graph.thy ===== *)
theory Workflow_Graph
  imports Json "HOL-Library.AList" "HOL-Library.Multiset"
begin

text \<open>
  The workflow definition (\<open>crates/nemesis-workflow/src/types.rs\<close>) and \<open>topological_sort\<close> of
  \<open>scheduler.rs\<close>: Kahn's algorithm with execution levels. A \<open>HashMap\<close> that is only looked up is an
  association list; where the program iterates over one, the order is the argument \<open>hash_order\<close>, any
  function that permutes its argument. Decrementing a degree at zero would panic, so it is an error value.
\<close>

section \<open>Definitions of a workflow\<close>

record node_def =
  nd_id :: string
  nd_node_type :: string
  nd_config :: "(string \<times> json) list"
  nd_depends_on :: "string list"
  nd_retry_count :: "64 word"
  nd_timeout :: "string option"
  nd_is_terminal :: bool

record edge =
  from_node :: string
  to_node :: string
  edge_condition :: "string option"

section \<open>The algorithm\<close>

type_synonym adjacency_map = "(string \<times> string list) list"
type_synonym degree_map = "(string \<times> nat) list"

datatype topo_error = CycleDetected | DegreeUnderflow

definition add_neighbor :: "string \<Rightarrow> string \<Rightarrow> adjacency_map \<Rightarrow> adjacency_map" where
  "add_neighbor u v adj = AList.update u (case map_of adj u of None \<Rightarrow> [v] | Some vs \<Rightarrow> vs @ [v]) adj"

definition add_degree :: "string \<Rightarrow> degree_map \<Rightarrow> degree_map" where
  "add_degree v deg = AList.update v (case map_of deg v of None \<Rightarrow> 1 | Some d \<Rightarrow> d + 1) deg"

fun add_arc :: "string \<times> string \<Rightarrow> adjacency_map \<times> degree_map \<Rightarrow> adjacency_map \<times> degree_map" where
  "add_arc (u, v) (adj, deg) = (add_neighbor u v adj, add_degree v deg)"

definition initial_degrees :: "node_def list \<Rightarrow> degree_map" where
  "initial_degrees nodes = fold (\<lambda>n. AList.update (nd_id n) 0) nodes []"

definition edge_arcs :: "edge list \<Rightarrow> (string \<times> string) list" where
  "edge_arcs edges = map (\<lambda>e. (from_node e, to_node e)) edges"

definition depends_arcs :: "node_def list \<Rightarrow> (string \<times> string) list" where
  "depends_arcs nodes = concat (map (\<lambda>n. map (\<lambda>dep. (dep, nd_id n)) (nd_depends_on n)) nodes)"

definition build_graph :: "node_def list \<Rightarrow> edge list \<Rightarrow> adjacency_map \<times> degree_map" where
  "build_graph nodes edges =
     fold add_arc (depends_arcs nodes) (fold add_arc (edge_arcs edges) ([], initial_degrees nodes))"

text \<open>The inner loop over the neighbours of one identifier.\<close>

fun relax :: "string list \<Rightarrow> degree_map \<Rightarrow> string list \<Rightarrow> (degree_map \<times> string list) option" where
  "relax [] deg next_queue = Some (deg, next_queue)"
| "relax (n # ns) deg next_queue =
     (case map_of deg n of
        None \<Rightarrow> relax ns deg next_queue
      | Some d \<Rightarrow>
          if d = 0 then None
          else relax ns (AList.update n (d - 1) deg) (if d - 1 = 0 then next_queue @ [n] else next_queue))"

definition neighbors :: "adjacency_map \<Rightarrow> string \<Rightarrow> string list" where
  "neighbors adj u = (case map_of adj u of None \<Rightarrow> [] | Some vs \<Rightarrow> vs)"

fun run_level :: "adjacency_map \<Rightarrow> string list \<Rightarrow> degree_map \<Rightarrow> string list \<Rightarrow>
    (degree_map \<times> string list) option" where
  "run_level adj [] deg next_queue = Some (deg, next_queue)"
| "run_level adj (u # us) deg next_queue =
     (case relax (neighbors adj u) deg next_queue of
        None \<Rightarrow> None
      | Some (deg', next') \<Rightarrow> run_level adj us deg' next')"

definition degree_sum :: "degree_map \<Rightarrow> nat" where
  "degree_sum deg = (\<Sum>v\<in>fst ` set deg. the (map_of deg v))"

lemma degree_sum_update:
  assumes "map_of deg n = Some d" and "d \<noteq> 0"
  shows "degree_sum (AList.update n (d - 1) deg) + 1 = degree_sum deg"
proof -
  have n: "n \<in> fst ` set deg" using assms(1) by (metis domI dom_map_of_conv_image_fst)
  have k: "fst ` set (AList.update n (d - 1) deg) = fst ` set deg"
    using assms(1) n unfolding dom_map_of_conv_image_fst [symmetric] by (auto simp: update_conv')
  have "degree_sum (AList.update n (d - 1) deg)
      = (\<Sum>v\<in>fst ` set deg. if v = n then d - 1 else the (map_of deg v))"
    unfolding degree_sum_def k by (rule sum.cong) (auto simp: update_conv')
  also have "\<dots> = (d - 1) + (\<Sum>v\<in>fst ` set deg - {n}. the (map_of deg v))"
    using n by (subst sum.remove [of _ n]) auto
  finally show ?thesis
    using n assms by (simp add: degree_sum_def sum.remove [of _ n "\<lambda>v. the (map_of deg v)"])
qed

lemma relax_sum:
  "relax ns deg nq = Some (deg', nq') \<Longrightarrow>
     degree_sum deg' \<le> degree_sum deg \<and> (length nq < length nq' \<longrightarrow> degree_sum deg' < degree_sum deg)"
proof (induction ns arbitrary: deg nq)
  case Nil
  then show ?case by simp
next
  case (Cons n ns)
  show ?case
  proof (cases "map_of deg n")
    case None
    with Cons show ?thesis by simp
  next
    case (Some d)
    with Cons.prems have d: "d \<noteq> 0" by (auto split: if_splits)
    have "degree_sum deg' \<le> degree_sum (AList.update n (d - 1) deg)"
      using Cons.prems Some d Cons.IH by (fastforce split: if_splits)
    with degree_sum_update [OF Some d] show ?thesis by linarith
  qed
qed

lemma run_level_sum:
  "run_level adj us deg nq = Some (deg', nq') \<Longrightarrow>
     degree_sum deg' \<le> degree_sum deg \<and> (length nq < length nq' \<longrightarrow> degree_sum deg' < degree_sum deg)"
proof (induction us arbitrary: deg nq)
  case Nil
  then show ?case by simp
next
  case (Cons u us)
  then obtain deg1 nq1 where r: "relax (neighbors adj u) deg nq = Some (deg1, nq1)"
    and l: "run_level adj us deg1 nq1 = Some (deg', nq')"
    by (auto split: option.splits)
  from relax_sum [OF r] Cons.IH [OF l] show ?case by linarith
qed

function kahn_loop :: "adjacency_map \<Rightarrow> string list \<Rightarrow> degree_map \<Rightarrow> string list list \<Rightarrow> nat \<Rightarrow>
    (string list list \<times> nat) option" where
  "kahn_loop adj queue deg levels visited =
     (if queue = [] then Some (levels, visited)
      else (case run_level adj queue deg [] of
          None \<Rightarrow> None
        | Some (deg', next_queue) \<Rightarrow>
            kahn_loop adj next_queue deg' (levels @ [queue]) (visited + length queue)))"
  by pat_completeness auto
termination
proof (relation "measure (\<lambda>(adj, queue, deg, levels, visited). degree_sum deg + (if queue = [] then 0 else 1))")
  fix adj queue deg levels visited p deg' next_queue
  assume "queue \<noteq> []" and "run_level adj queue deg [] = Some p" and "(deg', next_queue) = p"
  then show "((adj, next_queue, deg', levels @ [queue], visited + length queue),
      (adj, queue, deg, levels, visited))
    \<in> measure (\<lambda>(adj, queue, deg, levels, visited). degree_sum deg + (if queue = [] then 0 else 1))"
    using run_level_sum [of adj queue deg "[]" deg' next_queue] by auto
qed simp

declare kahn_loop.simps [simp del]

definition zero_degrees :: "degree_map \<Rightarrow> string list" where
  "zero_degrees deg = map fst (filter (\<lambda>(v, d). d = 0) deg)"

definition topological_sort ::
  "(string list \<Rightarrow> string list) \<Rightarrow> node_def list \<Rightarrow> edge list \<Rightarrow> topo_error + string list list" where
  "topological_sort hash_order nodes edges =
     (case build_graph nodes edges of (adj, deg) \<Rightarrow>
       (case kahn_loop adj (hash_order (zero_degrees deg)) deg [] 0 of
          None \<Rightarrow> Inl DegreeUnderflow
        | Some (levels, visited) \<Rightarrow>
            if visited \<noteq> card (nd_id ` set nodes) then Inl CycleDetected else Inr levels))"

section \<open>What the tables hold\<close>

text \<open>The arcs of the graph in the order they are entered, and the number of arcs into a node from outside a set.\<close>

definition arcs :: "node_def list \<Rightarrow> edge list \<Rightarrow> (string \<times> string) list" where
  "arcs nodes edges = edge_arcs edges @ depends_arcs nodes"

definition indegree :: "(string \<times> string) list \<Rightarrow> string set \<Rightarrow> string \<Rightarrow> nat" where
  "indegree A P v = length (filter (\<lambda>(a, b). b = v \<and> a \<notin> P) A)"

definition graph_keys :: "node_def list \<Rightarrow> edge list \<Rightarrow> string set" where
  "graph_keys nodes edges = nd_id ` set nodes \<union> snd ` set (arcs nodes edges)"

lemma indegree_append: "indegree (A @ B) P v = indegree A P v + indegree B P v"
  by (simp add: indegree_def)

lemma indegree_0: "indegree A P v = 0 \<longleftrightarrow> (\<forall>u. (u, v) \<in> set A \<longrightarrow> u \<in> P)"
  by (auto simp: indegree_def filter_empty_conv)

lemma map_of_add_degree:
  "map_of (add_degree v deg) w =
     (if w = v then Some ((case map_of deg v of None \<Rightarrow> 0 | Some d \<Rightarrow> d) + 1) else map_of deg w)"
  by (auto simp: add_degree_def update_conv' split: option.splits)

lemma neighbors_add: "neighbors (add_neighbor u v adj) w = neighbors adj w @ (if w = u then [v] else [])"
  by (auto simp: neighbors_def add_neighbor_def update_conv' split: option.splits)

lemma fold_add_arc:
  assumes "fold add_arc A (adj, deg) = (adj', deg')"
  shows "neighbors adj' u = neighbors adj u @ map snd (filter (\<lambda>(a, b). a = u) A)"
    and "map_of deg' v = (if v \<in> snd ` set A
           then Some ((case map_of deg v of None \<Rightarrow> 0 | Some d \<Rightarrow> d) + indegree A {} v) else map_of deg v)"
  using assms
proof (induction A arbitrary: adj deg)
  case Nil
  {
    case 1
    then show ?case by simp
  next
    case 2
    then show ?case by simp
  }
next
  case (Cons e A)
  obtain a b where e: "e = (a, b)" by fastforce
  {
    case 1
    then have "fold add_arc A (add_neighbor a b adj, add_degree b deg) = (adj', deg')" by (simp add: e)
    from Cons.IH(1) [OF this] show ?case by (auto simp: e neighbors_add)
  next
    case 2
    then have "fold add_arc A (add_neighbor a b adj, add_degree b deg) = (adj', deg')" by (simp add: e)
    from Cons.IH(2) [OF this] show ?case
      by (auto simp: e map_of_add_degree indegree_def filter_empty_conv image_iff split: option.splits)
  }
qed

lemma map_of_initial_degrees:
  "map_of (initial_degrees nodes) v = (if v \<in> nd_id ` set nodes then Some 0 else None)"
proof -
  have "map_of (fold (\<lambda>n. AList.update (nd_id n) 0) nodes d) v =
    (if v \<in> nd_id ` set nodes then Some (0 :: nat) else map_of d v)" for d
    by (induction nodes arbitrary: d) (auto simp: update_conv')
  then show ?thesis by (simp add: initial_degrees_def)
qed

lemma build_graph_tables:
  assumes "build_graph nodes edges = (adj, deg)"
  shows "neighbors adj u = map snd (filter (\<lambda>(a, b). a = u) (arcs nodes edges))"
    and "map_of deg v = (if v \<in> graph_keys nodes edges then Some (indegree (arcs nodes edges) {} v) else None)"
proof -
  have b: "fold add_arc (arcs nodes edges) ([], initial_degrees nodes) = (adj, deg)"
    using assms by (simp add: build_graph_def arcs_def)
  show "neighbors adj u = map snd (filter (\<lambda>(a, b). a = u) (arcs nodes edges))"
    using fold_add_arc(1) [OF b] by (simp add: neighbors_def)
  have "indegree (arcs nodes edges) {} v = 0" if "v \<notin> snd ` set (arcs nodes edges)"
    using that by (force simp: indegree_0 image_iff)
  then show "map_of deg v = (if v \<in> graph_keys nodes edges then Some (indegree (arcs nodes edges) {} v) else None)"
    using fold_add_arc(2) [OF b] by (auto simp: map_of_initial_degrees graph_keys_def)
qed

lemma distinct_keys_build: "build_graph nodes edges = (adj, deg) \<Longrightarrow> distinct (map fst deg)"
proof -
  have a: "distinct (map fst d) \<Longrightarrow> distinct (map fst (snd (fold add_arc A (adj, d))))" for A adj d
    by (induction A arbitrary: adj d) (auto simp: add_degree_def distinct_update)
  have i: "distinct (map fst d) \<Longrightarrow> distinct (map fst (fold (\<lambda>n. AList.update (nd_id n) 0) nodes d))" for d :: degree_map
    by (induction nodes arbitrary: d) (auto simp: distinct_update)
  assume "build_graph nodes edges = (adj, deg)"
  then have "deg = snd (fold add_arc (arcs nodes edges) ([], initial_degrees nodes))"
    by (simp add: build_graph_def arcs_def)
  then show ?thesis using a i [of "[]"] by (simp add: initial_degrees_def)
qed

section \<open>One level\<close>

definition arcs_from :: "(string \<times> string) list \<Rightarrow> string set \<Rightarrow> string \<Rightarrow> nat" where
  "arcs_from A Q v = length (filter (\<lambda>(a, b). b = v \<and> a \<in> Q) A)"

lemma indegree_split: "P \<inter> Q = {} \<Longrightarrow> indegree A P v = indegree A (P \<union> Q) v + arcs_from A Q v"
  by (induction A) (auto simp: indegree_def arcs_from_def)

lemma relax_append: "relax (ms @ ns) deg nq = Option.bind (relax ms deg nq) (\<lambda>(d, q). relax ns d q)"
  by (induction ms arbitrary: deg nq) (auto split: option.splits)

lemma run_level_relax: "run_level adj us deg nq = relax (concat (map (neighbors adj) us)) deg nq"
  by (induction us arbitrary: deg nq) (auto simp: relax_append split: option.splits bind_splits)

lemma relax_spec:
  assumes "\<forall>v. map_of deg v = (if v \<in> K then Some (c v) else None)"
    and "\<forall>v. count_list ns v \<le> c v" and "set ns \<subseteq> K"
  shows "\<exists>deg' new. relax ns deg nq = Some (deg', nq @ new)
    \<and> (\<forall>v. map_of deg' v = (if v \<in> K then Some (c v - count_list ns v) else None))
    \<and> distinct new \<and> set new = {v \<in> set ns. c v = count_list ns v}"
  using assms
proof (induction ns arbitrary: c deg nq)
  case Nil
  then show ?case by simp
next
  case (Cons n ns)
  let ?c = "c(n := c n - 1)" and ?deg = "AList.update n (c n - 1) deg"
    and ?nq = "if c n - 1 = 0 then nq @ [n] else nq"
  have n: "n \<in> K" "c n \<noteq> 0" using Cons.prems(2,3) by (auto dest: spec [of _ n])
  have le: "\<forall>v. count_list ns v \<le> ?c v" using Cons.prems(2) by (auto split: if_splits)
  have "\<forall>v. map_of ?deg v = (if v \<in> K then Some (?c v) else None)"
    using Cons.prems(1) n by (auto simp: update_conv')
  from Cons.IH [OF this le, of ?nq] Cons.prems(3) obtain deg' new where
    r: "relax ns ?deg ?nq = Some (deg', ?nq @ new)"
    and d: "\<forall>v. map_of deg' v = (if v \<in> K then Some (?c v - count_list ns v) else None)"
    and s: "distinct new" "set new = {v \<in> set ns. ?c v = count_list ns v}" by auto
  have step: "relax (n # ns) deg nq = relax ns ?deg ?nq" using Cons.prems(1) n by simp
  show ?case
  proof (cases "c n - 1 = 0")
    case True
    then have "n \<notin> set ns" using le by (metis count_list_0_iff fun_upd_same le_zero_eq)
    then have "distinct (n # new)" "set (n # new) = {v \<in> set (n # ns). c v = count_list (n # ns) v}"
      using s True n by (auto simp: count_list_0_iff)
    moreover have "relax (n # ns) deg nq = Some (deg', nq @ (n # new))" using step r True by simp
    ultimately show ?thesis using d by (intro exI [of _ deg'] exI [of _ "n # new"]) auto
  next
    case False
    have mem: "v \<in> set new \<longleftrightarrow> v \<in> set ns \<and> ?c v = count_list ns v" for v by (simp add: s(2))
    have n_in: "c n - 1 = count_list ns n \<Longrightarrow> n \<in> set ns" using False by (metis count_list_0_iff)
    have "v \<in> set new \<longleftrightarrow> v \<in> set (n # ns) \<and> c v = count_list (n # ns) v" for v
    proof (cases "v = n")
      case True
      have "c n = count_list (n # ns) n \<longleftrightarrow> c n - 1 = count_list ns n" using n(2) by simp linarith
      with n_in mem [of n] show ?thesis unfolding True by auto
    next
      case False
      with mem [of v] show ?thesis by simp
    qed
    then have "set new = {v \<in> set (n # ns). c v = count_list (n # ns) v}" by blast
    moreover have "relax (n # ns) deg nq = Some (deg', nq @ new)" using step r False by simp
    ultimately show ?thesis using d s(1) by (intro exI [of _ deg'] exI [of _ new]) auto
  qed
qed

lemma count_neighbors:
  assumes "\<And>u. neighbors adj u = map snd (filter (\<lambda>(a, b). a = u) A)" and "distinct us"
  shows "count_list (concat (map (neighbors adj) us)) v = arcs_from A (set us) v"
  using assms(2)
proof (induction us)
  case Nil
  then show ?case by (simp add: arcs_from_def)
next
  case (Cons u us)
  have "count_list (neighbors adj u) v = arcs_from A {u} v"
    unfolding assms(1) arcs_from_def by (induction A) auto
  moreover have "u \<notin> set us \<Longrightarrow> arcs_from A (insert u (set us)) v = arcs_from A {u} v + arcs_from A (set us) v"
    unfolding arcs_from_def by (induction A) auto
  ultimately show ?case using Cons by simp
qed

section \<open>The loop\<close>

text \<open>
  A list of levels is layered over a graph when every predecessor of a node is in an earlier level and
  every node after the first level has a predecessor in the level just before it.
\<close>

definition layered :: "(string \<times> string) list \<Rightarrow> string list list \<Rightarrow> bool" where
  "layered A L \<longleftrightarrow> (\<forall>i < length L. \<forall>v \<in> set (L ! i).
     (\<forall>u. (u, v) \<in> set A \<longrightarrow> (\<exists>j < i. u \<in> set (L ! j)))
     \<and> (0 < i \<longrightarrow> (\<exists>u \<in> set (L ! (i - 1)). (u, v) \<in> set A)))"

definition kahn_inv :: "(string \<times> string) list \<Rightarrow> string set \<Rightarrow> string list list \<Rightarrow> string list \<Rightarrow> degree_map \<Rightarrow> bool" where
  "kahn_inv A K L queue deg \<longleftrightarrow>
     distinct (concat L @ queue) \<and> set (concat L @ queue) \<subseteq> K \<and>
     (\<forall>v. map_of deg v = (if v \<in> K then Some (indegree A (set (concat L)) v) else None)) \<and>
     (\<forall>v\<in>K. (v \<in> set (concat L @ queue)) = (indegree A (set (concat L)) v = 0)) \<and>
     layered A (L @ [queue]) \<and> [] \<notin> set L"

lemma layered_snoc:
  assumes "layered A L" and "L \<noteq> []"
    and "\<And>v u. v \<in> set q \<Longrightarrow> (u, v) \<in> set A \<Longrightarrow> u \<in> set (concat L)"
    and "\<And>v. v \<in> set q \<Longrightarrow> \<exists>u \<in> set (last L). (u, v) \<in> set A"
  shows "layered A (L @ [q])"
  unfolding layered_def
proof (intro allI impI ballI)
  fix i v
  assume i: "i < length (L @ [q])" and v: "v \<in> set ((L @ [q]) ! i)"
  show "(\<forall>u. (u, v) \<in> set A \<longrightarrow> (\<exists>j < i. u \<in> set ((L @ [q]) ! j)))
     \<and> (0 < i \<longrightarrow> (\<exists>u \<in> set ((L @ [q]) ! (i - 1)). (u, v) \<in> set A))"
  proof (cases "i < length L")
    case True
    have eq: "(L @ [q]) ! j = L ! j" if "j \<le> i" for j using True that by (simp add: nth_append)
    have "(\<forall>u. (u, v) \<in> set A \<longrightarrow> (\<exists>j < i. u \<in> set (L ! j)))
     \<and> (0 < i \<longrightarrow> (\<exists>u \<in> set (L ! (i - 1)). (u, v) \<in> set A))"
      using assms(1) True v unfolding layered_def eq [OF order_refl] by meson
    then show ?thesis using eq [of "i - 1"] eq by (metis diff_le_self less_imp_le)
  next
    case False
    with i have il: "i = length L" by simp
    with v have vq: "v \<in> set q" by simp
    have "\<exists>j < i. u \<in> set ((L @ [q]) ! j)" if "(u, v) \<in> set A" for u
    proof -
      from assms(3) [OF vq that] obtain x where "x \<in> set L" "u \<in> set x" by auto
      then obtain j where "j < length L" "L ! j = x" by (auto simp: in_set_conv_nth)
      with \<open>u \<in> set x\<close> il show ?thesis by (intro exI [of _ j]) (simp add: nth_append)
    qed
    moreover have "\<exists>u \<in> set ((L @ [q]) ! (i - 1)). (u, v) \<in> set A"
      using assms(2) assms(4) [OF vq] il by (simp add: nth_append last_conv_nth)
    ultimately show ?thesis by blast
  qed
qed

lemma kahn_step:
  assumes nb: "\<And>u. neighbors adj u = map snd (filter (\<lambda>(a, b). a = u) A)"
    and K: "snd ` set A \<subseteq> K" and inv: "kahn_inv A K L queue deg" and ne: "queue \<noteq> []"
  shows "\<exists>deg' next_queue. run_level adj queue deg [] = Some (deg', next_queue)
    \<and> kahn_inv A K (L @ [queue]) next_queue deg'"
proof -
  define P where "P = set (concat L)"
  define Q where "Q = set queue"
  define ns where "ns = concat (map (neighbors adj) queue)"
  have dist: "distinct (concat L @ queue)" and sub: "P \<union> Q \<subseteq> K" and disj: "P \<inter> Q = {}"
    and dg: "\<forall>v. map_of deg v = (if v \<in> K then Some (indegree A P v) else None)"
    and zero: "\<forall>v\<in>K. (v \<in> P \<union> Q) = (indegree A P v = 0)"
    and lay: "layered A (L @ [queue])" and nonempty: "[] \<notin> set L"
    using inv by (auto simp: kahn_inv_def P_def Q_def)
  have cnt: "count_list ns v = arcs_from A Q v" for v
    using count_neighbors [OF nb] dist by (simp add: ns_def Q_def)
  have split: "indegree A P v = indegree A (P \<union> Q) v + arcs_from A Q v" for v
    using disj by (rule indegree_split)
  have nsK: "set ns \<subseteq> K" using K by (auto simp: nb ns_def)
  have in_ns: "v \<in> set ns \<longleftrightarrow> (\<exists>u\<in>Q. (u, v) \<in> set A)" for v by (auto simp: nb image_iff ns_def Q_def)
  have le: "\<forall>v. count_list ns v \<le> indegree A P v" by (simp add: cnt split)
  from relax_spec [OF dg le nsK, of "[]"] obtain deg' new where
    r: "relax ns deg [] = Some (deg', new)"
    and d': "\<forall>v. map_of deg' v = (if v \<in> K then Some (indegree A (P \<union> Q) v) else None)"
    and new: "distinct new" "set new = {v \<in> set ns. indegree A (P \<union> Q) v = 0}"
    by (auto simp: cnt split)
  have pos: "v \<in> set ns \<Longrightarrow> arcs_from A Q v \<noteq> 0" for v
    using cnt [of v] by (metis count_list_0_iff)
  have fresh: "v \<notin> P \<union> Q" if "v \<in> set new" for v
  proof -
    have v: "v \<in> set ns" using that new(2) by simp
    then have "indegree A P v \<noteq> 0" using pos split [of v] by simp
    moreover have "v \<in> K" using v nsK by blast
    ultimately show ?thesis using bspec [OF zero] by simp
  qed
  have "(v \<in> P \<union> Q \<union> set new) = (indegree A (P \<union> Q) v = 0)" if "v \<in> K" for v
  proof (cases "v \<in> set ns")
    case True
    with that zero new(2) split [of v] show ?thesis by auto
  next
    case False
    then have "arcs_from A Q v = 0" using cnt [of v] by (metis count_list_0_iff)
    with that False zero new(2) split [of v] show ?thesis by auto
  qed
  moreover have "layered A ((L @ [queue]) @ [new])"
    by (rule layered_snoc [OF lay]) (use new(2) in \<open>auto simp: in_ns indegree_0 P_def Q_def\<close>)
  moreover have "set (concat (L @ [queue])) = P \<union> Q" "set (concat (L @ [queue]) @ new) = P \<union> Q \<union> set new"
    by (auto simp: P_def Q_def)
  moreover have "distinct (concat (L @ [queue]) @ new)" "set new \<subseteq> K"
    using dist new nsK fresh by (auto simp: P_def Q_def)
  ultimately have "kahn_inv A K (L @ [queue]) new deg'"
    using sub d' nonempty ne unfolding kahn_inv_def by auto
  with r show ?thesis by (auto simp: run_level_relax ns_def)
qed

lemma kahn_loop_inv:
  assumes K: "snd ` set A \<subseteq> K"
  shows "(\<And>u. neighbors adj u = map snd (filter (\<lambda>(a, b). a = u) A)) \<Longrightarrow> kahn_inv A K L queue deg \<Longrightarrow>
    visited = length (concat L) \<Longrightarrow>
    \<exists>L' deg'. kahn_loop adj queue deg L visited = Some (L', length (concat L')) \<and> kahn_inv A K L' [] deg'"
proof (induction adj queue deg L visited rule: kahn_loop.induct)
  case (1 adj queue deg L visited)
  show ?case
  proof (cases "queue = []")
    case True
    with 1 show ?thesis by (auto simp: kahn_loop.simps)
  next
    case False
    with kahn_step [OF "1.prems"(1) K "1.prems"(2)] obtain deg' nq where
      r: "run_level adj queue deg [] = Some (deg', nq)" and i: "kahn_inv A K (L @ [queue]) nq deg'" by blast
    have "\<exists>L' deg''. kahn_loop adj nq deg' (L @ [queue]) (visited + length queue) = Some (L', length (concat L'))
        \<and> kahn_inv A K L' [] deg''"
      by (rule "1.IH" [OF False r refl "1.prems"(1) i]) (simp add: "1.prems"(3))
    moreover have "kahn_loop adj queue deg L visited =
        kahn_loop adj nq deg' (L @ [queue]) (visited + length queue)"
      using False r by (simp add: kahn_loop.simps [of adj queue])
    ultimately show ?thesis by simp
  qed
qed

lemma zero_degrees_set:
  "distinct (map fst deg) \<Longrightarrow> set (zero_degrees deg) = {v. map_of deg v = Some 0} \<and> distinct (zero_degrees deg)"
  by (force simp: zero_degrees_def distinct_map inj_on_def map_of_eq_Some_iff image_iff)

text \<open>The loop from the start: what the levels hold when the queue runs dry.\<close>

lemma kahn_result:
  assumes ord: "\<And>xs. mset (hash_order xs) = mset xs" and b: "build_graph nodes edges = (adj, deg)"
  shows "\<exists>L deg'. kahn_loop adj (hash_order (zero_degrees deg)) deg [] 0 = Some (L, length (concat L))
    \<and> kahn_inv (arcs nodes edges) (graph_keys nodes edges) L [] deg'"
proof (rule kahn_loop_inv [OF _ build_graph_tables(1) [OF b]])
  let ?q = "hash_order (zero_degrees deg)" and ?A = "arcs nodes edges" and ?K = "graph_keys nodes edges"
  have z: "set (zero_degrees deg) = {v. map_of deg v = Some 0}" "distinct (zero_degrees deg)"
    using zero_degrees_set [OF distinct_keys_build [OF b]] by blast+
  have s: "set ?q = set (zero_degrees deg)" using ord by (metis mset_eq_setD)
  have q: "set ?q = {v \<in> ?K. indegree ?A {} v = 0}" "distinct ?q"
    using z(2) ord by (auto simp: s z(1) build_graph_tables(2) [OF b] split: if_splits
        dest: mset_eq_imp_distinct_iff [THEN iffD2, rotated])
  show "kahn_inv ?A ?K [] ?q deg"
    using q build_graph_tables(2) [OF b]
    by (auto simp: kahn_inv_def layered_def indegree_0)
qed (auto simp: graph_keys_def)

section \<open>Layerings\<close>

text \<open>Every reference of the definition is to a node of the definition.\<close>

definition references_defined :: "node_def list \<Rightarrow> edge list \<Rightarrow> bool" where
  "references_defined nodes edges \<longleftrightarrow>
     list_all (\<lambda>(u, v). u \<in> nd_id ` set nodes \<and> v \<in> nd_id ` set nodes) (arcs nodes edges)"

lemma layered_index:
  "layered A L \<Longrightarrow> i < length L \<Longrightarrow> v \<in> set (L ! i) \<Longrightarrow> (u, v) \<in> set A \<Longrightarrow> \<exists>j < i. u \<in> set (L ! j)"
  unfolding layered_def by meson

lemma layered_before:
  "layered A L \<Longrightarrow> 0 < i \<Longrightarrow> i < length L \<Longrightarrow> v \<in> set (L ! i) \<Longrightarrow> \<exists>u \<in> set (L ! (i - 1)). (u, v) \<in> set A"
  unfolding layered_def by meson

lemma in_some_level: "v \<in> set (concat L) \<Longrightarrow> \<exists>i < length L. v \<in> set (L ! i)"
  by (auto simp: in_set_conv_nth) blast

lemma level_unique:
  assumes "distinct (concat L)" and "i < length L" and "j < length L" and "v \<in> set (L ! i)" and "v \<in> set (L ! j)"
  shows "i = j"
  using assms
proof (induction L arbitrary: i j)
  case Nil
  then show ?case by simp
next
  case (Cons l L)
  have out: "v \<in> set l \<Longrightarrow> k < length L \<Longrightarrow> v \<notin> set (L ! k)" for k
    using Cons.prems(1) by (auto dest!: nth_mem)
  show ?case
    using Cons.prems out Cons.IH [of "i - 1" "j - 1"] by (cases i; cases j) auto
qed

text \<open>A layering over all nodes rules a cycle out; without a cycle nothing is left over.\<close>

lemma layered_acyclic:
  assumes "layered A L" and "snd ` set A \<subseteq> set (concat L)" and "distinct (concat L)"
  shows "acyclic (set A)"
proof -
  have step: "(u, v) \<in> (set A)\<^sup>+ \<Longrightarrow> i < length L \<Longrightarrow> v \<in> set (L ! i) \<Longrightarrow> \<exists>j < i. u \<in> set (L ! j)" for u v i
  proof (induction arbitrary: i rule: trancl_induct)
    case (base v)
    then show ?case using layered_index [OF assms(1)] by blast
  next
    case (step v w)
    then obtain j where "j < i" "v \<in> set (L ! j)" using layered_index [OF assms(1)] by blast
    with step.IH [of j] step.prems show ?case by (meson less_trans)
  qed
  have "(v, v) \<notin> (set A)\<^sup>+" for v
  proof
    assume c: "(v, v) \<in> (set A)\<^sup>+"
    then have "v \<in> snd ` set A" by (metis Range.intros snd_eq_Range trancl_range)
    from in_some_level [OF subsetD [OF assms(2) this]] obtain i
      where "i < length L" "v \<in> set (L ! i)" by blast
    from step [OF c this] obtain j where "j < i" "v \<in> set (L ! j)" by blast
    moreover have "j = i"
      using level_unique [OF assms(3), of j i v] \<open>j < i\<close> \<open>v \<in> set (L ! j)\<close> \<open>i < length L\<close> \<open>v \<in> set (L ! i)\<close>
      by simp
    ultimately show False by simp
  qed
  then show ?thesis by (simp add: acyclic_def)
qed

lemma stuck_cyclic:
  assumes "acyclic (set A)" and "\<forall>v\<in>R. \<exists>u\<in>R. (u, v) \<in> set A"
  shows "R = {}"
proof (rule ccontr)
  assume "R \<noteq> {}"
  have "wf (set A)" using assms(1) by (simp add: finite_acyclic_wf)
  then obtain z where "z \<in> R" "\<forall>y. (y, z) \<in> set A \<longrightarrow> y \<notin> R" using \<open>R \<noteq> {}\<close> by (metis ex_in_conv wfE_min)
  with assms(2) show False by blast
qed

text \<open>The levels do not depend on the order inside a level.\<close>

lemma layering_unique:
  assumes L: "layered A L" "distinct (concat L)" and M: "layered A M" "distinct (concat M)"
    and eq: "set (concat L) = set (concat M)"
  shows "i < length L \<Longrightarrow> v \<in> set (L ! i) \<Longrightarrow> i < length M \<and> v \<in> set (M ! i)"
proof (induction i arbitrary: v rule: less_induct)
  case (less i)
  have "v \<in> set (concat L)" using less.prems by (auto intro!: bexI [of _ "L ! i"])
  then have "v \<in> set (concat M)" by (simp only: eq)
  from in_some_level [OF this] obtain k where k: "k < length M" "v \<in> set (M ! k)" by blast
  have "i \<le> k"
  proof (cases "i = 0")
    case False
    then obtain u where u: "u \<in> set (L ! (i - 1))" "(u, v) \<in> set A"
      using layered_before [OF L(1)] less.prems by blast
    then have um: "i - 1 < length M" "u \<in> set (M ! (i - 1))" using less.IH [of "i - 1" u] less.prems False by auto
    obtain j where "j < k" "u \<in> set (M ! j)" using layered_index [OF M(1) k u(2)] by blast
    then have "j = i - 1" using level_unique [OF M(2)] um k by (meson less_trans)
    with \<open>j < k\<close> show ?thesis by simp
  qed simp
  moreover have "k \<le> i"
  proof (cases "k = 0")
    case False
    then obtain w where w: "w \<in> set (M ! (k - 1))" "(w, v) \<in> set A"
      using layered_before [OF M(1) _ k] by blast
    obtain j where j: "j < i" "w \<in> set (L ! j)" using layered_index [OF L(1) less.prems w(2)] by blast
    then have "j < length M" "w \<in> set (M ! j)" using less.IH [OF j(1)] less.prems by auto
    then have "j = k - 1" using level_unique [OF M(2) _ _ _ w(1)] k by (meson diff_le_self le_less_trans)
    with j(1) show ?thesis by simp
  qed simp
  ultimately show ?case using k by simp
qed

lemma layerings_agree:
  assumes L: "layered A L" "distinct (concat L)" "[] \<notin> set L"
    and M: "layered A M" "distinct (concat M)" "[] \<notin> set M" and eq: "set (concat L) = set (concat M)"
  shows "map set M = map set L"
proof -
  have sub: "i < length N \<and> set (K ! i) \<subseteq> set (N ! i)"
    if "layered A K" "distinct (concat K)" "[] \<notin> set K" "layered A N" "distinct (concat N)"
      "set (concat K) = set (concat N)" "i < length K" for i K N
  proof -
    have "K ! i \<noteq> []" using that(3,7) nth_mem by metis
    then obtain v where "v \<in> set (K ! i)" by (metis list.set_intros(1) neq_Nil_conv)
    with layering_unique [OF that(1,2,4,5,6,7)] show ?thesis by blast
  qed
  note lm = sub [OF L M(1,2) eq] and ml = sub [OF M L(1,2) eq [symmetric]]
  have "length M = length L" using lm ml by (meson linorder_neqE_nat less_irrefl)
  then show ?thesis
    by (intro nth_equalityI) (use lm ml in \<open>auto simp: subset_antisym\<close>)
qed

section \<open>Properties\<close>

abbreviation permutes_lists :: "('a list \<Rightarrow> 'a list) \<Rightarrow> bool" where
  "permutes_lists f \<equiv> (\<forall>xs. mset (f xs) = mset xs)"

lemma topological_sort_run:
  assumes "permutes_lists hash_order"
  shows "\<exists>L deg'. kahn_inv (arcs nodes edges) (graph_keys nodes edges) L [] deg' \<and>
    topological_sort hash_order nodes edges =
      (if length (concat L) \<noteq> card (nd_id ` set nodes) then Inl CycleDetected else Inr L)"
proof -
  obtain adj deg where b: "build_graph nodes edges = (adj, deg)" by fastforce
  from kahn_result [OF _ b, of hash_order] assms show ?thesis
    by (auto simp: topological_sort_def b)
qed

lemma graph_keys_defined: "references_defined nodes edges \<Longrightarrow> graph_keys nodes edges = nd_id ` set nodes"
  by (auto simp: references_defined_def graph_keys_def list_all_iff)

lemma layered_prefix:
  assumes "layered A (L @ [q])"
  shows "layered A L"
  unfolding layered_def
proof (intro allI impI ballI conjI)
  fix i v
  assume i: "i < length L" and v: "v \<in> set (L ! i)"
  have e: "(L @ [q]) ! j = L ! j" if "j \<le> i" for j using i that by (simp add: nth_append)
  have v': "v \<in> set ((L @ [q]) ! i)" and i': "i < length (L @ [q])" using v i by (simp_all add: e)
  show "\<exists>j < i. u \<in> set (L ! j)" if "(u, v) \<in> set A" for u
    using layered_index [OF assms i' v' that] e by (metis less_imp_le)
  show "\<exists>u \<in> set (L ! (i - 1)). (u, v) \<in> set A" if "0 < i"
    using layered_before [OF assms that i' v'] e [of "i - 1"] by simp
qed

lemma kahn_inv_final:
  assumes "kahn_inv A K L [] deg"
  shows "distinct (concat L)" and "set (concat L) \<subseteq> K" and "layered A L" and "[] \<notin> set L"
    and "\<And>v. v \<in> K \<Longrightarrow> v \<notin> set (concat L) \<Longrightarrow> \<exists>u. (u, v) \<in> set A \<and> u \<notin> set (concat L)"
proof -
  show "layered A L" using assms unfolding kahn_inv_def by (blast intro: layered_prefix)
  show "\<exists>u. (u, v) \<in> set A \<and> u \<notin> set (concat L)" if "v \<in> K" "v \<notin> set (concat L)" for v
  proof -
    have "indegree A (set (concat L)) v \<noteq> 0" using assms that unfolding kahn_inv_def by simp
    then show ?thesis by (auto simp: indegree_0)
  qed
qed (use assms in \<open>auto simp: kahn_inv_def\<close>)

lemma full_iff_acyclic:
  assumes i: "kahn_inv (arcs nodes edges) (graph_keys nodes edges) L [] deg"
    and r: "references_defined nodes edges"
  shows "length (concat L) = card (nd_id ` set nodes) \<longleftrightarrow> acyclic (set (arcs nodes edges))"
    and "length (concat L) = card (nd_id ` set nodes) \<longleftrightarrow> set (concat L) = nd_id ` set nodes"
proof -
  let ?A = "arcs nodes edges" and ?K = "nd_id ` set nodes"
  note f = kahn_inv_final [OF i, unfolded graph_keys_defined [OF r]]
  have c: "length (concat L) = card (set (concat L))" using f(1) by (metis distinct_card)
  show full: "length (concat L) = card ?K \<longleftrightarrow> set (concat L) = ?K"
    unfolding c using f(2) by (metis List.finite_set card_subset_eq finite_imageI)
  have refs: "fst ` set ?A \<subseteq> ?K" "snd ` set ?A \<subseteq> ?K" using r by (auto simp: references_defined_def list_all_iff)
  have "set (concat L) = ?K" if "acyclic (set ?A)"
  proof -
    have "?K - set (concat L) = {}"
      by (rule stuck_cyclic [OF that]) (use f(5) refs(1) in force)
    with f(2) show ?thesis by blast
  qed
  moreover have "acyclic (set ?A)" if "set (concat L) = ?K"
    using layered_acyclic [OF f(3) _ f(1)] refs(2) that by simp
  ultimately show "length (concat L) = card ?K \<longleftrightarrow> acyclic (set ?A)" unfolding full by blast
qed

lemma topological_sort_layers:
  assumes "permutes_lists hash_order" and "references_defined nodes edges"
    and "topological_sort hash_order nodes edges = Inr L"
  shows "distinct (concat L) \<and> set (concat L) = nd_id ` set nodes \<and> [] \<notin> set L \<and> layered (arcs nodes edges) L"
proof -
  from topological_sort_run [OF assms(1), of nodes edges] obtain M deg' where
    i: "kahn_inv (arcs nodes edges) (graph_keys nodes edges) M [] deg'"
    and e: "topological_sort hash_order nodes edges =
      (if length (concat M) \<noteq> card (nd_id ` set nodes) then Inl CycleDetected else Inr M)" by blast
  then have M: "M = L" "length (concat L) = card (nd_id ` set nodes)" using assms(3) by (auto split: if_splits)
  from kahn_inv_final [OF i] full_iff_acyclic(2) [OF i assms(2)] M show ?thesis by simp
qed

lemma topological_sort_error:
  assumes "permutes_lists hash_order" and "references_defined nodes edges"
  shows "(topological_sort hash_order nodes edges = Inl CycleDetected) = (\<not> acyclic (set (arcs nodes edges)))"
  using topological_sort_run [OF assms(1), of nodes edges] full_iff_acyclic(1) [OF _ assms(2)] by fastforce

lemma topological_sort_ok:
  assumes "permutes_lists hash_order" and "references_defined nodes edges"
  shows "(\<exists>L. topological_sort hash_order nodes edges = Inr L) = acyclic (set (arcs nodes edges))"
proof -
  from topological_sort_run [OF assms(1), of nodes edges] obtain M where
    "topological_sort hash_order nodes edges = (if length (concat M) \<noteq> card (nd_id ` set nodes)
       then Inl CycleDetected else Inr M)" by blast
  with topological_sort_error [OF assms] show ?thesis by (auto split: if_splits)
qed

text \<open>
  C12. A schedule puts every node in exactly one level. In a definition whose references are all to its own nodes,
  the levels hold each node exactly once and nothing else, no level is empty, every edge and every
  \<open>depends_on\<close> entry leads from an earlier level to a later one, and no node comes later than it must: each
  node after the first level has a predecessor in the level just before. The levels are the same sets
  whatever the iteration order of the hash map.
\<close>

theorem levels_respect_dependencies:
  assumes "permutes_lists hash_order" and "references_defined nodes edges"
    and "topological_sort hash_order nodes edges = Inr L"
    and "permutes_lists other_order" and "topological_sort other_order nodes edges = Inr M"
  shows "distinct (concat L) \<and> set (concat L) = nd_id ` set nodes \<and> [] \<notin> set L \<and> layered (arcs nodes edges) L
    \<and> map set M = map set L"
proof -
  note l = topological_sort_layers [OF assms(1-3)] and m = topological_sort_layers [OF assms(4,2,5)]
  show ?thesis using l layerings_agree [of "arcs nodes edges" L M] m by simp
qed

definition sample_node :: "string \<Rightarrow> string list \<Rightarrow> node_def" where
  "sample_node i deps = \<lparr>nd_id = i, nd_node_type = ''llm'', nd_config = [], nd_depends_on = deps,
     nd_retry_count = 0, nd_timeout = None, nd_is_terminal = False\<rparr>"

definition sample_edge :: "string \<Rightarrow> string \<Rightarrow> edge" where
  "sample_edge u v = \<lparr>from_node = u, to_node = v, edge_condition = None\<rparr>"

definition diamond :: "node_def list" where
  "diamond = [sample_node ''a'' [], sample_node ''b'' [''a''], sample_node ''c'' [], sample_node ''d'' [''b''],
     sample_node ''e'' []]"

definition diamond_edges :: "edge list" where
  "diamond_edges = [sample_edge ''a'' ''c'', sample_edge ''c'' ''d'', sample_edge ''a'' ''d'']"

lemma levels_respect_dependencies_witness:
  "let L = [[''a'', ''e''], [''c'', ''b''], [''d'']] in distinct (concat L) \<and> set (concat L) = nd_id ` set diamond
    \<and> [] \<notin> set L \<and> layered (arcs diamond diamond_edges) L \<and> map set [[''e'', ''a''], [''c'', ''b''], [''d'']] = map set L"
  unfolding Let_def
proof (rule levels_respect_dependencies)
  show "references_defined diamond diamond_edges" by code_simp
  show "topological_sort id diamond diamond_edges = Inr [[''a'', ''e''], [''c'', ''b''], [''d'']]" by code_simp
  show "topological_sort rev diamond diamond_edges = Inr [[''e'', ''a''], [''c'', ''b''], [''d'']]" by code_simp
qed simp_all

text \<open>
  C13. The only error of the sort is a cycle, and it is reported exactly when there is one: with all references
  defined, the call fails iff the edges and \<open>depends_on\<close> entries have a cycle, and without any assumption
  on the definition no degree is ever decremented below zero.
\<close>

theorem error_iff_cycle:
  assumes "permutes_lists hash_order" and "references_defined nodes edges"
  shows "(topological_sort hash_order nodes edges = Inl CycleDetected) = (\<not> acyclic (set (arcs nodes edges)))
    \<and> topological_sort hash_order nodes' edges' \<noteq> Inl DegreeUnderflow"
proof -
  have "topological_sort hash_order nodes' edges' \<noteq> Inl DegreeUnderflow"
    using topological_sort_run [OF assms(1), of nodes' edges'] by (auto split: if_splits)
  with topological_sort_error [OF assms] show ?thesis by simp
qed

lemma error_iff_cycle_witness:
  "\<not> acyclic (set (arcs [sample_node ''a'' [''b''], sample_node ''b'' []] [sample_edge ''a'' ''b'']))"
proof -
  let ?n = "[sample_node ''a'' [''b''], sample_node ''b'' []]" and ?e = "[sample_edge ''a'' ''b'']"
  have "references_defined ?n ?e" and "topological_sort rev ?n ?e = Inl CycleDetected" by code_simp+
  then show ?thesis using error_iff_cycle [of rev ?n ?e "[]" "[]"] by simp
qed

text \<open>
  Without the check of the references the count can come out right by accident: an edge to an unknown node
  and an edge from an unknown node balance, and the sort succeeds with a level that names the unknown
  node and without the node that waits for the other one.
\<close>

lemma unknown_references_balance:
  "topological_sort id [sample_node ''a'' [], sample_node ''b'' []] [sample_edge ''a'' ''x'', sample_edge ''y'' ''b'']
     = Inr [[''a''], [''x'']]"
  by code_simp

end
