(* ===== verification/Workflow_Parser.thy ===== *)
theory Workflow_Parser
  imports Workflow_Graph Rust_Str
begin

text \<open>
  The rest of \<open>crates/nemesis-workflow/src/types.rs\<close> that decides something (durations, the output of a
  run), \<open>validate\<close> of \<open>parser.rs\<close> and the call stack of \<open>call_stack.rs\<close>. Reading YAML or JSON text
  (\<open>serde\<close>) is not modelled: a workflow is the record. The check of a definition is proved to accept
  exactly the well-formed definitions. The fallback identifier of a child without one is Chinese text in the
  code, here ''(no id)''.
\<close>

section \<open>Durations\<close>

definition parse_u64 :: "string \<Rightarrow> 64 word option" where
  "parse_u64 s = map_option of_nat (parse_unsigned 0xFFFFFFFFFFFFFFFF s)"

text \<open>In seconds; the multiplication wraps as in a release build.\<close>

definition parse_duration :: "string \<Rightarrow> 64 word option" where
  "parse_duration s0 =
     (let s = trim s0 in
      if s = [] then None
      else (case parse_u64 s of
          Some secs \<Rightarrow> Some secs
        | None \<Rightarrow>
            (case strip_suffix ''s'' s of
               Some num \<Rightarrow> parse_u64 num
             | None \<Rightarrow>
                 (case strip_suffix ''m'' s of
                    Some num \<Rightarrow> map_option (\<lambda>mins. mins * 60) (parse_u64 num)
                  | None \<Rightarrow>
                      (case strip_suffix ''h'' s of
                         Some num \<Rightarrow> map_option (\<lambda>hours. hours * 3600) (parse_u64 num)
                       | None \<Rightarrow> None)))))"

definition timeout_duration :: "node_def \<Rightarrow> 64 word option" where
  "timeout_duration n =
     (case Option.bind (nd_timeout n) parse_duration of
        None \<Rightarrow> None
      | Some d \<Rightarrow> if d = 0 then None else Some d)"

section \<open>Workflows and their output\<close>

datatype execution_state = Pending | Running | Completed | Failed | Cancelled | Waiting

record node_result =
  nr_node_id :: string
  nr_output :: json
  nr_error :: "string option"
  nr_state :: execution_state
  nr_metadata :: "(string \<times> json) list"

record trigger_config =
  tc_trigger_type :: string
  tc_config :: "(string \<times> json) list"

record workflow =
  wf_name :: string
  wf_description :: string
  wf_version :: string
  wf_triggers :: "trigger_config list"
  wf_nodes :: "node_def list"
  wf_edges :: "edge list"
  wf_variables :: "(string \<times> string) list"
  wf_metadata :: "(string \<times> string) list"

definition output_ids :: "workflow \<Rightarrow> string list" where
  "output_ids flow =
     (let terminal_ids = map nd_id (filter nd_is_terminal (wf_nodes flow)) in
      if terminal_ids \<noteq> [] then terminal_ids
      else map nd_id (filter (\<lambda>n. nd_id n \<notin> set (map from_node (wf_edges flow))) (wf_nodes flow)))"

definition merge_output :: "(string \<Rightarrow> node_result option) \<Rightarrow> string \<Rightarrow> (string \<times> json) list \<Rightarrow> (string \<times> json) list" where
  "merge_output results i merged =
     (case results i of
        None \<Rightarrow> merged
      | Some nr \<Rightarrow>
          (case as_object (nr_output nr) of
             Some obj \<Rightarrow> fold (\<lambda>(k, v). AList.update k v) obj merged
           | None \<Rightarrow> if nr_output nr \<noteq> JNull then AList.update i (nr_output nr) merged else merged))"

definition compute_output :: "workflow \<Rightarrow> (string \<Rightarrow> node_result option) \<Rightarrow> json" where
  "compute_output flow results =
     (let merged = fold (merge_output results) (output_ids flow) [] in
      if merged = [] then JNull else JObject merged)"

section \<open>Validation\<close>

datatype validate_error =
    NoName | NoNodes string | NodeMissingId string | DuplicateNodeId string string
  | EdgeUnknownFrom nat string | EdgeUnknownTo nat string | DependsOnUnknown string string
  | PausingChild string string string string | Topology string topo_error | UnknownTriggerType nat string

lemma first_some_cong [fundef_cong]:
  "xs = ys \<Longrightarrow> (\<And>x. x \<in> set ys \<Longrightarrow> f x = g x) \<Longrightarrow> first_some f xs = first_some g ys"
  by (induction ys arbitrary: xs) (auto split: option.splits)

definition field_str :: "(string \<times> json) list \<Rightarrow> string \<Rightarrow> string \<Rightarrow> string" where
  "field_str obj k dflt = (case Option.bind (map_of obj k) as_str of Some s \<Rightarrow> s | None \<Rightarrow> dflt)"

definition child_type :: "(string \<times> json) list \<Rightarrow> string" where
  "child_type obj =
     (case (case map_of obj ''node_type'' of Some v \<Rightarrow> Some v | None \<Rightarrow> map_of obj ''type'') of
        Some v \<Rightarrow> (case as_str v of Some s \<Rightarrow> s | None \<Rightarrow> [])
      | None \<Rightarrow> [])"

definition child_config :: "(string \<times> json) list \<Rightarrow> json" where
  "child_config obj = (case map_of obj ''config'' of Some c \<Rightarrow> c | None \<Rightarrow> JNull)"

lemma child_config_size: "size (child_config obj) < size (JObject obj)"
  using json_get_size [of "''config''" "JObject obj"]
  by (cases "map_of obj ''config''") (auto simp: child_config_def json_get_def)

function reject_pausing :: "string \<Rightarrow> string \<Rightarrow> json \<Rightarrow> validate_error option" where
  "reject_pausing workflow_name composite_id config =
     first_some (\<lambda>key.
       case Option.bind (json_get key config) as_array of
         None \<Rightarrow> None
       | Some arr \<Rightarrow>
           first_some (\<lambda>child.
             case child of
               JObject obj \<Rightarrow>
                 if child_type obj = ''human_review''
                 then Some (PausingChild workflow_name composite_id key (field_str obj ''id'' ''(no id)''))
                 else if child_type obj = ''parallel'' \<or> child_type obj = ''loop''
                 then reject_pausing workflow_name composite_id (child_config obj)
                 else None
             | _ \<Rightarrow> None) arr)
       [''nodes'', ''branches'']"
  by pat_completeness auto
termination
proof (relation "measure (\<lambda>(w, i, c). size c)")
  fix w i :: string and config :: json and key arr child obj
  assume "Option.bind (json_get key config) as_array = Some arr" and "child \<in> set arr" and "child = JObject obj"
  then obtain v where v: "json_get key config = Some v" "as_array v = Some arr" by (auto simp: bind_eq_Some_conv)
  have "size (child_config obj) < size child" using child_config_size \<open>child = JObject obj\<close> by simp
  also have "size child < size v" by (rule json_array_size [OF v(2) \<open>child \<in> set arr\<close>])
  also have "size v < size config" by (rule json_get_size [OF v(1)])
  finally show "((w, i, child_config obj), (w, i, config)) \<in> measure (\<lambda>(w, i, c). size c)" by simp
qed simp

declare reject_pausing.simps [simp del]

fun check_ids :: "string \<Rightarrow> string set \<Rightarrow> node_def list \<Rightarrow> validate_error + string set" where
  "check_ids name seen [] = Inr seen"
| "check_ids name seen (n # ns) =
     (if nd_id n = [] then Inl (NodeMissingId name)
      else if nd_id n \<in> seen then Inl (DuplicateNodeId (nd_id n) name)
      else check_ids name (insert (nd_id n) seen) ns)"

fun check_edges :: "nat \<Rightarrow> string set \<Rightarrow> edge list \<Rightarrow> validate_error option" where
  "check_edges i ids [] = None"
| "check_edges i ids (e # es) =
     (if from_node e \<notin> ids then Some (EdgeUnknownFrom i (from_node e))
      else if to_node e \<notin> ids then Some (EdgeUnknownTo i (to_node e))
      else check_edges (i + 1) ids es)"

definition check_depends :: "string set \<Rightarrow> node_def list \<Rightarrow> validate_error option" where
  "check_depends ids nodes =
     first_some (\<lambda>n. first_some (\<lambda>dep. if dep \<notin> ids then Some (DependsOnUnknown (nd_id n) dep) else None)
       (nd_depends_on n)) nodes"

definition is_composite :: "node_def \<Rightarrow> bool" where
  "is_composite n \<longleftrightarrow> nd_node_type n = ''parallel'' \<or> nd_node_type n = ''loop''"

definition check_composites :: "string \<Rightarrow> node_def list \<Rightarrow> validate_error option" where
  "check_composites name nodes =
     first_some (\<lambda>n. if is_composite n then reject_pausing name (nd_id n) (JObject (nd_config n)) else None) nodes"

definition known_trigger :: "trigger_config \<Rightarrow> bool" where
  "known_trigger t \<longleftrightarrow> tc_trigger_type t \<in> {''cron'', ''webhook'', ''event'', ''message''}"

fun check_triggers :: "nat \<Rightarrow> trigger_config list \<Rightarrow> validate_error option" where
  "check_triggers i [] = None"
| "check_triggers i (t # ts) =
     (if known_trigger t then check_triggers (i + 1) ts else Some (UnknownTriggerType i (tc_trigger_type t)))"

definition validate :: "(string list \<Rightarrow> string list) \<Rightarrow> workflow \<Rightarrow> validate_error + unit" where
  "validate hash_order flow =
     (if wf_name flow = [] then Inl NoName
      else if wf_nodes flow = [] then Inl (NoNodes (wf_name flow))
      else (case check_ids (wf_name flow) {} (wf_nodes flow) of Inl e \<Rightarrow> Inl e | Inr ids \<Rightarrow>
        (case check_edges 0 ids (wf_edges flow) of Some e \<Rightarrow> Inl e | None \<Rightarrow>
        (case check_depends ids (wf_nodes flow) of Some e \<Rightarrow> Inl e | None \<Rightarrow>
        (case check_composites (wf_name flow) (wf_nodes flow) of Some e \<Rightarrow> Inl e | None \<Rightarrow>
        (case topological_sort hash_order (wf_nodes flow) (wf_edges flow) of Inl e \<Rightarrow> Inl (Topology (wf_name flow) e)
         | Inr _ \<Rightarrow>
        (case check_triggers 0 (wf_triggers flow) of Some e \<Rightarrow> Inl e | None \<Rightarrow> Inr ())))))))"

section \<open>The call stack\<close>

datatype trigger_source =
    Cli
  | Cron
  | Webhook json
  | AgentTool (tool_call_id: string) (recursion_depth: "32 word") (at_session_key: string)
      (at_chat_id: string) (at_sender_id: string)
  | Chat (c_chat_id: string) (c_session_key: string) (c_sender_id: string) (c_message: string)
  | Message (m_channel: string) (m_chat_id: string) (m_sender_id: string) (m_content: string)
  | WebUI string
  | Event string json
  | WorkflowChat (w_chat_id: string) (w_session_id: string) (w_workflow_name: string) (w_index: string)
      (w_session_key: string)

fun trigger_label :: "trigger_source \<Rightarrow> string" where
  "trigger_label Cli = ''cli''"
| "trigger_label Cron = ''cron''"
| "trigger_label (Webhook _) = ''webhook''"
| "trigger_label (AgentTool _ _ _ _ _) = ''agent-tool''"
| "trigger_label (Chat _ _ _ _) = ''chat''"
| "trigger_label (Message _ _ _ _) = ''message''"
| "trigger_label (WebUI _) = ''web-ui''"
| "trigger_label (Event _ _) = ''event''"
| "trigger_label (WorkflowChat _ _ _ _ _) = ''workflow-chat''"

fun identity_triple :: "trigger_source \<Rightarrow> string \<times> string \<times> string" where
  "identity_triple (Chat chat session sender _) = (session, chat, sender)"
| "identity_triple (AgentTool _ _ session chat sender) = (session, chat, sender)"
| "identity_triple (Message _ chat sender _) = ([], chat, sender)"
| "identity_triple (WorkflowChat chat _ _ _ session) = (session, chat, [])"
| "identity_triple _ = ([], [], [])"

fun depth_from_trigger :: "trigger_source option \<Rightarrow> 32 word" where
  "depth_from_trigger (Some (AgentTool _ depth _ _ _)) = depth"
| "depth_from_trigger _ = 0"

record call_frame =
  cf_execution_id :: string
  cf_workflow_name :: string
  cf_parent_execution_id :: "string option"
  cf_trigger_source :: "trigger_source option"
  cf_recursion_depth :: "32 word"

definition MAX_RECURSION_DEPTH :: "32 word" where
  "MAX_RECURSION_DEPTH = 3"

datatype push_error = DepthExceeded "32 word" "32 word"

definition stack_push :: "call_frame \<Rightarrow> call_frame list \<Rightarrow> push_error + call_frame list" where
  "stack_push frame frames =
     (if cf_recursion_depth frame > MAX_RECURSION_DEPTH
      then Inl (DepthExceeded MAX_RECURSION_DEPTH (cf_recursion_depth frame))
      else Inr (frames @ [frame]))"

definition stack_pop :: "call_frame list \<Rightarrow> call_frame list \<times> call_frame option" where
  "stack_pop frames = (if frames = [] then ([], None) else (butlast frames, Some (last frames)))"

fun stack_remove :: "string \<Rightarrow> call_frame list \<Rightarrow> call_frame list \<times> call_frame option" where
  "stack_remove i [] = ([], None)"
| "stack_remove i (f # fs) =
     (if cf_execution_id f = i then (fs, Some f)
      else (case stack_remove i fs of (fs', r) \<Rightarrow> (f # fs', r)))"

datatype stack_event = Push call_frame | Pop | Remove string

fun stack_step :: "call_frame list \<Rightarrow> stack_event \<Rightarrow> call_frame list" where
  "stack_step fs (Push f) = (case stack_push f fs of Inl _ \<Rightarrow> fs | Inr fs' \<Rightarrow> fs')"
| "stack_step fs Pop = fst (stack_pop fs)"
| "stack_step fs (Remove i) = fst (stack_remove i fs)"

lemma stack_remove_subset: "set (fst (stack_remove i fs)) \<subseteq> set fs"
  by (induction fs) (auto split: prod.splits)

interpretation stack: step_invariant stack_step "\<lambda>fs :: call_frame list. \<forall>f\<in>set fs. cf_recursion_depth f \<le> MAX_RECURSION_DEPTH"
proof unfold_locales
  fix fs :: "call_frame list" and e
  assume "\<forall>f\<in>set fs. cf_recursion_depth f \<le> MAX_RECURSION_DEPTH"
  then show "\<forall>f\<in>set (stack_step fs e). cf_recursion_depth f \<le> MAX_RECURSION_DEPTH"
    using stack_remove_subset
    by (cases e) (auto simp: stack_push_def stack_pop_def not_less dest: in_set_butlastD)
qed

lemma stack_remove_exact:
  "distinct (map cf_execution_id fs) \<Longrightarrow>
     stack_remove i fs = (filter (\<lambda>f. cf_execution_id f \<noteq> i) fs, find (\<lambda>f. cf_execution_id f = i) fs)"
  by (induction fs) (auto simp: filter_id_conv image_iff intro!: sym [OF filter_True])

section \<open>What validation accepts\<close>

text \<open>A review node somewhere inside a composite block, at any depth of nesting.\<close>

inductive pausing_inside :: "json \<Rightarrow> bool" where
  review: "\<lbrakk>key = ''nodes'' \<or> key = ''branches''; Option.bind (json_get key config) as_array = Some arr;
     JObject obj \<in> set arr; child_type obj = ''human_review''\<rbrakk> \<Longrightarrow> pausing_inside config"
| nested: "\<lbrakk>key = ''nodes'' \<or> key = ''branches''; Option.bind (json_get key config) as_array = Some arr;
     JObject obj \<in> set arr; child_type obj = ''parallel'' \<or> child_type obj = ''loop'';
     pausing_inside (child_config obj)\<rbrakk> \<Longrightarrow> pausing_inside config"

definition reject_key :: "string \<Rightarrow> string \<Rightarrow> json \<Rightarrow> string \<Rightarrow> validate_error option" where
  "reject_key w i config key =
     (case Option.bind (json_get key config) as_array of
         None \<Rightarrow> None
       | Some arr \<Rightarrow>
           first_some (\<lambda>child.
             case child of
               JObject obj \<Rightarrow>
                 if child_type obj = ''human_review''
                 then Some (PausingChild w i key (field_str obj ''id'' ''(no id)''))
                 else if child_type obj = ''parallel'' \<or> child_type obj = ''loop''
                 then reject_pausing w i (child_config obj)
                 else None
             | _ \<Rightarrow> None) arr)"

lemma reject_pausing_keys:
  "reject_pausing w i config = first_some (reject_key w i config) [''nodes'', ''branches'']"
  by (subst reject_pausing.simps) (simp only: reject_key_def [abs_def])

lemma reject_pausing_sound: "reject_pausing w i config = Some e \<Longrightarrow> pausing_inside config"
proof (induction w i config arbitrary: e rule: reject_pausing.induct)
  case (1 w i config)
  from "1.prems" obtain key where ks: "key \<in> set [''nodes'', ''branches'']" and r: "reject_key w i config key = Some e"
    unfolding reject_pausing_keys by (blast dest: first_some_SomeD)
  then have k: "key = ''nodes'' \<or> key = ''branches''" by simp
  from r obtain arr where a: "Option.bind (json_get key config) as_array = Some arr"
    unfolding reject_key_def by (cases "Option.bind (json_get key config) as_array") auto
  with r obtain obj where o: "JObject obj \<in> set arr"
    and c: "child_type obj = ''human_review'' \<or>
      (child_type obj = ''parallel'' \<or> child_type obj = ''loop'') \<and> reject_pausing w i (child_config obj) = Some e"
    unfolding reject_key_def by (auto dest!: first_some_SomeD split: json.splits if_splits)
  from c show ?case
  proof
    assume "child_type obj = ''human_review''"
    then show ?thesis using k a o by (intro pausing_inside.review)
  next
    assume n: "(child_type obj = ''parallel'' \<or> child_type obj = ''loop'') \<and> reject_pausing w i (child_config obj) = Some e"
    then have h: "child_type obj \<noteq> ''human_review''" by auto
    have "pausing_inside (child_config obj)"
      by (rule "1.IH" [OF ks a o refl h]) (use n in blast)+
    then show ?thesis using pausing_inside.nested [OF k a o] n by blast
  qed
qed

lemma reject_pausing_NoneD:
  assumes "reject_pausing w i config = None" and "key = ''nodes'' \<or> key = ''branches''"
    and "Option.bind (json_get key config) as_array = Some arr" and "JObject obj \<in> set arr"
  shows "child_type obj \<noteq> ''human_review''
    \<and> (child_type obj = ''parallel'' \<or> child_type obj = ''loop'' \<longrightarrow> reject_pausing w i (child_config obj) = None)"
proof -
  have "key \<in> set [''nodes'', ''branches'']" using assms(2) by auto
  with assms(1) have "reject_key w i config key = None"
    unfolding reject_pausing_keys first_some_None by (rule bspec)
  then show ?thesis using assms(3,4) by (auto simp: reject_key_def dest!: bspec split: if_splits)
qed

lemma reject_pausing_complete: "pausing_inside config \<Longrightarrow> reject_pausing w i config \<noteq> None"
proof (induction rule: pausing_inside.induct)
  case (review key config arr obj)
  then show ?case using reject_pausing_NoneD [OF _ review(1-3)] by meson
next
  case (nested key config arr obj)
  then show ?case using reject_pausing_NoneD [OF _ nested.hyps(1-3)] by meson
qed

lemma reject_pausing_iff: "reject_pausing w i config = None \<longleftrightarrow> \<not> pausing_inside config"
  by (metis not_None_eq reject_pausing_sound reject_pausing_complete)

lemma check_ids_iff:
  "(\<exists>ids. check_ids name seen nodes = Inr ids) \<longleftrightarrow>
     distinct (map nd_id nodes) \<and> nd_id ` set nodes \<inter> seen = {} \<and> [] \<notin> nd_id ` set nodes"
  by (induction nodes arbitrary: seen) auto

lemma check_ids_set: "check_ids name seen nodes = Inr ids \<Longrightarrow> ids = seen \<union> nd_id ` set nodes"
  by (induction nodes arbitrary: seen) (auto split: if_splits)

lemma check_edges_iff: "check_edges i ids es = None \<longleftrightarrow> (\<forall>e\<in>set es. from_node e \<in> ids \<and> to_node e \<in> ids)"
  by (induction es arbitrary: i) auto

lemma check_triggers_iff: "check_triggers i ts = None \<longleftrightarrow> list_all known_trigger ts"
  by (induction ts arbitrary: i) auto

lemma check_depends_iff: "check_depends ids nodes = None \<longleftrightarrow> (\<forall>n\<in>set nodes. set (nd_depends_on n) \<subseteq> ids)"
  by (auto simp: check_depends_def split: if_splits)

lemma references_checked:
  "check_edges 0 (nd_id ` set nodes) edges = None \<and> check_depends (nd_id ` set nodes) nodes = None \<longleftrightarrow>
     references_defined nodes edges"
  unfolding check_edges_iff check_depends_iff references_defined_def arcs_def edge_arcs_def depends_arcs_def
    list_all_append
  by (intro arg_cong2 [where f = "(\<and>)"]) (auto simp: list_all_iff)

definition well_formed_workflow :: "workflow \<Rightarrow> bool" where
  "well_formed_workflow flow \<longleftrightarrow> wf_name flow \<noteq> [] \<and> wf_nodes flow \<noteq> [] \<and>
     distinct (map nd_id (wf_nodes flow)) \<and> [] \<notin> nd_id ` set (wf_nodes flow) \<and>
     references_defined (wf_nodes flow) (wf_edges flow) \<and>
     (\<forall>n\<in>set (wf_nodes flow). is_composite n \<longrightarrow> \<not> pausing_inside (JObject (nd_config n))) \<and>
     acyclic (set (arcs (wf_nodes flow) (wf_edges flow))) \<and> list_all known_trigger (wf_triggers flow)"

text \<open>
  Validation accepts exactly the well-formed definitions: a name, at least one node, identifiers that are
  distinct and not empty, no reference to an unknown node, no review node anywhere inside a parallel or
  loop block however deeply nested, no cycle, and only known trigger types.
\<close>

theorem validate_accepts_well_formed:
  assumes "permutes_lists hash_order"
  shows "(validate hash_order flow = Inr ()) = well_formed_workflow flow"
proof -
  have c: "check_composites (wf_name flow) (wf_nodes flow) = None \<longleftrightarrow>
      (\<forall>n\<in>set (wf_nodes flow). is_composite n \<longrightarrow> \<not> pausing_inside (JObject (nd_config n)))"
    by (auto simp: check_composites_def reject_pausing_iff)
  show ?thesis
  proof (cases "check_ids (wf_name flow) {} (wf_nodes flow)")
    case (Inl e)
    then have "\<not> (distinct (map nd_id (wf_nodes flow)) \<and> [] \<notin> nd_id ` set (wf_nodes flow))"
      using check_ids_iff [of "wf_name flow" "{}" "wf_nodes flow"] by auto
    with Inl show ?thesis by (auto simp: validate_def well_formed_workflow_def)
  next
    case (Inr ids)
    then have ids: "ids = nd_id ` set (wf_nodes flow)" using check_ids_set by fastforce
    have d: "distinct (map nd_id (wf_nodes flow)) \<and> [] \<notin> nd_id ` set (wf_nodes flow)"
      using Inr check_ids_iff [of "wf_name flow" "{}" "wf_nodes flow"] by auto
    note r = references_checked [of "wf_nodes flow" "wf_edges flow"]
    have t: "(\<exists>L. topological_sort hash_order (wf_nodes flow) (wf_edges flow) = Inr L) \<longleftrightarrow>
        acyclic (set (arcs (wf_nodes flow) (wf_edges flow)))"
      if "references_defined (wf_nodes flow) (wf_edges flow)"
      by (rule topological_sort_ok [OF assms that])
    show ?thesis
    proof (cases "references_defined (wf_nodes flow) (wf_edges flow)")
      case False
      with r Inr ids have "validate hash_order flow \<noteq> Inr ()"
        by (auto simp: validate_def split: option.splits)
      with False show ?thesis by (simp add: well_formed_workflow_def)
    next
      case True
      with r Inr ids have "validate hash_order flow = Inr () \<longleftrightarrow> wf_name flow \<noteq> [] \<and> wf_nodes flow \<noteq> [] \<and>
          check_composites (wf_name flow) (wf_nodes flow) = None \<and>
          (\<exists>L. topological_sort hash_order (wf_nodes flow) (wf_edges flow) = Inr L) \<and>
          check_triggers 0 (wf_triggers flow) = None"
        by (auto simp: validate_def split: option.splits sum.splits)
      with True t d c show ?thesis by (auto simp: well_formed_workflow_def check_triggers_iff)
    qed
  qed
qed

definition sample_flow :: "(string \<times> json) list \<Rightarrow> workflow" where
  "sample_flow config = \<lparr>wf_name = ''w'', wf_description = [], wf_version = ''1.0.0'', wf_triggers = [],
     wf_nodes = [sample_node ''a'' [], (sample_node ''p'' [''a''])\<lparr>nd_node_type := ''parallel'', nd_config := config\<rparr>],
     wf_edges = [], wf_variables = [], wf_metadata = []\<rparr>"

definition review_in_loop :: "(string \<times> json) list" where
  "review_in_loop = [(''branches'', JArray [JObject [(''type'', JString ''loop''),
     (''config'', JObject [(''nodes'', JArray [JObject [(''node_type'', JString ''human_review'')]])])]])]"

lemma validate_accepts_well_formed_witness: "\<not> well_formed_workflow (sample_flow review_in_loop)"
proof -
  have "validate id (sample_flow review_in_loop) = Inl (PausingChild ''w'' ''p'' ''nodes'' ''(no id)'')"
    by code_simp
  then show ?thesis using validate_accepts_well_formed [of id "sample_flow review_in_loop"] by simp
qed

text \<open>The unit multiplies without a check: a number of minutes close to the range becomes 44 seconds.\<close>

lemma minutes_wrap: "parse_duration ''307445734561825861m'' = Some 44"
  by (simp add: parse_duration_def parse_u64_def parse_unsigned_def trim_id trimmed_def is_whitespace_def
      to_digit_def strip_suffix_def suffix_def Let_def)

section \<open>The output of a run\<close>

text \<open>What one node contributes under a key.\<close>

definition contribution :: "(string \<Rightarrow> node_result option) \<Rightarrow> string \<Rightarrow> string \<Rightarrow> json option" where
  "contribution results k i =
     (case results i of
        None \<Rightarrow> None
      | Some nr \<Rightarrow>
          (case as_object (nr_output nr) of
             Some obj \<Rightarrow> map_of obj k
           | None \<Rightarrow> if nr_output nr \<noteq> JNull \<and> k = i then Some (nr_output nr) else None))"

lemma map_of_fold_update:
  "distinct (map fst kvs) \<Longrightarrow>
     map_of (fold (\<lambda>(k, v). AList.update k v) kvs m) k = (case map_of kvs k of Some v \<Rightarrow> Some v | None \<Rightarrow> map_of m k)"
  by (induction kvs arbitrary: m) (auto simp: update_conv' map_of_eq_None_iff [THEN iffD2] split: option.splits)

lemma merge_output_lookup:
  assumes "\<And>nr obj. results i = Some nr \<Longrightarrow> nr_output nr = JObject obj \<Longrightarrow> distinct (map fst obj)"
  shows "map_of (merge_output results i m) k =
    (case contribution results k i of Some v \<Rightarrow> Some v | None \<Rightarrow> map_of m k)"
proof (cases "results i")
  case None
  then show ?thesis by (simp add: merge_output_def contribution_def)
next
  case (Some nr)
  with assms [OF Some] show ?thesis
    by (cases "nr_output nr") (auto simp: merge_output_def contribution_def map_of_fold_update update_conv')
qed

lemma first_some_append: "first_some f (xs @ ys) = (case first_some f xs of Some y \<Rightarrow> Some y | None \<Rightarrow> first_some f ys)"
  by (induction xs) (auto split: option.splits dest!: first_some_SomeD)

text \<open>
  The output of a run is a merge in which later nodes win. Looking a key up in the output gives what the
  last output node contributes under it that contributes at all: the field of an object output, or the
  whole of any other output under the node's own identifier. Output nodes are the terminal nodes, or the
  nodes that no edge leaves when none is marked.
\<close>

theorem output_is_last_contribution:
  assumes "\<forall>i nr obj. results i = Some nr \<longrightarrow> nr_output nr = JObject obj \<longrightarrow> distinct (map fst obj)"
  shows "json_get k (compute_output flow results) = first_some (contribution results k) (rev (output_ids flow))"
proof -
  have m: "map_of (fold (merge_output results) nids m) k =
      (case first_some (contribution results k) (rev nids) of Some v \<Rightarrow> Some v | None \<Rightarrow> map_of m k)" for nids m
  proof (induction nids arbitrary: m)
    case Nil
    then show ?case by simp
  next
    case (Cons i nids)
    have "map_of (merge_output results i m) k = (case contribution results k i of Some v \<Rightarrow> Some v | None \<Rightarrow> map_of m k)"
      by (rule merge_output_lookup) (use assms in blast)
    with Cons show ?case by (auto simp: first_some_append split: option.splits dest!: first_some_SomeD)
  qed
  show ?thesis
  proof -
    have "map_of (fold (merge_output results) (output_ids flow) []) k =
        first_some (contribution results k) (rev (output_ids flow))"
      unfolding m by (simp del: first_some_None split: option.split)
    then show ?thesis
      unfolding compute_output_def json_get_def Let_def by (auto split: if_splits)
  qed
qed

lemma output_is_last_contribution_witness:
  "json_get ''x'' (compute_output (sample_flow []) [''p'' \<mapsto> \<lparr>nr_node_id = ''p'', nr_output = JObject [(''x'', JBool True)],
      nr_error = None, nr_state = Completed, nr_metadata = []\<rparr>]) = Some (JBool True)"
  by (subst output_is_last_contribution) (auto, code_simp)

end
