(* ===== verification/Workflow_Conditions.thy ===== *)
theory Workflow_Conditions
  imports Workflow_Parser
begin

text \<open>
  The run state (\<open>crates/nemesis-workflow/src/context.rs\<close>) and the condition language of nodes and edges:
  \<open>evaluate_condition\<close> with its helpers in \<open>nodes/control.rs\<close>, \<open>resolve_prompt_template\<close> and
  \<open>placeholder_refs\<close> in \<open>nodes/llm.rs\<close>, and \<open>build_executor_context\<close> and \<open>eval_edge_conditions\<close> of
  \<open>scheduler.rs\<close>. A context is the list of its entries in the order the hash map yields them. The text of a
  JSON value (crate \<open>serde_json\<close>) and 64-bit floating point numbers are the record \<open>value_env\<close>.
  \<open>evaluate_condition\<close> calls itself on a text it has resolved again, so it is a partial function: \<open>None\<close>
  is a run that exhausts the stack.
\<close>

record 'f value_env =
  json_text :: "json \<Rightarrow> string" \<comment> \<open>\<open>Value::to_string\<close>\<close>
  f64_parse :: "string \<Rightarrow> 'f option" \<comment> \<open>\<open>str::parse::<f64>\<close>\<close>
  f64_number :: "'f \<Rightarrow> string option" \<comment> \<open>\<open>Number::from_f64\<close>\<close>
  f64_of_number :: "string \<Rightarrow> 'f option" \<comment> \<open>\<open>Number::as_f64\<close>\<close>
  f64_lt :: "'f \<Rightarrow> 'f \<Rightarrow> bool"
  f64_le :: "'f \<Rightarrow> 'f \<Rightarrow> bool"
  f64_eq :: "'f \<Rightarrow> 'f \<Rightarrow> bool"
  f64_zero :: 'f
  map_order :: "string list \<Rightarrow> string list" \<comment> \<open>the order a \<open>HashMap\<close> with these keys is iterated in\<close>

type_synonym exec_context = "(string \<times> json) list"

section \<open>The run state\<close>

record workflow_identity =
  wi_execution_id :: string
  wi_workflow_name :: string
  wi_trigger_label :: string
  wi_session_key :: string
  wi_chat_id :: string
  wi_sender_id :: string
  wi_recursion_depth :: "32 word"

record wf_context =
  wc_variables :: "(string \<times> json) list"
  wc_node_results :: "(string \<times> node_result) list"
  wc_input :: "(string \<times> json) list"
  wc_identity :: workflow_identity

definition new_with_identity :: "workflow_identity \<Rightarrow> (string \<times> json) list \<Rightarrow> wf_context" where
  "new_with_identity identity input =
     \<lparr>wc_variables = [], wc_node_results = [], wc_input = input, wc_identity = identity\<rparr>"

definition set_var :: "string \<Rightarrow> json \<Rightarrow> wf_context \<Rightarrow> wf_context" where
  "set_var key v wc = wc\<lparr>wc_variables := AList.update key v (wc_variables wc)\<rparr>"

definition get_var :: "wf_context \<Rightarrow> string \<Rightarrow> json option" where
  "get_var wc key = map_of (wc_variables wc) key"

definition set_node_result :: "string \<Rightarrow> node_result \<Rightarrow> wf_context \<Rightarrow> wf_context" where
  "set_node_result node_id r wc = wc\<lparr>wc_node_results := AList.update node_id r (wc_node_results wc)\<rparr>"

definition get_node_result :: "wf_context \<Rightarrow> string \<Rightarrow> node_result option" where
  "get_node_result wc node_id = map_of (wc_node_results wc) node_id"

lemma get_node_result_set [simp]:
  "get_node_result (set_node_result i r wc) j = (if i = j then Some r else get_node_result wc j)"
  "get_node_result (set_var k v wc) j = get_node_result wc j"
  by (auto simp: get_node_result_def set_node_result_def set_var_def update_conv)

lemma get_var_set [simp]:
  "get_var (set_var k v wc) j = (if k = j then Some v else get_var wc j)"
  "get_var (set_node_result i r wc) j = get_var wc j"
  by (auto simp: get_var_def set_node_result_def set_var_def update_conv)

text \<open>A hash map as the loop over it sees it.\<close>

definition in_map_order :: "'f value_env \<Rightarrow> (string \<times> 'v) list \<Rightarrow> (string \<times> 'v) list" where
  "in_map_order E m = map (\<lambda>k. (k, the (map_of m k))) (map_order E (map fst m))"

definition insert_flat :: "string \<Rightarrow> json \<Rightarrow> exec_context \<Rightarrow> exec_context" where
  "insert_flat k v ctx =
     AList.update k v
       (case as_object v of
          Some obj \<Rightarrow> fold (\<lambda>(field, x). AList.update (k @ ''.'' @ field) x) obj ctx
        | None \<Rightarrow> ctx)"

definition build_executor_context :: "'f value_env \<Rightarrow> wf_context \<Rightarrow> exec_context" where
  "build_executor_context E wc =
     (let ctx = fold (\<lambda>(k, v). insert_flat k v) (in_map_order E (wc_input wc)) [];
          ctx = fold (\<lambda>(k, v). AList.update k v) (in_map_order E (wc_variables wc)) ctx;
          ctx = fold (\<lambda>(i, r). insert_flat i (nr_output r)) (in_map_order E (wc_node_results wc)) ctx
      in in_map_order E ctx)"

section \<open>Templates\<close>

definition plain_text :: "'f value_env \<Rightarrow> json \<Rightarrow> string" where
  "plain_text E v = (case v of JString s \<Rightarrow> s | other \<Rightarrow> json_text E other)"

definition resolve_prompt_template :: "'f value_env \<Rightarrow> exec_context \<Rightarrow> string \<Rightarrow> string" where
  "resolve_prompt_template E ctx template =
     fold (\<lambda>(k, v) out. replace_str (''{{'' @ k @ ''}}'') (plain_text E v) out) ctx template"

function placeholder_refs :: "string \<Rightarrow> (string \<times> string option) list" where
  "placeholder_refs rest =
     (case after_first ''{{'' rest of
        None \<Rightarrow> []
      | Some after \<Rightarrow>
          (case split_once ''}}'' after of
             None \<Rightarrow> []
           | Some (body, rest') \<Rightarrow>
               (let inner = trim body in
                (if inner = [] then []
                 else (case split_once ''.'' inner of
                     None \<Rightarrow> [(trim inner, None)]
                   | Some (head, field) \<Rightarrow> [(trim head, Some (trim field))]))
                @ placeholder_refs rest')))"
  by pat_completeness auto

lemma after_first_length: "after_first p s = Some r \<Longrightarrow> length r \<le> length s"
  by (induction s) (auto split: if_splits)

termination placeholder_refs
  by (relation "measure length") (auto dest!: after_first_length split_once_Some)

declare placeholder_refs.simps [simp del]

section \<open>Conditions\<close>

definition is_quoted :: "string \<Rightarrow> bool" where
  "is_quoted s \<longleftrightarrow> 2 \<le> utf8_len s \<and> (hd s = CHR 0x22 \<and> last s = CHR 0x22 \<or> hd s = CHR 0x27 \<and> last s = CHR 0x27)"

definition resolve_operand :: "'f value_env \<Rightarrow> exec_context \<Rightarrow> string \<Rightarrow> json" where
  "resolve_operand E ctx s =
     (let t = trim s in
      if t = [] then JNull
      else if is_quoted t then JString (butlast (tl t))
      else (case map_of ctx t of
          Some v \<Rightarrow> v
        | None \<Rightarrow>
            (case Option.bind (f64_parse E t) (f64_number E) of
               Some num \<Rightarrow> JNumber num
             | None \<Rightarrow> if t = ''true'' then JBool True else if t = ''false'' then JBool False
                       else if t = ''null'' then JNull else JString t)))"

definition as_f64 :: "'f value_env \<Rightarrow> json \<Rightarrow> 'f option" where
  "as_f64 E v = (case v of JNumber n \<Rightarrow> f64_of_number E n | _ \<Rightarrow> None)"

text \<open>The order of strings is the order of their bytes; for the code points of a \<open>char\<close> that is the order below.\<close>

fun str_less :: "string \<Rightarrow> string \<Rightarrow> bool" where
  "str_less s [] = False"
| "str_less [] (d # t) = True"
| "str_less (c # s) (d # t) =
     ((of_char c :: nat) < of_char d \<or> c = d \<and> str_less s t)"

definition compare_values :: "'f value_env \<Rightarrow> exec_context \<Rightarrow> string \<Rightarrow> string \<Rightarrow> string \<Rightarrow> bool" where
  "compare_values E ctx left right op =
     (let lv = resolve_operand E ctx left; rv = resolve_operand E ctx right in
      case (as_f64 E lv, as_f64 E rv) of
        (Some a, Some b) \<Rightarrow>
          if op = ''>='' then f64_le E b a else if op = ''<='' then f64_le E a b
          else if op = ''=='' then f64_eq E a b else if op = ''!='' then \<not> f64_eq E a b
          else if op = ''>'' then f64_lt E b a else if op = ''<'' then f64_lt E a b else False
      | _ \<Rightarrow>
          (let ls = plain_text E lv; rs = plain_text E rv in
           if op = ''>='' then \<not> str_less ls rs else if op = ''<='' then \<not> str_less rs ls
           else if op = ''=='' then ls = rs else if op = ''!='' then ls \<noteq> rs
           else if op = ''>'' then str_less rs ls else if op = ''<'' then str_less ls rs else False))"

definition is_truthy_str :: "string \<Rightarrow> bool" where
  "is_truthy_str s =
     (let t = trim s in t \<noteq> [] \<and> map (\<lambda>c. if is_ascii c then to_lower_char c else c) t \<noteq> ''false''
        \<and> t \<noteq> ''0'' \<and> t \<noteq> ''0.0'')"

fun is_truthy :: "'f value_env \<Rightarrow> json \<Rightarrow> bool" where
  "is_truthy E JNull = False"
| "is_truthy E (JBool b) = b"
| "is_truthy E (JNumber n) = (case f64_of_number E n of None \<Rightarrow> False | Some v \<Rightarrow> \<not> f64_eq E v (f64_zero E))"
| "is_truthy E (JString s) = (s \<noteq> [])"
| "is_truthy E (JArray a) = (a \<noteq> [])"
| "is_truthy E (JObject kvs) = (kvs \<noteq> [])"

definition comparison_ops :: "string list" where
  "comparison_ops = [''>='', ''<='', ''=='', ''!='', ''>'', ''<'']"

text \<open>Steps 2 to 4: what is decided once the text is resolved and carries no negation.\<close>

definition evaluate_resolved :: "'f value_env \<Rightarrow> exec_context \<Rightarrow> string \<Rightarrow> bool" where
  "evaluate_resolved E ctx resolved =
     (let low = to_lowercase resolved in
      if low \<in> {''true'', ''yes'', ''1''} then True
      else if low \<in> {''false'', ''no'', ''0''} then False
      else (case first_some (\<lambda>op. map_option (\<lambda>(l, r). compare_values E ctx (trim l) (trim r) op)
                 (split_once op resolved)) comparison_ops of
          Some b \<Rightarrow> b
        | None \<Rightarrow> (case map_of ctx resolved of Some v \<Rightarrow> is_truthy E v | None \<Rightarrow> is_truthy_str resolved)))"

partial_function (option) evaluate_condition :: "'f value_env \<Rightarrow> exec_context \<Rightarrow> string \<Rightarrow> bool option" where
  "evaluate_condition E ctx condition =
     (let cond = trim condition in
      if cond = [] then Some False
      else (let resolved = trim (resolve_prompt_template E ctx cond) in
        (case strip_prefix ''!'' resolved of
           Some rest \<Rightarrow> Option.bind (evaluate_condition E ctx rest) (\<lambda>b. Some (\<not> b))
         | None \<Rightarrow> Some (evaluate_resolved E ctx resolved))))"

declare evaluate_condition.simps [code]

text \<open>The condition node hands the text of its configuration to \<open>evaluate_condition\<close> as it is.\<close>

definition condition_node :: "'f value_env \<Rightarrow> node_def \<Rightarrow> exec_context \<Rightarrow> node_result option" where
  "condition_node E n ctx =
     (let cond = (case Option.bind (map_of (nd_config n) ''condition'') as_str of Some s \<Rightarrow> s | None \<Rightarrow> ''false'') in
      map_option (\<lambda>b. \<lparr>nr_node_id = nd_id n, nr_output = JObject [(''condition_result'', JBool b)], nr_error = None,
          nr_state = Completed, nr_metadata = []\<rparr>)
        (evaluate_condition E ctx cond))"

section \<open>Conditions on edges\<close>

datatype edge_gate = GateOpen | GateClosed | GateUnresolvable string string

definition completed_nodes :: "wf_context \<Rightarrow> string set" where
  "completed_nodes wc = fst ` set (filter (\<lambda>(i, r). nr_state r = Completed) (wc_node_results wc))"

fun eval_edges :: "'f value_env \<Rightarrow> wf_context \<Rightarrow> exec_context \<Rightarrow> string \<Rightarrow> edge list \<Rightarrow> edge_gate option" where
  "eval_edges E wc ctx node_id [] = Some GateOpen"
| "eval_edges E wc ctx node_id (e # es) =
     (case edge_condition e of
        None \<Rightarrow> eval_edges E wc ctx node_id es
      | Some cond \<Rightarrow>
          if contains_str (resolve_prompt_template E ctx cond) ''{{'' then
            (if list_ex (\<lambda>(head, field). head \<in> completed_nodes wc) (placeholder_refs cond)
             then Some (GateUnresolvable node_id cond) else Some GateClosed)
          else (case evaluate_condition E ctx cond of
              None \<Rightarrow> None
            | Some b \<Rightarrow> if b then eval_edges E wc ctx node_id es else Some GateClosed))"

definition cond_edges :: "edge list \<Rightarrow> string \<Rightarrow> edge list" where
  "cond_edges edges node_id = filter (\<lambda>e. edge_condition e \<noteq> None \<and> to_node e = node_id) edges"

definition eval_edge_conditions :: "'f value_env \<Rightarrow> string \<Rightarrow> edge list \<Rightarrow> wf_context \<Rightarrow> edge_gate option" where
  "eval_edge_conditions E node_id edges wc =
     (if cond_edges edges node_id = [] then Some GateOpen
      else eval_edges E wc (build_executor_context E wc) node_id (cond_edges edges node_id))"

section \<open>When a condition is decided\<close>

lemma resolve_none:
  assumes "\<not> contains_str t ''{{''"
  shows "resolve_prompt_template E ctx t = t"
proof -
  have "replace_str (''{{'' @ k @ ''}}'') r t = t" for k r
  proof (rule replace_str_none)
    have "contains_str (''{{'' @ k @ ''}}'') ''{{''" by simp
    then show "\<not> contains_str t (''{{'' @ k @ ''}}'')" using assms contains_str_trans by blast
  qed
  then show ?thesis unfolding resolve_prompt_template_def by (induction ctx) auto
qed

lemma resolve_spaces:
  assumes "\<forall>c \<in> set u \<union> set v. is_whitespace c"
  shows "resolve_prompt_template E ctx (u @ t @ v) = u @ resolve_prompt_template E ctx t @ v"
proof -
  have "\<not> is_whitespace (CHR ''{'')" "\<not> is_whitespace (CHR ''}'')" by code_simp+
  with assms have ends: "CHR ''{'' \<notin> set u" "CHR ''}'' \<notin> set v" by (meson UnI1 UnI2)+
  have one: "replace_str (''{{'' @ k @ ''}}'') r (u @ s @ v) = u @ replace_str (''{{'' @ k @ ''}}'') r s @ v" for k r s
  proof -
    have "replace_str (''{{'' @ k @ ''}}'') r (s @ v) = replace_str (''{{'' @ k @ ''}}'') r s @ v"
      by (rule replace_str_keeps_end) (simp_all add: ends)
    then show ?thesis
      using replace_str_skips [of "''{{'' @ k @ ''}}''" u r "s @ v"] ends(1)
      by (simp del: replace_str.simps)
  qed
  show ?thesis unfolding resolve_prompt_template_def
  proof (induction ctx arbitrary: t)
    case Nil
    show ?case by simp
  next
    case (Cons kv ctx)
    obtain k x where "kv = (k, x)" by fastforce
    then show ?case by (simp only: fold_Cons comp_apply prod.case one Cons.IH)
  qed
qed

lemma evaluate_step:
  assumes "\<And>rest. trim (resolve_prompt_template E ctx (trim t)) = CHR ''!'' # rest \<Longrightarrow>
    \<exists>b. evaluate_condition E ctx rest = Some b"
  shows "\<exists>b. evaluate_condition E ctx t = Some b"
proof (cases "strip_prefix ''!'' (trim (resolve_prompt_template E ctx (trim t)))")
  case None
  then show ?thesis by (subst evaluate_condition.simps) (auto simp: Let_def)
next
  case (Some rest)
  then obtain b where "evaluate_condition E ctx rest = Some b"
    using assms by (auto simp: strip_prefix_def prefix_def split: if_splits)
  with Some show ?thesis by (subst evaluate_condition.simps) (auto simp: Let_def)
qed

lemma trim_no_contains: "\<not> contains_str t p \<Longrightarrow> \<not> contains_str (trim t) p"
  using trim_parts [of t] contains_str_middle [of "trim t" p] by metis

lemma negations_decided:
  "\<not> contains_str t ''{{'' \<Longrightarrow> \<exists>b. evaluate_condition E ctx t = Some b"
proof (induction t rule: length_induct)
  case (1 t)
  have c: "\<not> contains_str (trim t) ''{{''" by (rule trim_no_contains [OF "1.prems"])
  show ?case
  proof (rule evaluate_step)
    fix rest
    assume "trim (resolve_prompt_template E ctx (trim t)) = CHR ''!'' # rest"
    then have r: "trim t = CHR ''!'' # rest" by (simp add: resolve_none [OF c])
    from trim_parts [of t] obtain u v where "t = u @ trim t @ v" by blast
    then have "length t = length u + length (trim t) + length v" by (metis length_append add.assoc)
    then have "length rest < length t" by (simp add: r)
    moreover have "\<not> contains_str rest ''{{''" using c by (simp add: r)
    ultimately show "\<exists>b. evaluate_condition E ctx rest = Some b" using "1.IH" by blast
  qed
qed

lemma resolved_decided:
  assumes "\<not> contains_str (resolve_prompt_template E ctx t) ''{{''"
  shows "\<exists>b. evaluate_condition E ctx t = Some b"
proof (rule evaluate_step)
  fix rest
  assume r: "trim (resolve_prompt_template E ctx (trim t)) = CHR ''!'' # rest"
  from trim_parts [of t] obtain u v where t: "t = u @ trim t @ v" and w: "\<forall>c \<in> set u \<union> set v. is_whitespace c"
    by blast
  have "resolve_prompt_template E ctx t = u @ resolve_prompt_template E ctx (trim t) @ v"
    by (subst t) (rule resolve_spaces [OF w])
  then have "\<not> contains_str (resolve_prompt_template E ctx (trim t)) ''{{''"
    using assms contains_str_middle by metis
  then have "\<not> contains_str (CHR ''!'' # rest) ''{{''" using trim_no_contains r by metis
  then show "\<exists>b. evaluate_condition E ctx rest = Some b" by (intro negations_decided) simp
qed

lemma eval_edges_decided: "\<exists>g. eval_edges E wc ctx i es = Some g"
  by (induction es) (auto split: option.splits dest: resolved_decided [of E ctx])

text \<open>Values without an exclamation mark cannot bring a negation in, so the condition's own run out.\<close>

definition no_negation :: "'f value_env \<Rightarrow> exec_context \<Rightarrow> bool" where
  "no_negation E ctx \<longleftrightarrow> list_all (\<lambda>(k, v). CHR ''!'' \<notin> set (plain_text E v)) ctx"

lemma count_resolve:
  "no_negation E ctx \<Longrightarrow> count_list (resolve_prompt_template E ctx t) (CHR ''!'') \<le> count_list t (CHR ''!'')"
  unfolding resolve_prompt_template_def no_negation_def
proof (induction ctx arbitrary: t)
  case Nil
  show ?case by simp
next
  case (Cons kv ctx)
  obtain k x where kv: "kv = (k, x)" by fastforce
  with Cons.prems have "CHR ''!'' \<notin> set (plain_text E x)" by simp
  from count_replace_str [OF this, of "''{{'' @ k @ ''}}''" t]
    Cons.IH [of "replace_str (''{{'' @ k @ ''}}'') (plain_text E x) t"] Cons.prems kv
  show ?case by simp
qed

lemma count_trim: "count_list (trim t) c \<le> count_list t c"
proof -
  from trim_parts [of t] obtain u v where "t = u @ trim t @ v" by blast
  then have "count_list t c = count_list u c + (count_list (trim t) c + count_list v c)"
    by (metis count_list_append)
  then show ?thesis by simp
qed

lemma no_negation_decided:
  assumes "no_negation E ctx"
  shows "\<exists>b. evaluate_condition E ctx t = Some b"
proof (induction "count_list t (CHR ''!'')" arbitrary: t rule: less_induct)
  case less
  show ?case
  proof (rule evaluate_step)
    fix rest
    assume r: "trim (resolve_prompt_template E ctx (trim t)) = CHR ''!'' # rest"
    have "count_list (CHR ''!'' # rest) (CHR ''!'') \<le> count_list t (CHR ''!'')"
      unfolding r [symmetric] using count_trim count_resolve [OF assms] order_trans by metis
    then show "\<exists>b. evaluate_condition E ctx rest = Some b" by (intro less.hyps) simp
  qed
qed

section \<open>Properties\<close>

lemma eval_edges_open:
  "eval_edges E wc ctx i es = Some GateOpen \<longleftrightarrow>
     list_all (\<lambda>e. case edge_condition e of None \<Rightarrow> True
        | Some c \<Rightarrow> \<not> contains_str (resolve_prompt_template E ctx c) ''{{'' \<and> evaluate_condition E ctx c = Some True) es"
  by (induction es) (auto split: option.splits)

lemma eval_edges_error:
  "eval_edges E wc ctx i es = Some (GateUnresolvable j c) \<Longrightarrow> j = i \<and> (\<exists>e \<in> set es. edge_condition e = Some c)
     \<and> contains_str (resolve_prompt_template E ctx c) ''{{''
     \<and> (\<exists>head field. (head, field) \<in> set (placeholder_refs c) \<and> head \<in> completed_nodes wc)"
  by (induction es) (auto split: option.splits if_splits simp: list_ex_iff)

text \<open>
  C14. The gate of a node is always decided, whatever the values in the run state are. It is open exactly when
  each condition on an edge into the node leaves no placeholder unresolved and evaluates to true; an error names
  the node and a condition of an edge into it that refers to a completed node and stays unresolved.
\<close>

theorem edge_gate_decided:
  fixes E :: "'f value_env"
  defines "ctx wc \<equiv> build_executor_context E wc"
  shows "(\<exists>g. eval_edge_conditions E i edges wc = Some g)
    \<and> (eval_edge_conditions E i edges wc = Some GateOpen) = (\<forall>e \<in> set edges. to_node e = i \<longrightarrow>
        (case edge_condition e of None \<Rightarrow> True
         | Some c \<Rightarrow> \<not> contains_str (resolve_prompt_template E (ctx wc) c) ''{{''
             \<and> evaluate_condition E (ctx wc) c = Some True))
    \<and> (eval_edge_conditions E i edges wc = Some (GateUnresolvable j c) \<longrightarrow>
        j = i \<and> (\<exists>e \<in> set edges. to_node e = i \<and> edge_condition e = Some c)
        \<and> contains_str (resolve_prompt_template E (ctx wc) c) ''{{''
        \<and> (\<exists>head field. (head, field) \<in> set (placeholder_refs c) \<and> head \<in> completed_nodes wc))"
proof (intro conjI impI)
  let ?es = "cond_edges edges i"
  show "\<exists>g. eval_edge_conditions E i edges wc = Some g"
    using eval_edges_decided by (auto simp: eval_edge_conditions_def)
  have "(eval_edge_conditions E i edges wc = Some GateOpen) = (eval_edges E wc (ctx wc) i ?es = Some GateOpen)"
    by (simp add: eval_edge_conditions_def ctx_def)
  then show "(eval_edge_conditions E i edges wc = Some GateOpen) = (\<forall>e \<in> set edges. to_node e = i \<longrightarrow>
      (case edge_condition e of None \<Rightarrow> True
       | Some c \<Rightarrow> \<not> contains_str (resolve_prompt_template E (ctx wc) c) ''{{''
           \<and> evaluate_condition E (ctx wc) c = Some True))"
    unfolding eval_edges_open list_all_iff cond_edges_def by (auto split: option.splits)
next
  assume "eval_edge_conditions E i edges wc = Some (GateUnresolvable j c)"
  then have "eval_edges E wc (ctx wc) i (cond_edges edges i) = Some (GateUnresolvable j c)"
    by (auto simp: eval_edge_conditions_def ctx_def split: if_splits)
  note err = eval_edges_error [OF this]
  show "j = i" and "contains_str (resolve_prompt_template E (ctx wc) c) ''{{''"
    and "\<exists>head field. (head, field) \<in> set (placeholder_refs c) \<and> head \<in> completed_nodes wc"
    using err by blast+
  show "\<exists>e \<in> set edges. to_node e = i \<and> edge_condition e = Some c"
    using err by (auto simp: cond_edges_def)
qed

text \<open>Values of the samples: numbers are the lengths of their texts.\<close>

definition sample_env :: "nat value_env" where
  "sample_env = \<lparr>json_text = (\<lambda>v. case v of JBool b \<Rightarrow> if b then ''true'' else ''false'' | JNumber n \<Rightarrow> n | _ \<Rightarrow> ''{}''),
     f64_parse = parse_unsigned 1000, f64_number = (\<lambda>n. Some (decimal n)), f64_of_number = parse_unsigned 1000,
     f64_lt = (<), f64_le = (\<le>), f64_eq = (=), f64_zero = 0, map_order = id\<rparr>"

definition sample_result :: "string \<Rightarrow> execution_state \<Rightarrow> json \<Rightarrow> node_result" where
  "sample_result i st v = \<lparr>nr_node_id = i, nr_output = v, nr_error = None, nr_state = st, nr_metadata = []\<rparr>"

definition no_identity :: workflow_identity where
  "no_identity = \<lparr>wi_execution_id = [], wi_workflow_name = [], wi_trigger_label = [], wi_session_key = [],
     wi_chat_id = [], wi_sender_id = [], wi_recursion_depth = 0\<rparr>"

definition checked_context :: wf_context where
  "checked_context = set_node_result ''check'' (sample_result ''check'' Completed (JObject [(''score'', JNumber ''7'')]))
     (new_with_identity no_identity [(''limit'', JNumber ''5'')])"

definition guarded :: "string \<Rightarrow> edge list" where
  "guarded c = [\<lparr>from_node = ''check'', to_node = ''next'', edge_condition = Some c\<rparr>]"

lemma gate_examples:
  "eval_edge_conditions sample_env ''next'' (guarded ''{{check.score}} > {{limit}}'') checked_context = Some GateOpen"
  "eval_edge_conditions sample_env ''next'' (guarded ''!{{check.score}} > 3'') checked_context = Some GateClosed"
  "eval_edge_conditions sample_env ''next'' (guarded ''{{other.score}} > 3'') checked_context = Some GateClosed"
  "eval_edge_conditions sample_env ''next'' (guarded ''{{check.passed}}'') checked_context =
     Some (GateUnresolvable ''next'' ''{{check.passed}}'')"
  by code_simp+

lemma edge_gate_decided_witness:
  "eval_edge_conditions sample_env ''next'' (guarded ''{{check.passed}}'') checked_context =
     Some (GateUnresolvable ''next'' ''{{check.passed}}'') \<and> ''check'' \<in> completed_nodes checked_context
   \<and> (\<exists>head field. (head, field) \<in> set (placeholder_refs ''{{check.passed}}'') \<and> head \<in> completed_nodes checked_context)"
  using edge_gate_decided [of sample_env "''next''" "guarded ''{{check.passed}}''" checked_context "''next''"
      "''{{check.passed}}''"] gate_examples(4)
  by (simp add: completed_nodes_def checked_context_def set_node_result_def sample_result_def new_with_identity_def)

text \<open>
  A condition node returns, and with the state completed, whenever no value in its context contains an
  exclamation mark: nested negations then come from its configuration alone.
\<close>

theorem condition_node_returns:
  assumes "no_negation E ctx"
  shows "\<exists>r b. condition_node E n ctx = Some r \<and> nr_state r = Completed
    \<and> nr_output r = JObject [(''condition_result'', JBool b)]"
proof -
  obtain b where "evaluate_condition E ctx
      (case Option.bind (map_of (nd_config n) ''condition'') as_str of Some s \<Rightarrow> s | None \<Rightarrow> ''false'') = Some b"
    using no_negation_decided [OF assms] by blast
  then show ?thesis by (simp add: condition_node_def Let_def)
qed

definition sample_condition :: "string \<Rightarrow> node_def" where
  "sample_condition c = sample_node ''cond'' []\<lparr>nd_config := [(''condition'', JString c)]\<rparr>"

lemma condition_node_returns_witness:
  "(\<exists>r b. condition_node sample_env (sample_condition ''!!{{x}} > 3'') [(''x'', JNumber ''4'')] = Some r
      \<and> nr_state r = Completed \<and> nr_output r = JObject [(''condition_result'', JBool b)])"
  by (rule condition_node_returns) code_simp

text \<open>
  Without that assumption it need not return: the value \<open>!{{v}}\<close> of a variable brings back a negation
  and its own placeholder at each resolution, so that the value would be its own negation.
\<close>

lemma negation_regress:
  assumes "plain_text E x = ''!{{v}}''"
  shows "condition_node E (sample_condition ''{{v}}'') [(''v'', x)] = None"
proof -
  let ?ctx = "[(''v'', x)]"
  have t: "trim ''{{v}}'' = ''{{v}}''" "trim ''!{{v}}'' = ''!{{v}}''" by code_simp+
  have r: "resolve_prompt_template E ?ctx ''{{v}}'' = ''!{{v}}''"
    by (simp add: resolve_prompt_template_def assms)
  have "evaluate_condition E ?ctx ''{{v}}'' = map_option Not (evaluate_condition E ?ctx ''{{v}}'')"
    by (subst evaluate_condition.simps) (simp add: Let_def t r strip_prefix_def map_conv_bind_option comp_def)
  then have "evaluate_condition E ?ctx ''{{v}}'' = None"
    by (cases "evaluate_condition E ?ctx ''{{v}}''") auto
  then show ?thesis by (simp add: condition_node_def sample_condition_def sample_node_def)
qed

end
