(* ===== verification/Workflow_Run.thy ===== *)
theory Workflow_Run
  imports Workflow_Conditions
begin

text \<open>
  The scheduler of a workflow (\<open>crates/nemesis-workflow/src/scheduler.rs\<close>): \<open>schedule_inner\<close> behind
  \<open>schedule\<close> and \<open>schedule_resume\<close>. What is outside the crate's control is the record \<open>run_env\<close>: the
  answers of the node executors, the order in which concurrent tasks finish, and at which of the points where
  the code looks at the cancellation token it finds it set. The log lists the nodes whose task was spawned and
  the calls of the progress hook. A level runs its tasks on a copy of the state, so the interleaving of tasks
  is visible only in the order of their results.
\<close>

section \<open>One node\<close>

text \<open>
  An attempt is interrupted when the token is found set before it, during it or in the pause before it;
  an answer that comes too late for the node's timeout is an error answer.
\<close>

datatype attempt = Interrupted | Answered "string + node_result"

fun run_attempts :: "(nat \<Rightarrow> attempt) \<Rightarrow> nat \<Rightarrow> nat \<Rightarrow> node_result option \<Rightarrow> string option \<Rightarrow>
    node_result option \<times> string option" where
  "run_attempts ans 0 a last_result last_error = (last_result, last_error)"
| "run_attempts ans (Suc left) a last_result last_error =
     (case ans a of
        Interrupted \<Rightarrow> (last_result, last_error)
      | Answered (Inr r) \<Rightarrow>
          if nr_state r \<noteq> Failed then (Some r, None)
          else run_attempts ans left (Suc a) (Some r) (nr_error r)
      | Answered (Inl e) \<Rightarrow> run_attempts ans left (Suc a) last_result (Some e))"

definition run_node :: "(nat \<Rightarrow> attempt) \<Rightarrow> node_def \<Rightarrow> node_result option \<times> string option" where
  "run_node ans n = run_attempts ans (Suc (unat (nd_retry_count n))) 0 None None"

section \<open>One level\<close>

record 'f run_env =
  re_values :: "'f value_env"
  re_executors :: "string \<Rightarrow> bool" \<comment> \<open>the node types with an executor\<close>
  re_answer :: "nat \<Rightarrow> node_def \<Rightarrow> exec_context \<Rightarrow> wf_context \<Rightarrow> nat \<Rightarrow> attempt"
  re_panic :: "nat \<Rightarrow> string \<Rightarrow> string option"
  re_finish :: "nat \<Rightarrow> node_def list \<Rightarrow> node_def list" \<comment> \<open>the order in which the tasks of a level finish\<close>
  re_cancelled :: "nat \<Rightarrow> nat \<Rightarrow> bool" \<comment> \<open>what looking at the token gives, by level and point\<close>

datatype schedule_error =
    TopologyError topo_error | UnresolvableCondition string string | NodeNotFound string
  | NoExecutor string string | ExecutionFailed string string | NoResult string | TaskPanicked string

datatype schedule_outcome = RunCompleted | RunCancelled

datatype run_event = Started string | Checkpoint wf_context

datatype collected = TaskResult "node_result option" "string option" | Panicked string

definition is_waiting :: "wf_context \<Rightarrow> string \<Rightarrow> bool" where
  "is_waiting wc i = (case get_node_result wc i of Some r \<Rightarrow> nr_state r = Waiting | None \<Rightarrow> False)"

definition any_waiting :: "wf_context \<Rightarrow> bool" where
  "any_waiting wc = list_ex (is_waiting wc) (map fst (wc_node_results wc))"

fun runnable_nodes :: "'f value_env \<Rightarrow> edge list \<Rightarrow> string set \<Rightarrow> wf_context \<Rightarrow> string list \<Rightarrow>
    schedule_error + string list \<times> bool" where
  "runnable_nodes E edges skip wc [] = Inr ([], False)"
| "runnable_nodes E edges skip wc (i # ids) =
     (if i \<in> skip then runnable_nodes E edges skip wc ids
      else if is_waiting wc i
      then (case runnable_nodes E edges skip wc ids of Inl e \<Rightarrow> Inl e | Inr (rs, paused) \<Rightarrow> Inr (rs, True))
      else (case the (eval_edge_conditions E i edges wc) of
          GateOpen \<Rightarrow> (case runnable_nodes E edges skip wc ids of Inl e \<Rightarrow> Inl e | Inr (rs, paused) \<Rightarrow> Inr (i # rs, paused))
        | GateClosed \<Rightarrow> runnable_nodes E edges skip wc ids
        | GateUnresolvable j c \<Rightarrow> Inl (UnresolvableCondition j c)))"

definition node_map :: "node_def list \<Rightarrow> string \<Rightarrow> node_def option" where
  "node_map nodes = map_of (rev (map (\<lambda>n. (nd_id n, n)) nodes))"

text \<open>The spawn loop: the nodes whose task was spawned, and the error it may end with.\<close>

fun spawn_nodes :: "'f run_env \<Rightarrow> node_def list \<Rightarrow> string list \<Rightarrow> node_def list \<times> schedule_error option" where
  "spawn_nodes env nodes [] = ([], None)"
| "spawn_nodes env nodes (i # ids) =
     (case node_map nodes i of
        None \<Rightarrow> ([], Some (NodeNotFound i))
      | Some n \<Rightarrow>
          if re_executors env (nd_node_type n)
          then (case spawn_nodes env nodes ids of (ns, e) \<Rightarrow> (n # ns, e))
          else ([], Some (NoExecutor (nd_node_type n) i)))"

definition store_result :: "string \<Rightarrow> node_result \<Rightarrow> wf_context \<Rightarrow> wf_context" where
  "store_result i r wc =
     set_node_result i r
       (case as_object (nr_output r) of
          Some obj \<Rightarrow> fold (\<lambda>(field, v). set_var (i @ ''.'' @ field) v) obj wc
        | None \<Rightarrow> wc)"

text \<open>
  The collecting loop. Each event carries what the token shows when the loop waits for the task and when it
  looks at a failure. Once an error is recorded the loop only drains.
\<close>

fun failure :: "string \<Rightarrow> collected \<Rightarrow> schedule_error" where
  "failure i (TaskResult _ (Some err)) = ExecutionFailed i err"
| "failure i (TaskResult _ None) = NoResult i"
| "failure i (Panicked msg) = TaskPanicked msg"

fun collect_results :: "(string \<times> collected \<times> bool \<times> bool) list \<Rightarrow> wf_context \<Rightarrow> schedule_error option \<Rightarrow>
    (schedule_error option \<times> bool) \<times> wf_context" where
  "collect_results [] wc first_err = ((first_err, False), wc)"
| "collect_results ((i, c, waiting_cancel, failing_cancel) # es) wc first_err =
     (if first_err = None \<and> waiting_cancel then ((None, True), wc)
      else (case c of
          TaskResult (Some r) None \<Rightarrow> collect_results es (store_result i r wc) first_err
        | _ \<Rightarrow>
            if first_err \<noteq> None then collect_results es wc first_err
            else if failing_cancel then ((None, True), wc)
            else collect_results es wc (Some (failure i c))))"

definition level_events :: "'f run_env \<Rightarrow> nat \<Rightarrow> node_def list \<Rightarrow> exec_context \<Rightarrow> wf_context \<Rightarrow>
    (string \<times> collected \<times> bool \<times> bool) list" where
  "level_events env k ns ctx wc =
     map (\<lambda>(j, i, c). (i, c, re_cancelled env k (2 * j + 1), re_cancelled env k (2 * j + 2)))
       (enumerate 0
         (map (\<lambda>n. (nd_id n, case re_panic env k (nd_id n) of Some msg \<Rightarrow> Panicked msg
             | None \<Rightarrow> (case run_node (re_answer env k n ctx wc) n of (r, e) \<Rightarrow> TaskResult r e)))
           (re_finish env k ns)))"

section \<open>The schedule\<close>

text \<open>What the body of the loop over the levels comes to.\<close>

datatype level_end =
    Leave "schedule_error + schedule_outcome" wf_context "run_event list"
  | Proceed wf_context "run_event list"

definition schedule_level :: "'f run_env \<Rightarrow> bool \<Rightarrow> node_def list \<Rightarrow> edge list \<Rightarrow> string set \<Rightarrow> nat \<Rightarrow> string list \<Rightarrow>
    wf_context \<Rightarrow> run_event list \<Rightarrow> level_end" where
  "schedule_level env hook nodes edges skip k level wc log =
     (if re_cancelled env k 0 then Leave (Inr RunCancelled) wc log
      else (case runnable_nodes (re_values env) edges skip wc level of
          Inl e \<Rightarrow> Leave (Inl e) wc log
        | Inr (runnable, level_paused) \<Rightarrow>
            if runnable = [] then (if level_paused then Leave (Inr RunCompleted) wc log else Proceed wc log)
            else (case spawn_nodes env nodes runnable of
                (ns, Some e) \<Rightarrow> Leave (Inl e) wc (log @ map (Started \<circ> nd_id) ns)
              | (ns, None) \<Rightarrow>
                  (case collect_results (level_events env k ns (build_executor_context (re_values env) wc) wc) wc None of
                     ((first_err, cancelled), wc') \<Rightarrow>
                       if cancelled then Leave (Inr RunCancelled) wc' (log @ map (Started \<circ> nd_id) ns)
                       else (case first_err of
                           Some e \<Rightarrow> Leave (Inl e) wc' (log @ map (Started \<circ> nd_id) ns)
                         | None \<Rightarrow>
                             (let log' = log @ map (Started \<circ> nd_id) ns @ (if hook then [Checkpoint wc'] else []) in
                              if any_waiting wc' then Leave (Inr RunCompleted) wc' log' else Proceed wc' log'))))))"

fun run_levels :: "'f run_env \<Rightarrow> bool \<Rightarrow> node_def list \<Rightarrow> edge list \<Rightarrow> string set \<Rightarrow> nat \<Rightarrow> string list list \<Rightarrow>
    wf_context \<Rightarrow> run_event list \<Rightarrow> (schedule_error + schedule_outcome) \<times> wf_context \<times> run_event list" where
  "run_levels env hook nodes edges skip k [] wc log = (Inr RunCompleted, wc, log)"
| "run_levels env hook nodes edges skip k (level # levels) wc log =
     (case schedule_level env hook nodes edges skip k level wc log of
        Leave out wc' log' \<Rightarrow> (out, wc', log')
      | Proceed wc' log' \<Rightarrow> run_levels env hook nodes edges skip (Suc k) levels wc' log')"

definition schedule_inner :: "'f run_env \<Rightarrow> node_def list \<Rightarrow> edge list \<Rightarrow> wf_context \<Rightarrow> string set \<Rightarrow> bool \<Rightarrow>
    (schedule_error + schedule_outcome) \<times> wf_context \<times> run_event list" where
  "schedule_inner env nodes edges wc skip hook =
     (case topological_sort (map_order (re_values env)) nodes edges of
        Inl e \<Rightarrow> (Inl (TopologyError e), wc, [])
      | Inr levels \<Rightarrow> run_levels env hook nodes edges skip 0 levels wc [])"

definition schedule :: "'f run_env \<Rightarrow> node_def list \<Rightarrow> edge list \<Rightarrow> wf_context \<Rightarrow>
    (schedule_error + schedule_outcome) \<times> wf_context \<times> run_event list" where
  "schedule env nodes edges wc = schedule_inner env nodes edges wc {} False"

definition schedule_with_hook :: "'f run_env \<Rightarrow> node_def list \<Rightarrow> edge list \<Rightarrow> wf_context \<Rightarrow>
    (schedule_error + schedule_outcome) \<times> wf_context \<times> run_event list" where
  "schedule_with_hook env nodes edges wc = schedule_inner env nodes edges wc {} True"

definition schedule_resume :: "'f run_env \<Rightarrow> node_def list \<Rightarrow> edge list \<Rightarrow> wf_context \<Rightarrow> string set \<Rightarrow>
    (schedule_error + schedule_outcome) \<times> wf_context \<times> run_event list" where
  "schedule_resume env nodes edges wc skip = schedule_inner env nodes edges wc skip False"

definition schedule_resume_with_hook :: "'f run_env \<Rightarrow> node_def list \<Rightarrow> edge list \<Rightarrow> wf_context \<Rightarrow> string set \<Rightarrow>
    (schedule_error + schedule_outcome) \<times> wf_context \<times> run_event list" where
  "schedule_resume_with_hook env nodes edges wc skip = schedule_inner env nodes edges wc skip True"

text \<open>The nodes a log says were started, in order.\<close>

fun starts :: "run_event list \<Rightarrow> string list" where
  "starts [] = []"
| "starts (Started i # log) = i # starts log"
| "starts (Checkpoint wc # log) = starts log"

lemma starts_append [simp]: "starts (l @ m) = starts l @ starts m"
  by (induction l rule: starts.induct) auto

lemma starts_started [simp]: "starts (map (Started \<circ> nd_id) ns) = map nd_id ns"
  by (induction ns) auto

section \<open>Retries\<close>

fun succeeds :: "attempt \<Rightarrow> node_result \<Rightarrow> bool" where
  "succeeds (Answered (Inr r')) r = (r' = r \<and> nr_state r \<noteq> Failed)"
| "succeeds _ r = False"

fun fails :: "attempt \<Rightarrow> bool" where
  "fails (Answered (Inl e)) = True"
| "fails (Answered (Inr r)) = (nr_state r = Failed)"
| "fails Interrupted = False"

lemma fails_not_succeeds: "fails x \<Longrightarrow> \<not> succeeds x r"
  by (cases "(x, r)" rule: succeeds.cases) auto

lemma run_attempts_success:
  assumes "nr_state r \<noteq> Failed" and "lr \<noteq> Some r"
  shows "(run_attempts ans left a lr le = (Some r, None)) =
     (\<exists>j < left. succeeds (ans (a + j)) r \<and> (\<forall>i < j. fails (ans (a + i))))"
  using assms
proof (induction left arbitrary: a lr le)
  case 0
  then show ?case by auto
next
  case (Suc left)
  show ?case
  proof (cases "ans a")
    case Interrupted
    with Suc.prems show ?thesis by (auto simp: less_Suc_eq_0_disj)
  next
    case (Answered x)
    show ?thesis
    proof (cases "fails (ans a)")
      case True
      then obtain lr' le' where "run_attempts ans (Suc left) a lr le = run_attempts ans left (Suc a) lr' le'"
        and "lr' \<noteq> Some r"
        using Answered Suc.prems by (cases x) auto
      with Suc.IH [OF Suc.prems(1), of lr' "Suc a" le']
      have "run_attempts ans (Suc left) a lr le = (Some r, None) \<longleftrightarrow>
          (\<exists>j < left. succeeds (ans (Suc a + j)) r \<and> (\<forall>i < j. fails (ans (Suc a + i))))" by simp
      moreover have "\<not> succeeds (ans a) r" by (rule fails_not_succeeds [OF True])
      ultimately show ?thesis using True by (auto simp: Ex_less_Suc2 All_less_Suc2)
    next
      case False
      with Answered Suc.prems have "run_attempts ans (Suc left) a lr le = (Some r, None) \<longleftrightarrow> succeeds (ans a) r"
        by (cases x) auto
      with False show ?thesis by (auto simp: Ex_less_Suc2 All_less_Suc2)
    qed
  qed
qed


lemma all_attempts_fail:
  "(\<forall>i < Suc left. fails (ans (a + i))) \<Longrightarrow> snd (run_attempts ans (Suc left) a lr le) =
    (case ans (a + left) of Answered (Inl e) \<Rightarrow> Some e | Answered (Inr r) \<Rightarrow> nr_error r | Interrupted \<Rightarrow> None)"
proof (induction left arbitrary: a lr le)
  case 0
  then show ?case by (auto split: attempt.splits sum.splits)
next
  case (Suc left)
  from Suc.prems have f: "fails (ans a)" "\<forall>i < Suc left. fails (ans (Suc a + i))"
    by (auto simp: All_less_Suc2 [of "Suc left"] simp del: All_less_Suc)
  from f(1) obtain lr' le' where
    "run_attempts ans (Suc (Suc left)) a lr le = run_attempts ans (Suc left) (Suc a) lr' le'"
    by (cases "ans a" rule: fails.cases) auto
  with Suc.IH [OF f(2)] show ?case by simp
qed

text \<open>
  A node delivers a result that is not a failure exactly when one of its first \<open>retry_count + 1\<close> attempts
  gives it and every attempt before that one failed: an interruption ends the node, a success is never
  retried, and no further attempt is made. When every one of them fails, the error of the last one is the
  error of the node.
\<close>

theorem retries_until_success:
  assumes "nr_state r \<noteq> Failed"
  shows "(run_node ans n = (Some r, None)) =
      (\<exists>j \<le> unat (nd_retry_count n). succeeds (ans j) r \<and> (\<forall>i < j. fails (ans i)))
    \<and> ((\<forall>i \<le> unat (nd_retry_count n). fails (ans i)) \<longrightarrow> snd (run_node ans n) =
      (case ans (unat (nd_retry_count n)) of Answered (Inl e) \<Rightarrow> Some e | Answered (Inr r) \<Rightarrow> nr_error r | Interrupted \<Rightarrow> None))"
  using run_attempts_success [OF assms, of None ans "Suc (unat (nd_retry_count n))" 0 None]
    all_attempts_fail [of "unat (nd_retry_count n)" ans 0 None None]
  by (simp add: run_node_def less_Suc_eq_le del: run_attempts.simps)

definition flaky :: "nat \<Rightarrow> attempt" where
  "flaky j = (if j < 2 then Answered (Inl ''down'') else Answered (Inr (sample_result ''n'' Completed JNull)))"

lemma retries_until_success_witness:
  "(\<exists>j \<le> unat (nd_retry_count (sample_node ''n'' []\<lparr>nd_retry_count := 2\<rparr>)).
      succeeds (flaky j) (sample_result ''n'' Completed JNull) \<and> (\<forall>i < j. fails (flaky i)))
    \<and> snd (run_node flaky (sample_node ''n'' []\<lparr>nd_retry_count := 1\<rparr>)) = Some ''down''"
proof -
  let ?r = "sample_result ''n'' Completed JNull"
  have s: "nr_state ?r \<noteq> Failed" by (simp add: sample_result_def)
  have "run_node flaky (sample_node ''n'' []\<lparr>nd_retry_count := 2\<rparr>) = (Some ?r, None)" by code_simp
  moreover have "\<forall>i \<le> unat (nd_retry_count (sample_node ''n'' []\<lparr>nd_retry_count := 1\<rparr>)). fails (flaky i)"
    by (simp add: sample_node_def flaky_def)
  ultimately show ?thesis
    using retries_until_success [OF s, of flaky "sample_node ''n'' []\<lparr>nd_retry_count := 2\<rparr>"]
      retries_until_success [OF s, of flaky "sample_node ''n'' []\<lparr>nd_retry_count := 1\<rparr>"]
    by (simp add: sample_node_def flaky_def)
qed

text \<open>
  A failed result that carries no error message is taken for a success when its retries are used up: the
  pair the collecting loop stores in the run state comes out.
\<close>

lemma silent_failure_is_stored:
  assumes "nr_state r = Failed" and "nr_error r = None" and "\<And>j. ans j = Answered (Inr r)"
  shows "run_node ans n = (Some r, None)
    \<and> collect_results [(i, case run_node ans n of (r, e) \<Rightarrow> TaskResult r e, False, False)] wc None =
        ((None, False), store_result i r wc)"
proof -
  have "run_attempts ans (Suc left) a lr le = (Some r, None)" for left a lr le
    by (induction left arbitrary: a lr le) (simp_all add: assms)
  then show ?thesis by (simp add: run_node_def del: run_attempts.simps)
qed

section \<open>Levels\<close>

lemma get_node_result_store [simp]:
  "get_node_result (store_result i r wc) j = (if i = j then Some r else get_node_result wc j)"
proof -
  have "get_node_result (fold (\<lambda>(field, v). set_var (i @ ''.'' @ field) v) obj wc) j = get_node_result wc j" for obj
    by (induction obj arbitrary: wc) auto
  then show ?thesis by (simp add: store_result_def split: option.splits)
qed

definition runs_in :: "edge list \<Rightarrow> string set \<Rightarrow> wf_context \<Rightarrow> string list \<Rightarrow> string list \<Rightarrow> bool \<Rightarrow> bool" where
  "runs_in edges skip wc ids rs paused \<longleftrightarrow>
     subseq rs ids \<and> (\<forall>i \<in> set rs. i \<notin> skip \<and> \<not> is_waiting wc i)
     \<and> paused = (\<exists>i \<in> set ids. i \<notin> skip \<and> is_waiting wc i)
     \<and> (\<forall>i \<in> set ids. i \<in> skip \<or> is_waiting wc i \<or> cond_edges edges i \<noteq> [] \<or> i \<in> set rs)"

lemma runnable_runs_in:
  "runnable_nodes E edges skip wc ids = Inr (rs, paused) \<Longrightarrow> runs_in edges skip wc ids rs paused"
proof (induction ids arbitrary: rs paused)
  case Nil
  then show ?case by (simp add: runs_in_def)
next
  case (Cons i ids)
  consider "i \<in> skip" | "i \<notin> skip" "is_waiting wc i" | "i \<notin> skip" "\<not> is_waiting wc i" by blast
  then show ?case
  proof cases
    case 1
    with Cons.prems have "runnable_nodes E edges skip wc ids = Inr (rs, paused)" by simp
    from Cons.IH [OF this] 1 show ?thesis by (simp add: runs_in_def list_emb_Cons)
  next
    case 2
    with Cons.prems obtain p where "runnable_nodes E edges skip wc ids = Inr (rs, p)" and "paused"
      by (simp split: sum.splits prod.splits)
    from Cons.IH [OF this(1)] 2 \<open>paused\<close> show ?thesis by (simp add: runs_in_def list_emb_Cons)
  next
    case 3
    show ?thesis
    proof (cases "the (eval_edge_conditions E i edges wc)")
      case GateOpen
      with 3 Cons.prems obtain rs' where "runnable_nodes E edges skip wc ids = Inr (rs', paused)" and "rs = i # rs'"
        by (auto split: sum.splits)
      from Cons.IH [OF this(1)] 3 \<open>rs = i # rs'\<close> show ?thesis by (auto simp: runs_in_def)
    next
      case GateClosed
      with 3 Cons.prems have "runnable_nodes E edges skip wc ids = Inr (rs, paused)" by simp
      moreover have "cond_edges edges i \<noteq> []" using GateClosed by (auto simp: eval_edge_conditions_def)
      ultimately show ?thesis using Cons.IH [of rs paused] 3 by (simp add: runs_in_def list_emb_Cons)
    next
      case GateUnresolvable
      with 3 Cons.prems show ?thesis by simp
    qed
  qed
qed

lemma node_map_id: "node_map nodes i = Some n \<Longrightarrow> nd_id n = i"
  by (auto simp: node_map_def dest!: map_of_SomeD)

lemma spawn_prefix:
  "spawn_nodes env nodes ids = (ns, e) \<Longrightarrow> prefix (map nd_id ns) ids \<and> (e = None \<longrightarrow> map nd_id ns = ids)"
  by (induction ids arbitrary: ns) (auto split: option.splits if_splits prod.splits dest: node_map_id)

lemma collect_frame:
  "collect_results es wc fe = (o', wc') \<Longrightarrow> j \<notin> fst ` set es \<Longrightarrow> get_node_result wc' j = get_node_result wc j"
  by (induction es wc fe rule: collect_results.induct)
    (auto split: if_splits collected.splits option.splits)

lemma collect_drains: "collect_results es wc (Some e) \<noteq> ((None, c), w)"
  by (induction es arbitrary: wc) (auto split: collected.splits option.splits)

lemma collect_settles:
  "collect_results es wc None = ((None, False), wc') \<Longrightarrow>
     i \<in> fst ` set es \<or> get_node_result wc i \<noteq> None \<Longrightarrow> get_node_result wc' i \<noteq> None"
proof (induction es arbitrary: wc)
  case Nil
  then show ?case by simp
next
  case (Cons ev es)
  obtain j c w f where ev: "ev = (j, c, w, f)" by (cases ev)
  with Cons.prems(1) obtain r where "c = TaskResult (Some r) None"
    and "collect_results es (store_result j r wc) None = ((None, False), wc')"
    by (cases "(j, c)" rule: failure.cases) (auto simp: collect_drains split: if_splits option.splits)
  with Cons.IH [OF this(2)] Cons.prems(2) ev show ?case by auto
qed

definition fair_env :: "'f run_env \<Rightarrow> bool" where
  "fair_env env \<longleftrightarrow> permutes_lists (map_order (re_values env)) \<and> (\<forall>k. permutes_lists (re_finish env k))"

lemma event_ids: "fair_env env \<Longrightarrow> fst ` set (level_events env k ns ctx wc) = nd_id ` set ns"
proof -
  assume "fair_env env"
  then have "mset (re_finish env k ns) = mset ns" by (simp add: fair_env_def)
  then have "set (re_finish env k ns) = set ns" by (rule mset_eq_setD)
  moreover have "map fst (level_events env k ns ctx wc) = map nd_id (re_finish env k ns)"
    unfolding level_events_def by (rule nth_equalityI) (auto simp: nth_enumerate_eq split: prod.splits)
  ultimately show ?thesis by (metis list.set_map)
qed

lemma any_waiting: "any_waiting wc = (\<exists>i. is_waiting wc i)"
proof -
  have "is_waiting wc i \<Longrightarrow> i \<in> fst ` set (wc_node_results wc)" for i
    by (force simp: is_waiting_def get_node_result_def split: option.splits dest: map_of_SomeD)
  then show ?thesis by (auto simp: any_waiting_def list_ex_iff)
qed

text \<open>
  What one level does: it starts a part of its nodes, in order, and touches the results of no other node.
  Either the run ends with it, or no node of the level is left waiting, each started node has a result, and
  only nodes skipped or behind a conditional edge were not started.
\<close>

definition level_effect :: "edge list \<Rightarrow> string set \<Rightarrow> string list \<Rightarrow> wf_context \<Rightarrow> string list \<Rightarrow> wf_context \<Rightarrow> bool" where
  "level_effect edges skip level wc ns wc1 \<longleftrightarrow>
     subseq ns level \<and> (\<forall>i \<in> set ns. i \<notin> skip \<and> \<not> is_waiting wc i)
     \<and> (\<forall>j. j \<notin> set ns \<longrightarrow> get_node_result wc1 j = get_node_result wc j)"

definition level_settled :: "edge list \<Rightarrow> string set \<Rightarrow> string list \<Rightarrow> string list \<Rightarrow> wf_context \<Rightarrow> bool" where
  "level_settled edges skip level ns wc1 \<longleftrightarrow>
     (\<forall>i \<in> set level. i \<in> skip \<or> \<not> is_waiting wc1 i \<and> (cond_edges edges i \<noteq> [] \<or> i \<in> set ns))
     \<and> (\<forall>i \<in> set ns. get_node_result wc1 i \<noteq> None)"

lemma schedule_level_effect:
  assumes env: "fair_env env"
  shows "case schedule_level env hook nodes edges skip k level wc log of
      Leave out wc1 log1 \<Rightarrow> (\<exists>ns. starts log1 = starts log @ ns \<and> level_effect edges skip level wc ns wc1
        \<and> (out = Inr RunCompleted \<longrightarrow> any_waiting wc1))
    | Proceed wc1 log1 \<Rightarrow> (\<exists>ns. starts log1 = starts log @ ns \<and> level_effect edges skip level wc ns wc1
        \<and> level_settled edges skip level ns wc1)"
proof -
  have idle: "level_effect edges skip level wc [] wc" by (simp add: level_effect_def)
  show ?thesis
  proof (cases "re_cancelled env k 0")
    case True
    with idle show ?thesis by (simp add: schedule_level_def)
  next
    case nc: False
    show ?thesis
    proof (cases "runnable_nodes (re_values env) edges skip wc level")
      case (Inl e)
      with nc idle show ?thesis by (simp add: schedule_level_def)
    next
      case (Inr p)
      obtain rs paused where p: "p = (rs, paused)" by fastforce
      note runs = runnable_runs_in [OF Inr [unfolded p]]
      show ?thesis
      proof (cases "rs = []")
        case True
        with runs have "if paused then any_waiting wc else level_settled edges skip level [] wc"
          by (auto simp: runs_in_def any_waiting level_settled_def)
        with nc Inr p True idle show ?thesis by (simp add: schedule_level_def split: if_splits)
      next
        case rs: False
        obtain ns e where sp: "spawn_nodes env nodes rs = (ns, e)" by fastforce
        note pre = spawn_prefix [OF sp]
        let ?ns = "map nd_id ns" and ?evs = "level_events env k ns (build_executor_context (re_values env) wc) wc"
        have sub: "subseq ?ns level" "\<forall>i \<in> set ?ns. i \<notin> skip \<and> \<not> is_waiting wc i"
          using runs pre set_mono_prefix [of ?ns rs]
          by (auto simp: runs_in_def intro: subseq_order.trans [OF prefix_imp_subseq])
        show ?thesis
        proof (cases e)
          case (Some err)
          with nc Inr p rs sp sub show ?thesis by (simp add: schedule_level_def level_effect_def)
        next
          case None
          obtain fe c wc1 where col: "collect_results ?evs wc None = ((fe, c), wc1)" by (metis prod.exhaust)
          have eff: "level_effect edges skip level wc ?ns wc1"
            using sub collect_frame [OF col] event_ids [OF env] by (simp add: level_effect_def)
          note level = nc Inr p rs sp None col
          consider "c \<or> fe \<noteq> None \<or> any_waiting wc1" | "\<not> c" "fe = None" "\<not> any_waiting wc1" by blast
          then show ?thesis
          proof cases
            case 1
            with level eff show ?thesis by (auto simp: schedule_level_def split: option.splits)
          next
            case 2
            have "\<forall>i \<in> set ?ns. get_node_result wc1 i \<noteq> None"
              using collect_settles [of ?evs wc wc1] col 2 event_ids [OF env] by auto
            moreover have "\<forall>i \<in> set level. i \<in> skip \<or> cond_edges edges i \<noteq> [] \<or> i \<in> set ?ns \<or> is_waiting wc i"
              using runs pre None by (auto simp: runs_in_def)
            moreover have "is_waiting wc i \<Longrightarrow> i \<in> set ?ns \<or> is_waiting wc1 i" for i
              using eff by (simp add: level_effect_def is_waiting_def) metis
            ultimately have "level_settled edges skip level ?ns wc1"
              using 2 unfolding any_waiting level_settled_def by blast
            with 2 level eff show ?thesis by (simp add: schedule_level_def)
          qed
        qed
      qed
    qed
  qed
qed

section \<open>Runs\<close>

lemma run_levels_cases:
  assumes "fair_env env"
    and "run_levels env hook nodes edges skip k (level # levels) wc log = (out, wc', log')"
  obtains (left) ns where "starts log' = starts log @ ns" and "level_effect edges skip level wc ns wc'"
      and "out = Inr RunCompleted \<Longrightarrow> any_waiting wc'"
  | (next_level) ns wc1 log1 where "starts log1 = starts log @ ns" and "level_effect edges skip level wc ns wc1"
      and "level_settled edges skip level ns wc1"
      and "run_levels env hook nodes edges skip (Suc k) levels wc1 log1 = (out, wc', log')"
proof (cases "schedule_level env hook nodes edges skip k level wc log")
  case (Leave o1 w1 l1)
  from schedule_level_effect [OF assms(1), where hook = hook and level = level and wc = wc and nodes = nodes
      and edges = edges and skip = skip and k = k and log = log] Leave assms(2)
  have "\<exists>ns. starts log' = starts log @ ns \<and> level_effect edges skip level wc ns wc'
      \<and> (out = Inr RunCompleted \<longrightarrow> any_waiting wc')" by simp
  with left show thesis by blast
next
  case (Proceed w1 l1)
  from schedule_level_effect [OF assms(1), where hook = hook and level = level and wc = wc and nodes = nodes
      and edges = edges and skip = skip and k = k and log = log] Proceed
  have "\<exists>ns. starts l1 = starts log @ ns \<and> level_effect edges skip level wc ns w1
      \<and> level_settled edges skip level ns w1" by simp
  moreover have "run_levels env hook nodes edges skip (Suc k) levels w1 l1 = (out, wc', log')"
    using assms(2) Proceed by simp
  ultimately show thesis using next_level by blast
qed

lemma level_effect_starts: "level_effect edges skip level wc ns wc1 \<Longrightarrow> set ns \<subseteq> set level"
  by (auto simp: level_effect_def dest: list_emb_set)

lemma level_effect_frame:
  "level_effect edges skip level wc ns wc1 \<Longrightarrow> i \<notin> set level \<Longrightarrow> get_node_result wc1 i = get_node_result wc i"
  using level_effect_starts [of edges skip level wc ns wc1] unfolding level_effect_def by blast

lemma is_waiting_cong: "get_node_result wc1 i = get_node_result wc i \<Longrightarrow> is_waiting wc1 i = is_waiting wc i"
  by (simp add: is_waiting_def)

lemma run_levels_effect:
  assumes env: "fair_env env"
  shows "run_levels env hook nodes edges skip k levels wc log = (out, wc', log') \<Longrightarrow> distinct (concat levels) \<Longrightarrow>
    \<exists>s. starts log' = starts log @ s \<and> level_effect edges skip (concat levels) wc s wc'"
proof (induction levels arbitrary: k wc log)
  case Nil
  then show ?case by (simp add: level_effect_def)
next
  case (Cons level levels)
  from env Cons.prems(1) show ?case
  proof (cases rule: run_levels_cases)
    case (left ns)
    then show ?thesis by (auto simp: level_effect_def intro: subseq_rev_drop_many)
  next
    case (next_level ns wc1 log1)
    from Cons.IH [OF next_level(4)] Cons.prems(2) obtain s where s: "starts log' = starts log1 @ s"
      "level_effect edges skip (concat levels) wc1 s wc'" by auto
    have "i \<in> set s \<Longrightarrow> is_waiting wc1 i = is_waiting wc i" for i
      using level_effect_starts [OF s(2)] Cons.prems(2)
      by (intro is_waiting_cong level_effect_frame [OF next_level(2)]) auto
    with s next_level(1,2) show ?thesis
      by (intro exI [of _ "ns @ s"]) (auto simp: level_effect_def intro: list_emb_append_mono)
  qed
qed

lemma waiting_barrier:
  assumes env: "fair_env env"
  shows "run_levels env hook nodes edges skip k levels wc log = (out, wc', log') \<Longrightarrow> distinct (concat levels) \<Longrightarrow>
    i < j \<Longrightarrow> j < length levels \<Longrightarrow> w \<in> set (levels ! i) \<Longrightarrow> w \<notin> skip \<Longrightarrow> is_waiting wc' w \<Longrightarrow>
    v \<in> set (levels ! j) \<Longrightarrow> v \<notin> set (starts log) \<Longrightarrow> v \<notin> set (starts log')"
proof (induction levels arbitrary: k wc log i j)
  case Nil
  then show ?case by simp
next
  case (Cons level levels)
  have "v \<in> set (concat levels)"
    using Cons.prems(3,4,8) nth_mem [of "j - 1" levels] by (cases j) auto
  then have v: "v \<notin> set level" and w: "i = 0 \<Longrightarrow> w \<notin> set (concat levels)"
    using Cons.prems(2,5) by auto
  from env Cons.prems(1) show ?case
  proof (cases rule: run_levels_cases)
    case (left ns)
    with level_effect_starts [OF left(2)] v Cons.prems(9) show ?thesis by auto
  next
    case (next_level ns wc1 log1)
    show ?thesis
    proof (cases i)
      case 0
      obtain s where "level_effect edges skip (concat levels) wc1 s wc'"
        using run_levels_effect [OF env next_level(4)] Cons.prems(2) by auto
      then have "is_waiting wc' w = is_waiting wc1 w"
        using w [OF 0] by (intro is_waiting_cong) (rule level_effect_frame)
      with next_level(3) 0 Cons.prems(5,6,7) show ?thesis by (auto simp: level_settled_def)
    next
      case (Suc i')
      with Cons.prems(3) obtain j' where j: "j = Suc j'" by (cases j) auto
      have "v \<notin> set (starts log1)"
        using next_level(1) level_effect_starts [OF next_level(2)] v Cons.prems(9) by auto
      with Cons.IH [OF next_level(4), of i' j'] Cons.prems Suc j show ?thesis by simp
    qed
  qed
qed

lemma run_levels_complete:
  assumes env: "fair_env env"
  shows "run_levels env hook nodes edges skip k levels wc log = (Inr RunCompleted, wc', log') \<Longrightarrow>
    distinct (concat levels) \<Longrightarrow> \<not> any_waiting wc' \<Longrightarrow> i \<in> set (concat levels) \<Longrightarrow> i \<notin> skip \<Longrightarrow> cond_edges edges i = [] \<Longrightarrow>
    i \<in> set (starts log') \<and> get_node_result wc' i \<noteq> None"
proof (induction levels arbitrary: k wc log)
  case Nil
  then show ?case by simp
next
  case (Cons level levels)
  from env Cons.prems(1) show ?case
  proof (cases rule: run_levels_cases)
    case (left ns)
    with Cons.prems(3) show ?thesis by simp
  next
    case (next_level ns wc1 log1)
    from run_levels_effect [OF env next_level(4)] Cons.prems(2) obtain s where s: "starts log' = starts log1 @ s"
      "level_effect edges skip (concat levels) wc1 s wc'" by auto
    show ?thesis
    proof (cases "i \<in> set level")
      case True
      with next_level(3) Cons.prems(5,6) have "i \<in> set ns" "get_node_result wc1 i \<noteq> None"
        by (auto simp: level_settled_def)
      moreover have "i \<notin> set (concat levels)" using True Cons.prems(2) by auto
      then have "get_node_result wc' i = get_node_result wc1 i" by (rule level_effect_frame [OF s(2)])
      ultimately show ?thesis using s(1) next_level(1) by simp
    next
      case False
      with Cons.prems Cons.IH [OF next_level(4)] show ?thesis by simp
    qed
  qed
qed

lemma layered_no_back_arc:
  assumes "layered A L" and "distinct (concat L)" and "i < length L" and "j < length L" and "j \<le> i"
    and "u \<in> set (L ! i)" and "v \<in> set (L ! j)"
  shows "(u, v) \<notin> set A"
proof
  assume "(u, v) \<in> set A"
  then obtain m where "m < j" and "u \<in> set (L ! m)" using layered_index [OF assms(1,4,7)] by blast
  with level_unique [OF assms(2,3), of m u] assms show False by simp
qed

lemma layered_sorted:
  assumes "layered A L" and "distinct (concat L)"
  shows "sorted_wrt (\<lambda>u v. (v, u) \<notin> set A) (concat L)"
proof -
  have "n \<le> length L \<Longrightarrow> sorted_wrt (\<lambda>u v. (v, u) \<notin> set A) (concat (take n L))" for n
  proof (induction n)
    case 0
    then show ?case by simp
  next
    case (Suc n)
    then have n: "n < length L" by simp
    have "x \<in> set (concat (take n L)) \<Longrightarrow> \<exists>j < n. x \<in> set (L ! j)" for x
      by (metis (no_types, lifting) in_some_level length_take min.absorb4 n nth_take)
    then have "\<forall>x \<in> set (concat (take n L)). \<forall>y \<in> set (L ! n). (y, x) \<notin> set A"
      using layered_no_back_arc [OF assms n] n by (meson less_imp_le less_trans)
    moreover have "sorted_wrt (\<lambda>u v. (v, u) \<notin> set A) (L ! n)"
      by (rule sorted_wrt_mono_rel [of _ "\<lambda>u v. True"]) (use layered_no_back_arc [OF assms n n] in auto)
    ultimately show ?case using Suc n by (simp add: take_Suc_conv_app_nth sorted_wrt_append)
  qed
  from this [of "length L"] show ?thesis by simp
qed

lemma distinct_sorted_wrt: "sorted_wrt (\<noteq>) xs = distinct xs"
  by (induction xs) auto

lemma sorted_wrt_subseq: "subseq xs ys \<Longrightarrow> sorted_wrt P ys \<Longrightarrow> sorted_wrt P xs"
  by (induction rule: list_emb.induct) (auto dest: list_emb_set)

lemma run_layers:
  assumes "fair_env env" and "references_defined nodes edges"
    and "schedule_inner env nodes edges wc skip hook = (out, wc', log)"
  obtains (cyclic) e where "out = Inl (TopologyError e)" and "wc' = wc" and "log = []"
  | (levels) L where "distinct (concat L)" and "set (concat L) = nd_id ` set nodes" and "layered (arcs nodes edges) L"
      and "run_levels env hook nodes edges skip 0 L wc [] = (out, wc', log)"
proof (cases "topological_sort (map_order (re_values env)) nodes edges")
  case (Inl e)
  with assms(3) cyclic show thesis by (auto simp: schedule_inner_def)
next
  case (Inr L)
  have "permutes_lists (map_order (re_values env))" using assms(1) by (simp add: fair_env_def)
  from topological_sort_layers [OF this assms(2) Inr] have "distinct (concat L)"
    "set (concat L) = nd_id ` set nodes" "layered (arcs nodes edges) L" by blast+
  moreover have "run_levels env hook nodes edges skip 0 L wc [] = (out, wc', log)"
    using assms(3) Inr by (simp add: schedule_inner_def)
  ultimately show thesis by (rule levels)
qed

text \<open>
  C6. Whatever the executors answer, in whatever order the tasks of a level finish, and whether the run completes,
  fails or is cancelled: no node is started twice, no node of the skip set and none that is already waiting for a
  reply is started, no started node has a later one as a predecessor, and the stored results of all other nodes
  are as before.
\<close>

theorem nodes_start_once_in_order:
  assumes "fair_env env" and "references_defined nodes edges"
    and "schedule_inner env nodes edges wc skip hook = (out, wc', log)"
  shows "distinct (starts log) \<and> set (starts log) \<subseteq> nd_id ` set nodes - skip
    \<and> (\<forall>i \<in> set (starts log). \<not> is_waiting wc i)
    \<and> sorted_wrt (\<lambda>u v. (v, u) \<notin> set (arcs nodes edges)) (starts log)
    \<and> (\<forall>j. j \<notin> set (starts log) \<longrightarrow> get_node_result wc' j = get_node_result wc j)"
  using assms
proof (cases rule: run_layers)
  case (cyclic e)
  then show ?thesis by simp
next
  case (levels L)
  from run_levels_effect [OF assms(1) levels(4,1)] obtain s where s: "starts log = s"
    and e: "level_effect edges skip (concat L) wc s wc'" by auto
  have sub: "subseq s (concat L)" using e by (simp add: level_effect_def)
  have "sorted_wrt (\<lambda>u v. (v, u) \<notin> set (arcs nodes edges)) s"
    by (rule sorted_wrt_subseq [OF sub layered_sorted [OF levels(3,1)]])
  moreover have "distinct s"
    using sorted_wrt_subseq [OF sub, of "(\<noteq>)"] levels(1) by (simp add: distinct_sorted_wrt)
  moreover have "set s \<subseteq> nd_id ` set nodes" using level_effect_starts [OF e] levels(2) by simp
  ultimately show ?thesis using e s by (auto simp: level_effect_def)
qed

text \<open>
  C7. A node that stands in the state waiting when the scheduler returns, and that was not to be skipped, has
  held back everything behind it: no node that depends on it, directly or through others, was started.
\<close>

theorem waiting_blocks_downstream:
  assumes "fair_env env" and "references_defined nodes edges"
    and "schedule_inner env nodes edges wc skip hook = (out, wc', log)"
    and "is_waiting wc' w" and "w \<notin> skip"
    and "(w, v) \<in> (set (arcs nodes edges))\<^sup>+"
  shows "v \<notin> set (starts log)"
  using assms(1-3)
proof (cases rule: run_layers)
  case (cyclic e')
  then show ?thesis by simp
next
  case (levels L)
  have arc: "(x, y) \<in> set (arcs nodes edges) \<Longrightarrow> x \<in> set (concat L) \<and> y \<in> set (concat L)" for x y
    using assms(2) levels(2) by (auto simp: references_defined_def list_all_iff)
  have "\<forall>j < length L. v \<in> set (L ! j) \<longrightarrow> (\<exists>i < j. w \<in> set (L ! i))"
    using assms(6)
  proof (induction rule: trancl_induct)
    case (base y)
    then show ?case using layered_index [OF levels(3)] by blast
  next
    case (step y z)
    show ?case
    proof (intro allI impI)
      fix j
      assume "j < length L" and "z \<in> set (L ! j)"
      then obtain m where "m < j" "y \<in> set (L ! m)" using layered_index [OF levels(3)] step(2) by blast
      with step.IH \<open>j < length L\<close> show "\<exists>i < j. w \<in> set (L ! i)" by (meson less_trans)
    qed
  qed
  moreover have "v \<in> set (concat L)" using assms(6) by (induction rule: trancl_induct) (use arc in blast)+
  ultimately obtain i j where "i < j" "j < length L" "w \<in> set (L ! i)" "v \<in> set (L ! j)"
    using in_some_level by metis
  with waiting_barrier [OF assms(1) levels(4,1)] assms(4,5) show ?thesis by simp
qed

text \<open>
  When the scheduler reports completion and no node is left waiting, it is complete: every node outside the
  skip set without a conditional edge into it was started and has a result.
\<close>

theorem completed_runs_everything:
  assumes "fair_env env" and "references_defined nodes edges"
    and "schedule_inner env nodes edges wc skip hook = (Inr RunCompleted, wc', log)"
    and "\<not> any_waiting wc'" and "n \<in> set nodes" and "nd_id n \<notin> skip"
    and "\<forall>e \<in> set edges. to_node e = nd_id n \<longrightarrow> edge_condition e = None"
  shows "nd_id n \<in> set (starts log) \<and> get_node_result wc' (nd_id n) \<noteq> None"
  using assms(1-3)
proof (cases rule: run_layers)
  case (cyclic e')
  then show ?thesis by simp
next
  case (levels L)
  have "cond_edges edges (nd_id n) = []" using assms(7) by (auto simp: cond_edges_def filter_empty_conv)
  moreover have "nd_id n \<in> set (concat L)" unfolding levels(2) using assms(5) by simp
  ultimately show ?thesis using run_levels_complete [OF assms(1) levels(4,1) assms(4)] assms(6) by blast
qed

section \<open>A sample run\<close>

text \<open>\<open>a\<close> before \<open>b\<close> and \<open>c\<close>, \<open>c\<close> before \<open>d\<close>; \<open>b\<close> only if \<open>a\<close> scored more than 3; \<open>c\<close> may be a review.\<close>

definition review_nodes :: "node_def list" where
  "review_nodes = [sample_node ''a'' [], sample_node ''b'' [], sample_node ''c'' [''a''], sample_node ''d'' [''c'']]"

definition review_edges :: "edge list" where
  "review_edges = [\<lparr>from_node = ''a'', to_node = ''b'', edge_condition = Some ''{{a.score}} > 3''\<rparr>]"

definition review_env :: "execution_state \<Rightarrow> nat run_env" where
  "review_env st = \<lparr>re_values = sample_env, re_executors = (\<lambda>t. True),
     re_answer = (\<lambda>k n ctx wc j. Answered (Inr (sample_result (nd_id n) (if nd_id n = ''c'' then st else Completed)
        (JObject [(''score'', JNumber ''2'')])))),
     re_panic = (\<lambda>k i. None), re_finish = (\<lambda>k. rev), re_cancelled = (\<lambda>k j. False)\<rparr>"

definition fresh_context :: wf_context where
  "fresh_context = new_with_identity no_identity []"

lemma fair_review_env: "fair_env (review_env st)"
  by (simp add: fair_env_def review_env_def sample_env_def)

lemma review_run:
  "starts (snd (snd (schedule (review_env Completed) review_nodes review_edges fresh_context))) = [''a'', ''c'', ''d'']"
  "fst (schedule (review_env Completed) review_nodes review_edges fresh_context) = Inr RunCompleted"
  "starts (snd (snd (schedule (review_env Waiting) review_nodes review_edges fresh_context))) = [''a'', ''c'']"
  "is_waiting (fst (snd (schedule (review_env Waiting) review_nodes review_edges fresh_context))) ''c''"
  by code_simp+

lemma review_defined: "references_defined review_nodes review_edges"
  by code_simp

lemma nodes_start_once_in_order_witness:
  "let s = starts (snd (snd (schedule (review_env Completed) review_nodes review_edges fresh_context)))
   in s = [''a'', ''c'', ''d''] \<and> distinct s \<and> set s \<subseteq> nd_id ` set review_nodes - {}
      \<and> sorted_wrt (\<lambda>u v. (v, u) \<notin> set (arcs review_nodes review_edges)) s"
proof -
  obtain out wc' log where s: "schedule (review_env Completed) review_nodes review_edges fresh_context = (out, wc', log)"
    by (metis prod.exhaust)
  then have "schedule_inner (review_env Completed) review_nodes review_edges fresh_context {} False = (out, wc', log)"
    by (simp add: schedule_def)
  from nodes_start_once_in_order [OF fair_review_env review_defined this] review_run(1) s show ?thesis
    by (simp add: Let_def)
qed

lemma waiting_blocks_downstream_witness:
  "is_waiting (fst (snd (schedule (review_env Waiting) review_nodes review_edges fresh_context))) ''c''
   \<and> ''d'' \<notin> set (starts (snd (snd (schedule (review_env Waiting) review_nodes review_edges fresh_context))))"
proof -
  obtain out wc' log where s: "schedule (review_env Waiting) review_nodes review_edges fresh_context = (out, wc', log)"
    by (metis prod.exhaust)
  have "(''c'', ''d'') \<in> set (arcs review_nodes review_edges)" by code_simp
  then have "(''c'', ''d'') \<in> (set (arcs review_nodes review_edges))\<^sup>+" by simp
  moreover have "is_waiting wc' ''c''" using review_run(4) s by simp
  moreover have "schedule_inner (review_env Waiting) review_nodes review_edges fresh_context {} False = (out, wc', log)"
    using s by (simp add: schedule_def)
  ultimately show ?thesis
    using waiting_blocks_downstream [OF fair_review_env review_defined, of Waiting fresh_context "{}" False out wc' log "''c''" "''d''"] s
    by simp
qed

lemma completed_runs_everything_witness:
  "let s = schedule (review_env Completed) review_nodes review_edges fresh_context
   in ''d'' \<in> set (starts (snd (snd s))) \<and> get_node_result (fst (snd s)) ''d'' \<noteq> None"
proof -
  obtain out wc' log where s: "schedule (review_env Completed) review_nodes review_edges fresh_context = (out, wc', log)"
    by (metis prod.exhaust)
  have "\<not> any_waiting (fst (snd (schedule (review_env Completed) review_nodes review_edges fresh_context)))" by code_simp
  then have "\<not> any_waiting wc'" using s by simp
  moreover have "out = Inr RunCompleted" using review_run(2) s by simp
  moreover have "schedule_inner (review_env Completed) review_nodes review_edges fresh_context {} False = (out, wc', log)"
    using s by (simp add: schedule_def)
  ultimately have "nd_id (sample_node ''d'' [''c'']) \<in> set (starts log)
      \<and> get_node_result wc' (nd_id (sample_node ''d'' [''c''])) \<noteq> None"
    by (intro completed_runs_everything [OF fair_review_env review_defined, of Completed fresh_context "{}" False wc' log
        "sample_node ''d'' [''c'']"]) (simp_all add: review_nodes_def review_edges_def sample_node_def)
  then show ?thesis by (simp add: s sample_node_def)
qed

end
