(* ===== verification/Routing_Keys.thy ===== *)
theory Routing_Keys
  imports Rust_Str
begin

text \<open>
  Agent and account identifiers and session keys (\<open>crates/nemesis-routing/src/agent_id.rs\<close> and
  \<open>session_key.rs\<close>). A session key decides which conversation memory a message belongs to. The identity
  links, a \<open>HashMap\<close> that the lookup iterates over, are the list of its entries in that order.
\<close>

section \<open>Identifiers\<close>

definition DEFAULT_AGENT_ID :: string where "DEFAULT_AGENT_ID = ''main''"
definition DEFAULT_ACCOUNT_ID :: string where "DEFAULT_ACCOUNT_ID = ''default''"
definition MAX_AGENT_ID_LENGTH :: nat where "MAX_AGENT_ID_LENGTH = 64"

definition id_char :: "char \<Rightarrow> bool" where
  "id_char c \<longleftrightarrow> is_ascii_alphanumeric c \<or> c = CHR ''_'' \<or> c = CHR ''-''"

definition is_valid_id :: "string \<Rightarrow> bool" where
  "is_valid_id i \<longleftrightarrow> i \<noteq> [] \<and> utf8_len i \<le> MAX_AGENT_ID_LENGTH \<and> is_ascii_alphanumeric (hd i) \<and> list_all id_char i"

definition sanitize :: "string \<Rightarrow> string" where
  "sanitize s = map (\<lambda>c. if id_char c then c else CHR ''-'') s"

definition trim_dashes :: "string \<Rightarrow> string" where
  "trim_dashes s = rev (dropWhile (\<lambda>c. c = CHR ''-'') (rev (dropWhile (\<lambda>c. c = CHR ''-'') s)))"

definition normalize_agent_id :: "string \<Rightarrow> string" where
  "normalize_agent_id i =
     (let trimmed = trim i in
      if trimmed = [] then DEFAULT_AGENT_ID
      else (let lower = to_lowercase trimmed in
        if is_valid_id lower then lower
        else (let result = trim_dashes (sanitize lower);
                  result = (if length result > MAX_AGENT_ID_LENGTH then take MAX_AGENT_ID_LENGTH result else result);
                  result = trim_dashes result
              in if result = [] then DEFAULT_AGENT_ID else result)))"

definition normalize_account_id :: "string \<Rightarrow> string" where
  "normalize_account_id i =
     (let trimmed = trim i in
      if trimmed = [] then DEFAULT_ACCOUNT_ID
      else (let lower = to_lowercase trimmed in
        if is_valid_id lower then lower
        else (let result = trim_dashes (sanitize lower) in if result = [] then DEFAULT_ACCOUNT_ID else result)))"

section \<open>Session keys\<close>

datatype dm_scope = Main | PerPeer | PerChannelPeer | PerAccountChannelPeer

definition dm_scope_from_str :: "string \<Rightarrow> dm_scope" where
  "dm_scope_from_str s =
     (let t = to_lowercase (trim s) in
      if t = ''per-peer'' then PerPeer
      else if t = ''per-channel-peer'' then PerChannelPeer
      else if t = ''per-account-channel-peer'' then PerAccountChannelPeer
      else Main)"

record route_peer =
  rp_kind :: string
  rp_id :: string

type_synonym identity_links = "(string \<times> string list) list"

record session_key_params =
  sk_agent_id :: string
  sk_channel :: string
  sk_account_id :: string
  sk_peer :: "route_peer option"
  sk_dm_scope :: dm_scope
  sk_identity_links :: identity_links

definition build_agent_main_session_key :: "string \<Rightarrow> string" where
  "build_agent_main_session_key agent_id =
     to_lowercase (''agent:'' @ normalize_agent_id agent_id @ '':main'')"

definition normalize_channel :: "string \<Rightarrow> string" where
  "normalize_channel channel = (let c = to_lowercase (trim channel) in if c = [] then ''unknown'' else c)"

definition build_agent_session_key :: "string \<Rightarrow> string \<Rightarrow> string \<Rightarrow> string \<Rightarrow> string" where
  "build_agent_session_key agent_id channel peer_kind peer_id =
     (let kind = (if trim peer_kind = [] then ''direct'' else trim peer_kind);
          pid = (if trim peer_id = [] then ''unknown'' else trim peer_id)
      in to_lowercase (''agent:'' @ normalize_agent_id agent_id @ '':'' @ normalize_channel channel @ '':'' @ kind @ '':'' @ pid))"

definition resolve_linked_peer_id :: "identity_links \<Rightarrow> string \<Rightarrow> string \<Rightarrow> string option" where
  "resolve_linked_peer_id links channel peer_id0 =
     (let peer_id = trim peer_id0 in
      if links = [] \<or> peer_id = [] then None
      else (let lower_peer = to_lowercase peer_id;
                channel_lower = to_lowercase (trim channel);
                candidates = lower_peer # (if channel_lower \<noteq> [] then [channel_lower @ '':'' @ lower_peer] else [])
            in first_some (\<lambda>(canonical, ids).
                 if trim canonical \<noteq> [] \<and> list_ex (\<lambda>i. to_lowercase (trim i) \<noteq> [] \<and> to_lowercase (trim i) \<in> set candidates) ids
                 then Some (trim canonical) else None) links))"

text \<open>The peer of a direct message, after its identity links.\<close>

definition direct_peer_id :: "session_key_params \<Rightarrow> route_peer \<Rightarrow> string" where
  "direct_peer_id params peer =
     (let bare = trim (rp_id peer) in
      if sk_dm_scope params \<noteq> Main \<and> bare \<noteq> [] then
        (case resolve_linked_peer_id (sk_identity_links params) (sk_channel params) bare of
           Some linked \<Rightarrow> linked | None \<Rightarrow> bare)
      else bare)"

definition build_agent_peer_session_key :: "session_key_params \<Rightarrow> string" where
  "build_agent_peer_session_key params =
     (let agent_id = normalize_agent_id (sk_agent_id params);
          peer = (case sk_peer params of Some p \<Rightarrow> p | None \<Rightarrow> \<lparr>rp_kind = ''direct'', rp_id = []\<rparr>);
          peer_kind = (if trim (rp_kind peer) = [] then ''direct'' else trim (rp_kind peer));
          peer_kind_lower = to_lowercase peer_kind;
          ch = normalize_channel (sk_channel params)
      in if peer_kind_lower = ''direct'' then
           (let dm_scope = sk_dm_scope params;
                peer_id_lower = to_lowercase (direct_peer_id params peer)
            in if peer_id_lower = [] then build_agent_main_session_key (sk_agent_id params)
               else (case dm_scope of
                   PerAccountChannelPeer \<Rightarrow>
                     to_lowercase (''agent:'' @ agent_id @ '':'' @ ch @ '':'' @ normalize_account_id (sk_account_id params)
                       @ '':direct:'' @ peer_id_lower)
                 | PerChannelPeer \<Rightarrow> to_lowercase (''agent:'' @ agent_id @ '':'' @ ch @ '':direct:'' @ peer_id_lower)
                 | PerPeer \<Rightarrow> to_lowercase (''agent:'' @ agent_id @ '':direct:'' @ peer_id_lower)
                 | Main \<Rightarrow> build_agent_main_session_key (sk_agent_id params)))
         else
           (let pid = to_lowercase (trim (rp_id peer));
                peer_id = (if pid = [] then ''unknown'' else pid)
            in to_lowercase (''agent:'' @ agent_id @ '':'' @ ch @ '':'' @ peer_kind_lower @ '':'' @ peer_id)))"

text \<open>\<open>splitn(3, ':')\<close> with fewer than three parts is \<open>None\<close>.\<close>

definition parse_agent_session_key :: "string \<Rightarrow> (string \<times> string) option" where
  "parse_agent_session_key session_key =
     (case split_once '':'' (trim session_key) of
        None \<Rightarrow> None
      | Some (first, others) \<Rightarrow>
          (case split_once '':'' others of
             None \<Rightarrow> None
           | Some (agent_id, rest) \<Rightarrow>
               if first \<noteq> ''agent'' \<or> agent_id = [] \<or> rest = [] then None else Some (agent_id, rest)))"

definition is_subagent_session_key :: "string \<Rightarrow> bool" where
  "is_subagent_session_key session_key \<longleftrightarrow>
     starts_with (to_lowercase (trim session_key)) ''subagent:''
     \<or> (case parse_agent_session_key session_key of
          Some (_, rest) \<Rightarrow> starts_with (to_lowercase rest) ''subagent:''
        | None \<Rightarrow> False)"

section \<open>Normal forms\<close>

lemma id_char_no_space: "id_char c \<Longrightarrow> \<not> is_whitespace c"
  by (auto simp: id_char_def is_whitespace_def is_ascii_alphanumeric_def is_ascii_alphabetic_def is_ascii_digit_def Let_def)

lemma id_char_no_colon: "id_char c \<Longrightarrow> c \<noteq> CHR '':''"
  by (auto simp: id_char_def is_ascii_alphanumeric_def is_ascii_alphabetic_def is_ascii_digit_def Let_def)

definition dash_free_ends :: "string \<Rightarrow> bool" where
  "dash_free_ends s \<longleftrightarrow> s = [] \<or> hd s \<noteq> CHR ''-'' \<and> last s \<noteq> CHR ''-''"

lemma trim_dashes_ends: "dash_free_ends (trim_dashes s)"
proof (cases "dropWhile (\<lambda>c. c = CHR ''-'') s = []")
  case True
  show ?thesis unfolding trim_dashes_def True by (simp add: dash_free_ends_def)
next
  case False
  let ?P = "\<lambda>c. c = CHR ''-''" and ?t = "dropWhile (\<lambda>c. c = CHR ''-'') s"
  have h: "\<not> ?P (hd ?t)" by (rule dropWhile_hd [OF False])
  note r = hd_rev_dropWhile_rev [of ?t ?P, OF False h]
  then have "dropWhile ?P (rev ?t) \<noteq> []" by auto
  then have "\<not> ?P (hd (dropWhile ?P (rev ?t)))" by (rule dropWhile_hd)
  with r h show ?thesis by (simp add: trim_dashes_def dash_free_ends_def last_rev)
qed

lemma trim_dashes_id: "dash_free_ends s \<Longrightarrow> trim_dashes s = s"
proof -
  assume d: "dash_free_ends s"
  then have a: "dropWhile (\<lambda>c. c = CHR ''-'') s = s" by (cases s) (auto simp: dash_free_ends_def)
  have "dropWhile (\<lambda>c. c = CHR ''-'') (rev s) = rev s"
    using d by (cases s rule: rev_cases) (auto simp: dash_free_ends_def)
  with a show ?thesis by (simp add: trim_dashes_def)
qed

lemma set_trim_dashes: "set (trim_dashes s) \<subseteq> set s"
  by (auto simp: trim_dashes_def dest!: set_dropWhileD)

lemma length_trim_dashes: "length (trim_dashes s) \<le> length s"
  unfolding trim_dashes_def by (metis le_trans length_dropWhile_le length_rev)

text \<open>What a normalised identifier looks like.\<close>

definition normal_id :: "string \<Rightarrow> bool" where
  "normal_id s \<longleftrightarrow> s \<noteq> [] \<and> (\<forall>c \<in> set s. id_char c \<and> \<not> is_upper_char c) \<and> hd s \<noteq> CHR ''-''"

lemma normal_lower: "normal_id s \<Longrightarrow> to_lowercase s = s"
  by (auto simp: normal_id_def to_lowercase_def to_lower_char_def intro: map_idI)

lemma normal_trim: "normal_id s \<Longrightarrow> trim s = s"
  by (rule trim_id) (auto simp: normal_id_def trimmed_def id_char_no_space)

lemma normal_ascii: "normal_id s \<Longrightarrow> utf8_len s = length s"
proof (rule utf8_len_ascii)
  fix c
  assume "normal_id s" and "c \<in> set s"
  then have "id_char c" by (simp add: normal_id_def)
  then show "is_ascii c"
    by (auto simp: id_char_def is_ascii_def is_ascii_alphanumeric_def is_ascii_alphabetic_def is_ascii_digit_def Let_def)
qed

lemma lowercase_no_upper: "c \<in> set (to_lowercase s) \<Longrightarrow> \<not> is_upper_char c"
  by (auto simp: to_lowercase_def to_lower_char_not_upper)

lemma sanitize_chars:
  assumes "c \<in> set (sanitize (to_lowercase s))"
  shows "id_char c \<and> \<not> is_upper_char c"
proof -
  have "id_char (CHR ''-'')" "\<not> is_upper_char (CHR ''-'')" by code_simp+
  then show ?thesis using assms lowercase_no_upper [of _ s] by (auto simp: sanitize_def)
qed

lemma sanitize_id: "(\<forall>c \<in> set s. id_char c) \<Longrightarrow> sanitize s = s"
  by (auto simp: sanitize_def intro: map_idI)

lemma valid_normal: "is_valid_id (to_lowercase s) \<Longrightarrow> normal_id (to_lowercase s) \<and> length (to_lowercase s) \<le> 64"
proof -
  assume v: "is_valid_id (to_lowercase s)"
  have "\<not> is_ascii_alphanumeric (CHR ''-'')" by code_simp
  with v have n: "normal_id (to_lowercase s)"
    using lowercase_no_upper [of _ s] by (auto simp: is_valid_id_def normal_id_def list_all_iff)
  from v normal_ascii [OF n] show ?thesis using n by (simp add: is_valid_id_def MAX_AGENT_ID_LENGTH_def)
qed

lemma trimmed_normal:
  assumes "set s \<subseteq> set (sanitize (to_lowercase i))" and "trim_dashes s \<noteq> []"
  shows "normal_id (trim_dashes s)"
proof -
  have "\<forall>c \<in> set (trim_dashes s). id_char c \<and> \<not> is_upper_char c"
    using set_trim_dashes [of s] assms(1) sanitize_chars [of _ i] by blast
  moreover have "hd (trim_dashes s) \<noteq> CHR ''-''" using trim_dashes_ends [of s] assms(2) by (simp add: dash_free_ends_def)
  ultimately show ?thesis using assms(2) by (simp add: normal_id_def)
qed

lemma normalize_agent_normal:
  "normal_id (normalize_agent_id i) \<and> length (normalize_agent_id i) \<le> 64
   \<and> (is_valid_id (normalize_agent_id i) \<or> dash_free_ends (normalize_agent_id i))"
proof -
  have m: "normal_id ''main'' \<and> length ''main'' \<le> 64 \<and> is_valid_id ''main''" unfolding normal_id_def by code_simp
  let ?l = "to_lowercase (trim i)"
  let ?t = "trim_dashes (sanitize ?l)"
  let ?k = "if length ?t > MAX_AGENT_ID_LENGTH then take MAX_AGENT_ID_LENGTH ?t else ?t"
  consider "trim i = []" | "trim i \<noteq> []" "is_valid_id ?l"
    | "trim i \<noteq> []" "\<not> is_valid_id ?l" "trim_dashes ?k = []"
    | "trim i \<noteq> []" "\<not> is_valid_id ?l" "trim_dashes ?k \<noteq> []" by blast
  then show ?thesis
  proof cases
    case 1
    then show ?thesis using m by (simp add: normalize_agent_id_def DEFAULT_AGENT_ID_def)
  next
    case 2
    then show ?thesis using valid_normal [OF 2(2)] by (simp add: normalize_agent_id_def)
  next
    case 3
    then have "normalize_agent_id i = ''main''"
      unfolding normalize_agent_id_def Let_def DEFAULT_AGENT_ID_def by (simp only: if_False if_True simp_thms)
    then show ?thesis using m by simp
  next
    case 4
    then have e: "normalize_agent_id i = trim_dashes ?k"
      unfolding normalize_agent_id_def Let_def by (simp only: if_False if_True)
    have "set ?k \<subseteq> set (sanitize ?l)"
      using set_trim_dashes [of "sanitize ?l"] set_take_subset [of MAX_AGENT_ID_LENGTH ?t] by auto
    from trimmed_normal [OF this 4(3)] have "normal_id (trim_dashes ?k)" .
    moreover have "length (trim_dashes ?k) \<le> 64"
      by (rule le_trans [OF length_trim_dashes]) (simp add: MAX_AGENT_ID_LENGTH_def)
    ultimately show ?thesis using trim_dashes_ends unfolding e by blast
  qed
qed

lemma normalize_agent_fixed:
  assumes "normal_id s" and "length s \<le> 64" and "is_valid_id s \<or> dash_free_ends s"
  shows "normalize_agent_id s = s"
proof -
  have "sanitize s = s" using assms(1) by (intro sanitize_id) (simp add: normal_id_def)
  moreover have "s \<noteq> []" using assms(1) by (simp add: normal_id_def)
  ultimately show ?thesis using assms
    by (auto simp: normalize_agent_id_def normal_trim normal_lower trim_dashes_id MAX_AGENT_ID_LENGTH_def)
qed

lemma normalize_account_normal: "normal_id (normalize_account_id i)"
proof -
  have m: "normal_id ''default''" unfolding normal_id_def by code_simp
  let ?l = "to_lowercase (trim i)"
  have "trim_dashes (sanitize ?l) \<noteq> [] \<Longrightarrow> normal_id (trim_dashes (sanitize ?l))"
    by (rule trimmed_normal [of _ "trim i"]) simp
  then show ?thesis using m valid_normal [of "trim i"]
    by (simp add: normalize_account_id_def DEFAULT_ACCOUNT_ID_def Let_def)
qed

text \<open>
  Normalising an agent id gives, for any input, a name of 1 to 64 characters from \<open>a-z\<close>, \<open>0-9\<close>,
  \<open>_\<close> and \<open>-\<close> that does not start with a dash; the result is a fixed point, so that normalising where an
  id is stored and again where it is used agree.
\<close>

theorem agent_id_normal_form:
  "1 \<le> length (normalize_agent_id i) \<and> length (normalize_agent_id i) \<le> 64
    \<and> list_all (\<lambda>c. id_char c \<and> \<not> is_upper_char c) (normalize_agent_id i)
    \<and> hd (normalize_agent_id i) \<noteq> CHR ''-''
    \<and> normalize_agent_id (normalize_agent_id i) = normalize_agent_id i"
proof -
  note n = normalize_agent_normal [of i]
  have "normalize_agent_id (normalize_agent_id i) = normalize_agent_id i"
    by (rule normalize_agent_fixed) (use n in blast)+
  with n show ?thesis by (simp add: normal_id_def list_all_iff Suc_le_eq)
qed

text \<open>The first character may be an underscore, which the stated format rules out.\<close>

lemma leading_underscore: "normalize_agent_id ''_admin'' = ''_admin'' \<and> \<not> is_valid_id ''_admin''"
  by code_simp

section \<open>Keys\<close>

lemma split_once_char: "c \<notin> set a \<Longrightarrow> split_once [c] (a @ c # r) = Some (a, r)"
  by (induction a) auto

lemma normal_no_colon: "normal_id s \<Longrightarrow> CHR '':'' \<notin> set s"
  using id_char_no_colon by (auto simp: normal_id_def)

lemma agent_no_colon: "CHR '':'' \<notin> set (normalize_agent_id i)" "normalize_agent_id i \<noteq> []"
  using normal_no_colon normalize_agent_normal by (auto simp: normal_id_def)

lemma lower_no_colon: "CHR '':'' \<notin> set s \<Longrightarrow> CHR '':'' \<notin> set (to_lowercase s)"
proof -
  have "to_lower_char c = CHR '':'' \<Longrightarrow> c = CHR '':''" for c
  proof -
    assume e: "to_lower_char c = CHR '':''"
    show ?thesis
    proof (rule ccontr)
      assume "c \<noteq> CHR '':''"
      with e have u: "is_upper_char c" by (auto simp: to_lower_char_def split: if_splits)
      then have "(of_char (CHR '':'') :: nat) = (of_char c + 32) mod 256"
        using e by (metis of_char_of to_lower_char_def)
      then show False using u by (auto simp: is_upper_char_def Let_def)
    qed
  qed
  then show "CHR '':'' \<notin> set s \<Longrightarrow> CHR '':'' \<notin> set (to_lowercase s)"
    by (auto simp: to_lowercase_def) metis
qed

lemma parse_key:
  assumes "CHR '':'' \<notin> set a" and "a \<noteq> []" and "rest \<noteq> []" and "\<not> is_whitespace (last rest)"
  shows "parse_agent_session_key (''agent:'' @ a @ '':'' @ rest) = Some (a, rest)"
proof -
  have "\<not> is_whitespace (CHR ''a'')" by code_simp
  with assms have t: "trim (''agent:'' @ a @ '':'' @ rest) = ''agent:'' @ a @ '':'' @ rest"
    by (intro trim_id) (simp add: trimmed_def)
  have "split_once '':'' (''agent'' @ CHR '':'' # a @ '':'' @ rest) = Some (''agent'', a @ '':'' @ rest)"
    by (rule split_once_char) simp
  moreover have "split_once '':'' (a @ CHR '':'' # rest) = Some (a, rest)" by (rule split_once_char [OF assms(1)])
  ultimately show ?thesis unfolding parse_agent_session_key_def t using assms(2,3) by simp
qed

lemma lower_constants:
  "to_lowercase ''agent:'' = ''agent:''" "to_lowercase '':'' = '':''" "to_lowercase '':direct:'' = '':direct:''"
  "to_lowercase '':main'' = '':main''" "to_lowercase ''unknown'' = ''unknown''" "to_lowercase ''direct'' = ''direct''"
  by code_simp+

lemma normalize_channel_lower: "to_lowercase (normalize_channel ch) = normalize_channel ch"
  by (simp add: normalize_channel_def lower_constants)

lemma agent_lower: "to_lowercase (normalize_agent_id i) = normalize_agent_id i"
  using normal_lower normalize_agent_normal by blast

lemma account_lower: "to_lowercase (normalize_account_id i) = normalize_account_id i"
  using normal_lower normalize_account_normal by blast

lemmas lower_simps = to_lowercase_append lower_constants normalize_channel_lower agent_lower account_lower

definition direct_params :: "session_key_params \<Rightarrow> route_peer \<Rightarrow> bool" where
  "direct_params params peer \<longleftrightarrow> sk_peer params = Some peer
     \<and> (trim (rp_kind peer) = [] \<or> to_lowercase (trim (rp_kind peer)) = ''direct'')"

definition scope_part :: "session_key_params \<Rightarrow> string" where
  "scope_part params = (case sk_dm_scope params of
     PerAccountChannelPeer \<Rightarrow> '':'' @ normalize_channel (sk_channel params) @ '':'' @ normalize_account_id (sk_account_id params)
   | PerChannelPeer \<Rightarrow> '':'' @ normalize_channel (sk_channel params) | _ \<Rightarrow> [])"

lemma direct_kind: "direct_params params peer \<Longrightarrow>
    to_lowercase (if trim (rp_kind peer) = [] then ''direct'' else trim (rp_kind peer)) = ''direct''"
  by (auto simp: direct_params_def lower_constants)

lemma direct_key_gen:
  assumes p: "(case sk_peer params of Some p \<Rightarrow> p | None \<Rightarrow> \<lparr>rp_kind = ''direct'', rp_id = []\<rparr>) = peer"
    and k: "to_lowercase (if trim (rp_kind peer) = [] then ''direct'' else trim (rp_kind peer)) = ''direct''"
    and s: "sk_dm_scope params \<noteq> Main" and i: "direct_peer_id params peer \<noteq> []"
  shows "build_agent_peer_session_key params = ''agent:'' @ normalize_agent_id (sk_agent_id params) @ scope_part params
    @ '':direct:'' @ to_lowercase (direct_peer_id params peer)"
proof -
  have "build_agent_peer_session_key params = (case sk_dm_scope params of
      PerAccountChannelPeer \<Rightarrow> to_lowercase (''agent:'' @ normalize_agent_id (sk_agent_id params) @ '':'' @
        normalize_channel (sk_channel params) @ '':'' @ normalize_account_id (sk_account_id params) @ '':direct:'' @
        to_lowercase (direct_peer_id params peer))
    | PerChannelPeer \<Rightarrow> to_lowercase (''agent:'' @ normalize_agent_id (sk_agent_id params) @ '':'' @
        normalize_channel (sk_channel params) @ '':direct:'' @ to_lowercase (direct_peer_id params peer))
    | PerPeer \<Rightarrow> to_lowercase (''agent:'' @ normalize_agent_id (sk_agent_id params) @ '':direct:'' @
        to_lowercase (direct_peer_id params peer))
    | Main \<Rightarrow> build_agent_main_session_key (sk_agent_id params))"
    unfolding build_agent_peer_session_key_def Let_def
    by (simp only: p k to_lowercase_Nil i if_True if_False simp_thms)
  with s show ?thesis
    by (cases "sk_dm_scope params") (simp_all only: dm_scope.case scope_part_def lower_simps to_lowercase_idem append_assoc append_Nil simp_thms)
qed

lemma direct_key:
  assumes "direct_params params peer" and "sk_dm_scope params \<noteq> Main" and "direct_peer_id params peer \<noteq> []"
  shows "build_agent_peer_session_key params = ''agent:'' @ normalize_agent_id (sk_agent_id params) @ scope_part params
    @ '':direct:'' @ to_lowercase (direct_peer_id params peer)"
  by (rule direct_key_gen [OF _ direct_kind [OF assms(1)] assms(2,3)]) (use assms(1) in \<open>simp add: direct_params_def\<close>)

lemma append_inj_char:
  "(c :: char) \<notin> set a \<Longrightarrow> c \<notin> set b \<Longrightarrow> (a @ c # r = b @ c # s) = (a = b \<and> r = s)"
  using split_once_char [of c a r] split_once_char [of c b s] by (metis option.inject prod.inject)

lemma channel_no_colon: "CHR '':'' \<notin> set ch \<Longrightarrow> CHR '':'' \<notin> set (normalize_channel ch)"
proof -
  assume "CHR '':'' \<notin> set ch"
  then have "CHR '':'' \<notin> set (trim ch)" using set_trim [of ch] by (meson subsetD)
  then have "CHR '':'' \<notin> set (to_lowercase (trim ch))" by (rule lower_no_colon)
  then show ?thesis by (simp add: normalize_channel_def Let_def)
qed

text \<open>
  Two direct messages share a conversation exactly when the configured scope says so: under any scope but
  \<open>Main\<close> their keys are equal iff the agents and the peers (up to case, after identity links) are, and, from
  \<open>PerChannelPeer\<close> on, the channels, and, for \<open>PerAccountChannelPeer\<close>, the accounts. Channel names have no
  colon.
\<close>

theorem session_isolation:
  assumes "direct_params p peer" and "direct_params q peer'"
    and "direct_peer_id p peer \<noteq> []" and "direct_peer_id q peer' \<noteq> []"
    and "sk_dm_scope q = sk_dm_scope p" and "sk_dm_scope p \<noteq> Main"
    and "CHR '':'' \<notin> set (sk_channel p)" and "CHR '':'' \<notin> set (sk_channel q)"
  shows "(build_agent_peer_session_key p = build_agent_peer_session_key q) =
    (normalize_agent_id (sk_agent_id p) = normalize_agent_id (sk_agent_id q)
     \<and> to_lowercase (direct_peer_id p peer) = to_lowercase (direct_peer_id q peer')
     \<and> (sk_dm_scope p \<noteq> PerPeer \<longrightarrow> normalize_channel (sk_channel p) = normalize_channel (sk_channel q))
     \<and> (sk_dm_scope p = PerAccountChannelPeer \<longrightarrow>
          normalize_account_id (sk_account_id p) = normalize_account_id (sk_account_id q)))"
proof -
  note keys = direct_key [OF assms(1,6,3)] direct_key [OF assms(2) _ assms(4)] assms(5,6)
  note colon = append_inj_char [OF agent_no_colon(1) agent_no_colon(1)]
    append_inj_char [OF channel_no_colon [OF assms(7)] channel_no_colon [OF assms(8)]]
    append_inj_char [OF normal_no_colon [OF normalize_account_normal] normal_no_colon [OF normalize_account_normal]]
  show ?thesis
    by (cases "sk_dm_scope p") (use keys in \<open>auto simp: scope_part_def colon\<close>)
qed

definition sample_key :: "dm_scope \<Rightarrow> string \<Rightarrow> string \<Rightarrow> string \<Rightarrow> session_key_params" where
  "sample_key scope ch acc peer = \<lparr>sk_agent_id = ''Main'', sk_channel = ch, sk_account_id = acc,
     sk_peer = Some \<lparr>rp_kind = ''direct'', rp_id = peer\<rparr>, sk_dm_scope = scope,
     sk_identity_links = [(''bob'', [''irc:rob''])]\<rparr>"

lemma session_isolation_witness:
  "(build_agent_peer_session_key (sample_key PerPeer ''irc'' ''x'' ''Rob'')
      = build_agent_peer_session_key (sample_key PerPeer ''web'' ''x'' ''bob''))
   \<and> (build_agent_peer_session_key (sample_key PerChannelPeer ''irc'' ''x'' ''Rob'')
      \<noteq> build_agent_peer_session_key (sample_key PerChannelPeer ''web'' ''x'' ''bob''))"
proof -
  let ?rob = "\<lambda>s. sample_key s ''irc'' ''x'' ''Rob''" and ?bob = "\<lambda>s. sample_key s ''web'' ''x'' ''bob''"
  let ?p = "\<lparr>rp_kind = ''direct'', rp_id = ''Rob''\<rparr>" and ?q = "\<lparr>rp_kind = ''direct'', rp_id = ''bob''\<rparr>"
  have d: "direct_params (?rob s) ?p" "direct_params (?bob s) ?q" for s
    by (simp_all add: direct_params_def sample_key_def lower_constants) code_simp+
  have c: "sk_dm_scope (?bob s) = sk_dm_scope (?rob s)" "CHR '':'' \<notin> set (sk_channel (?rob s))"
    "CHR '':'' \<notin> set (sk_channel (?bob s))" for s
    by (simp_all add: sample_key_def)
  have n: "direct_peer_id (?rob PerPeer) ?p \<noteq> []" "direct_peer_id (?bob PerPeer) ?q \<noteq> []"
    "direct_peer_id (?rob PerChannelPeer) ?p \<noteq> []" "direct_peer_id (?bob PerChannelPeer) ?q \<noteq> []"
    "sk_dm_scope (?rob PerPeer) \<noteq> Main" "sk_dm_scope (?rob PerChannelPeer) \<noteq> Main" by code_simp+
  show ?thesis
    unfolding session_isolation [OF d n(1,2) c(1) n(5) c(2,3)] session_isolation [OF d n(3,4) c(1) n(6) c(2,3)]
    by code_simp
qed

lemma lower_no_space: "\<not> is_whitespace c \<Longrightarrow> \<not> is_whitespace (to_lower_char c)"
proof (cases "is_upper_char c")
  case True
  let ?n = "of_char c :: nat"
  from True have r: "65 \<le> ?n \<and> ?n \<le> 90 \<or> 192 \<le> ?n \<and> ?n \<le> 222" by (auto simp: is_upper_char_def Let_def)
  then have n: "of_char (to_lower_char c) = ?n + 32"
    unfolding to_lower_char_def using True by auto
  have "is_whitespace d \<Longrightarrow> (of_char d :: nat) \<le> 32 \<or> of_char d = (133 :: nat) \<or> of_char d = (160 :: nat)" for d
    by (auto simp: is_whitespace_def)
  from this [of "to_lower_char c"] show ?thesis using n r by auto
qed (simp add: to_lower_char_def)

lemma trimmed_lower: "trimmed s \<Longrightarrow> s \<noteq> [] \<Longrightarrow> \<not> is_whitespace (last (to_lowercase s))"
  using lower_no_space [of "last s"] by (simp add: to_lowercase_def last_map trimmed_def)

lemma linked_trimmed: "resolve_linked_peer_id links ch p = Some l \<Longrightarrow> trimmed l \<and> l \<noteq> []"
  by (auto simp: resolve_linked_peer_id_def Let_def trim_trimmed dest!: first_some_SomeD split: if_splits)

lemma direct_peer_trimmed: "trimmed (direct_peer_id params peer)"
  using linked_trimmed by (auto simp: direct_peer_id_def Let_def trim_trimmed split: option.splits)

lemma key_form:
  "\<exists>rest. build_agent_peer_session_key params = ''agent:'' @ normalize_agent_id (sk_agent_id params) @ '':'' @ rest
     \<and> rest \<noteq> [] \<and> \<not> is_whitespace (last rest)"
  (is "\<exists>rest. ?k = ?pre rest \<and> _")
proof -
  define peer where "peer = (case sk_peer params of Some p \<Rightarrow> p | None \<Rightarrow> \<lparr>rp_kind = ''direct'', rp_id = []\<rparr>)"
  define kind where "kind = to_lowercase (if trim (rp_kind peer) = [] then ''direct'' else trim (rp_kind peer))"
  define pid where "pid = to_lowercase (direct_peer_id params peer)"
  have main: "build_agent_main_session_key (sk_agent_id params) = ?pre ''main''"
    by (simp only: build_agent_main_session_key_def lower_simps) simp
  have last: "\<not> is_whitespace (last ''main'')" by code_simp
  show ?thesis
  proof (cases "kind = ''direct''")
    case True
    show ?thesis
    proof (cases "pid = [] \<or> sk_dm_scope params = Main")
      case True
      then have "?k = build_agent_main_session_key (sk_agent_id params)"
        using \<open>kind = ''direct''\<close> unfolding build_agent_peer_session_key_def Let_def kind_def pid_def peer_def
        by (cases "sk_dm_scope params") (auto split: option.splits)
      with main last show ?thesis by (intro exI [of _ "''main''"]) simp
    next
      case False
      then have p: "direct_peer_id params peer \<noteq> []" "\<not> is_whitespace (last pid)"
        using trimmed_lower [OF direct_peer_trimmed] by (auto simp: pid_def)
      define rest where "rest = tl (scope_part params @ '':direct:'' @ pid)"
      have "?k = ''agent:'' @ normalize_agent_id (sk_agent_id params) @ scope_part params @ '':direct:'' @ pid"
        unfolding pid_def
        by (rule direct_key_gen) (use \<open>kind = ''direct''\<close> False p(1) in \<open>simp_all only: peer_def kind_def simp_thms de_Morgan_disj\<close>)
      also have "\<dots> = ?pre rest" by (simp add: rest_def scope_part_def split: dm_scope.splits)
      finally have "?k = ?pre rest" .
      moreover have "rest \<noteq> [] \<and> \<not> is_whitespace (last rest)"
        using p(2) False by (simp add: rest_def scope_part_def split: dm_scope.splits)
      ultimately show ?thesis by blast
    qed
  next
    case False
    define q where "q = (if to_lowercase (trim (rp_id peer)) = [] then ''unknown'' else to_lowercase (trim (rp_id peer)))"
    have q: "to_lowercase q = q" "q \<noteq> []" by (simp_all add: q_def lower_constants)
    have "\<not> is_whitespace (last ''unknown'')" by code_simp
    then have "\<not> is_whitespace (last q)" using trimmed_lower [OF trim_trimmed] by (simp add: q_def)
    moreover have kind: "to_lowercase kind = kind" by (simp add: kind_def)
    have "?k = ?pre (normalize_channel (sk_channel params) @ '':'' @ kind @ '':'' @ q)"
      using False unfolding build_agent_peer_session_key_def Let_def peer_def [symmetric] kind_def [symmetric] q_def [symmetric]
      by (simp only: if_False lower_simps q kind append_assoc simp_thms)
    ultimately show ?thesis using q(2) by (intro exI) auto
  qed
qed

text \<open>
  Every key the builder makes, whatever the agent, channel, peer, scope and links, parses back to the normalised
  agent id it was made for; the main key of an agent does too.
\<close>

theorem session_key_roundtrip:
  "\<exists>rest. build_agent_peer_session_key params = ''agent:'' @ normalize_agent_id (sk_agent_id params) @ '':'' @ rest
     \<and> parse_agent_session_key (build_agent_peer_session_key params) = Some (normalize_agent_id (sk_agent_id params), rest)"
proof -
  from key_form [of params] obtain rest where "build_agent_peer_session_key params =
      ''agent:'' @ normalize_agent_id (sk_agent_id params) @ '':'' @ rest" and "rest \<noteq> []" "\<not> is_whitespace (last rest)"
    by blast
  with parse_key [OF agent_no_colon] show ?thesis by auto
qed

text \<open>A group and a direct message can share a key: the parts of a key are not escaped.\<close>

lemma key_collision:
  "build_agent_peer_session_key (sample_key PerAccountChannelPeer ''irc'' ''group'' ''bob'') =
   build_agent_peer_session_key ((sample_key PerAccountChannelPeer ''irc'' ''group'' [])
     \<lparr>sk_peer := Some \<lparr>rp_kind = ''group'', rp_id = ''direct:bob''\<rparr>\<rparr>)"
  by code_simp

end
