(* ===== verification/Routing.thy ===== *)
theory Routing
  imports Routing_Keys
begin

text \<open>
  The route resolver (\<open>crates/nemesis-routing/src/route.rs\<close>): which agent handles a message, and under which
  session key. The cascade of seven levels is proved equivalent to choosing the first binding of the best rank.
\<close>

section \<open>Bindings\<close>

record route_input =
  ri_channel :: string
  ri_account_id :: string
  ri_peer_kind :: "string option"
  ri_peer_id :: "string option"
  ri_parent_peer_kind :: "string option"
  ri_parent_peer_id :: "string option"
  ri_guild_id :: "string option"
  ri_team_id :: "string option"
  ri_identity_links :: identity_links

record resolved_route =
  rr_agent_id :: string
  rr_channel :: string
  rr_account_id :: string
  rr_session_key :: string
  rr_main_session_key :: string
  rr_matched_by :: string

record agent_binding =
  ab_agent_id :: string
  ab_match_channel :: string
  ab_match_account_id :: string
  ab_match_peer_kind :: "string option"
  ab_match_peer_id :: "string option"
  ab_match_guild_id :: "string option"
  ab_match_team_id :: "string option"

record agent_def =
  ad_id :: string
  ad_is_default :: bool

record route_config =
  rc_bindings :: "agent_binding list"
  rc_agents :: "agent_def list"
  rc_dm_scope :: string

definition blank :: "string option \<Rightarrow> bool" where
  "blank x \<longleftrightarrow> (case x of Some s \<Rightarrow> trim s = [] | None \<Rightarrow> True)"

text \<open>\<open>RouteResolver::new\<close>: an incomplete peer constraint is no constraint.\<close>

definition new_resolver :: "route_config \<Rightarrow> route_config" where
  "new_resolver cfg = cfg\<lparr>rc_bindings := map (\<lambda>b.
     if blank (ab_match_peer_kind b) \<or> blank (ab_match_peer_id b)
     then b\<lparr>ab_match_peer_kind := None, ab_match_peer_id := None\<rparr> else b) (rc_bindings cfg)\<rparr>"

definition matches_account_id :: "string \<Rightarrow> string \<Rightarrow> bool" where
  "matches_account_id match_account_id actual =
     (let trimmed = trim match_account_id in
      if trimmed = [] then actual = DEFAULT_ACCOUNT_ID
      else if trimmed = ''*'' then True
      else to_lowercase trimmed = to_lowercase actual)"

definition filter_bindings :: "route_config \<Rightarrow> string \<Rightarrow> string \<Rightarrow> agent_binding list" where
  "filter_bindings cfg channel account_id =
     filter (\<lambda>b. to_lowercase (trim (ab_match_channel b)) = channel \<and> matches_account_id (ab_match_account_id b) account_id)
       (rc_bindings cfg)"

definition find_peer_match :: "agent_binding list \<Rightarrow> string \<Rightarrow> string \<Rightarrow> agent_binding option" where
  "find_peer_match bindings peer_kind peer_id =
     List.find (\<lambda>b. case (ab_match_peer_kind b, ab_match_peer_id b) of
         (Some k, Some i) \<Rightarrow> (let bk = to_lowercase (trim k); bid = trim i in
           bk \<noteq> [] \<and> bid \<noteq> [] \<and> bk = to_lowercase peer_kind \<and> to_lowercase bid = to_lowercase peer_id)
       | _ \<Rightarrow> False) bindings"

definition find_guild_match :: "agent_binding list \<Rightarrow> string \<Rightarrow> agent_binding option" where
  "find_guild_match bindings guild_id =
     List.find (\<lambda>b. case ab_match_guild_id b of
         Some g \<Rightarrow> trim g \<noteq> [] \<and> to_lowercase (trim g) = to_lowercase guild_id | None \<Rightarrow> False) bindings"

definition find_team_match :: "agent_binding list \<Rightarrow> string \<Rightarrow> agent_binding option" where
  "find_team_match bindings team_id =
     List.find (\<lambda>b. case ab_match_team_id b of
         Some t \<Rightarrow> trim t \<noteq> [] \<and> to_lowercase (trim t) = to_lowercase team_id | None \<Rightarrow> False) bindings"

definition unconstrained :: "agent_binding \<Rightarrow> bool" where
  "unconstrained b \<longleftrightarrow> ab_match_peer_kind b = None \<and> ab_match_peer_id b = None
     \<and> ab_match_guild_id b = None \<and> ab_match_team_id b = None"

definition find_account_match :: "agent_binding list \<Rightarrow> agent_binding option" where
  "find_account_match bindings = List.find (\<lambda>b. trim (ab_match_account_id b) \<noteq> ''*'' \<and> unconstrained b) bindings"

definition find_channel_wildcard_match :: "agent_binding list \<Rightarrow> agent_binding option" where
  "find_channel_wildcard_match bindings = List.find (\<lambda>b. trim (ab_match_account_id b) = ''*'' \<and> unconstrained b) bindings"

section \<open>Agents\<close>

definition resolve_default_agent :: "route_config \<Rightarrow> string" where
  "resolve_default_agent cfg =
     (case List.find (\<lambda>a. ad_is_default a \<and> trim (ad_id a) \<noteq> []) (rc_agents cfg) of
        Some a \<Rightarrow> normalize_agent_id (trim (ad_id a))
      | None \<Rightarrow>
          (case rc_agents cfg of
             a # _ \<Rightarrow> if trim (ad_id a) \<noteq> [] then normalize_agent_id (trim (ad_id a)) else DEFAULT_AGENT_ID
           | [] \<Rightarrow> DEFAULT_AGENT_ID))"

definition pick_agent :: "route_config \<Rightarrow> string \<Rightarrow> string" where
  "pick_agent cfg agent_id =
     (let normalized = normalize_agent_id agent_id in
      if rc_agents cfg = [] then normalized
      else if list_ex (\<lambda>a. normalize_agent_id (ad_id a) = normalized) (rc_agents cfg) then normalized
      else resolve_default_agent cfg)"

definition trimmed_or :: "string option \<Rightarrow> string \<Rightarrow> string" where
  "trimmed_or x dflt = (case x of Some s \<Rightarrow> if trim s = [] then dflt else trim s | None \<Rightarrow> dflt)"

definition build_route :: "route_config \<Rightarrow> string \<Rightarrow> string \<Rightarrow> string \<Rightarrow> route_input \<Rightarrow> string \<Rightarrow> resolved_route" where
  "build_route cfg agent_id channel account_id input matched_by =
     (let resolved_id = pick_agent cfg agent_id;
          params = \<lparr>sk_agent_id = resolved_id, sk_channel = channel, sk_account_id = account_id,
            sk_peer = Some \<lparr>rp_kind = trimmed_or (ri_peer_kind input) ''direct'', rp_id = trimmed_or (ri_peer_id input) ''unknown''\<rparr>,
            sk_dm_scope = dm_scope_from_str (rc_dm_scope cfg), sk_identity_links = ri_identity_links input\<rparr>
      in \<lparr>rr_agent_id = resolved_id, rr_channel = channel, rr_account_id = account_id,
          rr_session_key = build_agent_peer_session_key params,
          rr_main_session_key = build_agent_main_session_key resolved_id,
          rr_matched_by = matched_by\<rparr>)"

section \<open>The cascade\<close>

definition by_peer :: "agent_binding list \<Rightarrow> string option \<Rightarrow> string option \<Rightarrow> agent_binding option" where
  "by_peer bindings kind i =
     (case (kind, i) of
        (Some k, Some i) \<Rightarrow> if trim k \<noteq> [] \<and> trim i \<noteq> [] then find_peer_match bindings (trim k) (trim i) else None
      | _ \<Rightarrow> None)"

definition by_guild :: "agent_binding list \<Rightarrow> string option \<Rightarrow> agent_binding option" where
  "by_guild bindings g =
     (case g of Some g \<Rightarrow> if trim g \<noteq> [] then find_guild_match bindings (trim g) else None | None \<Rightarrow> None)"

definition by_team :: "agent_binding list \<Rightarrow> string option \<Rightarrow> agent_binding option" where
  "by_team bindings t =
     (case t of Some t \<Rightarrow> if trim t \<noteq> [] then find_team_match bindings (trim t) else None | None \<Rightarrow> None)"

definition resolve :: "route_config \<Rightarrow> route_input \<Rightarrow> resolved_route" where
  "resolve cfg input =
     (let channel = to_lowercase (trim (ri_channel input));
          account_id = normalize_account_id (ri_account_id input);
          bindings = filter_bindings cfg channel account_id;
          route = (\<lambda>b label. build_route cfg (ab_agent_id b) channel account_id input label)
      in case by_peer bindings (ri_peer_kind input) (ri_peer_id input) of
           Some b \<Rightarrow> route b ''binding.peer''
         | None \<Rightarrow> (case by_peer bindings (ri_parent_peer_kind input) (ri_parent_peer_id input) of
             Some b \<Rightarrow> route b ''binding.peer.parent''
           | None \<Rightarrow> (case by_guild bindings (ri_guild_id input) of
               Some b \<Rightarrow> route b ''binding.guild''
             | None \<Rightarrow> (case by_team bindings (ri_team_id input) of
                 Some b \<Rightarrow> route b ''binding.team''
               | None \<Rightarrow> (case find_account_match bindings of
                   Some b \<Rightarrow> route b ''binding.account''
                 | None \<Rightarrow> (case find_channel_wildcard_match bindings of
                     Some b \<Rightarrow> route b ''binding.channel''
                   | None \<Rightarrow> build_route cfg (resolve_default_agent cfg) channel account_id input ''default''))))))"

section \<open>The rank of a binding\<close>

definition same_text :: "string \<Rightarrow> string option \<Rightarrow> bool" where
  "same_text s x \<longleftrightarrow> (case x of Some t \<Rightarrow> trim t \<noteq> [] \<and> to_lowercase (trim t) = to_lowercase (trim s) | None \<Rightarrow> False)"

definition names :: "string option \<Rightarrow> string option \<Rightarrow> bool" where
  "names x y \<longleftrightarrow> (case x of Some s \<Rightarrow> trim s \<noteq> [] \<and> same_text s y | None \<Rightarrow> False)"

definition binding_rank :: "route_input \<Rightarrow> agent_binding \<Rightarrow> nat" where
  "binding_rank input b =
     (if names (ri_peer_kind input) (ab_match_peer_kind b) \<and> names (ri_peer_id input) (ab_match_peer_id b) then 0
      else if names (ri_parent_peer_kind input) (ab_match_peer_kind b) \<and> names (ri_parent_peer_id input) (ab_match_peer_id b) then 1
      else if names (ri_guild_id input) (ab_match_guild_id b) then 2
      else if names (ri_team_id input) (ab_match_team_id b) then 3
      else if unconstrained b then (if trim (ab_match_account_id b) \<noteq> ''*'' then 4 else 5)
      else 6)"

definition rank_labels :: "string list" where
  "rank_labels = [''binding.peer'', ''binding.peer.parent'', ''binding.guild'', ''binding.team'', ''binding.account'', ''binding.channel'']"

definition best_binding :: "route_input \<Rightarrow> agent_binding list \<Rightarrow> (nat \<times> agent_binding) option" where
  "best_binding input bindings =
     (let m = Min (insert 6 (binding_rank input ` set bindings)) in
      if m = 6 then None else map_option (\<lambda>b. (m, b)) (List.find (\<lambda>b. binding_rank input b = m) bindings))"

definition level_match :: "route_input \<Rightarrow> nat \<Rightarrow> agent_binding \<Rightarrow> bool" where
  "level_match input j b =
     (if j = 0 then names (ri_peer_kind input) (ab_match_peer_kind b) \<and> names (ri_peer_id input) (ab_match_peer_id b)
      else if j = 1 then names (ri_parent_peer_kind input) (ab_match_peer_kind b) \<and> names (ri_parent_peer_id input) (ab_match_peer_id b)
      else if j = 2 then names (ri_guild_id input) (ab_match_guild_id b)
      else if j = 3 then names (ri_team_id input) (ab_match_team_id b)
      else if j = 4 then trim (ab_match_account_id b) \<noteq> ''*'' \<and> unconstrained b
      else if j = 5 then trim (ab_match_account_id b) = ''*'' \<and> unconstrained b
      else False)"

lemma rank_level: "binding_rank input b < 6 \<Longrightarrow> level_match input (binding_rank input b) b"
  by (auto simp: binding_rank_def level_match_def split: if_splits)

lemma level_rank: "level_match input j b \<Longrightarrow> binding_rank input b \<le> j"
  by (auto simp: binding_rank_def level_match_def split: if_splits)

lemma find_cong_pred: "(\<And>b. b \<in> set bs \<Longrightarrow> P b = Q b) \<Longrightarrow> List.find P bs = List.find Q bs"
  by (induction bs) auto

lemma by_peer_find: "by_peer bs k i = List.find (\<lambda>b. names k (ab_match_peer_kind b) \<and> names i (ab_match_peer_id b)) bs"
proof (cases "k = None \<or> i = None")
  case True
  then have "List.find (\<lambda>b. names k (ab_match_peer_kind b) \<and> names i (ab_match_peer_id b)) bs = None"
    by (auto simp: find_None_iff names_def)
  with True show ?thesis by (auto simp: by_peer_def split: option.splits)
next
  case False
  then obtain kk ii where k: "k = Some kk" "i = Some ii" by auto
  show ?thesis
  proof (cases "trim kk \<noteq> [] \<and> trim ii \<noteq> []")
    case True
    with k show ?thesis
      by (auto simp: by_peer_def find_peer_match_def names_def same_text_def Let_def intro!: find_cong_pred split: option.splits)
  next
    case False
    then have "List.find (\<lambda>b. names k (ab_match_peer_kind b) \<and> names i (ab_match_peer_id b)) bs = None"
      using k by (auto simp: find_None_iff names_def)
    with False k show ?thesis by (auto simp: by_peer_def)
  qed
qed

lemma by_guild_find: "by_guild bs g = List.find (\<lambda>b. names g (ab_match_guild_id b)) bs"
proof (cases "blank g")
  case True
  then have "List.find (\<lambda>b. names g (ab_match_guild_id b)) bs = None"
    by (auto simp: find_None_iff names_def blank_def split: option.splits)
  with True show ?thesis by (auto simp: by_guild_def blank_def split: option.splits)
next
  case False
  then show ?thesis
    by (auto simp: by_guild_def find_guild_match_def names_def same_text_def blank_def intro!: find_cong_pred split: option.splits)
qed

lemma by_team_find: "by_team bs g = List.find (\<lambda>b. names g (ab_match_team_id b)) bs"
proof (cases "blank g")
  case True
  then have "List.find (\<lambda>b. names g (ab_match_team_id b)) bs = None"
    by (auto simp: find_None_iff names_def blank_def split: option.splits)
  with True show ?thesis by (auto simp: by_team_def blank_def split: option.splits)
next
  case False
  then show ?thesis
    by (auto simp: by_team_def find_team_match_def names_def same_text_def blank_def intro!: find_cong_pred split: option.splits)
qed

lemma levels:
  "by_peer bs (ri_peer_kind input) (ri_peer_id input) = List.find (level_match input 0) bs"
  "by_peer bs (ri_parent_peer_kind input) (ri_parent_peer_id input) = List.find (level_match input 1) bs"
  "by_guild bs (ri_guild_id input) = List.find (level_match input 2) bs"
  "by_team bs (ri_team_id input) = List.find (level_match input 3) bs"
  "find_account_match bs = List.find (level_match input 4) bs"
  "find_channel_wildcard_match bs = List.find (level_match input 5) bs"
  by (simp_all add: by_peer_find by_guild_find by_team_find find_account_match_def find_channel_wildcard_match_def
      level_match_def [abs_def])

lemma best_binding_levels:
  fixes bs :: "agent_binding list" and input :: route_input
  defines "m \<equiv> Min (insert 6 (binding_rank input ` set bs))"
  shows "j < m \<Longrightarrow> List.find (level_match input j) bs = None"
    and "m < 6 \<Longrightarrow> List.find (level_match input (m)) bs = List.find (\<lambda>b. binding_rank input b = m) bs"
    and "m < 6 \<Longrightarrow> List.find (\<lambda>b. binding_rank input b = m) bs \<noteq> None"
proof -
  have low: "b \<in> set bs \<Longrightarrow> m \<le> binding_rank input b" for b by (simp add: m_def)
  show "j < m \<Longrightarrow> List.find (level_match input j) bs = None"
    using low level_rank [of input j] by (fastforce simp: find_None_iff)
  show "List.find (level_match input (m)) bs = List.find (\<lambda>b. binding_rank input b = m) bs" if "m < 6"
  proof (rule find_cong_pred)
    fix b
    assume "b \<in> set bs"
    with low [OF this] level_rank [of input m b] rank_level [of input b] that
    show "level_match input m b = (binding_rank input b = m)" by auto
  qed
  have "m \<in> insert 6 (binding_rank input ` set bs)" unfolding m_def by (rule Min_in) auto
  then show "List.find (\<lambda>b. binding_rank input b = m) bs \<noteq> None" if "m < 6"
    using that by (auto simp: find_None_iff)
qed

text \<open>
  The cascade chooses by rank: of the bindings for the message's channel and account, the first one in the
  configuration among those of the best rank (peer, parent peer, guild, team, account, channel) decides, the
  route names that rank, and only when no binding has a rank does the default agent.
\<close>

theorem resolve_by_rank:
  defines "channel i \<equiv> to_lowercase (trim (ri_channel i))" and "account i \<equiv> normalize_account_id (ri_account_id i)"
  shows "resolve cfg input =
    (case best_binding input (filter_bindings cfg (channel input) (account input)) of
       Some (rank, b) \<Rightarrow> build_route cfg (ab_agent_id b) (channel input) (account input) input (rank_labels ! rank)
     | None \<Rightarrow> build_route cfg (resolve_default_agent cfg) (channel input) (account input) input ''default'')"
proof -
  let ?bs = "filter_bindings cfg (channel input) (account input)"
  let ?m = "Min (insert 6 (binding_rank input ` set ?bs))"
  note lv = best_binding_levels [where bs = ?bs and input = input]
  have r: "resolve cfg input = (let route = (\<lambda>b label. build_route cfg (ab_agent_id b) (channel input) (account input) input label)
      in case List.find (level_match input 0) ?bs of Some b \<Rightarrow> route b ''binding.peer''
       | None \<Rightarrow> case List.find (level_match input 1) ?bs of Some b \<Rightarrow> route b ''binding.peer.parent''
       | None \<Rightarrow> case List.find (level_match input 2) ?bs of Some b \<Rightarrow> route b ''binding.guild''
       | None \<Rightarrow> case List.find (level_match input 3) ?bs of Some b \<Rightarrow> route b ''binding.team''
       | None \<Rightarrow> case List.find (level_match input 4) ?bs of Some b \<Rightarrow> route b ''binding.account''
       | None \<Rightarrow> case List.find (level_match input 5) ?bs of Some b \<Rightarrow> route b ''binding.channel''
       | None \<Rightarrow> build_route cfg (resolve_default_agent cfg) (channel input) (account input) input ''default'')"
    unfolding resolve_def Let_def channel_def account_def levels [of _ input] by (rule refl)
  show ?thesis
  proof (cases "?m = 6")
    case True
    then have "best_binding input ?bs = None" by (simp add: best_binding_def)
    moreover have "List.find (level_match input j) ?bs = None" if "j < 6" for j using lv(1) True that by simp
    ultimately show ?thesis unfolding r by simp
  next
    case False
    have "?m \<le> 6" by simp
    with False have m: "?m < 6" by linarith
    then obtain b where b: "List.find (\<lambda>b. binding_rank input b = ?m) ?bs = Some b" using lv(3) by blast
    then have best: "best_binding input ?bs = Some (?m, b)" using m by (simp add: best_binding_def)
    obtain k where k: "?m = k" by blast
    have at: "List.find (level_match input k) ?bs = Some b" using lv(2) m b k by simp
    have below: "j < k \<Longrightarrow> List.find (level_match input j) ?bs = None" for j using lv(1) k by simp
    have "k < 6" using m unfolding k .
    then consider "k = 0" | "k = 1" | "k = 2" | "k = 3" | "k = 4" | "k = 5" by linarith
    then show ?thesis unfolding r best k
      by cases (use at below in \<open>simp_all add: rank_labels_def\<close>)
  qed
qed

section \<open>What a route is\<close>

lemma default_agent_configured:
  "rc_agents cfg \<noteq> [] \<Longrightarrow> resolve_default_agent cfg \<in> normalize_agent_id ` ad_id ` set (rc_agents cfg)"
proof -
  assume a: "rc_agents cfg \<noteq> []"
  have t: "normalize_agent_id (trim i) = normalize_agent_id i" for i by (simp add: normalize_agent_id_def)
  have m: "trim i = [] \<Longrightarrow> DEFAULT_AGENT_ID = normalize_agent_id i" for i by (simp add: normalize_agent_id_def)
  show ?thesis
  proof (cases "List.find (\<lambda>a. ad_is_default a \<and> trim (ad_id a) \<noteq> []) (rc_agents cfg)")
    case None
    from a obtain b bs where b: "rc_agents cfg = b # bs" by (cases "rc_agents cfg") auto
    with None have "resolve_default_agent cfg = normalize_agent_id (ad_id b)"
      by (simp add: resolve_default_agent_def t m)
    with b show ?thesis by auto
  next
    case (Some b)
    then have "b \<in> set (rc_agents cfg)" by (auto simp: find_Some_iff)
    with Some show ?thesis by (auto simp: resolve_default_agent_def t)
  qed
qed

lemma pick_agent_configured:
  "rc_agents cfg \<noteq> [] \<Longrightarrow> pick_agent cfg i \<in> normalize_agent_id ` ad_id ` set (rc_agents cfg)"
proof (cases "list_ex (\<lambda>a. normalize_agent_id (ad_id a) = normalize_agent_id i) (rc_agents cfg)")
  case True
  then obtain a where "a \<in> set (rc_agents cfg)" and "normalize_agent_id (ad_id a) = normalize_agent_id i"
    by (auto simp: list_ex_iff)
  then have "normalize_agent_id i \<in> normalize_agent_id ` ad_id ` set (rc_agents cfg)" by (metis image_eqI)
  then show ?thesis using True by (simp only: pick_agent_def Let_def if_True split: if_split) simp
next
  case False
  assume "rc_agents cfg \<noteq> []"
  with False default_agent_configured [of cfg] show ?thesis by (simp add: pick_agent_def)
qed

lemma pick_agent_normal: "normalize_agent_id (pick_agent cfg i) = pick_agent cfg i"
proof -
  have n: "normalize_agent_id (normalize_agent_id j) = normalize_agent_id j" for j
    using normalize_agent_fixed normalize_agent_normal by blast
  show ?thesis
  proof (cases "rc_agents cfg = []")
    case True
    then show ?thesis by (simp add: pick_agent_def n)
  next
    case False
    from pick_agent_configured [OF this, of i] n show ?thesis by auto
  qed
qed

lemma resolve_is_route:
  "\<exists>agent label. resolve cfg input = build_route cfg agent (to_lowercase (trim (ri_channel input)))
     (normalize_account_id (ri_account_id input)) input label"
  unfolding resolve_def Let_def by (auto split: option.splits)

text \<open>
  The agent a message is routed to is always one of the configured agents, if there are any, whatever agent the
  matching binding names; and the session key of the route parses back to that agent, so the conversation
  belongs to the agent that handles it.
\<close>

theorem routed_agent_configured:
  "(rc_agents cfg \<noteq> [] \<longrightarrow> rr_agent_id (resolve cfg input) \<in> normalize_agent_id ` ad_id ` set (rc_agents cfg))
   \<and> (\<exists>rest. parse_agent_session_key (rr_session_key (resolve cfg input)) = Some (rr_agent_id (resolve cfg input), rest))
   \<and> parse_agent_session_key (rr_main_session_key (resolve cfg input)) = Some (rr_agent_id (resolve cfg input), ''main'')"
proof -
  obtain agent label where r: "resolve cfg input = build_route cfg agent (to_lowercase (trim (ri_channel input)))
     (normalize_account_id (ri_account_id input)) input label" using resolve_is_route by blast
  let ?a = "pick_agent cfg agent"
  have i: "rr_agent_id (resolve cfg input) = ?a" by (simp add: r build_route_def Let_def)
  obtain params where "rr_session_key (resolve cfg input) = build_agent_peer_session_key params" "sk_agent_id params = ?a"
    by (simp add: r build_route_def Let_def)
  with key_form [of params] obtain rest where "rr_session_key (resolve cfg input) = ''agent:'' @ ?a @ '':'' @ rest"
    and "rest \<noteq> []" "\<not> is_whitespace (last rest)" by (auto simp: pick_agent_normal)
  moreover have c: "CHR '':'' \<notin> set ?a" "?a \<noteq> []"
    using agent_no_colon [of ?a] by (simp_all add: pick_agent_normal)
  ultimately have "parse_agent_session_key (rr_session_key (resolve cfg input)) = Some (?a, rest)"
    using parse_key by simp
  moreover have "rr_main_session_key (resolve cfg input) = ''agent:'' @ ?a @ '':'' @ ''main''"
    using agent_lower [of ?a] by (simp add: r build_route_def Let_def build_agent_main_session_key_def pick_agent_normal
        to_lowercase_append lower_constants del: append_Cons)
  moreover have "\<not> is_whitespace (last ''main'')" by code_simp
  ultimately show ?thesis using pick_agent_configured [of cfg agent] parse_key [OF c, of "''main''"] by (auto simp: i)
qed

text \<open>
  An account binding is compared with the normalised account of the message, but is not normalised itself: a
  binding for an account with other characters never applies to a message of that very account.
\<close>

lemma unnormalised_account_never_matches:
  assumes "to_lowercase (trim acc) \<noteq> normalize_account_id acc" and "trim acc \<noteq> []" and "trim acc \<noteq> ''*''"
  shows "\<not> matches_account_id acc (normalize_account_id acc)"
  using assms account_lower by (simp add: matches_account_id_def Let_def)

lemma mail_account_never_matches:
  "normalize_account_id ''bot@example.com'' = ''bot-example-com''
   \<and> \<not> matches_account_id ''bot@example.com'' (normalize_account_id ''bot@example.com'')"
  by code_simp

section \<open>Sample routes\<close>

definition sample_binding :: "string \<Rightarrow> string \<Rightarrow> string option \<Rightarrow> string option \<Rightarrow> agent_binding" where
  "sample_binding agent acc peer guild = \<lparr>ab_agent_id = agent, ab_match_channel = ''Discord'', ab_match_account_id = acc,
     ab_match_peer_kind = map_option (\<lambda>_. ''direct'') peer, ab_match_peer_id = peer, ab_match_guild_id = guild,
     ab_match_team_id = None\<rparr>"

definition sample_config :: route_config where
  "sample_config = new_resolver \<lparr>rc_bindings = [sample_binding ''any'' ''*'' None None,
       sample_binding ''ops'' ''*'' None (Some ''G1''), sample_binding ''vip'' ''*'' (Some ''Ann'') None,
       sample_binding ''gone'' ''*'' (Some ''Old'') None],
     rc_agents = [\<lparr>ad_id = ''any'', ad_is_default = True\<rparr>, \<lparr>ad_id = ''Ops'', ad_is_default = False\<rparr>,
       \<lparr>ad_id = ''vip'', ad_is_default = False\<rparr>], rc_dm_scope = ''per-peer''\<rparr>"

definition sample_message :: "string \<Rightarrow> route_input" where
  "sample_message peer = \<lparr>ri_channel = ''discord'', ri_account_id = [], ri_peer_kind = Some ''Direct'', ri_peer_id = Some peer,
     ri_parent_peer_kind = None, ri_parent_peer_id = None, ri_guild_id = Some ''g1'', ri_team_id = None,
     ri_identity_links = []\<rparr>"

lemma sample_routes:
  "rr_matched_by (resolve sample_config (sample_message ''ANN'')) = ''binding.peer''"
  "rr_session_key (resolve sample_config (sample_message ''ANN'')) = ''agent:vip:direct:ann''"
  "rr_matched_by (resolve sample_config (sample_message ''Bob'')) = ''binding.guild''"
  "rr_agent_id (resolve sample_config (sample_message ''Bob'')) = ''ops''"
  "rr_agent_id (resolve sample_config (sample_message ''old'')) = ''any''"
  by code_simp+

lemma resolve_by_rank_witness:
  "resolve sample_config (sample_message ''ANN'') =
     build_route sample_config ''vip'' ''discord'' ''default'' (sample_message ''ANN'') ''binding.peer''"
proof -
  have c: "to_lowercase (trim (ri_channel (sample_message ''ANN''))) = ''discord''"
    "normalize_account_id (ri_account_id (sample_message ''ANN'')) = ''default''" by code_simp+
  have b: "best_binding (sample_message ''ANN'') (filter_bindings sample_config ''discord'' ''default'') =
    Some (0, sample_binding ''vip'' ''*'' (Some ''Ann'') None)" by code_simp
  show ?thesis using resolve_by_rank [of sample_config "sample_message ''ANN''"]
    by (simp add: c b) (simp add: rank_labels_def sample_binding_def)
qed

lemma routed_agent_configured_witness:
  "rr_agent_id (resolve sample_config (sample_message ''old'')) \<in> normalize_agent_id ` ad_id ` set (rc_agents sample_config)
   \<and> (\<exists>rest. parse_agent_session_key (rr_session_key (resolve sample_config (sample_message ''old''))) = Some (''any'', rest))"
  using routed_agent_configured [of sample_config "sample_message ''old''"] sample_routes(5)
  by (simp add: sample_config_def new_resolver_def)

end
