(* ===== verification/Failover.thy ===== *)
theory Failover
  imports Rust_Str "HOL-Library.AList" "HOL-Library.Code_Target_Nat"
begin

text \<open>
  Provider failover (\<open>crates/nemesis-providers/src/failover.rs\<close>, \<open>cooldown.rs\<close> and the chain of
  \<open>fallback_provider.rs\<close>; \<open>class_by_status\<close> of \<open>crates/nemesis-utils/src/llm_error_class.rs\<close>). A point of
  the monotonic clock is a natural number of nanoseconds; the clock's readings are arguments. What a provider
  answers, the text an error is displayed as, and the parts of the failing constructors that only that text
  uses are parameters. Counters do not reach the width of \<open>usize\<close>.
\<close>

section \<open>Errors\<close>

datatype failover_reason =
    ReasonAuth | ReasonRateLimit | ReasonBilling | ReasonTimeout | ReasonFormat | ReasonOverloaded | ReasonUnknown

datatype failover_error =
    ErrAuth string string nat
  | ErrRateLimit string string "nat option"
  | ErrBilling string
  | ErrTimeout string string
  | ErrStreamInterrupted string string string string bool \<comment> \<open>reason, partial content, partial tool calls\<close>
  | ErrFormat string string
  | ErrOverloaded string nat
  | ErrUnknown string string

fun is_retriable :: "failover_error \<Rightarrow> bool" where
  "is_retriable (ErrRateLimit _ _ _) = True"
| "is_retriable (ErrTimeout _ _) = True"
| "is_retriable (ErrStreamInterrupted _ _ _ _ _) = True"
| "is_retriable (ErrOverloaded _ _) = True"
| "is_retriable (ErrUnknown _ message) = starts_with message ''connect error''"
| "is_retriable _ = False"

fun reason :: "failover_error \<Rightarrow> failover_reason" where
  "reason (ErrAuth _ _ _) = ReasonAuth"
| "reason (ErrRateLimit _ _ _) = ReasonRateLimit"
| "reason (ErrBilling _) = ReasonBilling"
| "reason (ErrTimeout _ _) = ReasonTimeout"
| "reason (ErrStreamInterrupted _ _ _ _ _) = ReasonTimeout"
| "reason (ErrFormat _ _) = ReasonFormat"
| "reason (ErrOverloaded _ _) = ReasonOverloaded"
| "reason (ErrUnknown _ _) = ReasonUnknown"

definition secs :: "nat \<Rightarrow> nat" where
  "secs s = s * 1000000000"

fun retry_after_hint :: "failover_error \<Rightarrow> nat option" where
  "retry_after_hint (ErrRateLimit _ _ (Some s)) = Some (secs s)"
| "retry_after_hint _ = None"

fun estimated_output_tokens :: "failover_error \<Rightarrow> nat option" where
  "estimated_output_tokens (ErrStreamInterrupted _ _ _ partial _) =
     (if partial = [] then None else Some ((length partial + 3) div 4))"
| "estimated_output_tokens _ = None"

datatype llm_error_class =
    ClassAuth | ClassBilling | ClassRateLimit | ClassTimeout | ClassFormat | ClassOverloaded | ClassContextOverflow

definition class_by_status :: "nat \<Rightarrow> llm_error_class option" where
  "class_by_status status =
     (if status \<in> {401, 403} then Some ClassAuth
      else if status = 402 then Some ClassBilling
      else if status \<in> {408, 504} then Some ClassTimeout
      else if status = 429 then Some ClassRateLimit
      else if status = 400 then Some ClassFormat
      else if status \<in> {500, 502, 503, 521, 522, 523, 524, 529} then Some ClassOverloaded
      else None)"

definition from_status :: "string \<Rightarrow> string \<Rightarrow> nat \<Rightarrow> string \<Rightarrow> nat option \<Rightarrow> failover_error" where
  "from_status provider model status body retry_after =
     (case class_by_status status of
        Some ClassAuth \<Rightarrow> ErrAuth provider model status
      | Some ClassRateLimit \<Rightarrow> ErrRateLimit provider model retry_after
      | Some ClassBilling \<Rightarrow> ErrBilling provider
      | Some ClassTimeout \<Rightarrow> ErrTimeout provider model
      | Some ClassOverloaded \<Rightarrow> ErrOverloaded provider status
      | _ \<Rightarrow> ErrUnknown provider (''status '' @ decimal status @ '': '' @ take 200 body))"

section \<open>Cooldowns\<close>

definition DEFAULT_FAILURE_WINDOW :: nat where "DEFAULT_FAILURE_WINDOW = secs (24 * 60 * 60)"
definition MAX_STANDARD_COOLDOWN :: nat where "MAX_STANDARD_COOLDOWN = secs 3600"

record cooldown_entry =
  ce_error_count :: nat
  ce_failure_counts :: "failover_reason \<Rightarrow> nat" \<comment> \<open>0 where the map has no entry\<close>
  ce_cooldown_end :: "nat option"
  ce_disabled_until :: "nat option"
  ce_disabled_reason :: "failover_reason option"
  ce_last_failure :: "nat option"

type_synonym tracker = "(string \<times> cooldown_entry) list"

definition default_entry :: cooldown_entry where
  "default_entry = \<lparr>ce_error_count = 0, ce_failure_counts = (\<lambda>_. 0), ce_cooldown_end = None,
     ce_disabled_until = None, ce_disabled_reason = None, ce_last_failure = None\<rparr>"

definition entry_of :: "tracker \<Rightarrow> string \<Rightarrow> cooldown_entry option" where
  "entry_of tr provider = map_of tr provider"

definition put_entry :: "string \<Rightarrow> cooldown_entry \<Rightarrow> tracker \<Rightarrow> tracker" where
  "put_entry provider e tr = AList.update provider e tr"

definition calculate_standard_cooldown :: "nat \<Rightarrow> nat" where
  "calculate_standard_cooldown error_count =
     (let n = max error_count 1; e = min (n - 1) 3 in min (secs (60 * 5 ^ e)) MAX_STANDARD_COOLDOWN)"

definition calculate_billing_cooldown :: "nat \<Rightarrow> nat" where
  "calculate_billing_cooldown billing_error_count =
     (let n = max billing_error_count 1; e = min (n - 1) 10 in secs (min (5 * 60 * 60 * 2 ^ e) (24 * 60 * 60)))"

definition failed_entry :: "nat \<Rightarrow> failover_reason \<Rightarrow> nat option \<Rightarrow> cooldown_entry \<Rightarrow> cooldown_entry" where
  "failed_entry now r hint e0 =
     (let e1 = (case ce_last_failure e0 of
            Some l \<Rightarrow> if now - l > DEFAULT_FAILURE_WINDOW then e0\<lparr>ce_error_count := 0, ce_failure_counts := (\<lambda>_. 0)\<rparr> else e0
          | None \<Rightarrow> e0);
          e2 = e1\<lparr>ce_error_count := Suc (ce_error_count e1),
                 ce_failure_counts := (ce_failure_counts e1)(r := Suc (ce_failure_counts e1 r)),
                 ce_last_failure := Some now\<rparr>
      in if r = ReasonBilling
         then e2\<lparr>ce_disabled_until := Some (now + calculate_billing_cooldown (ce_failure_counts e2 ReasonBilling)),
                 ce_disabled_reason := Some r\<rparr>
         else (let cooldown = (case hint of Some d \<Rightarrow> min d MAX_STANDARD_COOLDOWN
                  | None \<Rightarrow> calculate_standard_cooldown (ce_error_count e2))
               in e2\<lparr>ce_cooldown_end := Some (now + cooldown)\<rparr>))"

definition mark_failure :: "nat \<Rightarrow> string \<Rightarrow> failover_reason \<Rightarrow> nat option \<Rightarrow> tracker \<Rightarrow> tracker" where
  "mark_failure now provider r hint tr =
     put_entry provider
       (failed_entry now r hint (case entry_of tr provider of Some e \<Rightarrow> e | None \<Rightarrow> default_entry)) tr"

definition mark_success :: "string \<Rightarrow> tracker \<Rightarrow> tracker" where
  "mark_success provider tr =
     (case entry_of tr provider of
        None \<Rightarrow> tr
      | Some e \<Rightarrow> put_entry provider (e\<lparr>ce_error_count := 0, ce_failure_counts := (\<lambda>_. 0), ce_cooldown_end := None,
          ce_disabled_until := None, ce_disabled_reason := None\<rparr>) tr)"

definition before :: "nat \<Rightarrow> nat option \<Rightarrow> bool" where
  "before now t = (case t of Some u \<Rightarrow> now < u | None \<Rightarrow> False)"

definition is_available :: "nat \<Rightarrow> tracker \<Rightarrow> string \<Rightarrow> bool" where
  "is_available now tr provider =
     (case entry_of tr provider of
        None \<Rightarrow> True
      | Some e \<Rightarrow> if before now (ce_disabled_until e) then False else if before now (ce_cooldown_end e) then False else True)"

definition error_count :: "tracker \<Rightarrow> string \<Rightarrow> nat" where
  "error_count tr provider = (case entry_of tr provider of Some e \<Rightarrow> ce_error_count e | None \<Rightarrow> 0)"

definition failure_count :: "tracker \<Rightarrow> string \<Rightarrow> failover_reason \<Rightarrow> nat" where
  "failure_count tr provider r = (case entry_of tr provider of Some e \<Rightarrow> ce_failure_counts e r | None \<Rightarrow> 0)"

definition cooldown_remaining :: "nat \<Rightarrow> tracker \<Rightarrow> string \<Rightarrow> nat option" where
  "cooldown_remaining now tr provider =
     (case entry_of tr provider of
        None \<Rightarrow> None
      | Some e \<Rightarrow>
          if before now (ce_disabled_until e) then Some (the (ce_disabled_until e) - now)
          else if before now (ce_cooldown_end e) then Some (the (ce_cooldown_end e) - now)
          else None)"

interpretation cooldowns: keyed_table entry_of put_entry "\<lambda>k. filter (\<lambda>(j, _). j \<noteq> k)"
proof
  show "entry_of (put_entry k v m) k' = (if k' = k then Some v else entry_of m k')" for k v m k'
    by (simp add: entry_of_def put_entry_def update_conv)
  show "entry_of (filter (\<lambda>(j, _). j \<noteq> k) m) k' = (if k' = k then None else entry_of m k')" for k m k'
    unfolding entry_of_def by (induction m) auto
qed

section \<open>Sequences of outcomes\<close>

text \<open>An outcome comes some time after the one before it. The state is the time of the last outcome and the tracker.\<close>

datatype cooldown_event = Failure nat string failover_reason "nat option" | Success nat string

fun cooldown_step :: "nat \<times> tracker \<Rightarrow> cooldown_event \<Rightarrow> nat \<times> tracker" where
  "cooldown_step (now, tr) (Failure d provider r hint) = (now + d, mark_failure (now + d) provider r hint tr)"
| "cooldown_step (now, tr) (Success d provider) = (now + d, mark_success provider tr)"

definition total_failures :: "cooldown_entry \<Rightarrow> nat" where
  "total_failures e = ce_failure_counts e ReasonAuth + ce_failure_counts e ReasonRateLimit + ce_failure_counts e ReasonBilling
     + ce_failure_counts e ReasonTimeout + ce_failure_counts e ReasonFormat + ce_failure_counts e ReasonOverloaded
     + ce_failure_counts e ReasonUnknown"

definition entry_ok :: "nat \<Rightarrow> cooldown_entry \<Rightarrow> bool" where
  "entry_ok now e \<longleftrightarrow> ce_error_count e = total_failures e
     \<and> (\<forall>c. ce_cooldown_end e = Some c \<longrightarrow> c \<le> now + secs 3600)
     \<and> (\<forall>c. ce_disabled_until e = Some c \<longrightarrow> c \<le> now + secs 86400)
     \<and> (ce_disabled_until e \<noteq> None \<longrightarrow> ce_disabled_reason e = Some ReasonBilling)"

definition tracker_ok :: "nat \<times> tracker \<Rightarrow> bool" where
  "tracker_ok s \<longleftrightarrow> (case s of (now, tr) \<Rightarrow> \<forall>p e. entry_of tr p = Some e \<longrightarrow> entry_ok now e)"

lemma standard_le: "calculate_standard_cooldown n \<le> secs 3600"
  by (simp add: calculate_standard_cooldown_def Let_def MAX_STANDARD_COOLDOWN_def)

lemma billing_le: "calculate_billing_cooldown n \<le> secs 86400"
  by (simp add: calculate_billing_cooldown_def Let_def secs_def)

lemma entry_ok_later: "entry_ok now e \<Longrightarrow> now \<le> later \<Longrightarrow> entry_ok later e"
  unfolding entry_ok_def by (meson add_le_mono1 le_trans)

lemma entry_ok_default: "entry_ok now default_entry"
  by (simp add: entry_ok_def default_entry_def total_failures_def)

lemma entry_ok_failed: "entry_ok now e \<Longrightarrow> entry_ok now (failed_entry now r hint e)"
  using standard_le billing_le
  by (cases r) (auto simp: entry_ok_def failed_entry_def total_failures_def Let_def MAX_STANDARD_COOLDOWN_def
      split: option.splits)

lemma entry_of_mark_failure:
  "entry_of (mark_failure now p r hint tr) q =
     (if q = p then Some (failed_entry now r hint (case entry_of tr p of Some e \<Rightarrow> e | None \<Rightarrow> default_entry))
      else entry_of tr q)"
  by (simp add: mark_failure_def cooldowns.lookup_put)

lemma entry_of_mark_success:
  "entry_of (mark_success p tr) q =
     (if q = p then map_option (\<lambda>e. e\<lparr>ce_error_count := 0, ce_failure_counts := (\<lambda>_. 0), ce_cooldown_end := None,
        ce_disabled_until := None, ce_disabled_reason := None\<rparr>) (entry_of tr p) else entry_of tr q)"
  by (simp add: mark_success_def cooldowns.lookup_put split: option.splits)

interpretation cooldown_runs: step_invariant cooldown_step tracker_ok
proof
  fix s e
  assume ok: "tracker_ok s"
  obtain now tr where s: "s = (now, tr)" by fastforce
  from ok have later: "entry_of tr p = Some x \<Longrightarrow> entry_ok (now + d) x" for p x d
    using entry_ok_later [of now x "now + d"] by (simp add: s tracker_ok_def)
  show "tracker_ok (cooldown_step s e)"
  proof (cases e)
    case (Failure d p r hint)
    have "entry_ok (now + d) (case entry_of tr p of Some e \<Rightarrow> e | None \<Rightarrow> default_entry)"
      using later entry_ok_default by (auto split: option.splits)
    from entry_ok_failed [OF this] later show ?thesis
      by (auto simp: Failure s tracker_ok_def entry_of_mark_failure)
  next
    case (Success d p)
    then show ?thesis using later
      by (auto simp: s tracker_ok_def entry_of_mark_success) (simp add: entry_ok_def total_failures_def)
  qed
qed

definition no_billing :: "string \<Rightarrow> cooldown_event list \<Rightarrow> bool" where
  "no_billing p es \<longleftrightarrow> list_all (\<lambda>e. case e of Failure _ q r _ \<Rightarrow> \<not> (q = p \<and> r = ReasonBilling) | Success _ _ \<Rightarrow> True) es"

lemma no_billing_enabled:
  "no_billing p es \<Longrightarrow> \<forall>e. entry_of tr p = Some e \<longrightarrow> ce_disabled_until e = None \<Longrightarrow>
     entry_of (snd (run_events cooldown_step (now, tr) es)) p = Some e \<Longrightarrow> ce_disabled_until e = None"
proof (induction es arbitrary: now tr)
  case Nil
  then show ?case by simp
next
  case (Cons ev es)
  obtain now1 tr1 where st: "cooldown_step (now, tr) ev = (now1, tr1)" by fastforce
  have "\<forall>e. entry_of tr1 p = Some e \<longrightarrow> ce_disabled_until e = None"
    using Cons.prems(1,2) st
    by (cases ev) (auto simp: no_billing_def entry_of_mark_failure entry_of_mark_success failed_entry_def default_entry_def Let_def
        split: option.splits if_splits)
  with Cons.IH [of tr1 now1] Cons.prems(1,3) st show ?case by (simp add: no_billing_def)
qed

text \<open>
  A cooldown is bounded: after any sequence of failures and successes, whatever the Retry-After hints say, no
  provider is held back for more than 24 hours after the last event, and for more than one hour if none of its
  failures was about billing; so a provider always becomes available again. A provider is available exactly when
  no remaining time is reported.
\<close>

theorem cooldown_bounded:
  assumes "run_events cooldown_step (start, []) events = (now, tr)"
  shows "(\<forall>later \<ge> now. \<forall>d. cooldown_remaining later tr p = Some d \<longrightarrow> 0 < d \<and> later + d \<le> now + secs 86400
      \<and> (no_billing p events \<longrightarrow> later + d \<le> now + secs 3600))
    \<and> is_available (now + secs 86400) tr p
    \<and> is_available t tr p = (cooldown_remaining t tr p = None)"
proof -
  have "tracker_ok (start, [])" by (simp add: tracker_ok_def entry_of_def)
  from cooldown_runs.run_keeps [OF this, of events] assms have ok: "tracker_ok (now, tr)" by simp
  have nb: "no_billing p events \<Longrightarrow> entry_of tr p = Some e \<Longrightarrow> ce_disabled_until e = None" for e
    using no_billing_enabled [of p events "[]" start e] assms by (simp add: entry_of_def)
  show ?thesis
  proof (cases "entry_of tr p")
    case None
    then show ?thesis by (simp add: cooldown_remaining_def is_available_def)
  next
    case (Some e)
    with ok have "entry_ok now e" by (simp add: tracker_ok_def)
    then have c: "ce_cooldown_end e = Some c \<Longrightarrow> c \<le> now + secs 3600"
      and d: "ce_disabled_until e = Some c \<Longrightarrow> c \<le> now + secs 86400" for c
      by (auto simp: entry_ok_def)
    have h: "secs 3600 \<le> secs 86400" by (simp add: secs_def)
    have after: "\<not> before (now + secs 86400) (ce_cooldown_end e)" "\<not> before (now + secs 86400) (ce_disabled_until e)"
      using c d h by (auto simp: before_def split: option.splits)
    have "0 < r \<and> later + r \<le> now + secs 86400 \<and> (no_billing p events \<longrightarrow> later + r \<le> now + secs 3600)"
      if "cooldown_remaining later tr p = Some r" for later r
    proof (cases "before later (ce_disabled_until e)")
      case True
      then obtain u where "ce_disabled_until e = Some u" "later < u" by (auto simp: before_def split: option.splits)
      with that True Some d [of u] nb [of e] show ?thesis by (auto simp: cooldown_remaining_def)
    next
      case False
      with that Some have "before later (ce_cooldown_end e)" by (auto simp: cooldown_remaining_def split: if_splits)
      then obtain u where "ce_cooldown_end e = Some u" "later < u" by (auto simp: before_def split: option.splits)
      with that False Some c [of u] h show ?thesis by (auto simp: cooldown_remaining_def split: if_splits)
    qed
    then show ?thesis using Some after by (auto simp: is_available_def cooldown_remaining_def)
  qed
qed

text \<open>When both are set, the remaining time reported is that of the billing cooldown even if the other ends later.\<close>

lemma remaining_may_be_short:
  "let tr = mark_failure (secs 17900) ''p'' ReasonTimeout None
        (mark_failure (secs 17900) ''p'' ReasonTimeout None (mark_failure 0 ''p'' ReasonBilling None []))
   in cooldown_remaining (secs 17900) tr ''p'' = Some (secs 100) \<and> \<not> is_available (secs 18000) tr ''p''"
  by code_simp

definition sample_events :: "cooldown_event list" where
  "sample_events = [Failure 5 ''p'' ReasonTimeout None, Failure 7 ''p'' ReasonRateLimit (Some (secs 999999)), Success 3 ''q'']"

lemma cooldown_bounded_witness:
  "let tr = snd (run_events cooldown_step (0, []) sample_events)
   in cooldown_remaining 15 tr ''p'' = Some (secs 3600 - 3) \<and> is_available (15 + secs 86400) tr ''p''
      \<and> (\<forall>later \<ge> 15. \<forall>d. cooldown_remaining later tr ''p'' = Some d \<longrightarrow> 0 < d \<and> later + d \<le> 15 + secs 86400
      \<and> (no_billing ''p'' sample_events \<longrightarrow> later + d \<le> 15 + secs 3600))"
proof -
  obtain tr where r: "run_events cooldown_step (0, []) sample_events = (15, tr)"
    by (simp add: sample_events_def)
  have "cooldown_remaining 15 (snd (run_events cooldown_step (0, []) sample_events)) ''p'' = Some (secs 3600 - 3)"
    by code_simp
  with cooldown_bounded [OF r, of "''p''" 0] r show ?thesis by (simp add: Let_def)
qed

text \<open>
  The backoff grows by the documented steps and stays at its cap: 1, 5 and 25 minutes and then an hour; for
  billing 5, 10 and 20 hours and then a day.
\<close>

theorem backoff_steps:
  "calculate_standard_cooldown n = secs (if n \<le> 1 then 60 else if n = 2 then 300 else if n = 3 then 1500 else 3600)
   \<and> calculate_billing_cooldown n = secs (3600 * (if n \<le> 1 then 5 else if n = 2 then 10 else if n = 3 then 20 else 24))"
proof -
  consider "n \<le> 1" | "n = 2" | "n = 3" | "4 \<le> n" by linarith
  then show ?thesis
  proof cases
    case 4
    then have "2 ^ 3 \<le> (2 ^ min (n - 1) 10 :: nat)" by (intro power_increasing) auto
    then have "min (5 * 60 * 60 * 2 ^ min (n - 1) 10) (24 * 60 * 60) = (24 * 60 * 60 :: nat)"
      using mult_le_mono2 [of "2 ^ 3" "2 ^ min (n - 1) 10" 18000] by (intro min_absorb2) simp
    moreover have "min (n - 1) 3 = 3" "max n 1 = n" using 4 by auto
    ultimately show ?thesis using 4
      by (simp add: calculate_standard_cooldown_def calculate_billing_cooldown_def Let_def MAX_STANDARD_COOLDOWN_def secs_def)
  qed (auto simp: calculate_standard_cooldown_def calculate_billing_cooldown_def Let_def MAX_STANDARD_COOLDOWN_def secs_def max_def min_def)
qed

end
