(* ===== verification/Fallback_Chain.thy ===== *)
theory Fallback_Chain
  imports Failover
begin

text \<open>
  The fallback chain (\<open>crates/nemesis-providers/src/fallback_provider.rs\<close>): \<open>chat\<close>, \<open>execute_detailed\<close>,
  \<open>execute_image\<close>, the assembly of a chain and the removal of duplicate levels. Requests and responses are
  opaque: an environment says what each level answers and what the clock shows when a level is checked and
  when it has answered.
\<close>

section \<open>The chain\<close>

record fallback_entry =
  fe_provider :: string
  fe_model :: string

record 'r chain_env =
  ch_answer :: "nat \<Rightarrow> string \<Rightarrow> failover_error + 'r"
  ch_checked :: "nat \<Rightarrow> nat"
  ch_answered :: "nat \<Rightarrow> nat"
  ch_display :: "failover_error \<Rightarrow> string"

definition effective_model :: "fallback_entry \<Rightarrow> string \<Rightarrow> string" where
  "effective_model entry model = (if fe_model entry = [] then model else fe_model entry)"

definition cooldown_key :: "fallback_entry \<Rightarrow> string \<Rightarrow> string" where
  "cooldown_key entry m = fe_provider entry @ '':'' @ m"

fun chat_levels :: "'r chain_env \<Rightarrow> string \<Rightarrow> string \<Rightarrow> nat \<Rightarrow> fallback_entry list \<Rightarrow> tracker \<Rightarrow> failover_error option \<Rightarrow>
    (failover_error + 'r) \<times> tracker" where
  "chat_levels env name model i [] tr last_error =
     (Inl (case last_error of Some e \<Rightarrow> e | None \<Rightarrow> ErrUnknown name ''all providers in fallback chain exhausted''), tr)"
| "chat_levels env name model i (entry # chain) tr last_error =
     (let m = effective_model entry model; k = cooldown_key entry m in
      if \<not> is_available (ch_checked env i) tr k then chat_levels env name model (Suc i) chain tr last_error
      else (case ch_answer env i m of
          Inr resp \<Rightarrow> (Inr resp, mark_success k tr)
        | Inl err \<Rightarrow>
            (let tr' = mark_failure (ch_answered env i) k (reason err) (retry_after_hint err) tr in
             if \<not> is_retriable err then (Inl err, tr')
             else chat_levels env name model (Suc i) chain tr' (Some err))))"

definition chat :: "'r chain_env \<Rightarrow> string \<Rightarrow> fallback_entry list \<Rightarrow> string \<Rightarrow> tracker \<Rightarrow> (failover_error + 'r) \<times> tracker" where
  "chat env name chain model tr =
     (if chain = [] then (Inl (ErrUnknown name ''no providers in fallback chain''), tr)
      else chat_levels env name model 0 chain tr None)"

record fallback_attempt =
  fa_provider :: string
  fa_model :: string
  fa_error :: "string option"
  fa_success :: bool

record exhausted_error =
  ee_chain_name :: string
  ee_providers_attempted :: nat
  ee_total_providers :: nat
  ee_errors :: "(string \<times> string) list"

record 'r fallback_result =
  fr_response :: "'r option"
  fr_attempts :: "fallback_attempt list"
  fr_exhausted_error :: "exhausted_error option"

definition exhausted :: "string \<Rightarrow> nat \<Rightarrow> (string \<times> string) list \<Rightarrow> fallback_attempt list \<Rightarrow> 'r fallback_result" where
  "exhausted name len errors attempts =
     \<lparr>fr_response = None, fr_attempts = attempts,
      fr_exhausted_error = Some \<lparr>ee_chain_name = name, ee_providers_attempted = length errors,
        ee_total_providers = len, ee_errors = errors\<rparr>\<rparr>"

fun detailed_levels :: "'r chain_env \<Rightarrow> string \<Rightarrow> nat \<Rightarrow> string \<Rightarrow> nat \<Rightarrow> fallback_entry list \<Rightarrow> tracker \<Rightarrow>
    fallback_attempt list \<Rightarrow> (string \<times> string) list \<Rightarrow> 'r fallback_result \<times> tracker" where
  "detailed_levels env name len model i [] tr attempts errors = (exhausted name len errors attempts, tr)"
| "detailed_levels env name len model i (entry # chain) tr attempts errors =
     (let m = effective_model entry model; k = cooldown_key entry m;
          attempt = (\<lambda>err ok. \<lparr>fa_provider = fe_provider entry, fa_model = m, fa_error = err, fa_success = ok\<rparr>) in
      if \<not> is_available (ch_checked env i) tr k
      then detailed_levels env name len model (Suc i) chain tr (attempts @ [attempt (Some ''skipped: in cooldown'') False]) errors
      else (case ch_answer env i m of
          Inr resp \<Rightarrow>
            (\<lparr>fr_response = Some resp, fr_attempts = attempts @ [attempt None True], fr_exhausted_error = None\<rparr>,
             mark_success k tr)
        | Inl err \<Rightarrow>
            (let tr' = mark_failure (ch_answered env i) k (reason err) (retry_after_hint err) tr;
                 errors' = errors @ [(fe_provider entry, ch_display env err)];
                 attempts' = attempts @ [attempt (Some (ch_display env err)) False] in
             if \<not> is_retriable err then (exhausted name len errors' attempts', tr')
             else detailed_levels env name len model (Suc i) chain tr' attempts' errors')))"

definition execute_detailed :: "'r chain_env \<Rightarrow> string \<Rightarrow> fallback_entry list \<Rightarrow> string \<Rightarrow> tracker \<Rightarrow>
    'r fallback_result \<times> tracker" where
  "execute_detailed env name chain model tr =
     (if chain = [] then (exhausted name 0 [] [], tr)
      else detailed_levels env name (length chain) model 0 chain tr [] [])"

section \<open>Images\<close>

definition is_image_dimension_error :: "string \<Rightarrow> bool" where
  "is_image_dimension_error msg \<longleftrightarrow> contains_str msg ''image dimensions exceed max''"

text \<open>The regular expression \<open>image exceeds.*mb\<close>, whose dot stops at a line feed.\<close>

fun is_image_size_error :: "string \<Rightarrow> bool" where
  "is_image_size_error [] = False"
| "is_image_size_error (c # s) =
     ((case strip_prefix ''image exceeds'' (c # s) of
         Some rest \<Rightarrow> contains_str (takeWhile (\<lambda>d. d \<noteq> CHR 0x0A) rest) ''mb''
       | None \<Rightarrow> False) \<or> is_image_size_error s)"

fun image_levels :: "'r chain_env \<Rightarrow> string \<Rightarrow> nat \<Rightarrow> string \<Rightarrow> nat \<Rightarrow> fallback_entry list \<Rightarrow>
    fallback_attempt list \<Rightarrow> (string \<times> string) list \<Rightarrow> 'r fallback_result" where
  "image_levels env name len model i [] attempts errors = exhausted name len errors attempts"
| "image_levels env name len model i (entry # chain) attempts errors =
     (let m = effective_model entry model;
          attempt = (\<lambda>err ok. \<lparr>fa_provider = fe_provider entry, fa_model = m, fa_error = err, fa_success = ok\<rparr>) in
      (case ch_answer env i m of
         Inr resp \<Rightarrow> \<lparr>fr_response = Some resp, fr_attempts = attempts @ [attempt None True], fr_exhausted_error = None\<rparr>
       | Inl err \<Rightarrow>
           (let msg = ch_display env err;
                errors' = errors @ [(fe_provider entry, msg)];
                attempts' = attempts @ [attempt (Some msg) False] in
            if is_image_dimension_error (to_lowercase msg) \<or> is_image_size_error (to_lowercase msg)
            then exhausted name len errors' attempts'
            else if i = len - 1 then exhausted name len errors' attempts'
            else image_levels env name len model (Suc i) chain attempts' errors')))"

definition execute_image :: "'r chain_env \<Rightarrow> string \<Rightarrow> fallback_entry list \<Rightarrow> string \<Rightarrow> 'r fallback_result" where
  "execute_image env name chain model =
     (if chain = [] then exhausted name 0 [] [] else image_levels env name (length chain) model 0 chain [] [])"

section \<open>Assembling a chain\<close>

fun resolve_seen :: "string set \<Rightarrow> fallback_entry list \<Rightarrow> fallback_entry list" where
  "resolve_seen seen [] = []"
| "resolve_seen seen (entry # chain) =
     (let k = fe_provider entry @ '':'' @ fe_model entry in
      if k \<in> seen then resolve_seen seen chain else entry # resolve_seen (insert k seen) chain)"

definition resolve_candidates :: "fallback_entry list \<Rightarrow> fallback_entry list" where
  "resolve_candidates chain = resolve_seen {} chain"

text \<open>A level of the configuration: its alias, its model and the provider the factory makes of it, if it can.\<close>

record fallback_level =
  fl_alias :: string
  fl_model :: string
  fl_created :: "string option"

datatype assembled = Single string | Chain string "fallback_entry list"

definition assemble_fallback_chain :: "string \<Rightarrow> string \<Rightarrow> fallback_level list \<Rightarrow> assembled" where
  "assemble_fallback_chain primary_model primary levels =
     (if levels = [] then Single primary
      else (let chain = \<lparr>fe_provider = primary, fe_model = primary_model\<rparr> #
                  List.map_filter (\<lambda>l. if fl_alias l = primary_model then None
                    else map_option (\<lambda>p. \<lparr>fe_provider = p, fe_model = fl_model l\<rparr>) (fl_created l)) levels
            in if length chain > 1 then Chain (''auto:'' @ primary_model) chain else Single primary))"

section \<open>Properties\<close>

lemma detailed_levels_chat:
  "case (detailed_levels env name len model i chain tr attempts errors, chat_levels env name model i chain tr le) of
     ((r, tr1), (a, tr2)) \<Rightarrow> tr1 = tr2 \<and> fr_response r = (case a of Inr x \<Rightarrow> Some x | Inl _ \<Rightarrow> None)
       \<and> (fr_exhausted_error r = None) = (\<exists>x. a = Inr x)
       \<and> length (fr_attempts r) \<le> length attempts + length chain"
proof (induction chain arbitrary: i tr attempts errors le)
  case Nil
  then show ?case by (simp add: exhausted_def)
next
  case (Cons entry chain)
  let ?m = "effective_model entry model" and ?k = "cooldown_key entry (effective_model entry model)"
  show ?case
  proof (cases "is_available (ch_checked env i) tr ?k")
    case False
    then show ?thesis
      using Cons.IH [where i = "Suc i" and tr = tr and attempts = "attempts @ [\<lparr>fa_provider = fe_provider entry, fa_model = ?m,
          fa_error = Some ''skipped: in cooldown'', fa_success = False\<rparr>]" and errors = errors and le = le]
      by (simp add: Let_def split: prod.splits)
  next
    case True
    show ?thesis
    proof (cases "ch_answer env i ?m")
      case (Inr resp)
      with True show ?thesis by (simp add: Let_def)
    next
      case (Inl err)
      with True show ?thesis
        using Cons.IH [where i = "Suc i" and tr = "mark_failure (ch_answered env i) ?k (reason err) (retry_after_hint err) tr"
            and attempts = "attempts @ [\<lparr>fa_provider = fe_provider entry, fa_model = ?m,
              fa_error = Some (ch_display env err), fa_success = False\<rparr>]"
            and errors = "errors @ [(fe_provider entry, ch_display env err)]" and le = "Some err"]
        by (simp add: Let_def exhausted_def split: prod.splits)
    qed
  qed
qed

text \<open>
  The two executors agree: \<open>execute_detailed\<close> delivers a response exactly when \<open>chat\<close> does, the same one, and
  leaves the same cooldowns behind; otherwise it reports the chain exhausted. It lists an attempt for each level
  it came to, at most the length of the chain.
\<close>

theorem detailed_agrees_with_chat:
  shows "snd (execute_detailed env name chain model tr) = snd (chat env name chain model tr)
    \<and> fr_response (fst (execute_detailed env name chain model tr)) =
        (case fst (chat env name chain model tr) of Inr x \<Rightarrow> Some x | Inl _ \<Rightarrow> None)
    \<and> (fr_exhausted_error (fst (execute_detailed env name chain model tr)) = None) =
        (\<exists>x. fst (chat env name chain model tr) = Inr x)
    \<and> length (fr_attempts (fst (execute_detailed env name chain model tr))) \<le> length chain"
  using detailed_levels_chat [where env = env and name = name and len = "length chain" and model = model and i = 0
      and chain = chain and tr = tr and attempts = "[]" and errors = "[]" and le = None]
  by (simp add: execute_detailed_def chat_def exhausted_def split: prod.splits)

definition level_keys :: "string \<Rightarrow> fallback_entry list \<Rightarrow> string list" where
  "level_keys model chain = map (\<lambda>e. cooldown_key e (effective_model e model)) chain"

text \<open>What the levels from the \<open>i\<close>th on see, as long as none of their keys was touched.\<close>

definition open_at :: "'r chain_env \<Rightarrow> string \<Rightarrow> tracker \<Rightarrow> nat \<Rightarrow> nat \<Rightarrow> fallback_entry list \<Rightarrow> bool" where
  "open_at env model tr i j chain = is_available (ch_checked env (i + j)) tr (level_keys model chain ! j)"

definition answer_at :: "'r chain_env \<Rightarrow> string \<Rightarrow> nat \<Rightarrow> nat \<Rightarrow> fallback_entry list \<Rightarrow> failover_error + 'r" where
  "answer_at env model i j chain = ch_answer env (i + j) (effective_model (chain ! j) model)"

definition passed :: "'r chain_env \<Rightarrow> string \<Rightarrow> tracker \<Rightarrow> nat \<Rightarrow> nat \<Rightarrow> fallback_entry list \<Rightarrow> bool" where
  "passed env model tr i j chain \<longleftrightarrow>
     (open_at env model tr i j chain \<longrightarrow> (case answer_at env model i j chain of Inl e \<Rightarrow> is_retriable e | Inr _ \<Rightarrow> False))"

lemma availability_frame:
  "k \<noteq> k' \<Longrightarrow> is_available t (mark_failure now k' r h tr) k = is_available t tr k"
  by (simp add: is_available_def entry_of_mark_failure)

lemma chat_levels_success:
  "distinct (level_keys model chain) \<Longrightarrow>
    (fst (chat_levels env name model i chain tr le) = Inr x) =
    (\<exists>j < length chain. open_at env model tr i j chain \<and> answer_at env model i j chain = Inr x
       \<and> (\<forall>m < j. passed env model tr i m chain))"
proof (induction chain arbitrary: i tr le)
  case Nil
  then show ?case by simp
next
  case (Cons entry chain)
  let ?m = "effective_model entry model" and ?k = "cooldown_key entry (effective_model entry model)"
  have "?k \<notin> set (level_keys model chain)" and d: "distinct (level_keys model chain)"
    using Cons.prems by (simp_all add: level_keys_def)
  then have k: "j < length chain \<Longrightarrow> level_keys model chain ! j \<noteq> ?k" for j
    by (metis length_map level_keys_def nth_mem)
  have sh: "open_at env model tr i (Suc j) (entry # chain) = open_at env model tr (Suc i) j chain"
    "answer_at env model i (Suc j) (entry # chain) = answer_at env model (Suc i) j chain"
    "passed env model tr i (Suc j) (entry # chain) = passed env model tr (Suc i) j chain" for j
    by (simp_all add: open_at_def answer_at_def passed_def level_keys_def)
  have z: "open_at env model tr i 0 (entry # chain) = is_available (ch_checked env i) tr ?k"
    "answer_at env model i 0 (entry # chain) = ch_answer env i ?m"
    by (simp_all add: open_at_def answer_at_def level_keys_def)
  have step: "(\<exists>j < length (entry # chain). open_at env model tr i j (entry # chain) \<and> answer_at env model i j (entry # chain) = Inr x
       \<and> (\<forall>m < j. passed env model tr i m (entry # chain))) \<longleftrightarrow>
     (is_available (ch_checked env i) tr ?k \<and> ch_answer env i ?m = Inr x)
     \<or> (passed env model tr i 0 (entry # chain) \<and> (\<exists>j < length chain. open_at env model tr (Suc i) j chain
          \<and> answer_at env model (Suc i) j chain = Inr x \<and> (\<forall>m < j. passed env model tr (Suc i) m chain)))"
    by (simp only: list.size add_Suc_right add_0_right Ex_less_Suc2 All_less_Suc2 sh z) auto
  show ?case
  proof (cases "is_available (ch_checked env i) tr ?k")
    case False
    then show ?thesis unfolding step using Cons.IH [OF d, of "Suc i" tr le]
      by (simp add: Let_def passed_def z)
  next
    case True
    show ?thesis
    proof (cases "ch_answer env i ?m")
      case (Inr resp)
      with True show ?thesis unfolding step by (simp add: Let_def passed_def z)
    next
      case (Inl err)
      let ?tr = "mark_failure (ch_answered env i) ?k (reason err) (retry_after_hint err) tr"
      have fr: "j < length chain \<Longrightarrow> open_at env model ?tr (Suc i) j chain = open_at env model tr (Suc i) j chain"
        "j < length chain \<Longrightarrow> passed env model ?tr (Suc i) j chain = passed env model tr (Suc i) j chain" for j
        using k by (simp_all add: open_at_def passed_def availability_frame)
      from Inl True show ?thesis unfolding step using Cons.IH [OF d, of "Suc i" ?tr "Some err"] fr
        by (auto simp: Let_def passed_def z)
    qed
  qed
qed

text \<open>
  With keys that differ from level to level, a request is answered by the first level that is out of cooldown and
  answers, provided each level before it is in cooldown or failed with an error that allows failing over; a
  failure of one level never closes another, and if there is no such level the request fails.
\<close>

theorem chain_answers_in_order:
  assumes "distinct (level_keys model chain)"
  shows "(fst (chat env name chain model tr) = Inr x) =
    (\<exists>j < length chain. open_at env model tr 0 j chain \<and> answer_at env model 0 j chain = Inr x
       \<and> (\<forall>m < j. passed env model tr 0 m chain))"
  using chat_levels_success [OF assms, of env name 0 tr None x] by (simp add: chat_def)

definition sample_chain :: "fallback_entry list" where
  "sample_chain = [\<lparr>fe_provider = ''http'', fe_model = ''big''\<rparr>, \<lparr>fe_provider = ''http'', fe_model = ''small''\<rparr>]"

definition overloaded_env :: "nat chain_env" where
  "overloaded_env = \<lparr>ch_answer = (\<lambda>i m. if i = 0 then Inl (from_status ''http'' m 503 [] None) else Inr 7),
     ch_checked = (\<lambda>i. i), ch_answered = (\<lambda>i. i), ch_display = (\<lambda>e. ''overloaded'')\<rparr>"

lemma chain_answers_in_order_witness:
  "fst (chat overloaded_env ''c'' sample_chain ''x'' []) = Inr 7"
proof -
  have "distinct (level_keys ''x'' sample_chain)" by code_simp
  moreover have "open_at overloaded_env ''x'' [] 0 1 sample_chain" "answer_at overloaded_env ''x'' 0 1 sample_chain = Inr 7"
    "passed overloaded_env ''x'' [] 0 0 sample_chain" by code_simp+
  ultimately show ?thesis
    using chain_answers_in_order [of "''x''" sample_chain overloaded_env "''c''" "[]" 7]
    by (auto simp: sample_chain_def intro!: exI [of _ 1])
qed

text \<open>
  An error that is the request's own fault also starts a cooldown: after one malformed request (status 400) the
  level is skipped for a minute, and the chain goes on to the next one for well-formed requests.
\<close>

lemma bad_request_cools_the_level:
  "let bad = overloaded_env\<lparr>ch_answer := (\<lambda>i m. Inl (from_status ''http'' m 400 ''bad'' None))\<rparr>;
       tr = snd (chat bad ''c'' sample_chain ''x'' [])
   in fst (chat bad ''c'' sample_chain ''x'' []) = Inl (ErrUnknown ''http'' ''status 400: bad'')
      \<and> \<not> is_available (secs 59) tr ''http:big'' \<and> is_available (secs 59) tr ''http:small''"
  by code_simp

end
