(* ===== verification/Frames.thy ===== *)
theory Frames
  imports Main "HOL-Library.Word" "HOL-Library.Sublist" "HOL-Library.Code_Target_Nat"
begin

text \<open>
  The wire format between cluster nodes: \<open>Frame\<close> (\<open>crates/nemesis-cluster/src/rpc_types.rs\<close>) and the framing and
  payload encryption of \<open>transport/frame.rs\<close>. A stream is the list of the bytes it still delivers. The AES-256-GCM
  cipher (crate \<open>aes-gcm\<close>) is two parameters, encryption and decryption; \<open>aead_laws\<close> is what its documentation
  says of them.
\<close>

type_synonym bytes = "8 word list"

section \<open>Frames in a buffer\<close>

definition HEADER_SIZE :: nat where "HEADER_SIZE = 4"
definition MAX_FRAME_SIZE :: nat where "MAX_FRAME_SIZE = 16 * 1024 * 1024"

definition to_be_bytes :: "32 word \<Rightarrow> bytes" where
  "to_be_bytes w = map (\<lambda>i. of_nat (unat w div 256 ^ i)) [3, 2, 1, 0]"

definition from_be_bytes :: "bytes \<Rightarrow> 32 word" where
  "from_be_bytes bs = of_nat (foldl (\<lambda>n b. n * 256 + unat b) 0 bs)"

text \<open>The length is cast to 32 bits.\<close>

definition encode :: "bytes \<Rightarrow> bytes" where
  "encode data = to_be_bytes (of_nat (length data)) @ data"

definition decode :: "bytes \<Rightarrow> (bytes \<times> nat) option" where
  "decode buf =
     (if length buf < HEADER_SIZE then None
      else (let len = unat (from_be_bytes (take 4 buf)); n = HEADER_SIZE + len in
        if length buf < n then None else Some (drop HEADER_SIZE (take n buf), n)))"

definition encode_batch :: "bytes list \<Rightarrow> bytes" where
  "encode_batch frames = concat (map encode frames)"

function decode_from :: "bytes \<Rightarrow> nat \<Rightarrow> bytes list \<Rightarrow> bytes list \<times> nat" where
  "decode_from buf offset frames =
     (if offset < length buf then
        (case decode (drop offset buf) of
           Some (frame, consumed) \<Rightarrow> decode_from buf (offset + consumed) (frames @ [frame])
         | None \<Rightarrow> (frames, offset))
      else (frames, offset))"
  by pat_completeness auto
termination
  by (relation "measure (\<lambda>(buf, offset, frames). length buf - offset)")
    (auto simp: decode_def HEADER_SIZE_def Let_def split: if_splits)

declare decode_from.simps [simp del]

definition decode_all :: "bytes \<Rightarrow> bytes list \<times> nat" where
  "decode_all buf = decode_from buf 0 []"

section \<open>Frames on a stream\<close>

datatype io_error = InvalidData | UnexpectedEof

definition validate_frame_size :: "bytes \<Rightarrow> bool" where
  "validate_frame_size data \<longleftrightarrow> \<not> length data > MAX_FRAME_SIZE"

text \<open>What is written, if anything; a failing writer is not modelled.\<close>

definition write_frame :: "bytes \<Rightarrow> io_error + bytes" where
  "write_frame data = (if validate_frame_size data then Inr (to_be_bytes (of_nat (length data)) @ data) else Inl InvalidData)"

definition read_exact :: "nat \<Rightarrow> bytes \<Rightarrow> io_error + bytes \<times> bytes" where
  "read_exact n stream = (if length stream < n then Inl UnexpectedEof else Inr (take n stream, drop n stream))"

definition read_frame :: "bytes \<Rightarrow> io_error + bytes \<times> bytes" where
  "read_frame stream =
     (case read_exact HEADER_SIZE stream of
        Inl e \<Rightarrow> Inl e
      | Inr (len_buf, stream') \<Rightarrow>
          (let len = unat (from_be_bytes len_buf) in
           if len > MAX_FRAME_SIZE then Inl InvalidData else read_exact len stream'))"

section \<open>Encrypted payloads\<close>

definition NONCE_SIZE :: nat where "NONCE_SIZE = 12"
definition TAG_SIZE :: nat where "TAG_SIZE = 16"

datatype crypt_error = TooShort nat | CipherFailed

definition encrypt_frame :: "(bytes \<Rightarrow> bytes \<Rightarrow> bytes \<Rightarrow> bytes option) \<Rightarrow> bytes \<Rightarrow> bytes \<Rightarrow> bytes \<Rightarrow> crypt_error + bytes" where
  "encrypt_frame enc nonce payload key =
     (case enc key nonce payload of Some ciphertext \<Rightarrow> Inr (nonce @ ciphertext) | None \<Rightarrow> Inl CipherFailed)"

definition decrypt_frame :: "(bytes \<Rightarrow> bytes \<Rightarrow> bytes \<Rightarrow> bytes option) \<Rightarrow> bytes \<Rightarrow> bytes \<Rightarrow> crypt_error + bytes" where
  "decrypt_frame dec data key =
     (if length data < NONCE_SIZE + TAG_SIZE then Inl (TooShort (length data))
      else (case dec key (take NONCE_SIZE data) (drop NONCE_SIZE data) of
          Some p \<Rightarrow> Inr p | None \<Rightarrow> Inl CipherFailed))"

text \<open>A ciphertext decrypts to its payload under its own key and nonce, and is longer than it by the tag.\<close>

definition aead_laws :: "(bytes \<Rightarrow> bytes \<Rightarrow> bytes \<Rightarrow> bytes option) \<Rightarrow> (bytes \<Rightarrow> bytes \<Rightarrow> bytes \<Rightarrow> bytes option) \<Rightarrow> bool" where
  "aead_laws enc dec \<longleftrightarrow> (\<forall>k n p c. enc k n p = Some c \<longrightarrow> dec k n c = Some p \<and> length c = length p + TAG_SIZE)"

section \<open>Round trips\<close>

lemma length_to_be [simp]: "length (to_be_bytes w) = 4"
  by (simp add: to_be_bytes_def)

lemma from_to_be: "from_be_bytes (to_be_bytes w) = w"
proof -
  let ?n = "unat w"
  have n: "?n < 4294967296" using unsigned_less [of w] by simp
  have m: "(256 :: nat) * a + n mod 256 = n" if "a = n div 256" for a n :: nat using that by simp
  have "foldl (\<lambda>n b. n * 256 + unat b) 0 (to_be_bytes w) =
      (((?n div 256 ^ 3 mod 256 * 256 + ?n div 256 ^ 2 mod 256) * 256 + ?n div 256 mod 256) * 256 + ?n mod 256)"
    unfolding to_be_bytes_def
    by (simp add: unat_of_nat [where 'a = 8] del: unat_of_nat unsigned_of_nat of_nat_unat)
  also have "\<dots> = ?n"
  proof -
    have "?n div 256 ^ 3 mod 256 = ?n div 256 ^ 3" using n by simp
    moreover have "?n div 256 ^ 3 = ?n div 256 ^ 2 div 256" and "?n div 256 ^ 2 = ?n div 256 div 256"
      by (simp_all add: div_mult2_eq [symmetric])
    ultimately show ?thesis by (metis div_mult_mod_eq)
  qed
  finally show ?thesis by (simp add: from_be_bytes_def)
qed

lemma decode_encode:
  assumes "length data < 2 ^ 32"
  shows "decode (encode data @ rest) = Some (data, length (encode data))"
proof -
  have "unat (of_nat (length data) :: 32 word) = length data" using assms by (simp add: unat_of_nat)
  then show ?thesis by (simp add: decode_def encode_def from_to_be HEADER_SIZE_def Let_def)
qed

lemma decode_partial:
  assumes "strict_prefix p (encode data)" and "length data < 2 ^ 32"
  shows "decode p = None"
proof (cases "length p < 4")
  case True
  then show ?thesis by (simp add: decode_def HEADER_SIZE_def)
next
  case False
  from assms(1) obtain r where r: "encode data = p @ r" "r \<noteq> []" by (auto simp: strict_prefix_def prefix_def)
  then have "take 4 p = to_be_bytes (of_nat (length data))"
    using False by (metis append_eq_conv_conj encode_def length_to_be take_append take_all_iff diff_is_0_eq take0 append_Nil2 linorder_not_less)
  moreover have "unat (of_nat (length data) :: 32 word) = length data" using assms(2) by (simp add: unat_of_nat)
  moreover have "length p < 4 + length data"
  proof -
    have "length p + length r = 4 + length data" using arg_cong [OF r(1), of length] by (simp add: encode_def)
    then show ?thesis using r(2) by (cases r) auto
  qed
  ultimately show ?thesis using False by (simp add: decode_def from_to_be HEADER_SIZE_def Let_def)
qed

lemma decode_from_batch:
  "list_all (\<lambda>d. length d < 2 ^ 32) frames \<Longrightarrow> buf = pre @ encode_batch frames @ tl' \<Longrightarrow> (tl' = [] \<or> decode tl' = None) \<Longrightarrow>
   decode_from buf (length pre) acc = (acc @ frames, length pre + length (encode_batch frames))"
proof (induction frames arbitrary: pre acc)
  case Nil
  then show ?case by (subst decode_from.simps) (auto simp: encode_batch_def)
next
  case (Cons d frames)
  have buf: "buf = pre @ encode d @ (encode_batch frames @ tl')" using Cons.prems(2) by (simp add: encode_batch_def)
  then have "decode (drop (length pre) buf) = Some (d, length (encode d))"
    using decode_encode [of d "encode_batch frames @ tl'"] Cons.prems(1) by simp
  moreover have "length pre < length buf" by (simp add: buf encode_def)
  ultimately have "decode_from buf (length pre) acc = decode_from buf (length (pre @ encode d)) (acc @ [d])"
    by (subst decode_from.simps) simp
  also have "\<dots> = ((acc @ [d]) @ frames, length (pre @ encode d) + length (encode_batch frames))"
    by (rule Cons.IH) (use Cons.prems buf in simp_all)
  finally show ?case by (simp add: encode_batch_def)
qed

text \<open>
  C40. What \<open>encode_batch\<close> writes, \<open>decode_all\<close> reads back: for frames of less than 4 GiB, followed by the beginning of
  another frame that is still being received, it returns exactly those frames in order and the offset at which
  the incomplete frame starts, so that reading can go on from there.
\<close>

theorem batch_roundtrip:
  assumes "list_all (\<lambda>d. length d < 2 ^ 32) (next_frame # frames)" and "strict_prefix part (encode next_frame)"
  shows "decode_all (encode_batch frames @ part) = (frames, length (encode_batch frames))"
proof -
  have "decode part = None" using decode_partial [OF assms(2)] assms(1) by simp
  then show ?thesis
    using decode_from_batch [of frames "encode_batch frames @ part" "[]" part "[]"] assms(1)
    by (simp add: decode_all_def)
qed

lemma batch_roundtrip_witness:
  "decode_all (encode_batch [[1, 2], [], [3]] @ [0, 0, 0, 2, 9]) = ([[1, 2], [], [3]], 15)"
proof -
  have "strict_prefix [0, 0, 0, 2, 9] (encode [9, 9])" by code_simp
  from batch_roundtrip [OF _ this, of "[[1, 2], [], [3]]"] show ?thesis
    by (simp add: encode_batch_def encode_def)
qed

text \<open>A payload of 4 GiB is announced as empty: \<open>encode\<close> casts the length without a check.\<close>

lemma length_cast_wraps:
  assumes "length data = 2 ^ 32"
  shows "decode (encode data) = Some ([], 4)"
proof -
  have "(of_nat (length data) :: 32 word) = 0" unfolding assms by simp
  then show ?thesis by (simp add: decode_def encode_def from_to_be HEADER_SIZE_def Let_def)
qed

text \<open>
  On a stream: a frame is written exactly when its payload has at most 16 MiB, and then the reader at the other
  end gets that payload and leaves the rest of the stream; whatever bytes arrive, the reader never delivers more
  than 16 MiB at once, consumes exactly the header and what it delivers, and refuses a larger announced length
  before reading on.
\<close>

theorem stream_roundtrip:
  "(case write_frame data of
      Inr out \<Rightarrow> length data \<le> MAX_FRAME_SIZE \<and> read_frame (out @ rest) = Inr (data, rest)
    | Inl e \<Rightarrow> MAX_FRAME_SIZE < length data \<and> e = InvalidData)
   \<and> (case read_frame stream of
        Inr (d, stream') \<Rightarrow> length d \<le> MAX_FRAME_SIZE \<and> (\<exists>h. length h = HEADER_SIZE \<and> stream = h @ d @ stream')
      | Inl InvalidData \<Rightarrow> MAX_FRAME_SIZE < unat (from_be_bytes (take 4 stream))
      | Inl UnexpectedEof \<Rightarrow> length stream < HEADER_SIZE + (if length stream < 4 then 0 else unat (from_be_bytes (take 4 stream))))"
proof (rule conjI)
  show "case write_frame data of
      Inr out \<Rightarrow> length data \<le> MAX_FRAME_SIZE \<and> read_frame (out @ rest) = Inr (data, rest)
    | Inl e \<Rightarrow> MAX_FRAME_SIZE < length data \<and> e = InvalidData"
  proof (cases "length data \<le> MAX_FRAME_SIZE")
    case True
    then have "unat (of_nat (length data) :: 32 word) = length data"
      by (simp add: unat_of_nat MAX_FRAME_SIZE_def)
    with True show ?thesis
      by (simp add: write_frame_def validate_frame_size_def read_frame_def read_exact_def HEADER_SIZE_def from_to_be Let_def)
  next
    case False
    then show ?thesis by (simp add: write_frame_def validate_frame_size_def)
  qed
next
  let ?len = "unat (from_be_bytes (take 4 stream))"
  consider "length stream < 4" | "4 \<le> length stream" "MAX_FRAME_SIZE < ?len"
    | "4 \<le> length stream" "?len \<le> MAX_FRAME_SIZE" "length stream < 4 + ?len"
    | "4 \<le> length stream" "?len \<le> MAX_FRAME_SIZE" "4 + ?len \<le> length stream" by linarith
  then show "case read_frame stream of
        Inr (d, stream') \<Rightarrow> length d \<le> MAX_FRAME_SIZE \<and> (\<exists>h. length h = HEADER_SIZE \<and> stream = h @ d @ stream')
      | Inl InvalidData \<Rightarrow> MAX_FRAME_SIZE < unat (from_be_bytes (take 4 stream))
      | Inl UnexpectedEof \<Rightarrow> length stream < HEADER_SIZE + (if length stream < 4 then 0 else unat (from_be_bytes (take 4 stream)))"
  proof cases
    case 4
    have "stream = take 4 stream @ take ?len (drop 4 stream) @ drop ?len (drop 4 stream)"
      by (simp only: append_take_drop_id)
    with 4 show ?thesis
      by (auto simp: read_frame_def read_exact_def HEADER_SIZE_def Let_def intro!: exI [of _ "take 4 stream"])
  qed (auto simp: read_frame_def read_exact_def HEADER_SIZE_def Let_def)
qed

text \<open>
  An encrypted payload decrypts to itself under the same key, and is longer by nonce and tag; data too short to
  hold both is refused before the cipher sees it.
\<close>

theorem encryption_roundtrip:
  assumes "aead_laws enc dec" and "length nonce = NONCE_SIZE" and "encrypt_frame enc nonce payload key = Inr data"
  shows "decrypt_frame dec data key = Inr payload \<and> length data = length payload + 28
    \<and> (\<forall>n < 28. \<exists>e. decrypt_frame dec (take n data) key = Inl e)"
proof -
  from assms(3) obtain c where c: "enc key nonce payload = Some c" "data = nonce @ c"
    by (auto simp: encrypt_frame_def split: option.splits)
  with assms(1) have "dec key nonce c = Some payload" "length c = length payload + TAG_SIZE"
    by (auto simp: aead_laws_def)
  with c assms(2) show ?thesis
    by (auto simp: decrypt_frame_def NONCE_SIZE_def TAG_SIZE_def)
qed

definition toy_enc :: "bytes \<Rightarrow> bytes \<Rightarrow> bytes \<Rightarrow> bytes option" where
  "toy_enc k n p = Some (map (\<lambda>b. b + sum_list (k @ n)) p @ replicate TAG_SIZE (sum_list (k @ n @ p)))"

definition toy_dec :: "bytes \<Rightarrow> bytes \<Rightarrow> bytes \<Rightarrow> bytes option" where
  "toy_dec k n c =
     (let p = map (\<lambda>b. b - sum_list (k @ n)) (take (length c - TAG_SIZE) c) in
      if drop (length c - TAG_SIZE) c = replicate TAG_SIZE (sum_list (k @ n @ p)) then Some p else None)"

lemma toy_laws: "aead_laws toy_enc toy_dec"
  by (simp add: aead_laws_def toy_enc_def toy_dec_def Let_def comp_def)

lemma encryption_roundtrip_witness:
  "\<exists>data. encrypt_frame toy_enc (replicate 12 7) [1, 2, 3] [5] = Inr data \<and> decrypt_frame toy_dec data [5] = Inr [1, 2, 3]"
proof -
  obtain data where d: "encrypt_frame toy_enc (replicate 12 7) [1, 2, 3] [5] = Inr data"
    by (simp add: encrypt_frame_def toy_enc_def)
  from encryption_roundtrip [OF toy_laws _ d] show ?thesis using d by (simp add: NONCE_SIZE_def)
qed

end
