(* ===== verification/Unicode_Text.thy ===== *)
theory Unicode_Text
  imports Rust_Str "HOL-Library.Code_Target_Nat"
begin

text \<open>
  Text with characters beyond U+00FF, as the conversation with a model has it: a list of Unicode code points.
  Literals are ASCII pieces (\<open>of_str\<close>) and lists of code points.
\<close>

type_synonym utext = "nat list"

definition of_str :: "string \<Rightarrow> utext" where
  "of_str s = map of_char s"

lemma length_of_str [simp]: "length (of_str s) = length s"
  by (simp add: of_str_def)

lemma of_str_append: "of_str (s @ t) = of_str s @ of_str t"
  by (simp add: of_str_def)

lemma of_str_eq_iff [simp]: "of_str s = of_str t \<longleftrightarrow> s = t"
  unfolding of_str_def by (rule inj_map_eq_map) (simp add: inj_on_def)

definition text_starts_with :: "utext \<Rightarrow> utext \<Rightarrow> bool" where
  "text_starts_with t p \<longleftrightarrow> take (length p) t = p"

lemma text_starts_with_append [simp]: "text_starts_with (p @ t) p"
  by (simp add: text_starts_with_def)

text \<open>A number in decimal, and a bound on its length.\<close>

definition of_nat_text :: "nat \<Rightarrow> utext" where
  "of_nat_text n = of_str (decimal n)"

lemma length_decimal_le: "n < 10 ^ Suc k \<Longrightarrow> length (decimal n) \<le> Suc k"
proof (induction k arbitrary: n)
  case 0
  then show ?case by (simp add: decimal_small)
next
  case (Suc k)
  show ?case
  proof (cases "n < 10")
    case True
    then show ?thesis by (simp add: decimal_small)
  next
    case False
    moreover from Suc.prems have "n div 10 < 10 ^ Suc k"
      by (simp add: less_mult_imp_div_less)
    ultimately show ?thesis using Suc.IH [of "n div 10"] by (simp add: decimal_step)
  qed
qed

lemma length_decimal_ge: "10 ^ k \<le> n \<Longrightarrow> Suc k \<le> length (decimal n)"
proof (induction k arbitrary: n)
  case 0
  then show ?case by (cases "n < 10") (simp_all add: decimal_small decimal_step)
next
  case (Suc k)
  then have "10 ^ k \<le> n div 10" by (simp add: less_eq_div_iff_mult_less_eq)
  moreover have "10 \<le> n"
    using Suc.prems by (metis One_nat_def le_trans one_le_numeral one_le_power power_Suc
        mult_le_mono2 nat_mult_1_right)
  ultimately show ?case using Suc.IH [of "n div 10"] by (simp add: decimal_step)
qed

section \<open>White space, lines, bytes\<close>

definition is_white :: "nat \<Rightarrow> bool" where
  "is_white c \<longleftrightarrow> 9 \<le> c \<and> c \<le> 13 \<or> 8192 \<le> c \<and> c \<le> 8202
     \<or> c \<in> {32, 133, 160, 5760, 8232, 8233, 8239, 8287, 12288}"

definition text_trim :: "utext \<Rightarrow> utext" where
  "text_trim s = rev (dropWhile is_white (rev (dropWhile is_white s)))"

definition text_contains :: "utext \<Rightarrow> utext \<Rightarrow> bool" where
  "text_contains s p \<longleftrightarrow> list_ex (\<lambda>i. text_starts_with (drop i s) p) [0..<Suc (length s)]"

definition utf8_size :: "utext \<Rightarrow> nat" where
  "utf8_size s =
     sum_list (map (\<lambda>c. if c < 128 then 1 else if c < 2048 then 2 else if c < 65536 then 3 else 4) s)"

text \<open>\<open>BufRead::lines\<close>: pieces that end with a line feed, and what follows the last one if it is not empty.
  (The carriage return it strips is white space, which every caller trims.)\<close>

fun text_lines :: "utext \<Rightarrow> utext list" where
  "text_lines [] = []"
| "text_lines (c # s) =
     (if c = 10 then [] # text_lines s
      else case text_lines s of [] \<Rightarrow> [[c]] | l # ls \<Rightarrow> (c # l) # ls)"

lemma text_lines_line: "10 \<notin> set l \<Longrightarrow> text_lines (l @ 10 # s) = l # text_lines s"
  by (induction l) auto

lemma text_lines_last: "10 \<notin> set l \<Longrightarrow> l \<noteq> [] \<Longrightarrow> text_lines l = [l]"
proof (induction l)
  case (Cons c l)
  then show ?case by (cases "l = []") auto
qed simp

lemma text_trim_id: "s = [] \<or> \<not> is_white (hd s) \<and> \<not> is_white (last s) \<Longrightarrow> text_trim s = s"
  by (cases s) (auto simp: text_trim_def dropWhile_eq_self_iff hd_rev split: if_splits)

lemma text_trim_prefix:
  assumes "\<not> is_white (hd s)" "s \<noteq> []"
  shows "\<exists>m \<le> length s. text_trim s = take m s"
proof -
  have front: "dropWhile is_white s = s" using assms by (simp add: dropWhile_eq_self_iff)
  let ?t = "rev (dropWhile is_white (rev s))"
  have "s = ?t @ rev (takeWhile is_white (rev s))"
    by (metis rev_append rev_rev_ident takeWhile_dropWhile_id)
  then have "?t = take (length ?t) s" and "length ?t \<le> length s"
    by (metis append_eq_conv_conj, metis length_append le_add1)
  moreover have "text_trim s = ?t" using front by (simp add: text_trim_def)
  ultimately show ?thesis by metis
qed

lemma text_contains_iff: "text_contains s p \<longleftrightarrow> (\<exists>u v. s = u @ p @ v)"
proof
  assume "text_contains s p"
  then obtain i where "take (length p) (drop i s) = p"
    by (auto simp: text_contains_def text_starts_with_def list_ex_iff)
  then have "s = take i s @ p @ drop (length p) (drop i s)" by (metis append_take_drop_id)
  then show "\<exists>u v. s = u @ p @ v" by blast
next
  assume "\<exists>u v. s = u @ p @ v"
  then obtain u v where "s = u @ p @ v" by blast
  then show "text_contains s p"
    unfolding text_contains_def list_ex_iff by (intro bexI [of _ "length u"]) auto
qed

section \<open>Words, and Unicode's tables\<close>

text \<open>Words of a text, joined by single blanks.\<close>

fun text_words :: "utext \<Rightarrow> utext list" where
  "text_words [] = []"
| "text_words (c # s) =
     (if is_white c then text_words s
      else if s = [] \<or> is_white (hd s) then [c] # text_words s
      else case text_words s of w # ws \<Rightarrow> (c # w) # ws | [] \<Rightarrow> [[c]])"

fun join_words :: "utext list \<Rightarrow> utext" where
  "join_words [] = []"
| "join_words [w] = w"
| "join_words (w # ws) = w @ 32 # join_words ws"

text \<open>What the standard library takes from Unicode's tables: lower case, letters and digits.\<close>

record unicode =
  uni_lower :: "utext \<Rightarrow> utext"
  uni_alnum :: "nat \<Rightarrow> bool"

end
