(* ===== verification/Tool_Pairs.thy ===== *)
theory Tool_Pairs
  imports Unicode_Text
begin

text \<open>
  Tool calls and their results in a conversation (\<open>crates/nemesis-agent/src/types.rs\<close>): a provider rejects a
  request in which a call has no result, a result has no call, or a call has two results.
  \<open>repair_tool_message_pairs\<close> puts the outgoing copy of the history in order in three passes. The index
  arithmetic of the passes (indices collected on one list and applied back to front) is written out and then
  proved equal to plain recursions.
\<close>

record tool_call =
  call_id :: string
  call_name :: string
  call_arguments :: string

record turn =
  role :: string
  content :: utext
  tool_calls :: "tool_call list"
  tool_call_id :: "string option"
  timestamp :: string
  reasoning_content :: "utext option"
  tool_name :: "utext option"
  tool_result_projection :: "utext option"
  image_refs :: "string list"

definition tool_outcome_unknown :: string where
  "tool_outcome_unknown = ''TOOL_OUTCOME_UNKNOWN''"

definition tool_outcome_unknown_text :: utext where
  "tool_outcome_unknown_text =
     [35813, 24037, 20855, 35843, 29992, 27809, 26377, 35760, 24405, 21040, 32467, 26524, 65292, 20854, 25191,
     34892, 32467, 26524, 26410, 30693, 12290, 35831, 26681, 25454, 25805, 20316, 24615, 36136, 20915, 23450,
     65306, 20165, 22312, 25805, 20316, 26159, 21482, 35835, 25110, 24130, 31561, 26102, 21487, 20197, 30452,
     25509, 37325, 35797, 65307, 33509, 21487, 33021, 26377, 21103, 20316, 29992, 65288, 20889, 25991, 20214,
     12289, 25191, 34892, 21629, 20196, 12289, 21457, 36865, 28040, 24687, 31561, 65289, 65292, 35831, 20808,
     39564, 35777, 22806, 37096, 29366, 24577, 65288, 35835, 22238, 25991, 20214] @ of_str '' / '' @ [26816,
     26597, 36755, 20986, 65289, 25110, 35810, 38382, 29992, 25143, 65292, 19981, 35201, 30450, 30446, 37325,
     35797, 12290]"

section \<open>Positions\<close>

definition remove_at :: "nat \<Rightarrow> 'a list \<Rightarrow> 'a list" where
  "remove_at i xs = take i xs @ drop (Suc i) xs"

definition insert_at :: "nat \<times> 'a \<Rightarrow> 'a list \<Rightarrow> 'a list" where
  "insert_at ix xs = take (fst ix) xs @ snd ix # drop (fst ix) xs"

lemma remove_at_length [simp]: "remove_at (length xs) (xs @ y # ys) = xs @ ys"
  by (simp add: remove_at_def)

lemma insert_at_length [simp]: "insert_at (length xs, y) (xs @ ys) = xs @ y # ys"
  by (simp add: insert_at_def)

section \<open>The three passes\<close>

definition is_tool :: "turn \<Rightarrow> bool" where
  "is_tool m \<longleftrightarrow> role m = ''tool''"

text \<open>Pass 0: from the back, a result whose call id was already seen is marked; then the marked go.\<close>

fun duplicate_scan :: "string list \<Rightarrow> (nat \<times> turn) list \<Rightarrow> nat list" where
  "duplicate_scan seen [] = []"
| "duplicate_scan seen ((i, m) # ms) =
     (case (is_tool m, tool_call_id m) of
        (True, Some k) \<Rightarrow> if k \<in> set seen then i # duplicate_scan seen ms else duplicate_scan (k # seen) ms
      | _ \<Rightarrow> duplicate_scan seen ms)"

definition drop_duplicates :: "turn list \<Rightarrow> turn list" where
  "drop_duplicates ms = fold remove_at (duplicate_scan [] (rev (enumerate 0 ms))) ms"

text \<open>Pass 1: a result stays if an assistant turn before it made the call.\<close>

fun drop_orphans :: "string list \<Rightarrow> turn list \<Rightarrow> turn list" where
  "drop_orphans seen [] = []"
| "drop_orphans seen (m # ms) =
     (let keep = (if is_tool m then (case tool_call_id m of Some k \<Rightarrow> k \<in> set seen | None \<Rightarrow> False) else True);
          seen' = (if role m = ''assistant'' then map call_id (tool_calls m) @ seen else seen)
      in if keep then m # drop_orphans seen' ms else drop_orphans seen' ms)"

text \<open>Pass 2: a call without a result after it gets a synthetic one, right after its turn.\<close>

definition synthetic_result :: "turn \<Rightarrow> tool_call \<Rightarrow> turn" where
  "synthetic_result m c =
     \<lparr>role = ''tool'', content = of_str (''['' @ tool_outcome_unknown @ ''] '') @ tool_outcome_unknown_text,
      tool_calls = [], tool_call_id = Some (call_id c), timestamp = timestamp m, reasoning_content = None,
      tool_name = Some (of_str (call_name c)), tool_result_projection = None, image_refs = []\<rparr>"

definition found_ids :: "string list \<Rightarrow> turn list \<Rightarrow> string list" where
  "found_ids ids later =
     remdups [k. m \<leftarrow> later, is_tool m, k \<leftarrow> (case tool_call_id m of Some k \<Rightarrow> [k] | None \<Rightarrow> []), k \<in> set ids]"

definition insertions_for :: "turn list \<Rightarrow> nat \<Rightarrow> (nat \<times> turn) list" where
  "insertions_for ms i =
     (let m = ms ! i in
      if role m = ''assistant'' \<and> tool_calls m \<noteq> [] then
        (let ids = map call_id (tool_calls m); found = found_ids ids (drop (i + 1) ms)
         in if length found < length ids then
              map (\<lambda>c. (i + 1, synthetic_result m c)) (filter (\<lambda>c. call_id c \<notin> set found) (tool_calls m))
            else [])
      else [])"

definition answer_missing :: "turn list \<Rightarrow> turn list" where
  "answer_missing ms = fold insert_at (rev (concat (map (insertions_for ms) [0..<length ms]))) ms"

definition repair_tool_message_pairs :: "turn list \<Rightarrow> turn list" where
  "repair_tool_message_pairs ms =
     (if ms = [] then [] else answer_missing (drop_orphans [] (drop_duplicates ms)))"

section \<open>What a provider accepts\<close>

definition result_id :: "turn \<Rightarrow> string option" where
  "result_id m = (if is_tool m then tool_call_id m else None)"

definition result_ids :: "turn list \<Rightarrow> string list" where
  "result_ids ms = List.map_filter result_id ms"

definition calls_of :: "turn \<Rightarrow> tool_call list" where
  "calls_of m = (if role m = ''assistant'' then tool_calls m else [])"

definition call_ids :: "turn list \<Rightarrow> string list" where
  "call_ids ms = concat (map (\<lambda>m. map call_id (calls_of m)) ms)"

fun results_follow_calls :: "string list \<Rightarrow> turn list \<Rightarrow> bool" where
  "results_follow_calls seen [] = True"
| "results_follow_calls seen (m # ms) \<longleftrightarrow>
     (is_tool m \<longrightarrow> (\<exists>k \<in> set seen. tool_call_id m = Some k))
     \<and> results_follow_calls (map call_id (calls_of m) @ seen) ms"

fun calls_answered :: "turn list \<Rightarrow> bool" where
  "calls_answered [] = True"
| "calls_answered (m # ms) \<longleftrightarrow> set (map call_id (calls_of m)) \<subseteq> set (result_ids ms) \<and> calls_answered ms"

definition well_paired :: "turn list \<Rightarrow> bool" where
  "well_paired ms \<longleftrightarrow> distinct (result_ids ms) \<and> results_follow_calls [] ms \<and> calls_answered ms"

lemma result_ids_simps [simp]:
  "result_ids [] = []"
  "result_ids (m # ms) = (case result_id m of Some k \<Rightarrow> k # result_ids ms | None \<Rightarrow> result_ids ms)"
  by (simp_all add: result_ids_def List.map_filter_simps split: option.splits)

lemma result_ids_append [simp]: "result_ids (xs @ ys) = result_ids xs @ result_ids ys"
  by (induction xs) (auto split: option.splits)

lemma set_result_ids: "set (result_ids ms) = {k. \<exists>m \<in> set ms. result_id m = Some k}"
  by (induction ms) (auto split: option.splits)

lemma call_ids_simps [simp]:
  "call_ids [] = []"
  "call_ids (m # ms) = map call_id (calls_of m) @ call_ids ms"
  by (simp_all add: call_ids_def)

lemma call_ids_append [simp]: "call_ids (xs @ ys) = call_ids xs @ call_ids ys"
  by (simp add: call_ids_def)

lemma tool_has_no_calls [simp]: "is_tool m \<Longrightarrow> calls_of m = []"
  by (simp add: is_tool_def calls_of_def)

lemma result_id_Some: "result_id m = Some k \<longleftrightarrow> is_tool m \<and> tool_call_id m = Some k"
  by (simp add: result_id_def)

section \<open>The passes as recursions\<close>

fun keep_rev :: "string list \<Rightarrow> turn list \<Rightarrow> turn list" where
  "keep_rev seen [] = []"
| "keep_rev seen (m # ms) =
     (case result_id m of
        Some k \<Rightarrow> if k \<in> set seen then keep_rev seen ms else m # keep_rev (k # seen) ms
      | None \<Rightarrow> m # keep_rev seen ms)"

lemma drop_duplicates_scan:
  "fold remove_at (duplicate_scan seen (rev (enumerate 0 ms))) (ms @ zs) = rev (keep_rev seen (rev ms)) @ zs"
proof (induction ms arbitrary: seen zs rule: rev_induct)
  case Nil
  then show ?case by simp
next
  case (snoc m ms)
  have e: "rev (enumerate 0 (ms @ [m])) = (length ms, m) # rev (enumerate 0 ms)"
    by (simp add: enumerate_append_eq)
  show ?case
    using snoc.IH [of _ "m # zs"] snoc.IH [of _ zs]
    by (auto simp: e result_id_def split: option.splits bool.splits)
qed

lemma drop_duplicates_rec: "drop_duplicates ms = rev (keep_rev [] (rev ms))"
  using drop_duplicates_scan [of "[]" ms "[]"] by (simp add: drop_duplicates_def)

definition missing_calls :: "turn \<Rightarrow> turn list \<Rightarrow> tool_call list" where
  "missing_calls m later = filter (\<lambda>c. call_id c \<notin> set (result_ids later)) (calls_of m)"

fun answer_all :: "turn list \<Rightarrow> turn list" where
  "answer_all [] = []"
| "answer_all (m # ms) = m # map (synthetic_result m) (missing_calls m ms) @ answer_all ms"

lemma set_found_ids: "set (found_ids ids later) = set ids \<inter> set (result_ids later)"
  by (auto simp: found_ids_def set_result_ids result_id_def split: option.splits)

lemma insertions_for_nth:
  assumes "i < length ms"
  shows "insertions_for ms i
    = map (\<lambda>c. (i + 1, synthetic_result (ms ! i) c)) (missing_calls (ms ! i) (drop (i + 1) ms))"
proof -
  let ?ids = "map call_id (tool_calls (ms ! i))" and ?later = "drop (i + 1) ms"
  let ?found = "found_ids ?ids ?later"
  have same: "filter (\<lambda>c. call_id c \<notin> set ?found) (tool_calls (ms ! i))
      = filter (\<lambda>c. call_id c \<notin> set (result_ids ?later)) (tool_calls (ms ! i))"
    by (rule filter_cong) (auto simp: set_found_ids)
  have none: "filter (\<lambda>c. call_id c \<notin> set (result_ids ?later)) (tool_calls (ms ! i)) = []"
    if "\<not> length ?found < length ?ids"
  proof -
    have "distinct ?found" by (simp add: found_ids_def)
    then have "length ?ids \<le> card (set ?found)" using that by (simp add: distinct_card)
    moreover have "set ?found \<subseteq> set ?ids" by (simp add: set_found_ids)
    ultimately have "set ?found = set ?ids"
      by (meson List.finite_set card_length card_seteq le_trans)
    then show ?thesis by (auto simp: set_found_ids filter_empty_conv)
  qed
  show ?thesis
    using none by (auto simp: insertions_for_def missing_calls_def calls_of_def Let_def same [simplified])
qed

text \<open>Insertions collected on the original list and applied back to front weave the new elements in.\<close>

fun weave :: "('a \<Rightarrow> 'a list \<Rightarrow> 'a list) \<Rightarrow> 'a list \<Rightarrow> 'a list" where
  "weave new [] = []"
| "weave new (m # ms) = m # new m ms @ weave new ms"

lemma insert_front:
  "fold insert_at (rev (map (\<lambda>x. (length ys, x)) zs)) (ys @ us) = ys @ zs @ us"
  by (induction zs arbitrary: us rule: rev_induct) simp_all

lemma weave_insertions:
  assumes "\<And>ys m zs. all = ys @ m # zs \<Longrightarrow> ins (length ys) = map (\<lambda>x. (Suc (length ys), x)) (new m zs)"
    and "all = xs @ ms"
  shows "fold insert_at (rev (concat (map ins [length xs..<length all]))) all = xs @ weave new ms"
  using assms(2)
proof (induction ms arbitrary: xs)
  case Nil
  then show ?case by simp
next
  case (Cons m ms)
  have range: "[length xs..<length all] = length xs # [length (xs @ [m])..<length all]"
    using Cons.prems by (simp add: upt_conv_Cons del: upt_Suc)
  have ins: "ins (length xs) = map (\<lambda>x. (length (xs @ [m]), x)) (new m ms)"
    using assms(1) [OF Cons.prems] by simp
  have "fold insert_at (rev (concat (map ins [length xs..<length all]))) all
      = fold insert_at (rev (ins (length xs))) (fold insert_at (rev (concat (map ins [length (xs @ [m])..<length all]))) all)"
    unfolding range by simp
  also have "\<dots> = fold insert_at (rev (ins (length xs))) ((xs @ [m]) @ weave new ms)"
    using Cons.IH [of "xs @ [m]"] Cons.prems by simp
  also have "\<dots> = (xs @ [m]) @ new m ms @ weave new ms"
    unfolding ins by (rule insert_front)
  finally show ?case by simp
qed

lemma answer_all_weave: "answer_all ms = weave (\<lambda>m later. map (synthetic_result m) (missing_calls m later)) ms"
  by (induction ms) simp_all

lemma answer_missing_rec: "answer_missing ms = answer_all ms"
  unfolding answer_missing_def answer_all_weave
  by (rule weave_insertions [where xs = "[]", simplified]) (simp_all add: insertions_for_nth comp_def)

lemma repair_rec:
  "repair_tool_message_pairs ms = answer_all (drop_orphans [] (rev (keep_rev [] (rev ms))))"
  by (simp add: repair_tool_message_pairs_def answer_missing_rec drop_duplicates_rec)

lemma repair_passes: "repair_tool_message_pairs ms = answer_all (drop_orphans [] (drop_duplicates ms))"
  by (simp add: repair_rec drop_duplicates_rec)

section \<open>What each pass keeps and establishes\<close>

lemma tool_role_calls: "result_id m = Some k \<Longrightarrow> calls_of m = []"
  by (simp add: result_id_Some)

lemma keep_rev_ids:
  "distinct (result_ids (keep_rev seen ms)) \<and> set (result_ids (keep_rev seen ms)) = set (result_ids ms) - set seen"
  by (induction seen ms rule: keep_rev.induct) (auto split: option.splits)

lemma keep_rev_others: "filter (\<lambda>m. \<not> is_tool m) (keep_rev seen ms) = filter (\<lambda>m. \<not> is_tool m) ms"
  by (induction seen ms rule: keep_rev.induct) (auto simp: result_id_Some split: option.splits)

lemma keep_rev_call_ids: "set (call_ids (keep_rev seen ms)) = set (call_ids ms)"
  by (induction seen ms rule: keep_rev.induct) (auto simp: tool_role_calls split: option.splits)

lemma keep_rev_subseq: "subseq (keep_rev seen ms) ms"
  by (induction seen ms rule: keep_rev.induct) (auto split: option.splits)

lemma result_ids_rev [simp]: "result_ids (rev ms) = rev (result_ids ms)"
  by (induction ms) (auto split: option.splits)

lemma filter_others_calls: "call_ids (filter (\<lambda>m. \<not> is_tool m) ms) = call_ids ms"
  by (induction ms) auto

lemma drop_duplicates_calls: "call_ids (drop_duplicates ms) = call_ids ms"
  by (metis drop_duplicates_rec filter_others_calls keep_rev_others rev_filter rev_rev_ident)

lemma drop_duplicates_ids:
  "distinct (result_ids (drop_duplicates ms)) \<and> set (result_ids (drop_duplicates ms)) = set (result_ids ms)"
  using keep_rev_ids [of "[]" "rev ms"] by (simp add: drop_duplicates_rec)

lemma drop_orphans_Cons:
  "drop_orphans seen (m # ms) =
     (let rest = drop_orphans (map call_id (calls_of m) @ seen) ms
      in if is_tool m \<longrightarrow> (\<exists>k \<in> set seen. tool_call_id m = Some k) then m # rest else rest)"
  by (auto simp: calls_of_def is_tool_def Let_def split: option.splits)

declare drop_orphans.simps(2) [simp del]

lemma drop_orphans_others:
  "filter (\<lambda>m. \<not> is_tool m) (drop_orphans seen ms) = filter (\<lambda>m. \<not> is_tool m) ms"
  by (induction ms arbitrary: seen) (auto simp: drop_orphans_Cons Let_def)

lemma drop_orphans_calls: "call_ids (drop_orphans seen ms) = call_ids ms"
  by (metis drop_orphans_others filter_others_calls)

lemma drop_orphans_subseq: "subseq (drop_orphans seen ms) ms"
  by (induction ms arbitrary: seen) (auto simp: drop_orphans_Cons Let_def)

lemma subseq_set: "subseq xs ys \<Longrightarrow> set xs \<subseteq> set ys"
  by (induction rule: list_emb.induct) auto

lemma subseq_distinct: "subseq xs ys \<Longrightarrow> distinct ys \<Longrightarrow> distinct xs"
  by (induction rule: list_emb.induct) (auto dest!: subseq_set)

lemma subseq_result_ids: "subseq xs ys \<Longrightarrow> subseq (result_ids xs) (result_ids ys)"
  by (induction rule: list_emb.induct) (auto split: option.splits)

lemma drop_orphans_follow: "results_follow_calls seen (drop_orphans seen ms)"
proof (induction ms arbitrary: seen)
  case (Cons m ms)
  have "calls_of m = []" if "is_tool m" using that by simp
  with Cons [of "map call_id (calls_of m) @ seen"] show ?case
    by (cases "is_tool m") (auto simp: drop_orphans_Cons Let_def)
qed simp

lemma drop_orphans_id: "results_follow_calls seen ms \<Longrightarrow> drop_orphans seen ms = ms"
  by (induction ms arbitrary: seen) (auto simp: drop_orphans_Cons Let_def)

lemma synthetic_simps [simp]:
  "is_tool (synthetic_result m c)" "result_id (synthetic_result m c) = Some (call_id c)"
  "tool_call_id (synthetic_result m c) = Some (call_id c)" "calls_of (synthetic_result m c) = []"
  by (simp_all add: synthetic_result_def is_tool_def result_id_def calls_of_def)

lemma result_ids_synthetic [simp]: "result_ids (map (synthetic_result m) cs) = map call_id cs"
  by (induction cs) auto

lemma call_ids_synthetic [simp]: "call_ids (map (synthetic_result m) cs) = []"
  by (induction cs) auto

lemma answer_all_calls [simp]: "call_ids (answer_all ms) = call_ids ms"
  by (induction ms) auto

lemma answer_all_others: "filter (\<lambda>m. \<not> is_tool m) (answer_all ms) = filter (\<lambda>m. \<not> is_tool m) ms"
  by (induction ms) (auto simp: filter_empty_conv)

lemma answer_all_ids: "set (result_ids (answer_all ms)) = set (result_ids ms) \<union> set (call_ids ms)"
  by (induction ms) (auto simp: missing_calls_def split: option.splits)

lemma answer_all_answered: "calls_answered (answer_all ms)"
proof (induction ms)
  case (Cons m ms)
  have tail: "calls_answered (map (synthetic_result m) cs @ xs)" if "calls_answered xs" for cs xs
    using that by (induction cs) auto
  from Cons show ?case by (auto simp: answer_all_ids missing_calls_def intro: tail)
qed simp

lemma results_follow_synthetic:
  "set (map call_id cs) \<subseteq> set seen \<Longrightarrow> results_follow_calls seen xs
    \<Longrightarrow> results_follow_calls seen (map (synthetic_result m) cs @ xs)"
  by (induction cs) auto

lemma answer_all_follow: "results_follow_calls seen ms \<Longrightarrow> results_follow_calls seen (answer_all ms)"
  by (induction seen ms rule: results_follow_calls.induct)
    (auto simp: missing_calls_def intro!: results_follow_synthetic)

lemma answer_all_id: "calls_answered ms \<Longrightarrow> answer_all ms = ms"
  by (induction ms) (auto simp: missing_calls_def filter_empty_conv)

lemma answer_all_distinct:
  "distinct (result_ids ms) \<Longrightarrow> results_follow_calls seen ms \<Longrightarrow> distinct (call_ids ms) \<Longrightarrow>
    set seen \<inter> set (call_ids ms) = {} \<Longrightarrow> distinct (result_ids (answer_all ms))"
proof (induction ms arbitrary: seen)
  case (Cons m ms)
  let ?new = "missing_calls m ms"
  have ih: "distinct (result_ids (answer_all ms))"
    using Cons.prems by (intro Cons.IH [of "map call_id (calls_of m) @ seen"]) (auto split: option.splits)
  have new: "distinct (map call_id ?new)" "set (map call_id ?new) \<inter> set (result_ids (answer_all ms)) = {}"
    using Cons.prems by (auto simp: missing_calls_def answer_all_ids distinct_map_filter)
  show ?case
  proof (cases "result_id m")
    case None
    with ih new show ?thesis by auto
  next
    case (Some k)
    with Cons.prems have "k \<in> set seen" "k \<notin> set (result_ids ms)" by (auto simp: result_id_Some)
    moreover from Some have "?new = []" by (simp add: missing_calls_def tool_role_calls)
    ultimately show ?thesis using Some ih Cons.prems(4) by (auto simp: answer_all_ids)
  qed
qed simp

section \<open>Properties of the repair\<close>

lemma repair_others: "filter (\<lambda>m. \<not> is_tool m) (repair_tool_message_pairs ms) = filter (\<lambda>m. \<not> is_tool m) ms"
proof -
  have "filter (\<lambda>m. \<not> is_tool m) (drop_duplicates ms) = filter (\<lambda>m. \<not> is_tool m) ms"
    by (metis drop_duplicates_rec keep_rev_others rev_filter rev_rev_ident)
  then show ?thesis
    by (simp add: repair_rec answer_all_others drop_orphans_others drop_duplicates_rec)
qed

lemma repair_calls: "call_ids (repair_tool_message_pairs ms) = call_ids ms"
  by (metis filter_others_calls repair_others)

lemma repair_distinct:
  assumes "distinct (call_ids ms)"
  shows "distinct (result_ids (repair_tool_message_pairs ms))"
proof -
  let ?d = "drop_orphans [] (drop_duplicates ms)"
  have "distinct (result_ids ?d)"
    using subseq_result_ids [OF drop_orphans_subseq] drop_duplicates_ids subseq_distinct by blast
  moreover have "distinct (call_ids ?d)"
    using assms by (simp add: drop_orphans_calls drop_duplicates_calls)
  ultimately show ?thesis
    using answer_all_distinct [OF _ drop_orphans_follow, of "[]" "drop_duplicates ms"]
    by (simp add: repair_rec drop_duplicates_rec)
qed

lemma well_paired_fixed: "well_paired ms \<Longrightarrow> repair_tool_message_pairs ms = ms"
proof -
  assume w: "well_paired ms"
  have "keep_rev seen xs = xs" if "distinct (result_ids xs)" "set (result_ids xs) \<inter> set seen = {}" for seen xs
    using that by (induction seen xs rule: keep_rev.induct) (auto split: option.splits)
  then have "rev (keep_rev [] (rev ms)) = ms"
    using w by (simp add: well_paired_def)
  with w show ?thesis
    by (simp add: repair_rec drop_orphans_id answer_all_id well_paired_def)
qed

lemma keep_rev_append:
  "keep_rev seen (us @ ws) = keep_rev seen us @ keep_rev (rev (result_ids (keep_rev seen us)) @ seen) ws"
  by (induction seen us rule: keep_rev.induct) (auto split: option.splits)

lemma drop_duplicates_keeps_last:
  assumes "result_id m = Some k" "k \<notin> set (result_ids ys)"
  shows "\<exists>us ws. drop_duplicates (xs @ m # ys) = us @ m # ws \<and> call_ids us = call_ids xs"
proof -
  let ?seen = "rev (result_ids (keep_rev [] (rev ys)))"
  have "k \<notin> set ?seen" using assms(2) keep_rev_ids [of "[]" "rev ys"] by auto
  then have "drop_duplicates (xs @ m # ys) = rev (keep_rev (k # ?seen) (rev xs)) @ m # rev (keep_rev [] (rev ys))"
    using assms(1) by (simp add: drop_duplicates_rec keep_rev_append)
  moreover have "call_ids (rev (keep_rev s (rev xs))) = call_ids xs" for s
    by (metis filter_others_calls keep_rev_others rev_filter rev_rev_ident)
  ultimately show ?thesis by blast
qed

lemma drop_orphans_keeps:
  "result_id m = Some k \<Longrightarrow> k \<in> set (call_ids us) \<union> set seen \<Longrightarrow> m \<in> set (drop_orphans seen (us @ m # ws))"
  by (induction us arbitrary: seen) (auto simp: drop_orphans_Cons Let_def result_id_Some)

lemma answer_all_keeps: "m \<in> set ms \<Longrightarrow> m \<in> set (answer_all ms)"
  by (induction ms) auto

lemma answer_all_from: "m \<in> set (answer_all ms) \<Longrightarrow> m \<in> set ms \<or> (\<exists>a c. a \<in> set ms \<and> m = synthetic_result a c)"
  by (induction ms) auto

lemma repair_keeps_last:
  assumes "result_id m = Some k" "k \<notin> set (result_ids ys)" "k \<in> set (call_ids xs)"
  shows "m \<in> set (repair_tool_message_pairs (xs @ m # ys))"
proof -
  obtain us ws where d: "drop_duplicates (xs @ m # ys) = us @ m # ws" "call_ids us = call_ids xs"
    using drop_duplicates_keeps_last [OF assms(1,2)] by blast
  with assms(1,3) have "m \<in> set (drop_orphans [] (drop_duplicates (xs @ m # ys)))"
    by (simp add: drop_orphans_keeps)
  then show ?thesis by (simp add: repair_passes answer_all_keeps)
qed

lemma repair_parts:
  assumes "r = repair_tool_message_pairs ms"
  shows "results_follow_calls [] r" and "calls_answered r"
    and "filter (\<lambda>m. role m \<noteq> ''tool'') r = filter (\<lambda>m. role m \<noteq> ''tool'') ms"
    and "\<forall>m \<in> set r. m \<in> set ms \<or> text_starts_with (content m) (of_str (''['' @ tool_outcome_unknown @ '']''))"
    and "distinct (call_ids ms) \<Longrightarrow> distinct (result_ids r) \<and> repair_tool_message_pairs r = r"
    and "\<forall>xs m ys k. ms = xs @ m # ys \<and> role m = ''tool'' \<and> tool_call_id m = Some k \<and> k \<in> set (call_ids xs)
          \<and> k \<notin> set (result_ids ys) \<longrightarrow> m \<in> set r"
proof -
  let ?d = "drop_orphans [] (drop_duplicates ms)"
  have r: "r = answer_all ?d" by (simp add: assms repair_passes)
  show follow: "results_follow_calls [] r" unfolding r by (rule answer_all_follow [OF drop_orphans_follow])
  show answered: "calls_answered r" unfolding r by (rule answer_all_answered)
  show "filter (\<lambda>m. role m \<noteq> ''tool'') r = filter (\<lambda>m. role m \<noteq> ''tool'') ms"
    using repair_others [of ms] by (simp add: assms is_tool_def)
  have sub: "set ?d \<subseteq> set ms"
  proof -
    have "set ?d \<subseteq> set (drop_duplicates ms)" by (rule subseq_set [OF drop_orphans_subseq])
    also have "\<dots> \<subseteq> set ms" using subseq_set [OF keep_rev_subseq, of "[]" "rev ms"] by (simp add: drop_duplicates_rec)
    finally show ?thesis .
  qed
  have unknown: "text_starts_with (content (synthetic_result a c)) (of_str (''['' @ tool_outcome_unknown @ '']''))" for a c
  proof -
    have "''['' @ tool_outcome_unknown @ ''] '' = (''['' @ tool_outcome_unknown @ '']'') @ '' ''" by simp
    then have "content (synthetic_result a c)
        = of_str (''['' @ tool_outcome_unknown @ '']'') @ of_str '' '' @ tool_outcome_unknown_text"
      unfolding synthetic_result_def by (simp only: turn.select_convs of_str_append append_assoc)
    then show ?thesis by (simp only: text_starts_with_append)
  qed
  show "\<forall>m \<in> set r. m \<in> set ms \<or> text_starts_with (content m) (of_str (''['' @ tool_outcome_unknown @ '']''))"
  proof
    fix m assume "m \<in> set r"
    then consider "m \<in> set ?d" | a c where "m = synthetic_result a c"
      unfolding r using answer_all_from by blast
    then show "m \<in> set ms \<or> text_starts_with (content m) (of_str (''['' @ tool_outcome_unknown @ '']''))"
      using sub unknown by cases blast+
  qed
  show "distinct (result_ids r) \<and> repair_tool_message_pairs r = r" if "distinct (call_ids ms)"
    using repair_distinct [OF that] follow answered well_paired_fixed [of r] by (simp add: assms well_paired_def)
  show "\<forall>xs m ys k. ms = xs @ m # ys \<and> role m = ''tool'' \<and> tool_call_id m = Some k \<and> k \<in> set (call_ids xs)
      \<and> k \<notin> set (result_ids ys) \<longrightarrow> m \<in> set r"
    unfolding assms by (auto simp: result_id_Some is_tool_def intro!: repair_keeps_last)
qed

text \<open>
  C15. The request a provider sees: whatever the history holds, after the repair every result stands after a
  turn that made its call and every call has a result after it, and all other turns are there, unchanged and
  in order. A result that is not the original one says that the outcome is unknown. When no call id is used
  twice, every result is the only one of its id, the last recorded answer of a call is the one that stays,
  and a second repair changes nothing.
\<close>

theorem repair_pairs:
  "let r = repair_tool_message_pairs ms
   in results_follow_calls [] r \<and> calls_answered r
    \<and> filter (\<lambda>m. role m \<noteq> ''tool'') r = filter (\<lambda>m. role m \<noteq> ''tool'') ms
    \<and> (\<forall>m \<in> set r. m \<in> set ms \<or> text_starts_with (content m) (of_str (''['' @ tool_outcome_unknown @ '']'')))
    \<and> (\<forall>xs m ys k. ms = xs @ m # ys \<and> role m = ''tool'' \<and> tool_call_id m = Some k \<and> k \<in> set (call_ids xs)
          \<and> k \<notin> set (result_ids ys) \<longrightarrow> m \<in> set r)
    \<and> (distinct (call_ids ms) \<longrightarrow> distinct (result_ids r) \<and> repair_tool_message_pairs r = r)"
  unfolding Let_def using repair_parts [OF refl, of ms] by (intro conjI impI) simp_all

definition sample_call :: "string \<Rightarrow> tool_call" where
  "sample_call k = \<lparr>call_id = k, call_name = ''exec'', call_arguments = ''{}''\<rparr>"

definition sample_turn :: "string \<Rightarrow> string list \<Rightarrow> string option \<Rightarrow> turn" where
  "sample_turn r ks k =
     \<lparr>role = r, content = [], tool_calls = map sample_call ks, tool_call_id = k, timestamp = [],
      reasoning_content = None, tool_name = None, tool_result_projection = None, image_refs = []\<rparr>"

definition sample_history :: "turn list" where
  "sample_history =
     [sample_turn ''user'' [] None, sample_turn ''tool'' [] (Some ''c9''),
      sample_turn ''assistant'' [''c1'', ''c2''] None, sample_turn ''tool'' [] (Some ''c1''),
      sample_turn ''tool'' [] (Some ''c1'')]"

lemma sample_history_ids: "distinct (call_ids sample_history)"
  by code_simp

theorem repair_pairs_witness:
  "(let r = repair_tool_message_pairs sample_history
    in map tool_call_id r = [None, None, Some ''c2'', Some ''c1''] \<and> calls_answered r
       \<and> distinct (result_ids r) \<and> repair_tool_message_pairs r = r)"
proof -
  have "map tool_call_id (repair_tool_message_pairs sample_history) = [None, None, Some ''c2'', Some ''c1'']"
    by code_simp
  then show ?thesis
    using repair_pairs [of sample_history] sample_history_ids by (simp add: Let_def)
qed

text \<open>
  The distinctness matters: a model that numbers its calls anew in every reply loses all but the last answer,
  and a turn that names the same id twice is given two results with that id.
\<close>

lemma reused_call_id_loses_answer:
  "map tool_call_id (repair_tool_message_pairs
     [sample_turn ''assistant'' [''c1''] None, sample_turn ''tool'' [] (Some ''c1''),
      sample_turn ''assistant'' [''c1''] None, sample_turn ''tool'' [] (Some ''c1'')])
   = [None, None, Some ''c1'']"
  by code_simp

lemma repeated_call_id_doubled:
  "result_ids (repair_tool_message_pairs [sample_turn ''assistant'' [''c1'', ''c1''] None]) = [''c1'', ''c1'']"
  by code_simp

end
