(* ===== verification/Tool_Prune.thy ===== *)
theory Tool_Prune
  imports Unicode_Text
begin

text \<open>
  Pruning of long tool results (\<open>crates/nemesis-agent/src/prune.rs\<close>): head, a marker that says what was left
  out, tail. Lengths count characters. The subtractions of \<open>prune_impl\<close> are on \<open>usize\<close> and would panic below
  zero; \<open>prune_parts_fit\<close> shows that both callers keep head and tail within the text.
\<close>

definition max_tool_result_inline_chars :: nat where
  "max_tool_result_inline_chars = 8192"

definition prune_head_chars :: nat where
  "prune_head_chars = 3600"

definition prune_tail_chars :: nat where
  "prune_tail_chars = 3600"

definition subagent_hint_suffix :: utext where
  "subagent_hint_suffix =
     [20063, 21487, 27966, 23376, 20195, 29702, 65288] @ of_str ''spawn '' @ [24037, 20855, 65289, 35835, 21462,
     35813, 20869, 23481, 24182, 21482, 22238, 20256, 30456, 20851, 25688, 35201, 65292, 36991, 20813, 20027,
     20250, 35805, 21344, 29992, 19978, 19979, 25991, 12290]"

text \<open>The marker: five pieces of text around the tool's name, the length and the number left out.\<close>

definition marker_start :: utext where
  "marker_start = [10] @ of_str ''['' @ [32467, 26524, 36807, 38271, 24050, 25130, 26029, 65306]"

definition marker_count :: utext where
  "marker_count = of_str '' '' @ [20849] @ of_str '' ''"

definition marker_omitted :: utext where
  "marker_omitted = of_str '' '' @ [23383, 31526, 65292, 20013, 38388, 30465, 30053, 32422] @ of_str '' ''"

definition marker_advice :: utext where
  "marker_advice =
     of_str '' '' @ [23383, 31526, 12290, 25130, 26029, 21518, 20869, 23481, 19981, 21487, 20174, 21382, 21490,
     24674, 22797, 65307, 22914, 38656, 23436, 25972, 36755, 20986, 35831, 32553, 23567, 33539, 22260, 37325,
     35797, 35813, 24037, 20855, 65288, 22914, 25351, 23450, 26356, 31934, 30830, 30340, 36335, 24452] @ of_str
     ''/'' @ [27169, 24335, 25110] @ of_str '' offset/limit'' @ [65289, 12290]"

definition marker_end :: utext where
  "marker_end = of_str '']'' @ [10] @ of_str ''...''"

definition prune_marker :: "utext \<Rightarrow> nat \<Rightarrow> nat \<Rightarrow> utext \<Rightarrow> utext" where
  "prune_marker tool total_chars omitted hint =
     marker_start @ tool @ marker_count @ of_nat_text total_chars @ marker_omitted @ of_nat_text omitted
     @ marker_advice @ hint @ marker_end"

definition prune_impl :: "utext \<Rightarrow> utext \<Rightarrow> bool \<Rightarrow> nat \<Rightarrow> nat \<Rightarrow> nat \<Rightarrow> utext option" where
  "prune_impl result tool hint_subagent threshold head_chars tail_chars =
     (let total_chars = length result in
      if total_chars \<le> threshold then None
      else
        (let omitted = total_chars - head_chars - tail_chars;
             hint = (if hint_subagent then subagent_hint_suffix else [])
         in Some (take head_chars result @ prune_marker tool total_chars omitted hint
                  @ drop (total_chars - tail_chars) result)))"

definition prune_tool_result :: "utext \<Rightarrow> utext \<Rightarrow> bool \<Rightarrow> utext option" where
  "prune_tool_result result tool hint_subagent =
     prune_impl result tool hint_subagent max_tool_result_inline_chars prune_head_chars prune_tail_chars"

definition cap_head_budget :: "nat \<Rightarrow> bool \<Rightarrow> nat" where
  "cap_head_budget cap hint_subagent =
     min ((cap - (256 + (if hint_subagent then length subagent_hint_suffix else 0))) div 2) prune_head_chars"

definition prune_tool_result_with_cap :: "utext \<Rightarrow> utext \<Rightarrow> bool \<Rightarrow> nat \<Rightarrow> utext option" where
  "prune_tool_result_with_cap result tool hint_subagent cap =
     (if cap = 0 then None
      else (let half = cap_head_budget cap hint_subagent in prune_impl result tool hint_subagent cap half half))"

definition cap_prune_matches_recompute :: "nat \<Rightarrow> nat \<Rightarrow> bool" where
  "cap_prune_matches_recompute cap total_chars =
     (let gate_pruned = (cap \<noteq> 0 \<and> total_chars > cap);
          recompute_prunes = (total_chars > max_tool_result_inline_chars)
      in case (gate_pruned, recompute_prunes) of
           (False, False) \<Rightarrow> True
         | (True, True) \<Rightarrow> cap_head_budget cap False = prune_head_chars
         | _ \<Rightarrow> False)"

section \<open>Lengths\<close>

lemmas prune_limits = max_tool_result_inline_chars_def prune_head_chars_def prune_tail_chars_def

lemma marker_lengths [simp]:
  "length marker_start = 10" "length marker_count = 3" "length marker_omitted = 10"
  "length marker_advice = 62" "length marker_end = 5" "length subagent_hint_suffix = 41"
  by (simp_all add: marker_start_def marker_count_def marker_omitted_def marker_advice_def marker_end_def
      subagent_hint_suffix_def)

lemma cap_head_budget_twice: "2 * cap_head_budget cap h \<le> cap - (256 + (if h then 41 else 0))"
proof -
  have "2 * min (x div 2) y \<le> x" for x y :: nat by (simp add: min_def) linarith
  then show ?thesis by (simp add: cap_head_budget_def)
qed

lemma prune_parts_fit:
  "max_tool_result_inline_chars < n \<Longrightarrow> prune_head_chars + prune_tail_chars \<le> n"
  "cap < n \<Longrightarrow> cap_head_budget cap h + cap_head_budget cap h \<le> n"
  using cap_head_budget_twice [of cap h] by (simp_all add: prune_limits)

lemma length_prune_marker:
  "length (prune_marker t n omitted (if h then subagent_hint_suffix else []))
    = 90 + (if h then 41 else 0) + length t + length (decimal n) + length (decimal omitted)"
  by (simp add: prune_marker_def of_nat_text_def)

lemma prune_impl_length:
  assumes "prune_impl r t h threshold a a = Some s" "a + a \<le> length r"
  shows "length s = 2 * a + 90 + (if h then 41 else 0) + length t + length (decimal (length r))
           + length (decimal (length r - 2 * a))"
proof -
  from assms(1) have s: "s = take a r @ prune_marker t (length r) (length r - a - a)
      (if h then subagent_hint_suffix else []) @ drop (length r - a) r"
    by (auto simp: prune_impl_def Let_def split: if_splits)
  have "length r - a - a = length r - 2 * a" by simp
  with assms(2) show ?thesis by (simp only: s length_append length_prune_marker) simp
qed

lemma lt_power_decimal: "n < 10 ^ length (decimal n)"
proof (induction n rule: decimal.induct)
  case (1 n)
  show ?case
  proof (cases "n < 10")
    case True
    then show ?thesis by (simp add: decimal_small)
  next
    case False
    then have "n div 10 < 10 ^ length (decimal (n div 10))" by (rule 1)
    then have "n < 10 * 10 ^ length (decimal (n div 10))" by linarith
    with False show ?thesis by (simp add: decimal_step)
  qed
qed

lemma decimal_grows_slowly:
  assumes "2 \<le> k"
  shows "length (decimal (x + k)) < length (decimal x) + k"
proof -
  obtain m where m: "length (decimal x) = Suc m"
    using lt_power_decimal [of x] by (cases "length (decimal x)") (auto simp: decimal_small)
  have "x + k < 10 ^ (m + k)"
  proof -
    have "k + 10 \<le> 10 ^ k" using assms
    proof (induction k rule: nat_induct_at_least)
      case (Suc k)
      have "Suc k + 10 \<le> 10 * (k + 10)" by simp
      also have "\<dots> \<le> 10 * 10 ^ k" using Suc.IH by (rule mult_le_mono2)
      finally show ?case by simp
    qed simp
    then have "10 ^ m * (k + 10) \<le> 10 ^ m * 10 ^ k" by (rule mult_le_mono2)
    moreover have "k \<le> 10 ^ m * k" by simp
    moreover have "x < 10 ^ m * 10" using lt_power_decimal [of x] m by simp
    ultimately show ?thesis unfolding power_add distrib_left by linarith
  qed
  moreover from assms obtain j where "m + k = Suc j" by (cases "m + k") auto
  ultimately show ?thesis using length_decimal_le [of "x + k" j] m by simp
qed

section \<open>Properties\<close>

lemma shrunk_head_shorter:
  assumes "prune_impl r t False c a a = Some s" "prune_impl r t False d 3600 3600 = Some s'"
    and "a < 3600" "7200 \<le> length r"
  shows "length s < length s'"
proof -
  let ?x = "length r - 7200"
  have x: "length r - 2 * a = ?x + (7200 - 2 * a)" using assms(3,4) by simp
  have "length (decimal (?x + (7200 - 2 * a))) < length (decimal ?x) + (7200 - 2 * a)"
    by (rule decimal_grows_slowly) (use assms(3) in simp)
  then have "2 * a + length (decimal (length r - 2 * a)) < 7200 + length (decimal ?x)"
    unfolding x using assms(3) by simp
  moreover have "length s = 2 * a + 90 + length t + length (decimal (length r)) + length (decimal (length r - 2 * a))"
    using prune_impl_length [OF assms(1)] assms(3,4) by simp
  moreover have "length s' = 7290 + length t + length (decimal (length r)) + length (decimal ?x)"
    using prune_impl_length [OF assms(2)] assms(4) by simp
  ultimately show ?thesis by linarith
qed

text \<open>
  The gate records a projection exactly when it must: \<open>cap_prune_matches_recompute\<close> holds if and only if
  the text the gate produced under its cap is the one that a later request recomputes from the stored original,
  both when either of them prunes and when neither does.
\<close>

theorem recompute_test_exact:
  "cap_prune_matches_recompute cap (length result)
     \<longleftrightarrow> prune_tool_result_with_cap result tool False cap = prune_tool_result result tool False"
proof -
  let ?n = "length result"
  let ?gate = "cap \<noteq> 0 \<and> cap < ?n" and ?again = "8192 < ?n"
  have gate: "(prune_tool_result_with_cap result tool False cap = None) = (\<not> ?gate)"
    by (auto simp: prune_tool_result_with_cap_def prune_impl_def Let_def)
  have again: "(prune_tool_result result tool False = None) = (\<not> ?again)"
    by (auto simp: prune_tool_result_def prune_impl_def prune_limits Let_def)
  show ?thesis
  proof (cases "?gate \<and> ?again")
    case False
    with gate again show ?thesis
      by (cases ?gate; cases ?again) (auto simp: cap_prune_matches_recompute_def prune_limits)
  next
    case True
    let ?a = "cap_head_budget cap False"
    have g: "prune_tool_result_with_cap result tool False cap = prune_impl result tool False cap ?a ?a"
      and r: "prune_tool_result result tool False = prune_impl result tool False 8192 3600 3600"
      using True by (simp_all add: prune_tool_result_with_cap_def prune_tool_result_def prune_limits Let_def)
    have same: "prune_impl result tool False cap 3600 3600 = prune_impl result tool False 8192 3600 3600"
      using True by (simp add: prune_impl_def)
    have "?a = 3600" if "prune_impl result tool False cap ?a ?a = prune_impl result tool False 8192 3600 3600"
    proof (rule ccontr)
      assume "?a \<noteq> 3600"
      moreover have "?a \<le> 3600" by (simp add: cap_head_budget_def prune_limits)
      moreover obtain s where "prune_impl result tool False 8192 3600 3600 = Some s"
        using True again r by auto
      ultimately show False using shrunk_head_shorter [of result tool cap ?a s 8192 s] that True by simp
    qed
    with True g r same show ?thesis
      by (auto simp: cap_prune_matches_recompute_def prune_limits)
  qed
qed

text \<open>
  A pruned result fits: with the default limits it has at most 8192 characters, so pruning it again
  changes nothing; with a cap that leaves room for the marker it has at most as many characters as the cap.
  The text before and after the marker is the beginning and the end of the result.
\<close>

theorem pruned_fits:
  assumes "length result < 10 ^ 20" and "length tool \<le> 126"
  shows "(\<forall>s. prune_tool_result result tool hint = Some s
             \<longrightarrow> length s \<le> max_tool_result_inline_chars \<and> prune_tool_result s tool hint = None)
       \<and> (\<forall>s. prune_tool_result_with_cap result tool hint cap = Some s \<and> 297 \<le> cap \<longrightarrow> length s \<le> cap)
       \<and> (\<forall>s. prune_tool_result_with_cap result tool hint cap = Some s
             \<longrightarrow> (\<exists>head mid tail marker. result = head @ mid @ tail \<and> s = head @ marker @ tail))"
proof (intro conjI allI impI)
  have d: "length (decimal (length result)) \<le> 20" "length (decimal (length result - k)) \<le> 20" for k
    using length_decimal_le [of _ 19] assms(1) by simp_all
  fix s assume s: "prune_tool_result result tool hint = Some s"
  then have long: "8192 < length result"
    by (auto simp: prune_tool_result_def prune_impl_def prune_limits Let_def split: if_splits)
  have "length s = 7290 + (if hint then 41 else 0) + length tool + length (decimal (length result))
      + length (decimal (length result - 7200))"
    using prune_impl_length [of result tool hint 8192 3600 s] s long by (simp add: prune_tool_result_def prune_limits)
  then show fits: "length s \<le> max_tool_result_inline_chars"
    using d(1) d(2) [of 7200] assms(2) by (simp add: prune_limits split: if_splits)
  then show "prune_tool_result s tool hint = None"
    by (simp add: prune_tool_result_def prune_impl_def)
next
  have d: "length (decimal (length result)) \<le> 20" "length (decimal (length result - k)) \<le> 20" for k
    using length_decimal_le [of _ 19] assms(1) by simp_all
  let ?a = "cap_head_budget cap hint"
  fix s assume s: "prune_tool_result_with_cap result tool hint cap = Some s \<and> 297 \<le> cap"
  then have p: "prune_impl result tool hint cap ?a ?a = Some s" and long: "cap < length result"
    by (auto simp: prune_tool_result_with_cap_def prune_impl_def Let_def split: if_splits)
  have "length s = 2 * ?a + 90 + (if hint then 41 else 0) + length tool + length (decimal (length result))
      + length (decimal (length result - 2 * ?a))"
    by (rule prune_impl_length [OF p]) (use prune_parts_fit(2) [OF long] in simp)
  then show "length s \<le> cap"
    using cap_head_budget_twice [of cap hint] d(1) d(2) [of "2 * ?a"] assms(2) s by (auto split: if_splits)
next
  let ?a = "cap_head_budget cap hint"
  fix s assume "prune_tool_result_with_cap result tool hint cap = Some s"
  then have p: "prune_impl result tool hint cap ?a ?a = Some s" and long: "cap < length result"
    by (auto simp: prune_tool_result_with_cap_def prune_impl_def Let_def split: if_splits)
  have "?a \<le> length result - ?a" using prune_parts_fit(2) [OF long, of hint] by linarith
  then have "result = take ?a result @ take (length result - ?a - ?a) (drop ?a result) @ drop (length result - ?a) result"
    by (metis append_take_drop_id drop_drop le_add_diff_inverse2 add.commute)
  with p show "\<exists>head mid tail marker. result = head @ mid @ tail \<and> s = head @ marker @ tail"
    by (auto simp: prune_impl_def Let_def split: if_splits)
qed

theorem pruned_fits_witness:
  "\<exists>s. prune_tool_result_with_cap (replicate 400 0) (of_str ''grep'') False 300 = Some s \<and> length s \<le> 300"
proof -
  have "prune_tool_result_with_cap (replicate 400 0) (of_str ''grep'') False 300 \<noteq> None"
    by (simp add: prune_tool_result_with_cap_def prune_impl_def Let_def)
  moreover have "length (replicate 400 (0 :: nat)) < 10 ^ 20" "length (of_str ''grep'') \<le> 126" by simp_all
  ultimately show ?thesis
    using pruned_fits [of "replicate 400 0" "of_str ''grep''" False 300] by fastforce
qed

end
