(* ===== verification/Conversation.thy ===== *)
theory Conversation
  imports Tool_Pairs Tool_Prune
begin

text \<open>
  From the stored history to the request a provider receives (\<open>crates/nemesis-agent/src/loop/compact.rs\<close>, the
  projection of a turn in \<open>types.rs\<close>, the token estimate of \<open>session.rs\<close>): the covered prefix is folded into a
  summary behind the system prompt, tool results are pruned, calls and results are paired. The text of the
  summary is a parameter (a model writes it), and so is the clock that stamps a system turn made up here.
\<close>

section \<open>What the model sees of a turn\<close>

definition default_tool_name :: utext where
  "default_tool_name = of_str ''tool''"

definition model_facing_content :: "turn \<Rightarrow> utext" where
  "model_facing_content t =
     (if role t \<noteq> ''tool'' then content t
      else case tool_result_projection t of
             Some projection \<Rightarrow> projection
           | None \<Rightarrow>
               (case prune_tool_result (content t)
                       (case tool_name t of Some n \<Rightarrow> n | None \<Rightarrow> default_tool_name) False of
                  Some pruned \<Rightarrow> pruned
                | None \<Rightarrow> content t))"

definition estimate_tokens :: "utext \<Rightarrow> nat" where
  "estimate_tokens t = length t * 2 div 5"

definition estimate_tokens_for_turns_projected :: "turn list \<Rightarrow> nat" where
  "estimate_tokens_for_turns_projected turns = sum_list (map (\<lambda>t. estimate_tokens (model_facing_content t)) turns)"

section \<open>Where the summary ends\<close>

fun budget_loop :: "turn list \<Rightarrow> nat \<Rightarrow> nat \<Rightarrow> nat \<Rightarrow> nat" where
  "budget_loop history budget acc 0 = 0"
| "budget_loop history budget acc (Suc s) =
     (let t = estimate_tokens_for_turns_projected [history ! s] in
      if budget < acc + t \<and> Suc s < length history then Suc s else budget_loop history budget (acc + t) s)"

definition token_budget_boundary :: "turn list \<Rightarrow> nat \<Rightarrow> nat" where
  "token_budget_boundary history budget_tokens = budget_loop history budget_tokens 0 (length history)"

fun tool_safe_boundary :: "turn list \<Rightarrow> nat \<Rightarrow> nat" where
  "tool_safe_boundary history 0 = 0"
| "tool_safe_boundary history (Suc c) =
     (if Suc c < length history \<and> role (history ! Suc c) = ''tool'' then tool_safe_boundary history c else Suc c)"

definition k_target :: nat where
  "k_target = 6"

definition next_boundary :: "turn list \<Rightarrow> nat \<Rightarrow> nat" where
  "next_boundary history keep_tokens =
     (let raw_new_c = (if keep_tokens > 0 then token_budget_boundary history keep_tokens
                       else length history - k_target)
      in tool_safe_boundary history raw_new_c)"

definition summarizer_max_msg_tokens :: "nat \<Rightarrow> nat" where
  "summarizer_max_msg_tokens context_window = context_window div 2"

definition summarize_advance_worthwhile :: "turn list \<Rightarrow> nat \<Rightarrow> nat \<Rightarrow> nat \<Rightarrow> bool" where
  "summarize_advance_worthwhile history c new_c context_window =
     (let max_msg_tokens = summarizer_max_msg_tokens context_window;
          start = min (max c 1) (length history);
          last_ix = min new_c (length history)
      in if last_ix \<le> start then False
         else list_ex (\<lambda>t. (role t = ''user'' \<or> role t = ''assistant'') \<and> estimate_tokens (content t) \<le> max_msg_tokens)
                (drop start (take last_ix history)))"

section \<open>The request\<close>

definition summary_block :: "utext \<Rightarrow> utext" where
  "summary_block s = [10, 10] @ of_str ''## Summary of Previous Conversation'' @ [10, 10] @ s"

definition fold_summary :: "string \<Rightarrow> turn list \<Rightarrow> (utext \<times> nat) option \<Rightarrow> turn list" where
  "fold_summary now history summary =
     (case summary of
        None \<Rightarrow> history
      | Some (txt, covers_up_to) \<Rightarrow>
          (let c_idx = min covers_up_to (length history);
               tail_start = min (max c_idx 1) (length history);
               lead = (case history of
                         t # _ \<Rightarrow>
                           if role t = ''system'' then t \<lparr>content := content t @ summary_block txt\<rparr>
                           else \<lparr>role = ''system'', content = summary_block txt, tool_calls = [], tool_call_id = None,
                                 timestamp = now, reasoning_content = None, tool_name = None,
                                 tool_result_projection = None, image_refs = []\<rparr>
                       | [] \<Rightarrow> \<lparr>role = ''system'', content = summary_block txt, tool_calls = [], tool_call_id = None,
                                timestamp = now, reasoning_content = None, tool_name = None,
                                tool_result_projection = None, image_refs = []\<rparr>)
           in lead # drop tail_start history))"

definition project_turn :: "turn \<Rightarrow> turn" where
  "project_turn t = (if role t = ''tool'' then t \<lparr>content := model_facing_content t\<rparr> else t)"

definition project_history_for_request :: "string \<Rightarrow> turn list \<Rightarrow> (utext \<times> nat) option \<Rightarrow> turn list" where
  "project_history_for_request now history summary =
     repair_tool_message_pairs (map project_turn (fold_summary now history summary))"

section \<open>Boundaries\<close>

lemma estimate_append [simp]:
  "estimate_tokens_for_turns_projected (xs @ ys)
    = estimate_tokens_for_turns_projected xs + estimate_tokens_for_turns_projected ys"
  by (simp add: estimate_tokens_for_turns_projected_def)

lemma budget_loop_spec:
  assumes "s \<le> length h" "acc = estimate_tokens_for_turns_projected (drop s h)"
    and "acc \<le> budget \<or> length h \<le> Suc s"
  shows "let c = budget_loop h budget acc s
         in c \<le> s \<and> (estimate_tokens_for_turns_projected (drop c h) \<le> budget \<or> length h \<le> Suc c)
            \<and> (0 < c \<longrightarrow> budget < estimate_tokens_for_turns_projected (drop (c - 1) h))"
  using assms
proof (induction s arbitrary: acc)
  case 0
  then show ?case by simp
next
  case (Suc s)
  let ?t = "estimate_tokens_for_turns_projected [h ! s]"
  have d: "drop s h = [h ! s] @ drop (Suc s) h" using Suc.prems(1) by (simp add: Cons_nth_drop_Suc)
  then have sum: "acc + ?t = estimate_tokens_for_turns_projected (drop s h)"
    using Suc.prems(2) by (metis add.commute estimate_append)
  show ?case
  proof (cases "budget < acc + ?t \<and> Suc s < length h")
    case True
    with Suc.prems sum show ?thesis by (auto simp: Let_def)
  next
    case False
    with Suc.IH [of "acc + ?t"] Suc.prems sum show ?thesis by (auto simp: Let_def)
  qed
qed

lemma token_budget_boundary_spec:
  fixes h :: "turn list" and budget :: nat
  defines "c \<equiv> token_budget_boundary h budget"
  shows "c \<le> length h" and "estimate_tokens_for_turns_projected (drop c h) \<le> budget \<or> length h \<le> Suc c"
    and "0 < c \<Longrightarrow> budget < estimate_tokens_for_turns_projected (drop (c - 1) h)"
  using budget_loop_spec [of "length h" h 0 budget]
  by (auto simp: c_def token_budget_boundary_def Let_def estimate_tokens_for_turns_projected_def)

lemma tool_safe_boundary_spec:
  "c \<le> length h \<Longrightarrow> let s = tool_safe_boundary h c
     in s \<le> c \<and> (\<forall>i. s < i \<and> i \<le> c \<longrightarrow> i < length h \<and> role (h ! i) = ''tool'')
        \<and> (0 < s \<longrightarrow> s = length h \<or> role (h ! s) \<noteq> ''tool'')"
proof (induction h c rule: tool_safe_boundary.induct)
  case (2 h c)
  show ?case
  proof (cases "Suc c < length h \<and> role (h ! Suc c) = ''tool''")
    case True
    with 2 show ?thesis by (auto simp: Let_def le_Suc_eq)
  next
    case False
    with 2(2) show ?thesis by (auto simp: Let_def)
  qed
qed simp

lemma next_boundary_le: "next_boundary h keep \<le> length h"
proof -
  let ?raw = "if keep > 0 then token_budget_boundary h keep else length h - k_target"
  have raw: "?raw \<le> length h" using token_budget_boundary_spec(1) [of h keep] by simp
  have "next_boundary h keep = tool_safe_boundary h ?raw" by (simp add: next_boundary_def Let_def)
  also have "\<dots> \<le> ?raw" using tool_safe_boundary_spec [OF raw] by (simp add: Let_def)
  finally show ?thesis using raw by linarith
qed

lemma next_boundary_not_tool:
  assumes "0 < next_boundary h keep" "next_boundary h keep < length h"
  shows "\<not> is_tool (h ! next_boundary h keep)"
proof -
  let ?raw = "if keep > 0 then token_budget_boundary h keep else length h - k_target"
  have raw: "?raw \<le> length h" using token_budget_boundary_spec(1) [of h keep] by simp
  have "next_boundary h keep = tool_safe_boundary h ?raw" by (simp add: next_boundary_def Let_def)
  with tool_safe_boundary_spec [OF raw] assms show ?thesis by (auto simp: Let_def is_tool_def)
qed

section \<open>Histories as the loop records them\<close>

text \<open>
  The loop records the results of a turn's calls right behind that turn. \<open>paired_blocks\<close> says so: every turn
  is followed by exactly one result for each of its calls before the next turn starts.
\<close>

lemma dropWhile_shorter [termination_simp]: "length (dropWhile P xs) < Suc (length xs)"
  by (simp add: length_dropWhile_le le_imp_less_Suc)

fun paired_blocks :: "turn list \<Rightarrow> bool" where
  "paired_blocks [] \<longleftrightarrow> True"
| "paired_blocks (m # ms) \<longleftrightarrow>
     (let block = takeWhile is_tool ms in
        \<not> is_tool m \<and> list_all (\<lambda>t. tool_call_id t \<noteq> None) block
        \<and> distinct (result_ids block) \<and> set (result_ids block) = set (map call_id (calls_of m))
        \<and> paired_blocks (dropWhile is_tool ms))"

lemma paired_blocks_drop:
  "paired_blocks h \<Longrightarrow> c < length h \<Longrightarrow> \<not> is_tool (h ! c) \<Longrightarrow> paired_blocks (drop c h)"
proof (induction h arbitrary: c rule: paired_blocks.induct)
  case (2 m ms)
  let ?b = "takeWhile is_tool ms" and ?r = "dropWhile is_tool ms"
  show ?case
  proof (cases c)
    case 0
    with 2(2) show ?thesis by simp
  next
    case (Suc j)
    have "\<not> j < length ?b" using 2(4) Suc by (metis nth_Cons_Suc nth_mem set_takeWhileD takeWhile_nth)
    then obtain k where k: "j = length ?b + k" using le_Suc_ex not_less by blast
    have "ms ! j = ?r ! k" "drop j ms = drop k ?r"
      unfolding k by (metis nth_append_length_plus takeWhile_dropWhile_id, metis append_take_drop_id
          append_eq_append_conv_if drop_drop add.commute takeWhile_dropWhile_id append_eq_conv_conj)
    moreover have "k < length ?r" using 2(3) Suc k
      by (metis length_append length_Cons takeWhile_dropWhile_id add_less_cancel_left Suc_less_eq)
    ultimately show ?thesis using 2 Suc by (simp add: Let_def)
  qed
qed simp

lemma result_ids_none: "\<forall>m \<in> set ms. \<not> is_tool m \<Longrightarrow> result_ids ms = []"
  by (induction ms) (auto simp: result_id_def)

lemma block_follows:
  "list_all (\<lambda>t. tool_call_id t \<noteq> None) b \<Longrightarrow> \<forall>t \<in> set b. is_tool t \<Longrightarrow> set (result_ids b) \<subseteq> set seen \<Longrightarrow>
    results_follow_calls seen rest \<Longrightarrow> results_follow_calls seen (b @ rest)"
  by (induction b) (auto simp: result_id_def split: option.splits)

lemma block_answered: "\<forall>t \<in> set b. is_tool t \<Longrightarrow> calls_answered rest \<Longrightarrow> calls_answered (b @ rest)"
  by (induction b) auto

lemma paired_blocks_ids: "paired_blocks h \<Longrightarrow> set (result_ids h) = set (call_ids h)"
proof (induction h rule: paired_blocks.induct)
  case (2 m ms)
  let ?b = "takeWhile is_tool ms" and ?r = "dropWhile is_tool ms"
  have ms: "ms = ?b @ ?r" by simp
  have "call_ids ?b = []" by (auto simp: call_ids_def dest: set_takeWhileD)
  then have "call_ids ms = call_ids ?r" "result_ids ms = result_ids ?b @ result_ids ?r"
    by (metis ms call_ids_append append_Nil, metis ms result_ids_append)
  with 2 show ?case by (auto simp: Let_def result_id_def)
qed simp

lemma paired_blocks_paired:
  "paired_blocks h \<Longrightarrow> distinct (call_ids h) \<Longrightarrow>
    distinct (result_ids h) \<and> results_follow_calls seen h \<and> calls_answered h"
proof (induction h arbitrary: seen rule: paired_blocks.induct)
  case (2 m ms)
  let ?b = "takeWhile is_tool ms" and ?r = "dropWhile is_tool ms"
  have ms: "ms = ?b @ ?r" by simp
  have tools: "\<forall>t \<in> set ?b. is_tool t" by (auto dest: set_takeWhileD)
  have "call_ids ?b = []" using tools by (auto simp: call_ids_def)
  then have calls: "call_ids ms = call_ids ?r" by (metis ms call_ids_append append_Nil)
  have ids: "result_ids ms = result_ids ?b @ result_ids ?r" by (metis ms result_ids_append)
  from 2(2) have p: "\<not> is_tool m" "list_all (\<lambda>t. tool_call_id t \<noteq> None) ?b" "distinct (result_ids ?b)"
      "set (result_ids ?b) = set (map call_id (calls_of m))" "paired_blocks ?r"
    by (simp_all add: Let_def)
  have ih: "distinct (result_ids ?r) \<and> results_follow_calls s ?r \<and> calls_answered ?r" for s
    using 2(1) [OF refl p(5)] 2(3) calls by simp
  have "distinct (result_ids ms)"
    using p(3,4) ih 2(3) calls paired_blocks_ids [OF p(5)] unfolding ids by auto
  moreover have "results_follow_calls (map call_id (calls_of m) @ seen) (?b @ ?r)"
    by (rule block_follows) (use p tools ih in auto)
  moreover have "calls_answered (?b @ ?r)" by (rule block_answered) (use tools ih in auto)
  ultimately show ?case using p(1,4) by (auto simp: result_id_def ids)
qed simp

lemma project_turn_simps [simp]:
  "role (project_turn t) = role t" "is_tool (project_turn t) = is_tool t"
  "tool_call_id (project_turn t) = tool_call_id t" "calls_of (project_turn t) = calls_of t"
  "result_id (project_turn t) = result_id t"
  by (simp_all add: project_turn_def is_tool_def calls_of_def result_id_def)

lemma project_turns_simps [simp]:
  "result_ids (map project_turn ms) = result_ids ms"
  "call_ids (map project_turn ms) = call_ids ms"
  "results_follow_calls seen (map project_turn ms) = results_follow_calls seen ms"
  "calls_answered (map project_turn ms) = calls_answered ms"
proof -
  show r: "result_ids (map project_turn xs) = result_ids xs" for xs
    by (induction xs) (auto split: option.splits)
  show "call_ids (map project_turn ms) = call_ids ms" by (induction ms) auto
  show "results_follow_calls seen (map project_turn ms) = results_follow_calls seen ms"
    by (induction ms arbitrary: seen) auto
  show "calls_answered (map project_turn ms) = calls_answered ms"
    by (induction ms) (auto simp: r)
qed

lemma paired_tail_fixed:
  assumes "paired_blocks (drop c h)" "distinct (call_ids h)" "role lead = ''system''"
  shows "repair_tool_message_pairs (lead # map project_turn (drop c h)) = lead # map project_turn (drop c h)"
proof (rule well_paired_fixed)
  have "distinct (call_ids (drop c h))"
    using assms(2) by (metis append_take_drop_id call_ids_append distinct_append)
  with assms(1) have p: "distinct (result_ids (drop c h))" "results_follow_calls s (drop c h)" "calls_answered (drop c h)" for s
    by (blast dest: paired_blocks_paired)+
  from assms(3) have "\<not> is_tool lead" "calls_of lead = []" "result_id lead = None"
    by (simp_all add: is_tool_def calls_of_def result_id_def)
  with p show "well_paired (lead # map project_turn (drop c h))" by (simp add: well_paired_def)
qed

text \<open>
  C16. When the history is compacted, every turn is either before the boundary (and left to the summary) or sent: for a
  history that is not empty, in which every turn is followed by the results of its calls and no call id occurs twice,
  and a boundary \<open>c > 0\<close> chosen by \<open>next_boundary\<close>, the request after compaction is the system prompt
  with the summary and then exactly the turns behind the boundary, with pruned results; no call and no
  result of them is dropped or made up. If there is a token budget, behind the boundary stands a tail that fits it (or
  is the last turn alone), extended backwards at most over one turn and results of its calls. Without a summary the
  whole history is sent.
\<close>

theorem compaction_loses_nothing:
  assumes "paired_blocks h" and "distinct (call_ids h)" and "h \<noteq> []"
    and "c = next_boundary h keep" and "0 < c"
  shows "(\<exists>lead. role lead = ''system''
            \<and> (role (hd h) = ''system'' \<longrightarrow> content lead = content (hd h) @ summary_block txt)
            \<and> project_history_for_request now h (Some (txt, c)) = lead # map project_turn (drop c h))
       \<and> (0 < keep \<longrightarrow> (\<exists>d. c \<le> d \<and> (\<forall>i. c < i \<and> i \<le> d \<longrightarrow> is_tool (h ! i))
            \<and> (estimate_tokens_for_turns_projected (drop d h) \<le> keep \<or> length h \<le> Suc d)))
       \<and> project_history_for_request now h None = map project_turn h"
proof (intro conjI impI)
  have le: "c \<le> length h" using next_boundary_le by (simp add: assms(4))
  have blocks: "paired_blocks (drop c h)"
    using paired_blocks_drop [OF assms(1)] next_boundary_not_tool [of h keep] assms(4,5) le
    by (cases "c < length h") auto
  obtain t ts where h: "h = t # ts" using assms(3) by (cases h) auto
  define fresh where "fresh = \<lparr>role = ''system'', content = summary_block txt, tool_calls = [], tool_call_id = None,
      timestamp = now, reasoning_content = None, tool_name = None, tool_result_projection = None, image_refs = []\<rparr>"
  define lead where "lead = (if role t = ''system'' then t \<lparr>content := content t @ summary_block txt\<rparr> else fresh)"
  have role: "role lead = ''system''" by (simp add: lead_def fresh_def)
  have "min (max (min c (length h)) 1) (length h) = c" using le assms(5) by simp
  then have "fold_summary now h (Some (txt, c)) = lead # drop c h"
    by (simp add: fold_summary_def lead_def fresh_def h Let_def)
  moreover have "project_turn lead = lead" using role by (simp add: project_turn_def)
  ultimately have "project_history_for_request now h (Some (txt, c)) = lead # map project_turn (drop c h)"
    using paired_tail_fixed [OF blocks assms(2) role] by (simp add: project_history_for_request_def)
  with role show "\<exists>lead. role lead = ''system''
      \<and> (role (hd h) = ''system'' \<longrightarrow> content lead = content (hd h) @ summary_block txt)
      \<and> project_history_for_request now h (Some (txt, c)) = lead # map project_turn (drop c h)"
    by (intro exI [of _ lead]) (simp add: lead_def h)
  have "well_paired (map project_turn h)"
    using paired_blocks_paired [OF assms(1,2)] by (simp add: well_paired_def)
  then show "project_history_for_request now h None = map project_turn h"
    by (simp add: project_history_for_request_def fold_summary_def well_paired_fixed)
  assume keep: "0 < keep"
  let ?d = "token_budget_boundary h keep"
  have "c = tool_safe_boundary h ?d" using keep by (simp add: assms(4) next_boundary_def)
  then show "\<exists>d. c \<le> d \<and> (\<forall>i. c < i \<and> i \<le> d \<longrightarrow> is_tool (h ! i))
      \<and> (estimate_tokens_for_turns_projected (drop d h) \<le> keep \<or> length h \<le> Suc d)"
    using tool_safe_boundary_spec [OF token_budget_boundary_spec(1) [of h keep]] token_budget_boundary_spec(2) [of h keep]
    by (intro exI [of _ ?d]) (auto simp: Let_def is_tool_def)
qed

definition sample_blocks :: "turn list" where
  "sample_blocks =
     [sample_turn ''system'' [] None, sample_turn ''user'' [] None,
      (sample_turn ''assistant'' [''c1''] None) \<lparr>content := replicate 20 0\<rparr>, sample_turn ''tool'' [] (Some ''c1''),
      (sample_turn ''assistant'' [] None) \<lparr>content := replicate 10 0\<rparr>]"

theorem compaction_loses_nothing_witness:
  "\<exists>lead. project_history_for_request [] sample_blocks (Some ([], 2)) = lead # map project_turn (drop 2 sample_blocks)"
proof -
  have "paired_blocks sample_blocks" "distinct (call_ids sample_blocks)" "sample_blocks \<noteq> []"
    "2 = next_boundary sample_blocks 5" by code_simp+
  from compaction_loses_nothing [OF this, of "[]" "[]"] show ?thesis by auto
qed

text \<open>
  A history that does not start with a system prompt loses its first turn when the summary covers nothing
  (callers ask for a boundary of at least one).
\<close>

lemma uncovered_first_turn_lost:
  "map role (project_history_for_request [] [sample_turn ''user'' [] None, sample_turn ''assistant'' [] None]
     (Some ([], 0))) = [''system'', ''assistant'']"
  by code_simp

end
