(* ===== verification/Turn_Wal.thy ===== *)
theory Turn_Wal
  imports Unicode_Text Prelude "HOL-Library.AList" "HOL-Library.Product_Lexorder" "HOL-Library.List_Lexorder"
    "HOL-Library.Char_ord"
begin

text \<open>
  The write-ahead log of tool calls (\<open>crates/nemesis-agent/src/turn_wal.rs\<close>): each call leaves the lines
  admitted, started and finished; after a crash the log is read, calls that were cut off are closed and those
  that may be repeated are handed back. The two files are values; what the file system does to an append or to
  the final rewrite (how much of it arrives, whether renaming and reopening succeed) is an argument, and so
  are the clock and the JSON text of a record (crate \<open>serde_json\<close>). A missing file reads like an empty one.
  Files hold valid UTF-8.
\<close>

section \<open>Records\<close>

record wal_record =
  wr_ts_ms :: nat
  wr_session_key :: string
  wr_channel :: string
  wr_chat_id :: string
  wr_user :: string
  wr_call_id :: string
  wr_tool :: string
  wr_args_preview :: utext
  wr_state :: string
  wr_ok :: "bool option"

record wal_call =
  wc_session_key :: string
  wc_channel :: string
  wc_chat_id :: string
  wc_user :: string
  wc_call_id :: string
  wc_tool :: string

definition args_preview_max_chars :: nat where
  "args_preview_max_chars = 200"

definition default_max_bytes :: nat where
  "default_max_bytes = 8 * 1024 * 1024"

definition default_ttl_secs :: nat where
  "default_ttl_secs = 7 * 24 * 3600"

definition is_irreversible_call :: "string \<Rightarrow> utext \<Rightarrow> bool" where
  "is_irreversible_call tool args_preview =
     (if tool \<in> {''cluster_rpc'', ''message'', ''connector_invoke'', ''mcp_call''} then True
      else if tool = ''git'' then text_contains args_preview (of_str ''push'')
      else False)"

definition truncate_chars :: "utext \<Rightarrow> nat \<Rightarrow> utext" where
  "truncate_chars s max_chars = (if length s \<le> max_chars then s else take max_chars s @ [8230])"

definition call_id_for :: "nat \<Rightarrow> string \<Rightarrow> string \<Rightarrow> string" where
  "call_id_for now raw_id tool = (if trim raw_id = [] then decimal now @ ''-'' @ tool else raw_id)"

section \<open>Files\<close>

record turn_wal =
  wal_path :: utext
  wal_old_path :: "utext option"
  wal_file :: bool
  wal_max_bytes :: nat
  wal_ttl_secs :: nat

definition wal_open :: "utext \<Rightarrow> utext option \<Rightarrow> turn_wal" where
  "wal_open path old =
     \<lparr>wal_path = path, wal_old_path = old, wal_file = True, wal_max_bytes = default_max_bytes,
      wal_ttl_secs = default_ttl_secs\<rparr>"

record json_lines =
  to_line :: "wal_record \<Rightarrow> utext"
  from_line :: "utext \<Rightarrow> wal_record option"

text \<open>What happens to one append: removing the old generation, renaming, reopening (twice), writing.\<close>

record append_io =
  io_remove_ok :: bool
  io_rename_ok :: bool
  io_reopen_ok :: bool
  io_fallback_ok :: bool
  io_written :: nat

definition rotate_locked :: "append_io \<Rightarrow> nat \<Rightarrow> turn_wal \<Rightarrow> turn_wal" where
  "rotate_locked io incoming w =
     (if utf8_size (wal_path w) + incoming \<le> wal_max_bytes w then w
      else
        (let old = (if io_remove_ok io then None else wal_old_path w) in
         if io_rename_ok io then
           w \<lparr>wal_old_path := Some (wal_path w), wal_path := [],
              wal_file := io_reopen_ok io \<or> io_fallback_ok io\<rparr>
         else w \<lparr>wal_old_path := old, wal_file := io_fallback_ok io\<rparr>))"

definition append_record :: "json_lines \<Rightarrow> append_io \<Rightarrow> wal_record \<Rightarrow> turn_wal \<Rightarrow> turn_wal" where
  "append_record js io rec w =
     (let line = to_line js rec;
          w1 = rotate_locked io (utf8_size line + 1) w
      in if wal_file w1 then w1 \<lparr>wal_path := wal_path w1 @ take (io_written io) (line @ [10])\<rparr> else w1)"

definition wal_log ::
  "json_lines \<Rightarrow> append_io \<Rightarrow> nat \<Rightarrow> wal_call \<Rightarrow> string \<Rightarrow> utext \<Rightarrow> bool option \<Rightarrow> turn_wal \<Rightarrow> turn_wal" where
  "wal_log js io now c st args ok w =
     append_record js io
       \<lparr>wr_ts_ms = now, wr_session_key = wc_session_key c, wr_channel = wc_channel c, wr_chat_id = wc_chat_id c,
        wr_user = wc_user c, wr_call_id = wc_call_id c, wr_tool = wc_tool c,
        wr_args_preview = truncate_chars args args_preview_max_chars, wr_state = st, wr_ok = ok\<rparr> w"

section \<open>Recovery\<close>

definition read_lines :: "json_lines \<Rightarrow> utext \<Rightarrow> wal_record option list" where
  "read_lines js s =
     map (from_line js) (filter (\<lambda>t. t \<noteq> []) (map text_trim (text_lines s)))"

definition read_all :: "json_lines \<Rightarrow> turn_wal \<Rightarrow> wal_record list \<times> nat" where
  "read_all js w =
     (let ls = (case wal_old_path w of Some s \<Rightarrow> read_lines js s | None \<Rightarrow> []) @ read_lines js (wal_path w)
      in (List.map_filter id ls, length (filter Option.is_none ls)))"

definition wal_key :: "wal_record \<Rightarrow> string \<times> string" where
  "wal_key r = (wr_session_key r, wr_call_id r)"

definition is_terminal :: "wal_record \<Rightarrow> bool" where
  "is_terminal r \<longleftrightarrow> wr_state r \<in> {''finished'', ''interrupted'', ''unknown''}"

definition is_open :: "wal_record \<Rightarrow> bool" where
  "is_open r \<longleftrightarrow> wr_state r \<in> {''admitted'', ''started''}"

definition open_calls :: "wal_record list \<Rightarrow> ((string \<times> string) \<times> wal_record) list" where
  "open_calls records = fold (\<lambda>r m. if is_open r then AList.update (wal_key r) r m else m) records []"

definition finished_keys :: "wal_record list \<Rightarrow> (string \<times> string) list" where
  "finished_keys records = map wal_key (filter is_terminal records)"

definition started_keys :: "wal_record list \<Rightarrow> (string \<times> string) list" where
  "started_keys records = map wal_key (filter (\<lambda>r. wr_state r = ''started'') records)"

definition open_list :: "wal_record list \<Rightarrow> ((string \<times> string) \<times> wal_record) list" where
  "open_list records = sort_key (\<lambda>kr. (wr_ts_ms (snd kr), fst kr)) (open_calls records)"

text \<open>The loop over the cut-off calls: candidates for resumption, terminal records appended, the files.\<close>

fun close_calls ::
  "json_lines \<Rightarrow> (nat \<Rightarrow> nat) \<Rightarrow> (nat \<Rightarrow> append_io) \<Rightarrow> nat \<Rightarrow> (string \<times> string) list \<Rightarrow> (string \<times> string) list \<Rightarrow>
     ((string \<times> string) \<times> wal_record) list \<Rightarrow> nat \<Rightarrow> turn_wal \<Rightarrow> wal_record list \<times> wal_record list \<times> turn_wal" where
  "close_calls js clock ios cutoff fin started [] i w = ([], [], w)"
| "close_calls js clock ios cutoff fin started ((k, rec) # rest) i w =
     (if k \<in> set fin then close_calls js clock ios cutoff fin started rest i w
      else if wr_ts_ms rec < cutoff then close_calls js clock ios cutoff fin started rest i w
      else if k \<in> set started \<and> is_irreversible_call (wr_tool rec) (wr_args_preview rec) then
        (let done = rec \<lparr>wr_ts_ms := clock (Suc i), wr_state := ''unknown'', wr_ok := None\<rparr>;
             (cs, ts, w') = close_calls js clock ios cutoff fin started rest (Suc i) (append_record js (ios i) done w)
         in (cs, done # ts, w'))
      else
        (let done = rec \<lparr>wr_ts_ms := clock (Suc i), wr_state := ''interrupted'', wr_ok := Some False\<rparr>;
             (cs, ts, w') = close_calls js clock ios cutoff fin started rest (Suc i) (append_record js (ios i) done w)
         in (rec # cs, done # ts, w')))"

record drain_io =
  drain_written :: "nat option" \<comment> \<open>\<open>None\<close>: the file could not be opened for writing\<close>
  drain_reopen_ok :: bool
  drain_remove_ok :: bool

definition drain_text :: "json_lines \<Rightarrow> wal_record list \<Rightarrow> utext" where
  "drain_text js rs = concat (map (\<lambda>r. to_line js r @ [10]) rs)"

definition wal_cutoff :: "(nat \<Rightarrow> nat) \<Rightarrow> turn_wal \<Rightarrow> nat" where
  "wal_cutoff clock w = clock 0 - min (wal_ttl_secs w * 1000) (2 ^ 64 - 1)"

definition recover_and_finalize ::
  "json_lines \<Rightarrow> (nat \<Rightarrow> nat) \<Rightarrow> (nat \<Rightarrow> append_io) \<Rightarrow> drain_io \<Rightarrow> turn_wal \<Rightarrow> wal_record list \<times> turn_wal" where
  "recover_and_finalize js clock ios dio w =
     (let records = fst (read_all js w);
          ttl_cutoff = wal_cutoff clock w;
          (candidates, closed, w1) =
            close_calls js clock ios ttl_cutoff (finished_keys records) (started_keys records) (open_list records) 0 w;
          all_terminal = filter (\<lambda>r. wr_state r = ''interrupted'' \<or> wr_state r = ''unknown'') records @ closed;
          body = drain_text js all_terminal;
          path = (case drain_written dio of Some n \<Rightarrow> take n body | None \<Rightarrow> wal_path w1)
      in (candidates,
          w1 \<lparr>wal_path := path, wal_file := drain_reopen_ok dio,
              wal_old_path := (if drain_remove_ok dio then None else wal_old_path w1)\<rparr>))"

section \<open>Reading back what was written\<close>

text \<open>
  What the log relies on of \<open>serde_json\<close>: the text of a record is one line that starts with a brace and ends
  with one, it is parsed back to the record, and a proper part of it from the start is no JSON value.
\<close>

definition one_line_json :: "json_lines \<Rightarrow> wal_record \<Rightarrow> bool" where
  "one_line_json js r \<longleftrightarrow>
     (let l = to_line js r in
        l \<noteq> [] \<and> hd l = 123 \<and> last l = 125 \<and> 10 \<notin> set l \<and> from_line js l = Some r
        \<and> (\<forall>n < length l. from_line js (take n l) = None))"

lemma one_line_json_trim: "one_line_json js r \<Longrightarrow> text_trim (to_line js r) = to_line js r"
  by (rule text_trim_id) (auto simp: one_line_json_def Let_def is_white_def)

lemma read_lines_line:
  "one_line_json js r \<Longrightarrow> read_lines js (to_line js r @ 10 # s) = Some r # read_lines js s"
  using one_line_json_trim [of js r]
  by (simp add: read_lines_def text_lines_line one_line_json_def Let_def)

lemma read_lines_Nil [simp]: "read_lines js [] = []"
  by (simp add: read_lines_def)

lemma drain_text_simps [simp]:
  "drain_text js [] = []"
  "drain_text js (r # rs) = to_line js r @ 10 # drain_text js rs"
  "drain_text js (xs @ ys) = drain_text js xs @ drain_text js ys"
  by (simp_all add: drain_text_def)

lemma read_drain_text:
  "\<forall>r \<in> set rs. one_line_json js r \<Longrightarrow> read_lines js (drain_text js rs @ s) = map Some rs @ read_lines js s"
  by (induction rs) (auto simp: read_lines_line)

lemma map_filter_id_Some [simp]: "List.map_filter id (map Some rs) = rs"
  by (induction rs) (simp_all add: List.map_filter_simps)

lemma map_filter_append [simp]: "List.map_filter f (xs @ ys) = List.map_filter f xs @ List.map_filter f ys"
  by (simp add: List.map_filter_def)

lemma torn_line:
  assumes "one_line_json js r" "n < length (to_line js r)"
  shows "List.map_filter id (read_lines js (take n (to_line js r))) = []"
proof (cases "n = 0")
  case False
  let ?l = "to_line js r"
  from assms False have l: "take n ?l \<noteq> []" "10 \<notin> set (take n ?l)" "hd (take n ?l) = 123"
    by (auto simp: one_line_json_def Let_def dest: in_set_takeD)
  then obtain m where m: "text_trim (take n ?l) = take m (take n ?l)"
    using text_trim_prefix [of "take n ?l"] by (auto simp: is_white_def)
  have "from_line js (take m (take n ?l)) = None"
    using assms by (auto simp: one_line_json_def Let_def)
  then show ?thesis
    using text_lines_last [OF l(2,1)] m by (simp add: read_lines_def List.map_filter_simps)
qed simp

section \<open>The calls that are cut off\<close>

lemma open_calls_snoc:
  "open_calls (rs @ [r]) = (if is_open r then AList.update (wal_key r) r (open_calls rs) else open_calls rs)"
  by (simp add: open_calls_def)

lemma open_calls_latest:
  "map_of (open_calls rs) k = (case filter (\<lambda>r. is_open r \<and> wal_key r = k) rs of [] \<Rightarrow> None | us \<Rightarrow> Some (last us))"
proof (induction rs rule: rev_induct)
  case Nil
  then show ?case by (simp add: open_calls_def)
next
  case (snoc r rs)
  then show ?case
    by (auto simp: open_calls_snoc update_conv split: list.splits)
qed

lemma open_calls_distinct: "distinct (map fst (open_calls rs))"
  by (induction rs rule: rev_induct) (simp_all add: open_calls_def distinct_update)

lemma open_calls_iff:
  "(k, r) \<in> set (open_calls rs) \<longleftrightarrow>
     (\<exists>xs ys. rs = xs @ r # ys \<and> is_open r \<and> wal_key r = k \<and> (\<forall>y \<in> set ys. \<not> (is_open y \<and> wal_key y = k)))"
    (is "?L \<longleftrightarrow> ?R")
proof -
  let ?P = "\<lambda>r. is_open r \<and> wal_key r = k"
  have "?L \<longleftrightarrow> map_of (open_calls rs) k = Some r"
    by (simp add: open_calls_distinct)
  also have "\<dots> \<longleftrightarrow> filter ?P rs \<noteq> [] \<and> last (filter ?P rs) = r"
    by (auto simp: open_calls_latest split: list.splits)
  also have "\<dots> \<longleftrightarrow> ?R"
  proof
    assume l: "filter ?P rs \<noteq> [] \<and> last (filter ?P rs) = r"
    then obtain us where "filter ?P rs = us @ [r]" by (metis append_butlast_last_id)
    then have "filter ?P (rev rs) = r # rev us" by (simp add: rev_filter [symmetric])
    then obtain as bs where ab: "rev rs = as @ r # bs" "\<forall>a \<in> set as. \<not> ?P a" "?P r"
      by (auto simp: filter_eq_Cons_iff)
    then have "rs = rev bs @ r # rev as" by (metis append.assoc append_Cons append_Nil rev.simps(2) rev_append rev_rev_ident)
    with ab show ?R by (metis set_rev)
  next
    assume ?R
    then show "filter ?P rs \<noteq> [] \<and> last (filter ?P rs) = r"
      by (auto simp: filter_empty_conv)
  qed
  finally show ?thesis .
qed

lemma close_calls_candidates:
  "fst (close_calls js clock ios cutoff fin started l i w)
    = map snd (filter (\<lambda>(k, r). k \<notin> set fin \<and> cutoff \<le> wr_ts_ms r
        \<and> \<not> (k \<in> set started \<and> is_irreversible_call (wr_tool r) (wr_args_preview r))) l)"
  by (induction js clock ios cutoff fin started l i w rule: close_calls.induct) (auto simp: Let_def split: prod.splits)

lemma close_calls_closed:
  "\<forall>r \<in> set (fst (snd (close_calls js clock ios cutoff fin started l i w))). is_terminal r \<and> wr_state r \<noteq> ''finished''"
  by (induction js clock ios cutoff fin started l i w rule: close_calls.induct)
    (auto simp: Let_def is_terminal_def split: prod.splits)

section \<open>What recovery does, for every content of the files\<close>

definition resumed :: "wal_record list \<Rightarrow> nat \<Rightarrow> wal_record \<Rightarrow> bool" where
  "resumed records cutoff r \<longleftrightarrow>
     (\<exists>xs ys. records = xs @ r # ys \<and> is_open r \<and> (\<forall>y \<in> set ys. \<not> (is_open y \<and> wal_key y = wal_key r)))
     \<and> (\<forall>q \<in> set records. wal_key q = wal_key r \<longrightarrow> \<not> is_terminal q)
     \<and> cutoff \<le> wr_ts_ms r
     \<and> \<not> (is_irreversible_call (wr_tool r) (wr_args_preview r)
           \<and> (\<exists>q \<in> set records. wal_key q = wal_key r \<and> wr_state q = ''started''))"

lemma open_list_set: "set (open_list rs) = set (open_calls rs)"
  by (simp add: open_list_def)

lemma open_list_key: "(k, r) \<in> set (open_list rs) \<Longrightarrow> k = wal_key r"
  unfolding open_list_set open_calls_iff by blast

lemma open_list_key_map:
  "map (\<lambda>r. g r (wal_key r)) (map snd (filter P (open_list rs))) = map (\<lambda>kr. g (snd kr) (fst kr)) (filter P (open_list rs))"
  unfolding map_map comp_def
proof (rule map_cong [OF refl])
  fix kr assume "kr \<in> set (filter P (open_list rs))"
  then have "(fst kr, snd kr) \<in> set (open_list rs)" by simp
  then show "g (snd kr) (wal_key (snd kr)) = g (snd kr) (fst kr)" using open_list_key by metis
qed

lemma finished_keys_iff: "k \<in> set (finished_keys rs) \<longleftrightarrow> (\<exists>q \<in> set rs. wal_key q = k \<and> is_terminal q)"
  by (auto simp: finished_keys_def)

lemma started_keys_iff: "k \<in> set (started_keys rs) \<longleftrightarrow> (\<exists>q \<in> set rs. wal_key q = k \<and> wr_state q = ''started'')"
  by (auto simp: started_keys_def)

lemma recover_candidates:
  "fst (recover_and_finalize js clock ios dio w)
    = map snd (filter (\<lambda>(k, r). k \<notin> set (finished_keys (fst (read_all js w)))
        \<and> wal_cutoff clock w \<le> wr_ts_ms r
        \<and> \<not> (k \<in> set (started_keys (fst (read_all js w))) \<and> is_irreversible_call (wr_tool r) (wr_args_preview r)))
       (open_list (fst (read_all js w))))"
proof -
  have "fst (recover_and_finalize js clock ios dio w)
      = fst (close_calls js clock ios (wal_cutoff clock w)
          (finished_keys (fst (read_all js w))) (started_keys (fst (read_all js w))) (open_list (fst (read_all js w))) 0 w)"
    by (simp only: recover_and_finalize_def Let_def split_beta fst_conv)
  then show ?thesis by (simp only: close_calls_candidates)
qed

lemma recover_candidates_set:
  "set (fst (recover_and_finalize js clock ios dio w)) = {r. resumed (fst (read_all js w)) (wal_cutoff clock w) r}"
proof (rule set_eqI)
  fix r
  let ?rs = "fst (read_all js w)"
  let ?P = "\<lambda>k r. k \<notin> set (finished_keys ?rs) \<and> wal_cutoff clock w \<le> wr_ts_ms r
      \<and> \<not> (k \<in> set (started_keys ?rs) \<and> is_irreversible_call (wr_tool r) (wr_args_preview r))"
  have "r \<in> set (fst (recover_and_finalize js clock ios dio w)) \<longleftrightarrow> (\<exists>k. (k, r) \<in> set (open_list ?rs) \<and> ?P k r)"
    unfolding recover_candidates by (auto simp: image_iff)
  also have "\<dots> \<longleftrightarrow> (wal_key r, r) \<in> set (open_list ?rs) \<and> ?P (wal_key r) r"
    using open_list_key by blast
  also have "\<dots> \<longleftrightarrow> resumed ?rs (wal_cutoff clock w) r"
    unfolding resumed_def open_list_set open_calls_iff finished_keys_iff started_keys_iff by blast
  finally show "r \<in> set (fst (recover_and_finalize js clock ios dio w))
      \<longleftrightarrow> r \<in> {r. resumed ?rs (wal_cutoff clock w) r}"
    by simp
qed

lemma recover_candidates_sorted:
  "sorted (map (\<lambda>r. (wr_ts_ms r, wal_key r)) (fst (recover_and_finalize js clock ios dio w)))"
proof -
  have "sorted (map (\<lambda>kr. (wr_ts_ms (snd kr), fst kr)) (filter P (open_list rs)))" for P rs
    unfolding open_list_def by (rule sorted_filter) simp
  then show ?thesis unfolding recover_candidates open_list_key_map [of "\<lambda>r k. (wr_ts_ms r, k)"] .
qed

lemma recover_candidates_distinct: "distinct (map wal_key (fst (recover_and_finalize js clock ios dio w)))"
proof -
  have "distinct (map fst (open_list rs))" for rs
    using open_calls_distinct [of rs] by (simp add: open_list_def distinct_map)
  then have "distinct (map (\<lambda>kr. fst kr) (filter P (open_list rs)))" for P rs by (simp add: distinct_map_filter)
  then show ?thesis unfolding recover_candidates open_list_key_map [of "\<lambda>r k. k"] .
qed

text \<open>
  C17. Recovery hands back exactly the calls whose last open line has no closing line in the session, is not
  older than the retention time, and which are not an irreversible tool that was already started; each call
  once, in the order of time. This holds for every content of the files, broken lines included.
\<close>

theorem recovery_decides:
  "let records = fst (read_all js w);
       cutoff = wal_cutoff clock w;
       candidates = fst (recover_and_finalize js clock ios dio w)
   in set candidates = {r. resumed records cutoff r} \<and> distinct (map wal_key candidates)
      \<and> sorted (map (\<lambda>r. (wr_ts_ms r, wal_key r)) candidates)"
  unfolding Let_def by (intro conjI recover_candidates_set recover_candidates_distinct recover_candidates_sorted)

lemma ball_conj_imp1: "\<forall>q \<in> A. P q \<longrightarrow> Q q \<and> R q \<Longrightarrow> \<forall>q \<in> A. P q \<longrightarrow> Q q"
  by blast

section \<open>Crashes during a run\<close>

text \<open>
  A run writes the records of a history, each completely and with the file open afterwards; rotation may
  happen at any point and its renaming may fail. What is left of the history is an end piece of it.
\<close>

definition whole_write :: "json_lines \<Rightarrow> append_io \<Rightarrow> wal_record \<Rightarrow> bool" where
  "whole_write js io r \<longleftrightarrow> length (to_line js r) < io_written io \<and> (io_reopen_ok io \<or> io_fallback_ok io)
     \<and> (io_rename_ok io \<or> io_fallback_ok io)"

definition run_log :: "json_lines \<Rightarrow> (wal_record \<times> append_io) list \<Rightarrow> turn_wal \<Rightarrow> turn_wal" where
  "run_log js ops w = fold (\<lambda>(r, io). append_record js io r) ops w"

definition holds_suffix :: "json_lines \<Rightarrow> wal_record list \<Rightarrow> turn_wal \<Rightarrow> bool" where
  "holds_suffix js hist w \<longleftrightarrow> (\<exists>old new gone.
      (case wal_old_path w of None \<Rightarrow> old = [] | Some s \<Rightarrow> s = drain_text js old) \<and> wal_path w = drain_text js new
      \<and> hist = gone @ old @ new)"

lemma rotate_holds:
  assumes "holds_suffix js hist w"
  shows "holds_suffix js hist (rotate_locked io incoming w)"
proof -
  from assms obtain old new gone where w:
      "case wal_old_path w of None \<Rightarrow> old = [] | Some s \<Rightarrow> s = drain_text js old"
      "wal_path w = drain_text js new" "hist = gone @ old @ new"
    by (auto simp: holds_suffix_def)
  consider "rotate_locked io incoming w = w"
    | "wal_path (rotate_locked io incoming w) = []" "wal_old_path (rotate_locked io incoming w) = Some (wal_path w)"
    | "wal_path (rotate_locked io incoming w) = wal_path w" "wal_old_path (rotate_locked io incoming w) \<in> {None, wal_old_path w}"
    unfolding rotate_locked_def Let_def
    by (cases "utf8_size (wal_path w) + incoming \<le> wal_max_bytes w"; cases "io_rename_ok io"; cases "io_remove_ok io") simp_all
  then show ?thesis
  proof cases
    case 1
    with assms show ?thesis by simp
  next
    case 2
    with w show ?thesis
      unfolding holds_suffix_def by (intro exI [of _ new] exI [of _ "[]"] exI [of _ "gone @ old"]) simp
  next
    case 3
    then consider "wal_old_path (rotate_locked io incoming w) = None"
      | "wal_old_path (rotate_locked io incoming w) = wal_old_path w" by auto
    then show ?thesis
    proof cases
      case 1
      with 3 w show ?thesis
        unfolding holds_suffix_def by (intro exI [of _ "[]"] exI [of _ new] exI [of _ "gone @ old"]) simp
    next
      case 2
      with 3 w show ?thesis unfolding holds_suffix_def by (intro exI [of _ old] exI [of _ new] exI [of _ gone]) simp
    qed
  qed
qed

lemma holds_append:
  assumes "holds_suffix js hist w"
  shows "holds_suffix js (hist @ [r]) (w \<lparr>wal_path := wal_path w @ drain_text js [r]\<rparr>)"
proof -
  from assms obtain old new gone where w:
      "case wal_old_path w of None \<Rightarrow> old = [] | Some s \<Rightarrow> s = drain_text js old"
      "wal_path w = drain_text js new" "hist = gone @ old @ new"
    by (auto simp: holds_suffix_def)
  then show ?thesis
    unfolding holds_suffix_def by (intro exI [of _ old] exI [of _ "new @ [r]"] exI [of _ gone]) simp
qed

lemma append_holds:
  assumes "holds_suffix js hist w" "wal_file w" "whole_write js io r"
  shows "holds_suffix js (hist @ [r]) (append_record js io r w) \<and> wal_file (append_record js io r w)"
proof -
  let ?w1 = "rotate_locked io (utf8_size (to_line js r) + 1) w"
  have "length (to_line js r @ [10]) \<le> io_written io" using assms(3) by (simp add: whole_write_def)
  then have written: "take (io_written io) (to_line js r @ [10]) = drain_text js [r]"
    by (simp only: take_all) (simp add: drain_text_def)
  have opened: "wal_file ?w1" using assms(2,3) by (auto simp: rotate_locked_def whole_write_def Let_def)
  have "append_record js io r w = ?w1 \<lparr>wal_path := wal_path ?w1 @ drain_text js [r]\<rparr>"
    using opened by (simp only: append_record_def Let_def written if_True)
  with opened holds_append [OF rotate_holds [OF assms(1)]] show ?thesis by simp
qed

lemma run_holds:
  "holds_suffix js hist w \<and> wal_file w \<Longrightarrow> \<forall>(r, io) \<in> set ops. whole_write js io r \<Longrightarrow>
    holds_suffix js (hist @ map fst ops) (run_log js ops w) \<and> wal_file (run_log js ops w)"
proof (induction ops arbitrary: hist w)
  case (Cons op ops)
  obtain r io where "op = (r, io)" by fastforce
  with Cons show ?case using Cons.IH [of "hist @ [r]"] append_holds [of js hist w io r] by (simp add: run_log_def)
qed (simp add: run_log_def)

text \<open>What is read after a crash in the last write: an end piece of the history, with or without the last record.\<close>

lemma read_holds:
  assumes "holds_suffix js hist w" "\<forall>r \<in> set hist. one_line_json js r"
  shows "\<exists>gone. hist @ List.map_filter id (read_lines js s) = gone @ fst (read_all js (w \<lparr>wal_path := wal_path w @ s\<rparr>))"
proof -
  from assms obtain old new gone where w:
      "case wal_old_path w of None \<Rightarrow> old = [] | Some s \<Rightarrow> s = drain_text js old"
      "wal_path w = drain_text js new" "hist = gone @ old @ new"
    by (auto simp: holds_suffix_def)
  with assms(2) have ok: "\<forall>r \<in> set old. one_line_json js r" "\<forall>r \<in> set new. one_line_json js r" by auto
  have n: "read_lines js (wal_path w @ s) = map Some new @ read_lines js s"
    using read_drain_text [OF ok(2)] w(2) by simp
  have o: "(case wal_old_path w of Some s \<Rightarrow> read_lines js s | None \<Rightarrow> []) = map Some old"
    using w(1) read_drain_text [OF ok(1), of "[]"] by (cases "wal_old_path w") auto
  have "fst (read_all js (w \<lparr>wal_path := wal_path w @ s\<rparr>)) = old @ new @ List.map_filter id (read_lines js s)"
    by (simp add: read_all_def n o Let_def)
  with w(3) show ?thesis by auto
qed

lemma read_after_crash:
  assumes "holds_suffix js hist w" "\<forall>q \<in> set (hist @ [r]). one_line_json js q"
  shows "\<exists>gone. hist = gone @ fst (read_all js (append_record js io r w)) \<or>
    hist @ [r] = gone @ fst (read_all js (append_record js io r w))"
proof -
  let ?w1 = "rotate_locked io (utf8_size (to_line js r) + 1) w"
  let ?s = "take (io_written io) (to_line js r @ [10])"
  have hist: "\<forall>q \<in> set hist. one_line_json js q" and line: "one_line_json js r" using assms(2) by auto
  have piece: "List.map_filter id (read_lines js ?s) \<in> {[], [r]}"
  proof -
    consider "io_written io < length (to_line js r)" | "io_written io = length (to_line js r)"
      | "length (to_line js r @ [10]) \<le> io_written io" by fastforce
    then show ?thesis
    proof cases
      case 1
      with torn_line [OF line 1] show ?thesis by simp
    next
      case 2
      have "text_lines (to_line js r) = [to_line js r]"
        using line by (intro text_lines_last) (auto simp: one_line_json_def Let_def)
      with 2 line one_line_json_trim [OF line] show ?thesis
        by (simp add: read_lines_def one_line_json_def Let_def List.map_filter_simps)
    next
      case 3
      then have "?s = to_line js r @ [10]" by (rule take_all)
      with read_lines_line [OF line, of "[]"] show ?thesis by (simp add: List.map_filter_simps)
    qed
  qed
  obtain s where s: "append_record js io r w = ?w1 \<lparr>wal_path := wal_path ?w1 @ s\<rparr>"
      "List.map_filter id (read_lines js s) \<in> {[], [r]}"
  proof (cases "wal_file ?w1")
    case True
    then have "append_record js io r w = ?w1 \<lparr>wal_path := wal_path ?w1 @ ?s\<rparr>"
      by (simp add: append_record_def Let_def)
    with piece that show ?thesis by blast
  next
    case False
    then have "append_record js io r w = ?w1 \<lparr>wal_path := wal_path ?w1 @ []\<rparr>"
      by (simp add: append_record_def Let_def)
    with that [of "[]"] show ?thesis by (simp add: List.map_filter_simps)
  qed
  obtain gone where "hist @ List.map_filter id (read_lines js s) = gone @ fst (read_all js (append_record js io r w))"
    unfolding s(1) using read_holds [OF rotate_holds [OF assms(1)] hist] by blast
  with s(2) show ?thesis by auto
qed

definition state_rank :: "wal_record \<Rightarrow> nat" where
  "state_rank r = (if wr_state r = ''admitted'' then 0 else if wr_state r = ''started'' then 1 else 2)"

text \<open>The dispatcher's discipline: within a session a call id stands for one call, whose states only advance.\<close>

definition orderly :: "wal_record list \<Rightarrow> bool" where
  "orderly hist \<longleftrightarrow> sorted_wrt (\<lambda>a b. wal_key a = wal_key b \<longrightarrow>
      state_rank a < state_rank b \<and> wr_tool a = wr_tool b \<and> wr_args_preview a = wr_args_preview b) hist"

lemma orderly_resumed:
  assumes "orderly (gone @ rs)" "resumed rs cutoff c" "q \<in> set (gone @ rs)" "wal_key q = wal_key c"
  shows "\<not> is_terminal q \<and> \<not> (wr_state q = ''started'' \<and> is_irreversible_call (wr_tool q) (wr_args_preview q))"
proof (cases "q \<in> set rs")
  case False
  from assms(2) have c: "c \<in> set rs" "is_open c" by (auto simp: resumed_def)
  with False assms(1,3,4) have "state_rank q < state_rank c"
    by (auto simp: orderly_def sorted_wrt_append)
  with c(2) show ?thesis by (auto simp: state_rank_def is_open_def is_terminal_def split: if_splits)
next
  case True
  from assms(2) obtain xs ys where rs: "rs = xs @ c # ys" and open_c: "is_open c"
    and irr: "is_irreversible_call (wr_tool c) (wr_args_preview c) \<Longrightarrow> \<forall>q \<in> set rs. wal_key q = wal_key c \<longrightarrow> wr_state q \<noteq> ''started''"
    and noend: "\<forall>q \<in> set rs. wal_key q = wal_key c \<longrightarrow> \<not> is_terminal q"
    by (auto simp: resumed_def)
  have "sorted_wrt (\<lambda>a b. wal_key a = wal_key b \<longrightarrow>
      state_rank a < state_rank b \<and> wr_tool a = wr_tool b \<and> wr_args_preview a = wr_args_preview b) (xs @ c # ys)"
    using assms(1) by (simp add: orderly_def rs sorted_wrt_append)
  with True assms(4) have "wr_tool q = wr_tool c \<and> wr_args_preview q = wr_args_preview c"
    unfolding rs by (auto simp: sorted_wrt_append)
  with True assms(4) irr noend show ?thesis by auto
qed

text \<open>
  C5. No call is executed twice because of a crash: let the dispatcher log any interleaving of calls, through
  any rotations of the file, and let the process die anywhere, also in the middle of a write. A call handed
  back after the restart was logged, has no closing line, and is not an irreversible tool whose start was
  logged.
\<close>

theorem crash_never_repeats:
  assumes "wal_path w = []" and "wal_old_path w = None" and "wal_file w"
    and "\<forall>(q, io) \<in> set ops. whole_write js io q"
    and "\<forall>q \<in> set (map fst ops @ [r]). one_line_json js q"
    and "orderly (map fst ops @ [r])"
    and "c \<in> set (fst (recover_and_finalize js clock ios dio (append_record js io r (run_log js ops w))))"
  shows "c \<in> set (map fst ops @ [r])
       \<and> (\<forall>q \<in> set (map fst ops). wal_key q = wal_key c \<longrightarrow>
            \<not> is_terminal q \<and> \<not> (wr_state q = ''started'' \<and> is_irreversible_call (wr_tool q) (wr_args_preview q)))"
proof -
  let ?hist = "map fst ops" and ?w = "run_log js ops w"
  let ?rs = "fst (read_all js (append_record js io r ?w))"
  have "holds_suffix js [] w"
    using assms(1,2) unfolding holds_suffix_def by (intro exI [of _ "[]"]) simp
  with run_holds [of js "[]" w ops] assms(3,4) have "holds_suffix js ?hist ?w" by simp
  from read_after_crash [OF this assms(5), of io] obtain gone
    where "?hist = gone @ ?rs \<or> ?hist @ [r] = gone @ ?rs" by blast
  then obtain h where h: "h = gone @ ?rs" "h = ?hist \<or> h = ?hist @ [r]" by blast
  have "orderly ?hist" using assms(6) by (simp add: orderly_def sorted_wrt_append)
  with h assms(6) have ord: "orderly (gone @ ?rs)" by auto
  from h(2) have sub: "set h \<subseteq> set (?hist @ [r])" "set ?hist \<subseteq> set h" by (elim disjE; simp; blast)+
  have c: "resumed ?rs (wal_cutoff clock (append_record js io r ?w)) c"
    using assms(7) by (simp add: recover_candidates_set)
  then have "c \<in> set ?rs" by (auto simp: resumed_def)
  moreover have "\<forall>q \<in> set ?hist. wal_key q = wal_key c \<longrightarrow>
      \<not> is_terminal q \<and> \<not> (wr_state q = ''started'' \<and> is_irreversible_call (wr_tool q) (wr_args_preview q))"
    using orderly_resumed [OF ord c] sub(2) h(1) by blast
  ultimately show ?thesis using h(1) sub(1) by auto
qed

definition closing_records :: "json_lines \<Rightarrow> (nat \<Rightarrow> nat) \<Rightarrow> (nat \<Rightarrow> append_io) \<Rightarrow> turn_wal \<Rightarrow> wal_record list" where
  "closing_records js clock ios w =
     (let rs = fst (read_all js w)
      in fst (snd (close_calls js clock ios (wal_cutoff clock w) (finished_keys rs) (started_keys rs) (open_list rs) 0 w)))"

definition kept_records :: "wal_record list \<Rightarrow> wal_record list" where
  "kept_records rs = filter (\<lambda>r. wr_state r = ''interrupted'' \<or> wr_state r = ''unknown'') rs"

lemma recover_files:
  "snd (recover_and_finalize js clock ios dio w) = w' \<Longrightarrow>
     wal_path w' = (case drain_written dio of
        Some n \<Rightarrow> take n (drain_text js (kept_records (fst (read_all js w)) @ closing_records js clock ios w))
      | None \<Rightarrow> wal_path (snd (snd (close_calls js clock ios (wal_cutoff clock w) (finished_keys (fst (read_all js w)))
                  (started_keys (fst (read_all js w))) (open_list (fst (read_all js w))) 0 w))))
   \<and> (drain_remove_ok dio \<longrightarrow> wal_old_path w' = None)"
  by (auto simp: recover_and_finalize_def closing_records_def kept_records_def Let_def split_beta
      simp del: drain_text_simps split: option.splits)

lemma close_calls_lines:
  "length (fst (snd (close_calls js clock ios cutoff fin started l i w)))
    = length (filter (\<lambda>(k, r). k \<notin> set fin \<and> cutoff \<le> wr_ts_ms r) l)"
  by (induction js clock ios cutoff fin started l i w rule: close_calls.induct) (auto simp: Let_def split: prod.splits)

lemma resumed_in: "resumed rs cutoff c \<Longrightarrow> c \<in> set rs \<and> is_open c"
  by (auto simp: resumed_def)


definition sample_record :: "string \<Rightarrow> string \<Rightarrow> string \<Rightarrow> wal_record" where
  "sample_record k tool st =
     \<lparr>wr_ts_ms = 1, wr_session_key = ''s'', wr_channel = ''web'', wr_chat_id = ''c'', wr_user = ''u'', wr_call_id = k,
      wr_tool = tool, wr_args_preview = [], wr_state = st, wr_ok = None\<rparr>"

definition sample_history :: "wal_record list" where
  "sample_history =
     [sample_record ''1'' ''exec'' ''admitted'', sample_record ''22'' ''message'' ''admitted'',
      sample_record ''1'' ''exec'' ''started'', sample_record ''22'' ''message'' ''started'']"

definition sample_last :: wal_record where
  "sample_last = sample_record ''1'' ''exec'' ''finished''"

definition sample_text :: "wal_record \<Rightarrow> utext" where
  "sample_text r = [123, 200 + 10 * length (wr_call_id r) + state_rank r, 125]"

definition sample_json :: json_lines where
  "sample_json =
     \<lparr>to_line = sample_text, from_line = (\<lambda>t. find (\<lambda>r. sample_text r = t) (sample_history @ [sample_last]))\<rparr>"

definition sample_io :: "nat \<Rightarrow> append_io" where
  "sample_io n = \<lparr>io_remove_ok = True, io_rename_ok = True, io_reopen_ok = True, io_fallback_ok = True, io_written = n\<rparr>"

definition sample_ops :: "(wal_record \<times> append_io) list" where
  "sample_ops = map (\<lambda>r. (r, sample_io 4)) sample_history"

definition sample_wal :: turn_wal where
  "sample_wal = \<lparr>wal_path = [], wal_old_path = None, wal_file = True, wal_max_bytes = 100, wal_ttl_secs = 1\<rparr>"

definition sample_drain :: drain_io where
  "sample_drain = \<lparr>drain_written = Some 1000, drain_reopen_ok = True, drain_remove_ok = True\<rparr>"

text \<open>The finished line of call 1 is torn after two characters: the call is resumed, the sent message is not.\<close>

theorem crash_never_repeats_witness:
  "\<exists>c. fst (recover_and_finalize sample_json (\<lambda>_. 5) (\<lambda>_. sample_io 4) sample_drain
          (append_record sample_json (sample_io 2) sample_last (run_log sample_json sample_ops sample_wal))) = [c]
      \<and> wr_call_id c = ''1'' \<and> (\<forall>q \<in> set (map fst sample_ops). wal_key q = wal_key c \<longrightarrow> \<not> is_terminal q)"
proof -
  let ?w = "append_record sample_json (sample_io 2) sample_last (run_log sample_json sample_ops sample_wal)"
  let ?c = "sample_record ''1'' ''exec'' ''started''"
  have r: "fst (recover_and_finalize sample_json (\<lambda>_. 5) (\<lambda>_. sample_io 4) sample_drain ?w) = [?c]" by code_simp
  have "wal_path sample_wal = []" "wal_old_path sample_wal = None" "wal_file sample_wal"
    by (simp_all add: sample_wal_def)
  moreover have "\<forall>(q, io) \<in> set sample_ops. whole_write sample_json io q" by code_simp
  moreover have "\<forall>q \<in> set (map fst sample_ops @ [sample_last]). one_line_json sample_json q" by code_simp
  moreover have "orderly (map fst sample_ops @ [sample_last])" by code_simp
  moreover have "?c \<in> set (fst (recover_and_finalize sample_json (\<lambda>_. 5) (\<lambda>_. sample_io 4) sample_drain ?w))"
    unfolding r by simp
  ultimately have "\<forall>q \<in> set (map fst sample_ops). wal_key q = wal_key ?c \<longrightarrow> \<not> is_terminal q"
    by (rule crash_never_repeats [THEN conjunct2, THEN ball_conj_imp1])
  then show ?thesis using r by (auto simp: sample_record_def)
qed

definition closing_json :: json_lines where
  "closing_json =
     (let rs = [sample_record ''1'' ''exec'' ''started'', (sample_record ''1'' ''exec'' ''interrupted'') \<lparr>wr_ts_ms := 5, wr_ok := Some False\<rparr>]
      in \<lparr>to_line = sample_text, from_line = (\<lambda>t. find (\<lambda>r. sample_text r = t) rs)\<rparr>)"


text \<open>
  Two limits: the closing lines that recovery keeps answer for their call id for ever, so a call that uses the
  id again in the same session is never handed back; and a push behind the first 200 characters of the
  arguments is not seen.
\<close>

lemma reused_call_id_not_resumed:
  "\<not> resumed [sample_record ''1'' ''exec'' ''interrupted'', sample_record ''1'' ''exec'' ''admitted'',
     sample_record ''1'' ''exec'' ''started''] 0 (sample_record ''1'' ''exec'' ''started'')"
  by (simp add: resumed_def sample_record_def wal_key_def is_terminal_def)

lemma long_arguments_hide_push:
  "\<not> is_irreversible_call ''git'' (truncate_chars (replicate 200 97 @ of_str ''push'') args_preview_max_chars)"
proof -
  have p: "truncate_chars (replicate 200 97 @ of_str ''push'') args_preview_max_chars = replicate 200 97 @ [8230]"
    by (simp add: truncate_chars_def args_preview_max_chars_def)
  have "hd (of_str ''push'') \<notin> set (replicate 200 97 @ [8230])" by (simp add: of_str_def)
  moreover have "hd (of_str ''push'') \<in> set (u @ of_str ''push'' @ v)" for u v by (simp add: of_str_def)
  ultimately have "\<not> text_contains (replicate 200 97 @ [8230]) (of_str ''push'')"
    unfolding text_contains_iff by metis
  then show ?thesis by (simp add: is_irreversible_call_def p)
qed

end
