(* ===== verification/Inbox.thy ===== *)
theory Inbox
  imports Prelude Unicode_Text "HOL-Library.Multiset"
begin

text \<open>
  The inbox of a busy session (\<open>crates/nemesis-agent/src/inbox.rs\<close>): a queue of messages for the next turn, in
  which urgent ones overtake, and a queue of interjections for the running turn, both within one capacity. What
  a message carries besides text, metadata and priority is of a type of its own. The lock around the map makes
  every operation one step.
\<close>

section \<open>Messages\<close>

datatype message_priority = Normal | High

record 'a queued_message =
  qm_content :: utext
  qm_metadata :: "string \<Rightarrow> string option"
  qm_rest :: 'a
  qm_timestamp :: string
  qm_priority :: message_priority

definition is_high :: "message_priority \<Rightarrow> bool" where
  "is_high p \<longleftrightarrow> p = High"

definition priority_of :: "(string \<Rightarrow> string option) \<Rightarrow> message_priority" where
  "priority_of metadata =
     (case map_option (\<lambda>s. map to_lower_char (trim s)) (metadata ''priority'') of
        Some p \<Rightarrow> if p = ''high'' then High else Normal
      | None \<Rightarrow> Normal)"

definition text_trim_start :: "utext \<Rightarrow> utext" where
  "text_trim_start = dropWhile is_white"

definition is_steer_message :: "utext \<Rightarrow> bool" where
  "is_steer_message content =
     (let t = text_trim_start content in text_starts_with t [33] \<or> text_starts_with t [65281])"

definition strip_steer_marker :: "utext \<Rightarrow> utext" where
  "strip_steer_marker content =
     (let t = text_trim_start content
      in if text_starts_with t [33] then text_trim_start (drop 1 t)
         else if text_starts_with t [65281] then text_trim_start (drop 1 t)
         else content)"

datatype enqueue_outcome = QueuedForNextTurn | QueuedForNextStep | Rejected | RejectedSoft

section \<open>Queues\<close>

record 'a session_queues =
  next_turn :: "'a queued_message list"
  next_step :: "'a queued_message list"

record 'a inbox =
  queues :: "string \<Rightarrow> 'a session_queues option"
  inbox_capacity :: nat

definition default_queue_size :: nat where
  "default_queue_size = 8"

definition inbox_new :: "nat \<Rightarrow> 'a inbox" where
  "inbox_new capacity = \<lparr>queues = (\<lambda>_. None), inbox_capacity = max capacity 1\<rparr>"

definition no_queues :: "'a session_queues" where
  "no_queues = \<lparr>next_turn = [], next_step = []\<rparr>"

definition queues_of :: "string \<Rightarrow> 'a inbox \<Rightarrow> 'a session_queues" where
  "queues_of k b = (case queues b k of Some q \<Rightarrow> q | None \<Rightarrow> no_queues)"

definition put_queues :: "string \<Rightarrow> 'a session_queues \<Rightarrow> 'a inbox \<Rightarrow> 'a inbox" where
  "put_queues k q b = b \<lparr>queues := (queues b)(k := Some q)\<rparr>"

definition soft_limit :: "nat \<Rightarrow> nat" where
  "soft_limit capacity = max (capacity * 9 div 10) 1"

definition insert_high :: "'a queued_message \<Rightarrow> 'a queued_message list \<Rightarrow> 'a queued_message list" where
  "insert_high m q =
     (let insert_at = length (takeWhile (\<lambda>x. is_high (qm_priority x)) q)
      in take insert_at q @ m # drop insert_at q)"

definition enqueue_for_mode ::
  "string \<Rightarrow> 'a queued_message \<Rightarrow> bool \<Rightarrow> 'a inbox \<Rightarrow> 'a inbox \<times> enqueue_outcome" where
  "enqueue_for_mode k m steer_enabled b =
     (let steer = (steer_enabled \<and> is_steer_message (qm_content m));
          q = queues_of k b;
          b = put_queues k q b;
          sum = length (next_turn q) + length (next_step q)
      in if sum \<ge> inbox_capacity b then (b, Rejected)
         else if sum \<ge> soft_limit (inbox_capacity b) \<and> qm_priority m \<noteq> High \<and> \<not> steer then (b, RejectedSoft)
         else if steer then (put_queues k (q \<lparr>next_step := next_step q @ [m]\<rparr>) b, QueuedForNextStep)
         else if is_high (qm_priority m) then
           (put_queues k (q \<lparr>next_turn := insert_high m (next_turn q)\<rparr>) b, QueuedForNextTurn)
         else (put_queues k (q \<lparr>next_turn := next_turn q @ [m]\<rparr>) b, QueuedForNextTurn))"

definition enqueue :: "string \<Rightarrow> 'a queued_message \<Rightarrow> 'a inbox \<Rightarrow> 'a inbox \<times> enqueue_outcome" where
  "enqueue k m b = enqueue_for_mode k m True b"

definition claim_next_step :: "string \<Rightarrow> 'a inbox \<Rightarrow> 'a inbox \<times> 'a queued_message list" where
  "claim_next_step k b =
     (case queues b k of
        Some q \<Rightarrow> (put_queues k (q \<lparr>next_step := []\<rparr>) b, next_step q)
      | None \<Rightarrow> (b, []))"

definition claim_next_turn_head :: "string \<Rightarrow> 'a inbox \<Rightarrow> 'a inbox \<times> 'a queued_message option" where
  "claim_next_turn_head k b =
     (case queues b k of
        Some q \<Rightarrow> (case next_turn q of
            [] \<Rightarrow> (b, None)
          | m # ms \<Rightarrow> (put_queues k (q \<lparr>next_turn := ms\<rparr>) b, Some m))
      | None \<Rightarrow> (b, None))"

definition has_next_step :: "string \<Rightarrow> 'a inbox \<Rightarrow> bool" where
  "has_next_step k b = (case queues b k of Some q \<Rightarrow> next_step q \<noteq> [] | None \<Rightarrow> False)"

definition transfer_next_step_to_next_turn :: "string \<Rightarrow> 'a inbox \<Rightarrow> 'a inbox" where
  "transfer_next_step_to_next_turn k b =
     (case queues b k of
        Some q \<Rightarrow>
          (let stepped = map (\<lambda>m. m \<lparr>qm_content := strip_steer_marker (qm_content m)\<rparr>) (next_step q)
           in put_queues k (q \<lparr>next_turn := next_turn q @ stepped, next_step := []\<rparr>) b)
      | None \<Rightarrow> b)"

definition inbox_clear :: "string \<Rightarrow> 'a inbox \<Rightarrow> 'a inbox" where
  "inbox_clear k b = b \<lparr>queues := (queues b)(k := None)\<rparr>"

definition pending :: "string \<Rightarrow> 'a inbox \<Rightarrow> nat \<times> nat" where
  "pending k b = (case queues b k of Some q \<Rightarrow> (length (next_turn q), length (next_step q)) | None \<Rightarrow> (0, 0))"

definition has_pending_cron_job :: "string \<Rightarrow> string \<Rightarrow> 'a inbox \<Rightarrow> bool" where
  "has_pending_cron_job k job b =
     (case queues b k of
        Some q \<Rightarrow> list_ex (\<lambda>m. qm_metadata m ''cron_job_id'' = Some job) (next_turn q)
                \<or> list_ex (\<lambda>m. qm_metadata m ''cron_job_id'' = Some job) (next_step q)
      | None \<Rightarrow> False)"

section \<open>Runs\<close>

text \<open>A run carries a ledger: what was accepted, handed out and dropped, per session.\<close>

datatype 'a inbox_event =
    Enqueue string "'a queued_message" bool
  | ClaimStep string
  | ClaimTurn string
  | Transfer string
  | Clear string

record 'a ledger =
  accepted :: "string \<Rightarrow> 'a list"
  delivered :: "string \<Rightarrow> 'a list"
  dropped :: "string \<Rightarrow> 'a list"

definition waiting :: "string \<Rightarrow> 'a inbox \<Rightarrow> 'a queued_message list" where
  "waiting k b = next_turn (queues_of k b) @ next_step (queues_of k b)"

definition post :: "string \<Rightarrow> 'a list \<Rightarrow> (string \<Rightarrow> 'a list) \<Rightarrow> string \<Rightarrow> 'a list" where
  "post k xs f = f(k := f k @ xs)"

fun inbox_step :: "'a inbox \<times> 'a ledger \<Rightarrow> 'a inbox_event \<Rightarrow> 'a inbox \<times> 'a ledger" where
  "inbox_step (b, l) (Enqueue k m steer) =
     (case enqueue_for_mode k m steer b of (b', out) \<Rightarrow>
        (b', if out \<in> {QueuedForNextTurn, QueuedForNextStep} then l \<lparr>accepted := post k [qm_rest m] (accepted l)\<rparr> else l))"
| "inbox_step (b, l) (ClaimStep k) =
     (case claim_next_step k b of (b', ms) \<Rightarrow> (b', l \<lparr>delivered := post k (map qm_rest ms) (delivered l)\<rparr>))"
| "inbox_step (b, l) (ClaimTurn k) =
     (case claim_next_turn_head k b of
        (b', Some m) \<Rightarrow> (b', l \<lparr>delivered := post k [qm_rest m] (delivered l)\<rparr>)
      | (b', None) \<Rightarrow> (b', l))"
| "inbox_step (b, l) (Transfer k) = (transfer_next_step_to_next_turn k b, l)"
| "inbox_step (b, l) (Clear k) =
     (inbox_clear k b, l \<lparr>dropped := post k (map qm_rest (waiting k b)) (dropped l)\<rparr>)"

definition inbox_start :: "nat \<Rightarrow> 'a inbox \<times> 'a ledger" where
  "inbox_start capacity = (inbox_new capacity, \<lparr>accepted = (\<lambda>_. []), delivered = (\<lambda>_. []), dropped = (\<lambda>_. [])\<rparr>)"

definition balanced :: "nat \<Rightarrow> 'a inbox \<times> 'a ledger \<Rightarrow> bool" where
  "balanced capacity bl \<longleftrightarrow>
     (case bl of (b, l) \<Rightarrow> inbox_capacity b = max capacity 1
       \<and> (\<forall>k. length (waiting k b) \<le> inbox_capacity b
            \<and> mset (accepted l k) = mset (delivered l k) + mset (dropped l k) + mset (map qm_rest (waiting k b))))"

lemma queues_of_put [simp]: "queues_of k (put_queues j q b) = (if k = j then q else queues_of k b)"
  by (simp add: queues_of_def put_queues_def)

lemma put_capacity [simp]: "inbox_capacity (put_queues j q b) = inbox_capacity b"
  by (simp add: put_queues_def)

lemma queues_of_Some: "queues b k = Some q \<Longrightarrow> queues_of k b = q"
  by (simp add: queues_of_def)

lemma mset_insert_high [simp]: "mset (insert_high m q) = add_mset m (mset q)"
proof -
  have "mset (take n q) + mset (drop n q) = mset q" for n by (simp flip: mset_append)
  then show ?thesis by (simp add: insert_high_def Let_def)
qed

lemma length_insert_high [simp]: "length (insert_high m q) = Suc (length q)"
  using mset_insert_high [of m q] by (metis size_add_mset size_mset)

lemma post_simps [simp]:
  "post k xs f k = f k @ xs" "j \<noteq> k \<Longrightarrow> post k xs f j = f j"
  by (simp_all add: post_def)

lemma waiting_put: "waiting k (put_queues j q b) = (if k = j then next_turn q @ next_step q else waiting k b)"
  by (simp add: waiting_def)

lemma waiting_Some: "queues b k = Some q \<Longrightarrow> waiting k b = next_turn q @ next_step q"
  by (simp add: waiting_def queues_of_Some)

lemma enqueue_cases:
  assumes "enqueue_for_mode k m steer b = (b', out)"
  obtains (refused) "out \<notin> {QueuedForNextTurn, QueuedForNextStep}" "\<And>j. waiting j b' = waiting j b"
      "inbox_capacity b' = inbox_capacity b"
  | (stored) "out \<in> {QueuedForNextTurn, QueuedForNextStep}" "\<And>j. j \<noteq> k \<Longrightarrow> waiting j b' = waiting j b"
      "mset (waiting k b') = add_mset m (mset (waiting k b))" "length (waiting k b) < inbox_capacity b"
      "inbox_capacity b' = inbox_capacity b"
  using assms by (auto simp: enqueue_for_mode_def Let_def waiting_def split: if_splits)

lemma balancedD:
  assumes "balanced c (b, l)"
  shows "inbox_capacity b = max c 1" and "length (waiting k b) \<le> inbox_capacity b"
    and "mset (accepted l k) = mset (delivered l k) + mset (dropped l k) + mset (map qm_rest (waiting k b))"
  using assms unfolding balanced_def prod.case by blast+

text \<open>An operation on one session settles the balance of that session and leaves the others alone.\<close>

lemma balancedI:
  assumes "balanced c (b, l)" and "inbox_capacity b' = inbox_capacity b"
    and "\<And>j. j \<noteq> k \<Longrightarrow> waiting j b' = waiting j b \<and> accepted l' j = accepted l j
           \<and> delivered l' j = delivered l j \<and> dropped l' j = dropped l j"
    and "length (waiting k b') \<le> inbox_capacity b"
    and "mset (accepted l' k) = mset (delivered l' k) + mset (dropped l' k) + mset (map qm_rest (waiting k b'))"
  shows "balanced c (b', l')"
  unfolding balanced_def prod.case
proof (intro conjI allI)
  show "inbox_capacity b' = max c 1" using assms(2) balancedD(1) [OF assms(1)] by simp
  fix j
  show "length (waiting j b') \<le> inbox_capacity b'"
    using assms(2-4) balancedD(2) [OF assms(1), of j] by (cases "j = k") auto
  show "mset (accepted l' j) = mset (delivered l' j) + mset (dropped l' j) + mset (map qm_rest (waiting j b'))"
    using assms(3,5) balancedD(3) [OF assms(1), of j] by (cases "j = k") auto
qed

lemma enqueue_balanced:
  assumes "balanced c (b, l)"
  shows "balanced c (inbox_step (b, l) (Enqueue k m steer))"
proof -
  obtain b' out where e: "enqueue_for_mode k m steer b = (b', out)" by fastforce
  note bal = balancedD(2,3) [OF assms, of k]
  from e show ?thesis
  proof (cases rule: enqueue_cases)
    case refused
    with e have "inbox_step (b, l) (Enqueue k m steer) = (b', l)" by simp
    moreover have "balanced c (b', l)" by (rule balancedI [OF assms, of _ k]) (use refused bal in simp_all)
    ultimately show ?thesis by simp
  next
    case stored
    with e have "inbox_step (b, l) (Enqueue k m steer) = (b', l \<lparr>accepted := post k [qm_rest m] (accepted l)\<rparr>)" by auto
    moreover have "length (waiting k b') = Suc (length (waiting k b))" using stored(3) by (metis size_add_mset size_mset)
    moreover have "balanced c (b', l \<lparr>accepted := post k [qm_rest m] (accepted l)\<rparr>)"
      by (rule balancedI [OF assms, of _ k]) (use stored bal calculation(2) in simp_all)
    ultimately show ?thesis by simp
  qed
qed

lemma claim_balanced:
  assumes "balanced c (b, l)"
  shows "balanced c (inbox_step (b, l) (ClaimStep k))" and "balanced c (inbox_step (b, l) (ClaimTurn k))"
    and "balanced c (inbox_step (b, l) (Transfer k))" and "balanced c (inbox_step (b, l) (Clear k))"
proof -
  note bal = balancedD(2,3) [OF assms, of k]
  show "balanced c (inbox_step (b, l) (ClaimStep k))"
    using assms bal
    by (auto simp: claim_next_step_def post_def waiting_put waiting_Some split: option.splits intro!: balancedI [OF assms, of _ k])
  show "balanced c (inbox_step (b, l) (ClaimTurn k))"
    using assms bal
    by (auto simp: claim_next_turn_head_def post_def waiting_put waiting_Some split: option.splits list.splits
        intro!: balancedI [OF assms, of _ k])
  show "balanced c (inbox_step (b, l) (Transfer k))"
    using assms bal
    by (auto simp: transfer_next_step_to_next_turn_def Let_def comp_def waiting_put waiting_Some split: option.splits
        intro!: balancedI [OF assms, of _ k])
  have "waiting j (inbox_clear k b) = (if j = k then [] else waiting j b)" for j
    by (simp add: waiting_def inbox_clear_def queues_of_def no_queues_def)
  then show "balanced c (inbox_step (b, l) (Clear k))"
    using bal by (auto simp: inbox_clear_def post_def intro!: balancedI [OF assms, of _ k])
qed

interpretation inbox_runs: step_invariant inbox_step "balanced c" for c
proof
  fix s :: "'a inbox \<times> 'a ledger" and e :: "'a inbox_event"
  assume inv: "balanced c s"
  obtain b l where s: "s = (b, l)" by fastforce
  show "balanced c (inbox_step s e)"
    using inv enqueue_balanced claim_balanced by (cases e) (simp_all only: s)
qed

text \<open>
  No accepted message is lost or handed out twice: after any sequence of operations the messages a session
  accepted are, counted with multiplicity, those handed out, those dropped with the session and those still
  waiting; and never more wait than the capacity allows.
\<close>

theorem accepted_once:
  assumes "run_events inbox_step (inbox_start capacity) events = (b, l)"
  shows "mset (accepted l k) = mset (delivered l k) + mset (dropped l k) + mset (map qm_rest (waiting k b))
       \<and> fst (pending k b) + snd (pending k b) \<le> max capacity 1"
proof -
  have "balanced capacity (inbox_start capacity)"
    by (simp add: balanced_def inbox_start_def inbox_new_def waiting_def queues_of_def no_queues_def)
  from inbox_runs.run_keeps [OF this, of events] assms have "balanced capacity (b, l)" by simp
  then have b: "inbox_capacity b = max capacity 1" "length (waiting k b) \<le> inbox_capacity b"
      "mset (accepted l k) = mset (delivered l k) + mset (dropped l k) + mset (map qm_rest (waiting k b))"
    by (rule balancedD)+
  moreover have "fst (pending k b) + snd (pending k b) = length (waiting k b)"
    by (simp add: pending_def waiting_def queues_of_def no_queues_def split: option.split)
  ultimately show ?thesis by simp
qed

definition sample_message :: "message_priority \<Rightarrow> utext \<Rightarrow> nat \<Rightarrow> nat queued_message" where
  "sample_message p c n =
     \<lparr>qm_content = c, qm_metadata = (\<lambda>_. None), qm_rest = n, qm_timestamp = [], qm_priority = p\<rparr>"

definition sample_claim :: "nat inbox_event list" where
  "sample_claim = [Enqueue ''s'' (sample_message Normal (of_str ''! stop'') 7) True, Transfer ''s'', ClaimTurn ''s'']"

theorem accepted_once_witness:
  "let r = run_events inbox_step (inbox_start 2) sample_claim
   in accepted (snd r) ''s'' = [7] \<and> delivered (snd r) ''s'' = [7] \<and> mset (map qm_rest (waiting ''s'' (fst r))) = {#}"
proof -
  let ?r = "run_events inbox_step (inbox_start 2) sample_claim"
  have r: "accepted (snd ?r) ''s'' = [7]" "delivered (snd ?r) ''s'' = [7]" "dropped (snd ?r) ''s'' = []" by code_simp+
  have "mset (accepted (snd ?r) ''s'') = mset (delivered (snd ?r) ''s'') + mset (dropped (snd ?r) ''s'')
      + mset (map qm_rest (waiting ''s'' (fst ?r)))"
    by (rule accepted_once [OF prod.collapse [symmetric], THEN conjunct1])
  with r show ?thesis by (simp only: Let_def) simp
qed

section \<open>The queues as three plain queues\<close>

text \<open>
  The contract: urgent messages before ordinary ones, each in the order of arrival, interjections apart. The
  code keeps urgent and ordinary messages in one list.
\<close>

record 'a plain_queues =
  urgent :: "'a queued_message list"
  ordinary :: "'a queued_message list"
  steps :: "'a queued_message list"
  handed_out :: "'a list"

definition plain_start :: "'a plain_queues" where
  "plain_start = \<lparr>urgent = [], ordinary = [], steps = [], handed_out = []\<rparr>"

definition plain_enqueue :: "nat \<Rightarrow> 'a queued_message \<Rightarrow> bool \<Rightarrow> 'a plain_queues \<Rightarrow> 'a plain_queues" where
  "plain_enqueue c m steer t =
     (let n = length (urgent t) + length (ordinary t) + length (steps t);
          interjection = (steer \<and> is_steer_message (qm_content m)); high = (qm_priority m = High)
      in if c \<le> n \<or> soft_limit c \<le> n \<and> \<not> high \<and> \<not> interjection then t
         else if interjection then t \<lparr>steps := steps t @ [m]\<rparr>
         else if high then t \<lparr>urgent := urgent t @ [m]\<rparr>
         else t \<lparr>ordinary := ordinary t @ [m]\<rparr>)"

fun plain_step :: "nat \<Rightarrow> string \<Rightarrow> 'a plain_queues \<Rightarrow> 'a inbox_event \<Rightarrow> 'a plain_queues" where
  "plain_step c k t (Enqueue j m steer) = (if j = k then plain_enqueue c m steer t else t)"
| "plain_step c k t (ClaimStep j) =
     (if j = k then t \<lparr>steps := [], handed_out := handed_out t @ map qm_rest (steps t)\<rparr> else t)"
| "plain_step c k t (ClaimTurn j) =
     (if j = k then
        (case (urgent t, ordinary t) of
           (m # ms, _) \<Rightarrow> t \<lparr>urgent := ms, handed_out := handed_out t @ [qm_rest m]\<rparr>
         | ([], m # ms) \<Rightarrow> t \<lparr>ordinary := ms, handed_out := handed_out t @ [qm_rest m]\<rparr>
         | ([], []) \<Rightarrow> t)
      else t)"
| "plain_step c k t (Transfer j) =
     (if j = k then
        t \<lparr>ordinary := ordinary t @ map (\<lambda>m. m \<lparr>qm_content := strip_steer_marker (qm_content m)\<rparr>) (steps t), steps := []\<rparr>
      else t)"
| "plain_step c k t (Clear j) = (if j = k then t \<lparr>urgent := [], ordinary := [], steps := []\<rparr> else t)"

definition represents :: "nat \<Rightarrow> string \<Rightarrow> 'a inbox \<times> 'a ledger \<Rightarrow> 'a plain_queues \<Rightarrow> bool" where
  "represents c k bl t \<longleftrightarrow>
     next_turn (queues_of k (fst bl)) = urgent t @ ordinary t \<and> next_step (queues_of k (fst bl)) = steps t
     \<and> (\<forall>m \<in> set (urgent t). qm_priority m = High) \<and> (\<forall>m \<in> set (ordinary t) \<union> set (steps t). qm_priority m \<noteq> High)
     \<and> delivered (snd bl) k = handed_out t \<and> inbox_capacity (fst bl) = c"

fun plain_event :: "'a inbox_event \<Rightarrow> bool" where
  "plain_event (Enqueue k m steer) \<longleftrightarrow> \<not> (qm_priority m = High \<and> steer \<and> is_steer_message (qm_content m))"
| "plain_event _ \<longleftrightarrow> True"

lemma insert_high_plain:
  "\<forall>m \<in> set u. qm_priority m = High \<Longrightarrow> \<forall>m \<in> set v. qm_priority m \<noteq> High \<Longrightarrow> insert_high m (u @ v) = u @ m # v"
proof -
  assume u: "\<forall>m \<in> set u. qm_priority m = High" and v: "\<forall>m \<in> set v. qm_priority m \<noteq> High"
  have "takeWhile (\<lambda>x. is_high (qm_priority x)) v = []"
    using v by (cases v) (auto simp: is_high_def)
  with u have "takeWhile (\<lambda>x. is_high (qm_priority x)) (u @ v) = u"
    by (simp add: is_high_def takeWhile_append2)
  then show ?thesis by (simp add: insert_high_def Let_def)
qed

lemma enqueue_represents:
  assumes "represents c k (b, l) t" "plain_event (Enqueue j m steer)"
  shows "represents c k (inbox_step (b, l) (Enqueue j m steer)) (plain_step c k t (Enqueue j m steer))"
proof (cases "j = k")
  case False
  with assms show ?thesis
    by (auto simp: represents_def enqueue_for_mode_def Let_def post_def split: if_splits)
next
  case True
  from assms show ?thesis
    by (auto simp: True represents_def enqueue_for_mode_def plain_enqueue_def Let_def post_def is_high_def
        insert_high_plain)
qed

lemma step_represents:
  assumes "represents c k bl t" "plain_event e"
  shows "represents c k (inbox_step bl e) (plain_step c k t e)"
proof -
  obtain b l where bl: "bl = (b, l)" by fastforce
  have none: "queues b j = None \<Longrightarrow> queues_of j b = no_queues" for j by (simp add: queues_of_def)
  show ?thesis
  proof (cases e)
    case (Enqueue j m steer)
    with assms enqueue_represents bl show ?thesis by blast
  next
    case (ClaimStep j)
    with assms bl none [of j] show ?thesis
      by (auto simp: represents_def claim_next_step_def post_def no_queues_def queues_of_Some split: option.splits)
  next
    case (ClaimTurn j)
    with assms bl none [of j] show ?thesis
      by (auto simp: represents_def claim_next_turn_head_def post_def no_queues_def queues_of_Some append_eq_Cons_conv
          Cons_eq_append_conv split: option.splits list.splits)
  next
    case (Transfer j)
    with assms bl none [of j] show ?thesis
      by (auto simp: represents_def transfer_next_step_to_next_turn_def Let_def no_queues_def queues_of_Some
          split: option.splits)
  next
    case (Clear j)
    have "queues_of i (inbox_clear j b) = (if i = j then no_queues else queues_of i b)" for i
      by (simp add: inbox_clear_def queues_of_def)
    with Clear assms bl show ?thesis
      by (auto simp: represents_def no_queues_def) (simp_all add: inbox_clear_def)
  qed
qed

text \<open>
  C32. The inbox implements its contract: as long as no interjection is marked urgent, every session behaves
  under every sequence of operations like three queues, urgent messages first, then ordinary ones, each in the
  order of arrival, and interjections that miss their turn at the end of the ordinary ones: the same messages
  are handed out in the same order and the same ones wait.
\<close>

theorem inbox_refines_queues:
  assumes "\<forall>e \<in> set events. plain_event e"
    and "run_events inbox_step (inbox_start capacity) events = (b, l)"
    and "run_events (plain_step (max capacity 1) k) plain_start events = t"
  shows "delivered l k = handed_out t \<and> next_turn (queues_of k b) = urgent t @ ordinary t
       \<and> next_step (queues_of k b) = steps t"
proof -
  have "represents c k bl t \<Longrightarrow> \<forall>e \<in> set es. plain_event e \<Longrightarrow>
      represents c k (run_events inbox_step bl es) (run_events (plain_step c k) t es)" for c bl t and es :: "'a inbox_event list"
  proof (induction es arbitrary: bl t)
    case (Cons e es)
    then have "represents c k (inbox_step bl e) (plain_step c k t e)" by (intro step_represents) simp_all
    with Cons show ?case by simp
  qed simp
  moreover have "represents (max capacity 1) k (inbox_start capacity) plain_start"
    by (simp add: represents_def inbox_start_def inbox_new_def plain_start_def queues_of_def no_queues_def)
  ultimately have "represents (max capacity 1) k (b, l) t" using assms by metis
  then show ?thesis by (simp add: represents_def)
qed

definition sample_events :: "nat inbox_event list" where
  "sample_events =
     [Enqueue ''s'' (sample_message Normal (of_str ''a'') 1) True, Enqueue ''s'' (sample_message High (of_str ''b'') 2) True,
      Enqueue ''s'' (sample_message High (of_str ''c'') 3) True, Enqueue ''s'' (sample_message Normal (of_str ''!d'') 4) True,
      Transfer ''s'', ClaimTurn ''s'', ClaimTurn ''s'', ClaimTurn ''s'', ClaimTurn ''s'']"

theorem inbox_refines_queues_witness:
  "delivered (snd (run_events inbox_step (inbox_start 8) sample_events)) ''s'' = [2, 3, 1, 4]"
proof -
  have "\<forall>e \<in> set sample_events. plain_event e" by code_simp
  moreover have "handed_out (run_events (plain_step (max 8 1) ''s'') plain_start sample_events) = [2, 3, 1, 4]" by code_simp
  ultimately show ?thesis
    using inbox_refines_queues [OF _ prod.collapse [symmetric] refl, of sample_events 8 "''s''"] by metis
qed

text \<open>
  An urgent interjection that misses its turn comes to stand behind ordinary messages, and a later urgent
  message overtakes it.
\<close>

lemma transferred_high_overtaken:
  "delivered (snd (run_events inbox_step (inbox_start 8)
     [Enqueue ''s'' (sample_message Normal (of_str ''a'') 1) True, Enqueue ''s'' (sample_message High (of_str ''!b'') 2) True,
      Transfer ''s'', Enqueue ''s'' (sample_message High (of_str ''c'') 3) True,
      ClaimTurn ''s'', ClaimTurn ''s'', ClaimTurn ''s''])) ''s'' = [3, 1, 2]"
  by code_simp

end
