(* ===== verification/Profession.thy ===== *)
theory Profession
  imports Unicode_Text
begin

text \<open>
  Professions of cluster nodes (\<open>crates/nemesis-prompts/src/professions/meta.rs\<close>): the syntax of a slug, the
  built-in catalogue with the least tier a profession asks for, and the tier gate. The contract texts of the
  catalogue are prompt assets and left out.
\<close>

section \<open>ASCII case\<close>

definition ascii_lower_code :: "nat \<Rightarrow> nat" where
  "ascii_lower_code c = (if 65 \<le> c \<and> c \<le> 90 then c + 32 else c)"

definition text_ascii_lower :: "utext \<Rightarrow> utext" where
  "text_ascii_lower s = map ascii_lower_code s"

definition text_eq_ignore_case :: "utext \<Rightarrow> utext \<Rightarrow> bool" where
  "text_eq_ignore_case s t \<longleftrightarrow> text_ascii_lower s = text_ascii_lower t"

lemma ascii_lower_code_idem [simp]: "ascii_lower_code (ascii_lower_code c) = ascii_lower_code c"
  by (simp add: ascii_lower_code_def)

lemma text_ascii_lower_idem [simp]: "text_ascii_lower (text_ascii_lower s) = text_ascii_lower s"
  by (simp add: text_ascii_lower_def)

lemma is_white_lower [simp]: "is_white (ascii_lower_code c) = is_white c"
  by (auto simp: is_white_def ascii_lower_code_def)

lemma text_trim_lower: "text_trim (text_ascii_lower s) = text_ascii_lower (text_trim s)"
proof -
  have drop: "dropWhile is_white (map ascii_lower_code t) = map ascii_lower_code (dropWhile is_white t)" for t
    by (induction t) auto
  show ?thesis by (simp add: text_trim_def text_ascii_lower_def drop rev_map)
qed

section \<open>Slugs\<close>

datatype slug_error = Slug_Empty | Slug_Too_Long | Slug_Malformed

definition slug_code :: "nat \<Rightarrow> bool" where
  "slug_code c \<longleftrightarrow> 97 \<le> c \<and> c \<le> 122 \<or> 48 \<le> c \<and> c \<le> 57 \<or> c = 95 \<or> c = 45"

definition valid_segment :: "utext \<Rightarrow> bool" where
  "valid_segment s \<longleftrightarrow> s \<noteq> [] \<and> list_all slug_code s"

text \<open>\<open>split_once\<close> at the first occurrence of a character.\<close>

fun text_split_once :: "nat \<Rightarrow> utext \<Rightarrow> (utext \<times> utext) option" where
  "text_split_once c [] = None"
| "text_split_once c (d # s) =
     (if d = c then Some ([], s) else map_option (\<lambda>(a, b). (d # a, b)) (text_split_once c s))"

lemma text_split_once_None: "text_split_once c s = None \<longleftrightarrow> c \<notin> set s"
  by (induction s) auto

lemma text_split_once_Some: "text_split_once c s = Some (a, b) \<longleftrightarrow> s = a @ c # b \<and> c \<notin> set a"
proof (induction s arbitrary: a)
  case (Cons d s)
  then show ?case by (cases a) auto
qed simp

definition validate_slug :: "utext \<Rightarrow> slug_error option" where
  "validate_slug slug =
     (if slug = [] then Some Slug_Empty
      else if 64 < utf8_size slug then Some Slug_Too_Long
      else case text_split_once 58 slug of
        None \<Rightarrow> if valid_segment slug then None else Some Slug_Malformed
      | Some (family, spec) \<Rightarrow>
          if valid_segment family \<and> valid_segment spec then None else Some Slug_Malformed)"

definition split_slug :: "utext \<Rightarrow> (utext \<times> utext option) option" where
  "split_slug slug =
     (if validate_slug slug \<noteq> None then None
      else Some (case text_split_once 58 slug of
             Some (f, s) \<Rightarrow> (f, Some s)
           | None \<Rightarrow> (slug, None)))"

definition normalize_slug :: "utext \<Rightarrow> utext" where
  "normalize_slug slug = text_ascii_lower (text_trim slug)"

lemma normalize_slug_idem [simp]: "normalize_slug (normalize_slug s) = normalize_slug s"
proof -
  have "text_trim (text_trim s) = text_trim s"
  proof (cases "dropWhile is_white s = []")
    case True
    then have "text_trim s = []" unfolding text_trim_def True by simp
    then show ?thesis by (simp only:) (simp add: text_trim_def)
  next
    case False
    let ?u = "dropWhile is_white s"
    have "\<not> is_white (hd ?u)" using False by (rule hd_dropWhile)
    with False obtain m where "text_trim ?u = take m ?u" and m: "m \<le> length ?u"
      using text_trim_prefix by blast
    have trim_u: "text_trim s = rev (dropWhile is_white (rev ?u))" by (simp add: text_trim_def)
    show ?thesis
    proof (cases "text_trim s = []")
      case False
      then have "\<not> is_white (last (text_trim s))"
        unfolding trim_u by (metis hd_dropWhile last_rev rev.simps(1))
      moreover have "hd (text_trim s) = hd ?u"
        using False unfolding trim_u
        by (metis append_Nil2 hd_append2 rev_append rev_rev_ident takeWhile_dropWhile_id)
      ultimately show ?thesis using \<open>\<not> is_white (hd ?u)\<close> by (intro text_trim_id) simp
    next
      case True
      then show ?thesis by (simp only: True) (simp add: text_trim_def)
    qed
  qed
  then show ?thesis by (simp add: normalize_slug_def text_trim_lower)
qed

text \<open>The grammar of slugs: one segment, or two with a colon, at most 64 bytes.\<close>

definition slug_text :: "utext \<Rightarrow> utext option \<Rightarrow> utext" where
  "slug_text f s = (case s of None \<Rightarrow> f | Some t \<Rightarrow> f @ 58 # t)"

lemma valid_segment_no_colon: "valid_segment s \<Longrightarrow> 58 \<notin> set s"
  by (auto simp: valid_segment_def list_all_iff slug_code_def)

lemma slug_accepted_iff:
  "split_slug slug = Some (f, s) \<longleftrightarrow>
     slug = slug_text f s \<and> valid_segment f \<and> (\<forall>t. s = Some t \<longrightarrow> valid_segment t) \<and> utf8_size slug \<le> 64"
proof (cases "text_split_once 58 slug")
  case None
  then have nc: "58 \<notin> set slug" by (simp add: text_split_once_None)
  show ?thesis
  proof (cases s)
    case None': None
    with None show ?thesis
      by (auto simp: split_slug_def validate_slug_def slug_text_def valid_segment_def)
  next
    case (Some t)
    with None nc show ?thesis
      by (auto simp: split_slug_def validate_slug_def slug_text_def)
  qed
next
  case (Some p)
  obtain a b where p: "p = (a, b)" by fastforce
  with Some have slug: "slug = a @ 58 # b" "58 \<notin> set a" by (simp_all add: text_split_once_Some)
  show ?thesis
  proof (cases s)
    case None
    with slug Some p show ?thesis
      by (auto simp: split_slug_def validate_slug_def slug_text_def dest: valid_segment_no_colon)
  next
    case (Some t)
    have "a @ 58 # b = f @ 58 # t \<and> valid_segment f \<longleftrightarrow> a = f \<and> b = t \<and> valid_segment f"
      using slug(2) valid_segment_no_colon [of f] by (auto simp: append_eq_append_conv2 append_eq_Cons_conv Cons_eq_append_conv)
    with Some slug \<open>text_split_once 58 slug = Some p\<close> p show ?thesis
      by (auto simp: split_slug_def validate_slug_def slug_text_def)
  qed
qed

lemma validate_slug_split: "validate_slug slug = None \<longleftrightarrow> split_slug slug \<noteq> None"
  by (simp add: split_slug_def)

section \<open>Catalogue and tiers\<close>

record profession_meta =
  pm_slug :: utext
  pm_name :: utext
  pm_family :: utext
  pm_spec :: "utext option"
  pm_min_tier :: utext
  pm_artifacts :: "utext list"
  pm_tool_trim :: "utext list"

definition catalog :: "profession_meta list" where
  "catalog =
    [\<lparr> pm_slug = of_str ''product'', pm_name = [20135, 21697, 32463, 29702], pm_family = of_str ''product'',
       pm_spec = None, pm_min_tier = of_str ''normal'', pm_artifacts = [of_str ''docs/prd.md''],
       pm_tool_trim = [of_str ''exec'', of_str ''async_shell'', of_str ''git''] \<rparr>,
     \<lparr> pm_slug = of_str ''ui-design'', pm_name = of_str ''UI '' @ [35774, 35745], pm_family = of_str ''ui-design'',
       pm_spec = None, pm_min_tier = of_str ''normal'',
       pm_artifacts = [of_str ''design/ui-spec.md'', of_str ''design/prototype.html''],
       pm_tool_trim = [of_str ''git''] \<rparr>,
     \<lparr> pm_slug = of_str ''architecture'', pm_name = [26550, 26500, 24072], pm_family = of_str ''architecture'',
       pm_spec = None, pm_min_tier = of_str ''big'', pm_artifacts = [of_str ''docs/architecture.md''],
       pm_tool_trim = [] \<rparr>,
     \<lparr> pm_slug = of_str ''dev'', pm_name = [24320, 21457, 24037, 31243, 24072], pm_family = of_str ''dev'',
       pm_spec = None, pm_min_tier = of_str ''normal'', pm_artifacts = [], pm_tool_trim = [] \<rparr>,
     \<lparr> pm_slug = of_str ''dev:cpp'', pm_name = [24320, 21457, 24037, 31243, 24072, 183] @ of_str ''C/C++'',
       pm_family = of_str ''dev'', pm_spec = Some (of_str ''cpp''), pm_min_tier = of_str ''big'',
       pm_artifacts = [], pm_tool_trim = [] \<rparr>,
     \<lparr> pm_slug = of_str ''test-whitebox'', pm_name = [30333, 30418, 27979, 35797, 24320, 21457],
       pm_family = of_str ''test-whitebox'', pm_spec = None, pm_min_tier = of_str ''normal'',
       pm_artifacts = [of_str ''docs/test-report-whitebox.md''], pm_tool_trim = [] \<rparr>,
     \<lparr> pm_slug = of_str ''test-blackbox'', pm_name = [40657, 30418, 27979, 35797],
       pm_family = of_str ''test-blackbox'', pm_spec = None, pm_min_tier = of_str ''normal'',
       pm_artifacts = [of_str ''docs/test-report-blackbox.md''], pm_tool_trim = [of_str ''git''] \<rparr>]"

definition find_builtin :: "utext \<Rightarrow> profession_meta option" where
  "find_builtin slug = (let norm = normalize_slug slug in find (\<lambda>m. pm_slug m = norm) catalog)"

text \<open>\<open>role_tier::rank\<close>: unknown names rank lowest.\<close>

definition tier_rank :: "utext \<Rightarrow> nat" where
  "tier_rank tier = (if tier = of_str ''normal'' then 1 else if tier = of_str ''big'' then 2 else 0)"

definition tier_allows :: "utext option \<Rightarrow> utext \<Rightarrow> bool" where
  "tier_allows node_tier min_tier =
     (case node_tier of
        None \<Rightarrow> True
      | Some t \<Rightarrow> let node = text_trim t in
          if node = [] then True else tier_rank min_tier \<le> tier_rank (text_ascii_lower node))"

definition min_tier_for_set :: "utext list \<Rightarrow> utext option" where
  "min_tier_for_set slugs =
     (let ranks = map (\<lambda>m. tier_rank (pm_min_tier m)) (List.map_filter find_builtin slugs) in
      if ranks = [] then None
      else Some (let r = Max (set ranks) in
             if r = 0 then of_str ''mini'' else if r = 1 then of_str ''normal'' else of_str ''big''))"

lemma tier_rank_le_2: "tier_rank t \<le> 2"
  by (simp add: tier_rank_def)

lemma catalog_slugs_split:
  "list_all (\<lambda>m. split_slug (pm_slug m) = Some (pm_family m, pm_spec m)) catalog \<and> distinct (map pm_slug catalog)"
  by code_simp

text \<open>The default tier of a node passes the gate of every profession the node declares, and no lower tier does.\<close>

lemma tier_names_kept:
  assumes "t \<in> {of_str ''mini'', of_str ''normal'', of_str ''big''}"
  shows "text_ascii_lower (text_trim t) = t \<and> text_trim t \<noteq> []"
proof -
  have "list_all (\<lambda>t. text_ascii_lower (text_trim t) = t \<and> text_trim t \<noteq> [])
      [of_str ''mini'', of_str ''normal'', of_str ''big'']"
    by code_simp
  with assms show ?thesis by auto
qed

lemma min_tier_for_set_rank:
  assumes "min_tier_for_set slugs = Some t"
  shows "t \<in> {of_str ''mini'', of_str ''normal'', of_str ''big''} \<and>
    tier_rank t = Max (set (map (\<lambda>m. tier_rank (pm_min_tier m)) (List.map_filter find_builtin slugs)))"
proof -
  let ?ranks = "map (\<lambda>m. tier_rank (pm_min_tier m)) (List.map_filter find_builtin slugs)"
  have ne: "?ranks \<noteq> []" using assms by (auto simp: min_tier_for_set_def Let_def)
  have "Max (set ?ranks) \<le> 2" using ne tier_rank_le_2 by (subst Max_le_iff) auto
  with assms ne show ?thesis
    by (auto simp: min_tier_for_set_def Let_def tier_rank_def split: if_splits)
qed

text \<open>
  The tier a node gets by default from the professions it declares is the least one that passes the gate of each of
  them that is built in: it passes all, and every tier name that passes all ranks at least as high.
\<close>

theorem default_tier_passes_gates:
  assumes "min_tier_for_set slugs = Some t"
  shows "(\<forall>s \<in> set slugs. \<forall>m. find_builtin s = Some m \<longrightarrow> tier_allows (Some t) (pm_min_tier m)) \<and>
    (\<forall>u. text_trim u \<noteq> [] \<and> (\<forall>s \<in> set slugs. \<forall>m. find_builtin s = Some m \<longrightarrow> tier_allows (Some u) (pm_min_tier m))
      \<longrightarrow> tier_rank t \<le> tier_rank (text_ascii_lower (text_trim u)))"
proof -
  let ?f = "\<lambda>m. tier_rank (pm_min_tier m)"
  let ?ms = "List.map_filter find_builtin slugs"
  have t: "t \<in> {of_str ''mini'', of_str ''normal'', of_str ''big''}" and rank: "tier_rank t = Max (set (map ?f ?ms))"
    using min_tier_for_set_rank [OF assms] by blast+
  have ne: "?ms \<noteq> []" using assms by (auto simp: min_tier_for_set_def Let_def)
  have ms: "m \<in> set ?ms \<longleftrightarrow> (\<exists>s \<in> set slugs. find_builtin s = Some m)" for m
    by (auto simp: map_filter_Some) force
  have "tier_allows (Some t) (pm_min_tier m)" if "m \<in> set ?ms" for m
    using that tier_names_kept [OF t] rank by (simp add: tier_allows_def Let_def)
  moreover have "tier_rank t \<le> tier_rank (text_ascii_lower (text_trim u))"
    if "text_trim u \<noteq> []" "\<And>m. m \<in> set ?ms \<Longrightarrow> tier_allows (Some u) (pm_min_tier m)" for u
    using that ne unfolding rank by (auto simp: tier_allows_def Let_def)
  ultimately show ?thesis unfolding Ball_def using ms by metis
qed

end
