(* ===== verification/Board_Plan.thy ===== *)
theory Board_Plan
  imports Profession Prelude "HOL-Library.List_Lexorder"
begin

text \<open>
  The board's task decomposition (\<open>crates/nemesis-board/src/planner.rs\<close>): extracting and checking the plan a
  language model wrote, with the strict parser, the lenient parser of the last round, the depth-first search for
  dependency cycles and the check for subtasks that write the same path. The JSON decoder is an argument.
\<close>

section \<open>Data\<close>

record planned_sub =
  sub_title :: utext
  sub_description :: utext
  sub_required_role :: utext
  sub_required_tags :: "utext list"
  sub_required_profession :: utext
  sub_required_backend :: utext
  sub_required_capabilities :: "utext list"
  sub_acceptance_criteria :: utext
  sub_depends_on :: "nat list"

text \<open>One constructor per message of \<open>PlanParseError\<close>, with what the message shows.\<close>

datatype plan_error =
    No_Array
  | Bad_Json utext
  | Empty_Plan
  | Too_Many nat
  | Blank_Title nat
  | Bad_Profession nat utext slug_error
  | Bad_Backend nat utext
  | Bad_Capability nat utext
  | Dep_Range nat nat nat
  | Self_Dep nat nat
  | Cycle "nat list"
  | Shared_Touch "(nat \<times> nat \<times> utext) list"

definition max_subissues :: nat where
  "max_subissues = 20"

section \<open>Finding the array in the answer\<close>

definition extract_json_array :: "utext \<Rightarrow> utext option" where
  "extract_json_array raw =
     (if 91 \<notin> set raw \<or> 93 \<notin> set raw then None
      else let start = length (takeWhile (\<lambda>c. c \<noteq> 91) raw);
               end' = length raw - 1 - length (takeWhile (\<lambda>c. c \<noteq> 93) (rev raw)) in
        if end' < start then None else Some (drop start (take (Suc end') raw)))"

section \<open>Checks of one subtask\<close>

definition profession_format_error :: "nat \<Rightarrow> utext \<Rightarrow> plan_error option" where
  "profession_format_error index raw =
     (let trimmed = text_trim raw in
      if trimmed = [] then None
      else map_option (Bad_Profession index trimmed) (validate_slug trimmed))"

definition backend_format_error :: "nat \<Rightarrow> utext \<Rightarrow> plan_error option" where
  "backend_format_error index normalized =
     (if normalized = [] \<or> normalized = of_str ''process'' \<or> normalized = of_str ''vm'' then None
      else Some (Bad_Backend index normalized))"

definition bad_capability :: "utext \<Rightarrow> bool" where
  "bad_capability cap =
     (let trimmed = text_trim cap in trimmed = [] \<or> list_ex is_white trimmed \<or> 64 < length trimmed)"

definition capabilities_format_error :: "nat \<Rightarrow> utext list \<Rightarrow> plan_error option" where
  "capabilities_format_error index caps =
     map_option (Bad_Capability index) (find bad_capability caps)"

fun check_deps :: "nat \<Rightarrow> nat \<Rightarrow> nat list \<Rightarrow> plan_error option" where
  "check_deps tot i [] = None"
| "check_deps tot i (dep # deps) =
     (if tot \<le> dep then Some (Dep_Range i dep tot)
      else if dep = i then Some (Self_Dep i dep)
      else check_deps tot i deps)"

text \<open>The body of the loop of \<open>parse_plan\<close>; the backend is normalised in place.\<close>

definition strict_sub :: "nat \<Rightarrow> nat \<Rightarrow> planned_sub \<Rightarrow> plan_error + planned_sub" where
  "strict_sub tot i sub =
     (if text_trim (sub_title sub) = [] then Inl (Blank_Title i)
      else
        let blank = text_trim (sub_required_backend sub) = [];
            normalized = text_ascii_lower (text_trim (sub_required_backend sub));
            sub' = (if blank then sub else sub\<lparr>sub_required_backend := normalized\<rparr>) in
        case (if blank then None else backend_format_error i normalized) of Some e \<Rightarrow> Inl e
      | None \<Rightarrow> (case profession_format_error i (sub_required_profession sub) of Some e \<Rightarrow> Inl e
      | None \<Rightarrow> (case capabilities_format_error i (sub_required_capabilities sub) of Some e \<Rightarrow> Inl e
      | None \<Rightarrow> (case check_deps tot i (sub_depends_on sub) of Some e \<Rightarrow> Inl e
      | None \<Rightarrow> Inr sub'))))"

fun strict_subs :: "nat \<Rightarrow> nat \<Rightarrow> planned_sub list \<Rightarrow> plan_error + planned_sub list" where
  "strict_subs tot i [] = Inr []"
| "strict_subs tot i (s # subs) =
     (case strict_sub tot i s of Inl e \<Rightarrow> Inl e
      | Inr s' \<Rightarrow> (case strict_subs tot (Suc i) subs of Inl e \<Rightarrow> Inl e | Inr subs' \<Rightarrow> Inr (s' # subs')))"

text \<open>The body of the loop of \<open>parse_plan_lenient\<close>: a bad profession is emptied and reported.\<close>

definition lenient_sub :: "nat \<Rightarrow> nat \<Rightarrow> planned_sub \<Rightarrow> plan_error + planned_sub \<times> (nat \<times> utext) list" where
  "lenient_sub tot i sub =
     (if text_trim (sub_title sub) = [] then Inl (Blank_Title i)
      else
        let bad = profession_format_error i (sub_required_profession sub) \<noteq> None;
            down = (if bad then [(i, sub_required_profession sub)] else []);
            sub1 = (if bad then sub\<lparr>sub_required_profession := []\<rparr> else sub);
            normalized = text_ascii_lower (text_trim (sub_required_backend sub));
            sub2 = (if text_trim (sub_required_backend sub) = [] then sub1
                    else if normalized = of_str ''process'' \<or> normalized = of_str ''vm''
                    then sub1\<lparr>sub_required_backend := normalized\<rparr>
                    else sub1\<lparr>sub_required_backend := []\<rparr>);
            sub3 = sub2\<lparr>sub_required_capabilities := filter (Not \<circ> bad_capability) (sub_required_capabilities sub)\<rparr> in
        case check_deps tot i (sub_depends_on sub) of Some e \<Rightarrow> Inl e | None \<Rightarrow> Inr (sub3, down))"

fun lenient_subs :: "nat \<Rightarrow> nat \<Rightarrow> planned_sub list \<Rightarrow> plan_error + planned_sub list \<times> (nat \<times> utext) list" where
  "lenient_subs tot i [] = Inr ([], [])"
| "lenient_subs tot i (s # subs) =
     (case lenient_sub tot i s of Inl e \<Rightarrow> Inl e
      | Inr (s', down) \<Rightarrow> (case lenient_subs tot (Suc i) subs of Inl e \<Rightarrow> Inl e
         | Inr (subs', downs) \<Rightarrow> Inr (s' # subs', down @ downs)))"

section \<open>Cycles\<close>

text \<open>
  The depth-first search with its vector of colours (0 new, 1 on the stack, 2 finished) and its stack. The answer
  \<open>None\<close> stands for an index out of range (a panic of the code) and for the end of the fuel; \<open>search_answers\<close> below
  excludes both.
\<close>

type_synonym search = "nat list \<times> nat list"

definition cycle_members :: "nat list \<Rightarrow> nat \<Rightarrow> nat list" where
  "cycle_members stack i = dropWhile (\<lambda>s. s \<noteq> i) stack @ [i]"

function visit :: "nat \<Rightarrow> planned_sub list \<Rightarrow> nat \<Rightarrow> search \<Rightarrow> (plan_error + search) option"
  and visit_deps :: "nat \<Rightarrow> planned_sub list \<Rightarrow> nat list \<Rightarrow> search \<Rightarrow> (plan_error + search) option" where
  "visit 0 plan i st = None"
| "visit (Suc n) plan i (color, stack) =
     (if length color \<le> i \<or> length plan \<le> i then None
      else if color ! i = 2 then Some (Inr (color, stack))
      else if color ! i = 1 then Some (Inl (Cycle (cycle_members stack i)))
      else case visit_deps n plan (sub_depends_on (plan ! i)) (color[i := 1], stack @ [i]) of
             None \<Rightarrow> None
           | Some (Inl e) \<Rightarrow> Some (Inl e)
           | Some (Inr (color', stack')) \<Rightarrow> Some (Inr (color'[i := 2], butlast stack')))"
| "visit_deps n plan [] st = Some (Inr st)"
| "visit_deps n plan (d # ds) st =
     (case visit n plan d st of
        None \<Rightarrow> None
      | Some (Inl e) \<Rightarrow> Some (Inl e)
      | Some (Inr st') \<Rightarrow> visit_deps n plan ds st')"
  by pat_completeness auto

termination
  by (relation "measures [\<lambda>x. case x of Inl (n, _, _, _) \<Rightarrow> n | Inr (n, _, _, _) \<Rightarrow> n,
      \<lambda>x. case x of Inl _ \<Rightarrow> 0 | Inr (_, _, ds, _) \<Rightarrow> Suc (length ds)]") auto

lemma visit_code [code]:
  "visit n plan i st =
     (if n = 0 then None
      else case st of (color, stack) \<Rightarrow>
        if length color \<le> i \<or> length plan \<le> i then None
        else if color ! i = 2 then Some (Inr (color, stack))
        else if color ! i = 1 then Some (Inl (Cycle (cycle_members stack i)))
        else case visit_deps (n - 1) plan (sub_depends_on (plan ! i)) (color[i := 1], stack @ [i]) of
               None \<Rightarrow> None
             | Some (Inl e) \<Rightarrow> Some (Inl e)
             | Some (Inr (color', stack')) \<Rightarrow> Some (Inr (color'[i := 2], butlast stack')))"
  by (cases n; cases st) simp_all

definition detect_cycle :: "planned_sub list \<Rightarrow> (plan_error + unit) option" where
  "detect_cycle plan =
     (case visit_deps (Suc (length plan)) plan [0..<length plan] (replicate (length plan) 0, []) of
        None \<Rightarrow> None
      | Some (Inl e) \<Rightarrow> Some (Inl e)
      | Some (Inr _) \<Rightarrow> Some (Inr ()))"

section \<open>Paths written by several subtasks\<close>

definition touch_path :: "utext \<Rightarrow> utext option" where
  "touch_path line =
     (let t = text_trim line in
      if text_starts_with t (of_str ''[TOUCH]'')
      then let p = text_trim (drop 7 t) in if p = [] then None else Some p
      else None)"

fun touch_scan :: "utext list \<Rightarrow> utext list \<Rightarrow> utext list" where
  "touch_scan out [] = out"
| "touch_scan out (line # lines) =
     (case touch_path line of
        Some p \<Rightarrow> touch_scan (if p \<in> set out then out else out @ [p]) lines
      | None \<Rightarrow> touch_scan out lines)"

definition parse_touch_paths :: "utext \<Rightarrow> utext list" where
  "parse_touch_paths criteria = touch_scan [] (text_lines criteria)"

text \<open>The tree map of owners, as an association list in key order.\<close>

fun owner_push :: "nat \<Rightarrow> utext \<Rightarrow> (utext \<times> nat list) list \<Rightarrow> (utext \<times> nat list) list" where
  "owner_push i p [] = [(p, [i])]"
| "owner_push i p ((q, is) # m) =
     (if p = q then (q, is @ [i]) # m
      else if p < q then (p, [i]) # (q, is) # m
      else (q, is) # owner_push i p m)"

fun touch_owners :: "nat \<Rightarrow> planned_sub list \<Rightarrow> (utext \<times> nat list) list \<Rightarrow> (utext \<times> nat list) list" where
  "touch_owners i [] m = m"
| "touch_owners i (s # subs) m =
     touch_owners (Suc i) subs (fold (owner_push i) (parse_touch_paths (sub_acceptance_criteria s)) m)"

fun pairs_in_order :: "'a list \<Rightarrow> ('a \<times> 'a) list" where
  "pairs_in_order [] = []"
| "pairs_in_order (x # xs) = map (Pair x) xs @ pairs_in_order xs"

definition has_edge :: "planned_sub list \<Rightarrow> nat \<Rightarrow> nat \<Rightarrow> bool" where
  "has_edge plan a b \<longleftrightarrow> b \<in> set (sub_depends_on (plan ! a)) \<or> a \<in> set (sub_depends_on (plan ! b))"

definition analyze_shared_touch :: "planned_sub list \<Rightarrow> plan_error option" where
  "analyze_shared_touch plan =
     (let violations = concat (map (\<lambda>(path, subs).
            map (\<lambda>(a, b). (a, b, path)) (filter (\<lambda>(a, b). \<not> has_edge plan a b) (pairs_in_order subs)))
          (touch_owners 0 plan [])) in
      if violations = [] then None else Some (Shared_Touch violations))"

section \<open>The two parsers\<close>

definition check_size :: "planned_sub list \<Rightarrow> plan_error option" where
  "check_size plan =
     (if plan = [] then Some Empty_Plan
      else if max_subissues < length plan then Some (Too_Many (length plan))
      else None)"

definition check_graph :: "planned_sub list \<Rightarrow> (plan_error + unit) option" where
  "check_graph plan =
     (case detect_cycle plan of
        Some (Inr _) \<Rightarrow> Some (case analyze_shared_touch plan of Some e \<Rightarrow> Inl e | None \<Rightarrow> Inr ())
      | r \<Rightarrow> r)"

definition parse_plan ::
    "(utext \<Rightarrow> utext + planned_sub list) \<Rightarrow> utext \<Rightarrow> (plan_error + planned_sub list) option" where
  "parse_plan decode raw =
     (case extract_json_array raw of
        None \<Rightarrow> Some (Inl No_Array)
      | Some json \<Rightarrow> (case decode json of
          Inl e \<Rightarrow> Some (Inl (Bad_Json e))
        | Inr plan \<Rightarrow> (case check_size plan of
            Some e \<Rightarrow> Some (Inl e)
          | None \<Rightarrow> (case strict_subs (length plan) 0 plan of
              Inl e \<Rightarrow> Some (Inl e)
            | Inr plan' \<Rightarrow> map_option (map_sum id (\<lambda>_. plan')) (check_graph plan')))))"

definition parse_plan_lenient ::
    "(utext \<Rightarrow> utext + planned_sub list) \<Rightarrow> utext
      \<Rightarrow> (plan_error + planned_sub list \<times> (nat \<times> utext) list) option" where
  "parse_plan_lenient decode raw =
     (case extract_json_array raw of
        None \<Rightarrow> Some (Inl No_Array)
      | Some json \<Rightarrow> (case decode json of
          Inl e \<Rightarrow> Some (Inl (Bad_Json e))
        | Inr plan \<Rightarrow> (case check_size plan of
            Some e \<Rightarrow> Some (Inl e)
          | None \<Rightarrow> (case lenient_subs (length plan) 0 plan of
              Inl e \<Rightarrow> Some (Inl e)
            | Inr (plan', down) \<Rightarrow> map_option (map_sum id (\<lambda>_. (plan', down))) (check_graph plan')))))"

section \<open>The search is exact\<close>

definition dep_edges :: "planned_sub list \<Rightarrow> (nat \<times> nat) set" where
  "dep_edges plan = {(i, d). i < length plan \<and> d \<in> set (sub_depends_on (plan ! i))}"

definition deps_in_range :: "planned_sub list \<Rightarrow> bool" where
  "deps_in_range plan \<longleftrightarrow> (\<forall>(i, d) \<in> dep_edges plan. d < length plan)"

definition is_cycle :: "planned_sub list \<Rightarrow> nat list \<Rightarrow> bool" where
  "is_cycle plan ms \<longleftrightarrow> 2 \<le> length ms \<and> hd ms = last ms
     \<and> successively (\<lambda>a b. (a, b) \<in> dep_edges plan) ms"

definition finished :: "nat list \<Rightarrow> nat set" where
  "finished color = {i. i < length color \<and> color ! i = 2}"

definition on_stack :: "nat list \<Rightarrow> nat set" where
  "on_stack color = {i. i < length color \<and> color ! i = 1}"

definition search_inv :: "planned_sub list \<Rightarrow> search \<Rightarrow> bool" where
  "search_inv plan st \<longleftrightarrow> (case st of (color, stack) \<Rightarrow>
     length color = length plan \<and> distinct stack \<and> set stack = on_stack color
     \<and> dep_edges plan `` finished color \<subseteq> finished color
     \<and> acyclic (dep_edges plan \<inter> finished color \<times> finished color)
     \<and> successively (\<lambda>a b. (a, b) \<in> dep_edges plan) stack)"

lemma acyclic_insert_source:
  assumes closed: "E `` B \<subseteq> B" and new: "i \<notin> B" "E `` {i} \<subseteq> B" and acyc: "acyclic (E \<inter> B \<times> B)"
  shows "acyclic (E \<inter> insert i B \<times> insert i B)"
proof -
  let ?R = "E \<inter> insert i B \<times> insert i B"
  have stays: "b \<in> B \<and> (a \<in> B \<longrightarrow> (a, b) \<in> (E \<inter> B \<times> B)\<^sup>+)" if "(a, b) \<in> ?R\<^sup>+" for a b
    using that
  proof (induction rule: trancl_induct)
    case (base b)
    then show ?case using closed new by auto
  next
    case (step b c)
    then have "c \<in> B" "(b, c) \<in> E \<inter> B \<times> B" using closed by auto
    with step.IH show ?case by (auto intro: trancl_into_trancl)
  qed
  then show ?thesis using acyc unfolding acyclic_def by blast
qed

lemma cycle_not_acyclic:
  assumes "is_cycle plan ms"
  shows "\<not> acyclic (dep_edges plan)"
proof -
  have path: "successively (\<lambda>a b. (a, b) \<in> E) (x # y # ys) \<Longrightarrow> (x, last (y # ys)) \<in> E\<^sup>+" for E :: "('a \<times> 'a) set" and x y ys
  proof (induction ys arbitrary: x y)
    case (Cons z zs)
    then have "(y, last (z # zs)) \<in> E\<^sup>+" and "(x, y) \<in> E" by simp_all
    then show ?case by (simp add: trancl_into_trancl2)
  qed simp
  obtain x y ys where ms: "ms = x # y # ys"
    using assms by (cases ms; cases "tl ms") (auto simp: is_cycle_def)
  moreover have "x = last (y # ys)" using assms by (simp add: is_cycle_def ms)
  ultimately have "(x, x) \<in> (dep_edges plan)\<^sup>+"
    using assms path [of "dep_edges plan" x y ys] unfolding is_cycle_def by metis
  then show ?thesis by (auto simp: acyclic_def)
qed

lemma members_form_cycle:
  assumes "i \<in> set stack" "successively (\<lambda>a b. (a, b) \<in> dep_edges plan) stack" "(last stack, i) \<in> dep_edges plan"
  shows "is_cycle plan (cycle_members stack i)"
proof -
  obtain us vs where split: "stack = us @ i # vs" "i \<notin> set us"
    using split_list_first [OF assms(1)] by blast
  then have members: "cycle_members stack i = i # vs @ [i]"
    by (subst cycle_members_def) (auto simp: dropWhile_append)
  have "successively (\<lambda>a b. (a, b) \<in> dep_edges plan) (i # vs)"
    using assms(2) split by (simp add: successively_append_iff)
  moreover have "last (i # vs) = last stack" using split by simp
  ultimately have "successively (\<lambda>a b. (a, b) \<in> dep_edges plan) ((i # vs) @ [i])"
    using assms(3) by (simp only: successively_append_iff) simp
  then show ?thesis by (simp add: is_cycle_def members)
qed

lemma push_keeps_inv:
  assumes "search_inv plan (color, stack)" "i < length plan" "color ! i \<noteq> 1" "color ! i \<noteq> 2"
    "stack = [] \<or> (last stack, i) \<in> dep_edges plan"
  shows "search_inv plan (color[i := 1], stack @ [i])" and "finished (color[i := 1]) = finished color"
proof -
  have i: "i < length color" using assms by (simp add: search_inv_def)
  with assms show fin: "finished (color[i := 1]) = finished color"
    by (auto simp: finished_def nth_list_update split: if_splits)
  have "on_stack (color[i := 1]) = insert i (on_stack color)"
    using assms i by (auto simp: on_stack_def nth_list_update)
  moreover have "i \<notin> set stack" using assms by (auto simp: search_inv_def on_stack_def)
  ultimately show "search_inv plan (color[i := 1], stack @ [i])"
    using assms fin by (auto simp: search_inv_def successively_append_iff)
qed

lemma pop_keeps_inv:
  assumes inv: "search_inv plan (color, stack @ [i])"
    and deps: "set (sub_depends_on (plan ! i)) \<subseteq> finished color"
  shows "search_inv plan (color[i := 2], stack)" and "finished (color[i := 2]) = insert i (finished color)"
proof -
  have i: "i < length color" "color ! i = 1" using inv by (auto simp: search_inv_def on_stack_def)
  then show fin: "finished (color[i := 2]) = insert i (finished color)"
    by (auto simp: finished_def nth_list_update)
  have "on_stack (color[i := 2]) = on_stack color - {i}"
    using i by (auto simp: on_stack_def nth_list_update)
  then have stack: "set stack = on_stack (color[i := 2])" using inv by (auto simp: search_inv_def)
  have new: "i \<notin> finished color" using i by (simp add: finished_def)
  have edges: "dep_edges plan `` {i} \<subseteq> finished color" using deps by (auto simp: dep_edges_def)
  with inv have "dep_edges plan `` insert i (finished color) \<subseteq> insert i (finished color)"
    by (auto simp: search_inv_def)
  moreover have "acyclic (dep_edges plan \<inter> insert i (finished color) \<times> insert i (finished color))"
    by (rule acyclic_insert_source) (use inv new edges in \<open>auto simp: search_inv_def\<close>)
  ultimately show "search_inv plan (color[i := 2], stack)"
    using inv stack fin by (auto simp: search_inv_def successively_append_iff)
qed

text \<open>What a call promises: an answer, a real cycle, or the node and all it needs finished and the stack as before.\<close>

definition good_visit :: "planned_sub list \<Rightarrow> nat set \<Rightarrow> search \<Rightarrow> (plan_error + search) option \<Rightarrow> bool" where
  "good_visit plan done' st r \<longleftrightarrow> (case r of
      None \<Rightarrow> False
    | Some (Inl e) \<Rightarrow> (\<exists>ms. e = Cycle ms \<and> is_cycle plan ms)
    | Some (Inr st') \<Rightarrow> snd st' = snd st \<and> search_inv plan st'
        \<and> finished (fst st) \<subseteq> finished (fst st') \<and> done' \<subseteq> finished (fst st'))"

lemma stack_bound: "search_inv plan (color, stack) \<Longrightarrow> length stack \<le> length plan"
proof -
  assume inv: "search_inv plan (color, stack)"
  then have "set stack \<subseteq> {..<length plan}" by (auto simp: search_inv_def on_stack_def)
  then have "card (set stack) \<le> length plan" using card_mono [of "{..<length plan}"] by simp
  with inv distinct_card [of stack] show ?thesis by (simp add: search_inv_def)
qed

lemma search_correct:
  "deps_in_range plan \<Longrightarrow> search_inv plan st \<Longrightarrow> length plan < n + length (snd st) \<Longrightarrow> i < length plan
     \<Longrightarrow> snd st = [] \<or> (last (snd st), i) \<in> dep_edges plan \<Longrightarrow> good_visit plan {i} st (visit n plan i st)"
  "deps_in_range plan \<Longrightarrow> search_inv plan st \<Longrightarrow> length plan < n + length (snd st) \<Longrightarrow> set ds \<subseteq> {..<length plan}
     \<Longrightarrow> snd st = [] \<or> {last (snd st)} \<times> set ds \<subseteq> dep_edges plan \<Longrightarrow> good_visit plan (set ds) st (visit_deps n plan ds st)"
proof (induction n plan i st and n plan ds st rule: visit_visit_deps.induct)
  case (1 plan i st)
  then show ?case using stack_bound [of plan "fst st" "snd st"] by simp
next
  case (2 n plan i color stack)
  have len: "length color = length plan" using 2 by (simp add: search_inv_def)
  consider "color ! i = 2" | "color ! i = 1" | "color ! i \<noteq> 1" "color ! i \<noteq> 2" by blast
  then show ?case
  proof cases
    case 1
    with 2 len show ?thesis by (simp add: good_visit_def finished_def)
  next
    case c: 2
    with 2 len have "i \<in> set stack" by (simp add: search_inv_def on_stack_def)
    moreover from this 2 have "(last stack, i) \<in> dep_edges plan" by auto
    ultimately have "is_cycle plan (cycle_members stack i)"
      using 2 by (intro members_form_cycle) (simp_all add: search_inv_def)
    with 2 len c show ?thesis by (simp add: good_visit_def)
  next
    case 3
    let ?st = "(color[i := 1], stack @ [i])"
    let ?r = "visit_deps n plan (sub_depends_on (plan ! i)) ?st"
    have push: "search_inv plan ?st" "finished (color[i := 1]) = finished color"
      using 2 3 push_keeps_inv [of plan color stack i] by simp_all
    have "good_visit plan (set (sub_depends_on (plan ! i))) ?st ?r"
      by (rule "2.IH") (use 2 3 len push in \<open>auto simp: deps_in_range_def dep_edges_def\<close>)
    then show ?thesis
      using 2 3 len push pop_keeps_inv [of plan _ stack i]
      by (auto simp: good_visit_def split: option.splits sum.splits prod.splits)
  qed
next
  case (3 n plan st)
  then show ?case by (simp add: good_visit_def)
next
  case (4 n plan d ds st)
  have first: "good_visit plan {d} st (visit n plan d st)" by (rule "4.IH"(1)) (use 4 in auto)
  show ?case
  proof (cases "visit n plan d st")
    case None
    with first show ?thesis by (simp add: good_visit_def)
  next
    case (Some r)
    show ?thesis
    proof (cases r)
      case (Inl e)
      with Some first show ?thesis by (simp add: good_visit_def)
    next
      case (Inr st')
      with Some first have st': "snd st' = snd st" "search_inv plan st'" "finished (fst st) \<subseteq> finished (fst st')"
        "d \<in> finished (fst st')"
        by (simp_all add: good_visit_def)
      have "good_visit plan (set ds) st' (visit_deps n plan ds st')"
        by (rule "4.IH"(2) [OF Some Inr]) (use 4 st' in auto)
      with Some Inr st' show ?thesis
        by (auto simp: good_visit_def split: option.splits sum.splits)
    qed
  qed
qed

text \<open>
  The search always answers; it answers with a real cycle exactly when the dependencies have one.
\<close>

lemma detect_cycle_exact:
  assumes range: "deps_in_range plan"
  shows "(detect_cycle plan = Some (Inr ()) \<and> acyclic (dep_edges plan)) \<or>
    (\<exists>ms. detect_cycle plan = Some (Inl (Cycle ms)) \<and> is_cycle plan ms)"
proof -
  let ?st = "(replicate (length plan) 0, [])"
  let ?r = "visit_deps (Suc (length plan)) plan [0..<length plan] ?st"
  have none: "finished (replicate (length plan) 0) = {}" by (auto simp: finished_def)
  then have "search_inv plan ?st" by (auto simp: search_inv_def on_stack_def acyclic_def)
  then have good: "good_visit plan {..<length plan} ?st ?r"
    using search_correct(2) [OF range, of ?st "Suc (length plan)" "[0..<length plan]"]
    by (simp add: atLeast0LessThan)
  have all: "acyclic (dep_edges plan)" if "search_inv plan st" "{..<length plan} \<subseteq> finished (fst st)" for st
  proof -
    have "dep_edges plan \<subseteq> finished (fst st) \<times> finished (fst st)"
      using that range by (auto simp: deps_in_range_def dep_edges_def)
    then have "dep_edges plan \<inter> finished (fst st) \<times> finished (fst st) = dep_edges plan" by blast
    with that show ?thesis by (cases st) (simp add: search_inv_def)
  qed
  from good show ?thesis
    by (cases ?r) (auto simp: good_visit_def detect_cycle_def split: sum.splits intro: all)
qed

section \<open>The table of owners\<close>

definition touched :: "planned_sub \<Rightarrow> utext set" where
  "touched s = set (parse_touch_paths (sub_acceptance_criteria s))"

lemma touch_scan_spec:
  "distinct out \<Longrightarrow> distinct (touch_scan out ls)
     \<and> set (touch_scan out ls) = set out \<union> {p. \<exists>l \<in> set ls. touch_path l = Some p}"
  by (induction out ls rule: touch_scan.induct) (auto split: option.splits)

lemma distinct_parse_touch_paths: "distinct (parse_touch_paths c)"
  by (simp add: parse_touch_paths_def touch_scan_spec)

definition owners_of :: "(utext \<times> nat list) list \<Rightarrow> utext \<Rightarrow> nat list" where
  "owners_of m p = (case map_of m p of None \<Rightarrow> [] | Some js \<Rightarrow> js)"

definition key_sorted :: "(utext \<times> nat list) list \<Rightarrow> bool" where
  "key_sorted m \<longleftrightarrow> sorted_wrt (<) (map fst m)"

lemma owner_push_keys: "fst ` set (owner_push i p m) = insert p (fst ` set m)"
  by (induction i p m rule: owner_push.induct) auto

lemma key_sorted_push: "key_sorted m \<Longrightarrow> key_sorted (owner_push i p m)"
proof (induction i p m rule: owner_push.induct)
  case (2 i p q js m)
  have below: "\<forall>k \<in> fst ` set m. q < k" using 2 by (auto simp: key_sorted_def)
  consider "p = q" | "p < q" | "q < p" by (rule linorder_cases)
  then show ?case
  proof cases
    case 3
    with 2 have "key_sorted (owner_push i p m)" by (simp add: key_sorted_def)
    moreover have "\<forall>k \<in> fst ` set (owner_push i p m). q < k"
      unfolding owner_push_keys using below 3 by auto
    ultimately show ?thesis using 3 by (auto simp: key_sorted_def)
  qed (use 2 below in \<open>auto simp: key_sorted_def\<close>)
qed (simp add: key_sorted_def)

lemma owners_of_push:
  "key_sorted m \<Longrightarrow> owners_of (owner_push i p m) q = (if q = p then owners_of m p @ [i] else owners_of m q)"
proof (induction i p m rule: owner_push.induct)
  case (2 i p k js m)
  have "map_of m p = None" if "p < k"
  proof -
    have "p \<notin> fst ` set m" using 2 that by (auto simp: key_sorted_def)
    then show ?thesis by (simp add: map_of_eq_None_iff)
  qed
  with 2 show ?case by (auto simp: owners_of_def key_sorted_def)
qed (simp add: owners_of_def)

lemma owners_of_pushes:
  "key_sorted m \<Longrightarrow> distinct ps \<Longrightarrow> key_sorted (fold (owner_push i) ps m)
     \<and> owners_of (fold (owner_push i) ps m) q = owners_of m q @ (if q \<in> set ps then [i] else [])"
proof (induction ps arbitrary: m)
  case (Cons p ps)
  then show ?case
    using Cons.IH [of "owner_push i p m"] by (auto simp: key_sorted_push owners_of_push)
qed simp

lemma owners_of_table:
  "key_sorted m \<Longrightarrow> key_sorted (touch_owners i subs m)
     \<and> owners_of (touch_owners i subs m) q
         = owners_of m q @ filter (\<lambda>j. q \<in> touched (subs ! (j - i))) [i..<i + length subs]"
proof (induction i subs m rule: touch_owners.induct)
  case (2 i s subs m)
  let ?m = "fold (owner_push i) (parse_touch_paths (sub_acceptance_criteria s)) m"
  have one: "key_sorted ?m" "owners_of ?m q = owners_of m q @ (if q \<in> touched s then [i] else [])"
    using owners_of_pushes [OF "2.prems" distinct_parse_touch_paths] by (simp_all add: touched_def)
  have "filter (\<lambda>j. q \<in> touched ((s # subs) ! (j - i))) [i..<i + length (s # subs)]
      = (if q \<in> touched s then [i] else []) @ filter (\<lambda>j. q \<in> touched ((s # subs) ! (j - i))) [Suc i..<Suc i + length subs]"
    by (subst upt_conv_Cons) auto
  also have "filter (\<lambda>j. q \<in> touched ((s # subs) ! (j - i))) [Suc i..<Suc i + length subs]
      = filter (\<lambda>j. q \<in> touched (subs ! (j - Suc i))) [Suc i..<Suc i + length subs]"
    by (rule filter_cong) (auto simp: nth_Cons')
  finally show ?case using "2.IH" [OF one(1)] one(2) by simp
qed simp

lemma set_pairs_in_order:
  "sorted_wrt (<) xs \<Longrightarrow> (a, b) \<in> set (pairs_in_order xs) \<longleftrightarrow> a \<in> set xs \<and> b \<in> set xs \<and> a < (b::nat)"
  by (induction xs) auto

text \<open>The check refuses exactly the plans in which two subtasks write the same path and neither names the other.\<close>

definition writers_ordered :: "planned_sub list \<Rightarrow> bool" where
  "writers_ordered plan \<longleftrightarrow> (\<forall>a b. a < b \<and> b < length plan \<and> touched (plan ! a) \<inter> touched (plan ! b) \<noteq> {}
     \<longrightarrow> (a, b) \<in> dep_edges plan \<or> (b, a) \<in> dep_edges plan)"

lemma analyze_shared_touch_iff: "analyze_shared_touch plan = None \<longleftrightarrow> writers_ordered plan"
proof -
  let ?t = "touch_owners 0 plan []"
  have "key_sorted ([] :: (utext \<times> nat list) list)" by (simp add: key_sorted_def)
  note table = owners_of_table [OF this, of 0 plan]
  then have owners: "owners_of ?t p = filter (\<lambda>j. p \<in> touched (plan ! j)) [0..<length plan]" for p
    by (simp add: owners_of_def)
  have keys: "distinct (map fst ?t)"
    using table unfolding key_sorted_def by (metis strict_sorted_iff)
  have pairs: "(a, b) \<in> set (pairs_in_order (owners_of ?t p)) \<longleftrightarrow>
      a < b \<and> b < length plan \<and> p \<in> touched (plan ! a) \<inter> touched (plan ! b)" for p a b
    unfolding owners by (subst set_pairs_in_order) (auto intro: sorted_wrt_filter)
  have entry: "(p, js) \<in> set ?t \<Longrightarrow> owners_of ?t p = js" for p js
    using keys by (simp add: owners_of_def)
  have found: "js \<noteq> [] \<Longrightarrow> owners_of ?t p = js \<Longrightarrow> (p, js) \<in> set ?t" for p js
    by (auto simp: owners_of_def split: option.splits dest: map_of_SomeD)
  have edge: "has_edge plan a b \<longleftrightarrow> (a, b) \<in> dep_edges plan \<or> (b, a) \<in> dep_edges plan" if "a < b" "b < length plan" for a b
    using that by (auto simp: has_edge_def dep_edges_def)
  have "analyze_shared_touch plan = None \<longleftrightarrow>
      (\<forall>p js. (p, js) \<in> set ?t \<longrightarrow> (\<forall>a b. (a, b) \<in> set (pairs_in_order js) \<longrightarrow> has_edge plan a b))"
    by (simp add: analyze_shared_touch_def Let_def filter_empty_conv split_def) (metis fst_conv prod.collapse snd_conv)
  also have "\<dots> \<longleftrightarrow> (\<forall>p a b. (a, b) \<in> set (pairs_in_order (owners_of ?t p)) \<longrightarrow> has_edge plan a b)"
    by (metis entry found pairs_in_order.simps(1) empty_iff list.set(1))
  also have "\<dots> \<longleftrightarrow> writers_ordered plan"
    unfolding pairs writers_ordered_def using edge by blast
  finally show ?thesis .
qed

section \<open>The parsers are exact\<close>

definition fields_ok :: "planned_sub \<Rightarrow> bool" where
  "fields_ok s \<longleftrightarrow> text_trim (sub_title s) \<noteq> []
     \<and> text_ascii_lower (text_trim (sub_required_backend s)) \<in> {[], of_str ''process'', of_str ''vm''}
     \<and> (text_trim (sub_required_profession s) = [] \<or> validate_slug (text_trim (sub_required_profession s)) = None)
     \<and> (\<forall>c \<in> set (sub_required_capabilities s). \<not> bad_capability c)"

definition normalised :: "planned_sub \<Rightarrow> planned_sub" where
  "normalised s = (if text_trim (sub_required_backend s) = [] then s
     else s\<lparr>sub_required_backend := text_ascii_lower (text_trim (sub_required_backend s))\<rparr>)"

definition well_formed_plan :: "planned_sub list \<Rightarrow> bool" where
  "well_formed_plan plan \<longleftrightarrow> plan \<noteq> [] \<and> length plan \<le> max_subissues \<and> (\<forall>s \<in> set plan. fields_ok s)
     \<and> deps_in_range plan \<and> acyclic (dep_edges plan) \<and> writers_ordered plan"

lemma check_deps_None: "check_deps n i ds = None \<longleftrightarrow> (\<forall>d \<in> set ds. d < n \<and> d \<noteq> i)"
  by (induction n i ds rule: check_deps.induct) auto

lemma capabilities_ok: "capabilities_format_error i caps = None \<longleftrightarrow> (\<forall>c \<in> set caps. \<not> bad_capability c)"
  by (auto simp: capabilities_format_error_def find_None_iff)

lemma profession_ok: "profession_format_error i p = None \<longleftrightarrow> text_trim p = [] \<or> validate_slug (text_trim p) = None"
  by (simp add: profession_format_error_def Let_def)

lemma text_ascii_lower_Nil [simp]: "text_ascii_lower s = [] \<longleftrightarrow> s = []"
  by (simp add: text_ascii_lower_def)

lemma backend_ok:
  "(if text_trim b = [] then None else backend_format_error i (text_ascii_lower (text_trim b))) = None
     \<longleftrightarrow> text_ascii_lower (text_trim b) \<in> {[], of_str ''process'', of_str ''vm''}"
  by (cases "text_trim b = []") (auto simp: backend_format_error_def)

lemma strict_sub_Inr:
  "strict_sub n i s = Inr s' \<longleftrightarrow> fields_ok s \<and> check_deps n i (sub_depends_on s) = None \<and> s' = normalised s"
  unfolding strict_sub_def fields_ok_def normalised_def Let_def backend_ok [of _ i, symmetric]
    capabilities_ok [of i, symmetric] profession_ok [of i, symmetric]
  by (auto split: option.splits simp del: insert_iff)

lemma strict_subs_Inr:
  "strict_subs n i subs = Inr subs' \<longleftrightarrow>
     (\<forall>s \<in> set subs. fields_ok s) \<and> (\<forall>k < length subs. check_deps n (i + k) (sub_depends_on (subs ! k)) = None)
     \<and> subs' = map normalised subs"
proof (induction n i subs arbitrary: subs' rule: strict_subs.induct)
  case (2 n i s subs)
  show ?case
  proof (cases "strict_sub n i s")
    case (Inl e)
    then have "\<not> (fields_ok s \<and> check_deps n i (sub_depends_on s) = None)"
      using strict_sub_Inr [of n i s "normalised s"] by auto
    with Inl show ?thesis by (auto simp: All_less_Suc2)
  next
    case (Inr t)
    then have s: "fields_ok s" "check_deps n i (sub_depends_on s) = None" "t = normalised s"
      using strict_sub_Inr [of n i s t] by auto
    have "strict_subs n i (s # subs) = Inr subs' \<longleftrightarrow> (\<exists>ts. strict_subs n (Suc i) subs = Inr ts \<and> subs' = t # ts)"
      by (auto simp: Inr split: sum.splits)
    then show ?thesis unfolding 2 [OF Inr] using s by (auto simp: All_less_Suc2)
  qed
qed auto

end
