(* ===== verification/Board_Parsers.thy ===== *)
theory Board_Parsers
  imports Board_Plan
begin

text \<open>
  What the two parsers of the board's decomposition accept: the strict one exactly the well-formed plans, the lenient
  one the same plans unchanged and otherwise only repaired plans that the strict one would accept.
\<close>

section \<open>The array in the answer\<close>

lemma extract_array_iff:
  "extract_json_array raw = Some json \<longleftrightarrow>
     (\<exists>u v. raw = u @ json @ v \<and> 91 \<notin> set u \<and> 93 \<notin> set v \<and> json \<noteq> [] \<and> hd json = 91 \<and> last json = 93)"
proof
  assume "extract_json_array raw = Some json"
  then have mem: "91 \<in> set raw" "93 \<in> set raw"
    and def: "length (takeWhile (\<lambda>c. c \<noteq> 91) raw) \<le> length raw - 1 - length (takeWhile (\<lambda>c. c \<noteq> 93) (rev raw))"
      "json = drop (length (takeWhile (\<lambda>c. c \<noteq> 91) raw))
        (take (Suc (length raw - 1 - length (takeWhile (\<lambda>c. c \<noteq> 93) (rev raw)))) raw)"
    by (auto simp: extract_json_array_def Let_def split: if_splits)
  obtain u w where u: "raw = u @ 91 # w" "91 \<notin> set u" using split_list_first [OF mem(1)] by blast
  obtain x v where v: "raw = x @ 93 # v" "93 \<notin> set v" using split_list_last [OF mem(2)] by blast
  have lu: "length (takeWhile (\<lambda>c. c \<noteq> 91) raw) = length u" using u by (simp add: takeWhile_neq_append)
  have "rev raw = rev v @ 93 # rev x" using v by simp
  then have "takeWhile (\<lambda>c. c \<noteq> 93) (rev raw) = rev v" using v(2) takeWhile_neq_append [of 93 "rev v" "rev x"] by simp
  then have lx: "length raw - 1 - length (takeWhile (\<lambda>c. c \<noteq> 93) (rev raw)) = length x" using v(1) by simp
  have le: "length u \<le> length x" and json: "json = drop (length u) (x @ [93])"
    using def unfolding lu lx by (simp_all add: v(1))
  have "take (length u) raw = take (length u) x" using le v(1) by simp
  then have "u = take (length u) x" using u(1) by simp
  then have "x @ [93] = u @ json" using le json by (metis append_take_drop_id take_append diff_is_0_eq take_0 append_Nil2)
  moreover from this have ne: "json \<noteq> []" using le by (auto dest: arg_cong [of _ _ length])
  moreover have "raw = u @ json @ v" using v(1) calculation by (metis append.assoc append_Cons append_Nil)
  moreover have "hd json = 91" using u(1) calculation ne by (cases json) auto
  moreover have "last json = 93" using calculation by (metis last_appendR last_snoc)
  ultimately show "\<exists>u v. raw = u @ json @ v \<and> 91 \<notin> set u \<and> 93 \<notin> set v \<and> json \<noteq> [] \<and> hd json = 91 \<and> last json = 93"
    using u(2) v(2) by blast
next
  assume "\<exists>u v. raw = u @ json @ v \<and> 91 \<notin> set u \<and> 93 \<notin> set v \<and> json \<noteq> [] \<and> hd json = 91 \<and> last json = 93"
  then obtain u v where raw: "raw = u @ json @ v" and nu: "91 \<notin> set u" and nv: "93 \<notin> set v"
    and json: "json \<noteq> []" "hd json = 91" "last json = 93" by blast
  obtain j where j: "json = 91 # j" using json by (cases json) auto
  obtain k where k: "json = k @ [93]" using json by (metis append_butlast_last_id)
  have lu: "length (takeWhile (\<lambda>c. c \<noteq> 91) raw) = length u"
    using nu unfolding raw j by (simp add: takeWhile_neq_append)
  have "rev raw = rev v @ 93 # rev (u @ k)" unfolding raw k by simp
  then have "takeWhile (\<lambda>c. c \<noteq> 93) (rev raw) = rev v" using nv takeWhile_neq_append [of 93 "rev v" "rev (u @ k)"] by simp
  then have lx: "length raw - 1 - length (takeWhile (\<lambda>c. c \<noteq> 93) (rev raw)) = length (u @ k)"
    unfolding raw k by simp
  have "91 \<in> set raw" "93 \<in> set raw" using raw j k by (simp, metis Un_iff in_set_conv_decomp set_append)
  moreover have "drop (length u) (take (Suc (length (u @ k))) raw) = json"
    unfolding raw by (simp add: k)
  ultimately show "extract_json_array raw = Some json"
    unfolding extract_json_array_def lu lx Let_def by simp
qed

section \<open>Repairing one subtask\<close>

definition bad_profession :: "planned_sub \<Rightarrow> bool" where
  "bad_profession s \<longleftrightarrow> text_trim (sub_required_profession s) \<noteq> []
     \<and> validate_slug (text_trim (sub_required_profession s)) \<noteq> None"

definition repaired :: "planned_sub \<Rightarrow> planned_sub" where
  "repaired s = s\<lparr>
     sub_required_profession := (if bad_profession s then [] else sub_required_profession s),
     sub_required_backend :=
       (let n = text_ascii_lower (text_trim (sub_required_backend s)) in
        if n = [] then sub_required_backend s
        else if n = of_str ''process'' \<or> n = of_str ''vm'' then n else []),
     sub_required_capabilities := filter (Not \<circ> bad_capability) (sub_required_capabilities s)\<rparr>"

lemma lenient_sub_eq:
  "lenient_sub n i s =
     (if text_trim (sub_title s) = [] then Inl (Blank_Title i)
      else case check_deps n i (sub_depends_on s) of Some e \<Rightarrow> Inl e
        | None \<Rightarrow> Inr (repaired s, if bad_profession s then [(i, sub_required_profession s)] else []))"
proof -
  have bad: "profession_format_error i (sub_required_profession s) \<noteq> None \<longleftrightarrow> bad_profession s"
    using profession_ok [of i] by (auto simp: bad_profession_def)
  let ?n = "text_ascii_lower (text_trim (sub_required_backend s))"
  let ?s1 = "if bad_profession s then s\<lparr>sub_required_profession := []\<rparr> else s"
  have "(if text_trim (sub_required_backend s) = [] then ?s1
      else if ?n = of_str ''process'' \<or> ?n = of_str ''vm'' then ?s1\<lparr>sub_required_backend := ?n\<rparr>
      else ?s1\<lparr>sub_required_backend := []\<rparr>)
      \<lparr>sub_required_capabilities := filter (Not \<circ> bad_capability) (sub_required_capabilities s)\<rparr> = repaired s"
    by (rule planned_sub.equality) (simp_all add: repaired_def Let_def)
  then show ?thesis by (simp only: lenient_sub_def Let_def bad)
qed

lemma lenient_sub_Inr:
  "lenient_sub n i s = Inr (t, down) \<longleftrightarrow>
     text_trim (sub_title s) \<noteq> [] \<and> check_deps n i (sub_depends_on s) = None \<and> t = repaired s
     \<and> down = (if bad_profession s then [(i, sub_required_profession s)] else [])"
  by (auto simp: lenient_sub_eq split: option.splits)

lemma map_sum_Inr: "map_sum id f z = Inr y \<longleftrightarrow> (\<exists>u. z = Inr u \<and> y = f u)"
  by (cases z) auto

lemma kept_fields [simp]:
  "sub_depends_on (repaired s) = sub_depends_on s" "sub_acceptance_criteria (repaired s) = sub_acceptance_criteria s"
  "sub_title (repaired s) = sub_title s"
  "sub_depends_on (normalised s) = sub_depends_on s" "sub_acceptance_criteria (normalised s) = sub_acceptance_criteria s"
  by (simp_all add: repaired_def normalised_def)

lemma backend_words:
  assumes "w \<in> {[], of_str ''process'', of_str ''vm''}"
  shows "text_ascii_lower (text_trim w) = w"
proof -
  have "text_ascii_lower (text_trim (of_str ''process'')) = of_str ''process''" by code_simp
  moreover have "text_ascii_lower (text_trim (of_str ''vm'')) = of_str ''vm''" by code_simp
  moreover have "text_ascii_lower (text_trim []) = []" by code_simp
  ultimately show ?thesis using assms by blast
qed

lemma backend_repaired:
  "sub_required_backend (repaired s) \<in> {[], of_str ''process'', of_str ''vm''} \<or>
     text_trim (sub_required_backend (repaired s)) = []"
  by (simp add: repaired_def Let_def)

lemma fields_ok_repaired: "text_trim (sub_title s) \<noteq> [] \<Longrightarrow> fields_ok (repaired s)"
  unfolding fields_ok_def
proof (intro conjI)
  show "text_ascii_lower (text_trim (sub_required_backend (repaired s))) \<in> {[], of_str ''process'', of_str ''vm''}"
    using backend_repaired [of s]
  proof
    assume "sub_required_backend (repaired s) \<in> {[], of_str ''process'', of_str ''vm''}"
    then show ?thesis by (subst backend_words)
  qed simp
qed (auto simp: repaired_def bad_profession_def text_trim_def)

lemma repaired_of_ok:
  assumes "fields_ok s"
  shows "repaired s = normalised s" and "\<not> bad_profession s"
proof -
  have "filter (Not \<circ> bad_capability) (sub_required_capabilities s) = sub_required_capabilities s"
    using assms by (auto simp: fields_ok_def filter_id_conv)
  with assms show "repaired s = normalised s" "\<not> bad_profession s"
    by (auto simp: repaired_def normalised_def fields_ok_def bad_profession_def Let_def)
qed

lemma normalised_repaired: "normalised (repaired s) = repaired s"
  using backend_repaired [of s]
proof
  assume "sub_required_backend (repaired s) \<in> {[], of_str ''process'', of_str ''vm''}"
  from backend_words [OF this] show ?thesis by (simp add: normalised_def)
qed (simp add: normalised_def)

section \<open>Whole plans\<close>

lemma dep_edges_map [simp]:
  "dep_edges (map normalised plan) = dep_edges plan" "dep_edges (map repaired plan) = dep_edges plan"
  by (auto simp: dep_edges_def)

lemma deps_in_range_map [simp]:
  "deps_in_range (map normalised plan) = deps_in_range plan" "deps_in_range (map repaired plan) = deps_in_range plan"
  by (simp_all add: deps_in_range_def)

lemma touched_kept [simp]: "touched (normalised s) = touched s" "touched (repaired s) = touched s"
  by (simp_all add: touched_def)

lemma writers_ordered_map [simp]:
  "writers_ordered (map normalised plan) = writers_ordered plan" "writers_ordered (map repaired plan) = writers_ordered plan"
  by (simp_all add: writers_ordered_def cong: conj_cong)

lemma deps_checked:
  assumes "\<forall>k < length plan. check_deps (length plan) k (sub_depends_on (plan ! k)) = None"
  shows "deps_in_range plan"
  using assms by (fastforce simp: deps_in_range_def dep_edges_def check_deps_None)

lemma deps_check_of_order:
  assumes "deps_in_range plan" "acyclic (dep_edges plan)"
  shows "\<forall>k < length plan. check_deps (length plan) k (sub_depends_on (plan ! k)) = None"
  using assms by (fastforce simp: deps_in_range_def dep_edges_def check_deps_None acyclic_def)

lemma check_graph_iff:
  assumes "deps_in_range plan"
  shows "check_graph plan \<noteq> None"
    and "check_graph plan = Some (Inr ()) \<longleftrightarrow> acyclic (dep_edges plan) \<and> writers_ordered plan"
  using detect_cycle_exact [OF assms] cycle_not_acyclic analyze_shared_touch_iff [of plan]
  by (auto simp: check_graph_def split: option.splits)

lemma check_size_None: "check_size plan = None \<longleftrightarrow> plan \<noteq> [] \<and> length plan \<le> max_subissues"
  by (auto simp: check_size_def)

text \<open>
  C35. \<open>parse_plan\<close> always answers, without an index out of range, and accepts exactly the answers whose JSON array
  decodes to a well-formed plan: at most 20 subtasks and at least one, titles not blank, fields of the right form,
  dependencies that name subtasks of the plan and have no cycle, and writers of the same path ordered by a
  dependency. What it returns is that plan with the backend names in normal form.
\<close>

theorem strict_parser_exact:
  "parse_plan decode raw \<noteq> None \<and>
   (parse_plan decode raw = Some (Inr plan) \<longleftrightarrow>
     (\<exists>json plan0. extract_json_array raw = Some json \<and> decode json = Inr plan0
        \<and> well_formed_plan plan0 \<and> plan = map normalised plan0))"
proof (cases "extract_json_array raw")
  case None
  then show ?thesis by (simp add: parse_plan_def)
next
  case json: (Some json)
  show ?thesis
  proof (cases "decode json")
    case (Inl e)
    with json show ?thesis by (simp add: parse_plan_def)
  next
    case (Inr plan0)
    consider (size) "check_size plan0 \<noteq> None"
      | (sub) e where "check_size plan0 = None" "strict_subs (length plan0) 0 plan0 = Inl e"
      | (ok) plan1 where "check_size plan0 = None" "strict_subs (length plan0) 0 plan0 = Inr plan1"
      by (cases "strict_subs (length plan0) 0 plan0") auto
    then show ?thesis
    proof cases
      case size
      then obtain e where e: "check_size plan0 = Some e" by blast
      moreover from size have "\<not> well_formed_plan plan0" unfolding check_size_None by (auto simp: well_formed_plan_def)
      ultimately show ?thesis using json Inr by (simp add: parse_plan_def)
    next
      case sub
      then have "\<not> well_formed_plan plan0"
        using strict_subs_Inr [of "length plan0" 0 plan0 "map normalised plan0"] deps_check_of_order [of plan0]
        by (auto simp: well_formed_plan_def)
      with sub json Inr show ?thesis by (simp add: parse_plan_def)
    next
      case ok
      then have s: "\<forall>s \<in> set plan0. fields_ok s" "deps_in_range plan0" "plan1 = map normalised plan0"
        using strict_subs_Inr [of "length plan0" 0 plan0 plan1] deps_checked [of plan0] by auto
      with ok check_size_None have wf: "well_formed_plan plan0 \<longleftrightarrow> acyclic (dep_edges plan0) \<and> writers_ordered plan0"
        by (auto simp: well_formed_plan_def)
      have graph: "check_graph plan1 \<noteq> None" "check_graph plan1 = Some (Inr ()) \<longleftrightarrow> well_formed_plan plan0"
        using check_graph_iff [of plan1] s wf by simp_all
      then obtain r where r: "check_graph plan1 = Some r" by blast
      with graph ok json Inr s show ?thesis by (cases r) (auto simp: parse_plan_def)
    qed
  qed
qed

lemma lenient_subs_Inr:
  "lenient_subs n i subs = Inr (subs', down) \<longleftrightarrow>
     (\<forall>s \<in> set subs. text_trim (sub_title s) \<noteq> [])
     \<and> (\<forall>k < length subs. check_deps n (i + k) (sub_depends_on (subs ! k)) = None)
     \<and> subs' = map repaired subs
     \<and> down = map (\<lambda>(k, s). (k, sub_required_profession s)) (filter (\<lambda>x. bad_profession (snd x)) (enumerate i subs))"
proof (induction n i subs arbitrary: subs' down rule: lenient_subs.induct)
  case (2 n i s subs)
  let ?ok = "text_trim (sub_title s) \<noteq> [] \<and> check_deps n i (sub_depends_on s) = None"
  show ?case
  proof (cases "lenient_sub n i s")
    case (Inl e)
    then have "\<not> ?ok" using lenient_sub_Inr [of n i s] by auto
    with Inl show ?thesis by (auto simp: All_less_Suc2)
  next
    case (Inr r)
    obtain t d where r: "r = (t, d)" by fastforce
    with Inr have s: ?ok "t = repaired s" "d = (if bad_profession s then [(i, sub_required_profession s)] else [])"
      using lenient_sub_Inr [of n i s t d] by auto
    have "lenient_subs n i (s # subs) = Inr (subs', down) \<longleftrightarrow>
        (\<exists>ts ds. lenient_subs n (Suc i) subs = Inr (ts, ds) \<and> subs' = t # ts \<and> down = d @ ds)"
      by (auto simp: Inr r split: sum.splits)
    then show ?thesis unfolding 2 [OF Inr r [symmetric]] using s by (auto simp: All_less_Suc2)
  qed
qed auto

text \<open>
  The lenient parser of the last round accepts every plan the strict one accepts, with the same result and
  nothing reported; and whatever it accepts is a well-formed plan that the checks of the strict parser accept
  unchanged, with exactly the emptied professions reported.
\<close>

theorem lenient_extends_strict:
  "(parse_plan decode raw = Some (Inr plan) \<longrightarrow> parse_plan_lenient decode raw = Some (Inr (plan, []))) \<and>
   (parse_plan_lenient decode raw = Some (Inr (plan, down)) \<longrightarrow>
      well_formed_plan plan \<and> strict_subs (length plan) 0 plan = Inr plan \<and> check_graph plan = Some (Inr ()) \<and>
      (\<exists>json plan0. extract_json_array raw = Some json \<and> decode json = Inr plan0 \<and> length plan = length plan0 \<and>
         (\<forall>k p. (k, p) \<in> set down \<longleftrightarrow> k < length plan0 \<and> p = sub_required_profession (plan0 ! k)
            \<and> bad_profession (plan0 ! k) \<and> sub_required_profession (plan ! k) = [])))"
proof (intro conjI impI)
  assume "parse_plan decode raw = Some (Inr plan)"
  then obtain json plan0 where src: "extract_json_array raw = Some json" "decode json = Inr plan0"
    and size: "check_size plan0 = None" and subs: "strict_subs (length plan0) 0 plan0 = Inr plan"
    and graph: "check_graph plan = Some (Inr ())"
    by (auto simp: parse_plan_def map_sum_Inr split: option.splits sum.splits)
  have s: "\<forall>s \<in> set plan0. fields_ok s" "plan = map normalised plan0"
    "\<forall>k < length plan0. check_deps (length plan0) k (sub_depends_on (plan0 ! k)) = None"
    using subs strict_subs_Inr [of "length plan0" 0 plan0 plan] by auto
  have "filter (\<lambda>x. bad_profession (snd x)) (enumerate 0 plan0) = []"
    using s repaired_of_ok by (auto simp: filter_empty_conv in_set_enumerate_eq)
  moreover have "map repaired plan0 = plan" using s repaired_of_ok by auto
  ultimately have "lenient_subs (length plan0) 0 plan0 = Inr (plan, [])"
    using s by (subst lenient_subs_Inr) (auto simp: fields_ok_def)
  with src size graph show "parse_plan_lenient decode raw = Some (Inr (plan, []))"
    by (simp add: parse_plan_lenient_def)
next
  assume "parse_plan_lenient decode raw = Some (Inr (plan, down))"
  then obtain json plan0 where src: "extract_json_array raw = Some json" "decode json = Inr plan0"
    and size: "check_size plan0 = None" and subs: "lenient_subs (length plan0) 0 plan0 = Inr (plan, down)"
    and graph: "check_graph plan = Some (Inr ())"
    by (auto simp: parse_plan_lenient_def map_sum_Inr split: option.splits sum.splits)
  have s: "\<forall>s \<in> set plan0. text_trim (sub_title s) \<noteq> []" "plan = map repaired plan0"
    "\<forall>k < length plan0. check_deps (length plan0) k (sub_depends_on (plan0 ! k)) = None"
    and down: "down = map (\<lambda>(k, s). (k, sub_required_profession s)) (filter (\<lambda>x. bad_profession (snd x)) (enumerate 0 plan0))"
    using subs lenient_subs_Inr [of "length plan0" 0 plan0 plan down] by auto
  have range: "deps_in_range plan" using s deps_checked [of plan0] by simp
  have ok: "\<forall>s \<in> set plan. fields_ok s" using s fields_ok_repaired by auto
  show "check_graph plan = Some (Inr ())" by (rule graph)
  show "well_formed_plan plan"
    using size graph range ok s check_graph_iff(2) [OF range] by (auto simp: well_formed_plan_def check_size_None)
  show "strict_subs (length plan) 0 plan = Inr plan"
    using ok s by (subst strict_subs_Inr) (auto simp: normalised_repaired)
  have "(k, p) \<in> set down \<longleftrightarrow> k < length plan0 \<and> p = sub_required_profession (plan0 ! k)
      \<and> bad_profession (plan0 ! k) \<and> sub_required_profession (plan ! k) = []" for k p
    unfolding down using s by (auto simp: in_set_enumerate_eq image_iff repaired_def)
  then show "\<exists>json plan0. extract_json_array raw = Some json \<and> decode json = Inr plan0 \<and> length plan = length plan0 \<and>
      (\<forall>k p. (k, p) \<in> set down \<longleftrightarrow> k < length plan0 \<and> p = sub_required_profession (plan0 ! k)
         \<and> bad_profession (plan0 ! k) \<and> sub_required_profession (plan ! k) = [])"
    using src s by auto
qed

definition sample_sub :: "string \<Rightarrow> string \<Rightarrow> string \<Rightarrow> nat list \<Rightarrow> planned_sub" where
  "sample_sub title profession criteria deps =
     \<lparr> sub_title = of_str title, sub_description = [], sub_required_role = [], sub_required_tags = [],
        sub_required_profession = of_str profession, sub_required_backend = of_str ''VM'',
        sub_required_capabilities = [of_str ''docker''], sub_acceptance_criteria = of_str criteria,
        sub_depends_on = deps \<rparr>"

lemma unordered_writers_refused:
  "parse_plan (\<lambda>_. Inr [sample_sub ''a'' ''dev:cpp'' ''[TOUCH] x'' [], sample_sub ''b'' [] ''[TOUCH] x'' []])
     (of_str ''answer: [..]'') = Some (Inl (Shared_Touch [(0, 1, of_str ''x'')]))"
  by code_simp

theorem lenient_extends_strict_witness:
  "parse_plan_lenient (\<lambda>_. Inr [normalised (sample_sub ''a'' ''dev'' ''[TOUCH] x'' []), normalised (sample_sub ''b'' [] ''[TOUCH] x'' [0])])
     (of_str ''[]'')
   = Some (Inr ([normalised (sample_sub ''a'' ''dev'' ''[TOUCH] x'' []), normalised (sample_sub ''b'' [] ''[TOUCH] x'' [0])], [])) \<and>
   (\<exists>plan. parse_plan_lenient (\<lambda>_. Inr [sample_sub ''a'' ''Dev'' [] []]) (of_str ''[]'') = Some (Inr (plan, [(0, of_str ''Dev'')]))
      \<and> well_formed_plan plan)"
proof -
  let ?p = "[normalised (sample_sub ''a'' ''dev'' ''[TOUCH] x'' []), normalised (sample_sub ''b'' [] ''[TOUCH] x'' [0])]"
  let ?q = "[sample_sub ''a'' ''Dev'' [] []]"
  have "parse_plan (\<lambda>_. Inr ?p) (of_str ''[]'') = Some (Inr ?p)" by code_simp
  moreover have q: "parse_plan_lenient (\<lambda>_. Inr ?q) (of_str ''[]'') = Some (Inr (map repaired ?q, [(0, of_str ''Dev'')]))"
    by code_simp
  ultimately show ?thesis
    using lenient_extends_strict [of "\<lambda>_. Inr ?p" "of_str ''[]''" ?p "[]"]
      lenient_extends_strict [of "\<lambda>_. Inr ?q" "of_str ''[]''" "map repaired ?q" "[(0, of_str ''Dev'')]"] by blast
qed

end
