(* ===== verification/Board_Quota.thy ===== *)
theory Board_Quota
  imports Unicode_Text Prelude
begin

text \<open>
  The ledger of discussion quotas on the board's master (\<open>crates/nemesis-board/src/quota.rs\<close>): posts per minute and
  per hour of a node, posts per thread, in the order of the code's gates. Times are seconds; \<open>u32\<close> values are 32-bit
  words and the length of a window is converted as the code does.
\<close>

section \<open>Configuration and state\<close>

record quota_config =
  max_agent_turns_per_thread :: "32 word"
  hourly_budget_per_node :: "32 word"
  rate_limit_per_min :: "32 word"

definition default_quota :: quota_config where
  "default_quota = \<lparr> max_agent_turns_per_thread = 8, hourly_budget_per_node = 20, rate_limit_per_min = 12 \<rparr>"

datatype quota_denied = Thread_Quota_Exhausted | Hourly_Budget_Exhausted | Rate_Limited

definition quota_error_code :: "quota_denied \<Rightarrow> string" where
  "quota_error_code d = (case d of Rate_Limited \<Rightarrow> ''rate_limited'' | _ \<Rightarrow> ''quota_exhausted'')"

record node_window =
  nw_minute :: "int list"
  nw_hour :: "int list"

record quota_ledger =
  ql_nodes :: "utext \<Rightarrow> node_window option"
  ql_threads :: "utext \<Rightarrow> 32 word option"

definition quota_new :: quota_ledger where
  "quota_new = \<lparr> ql_nodes = Map.empty, ql_threads = Map.empty \<rparr>"

definition node_of :: "quota_ledger \<Rightarrow> utext \<Rightarrow> node_window" where
  "node_of l n = (case ql_nodes l n of Some w \<Rightarrow> w | None \<Rightarrow> \<lparr> nw_minute = [], nw_hour = [] \<rparr>)"

definition used_of :: "quota_ledger \<Rightarrow> utext \<Rightarrow> 32 word" where
  "used_of l t = (case ql_threads l t of Some u \<Rightarrow> u | None \<Rightarrow> 0)"

definition set_node :: "utext \<Rightarrow> node_window \<Rightarrow> quota_ledger \<Rightarrow> quota_ledger" where
  "set_node n w l = l\<lparr>ql_nodes := (ql_nodes l)(n \<mapsto> w)\<rparr>"

definition set_used :: "utext \<Rightarrow> 32 word \<Rightarrow> quota_ledger \<Rightarrow> quota_ledger" where
  "set_used t u l = l\<lparr>ql_threads := (ql_threads l)(t \<mapsto> u)\<rparr>"

section \<open>Operations\<close>

text \<open>\<open>saturating_sub\<close> on \<open>u32\<close>.\<close>

definition sat_sub :: "32 word \<Rightarrow> 32 word \<Rightarrow> 32 word" where
  "sat_sub a b = (if a \<le> b then 0 else a - b)"

definition turns_left :: "quota_config \<Rightarrow> utext \<Rightarrow> quota_ledger \<Rightarrow> 32 word" where
  "turns_left cfg t l =
     (if max_agent_turns_per_thread cfg = 0 then - 1
      else sat_sub (max_agent_turns_per_thread cfg) (used_of l t))"

definition within :: "int \<Rightarrow> int \<Rightarrow> int list \<Rightarrow> int list" where
  "within width now ts = filter (\<lambda>t. now - t < width) ts"

text \<open>The three gates; a gate that is switched off leaves its window alone.\<close>

definition gate_minute :: "quota_config \<Rightarrow> utext \<Rightarrow> int \<Rightarrow> quota_ledger \<Rightarrow> bool \<times> quota_ledger" where
  "gate_minute cfg n now l =
     (if rate_limit_per_min cfg = 0 then (True, l)
      else let w = node_of l n; kept = within 60 now (nw_minute w) in
        (\<not> rate_limit_per_min cfg \<le> of_nat (length kept), set_node n (w\<lparr>nw_minute := kept\<rparr>) l))"

definition gate_hour :: "quota_config \<Rightarrow> utext \<Rightarrow> int \<Rightarrow> quota_ledger \<Rightarrow> bool \<times> quota_ledger" where
  "gate_hour cfg n now l =
     (if hourly_budget_per_node cfg = 0 then (True, l)
      else let w = node_of l n; kept = within 3600 now (nw_hour w) in
        (\<not> hourly_budget_per_node cfg \<le> of_nat (length kept), set_node n (w\<lparr>nw_hour := kept\<rparr>) l))"

definition gate_thread :: "quota_config \<Rightarrow> utext \<Rightarrow> quota_ledger \<Rightarrow> bool \<times> quota_ledger" where
  "gate_thread cfg t l =
     (if max_agent_turns_per_thread cfg = 0 then (True, l)
      else (\<not> max_agent_turns_per_thread cfg \<le> used_of l t, set_used t (used_of l t) l))"

definition book_post :: "quota_config \<Rightarrow> utext \<Rightarrow> utext \<Rightarrow> int \<Rightarrow> quota_ledger \<Rightarrow> quota_ledger" where
  "book_post cfg t n now l =
     (let w = node_of l n;
          l' = set_node n \<lparr> nw_minute = nw_minute w @ [now], nw_hour = nw_hour w @ [now] \<rparr> l in
      if max_agent_turns_per_thread cfg = 0 then l' else set_used t (used_of l' t + 1) l')"

definition try_consume_post ::
    "quota_config \<Rightarrow> utext \<Rightarrow> utext \<Rightarrow> int \<Rightarrow> quota_ledger \<Rightarrow> (quota_denied + 32 word) \<times> quota_ledger" where
  "try_consume_post cfg t n now l =
     (case gate_minute cfg n now l of (ok1, l1) \<Rightarrow>
        if \<not> ok1 then (Inl Rate_Limited, l1)
        else case gate_hour cfg n now l1 of (ok2, l2) \<Rightarrow>
          if \<not> ok2 then (Inl Hourly_Budget_Exhausted, l2)
          else case gate_thread cfg t l2 of (ok3, l3) \<Rightarrow>
            if \<not> ok3 then (Inl Thread_Quota_Exhausted, l3)
            else let l4 = book_post cfg t n now l3 in (Inr (turns_left cfg t l4), l4))"

definition can_post :: "quota_config \<Rightarrow> utext \<Rightarrow> int \<Rightarrow> quota_ledger \<Rightarrow> quota_denied option" where
  "can_post cfg n now l =
     (case ql_nodes l n of
        None \<Rightarrow> None
      | Some w \<Rightarrow>
          if rate_limit_per_min cfg \<noteq> 0 \<and> rate_limit_per_min cfg \<le> of_nat (length (within 60 now (nw_minute w)))
          then Some Rate_Limited
          else if hourly_budget_per_node cfg \<noteq> 0 \<and> hourly_budget_per_node cfg \<le> of_nat (length (within 3600 now (nw_hour w)))
          then Some Hourly_Budget_Exhausted
          else None)"

section \<open>Runs and the history of accepted posts\<close>

type_synonym post = "utext \<times> utext \<times> int"

definition post_step :: "quota_config \<Rightarrow> quota_ledger \<times> post list \<Rightarrow> post \<Rightarrow> quota_ledger \<times> post list" where
  "post_step cfg s p =
     (case p of (t, n, now) \<Rightarrow>
        case try_consume_post cfg t n now (fst s) of
          (Inl _, l) \<Rightarrow> (l, snd s)
        | (Inr _, l) \<Rightarrow> (l, snd s @ [p]))"

definition posts_run :: "quota_config \<Rightarrow> post list \<Rightarrow> quota_ledger \<times> post list" where
  "posts_run cfg ps = run_events (post_step cfg) (quota_new, []) ps"

text \<open>What the history says: the times of a node, and the number of posts in a thread.\<close>

definition times_of :: "utext \<Rightarrow> post list \<Rightarrow> int list" where
  "times_of n h = map (\<lambda>(_, _, now). now) (filter (\<lambda>(_, m, _). m = n) h)"

definition posts_in :: "utext \<Rightarrow> post list \<Rightarrow> nat" where
  "posts_in t h = length (filter (\<lambda>(u, _, _). u = t) h)"

definition window_count :: "utext \<Rightarrow> int \<Rightarrow> int \<Rightarrow> post list \<Rightarrow> nat" where
  "window_count n lo hi h = length (filter (\<lambda>s. lo \<le> s \<and> s < hi) (times_of n h))"

text \<open>The contract: the first gate whose count over the accepted posts is used up refuses.\<close>

definition quota_spec :: "quota_config \<Rightarrow> post list \<Rightarrow> post \<Rightarrow> quota_denied + nat" where
  "quota_spec cfg h p =
     (case p of (t, n, now) \<Rightarrow>
        if 0 < unat (rate_limit_per_min cfg) \<and> unat (rate_limit_per_min cfg) \<le> window_count n (now - 59) (now + 1) h
        then Inl Rate_Limited
        else if 0 < unat (hourly_budget_per_node cfg)
            \<and> unat (hourly_budget_per_node cfg) \<le> window_count n (now - 3599) (now + 1) h
        then Inl Hourly_Budget_Exhausted
        else if 0 < unat (max_agent_turns_per_thread cfg) \<and> unat (max_agent_turns_per_thread cfg) \<le> posts_in t h
        then Inl Thread_Quota_Exhausted
        else Inr (if max_agent_turns_per_thread cfg = 0 then 2 ^ 32 - 1
             else unat (max_agent_turns_per_thread cfg) - Suc (posts_in t h)))"

section \<open>Windows\<close>

definition count_in :: "int \<Rightarrow> int \<Rightarrow> int list \<Rightarrow> nat" where
  "count_in lo hi ts = length (filter (\<lambda>s. lo \<le> s \<and> s < hi) ts)"

lemma window_count_alt: "window_count n lo hi h = count_in lo hi (times_of n h)"
  by (simp add: window_count_def count_in_def)

lemma within_later: "now \<le> now' \<Longrightarrow> within w now' (within w now ts) = within w now' ts"
  by (auto simp: within_def intro!: filter_cong)

lemma within_append [simp]: "within w now (ts @ us) = within w now ts @ within w now us"
  by (simp add: within_def)

lemma within_Nil [simp]: "within w now [] = []"
  by (simp add: within_def)

lemma length_within: "(\<And>s. s \<in> set ts \<Longrightarrow> s \<le> now) \<Longrightarrow> length (within w now ts) = count_in (now - w + 1) (now + 1) ts"
  unfolding within_def count_in_def by (rule arg_cong [where f = length], rule filter_cong) auto

lemma count_in_snoc:
  assumes past: "\<And>s. s \<in> set ts \<Longrightarrow> s \<le> now" and bound: "\<And>lo. count_in lo (lo + w) ts \<le> k"
    and room: "count_in (now - w + 1) (now + 1) ts < k"
  shows "count_in lo (lo + w) (ts @ [now]) \<le> k"
proof (cases "lo \<le> now \<and> now < lo + w")
  case True
  have "count_in lo (lo + w) ts = length (filter (\<lambda>s. lo \<le> s) (filter (\<lambda>s. now - w + 1 \<le> s \<and> s < now + 1) ts))"
    unfolding count_in_def using True by (auto intro!: arg_cong [where f = length] filter_cong dest!: past)
  also have "\<dots> \<le> count_in (now - w + 1) (now + 1) ts"
    unfolding count_in_def by (rule length_filter_le)
  finally show ?thesis using room by (simp add: count_in_def)
next
  case False
  then show ?thesis using bound [of lo] by (auto simp: count_in_def)
qed

lemma times_of_snoc: "times_of n (h @ [(t, m, now)]) = times_of n h @ (if m = n then [now] else [])"
  by (simp add: times_of_def)

lemma posts_in_snoc: "posts_in t (h @ [(u, m, now)]) = posts_in t h + (if u = t then 1 else 0)"
  by (simp add: posts_in_def)

lemma node_of_set_node [simp]: "node_of (set_node n w l) m = (if m = n then w else node_of l m)"
  by (simp add: node_of_def set_node_def)

lemma node_of_set_used [simp]: "node_of (set_used t u l) m = node_of l m"
  by (simp add: node_of_def set_used_def)

lemma used_of_set_used [simp]: "used_of (set_used t u l) v = (if v = t then u else used_of l v)"
  by (simp add: used_of_def set_used_def)

lemma used_of_set_node [simp]: "used_of (set_node n w l) v = used_of l v"
  by (simp add: used_of_def set_node_def)

lemma limit_reached: "n \<le> unat k \<Longrightarrow> k \<le> (of_nat n :: 32 word) \<longleftrightarrow> unat k \<le> n"
proof -
  assume le: "n \<le> unat k"
  have "unat k < 4294967296" using unsigned_less [of k] by simp
  with le show ?thesis by (simp add: word_le_nat_alt unat_of_nat)
qed

section \<open>The invariant\<close>

definition windows_bounded :: "quota_config \<Rightarrow> post list \<Rightarrow> bool" where
  "windows_bounded cfg h \<longleftrightarrow>
     (rate_limit_per_min cfg \<noteq> 0 \<longrightarrow> (\<forall>n lo. window_count n lo (lo + 60) h \<le> unat (rate_limit_per_min cfg))) \<and>
     (hourly_budget_per_node cfg \<noteq> 0 \<longrightarrow> (\<forall>n lo. window_count n lo (lo + 3600) h \<le> unat (hourly_budget_per_node cfg))) \<and>
     (max_agent_turns_per_thread cfg \<noteq> 0 \<longrightarrow> (\<forall>t. posts_in t h \<le> unat (max_agent_turns_per_thread cfg)))"

lemma windows_boundedD:
  assumes "windows_bounded cfg h"
  shows "rate_limit_per_min cfg \<noteq> 0 \<Longrightarrow> window_count n (now - 59) (now + 1) h \<le> unat (rate_limit_per_min cfg)"
    and "hourly_budget_per_node cfg \<noteq> 0 \<Longrightarrow> window_count n (now - 3599) (now + 1) h \<le> unat (hourly_budget_per_node cfg)"
proof -
  have "now + 1 = now - 59 + 60" "now + 1 = now - 3599 + 3600" by simp_all
  with assms show "rate_limit_per_min cfg \<noteq> 0 \<Longrightarrow> window_count n (now - 59) (now + 1) h \<le> unat (rate_limit_per_min cfg)"
    and "hourly_budget_per_node cfg \<noteq> 0 \<Longrightarrow> window_count n (now - 3599) (now + 1) h \<le> unat (hourly_budget_per_node cfg)"
    unfolding windows_bounded_def by metis+
qed

definition ledger_shows :: "quota_config \<Rightarrow> int \<Rightarrow> quota_ledger \<Rightarrow> post list \<Rightarrow> bool" where
  "ledger_shows cfg since l h \<longleftrightarrow>
     (\<forall>n now. since \<le> now \<longrightarrow> within 60 now (nw_minute (node_of l n)) = within 60 now (times_of n h)) \<and>
     (\<forall>n now. since \<le> now \<longrightarrow> within 3600 now (nw_hour (node_of l n)) = within 3600 now (times_of n h)) \<and>
     (max_agent_turns_per_thread cfg \<noteq> 0 \<longrightarrow> (\<forall>t. unat (used_of l t) = posts_in t h)) \<and>
     (\<forall>n. \<forall>s \<in> set (times_of n h). s \<le> since)"

lemma ledger_showsD:
  assumes "ledger_shows cfg since l h" "since \<le> now"
  shows "within 60 now (nw_minute (node_of l n)) = within 60 now (times_of n h)"
    "within 3600 now (nw_hour (node_of l n)) = within 3600 now (times_of n h)"
    "max_agent_turns_per_thread cfg \<noteq> 0 \<Longrightarrow> unat (used_of l t) = posts_in t h"
    "s \<in> set (times_of n h) \<Longrightarrow> s \<le> now"
  using assms by (fastforce simp: ledger_shows_def)+

lemma ledger_shows_later: "ledger_shows cfg since l h \<Longrightarrow> since \<le> now \<Longrightarrow> ledger_shows cfg now l h"
  by (fastforce simp: ledger_shows_def)

lemma full_minute:
  assumes "ledger_shows cfg since l h" "since \<le> now" "windows_bounded cfg h" "rate_limit_per_min cfg \<noteq> 0"
  shows "rate_limit_per_min cfg \<le> of_nat (length (within 60 now (nw_minute (node_of l n))))
    \<longleftrightarrow> unat (rate_limit_per_min cfg) \<le> window_count n (now - 59) (now + 1) h"
proof -
  have len: "length (within 60 now (nw_minute (node_of l n))) = window_count n (now - 59) (now + 1) h"
    using ledger_showsD [OF assms(1,2)] length_within [of "times_of n h" now 60] by (simp add: window_count_alt)
  have "window_count n (now - 59) (now + 1) h \<le> unat (rate_limit_per_min cfg)"
    using windows_boundedD(1) [OF assms(3,4)] .
  then show ?thesis unfolding len by (rule limit_reached)
qed

lemma full_hour:
  assumes "ledger_shows cfg since l h" "since \<le> now" "windows_bounded cfg h" "hourly_budget_per_node cfg \<noteq> 0"
  shows "hourly_budget_per_node cfg \<le> of_nat (length (within 3600 now (nw_hour (node_of l n))))
    \<longleftrightarrow> unat (hourly_budget_per_node cfg) \<le> window_count n (now - 3599) (now + 1) h"
proof -
  have len: "length (within 3600 now (nw_hour (node_of l n))) = window_count n (now - 3599) (now + 1) h"
    using ledger_showsD [OF assms(1,2)] length_within [of "times_of n h" now 3600] by (simp add: window_count_alt)
  have "window_count n (now - 3599) (now + 1) h \<le> unat (hourly_budget_per_node cfg)"
    using windows_boundedD(2) [OF assms(3,4)] .
  then show ?thesis unfolding len by (rule limit_reached)
qed

lemma gate_minute_correct:
  assumes "ledger_shows cfg since l h" "since \<le> now" "windows_bounded cfg h"
  shows "fst (gate_minute cfg n now l) \<longleftrightarrow>
      \<not> (0 < unat (rate_limit_per_min cfg) \<and> unat (rate_limit_per_min cfg) \<le> window_count n (now - 59) (now + 1) h)"
    and "ledger_shows cfg now (snd (gate_minute cfg n now l)) h"
proof -
  show "fst (gate_minute cfg n now l) \<longleftrightarrow>
      \<not> (0 < unat (rate_limit_per_min cfg) \<and> unat (rate_limit_per_min cfg) \<le> window_count n (now - 59) (now + 1) h)"
    using full_minute [OF assms] by (auto simp: gate_minute_def Let_def unat_gt_0)
  show "ledger_shows cfg now (snd (gate_minute cfg n now l)) h"
    using ledger_shows_later [OF assms(1,2)]
    by (auto simp: gate_minute_def Let_def ledger_shows_def within_later)
qed

lemma gate_hour_correct:
  assumes "ledger_shows cfg since l h" "since \<le> now" "windows_bounded cfg h"
  shows "fst (gate_hour cfg n now l) \<longleftrightarrow>
      \<not> (0 < unat (hourly_budget_per_node cfg) \<and> unat (hourly_budget_per_node cfg) \<le> window_count n (now - 3599) (now + 1) h)"
    and "ledger_shows cfg now (snd (gate_hour cfg n now l)) h"
proof -
  show "fst (gate_hour cfg n now l) \<longleftrightarrow>
      \<not> (0 < unat (hourly_budget_per_node cfg) \<and> unat (hourly_budget_per_node cfg) \<le> window_count n (now - 3599) (now + 1) h)"
    using full_hour [OF assms] by (auto simp: gate_hour_def Let_def unat_gt_0)
  show "ledger_shows cfg now (snd (gate_hour cfg n now l)) h"
    using ledger_shows_later [OF assms(1,2)]
    by (auto simp: gate_hour_def Let_def ledger_shows_def within_later)
qed

lemma gate_thread_correct:
  assumes "ledger_shows cfg now l h"
  shows "fst (gate_thread cfg t l) \<longleftrightarrow>
      \<not> (0 < unat (max_agent_turns_per_thread cfg) \<and> unat (max_agent_turns_per_thread cfg) \<le> posts_in t h)"
    and "ledger_shows cfg now (snd (gate_thread cfg t l)) h"
  using assms ledger_showsD(3) [OF assms order.refl, of t]
  by (auto simp: gate_thread_def ledger_shows_def unat_gt_0 word_le_nat_alt)

lemma book_post_correct:
  assumes shows_l: "ledger_shows cfg now l h" and bounded: "windows_bounded cfg h"
    and free: "quota_spec cfg h (t, n, now) = Inr k"
  shows "ledger_shows cfg now (book_post cfg t n now l) (h @ [(t, n, now)])"
    and "windows_bounded cfg (h @ [(t, n, now)])"
    and "turns_left cfg t (book_post cfg t n now l) = of_nat k"
proof -
  let ?m = "max_agent_turns_per_thread cfg"
  have past: "\<And>s m. s \<in> set (times_of m h) \<Longrightarrow> s \<le> now"
    using shows_l by (auto simp: ledger_shows_def)
  have room: "?m \<noteq> 0 \<Longrightarrow> posts_in t h < unat ?m" "k = (if ?m = 0 then 2 ^ 32 - 1 else unat ?m - Suc (posts_in t h))"
    "rate_limit_per_min cfg \<noteq> 0 \<Longrightarrow> window_count n (now - 59) (now + 1) h < unat (rate_limit_per_min cfg)"
    "hourly_budget_per_node cfg \<noteq> 0 \<Longrightarrow> window_count n (now - 3599) (now + 1) h < unat (hourly_budget_per_node cfg)"
    using free by (auto simp: quota_spec_def unat_gt_0 not_le split: if_splits)
  have used: "unat (used_of l t + 1) = Suc (posts_in t h)" if "?m \<noteq> 0"
  proof -
    have "unat (used_of l t) = posts_in t h" using shows_l that by (simp add: ledger_shows_def)
    moreover have "used_of l t + 1 \<noteq> 0"
    proof
      assume "used_of l t + 1 = 0"
      then have "used_of l t = - 1" by (simp add: eq_neg_iff_add_eq_0)
      then have "unat ?m \<le> unat (used_of l t)" by (simp add: word_le_nat_alt [symmetric])
      with room(1) [OF that] calculation show False by simp
    qed
    ultimately show ?thesis using unatSuc [of "used_of l t"] by (simp add: add.commute)
  qed
  show "ledger_shows cfg now (book_post cfg t n now l) (h @ [(t, n, now)])"
    using shows_l used
    by (auto simp: ledger_shows_def book_post_def Let_def times_of_snoc posts_in_snoc add.commute)
  have "window_count m lo (lo + 60) (h @ [(t, n, now)]) \<le> unat (rate_limit_per_min cfg)"
    if "rate_limit_per_min cfg \<noteq> 0" for m lo
    using that bounded past room(3) count_in_snoc [of "times_of m h" now 60 "unat (rate_limit_per_min cfg)" lo]
    by (auto simp: windows_bounded_def window_count_alt times_of_snoc)
  moreover have "window_count m lo (lo + 3600) (h @ [(t, n, now)]) \<le> unat (hourly_budget_per_node cfg)"
    if "hourly_budget_per_node cfg \<noteq> 0" for m lo
    using that bounded past room(4) count_in_snoc [of "times_of m h" now 3600 "unat (hourly_budget_per_node cfg)" lo]
    by (auto simp: windows_bounded_def window_count_alt times_of_snoc)
  moreover have "posts_in u (h @ [(t, n, now)]) \<le> unat ?m" if "?m \<noteq> 0" for u
    using that bounded room(1) by (auto simp: windows_bounded_def posts_in_snoc)
  ultimately show "windows_bounded cfg (h @ [(t, n, now)])" by (simp add: windows_bounded_def)
  show "turns_left cfg t (book_post cfg t n now l) = of_nat k"
  proof (cases "?m = 0")
    case True
    then show ?thesis using room(2) by (simp add: turns_left_def)
  next
    case False
    let ?u = "used_of l t + 1"
    have le: "?u \<le> ?m" using used [OF False] room(1) [OF False] by (simp add: word_le_nat_alt)
    have "sat_sub ?m ?u = ?m - ?u" using le by (auto simp: sat_sub_def)
    moreover have "k = unat (?m - ?u)"
      using False room(2) used [OF False] unat_sub [OF le] by simp
    ultimately show ?thesis using False by (simp add: turns_left_def book_post_def Let_def)
  qed
qed

section \<open>Every run\<close>

lemma try_consume_correct:
  assumes "ledger_shows cfg since l h" "since \<le> now" "windows_bounded cfg h"
    and res: "try_consume_post cfg t n now l = (r, l')"
  shows "r = map_sum id of_nat (quota_spec cfg h (t, n, now))"
    and "case r of Inl _ \<Rightarrow> ledger_shows cfg now l' h
         | Inr _ \<Rightarrow> ledger_shows cfg now l' (h @ [(t, n, now)]) \<and> windows_bounded cfg (h @ [(t, n, now)])"
proof -
  obtain ok1 l1 where g1: "gate_minute cfg n now l = (ok1, l1)" by fastforce
  obtain ok2 l2 where g2: "gate_hour cfg n now l1 = (ok2, l2)" by fastforce
  obtain ok3 l3 where g3: "gate_thread cfg t l2 = (ok3, l3)" by fastforce
  have m: "ledger_shows cfg now l1 h" "ok1 \<longleftrightarrow> \<not> (0 < unat (rate_limit_per_min cfg)
      \<and> unat (rate_limit_per_min cfg) \<le> window_count n (now - 59) (now + 1) h)"
    using gate_minute_correct [OF assms(1-3), of n] g1 by simp_all
  have hr: "ledger_shows cfg now l2 h" "ok2 \<longleftrightarrow> \<not> (0 < unat (hourly_budget_per_node cfg)
      \<and> unat (hourly_budget_per_node cfg) \<le> window_count n (now - 3599) (now + 1) h)"
    using gate_hour_correct [OF m(1) order.refl assms(3), of n] g2 by simp_all
  have th: "ledger_shows cfg now l3 h" "ok3 \<longleftrightarrow> \<not> (0 < unat (max_agent_turns_per_thread cfg)
      \<and> unat (max_agent_turns_per_thread cfg) \<le> posts_in t h)"
    using gate_thread_correct [OF hr(1), of t] g3 by simp_all
  note tried = res [unfolded try_consume_post_def g1 prod.case g2 g3 Let_def]
  have "r = map_sum id of_nat (quota_spec cfg h (t, n, now)) \<and>
    (case r of Inl _ \<Rightarrow> ledger_shows cfg now l' h
     | Inr _ \<Rightarrow> ledger_shows cfg now l' (h @ [(t, n, now)]) \<and> windows_bounded cfg (h @ [(t, n, now)]))"
  proof (cases "ok1 \<and> ok2 \<and> ok3")
    case True
    then obtain k where k: "quota_spec cfg h (t, n, now) = Inr k"
      using m(2) hr(2) th(2) by (simp add: quota_spec_def)
    show ?thesis using True tried k book_post_correct [OF th(1) assms(3) k] by auto
  next
    case False
    with tried m hr th show ?thesis by (auto simp: quota_spec_def split: if_splits)
  qed
  then show "r = map_sum id of_nat (quota_spec cfg h (t, n, now))"
    and "case r of Inl _ \<Rightarrow> ledger_shows cfg now l' h
         | Inr _ \<Rightarrow> ledger_shows cfg now l' (h @ [(t, n, now)]) \<and> windows_bounded cfg (h @ [(t, n, now)])"
    by blast+
qed

lemma can_post_correct:
  assumes "ledger_shows cfg since l h" "since \<le> now" "windows_bounded cfg h"
  shows "can_post cfg n now l =
    (if 0 < unat (rate_limit_per_min cfg) \<and> unat (rate_limit_per_min cfg) \<le> window_count n (now - 59) (now + 1) h
     then Some Rate_Limited
     else if 0 < unat (hourly_budget_per_node cfg) \<and> unat (hourly_budget_per_node cfg) \<le> window_count n (now - 3599) (now + 1) h
     then Some Hourly_Budget_Exhausted else None)"
proof -
  have whole: "can_post cfg n now l =
    (if rate_limit_per_min cfg \<noteq> 0 \<and> rate_limit_per_min cfg \<le> of_nat (length (within 60 now (nw_minute (node_of l n))))
     then Some Rate_Limited
     else if hourly_budget_per_node cfg \<noteq> 0
         \<and> hourly_budget_per_node cfg \<le> of_nat (length (within 3600 now (nw_hour (node_of l n))))
     then Some Hourly_Budget_Exhausted else None)"
    by (auto simp: can_post_def node_of_def split: option.splits)
  show ?thesis
    unfolding whole using full_minute [OF assms, of n] full_hour [OF assms, of n] by (auto simp: unat_gt_0)
qed

definition time_of :: "post \<Rightarrow> int" where
  "time_of p = snd (snd p)"

definition latest :: "post list \<Rightarrow> int" where
  "latest ps = (if ps = [] then 0 else time_of (last ps))"

lemma posts_run_snoc: "posts_run cfg (ps @ [p]) = post_step cfg (posts_run cfg ps) p"
  by (simp add: posts_run_def run_events_append)

lemma run_shows:
  "sorted (map time_of ps) \<Longrightarrow>
     (ps = [] \<or> ledger_shows cfg (latest ps) (fst (posts_run cfg ps)) (snd (posts_run cfg ps)))
     \<and> windows_bounded cfg (snd (posts_run cfg ps)) \<and> (ps = [] \<longrightarrow> posts_run cfg ps = (quota_new, []))"
proof (induction ps rule: rev_induct)
  case Nil
  then show ?case by (simp add: posts_run_def windows_bounded_def window_count_def times_of_def posts_in_def)
next
  case (snoc p ps)
  obtain t n now where p: "p = (t, n, now)" using prod_cases3 by blast
  obtain l h where run: "posts_run cfg ps = (l, h)" by fastforce
  have ord: "sorted (map time_of ps)" "\<And>q. q \<in> set ps \<Longrightarrow> time_of q \<le> now"
    using snoc.prems by (auto simp: sorted_append p time_of_def [of "(t, n, now)"])
  define since where "since = (if ps = [] then now else latest ps)"
  have shows_l: "ledger_shows cfg since l h" "since \<le> now" and bounded: "windows_bounded cfg h"
    using snoc.IH [OF ord(1)] run ord(2)
    by (auto simp: since_def latest_def ledger_shows_def quota_new_def node_of_def used_of_def times_of_def posts_in_def)
  obtain r l' where tried: "try_consume_post cfg t n now l = (r, l')" by fastforce
  show ?case
    using try_consume_correct(2) [OF shows_l bounded tried] bounded tried run
    by (cases r) (auto simp: posts_run_snoc post_step_def p latest_def time_of_def)
qed

text \<open>
  C36. The ledger implements the contract on histories: with a clock that does not run backwards and one configuration
  that stays the same, after any sequence of
  posts the decision on the next one, and the number of turns it reports, is the one of \<open>quota_spec\<close> on the posts
  accepted so far (so refused posts leave no trace), and the check before a wake-up agrees with the two gates of the
  node.
\<close>

theorem quota_refines_history:
  assumes "sorted (map time_of (ps @ [(t, n, now)]))"
  shows "fst (try_consume_post cfg t n now (fst (posts_run cfg ps)))
      = map_sum id of_nat (quota_spec cfg (snd (posts_run cfg ps)) (t, n, now)) \<and>
    (can_post cfg n now (fst (posts_run cfg ps)) = None \<longleftrightarrow>
      quota_spec cfg (snd (posts_run cfg ps)) (t, n, now) \<notin> {Inl Rate_Limited, Inl Hourly_Budget_Exhausted})"
proof -
  obtain l h where run: "posts_run cfg ps = (l, h)" by fastforce
  have ord: "sorted (map time_of ps)" "\<And>q. q \<in> set ps \<Longrightarrow> time_of q \<le> now"
    using assms by (auto simp: sorted_append time_of_def [of "(t, n, now)"])
  define since where "since = (if ps = [] then now else latest ps)"
  have shows_l: "ledger_shows cfg since l h" "since \<le> now" and bounded: "windows_bounded cfg h"
    using run_shows [OF ord(1), of cfg] run ord(2)
    by (auto simp: since_def latest_def ledger_shows_def quota_new_def node_of_def used_of_def times_of_def posts_in_def)
  obtain r l' where tried: "try_consume_post cfg t n now l = (r, l')" by fastforce
  have "r = map_sum id of_nat (quota_spec cfg h (t, n, now))"
    by (rule try_consume_correct(1) [OF shows_l bounded tried])
  moreover have "can_post cfg n now l = None \<longleftrightarrow>
      quota_spec cfg h (t, n, now) \<notin> {Inl Rate_Limited, Inl Hourly_Budget_Exhausted}"
    unfolding can_post_correct [OF shows_l bounded] by (auto simp: quota_spec_def)
  ultimately show ?thesis using run tried by simp
qed

theorem quota_refines_history_witness:
  "fst (try_consume_post default_quota [1] [2] 70 (fst (posts_run default_quota [([1], [2], 5), ([1], [3], 9)])))
     = map_sum id of_nat (quota_spec default_quota (snd (posts_run default_quota [([1], [2], 5), ([1], [3], 9)])) ([1], [2], 70)) \<and>
   fst (try_consume_post default_quota [1] [2] 70 (fst (posts_run default_quota [([1], [2], 5), ([1], [3], 9)]))) = Inr 5"
proof -
  have "sorted (map time_of ([([1], [2], 5), ([1], [3], 9)] @ [([1], [2], 70)]))" by code_simp
  from quota_refines_history [OF this, of default_quota] show ?thesis by code_simp
qed

text \<open>
  C39. With a clock that does not run backwards and one configuration that stays the same, the quotas hold after any
  sequence of posts: no node has more accepted
  posts than the rate limit in any 60 seconds, nor more than its budget in any 3600 seconds, wherever the interval
  starts, and no thread has more than its number of turns.
\<close>

theorem quotas_hold:
  assumes "sorted (map time_of ps)"
  shows "(rate_limit_per_min cfg \<noteq> 0 \<longrightarrow>
      window_count n lo (lo + 60) (snd (posts_run cfg ps)) \<le> unat (rate_limit_per_min cfg)) \<and>
    (hourly_budget_per_node cfg \<noteq> 0 \<longrightarrow>
      window_count n lo (lo + 3600) (snd (posts_run cfg ps)) \<le> unat (hourly_budget_per_node cfg)) \<and>
    (max_agent_turns_per_thread cfg \<noteq> 0 \<longrightarrow>
      posts_in t (snd (posts_run cfg ps)) \<le> unat (max_agent_turns_per_thread cfg))"
  using run_shows [OF assms, of cfg] by (simp add: windows_bounded_def)

definition small_quota :: quota_config where
  "small_quota = \<lparr> max_agent_turns_per_thread = 2, hourly_budget_per_node = 0, rate_limit_per_min = 1 \<rparr>"

theorem quotas_hold_witness:
  "window_count [2] 0 60 (snd (posts_run small_quota [([1], [2], 0), ([1], [2], 59), ([1], [2], 60)])) \<le> 1 \<and>
   posts_in [1] (snd (posts_run small_quota [([1], [2], 0), ([1], [2], 59), ([1], [2], 60)])) \<le> 2 \<and>
   snd (posts_run small_quota [([1], [2], 0), ([1], [2], 59), ([1], [2], 60)]) = [([1], [2], 0), ([1], [2], 60)]"
proof -
  have "sorted (map time_of [([1], [2], 0), ([1], [2], 59), ([1], [2], 60)])"
    and "snd (posts_run small_quota [([1], [2], 0), ([1], [2], 59), ([1], [2], 60)]) = [([1], [2], 0), ([1], [2], 60)]"
    by code_simp+
  moreover have "rate_limit_per_min small_quota = 1" "max_agent_turns_per_thread small_quota = 2"
    by (simp_all add: small_quota_def)
  ultimately show ?thesis
    using quotas_hold [of "[([1], [2], 0), ([1], [2], 59), ([1], [2], 60)]" small_quota "[2]" 0 "[1]"] by simp
qed

text \<open>A gate that is switched off never drops a time: the windows of a node then grow with every accepted post.\<close>

lemma disabled_gates_keep_all:
  assumes "rate_limit_per_min cfg = 0" "hourly_budget_per_node cfg = 0"
  shows "nw_minute (node_of (fst (posts_run cfg ps)) n) = times_of n (snd (posts_run cfg ps)) \<and>
    nw_hour (node_of (fst (posts_run cfg ps)) n) = times_of n (snd (posts_run cfg ps))"
proof (induction ps rule: rev_induct)
  case Nil
  then show ?case by (simp add: posts_run_def quota_new_def node_of_def times_of_def)
next
  case (snoc p ps)
  obtain t m now where p: "p = (t, m, now)" using prod_cases3 by blast
  with snoc assms show ?case
    by (auto simp: posts_run_snoc post_step_def try_consume_post_def gate_minute_def gate_hour_def gate_thread_def
        book_post_def Let_def times_of_snoc)
qed

end
