(* ===== verification/Board_Wake.thy ===== *)
theory Board_Wake
  imports Profession Prelude
begin

text \<open>
  Who is woken by a message on the board (\<open>crates/nemesis-board/src/arbitrator.rs\<close>): mentions, the four rules of the
  master, and the filter a worker applies to messages it catches up on. Unicode's tables (\<open>to_lowercase\<close>,
  \<open>is_alphanumeric\<close>) are arguments, collected in \<open>unicode\<close>.
\<close>

record node_candidate =
  nc_id :: utext
  nc_name :: utext
  nc_role :: utext
  nc_category :: utext
  nc_online :: bool

record wake_input =
  wi_thread_kind :: utext
  wi_content :: utext
  wi_sender :: utext
  wi_assignee :: "utext option"
  wi_moderator :: utext

datatype skip_reason = Offline | Sender | Not_Found | No_Assignee

record wake_plan =
  wp_targets :: "utext list"
  wp_skipped :: "(utext \<times> skip_reason) list"
  wp_to_moderator :: bool

definition empty_plan :: wake_plan where
  "empty_plan = \<lparr> wp_targets = [], wp_skipped = [], wp_to_moderator = False \<rparr>"

section \<open>Mentions\<close>

definition word_code :: "unicode \<Rightarrow> nat \<Rightarrow> bool" where
  "word_code uni c \<longleftrightarrow> uni_alnum uni c \<or> c = 95"

text \<open>A name of the roster at the front of the text, up to the end of a word (ASCII case does not matter).\<close>

definition name_hit :: "unicode \<Rightarrow> utext \<Rightarrow> utext \<Rightarrow> bool" where
  "name_hit uni rest n \<longleftrightarrow> length n \<le> length rest \<and> text_eq_ignore_case (take (length n) rest) n
     \<and> (case drop (length n) rest of [] \<Rightarrow> True | c # _ \<Rightarrow> \<not> word_code uni c)"

text \<open>What ends a plain token: white space and the punctuation the code lists.\<close>

definition token_end :: "nat \<Rightarrow> bool" where
  "token_end c \<longleftrightarrow> is_white c \<or> c \<in> {65292, 12290, 12289, 44, 59, 33, 63, 46}"

definition sorted_roster :: "utext list \<Rightarrow> utext list" where
  "sorted_roster names = sort_key (\<lambda>n. - int (length n)) (filter (\<lambda>n. n \<noteq> []) names)"

definition mention_at :: "unicode \<Rightarrow> utext list \<Rightarrow> utext \<Rightarrow> utext option" where
  "mention_at uni roster rest =
     (case find (name_hit uni rest) roster of
        Some name \<Rightarrow> Some name
      | None \<Rightarrow> let token = takeWhile (Not \<circ> token_end) rest in if token = [] then None else Some token)"

fun scan_mentions :: "unicode \<Rightarrow> utext list \<Rightarrow> nat option \<Rightarrow> utext \<Rightarrow> utext list" where
  "scan_mentions uni roster prev [] = []"
| "scan_mentions uni roster prev (c # rest) =
     (if c = 64 \<and> \<not> (case prev of Some p \<Rightarrow> word_code uni p | None \<Rightarrow> False)
      then (case mention_at uni roster rest of Some m \<Rightarrow> [m] | None \<Rightarrow> []) @ scan_mentions uni roster (Some c) rest
      else scan_mentions uni roster (Some c) rest)"

definition extract_mentions_with_roster :: "unicode \<Rightarrow> utext \<Rightarrow> utext list \<Rightarrow> utext list" where
  "extract_mentions_with_roster uni content names = scan_mentions uni (sorted_roster names) None content"

definition has_mentions :: "unicode \<Rightarrow> utext \<Rightarrow> bool" where
  "has_mentions uni content \<longleftrightarrow> extract_mentions_with_roster uni content [] \<noteq> []"

definition role_token :: "utext \<Rightarrow> utext option" where
  "role_token t = (if text_starts_with t (of_str ''role:'') then Some (drop 5 t) else None)"

definition token_names_node :: "unicode \<Rightarrow> utext \<Rightarrow> utext \<Rightarrow> utext \<Rightarrow> utext \<Rightarrow> utext \<Rightarrow> bool" where
  "token_names_node uni i name role category t =
     (case role_token t of
        Some r \<Rightarrow> let rl = uni_lower uni r in
          rl \<noteq> [] \<and> (uni_lower uni role = rl \<or> uni_lower uni category = rl)
      | None \<Rightarrow> let tl = uni_lower uni t in
          tl = of_str ''all'' \<or> tl = uni_lower uni i \<or> tl = uni_lower uni name)"

definition mentions_node :: "unicode \<Rightarrow> utext \<Rightarrow> utext \<Rightarrow> utext \<Rightarrow> utext \<Rightarrow> utext \<Rightarrow> bool" where
  "mentions_node uni content i name role category \<longleftrightarrow>
     list_ex (token_names_node uni i name role category) (extract_mentions_with_roster uni content [i, name])"

section \<open>The plan\<close>

definition skip :: "utext \<Rightarrow> skip_reason \<Rightarrow> wake_plan \<Rightarrow> wake_plan" where
  "skip n r plan = plan\<lparr>wp_skipped := wp_skipped plan @ [(n, r)]\<rparr>"

definition target :: "utext \<Rightarrow> wake_plan \<Rightarrow> wake_plan" where
  "target n plan = plan\<lparr>wp_targets := wp_targets plan @ [n]\<rparr>"

definition push_target_or_skip :: "wake_plan \<Rightarrow> node_candidate \<Rightarrow> utext \<Rightarrow> wake_plan" where
  "push_target_or_skip plan node sender =
     (if nc_id node \<in> set (wp_targets plan) \<or> nc_id node \<in> fst ` set (wp_skipped plan) then plan
      else if nc_id node = sender then skip (nc_id node) Sender plan
      else if nc_online node then target (nc_id node) plan
      else skip (nc_id node) Offline plan)"

fun push_all :: "utext \<Rightarrow> node_candidate list \<Rightarrow> wake_plan \<Rightarrow> wake_plan" where
  "push_all sender [] plan = plan"
| "push_all sender (n # ns) plan = push_all sender ns (push_target_or_skip plan n sender)"

definition has_role :: "unicode \<Rightarrow> utext \<Rightarrow> node_candidate \<Rightarrow> bool" where
  "has_role uni rl n \<longleftrightarrow> uni_lower uni (nc_role n) = rl \<or> uni_lower uni (nc_category n) = rl"

text \<open>The body of the loop over the mentions: a role, everybody, or one node by id or name.\<close>

definition resolve_token :: "unicode \<Rightarrow> utext \<Rightarrow> node_candidate list \<Rightarrow> utext \<Rightarrow> wake_plan \<Rightarrow> wake_plan" where
  "resolve_token uni sender nodes t plan =
     (case role_token t of
        Some r \<Rightarrow> let rl = uni_lower uni r; hits = filter (has_role uni rl) nodes in
          if rl = [] then skip (64 # t) Not_Found plan
          else if hits = [] then skip (64 # t) Not_Found plan
          else push_all sender hits plan
      | None \<Rightarrow>
          if uni_lower uni t = of_str ''all'' then push_all sender nodes plan
          else case find (\<lambda>n. uni_lower uni (nc_id n) = uni_lower uni t \<or> uni_lower uni (nc_name n) = uni_lower uni t) nodes of
            Some n \<Rightarrow> push_target_or_skip plan n sender
          | None \<Rightarrow> skip (64 # t) Not_Found plan)"

definition roster_of :: "node_candidate list \<Rightarrow> utext list" where
  "roster_of nodes = concat (map (\<lambda>n. [nc_id n, nc_name n]) nodes)"

definition resolve_unmentioned :: "wake_input \<Rightarrow> node_candidate list \<Rightarrow> wake_plan" where
  "resolve_unmentioned inp nodes =
     (if wi_thread_kind inp = of_str ''channel'' then empty_plan\<lparr>wp_to_moderator := True\<rparr>
      else case wi_assignee inp of
        None \<Rightarrow> skip (of_str ''(issue)'') No_Assignee empty_plan
      | Some a \<Rightarrow>
          if a = [] then skip (of_str ''(issue)'') No_Assignee empty_plan
          else case find (\<lambda>n. nc_id n = a) nodes of
            None \<Rightarrow> skip a Not_Found empty_plan
          | Some n \<Rightarrow> if nc_id n = wi_sender inp then skip a Sender empty_plan
                      else if nc_online n then target a empty_plan
                      else skip a Offline empty_plan)"

definition resolve_wake_targets :: "unicode \<Rightarrow> wake_input \<Rightarrow> node_candidate list \<Rightarrow> wake_plan" where
  "resolve_wake_targets uni inp nodes =
     (let mentions = extract_mentions_with_roster uni (wi_content inp) (roster_of nodes) in
      if mentions = [] then resolve_unmentioned inp nodes
      else fold (resolve_token uni (wi_sender inp) nodes) mentions empty_plan)"

section \<open>Invariant of the plan\<close>

text \<open>Targets are online nodes other than the sender, each once; a node is skipped as offline or as sender truthfully,
  and never also a target.\<close>

definition plan_sound :: "utext \<Rightarrow> node_candidate list \<Rightarrow> wake_plan \<Rightarrow> bool" where
  "plan_sound sender nodes plan \<longleftrightarrow> distinct (wp_targets plan)
     \<and> (\<forall>i \<in> set (wp_targets plan). i \<noteq> sender \<and> (\<exists>n \<in> set nodes. nc_id n = i \<and> nc_online n))
     \<and> (\<forall>i. (i, Sender) \<in> set (wp_skipped plan) \<longrightarrow> i = sender)
     \<and> (\<forall>i. (i, Offline) \<in> set (wp_skipped plan) \<longrightarrow> (\<exists>n \<in> set nodes. nc_id n = i \<and> \<not> nc_online n))"

lemma plan_sound_empty [simp]: "plan_sound sender nodes empty_plan"
  by (simp add: plan_sound_def empty_plan_def)

lemma plan_sound_push:
  "plan_sound sender nodes plan \<Longrightarrow> n \<in> set nodes \<Longrightarrow> plan_sound sender nodes (push_target_or_skip plan n sender)"
  by (auto simp: plan_sound_def push_target_or_skip_def skip_def target_def)

lemma plan_sound_push_all:
  "plan_sound sender nodes plan \<Longrightarrow> set ns \<subseteq> set nodes \<Longrightarrow> plan_sound sender nodes (push_all sender ns plan)"
  by (induction sender ns plan rule: push_all.induct) (auto intro: plan_sound_push)

lemma plan_sound_not_found: "plan_sound sender nodes plan \<Longrightarrow> plan_sound sender nodes (skip t Not_Found plan)"
  by (simp add: plan_sound_def skip_def)

lemma plan_sound_token:
  assumes "plan_sound sender nodes plan"
  shows "plan_sound sender nodes (resolve_token uni sender nodes t plan)"
  using assms
  by (auto simp: resolve_token_def Let_def intro: plan_sound_push_all plan_sound_not_found plan_sound_push
      split: option.splits dest: find_SomeD)

lemma plan_sound_tokens: "plan_sound sender nodes plan \<Longrightarrow> plan_sound sender nodes (fold (resolve_token uni sender nodes) ts plan)"
  by (induction ts arbitrary: plan) (auto intro: plan_sound_token)

section \<open>Who is addressed\<close>

definition first_named :: "unicode \<Rightarrow> node_candidate list \<Rightarrow> utext \<Rightarrow> node_candidate option" where
  "first_named uni nodes t =
     find (\<lambda>n. uni_lower uni (nc_id n) = uni_lower uni t \<or> uni_lower uni (nc_name n) = uni_lower uni t) nodes"

definition addresses :: "unicode \<Rightarrow> node_candidate list \<Rightarrow> utext \<Rightarrow> node_candidate \<Rightarrow> bool" where
  "addresses uni nodes t n \<longleftrightarrow> n \<in> set nodes \<and>
     (case role_token t of
        Some r \<Rightarrow> uni_lower uni r \<noteq> [] \<and> has_role uni (uni_lower uni r) n
      | None \<Rightarrow> uni_lower uni t = of_str ''all'' \<or> first_named uni nodes t = Some n)"

definition handled :: "wake_plan \<Rightarrow> utext \<Rightarrow> bool" where
  "handled plan i \<longleftrightarrow> i \<in> set (wp_targets plan) \<or> (i, Sender) \<in> set (wp_skipped plan) \<or> (i, Offline) \<in> set (wp_skipped plan)"

text \<open>Plans grow, and the ids that are no node are marked by an at sign.\<close>

definition marked :: "wake_plan \<Rightarrow> bool" where
  "marked plan \<longleftrightarrow> (\<forall>(i, r) \<in> set (wp_skipped plan). r \<in> {Sender, Offline} \<or> r = Not_Found \<and> i \<noteq> [] \<and> hd i = 64)"

definition plain_ids :: "node_candidate list \<Rightarrow> bool" where
  "plain_ids nodes \<longleftrightarrow> distinct (map nc_id nodes) \<and> (\<forall>n \<in> set nodes. nc_id n = [] \<or> hd (nc_id n) \<noteq> 64)"

lemma handled_push:
  assumes "marked plan" "nc_id n = [] \<or> hd (nc_id n) \<noteq> 64"
  shows "handled (push_target_or_skip plan n sender) i \<longleftrightarrow> handled plan i \<or> i = nc_id n"
    and "marked (push_target_or_skip plan n sender)"
proof -
  have "(handled (push_target_or_skip plan n sender) i \<longleftrightarrow> handled plan i \<or> i = nc_id n)
      \<and> marked (push_target_or_skip plan n sender)"
  proof (cases "nc_id n \<in> set (wp_targets plan) \<or> nc_id n \<in> fst ` set (wp_skipped plan)")
    case True
    have "handled plan (nc_id n)" if "(nc_id n, r) \<in> set (wp_skipped plan)" for r
      using assms that by (auto simp: handled_def marked_def)
    with True have "handled plan (nc_id n)" by (auto simp: handled_def)
    with True assms(1) show ?thesis by (auto simp: push_target_or_skip_def)
  next
    case False
    then show ?thesis
      using assms(1) by (auto simp: handled_def push_target_or_skip_def skip_def target_def marked_def)
  qed
  then show "handled (push_target_or_skip plan n sender) i \<longleftrightarrow> handled plan i \<or> i = nc_id n"
    and "marked (push_target_or_skip plan n sender)" by blast+
qed

lemma handled_push_all:
  "marked plan \<Longrightarrow> \<forall>n \<in> set ns. nc_id n = [] \<or> hd (nc_id n) \<noteq> 64 \<Longrightarrow>
     (handled (push_all sender ns plan) i \<longleftrightarrow> handled plan i \<or> i \<in> nc_id ` set ns) \<and> marked (push_all sender ns plan)"
  by (induction sender ns plan rule: push_all.induct) (auto simp: handled_push)

lemma handled_skip [simp]: "handled (skip t Not_Found plan) i = handled plan i"
  by (simp add: handled_def skip_def)

lemma handled_token:
  assumes "marked plan" "plain_ids nodes"
  shows "(handled (resolve_token uni sender nodes t plan) i
      \<longleftrightarrow> handled plan i \<or> (\<exists>n. addresses uni nodes t n \<and> nc_id n = i)) \<and> marked (resolve_token uni sender nodes t plan)"
proof -
  have ids: "\<forall>n \<in> set nodes. nc_id n = [] \<or> hd (nc_id n) \<noteq> 64" using assms(2) by (simp add: plain_ids_def)
  have miss: "marked (skip (64 # t) Not_Found plan)" using assms(1) by (simp add: marked_def skip_def)
  show ?thesis
  proof (cases "role_token t")
    case role: (Some r)
    let ?hits = "filter (has_role uni (uni_lower uni r)) nodes"
    have "\<forall>n \<in> set ?hits. nc_id n = [] \<or> hd (nc_id n) \<noteq> 64" using ids by auto
    note push = handled_push_all [OF assms(1) this, of sender i]
    show ?thesis
    proof (cases "uni_lower uni r = [] \<or> ?hits = []")
      case True
      then show ?thesis using role miss
        by (auto simp: resolve_token_def Let_def addresses_def filter_empty_conv)
    next
      case False
      with push role show ?thesis by (auto simp: resolve_token_def Let_def addresses_def)
    qed
  next
    case None
    show ?thesis
    proof (cases "uni_lower uni t = of_str ''all''")
      case True
      with handled_push_all [OF assms(1) ids, of sender i] None show ?thesis
        by (auto simp: resolve_token_def addresses_def)
    next
      case False
      show ?thesis
      proof (cases "first_named uni nodes t")
        case no: None
        with None False miss show ?thesis
          by (auto simp: resolve_token_def addresses_def first_named_def)
      next
        case (Some n)
        then have "n \<in> set nodes" unfolding first_named_def by (blast dest: find_SomeD)
        with ids handled_push [OF assms(1), of n] None False Some show ?thesis
          by (auto simp: resolve_token_def addresses_def first_named_def)
      qed
    qed
  qed
qed

lemma handled_tokens:
  assumes "plain_ids nodes"
  shows "marked plan \<Longrightarrow> handled (fold (resolve_token uni sender nodes) ts plan) i
    \<longleftrightarrow> handled plan i \<or> (\<exists>t \<in> set ts. \<exists>n. addresses uni nodes t n \<and> nc_id n = i)"
  by (induction ts arbitrary: plan) (auto simp: handled_token [OF _ assms])

lemma handled_target:
  assumes "plan_sound sender nodes plan" "plain_ids nodes" "n \<in> set nodes" "handled plan (nc_id n)"
  shows "nc_id n \<in> set (wp_targets plan) \<longleftrightarrow> nc_online n \<and> nc_id n \<noteq> sender"
    and "(nc_id n, Offline) \<in> set (wp_skipped plan) \<Longrightarrow> \<not> nc_online n"
proof -
  have same: "m = n" if "m \<in> set nodes" "nc_id m = nc_id n" for m
    using that assms(2,3) by (auto simp: plain_ids_def distinct_map inj_on_def)
  show "nc_id n \<in> set (wp_targets plan) \<longleftrightarrow> nc_online n \<and> nc_id n \<noteq> sender"
    using assms same unfolding plan_sound_def handled_def by blast
  show "(nc_id n, Offline) \<in> set (wp_skipped plan) \<Longrightarrow> \<not> nc_online n"
    using assms same unfolding plan_sound_def by blast
qed

text \<open>
  C37. Who is woken: with node ids that are distinct and do not begin with an at sign, a message with mentions wakes
  exactly the online nodes other than its sender that some mention addresses (a role, everybody, or the first node with
  that id or name), each once; a message without mentions wakes only the online assignee of its issue, again never the
  sender, and goes to the moderator exactly if it stands in a channel.
\<close>

theorem woken_exactly_addressed:
  assumes "plain_ids nodes"
    and plan_def: "plan = resolve_wake_targets uni inp nodes"
    and mentions_def: "mentions = extract_mentions_with_roster uni (wi_content inp) (roster_of nodes)"
  shows "distinct (wp_targets plan) \<and>
    (mentions \<noteq> [] \<longrightarrow> \<not> wp_to_moderator plan \<and> (\<forall>i. i \<in> set (wp_targets plan) \<longleftrightarrow>
       (\<exists>n \<in> set nodes. nc_id n = i \<and> nc_online n \<and> i \<noteq> wi_sender inp \<and> (\<exists>t \<in> set mentions. addresses uni nodes t n)))) \<and>
    (mentions = [] \<longrightarrow> (wp_to_moderator plan \<longleftrightarrow> wi_thread_kind inp = of_str ''channel'') \<and>
       (\<forall>i. i \<in> set (wp_targets plan) \<longleftrightarrow> wi_thread_kind inp \<noteq> of_str ''channel'' \<and> wi_assignee inp = Some i \<and> i \<noteq> []
          \<and> i \<noteq> wi_sender inp \<and> (\<exists>n \<in> set nodes. nc_id n = i \<and> nc_online n)))"
proof (cases "mentions = []")
  case True
  have plan: "plan = resolve_unmentioned inp nodes"
    using True by (simp add: plan_def resolve_wake_targets_def mentions_def Let_def)
  have same: "m = n" if "m \<in> set nodes" "n \<in> set nodes" "nc_id m = nc_id n" for m n
    using that assms(1) by (auto simp: plain_ids_def distinct_map inj_on_def)
  show ?thesis
    using True same unfolding plan resolve_unmentioned_def
    by (auto simp: empty_plan_def skip_def target_def find_None_iff split: option.splits if_splits dest!: find_SomeD)
next
  case False
  have plan: "plan = fold (resolve_token uni (wi_sender inp) nodes) mentions empty_plan"
    using False by (simp add: plan_def resolve_wake_targets_def mentions_def Let_def)
  have sound: "plan_sound (wi_sender inp) nodes plan" unfolding plan by (rule plan_sound_tokens) simp
  have marked: "marked empty_plan" by (simp add: marked_def empty_plan_def)
  have handled: "handled plan i \<longleftrightarrow> (\<exists>t \<in> set mentions. \<exists>n. addresses uni nodes t n \<and> nc_id n = i)" for i
    unfolding plan handled_tokens [OF assms(1) marked] by (simp add: handled_def empty_plan_def)
  have keeps: "wp_to_moderator (fold (resolve_token uni s nodes) ts p) = wp_to_moderator p" for s ts p
  proof -
    have one: "wp_to_moderator (push_all s ns p) = wp_to_moderator p" for ns p
      by (induction s ns p rule: push_all.induct) (simp_all add: push_target_or_skip_def skip_def target_def)
    show ?thesis
      by (induction ts arbitrary: p)
        (auto simp: resolve_token_def Let_def one push_target_or_skip_def skip_def target_def split: option.splits)
  qed
  have member: "n \<in> set nodes" if "addresses uni nodes t n" for t n
    using that by (simp add: addresses_def)
  have same: "m = n" if "m \<in> set nodes" "n \<in> set nodes" "nc_id m = nc_id n" for m n
    using that assms(1) by (auto simp: plain_ids_def distinct_map inj_on_def)
  have "i \<in> set (wp_targets plan) \<longleftrightarrow>
      (\<exists>n \<in> set nodes. nc_id n = i \<and> nc_online n \<and> i \<noteq> wi_sender inp \<and> (\<exists>t \<in> set mentions. addresses uni nodes t n))" for i
  proof
    assume i: "i \<in> set (wp_targets plan)"
    then have "handled plan i" by (simp add: handled_def)
    then obtain t n where n: "t \<in> set mentions" "addresses uni nodes t n" "nc_id n = i" unfolding handled by blast
    with handled_target(1) [OF sound assms(1) member [OF n(2)]] i \<open>handled plan i\<close> member [OF n(2)]
    show "\<exists>n \<in> set nodes. nc_id n = i \<and> nc_online n \<and> i \<noteq> wi_sender inp \<and> (\<exists>t \<in> set mentions. addresses uni nodes t n)"
      by blast
  next
    assume "\<exists>n \<in> set nodes. nc_id n = i \<and> nc_online n \<and> i \<noteq> wi_sender inp \<and> (\<exists>t \<in> set mentions. addresses uni nodes t n)"
    then obtain n where n: "n \<in> set nodes" "nc_id n = i" "nc_online n" "i \<noteq> wi_sender inp"
      and "\<exists>t \<in> set mentions. addresses uni nodes t n" by blast
    then have "handled plan (nc_id n)" unfolding handled by blast
    with handled_target(1) [OF sound assms(1) n(1)] n show "i \<in> set (wp_targets plan)" by blast
  qed
  moreover have "distinct (wp_targets plan)" using sound by (simp add: plan_sound_def)
  moreover have "\<not> wp_to_moderator plan" unfolding plan keeps by (simp add: empty_plan_def)
  ultimately show ?thesis using False by blast
qed

section \<open>Catching up\<close>

lemma scan_mentions_related:
  assumes step: "\<And>rest t. mention_at uni R rest = Some t \<Longrightarrow> P t \<Longrightarrow> \<exists>t'. mention_at uni R' rest = Some t' \<and> Q t'"
    and "t \<in> set (scan_mentions uni R prev content)" "P t"
  shows "\<exists>t' \<in> set (scan_mentions uni R' prev content). Q t'"
  using assms(2)
proof (induction content arbitrary: prev)
  case (Cons c rest)
  show ?case
  proof (cases "t \<in> set (scan_mentions uni R (Some c) rest)")
    case True
    with Cons.IH show ?thesis by fastforce
  next
    case False
    with Cons.prems have c: "c = 64" "\<not> (case prev of Some p \<Rightarrow> word_code uni p | None \<Rightarrow> False)"
      and "mention_at uni R rest = Some t"
      by (auto split: if_splits option.splits)
    with step [of rest t] assms(3) obtain t' where "mention_at uni R' rest = Some t'" "Q t'" by blast
    with c show ?thesis by auto
  qed
qed simp

lemma set_sorted_roster: "set (sorted_roster names) = {n \<in> set names. n \<noteq> []}"
  by (auto simp: sorted_roster_def)

text \<open>Names that differ at most in ASCII case are the only ones that are equal in lower case, and no name looks like a
  role or like everybody.\<close>

definition plain_names :: "unicode \<Rightarrow> node_candidate list \<Rightarrow> bool" where
  "plain_names uni nodes \<longleftrightarrow>
     (\<forall>a \<in> set (roster_of nodes). \<forall>b \<in> set (roster_of nodes). uni_lower uni a = uni_lower uni b \<longrightarrow> text_eq_ignore_case a b) \<and>
     (\<forall>a \<in> set (roster_of nodes). a \<noteq> [] \<longrightarrow> role_token a = None \<and> uni_lower uni a \<noteq> of_str ''all'')"

lemma name_hit_same_case: "text_eq_ignore_case a b \<Longrightarrow> name_hit uni rest b \<Longrightarrow> name_hit uni rest a"
proof -
  assume eq: "text_eq_ignore_case a b" and hit: "name_hit uni rest b"
  from eq have "length a = length b" unfolding text_eq_ignore_case_def text_ascii_lower_def by (metis length_map)
  with eq hit show ?thesis by (simp add: name_hit_def text_eq_ignore_case_def)
qed

lemma worker_hears:
  assumes names: "plain_names uni nodes" and n: "n \<in> set nodes"
    and m: "mention_at uni (sorted_roster (roster_of nodes)) rest = Some t" and adr: "addresses uni nodes t n"
  shows "\<exists>t'. mention_at uni (sorted_roster [nc_id n, nc_name n]) rest = Some t'
    \<and> token_names_node uni (nc_id n) (nc_name n) (nc_role n) (nc_category n) t'"
proof -
  let ?R = "sorted_roster (roster_of nodes)" and ?R' = "sorted_roster [nc_id n, nc_name n]"
  have own: "nc_id n \<in> set (roster_of nodes)" "nc_name n \<in> set (roster_of nodes)"
    using n by (auto simp: roster_of_def)
  then have sub: "set ?R' \<subseteq> set ?R" by (auto simp: set_sorted_roster)
  show ?thesis
  proof (cases "find (name_hit uni rest) ?R")
    case None
    then have "find (name_hit uni rest) ?R' = None" using sub by (auto simp: find_None_iff)
    with None m have "mention_at uni ?R' rest = Some t" by (simp add: mention_at_def)
    moreover have "token_names_node uni (nc_id n) (nc_name n) (nc_role n) (nc_category n) t"
      using adr by (auto simp: addresses_def token_names_node_def has_role_def first_named_def Let_def
          split: option.splits dest: find_SomeD)
    ultimately show ?thesis by blast
  next
    case (Some name)
    then have name: "name \<in> set (roster_of nodes)" "name \<noteq> []" "name_hit uni rest name"
      using find_SomeD [OF Some] by (auto simp: set_sorted_roster)
    have t: "t = name" using m Some by (simp add: mention_at_def)
    then have "first_named uni nodes name = Some n"
      using adr names name by (auto simp: addresses_def plain_names_def)
    then obtain x where x: "x \<in> {nc_id n, nc_name n}" "uni_lower uni x = uni_lower uni name"
      by (auto simp: first_named_def dest!: find_SomeD)
    with own have "x \<in> set (roster_of nodes)" by auto
    with x(2) names name(1) have same: "text_eq_ignore_case x name" unfolding plain_names_def by blast
    then have "name_hit uni rest x" by (rule name_hit_same_case [OF _ name(3)])
    moreover have "x \<noteq> []" using same name(2) by (auto simp: text_eq_ignore_case_def text_ascii_lower_def)
    moreover from this x(1) have "x \<in> set ?R'" unfolding set_sorted_roster by simp
    ultimately have "find (name_hit uni rest) ?R' \<noteq> None"
      unfolding find_None_iff by blast
    then obtain y where y: "find (name_hit uni rest) ?R' = Some y" by blast
    have "y \<in> set ?R'" using find_SomeD [OF y] by (rule conjunct1)
    then have yn: "y \<in> {nc_id n, nc_name n}" "y \<noteq> []" unfolding set_sorted_roster by simp_all
    then have "y \<in> set (roster_of nodes)" using own by (elim insertE emptyE) simp_all
    with yn(2) names have "role_token y = None" by (simp add: plain_names_def)
    moreover have "uni_lower uni y = uni_lower uni (nc_id n) \<or> uni_lower uni y = uni_lower uni (nc_name n)"
      using yn(1) by blast
    ultimately have "token_names_node uni (nc_id n) (nc_name n) (nc_role n) (nc_category n) y"
      unfolding token_names_node_def Let_def by simp
    moreover have "mention_at uni ?R' rest = Some y" by (simp add: mention_at_def y)
    ultimately show ?thesis by blast
  qed
qed

text \<open>
  C38. No mention is lost for a node that was offline: whatever node the master wakes, or skips as offline, because of a
  mention recognises the message by its own filter when it catches up, although it knows no name but its own. (Assumes
  that no node's name reads as a role or as everybody and that names equal in lower case differ in ASCII case only.)
\<close>

theorem catch_up_misses_nothing:
  assumes "plain_ids nodes" "plain_names uni nodes" "n \<in> set nodes"
    and "extract_mentions_with_roster uni (wi_content inp) (roster_of nodes) \<noteq> []"
    and "nc_id n \<in> set (wp_targets (resolve_wake_targets uni inp nodes)) \<or>
      (nc_id n, Offline) \<in> set (wp_skipped (resolve_wake_targets uni inp nodes))"
  shows "mentions_node uni (wi_content inp) (nc_id n) (nc_name n) (nc_role n) (nc_category n)"
proof -
  let ?ts = "extract_mentions_with_roster uni (wi_content inp) (roster_of nodes)"
  have plan: "resolve_wake_targets uni inp nodes = fold (resolve_token uni (wi_sender inp) nodes) ?ts empty_plan"
    using assms(4) by (simp add: resolve_wake_targets_def Let_def)
  have marked: "marked empty_plan" by (simp add: marked_def empty_plan_def)
  have "handled (resolve_wake_targets uni inp nodes) (nc_id n)" using assms(5) by (auto simp: handled_def)
  then obtain t m where t: "t \<in> set ?ts" "addresses uni nodes t m" "nc_id m = nc_id n"
    unfolding plan handled_tokens [OF assms(1) marked] by (auto simp: handled_def empty_plan_def)
  moreover have "m = n"
    using t assms(1,3) by (auto simp: plain_ids_def distinct_map inj_on_def addresses_def)
  ultimately have "\<exists>t' \<in> set (scan_mentions uni (sorted_roster [nc_id n, nc_name n]) None (wi_content inp)).
      token_names_node uni (nc_id n) (nc_name n) (nc_role n) (nc_category n) t'"
    by (intro scan_mentions_related [where R = "sorted_roster (roster_of nodes)" and P = "\<lambda>t. addresses uni nodes t n"])
      (auto simp: extract_mentions_with_roster_def intro: worker_hears [OF assms(2,3)])
  then show ?thesis by (auto simp: mentions_node_def extract_mentions_with_roster_def list_ex_iff)
qed

section \<open>An example\<close>

definition ascii_unicode :: unicode where
  "ascii_unicode = \<lparr> uni_lower = text_ascii_lower,
     uni_alnum = (\<lambda>c. 48 \<le> c \<and> c \<le> 57 \<or> 65 \<le> c \<and> c \<le> 90 \<or> 97 \<le> c \<and> c \<le> 122) \<rparr>"

definition two_nodes :: "node_candidate list" where
  "two_nodes =
     [\<lparr> nc_id = of_str ''n1'', nc_name = of_str ''Product Manager'', nc_role = of_str ''worker'',
        nc_category = of_str ''pm'', nc_online = True \<rparr>,
      \<lparr> nc_id = of_str ''n2'', nc_name = of_str ''Product'', nc_role = of_str ''worker'',
        nc_category = of_str ''qa'', nc_online = False \<rparr>]"

definition example_message :: wake_input where
  "example_message = \<lparr> wi_thread_kind = of_str ''issue'',
     wi_content = of_str ''see @product manager, @role:QA! a@b.c'', wi_sender = of_str ''n3'',
     wi_assignee = None, wi_moderator = of_str ''m'' \<rparr>"

lemma two_nodes_plain: "plain_ids two_nodes" "plain_names ascii_unicode two_nodes"
proof -
  show "plain_ids two_nodes" unfolding plain_ids_def by code_simp
  show "plain_names ascii_unicode two_nodes"
    unfolding plain_names_def by code_simp
qed

theorem woken_exactly_addressed_witness:
  "set (wp_targets (resolve_wake_targets ascii_unicode example_message two_nodes)) = {of_str ''n1''} \<and>
   distinct (wp_targets (resolve_wake_targets ascii_unicode example_message two_nodes))"
proof -
  have "wp_targets (resolve_wake_targets ascii_unicode example_message two_nodes) = [of_str ''n1'']" by code_simp
  with woken_exactly_addressed [OF two_nodes_plain(1) refl refl, of ascii_unicode example_message]
  show ?thesis by simp
qed

theorem catch_up_misses_nothing_witness:
  "(of_str ''n2'', Offline) \<in> set (wp_skipped (resolve_wake_targets ascii_unicode example_message two_nodes)) \<and>
   mentions_node ascii_unicode (wi_content example_message) (of_str ''n2'') (of_str ''Product'') (of_str ''worker'') (of_str ''qa'')"
proof -
  let ?n = "\<lparr> nc_id = of_str ''n2'', nc_name = of_str ''Product'', nc_role = of_str ''worker'',
        nc_category = of_str ''qa'', nc_online = False \<rparr>"
  have n: "?n \<in> set two_nodes" by (simp add: two_nodes_def)
  have some: "extract_mentions_with_roster ascii_unicode (wi_content example_message) (roster_of two_nodes) \<noteq> []"
    by code_simp
  have skipped: "(of_str ''n2'', Offline) \<in> set (wp_skipped (resolve_wake_targets ascii_unicode example_message two_nodes))"
    by code_simp
  with catch_up_misses_nothing [OF two_nodes_plain n some] show ?thesis by simp
qed

end
