(* ===== verification/Turn_Guard.thy ===== *)
theory Turn_Guard
  imports Unicode_Text Prelude
begin

text \<open>
  The guards of one turn of the agent (\<open>crates/nemesis-agent/src/turn_guard.rs\<close>): repeated failures, storms,
  repeated writes and reads, repeated prose, empty final answers, receipts. Counters are natural numbers (the code's
  \<open>u32\<close> are not reached within a turn); the JSON normal form of arguments is an argument.
\<close>

section \<open>Constants and texts\<close>

definition alternating_loop_threshold :: nat where "alternating_loop_threshold = 3"
definition alternating_loop_hard_stop :: nat where "alternating_loop_hard_stop = 24"
definition ladder_level_bounds :: "nat list" where "ladder_level_bounds = [6, 12, 18]"
definition storm_threshold :: nat where "storm_threshold = 3"
definition repeat_success_threshold :: nat where "repeat_success_threshold = 2"
definition read_repeat_nudge_threshold :: nat where "read_repeat_nudge_threshold = 3"
definition max_empty_final_retries :: nat where "max_empty_final_retries = 3"
definition receipt_ring_cap :: nat where "receipt_ring_cap = 32"

lemmas guard_constants = alternating_loop_threshold_def alternating_loop_hard_stop_def storm_threshold_def
  repeat_success_threshold_def read_repeat_nudge_threshold_def max_empty_final_retries_def receipt_ring_cap_def

definition receipt_missing_marker :: utext where
  "receipt_missing_marker = 0 # of_str ''receipt-missing: success claimed without execution proof''"

definition write_like_tools :: "utext list" where
  "write_like_tools = map of_str [''edit_file'', ''write_file'', ''create_file'', ''save_file'', ''patch_file'', ''multiedit'']"

definition is_write_like_tool :: "utext \<Rightarrow> bool" where
  "is_write_like_tool name \<longleftrightarrow> name \<in> set write_like_tools"

definition tool_result_indicates_error :: "utext \<Rightarrow> bool" where
  "tool_result_indicates_error result \<longleftrightarrow>
     text_starts_with result (of_str ''Error:'') \<or> text_starts_with result (of_str ''Tool error:'')
     \<or> text_starts_with result (of_str ''Exit code:'') \<or> text_starts_with result (of_str ''Command timed out'')"

text \<open>\<open>trim_start_matches\<close> with a text removes every copy at the front.\<close>

function strip_copies :: "utext \<Rightarrow> utext \<Rightarrow> utext" where
  "strip_copies p s = (if p \<noteq> [] \<and> text_starts_with s p then strip_copies p (drop (length p) s) else s)"
  by pat_completeness auto
termination
  by (relation "measure (length \<circ> snd)") (auto simp: text_starts_with_def intro!: diff_less)

declare strip_copies.simps [simp del]

definition meaningful_line :: "utext \<Rightarrow> utext option" where
  "meaningful_line l =
     (let s = text_trim (strip_copies (of_str ''stderr:'') (strip_copies (of_str ''stdout:'') l)) in
      if s = [] \<or> text_starts_with s (of_str ''Exit code:'') then None else Some s)"

definition error_signature :: "utext \<Rightarrow> utext \<Rightarrow> utext" where
  "error_signature tool error =
     (let stripped = text_trim (strip_copies (of_str ''Tool error:'') (strip_copies (of_str ''Error:'') error));
          meaningful = (case first_some meaningful_line (text_lines stripped) of
             Some s \<Rightarrow> s
           | None \<Rightarrow> text_trim (case text_lines stripped of l # _ \<Rightarrow> l | [] \<Rightarrow> stripped)) in
      tool @ 0 # take 120 meaningful)"

definition canonical_args :: "(utext \<Rightarrow> utext option) \<Rightarrow> utext \<Rightarrow> utext" where
  "canonical_args json args = (case json args of Some v \<Rightarrow> v | None \<Rightarrow> join_words (text_words args))"

definition call_signature :: "(utext \<Rightarrow> utext option) \<Rightarrow> utext \<Rightarrow> utext \<Rightarrow> utext" where
  "call_signature json tool args = tool @ 0 # canonical_args json args"

section \<open>Similarity of prose\<close>

definition shingles :: "utext \<Rightarrow> nat \<Rightarrow> utext list" where
  "shingles s n = (if length s < n then [s] else map (\<lambda>i. take n (drop i s)) [0..<Suc (length s - n)])"

text \<open>The Jaccard index is compared with 0.8 in floating point; for texts below \<open>2 ^ 50\<close> characters that is this
  comparison of integers (both sides are correctly rounded quotients).\<close>

definition similar_text :: "utext \<Rightarrow> utext \<Rightarrow> bool" where
  "similar_text a b =
     (let sa = set (shingles a 4); sb = set (shingles b 4) in 4 * card (sa \<union> sb) \<le> 5 * card (sa \<inter> sb))"

section \<open>State and operations\<close>

datatype nudge =
    Storm utext nat
  | Ladder nat utext nat
  | Receipt_Missing utext
  | Write_Repeat utext nat
  | Read_Repeat utext nat
  | Text_Repeat

datatype final_verdict = Accept | Retry_With_Nudge | Give_Up

record turn_guard =
  tg_fail_freq :: "utext \<Rightarrow> nat option"
  tg_storm :: "utext option \<times> nat"
  tg_success_counts :: "utext \<Rightarrow> nat option"
  tg_read_success_counts :: "utext \<Rightarrow> nat option"
  tg_empty_final_count :: nat
  tg_last_content :: "utext option"
  tg_repeat_text_count :: nat
  tg_receipts :: "(utext \<times> nat) list"
  tg_had_writes :: bool
  tg_guard_events :: nat

definition guard_new :: turn_guard where
  "guard_new = \<lparr> tg_fail_freq = Map.empty, tg_storm = (None, 0), tg_success_counts = Map.empty,
     tg_read_success_counts = Map.empty, tg_empty_final_count = 0, tg_last_content = None,
     tg_repeat_text_count = 0, tg_receipts = [], tg_had_writes = False, tg_guard_events = 0 \<rparr>"

definition count_of :: "(utext \<Rightarrow> nat option) \<Rightarrow> utext \<Rightarrow> nat" where
  "count_of m s = (case m s of Some n \<Rightarrow> n | None \<Rightarrow> 0)"

definition bump :: "utext \<Rightarrow> (utext \<Rightarrow> nat option) \<Rightarrow> (utext \<Rightarrow> nat option)" where
  "bump s m = m(s \<mapsto> Suc (count_of m s))"

definition alternating_nudge :: "utext \<Rightarrow> nat \<Rightarrow> nudge" where
  "alternating_nudge tool count =
     Ladder (if count < ladder_level_bounds ! 0 then 0 else if count < ladder_level_bounds ! 1 then 1
             else if count < ladder_level_bounds ! 2 then 2 else 3) tool count"

definition note_event :: "nudge option \<Rightarrow> turn_guard \<Rightarrow> nudge option \<times> turn_guard" where
  "note_event n g = (n, if n = None then g else g\<lparr>tg_guard_events := Suc (tg_guard_events g)\<rparr>)"

definition record_tool_outcome :: "utext \<Rightarrow> utext option \<Rightarrow> turn_guard \<Rightarrow> nudge option \<times> turn_guard" where
  "record_tool_outcome tool error g =
     (case error of
        None \<Rightarrow> (None, g\<lparr>tg_storm := (None, 0)\<rparr>)
      | Some e \<Rightarrow>
          let sig = error_signature tool e;
              freq = bump sig (tg_fail_freq g);
              alt = count_of freq sig;
              alt_nudge = (if alternating_loop_threshold \<le> alt then Some (alternating_nudge tool alt) else None);
              again = (fst (tg_storm g) = Some sig);
              run = (if again then Suc (snd (tg_storm g)) else 1);
              storm_nudge = (if again \<and> storm_threshold \<le> run then Some (Storm tool run) else None) in
          note_event (case storm_nudge of Some n \<Rightarrow> Some n | None \<Rightarrow> alt_nudge)
            (g\<lparr>tg_fail_freq := freq, tg_storm := (Some sig, run)\<rparr>))"

definition record_receipt :: "utext \<times> nat \<Rightarrow> turn_guard \<Rightarrow> turn_guard" where
  "record_receipt r g =
     (let rs = tg_receipts g @ [r] in g\<lparr>tg_receipts := drop (length rs - receipt_ring_cap) rs\<rparr>)"

definition receipt_count :: "turn_guard \<Rightarrow> nat" where
  "receipt_count g = length (tg_receipts g)"

definition record_tool_outcome_verified ::
    "utext \<Rightarrow> utext option \<Rightarrow> (utext \<times> nat) option \<Rightarrow> turn_guard \<Rightarrow> nudge option \<times> turn_guard" where
  "record_tool_outcome_verified tool error receipt g =
     (let g1 = (case receipt of Some r \<Rightarrow> record_receipt r g | None \<Rightarrow> g) in
      if error = None \<and> receipt = None
      then note_event (Some (Receipt_Missing tool))
             (g1\<lparr>tg_fail_freq := bump (error_signature tool receipt_missing_marker) (tg_fail_freq g1)\<rparr>)
      else record_tool_outcome tool error g1)"

text \<open>The table is searched in the order of its hash table, which is an argument.\<close>

definition escalating_signature :: "utext list \<Rightarrow> turn_guard \<Rightarrow> (utext \<times> nat) option" where
  "escalating_signature order g =
     map_option (\<lambda>s. (s, count_of (tg_fail_freq g) s))
       (find (\<lambda>s. alternating_loop_hard_stop \<le> count_of (tg_fail_freq g) s) order)"

definition clear_signature :: "utext \<Rightarrow> turn_guard \<Rightarrow> turn_guard" where
  "clear_signature s g = g\<lparr>tg_fail_freq := (tg_fail_freq g)(s := None)\<rparr>"

definition record_write_success ::
    "(utext \<Rightarrow> utext option) \<Rightarrow> utext \<Rightarrow> utext \<Rightarrow> turn_guard \<Rightarrow> nudge option \<times> turn_guard" where
  "record_write_success json tool args g =
     (if \<not> is_write_like_tool tool then (None, g)
      else let counts = bump (call_signature json tool args) (tg_success_counts g);
               count = count_of counts (call_signature json tool args) in
        note_event (if repeat_success_threshold < count then Some (Write_Repeat tool count) else None)
          (g\<lparr>tg_had_writes := True, tg_success_counts := counts\<rparr>))"

definition record_read_success ::
    "(utext \<Rightarrow> utext option) \<Rightarrow> utext \<Rightarrow> utext \<Rightarrow> turn_guard \<Rightarrow> nudge option \<times> turn_guard" where
  "record_read_success json tool args g =
     (if is_write_like_tool tool then (None, g)
      else let counts = bump (call_signature json tool args) (tg_read_success_counts g);
               count = count_of counts (call_signature json tool args) in
        note_event (if read_repeat_nudge_threshold \<le> count then Some (Read_Repeat tool count) else None)
          (g\<lparr>tg_read_success_counts := counts\<rparr>))"

definition check_text_repetition :: "utext \<Rightarrow> turn_guard \<Rightarrow> nudge option \<times> turn_guard" where
  "check_text_repetition content g =
     (if text_trim content = [] then (None, g)
      else let similar = (case tg_last_content g of Some prev \<Rightarrow> similar_text prev content | None \<Rightarrow> False) in
        if similar
        then let n = Suc (tg_repeat_text_count g) in
          note_event (if 1 \<le> n then Some Text_Repeat else None)
            (g\<lparr>tg_repeat_text_count := n, tg_last_content := Some content\<rparr>)
        else (None, g\<lparr>tg_repeat_text_count := 0, tg_last_content := Some content\<rparr>))"

definition check_final_answer :: "utext \<Rightarrow> turn_guard \<Rightarrow> final_verdict \<times> turn_guard" where
  "check_final_answer answer g =
     (if text_trim answer \<noteq> [] then (Accept, g)
      else let n = Suc (tg_empty_final_count g) in
        (if max_empty_final_retries \<le> n then Give_Up else Retry_With_Nudge,
         g\<lparr>tg_empty_final_count := n, tg_guard_events := Suc (tg_guard_events g)\<rparr>))"

section \<open>Events\<close>

datatype guard_event =
    Outcome utext "utext option" "(utext \<times> nat) option"
  | Wrote utext utext
  | Looked utext utext
  | Said utext
  | Answered utext
  | Approved utext

datatype guard_answer = Nudge "nudge option" | Verdict final_verdict

definition guard_step :: "(utext \<Rightarrow> utext option) \<Rightarrow> turn_guard \<Rightarrow> guard_event \<Rightarrow> guard_answer \<times> turn_guard" where
  "guard_step json g e =
     (case e of
        Outcome tool err rc \<Rightarrow> map_prod Nudge id (record_tool_outcome_verified tool err rc g)
      | Wrote tool args \<Rightarrow> map_prod Nudge id (record_write_success json tool args g)
      | Looked tool args \<Rightarrow> map_prod Nudge id (record_read_success json tool args g)
      | Said content \<Rightarrow> map_prod Nudge id (check_text_repetition content g)
      | Answered answer \<Rightarrow> map_prod Verdict id (check_final_answer answer g)
      | Approved s \<Rightarrow> (Nudge None, clear_signature s g))"

definition guard_run :: "(utext \<Rightarrow> utext option) \<Rightarrow> guard_event list \<Rightarrow> turn_guard" where
  "guard_run json es = run_events (\<lambda>g e. snd (guard_step json g e)) guard_new es"

section \<open>The contract on histories\<close>

text \<open>The signature an event counts as a failure for, and the outcomes the storm guard sees.\<close>

definition failure_of :: "guard_event \<Rightarrow> utext option" where
  "failure_of e = (case e of
     Outcome tool (Some err) _ \<Rightarrow> Some (error_signature tool err)
   | Outcome tool None None \<Rightarrow> Some (error_signature tool receipt_missing_marker)
   | _ \<Rightarrow> None)"

definition storm_entry :: "guard_event \<Rightarrow> utext option option" where
  "storm_entry e = (case e of
     Outcome tool (Some err) _ \<Rightarrow> Some (Some (error_signature tool err))
   | Outcome tool None (Some _) \<Rightarrow> Some None
   | _ \<Rightarrow> None)"

definition failures :: "utext \<Rightarrow> guard_event list \<Rightarrow> nat" where
  "failures s h = length (filter (\<lambda>e. failure_of e = Some s) (takeWhile (\<lambda>e. e \<noteq> Approved s) (rev h)))"

definition storm_run :: "utext \<Rightarrow> guard_event list \<Rightarrow> nat" where
  "storm_run s h = length (takeWhile (\<lambda>o'. o' = Some s) (rev (List.map_filter storm_entry h)))"

definition writes_of :: "(utext \<Rightarrow> utext option) \<Rightarrow> utext \<Rightarrow> guard_event list \<Rightarrow> nat" where
  "writes_of json s h = length (filter (\<lambda>e. \<exists>tool args. e = Wrote tool args \<and> is_write_like_tool tool
     \<and> call_signature json tool args = s) h)"

definition looks_of :: "(utext \<Rightarrow> utext option) \<Rightarrow> utext \<Rightarrow> guard_event list \<Rightarrow> nat" where
  "looks_of json s h = length (filter (\<lambda>e. \<exists>tool args. e = Looked tool args \<and> \<not> is_write_like_tool tool
     \<and> call_signature json tool args = s) h)"

definition said_of :: "guard_event \<Rightarrow> utext option" where
  "said_of e = (case e of Said c \<Rightarrow> if text_trim c = [] then None else Some c | _ \<Rightarrow> None)"

definition last_said :: "guard_event list \<Rightarrow> utext option" where
  "last_said h = (case rev (List.map_filter said_of h) of [] \<Rightarrow> None | c # _ \<Rightarrow> Some c)"

definition empty_answers :: "guard_event list \<Rightarrow> nat" where
  "empty_answers h = length (filter (\<lambda>e. \<exists>a. e = Answered a \<and> text_trim a = []) h)"

definition guard_spec :: "(utext \<Rightarrow> utext option) \<Rightarrow> guard_event list \<Rightarrow> guard_event \<Rightarrow> guard_answer" where
  "guard_spec json h e =
     (case e of
        Outcome tool None (Some _) \<Rightarrow> Nudge None
      | Outcome tool None None \<Rightarrow> Nudge (Some (Receipt_Missing tool))
      | Outcome tool (Some err) _ \<Rightarrow>
          let s = error_signature tool err in
          Nudge (if 2 \<le> storm_run s h then Some (Storm tool (Suc (storm_run s h)))
                 else if 2 \<le> failures s h then Some (alternating_nudge tool (Suc (failures s h)))
                 else None)
      | Wrote tool args \<Rightarrow>
          let n = Suc (writes_of json (call_signature json tool args) h) in
          Nudge (if is_write_like_tool tool \<and> 3 \<le> n then Some (Write_Repeat tool n) else None)
      | Looked tool args \<Rightarrow>
          let n = Suc (looks_of json (call_signature json tool args) h) in
          Nudge (if \<not> is_write_like_tool tool \<and> 3 \<le> n then Some (Read_Repeat tool n) else None)
      | Said content \<Rightarrow>
          Nudge (if text_trim content \<noteq> [] \<and> (\<exists>prev. last_said h = Some prev \<and> similar_text prev content)
                 then Some Text_Repeat else None)
      | Answered answer \<Rightarrow>
          Verdict (if text_trim answer \<noteq> [] then Accept
                   else if 2 \<le> empty_answers h then Give_Up else Retry_With_Nudge)
      | Approved s \<Rightarrow> Nudge None)"

definition storm_len :: "utext option \<times> nat \<Rightarrow> utext \<Rightarrow> nat" where
  "storm_len p s = (if fst p = Some s then snd p else 0)"

lemma storm_len_simps [simp]: "storm_len (None, n) s = 0" "storm_len (Some u, n) s = (if u = s then n else 0)"
  by (simp_all add: storm_len_def)

definition guard_shows :: "(utext \<Rightarrow> utext option) \<Rightarrow> turn_guard \<Rightarrow> guard_event list \<Rightarrow> bool" where
  "guard_shows json g h \<longleftrightarrow>
     (\<forall>s. count_of (tg_fail_freq g) s = failures s h) \<and>
     (\<forall>s. storm_len (tg_storm g) s = storm_run s h) \<and>
     (\<forall>s. count_of (tg_success_counts g) s = writes_of json s h) \<and>
     (\<forall>s. count_of (tg_read_success_counts g) s = looks_of json s h) \<and>
     tg_last_content g = last_said h \<and> tg_empty_final_count g = empty_answers h"

lemma count_of_bump [simp]: "count_of (bump s m) t = (if t = s then Suc (count_of m s) else count_of m t)"
  by (simp add: bump_def count_of_def)

lemma count_of_del [simp]: "count_of (m(s := None)) t = (if t = s then 0 else count_of m t)"
  by (simp add: count_of_def)

lemma failures_snoc: "failures s (h @ [e]) =
    (if e = Approved s then 0 else if failure_of e = Some s then Suc (failures s h) else failures s h)"
  by (auto simp: failures_def)

lemma storm_run_snoc: "storm_run s (h @ [e]) =
    (case storm_entry e of None \<Rightarrow> storm_run s h | Some o' \<Rightarrow> if o' = Some s then Suc (storm_run s h) else 0)"
  by (auto simp: storm_run_def List.map_filter_def split: option.splits)

lemma last_said_snoc: "last_said (h @ [e]) = (case said_of e of Some c \<Rightarrow> Some c | None \<Rightarrow> last_said h)"
  by (auto simp: last_said_def List.map_filter_def split: option.splits)

lemma writes_of_snoc: "writes_of json s (h @ [e]) = writes_of json s h +
    (if \<exists>tool args. e = Wrote tool args \<and> is_write_like_tool tool \<and> call_signature json tool args = s then 1 else 0)"
  by (simp add: writes_of_def)

lemma looks_of_snoc: "looks_of json s (h @ [e]) = looks_of json s h +
    (if \<exists>tool args. e = Looked tool args \<and> \<not> is_write_like_tool tool \<and> call_signature json tool args = s then 1 else 0)"
  by (simp add: looks_of_def)

lemma empty_answers_snoc: "empty_answers (h @ [e]) = empty_answers h + (if \<exists>a. e = Answered a \<and> text_trim a = [] then 1 else 0)"
  by (simp add: empty_answers_def)

lemmas history_snoc = failures_snoc storm_run_snoc last_said_snoc writes_of_snoc looks_of_snoc empty_answers_snoc


lemma guard_shows_new: "guard_shows json guard_new []"
  by (simp add: guard_shows_def guard_new_def count_of_def failures_def storm_run_def last_said_def writes_of_def
      looks_of_def empty_answers_def List.map_filter_def)

lemma outcome_correct:
  assumes g: "guard_shows json g h" and e: "e = Outcome tool (Some err) rc"
  shows "fst (guard_step json g e) = guard_spec json h e" and "guard_shows json (snd (guard_step json g e)) (h @ [e])"
proof -
  let ?s = "error_signature tool err"
  obtain last run where storm: "tg_storm g = (last, run)" by fastforce
  have rec: "guard_shows json (case rc of Some r \<Rightarrow> record_receipt r g | None \<Rightarrow> g) h"
    "tg_storm (case rc of Some r \<Rightarrow> record_receipt r g | None \<Rightarrow> g) = (last, run)"
    using g storm by (auto simp: guard_shows_def record_receipt_def Let_def split: option.splits)
  have alt: "count_of (tg_fail_freq (case rc of Some r \<Rightarrow> record_receipt r g | None \<Rightarrow> g)) ?s = failures ?s h"
    using rec by (simp add: guard_shows_def)
  have again: "last = Some ?s \<Longrightarrow> run = storm_run ?s h" "last \<noteq> Some ?s \<Longrightarrow> storm_run ?s h = 0"
    using rec unfolding guard_shows_def by (metis fst_conv snd_conv storm_len_def)+
  show "fst (guard_step json g e) = guard_spec json h e"
    using alt again
    by (auto simp: e guard_step_def record_tool_outcome_verified_def record_tool_outcome_def Let_def rec(2)
        note_event_def guard_spec_def guard_constants)
  have entry: "storm_entry e = Some (Some ?s)" "failure_of e = Some ?s" "said_of e = None"
    by (simp_all add: e storm_entry_def failure_of_def said_of_def)
  show "guard_shows json (snd (guard_step json g e)) (h @ [e])"
    using rec again entry
    by (auto simp: e guard_step_def record_tool_outcome_verified_def record_tool_outcome_def Let_def
        note_event_def guard_shows_def history_snoc)
qed

lemma quiet_outcome_correct:
  assumes g: "guard_shows json g h" and e: "e = Outcome tool None rc"
  shows "fst (guard_step json g e) = guard_spec json h e" and "guard_shows json (snd (guard_step json g e)) (h @ [e])"
proof -
  show "fst (guard_step json g e) = guard_spec json h e"
    by (cases rc) (simp_all add: e guard_step_def record_tool_outcome_verified_def record_tool_outcome_def Let_def
        note_event_def guard_spec_def)
  show "guard_shows json (snd (guard_step json g e)) (h @ [e])"
  proof (cases rc)
    case None
    then have "failure_of e = Some (error_signature tool receipt_missing_marker)" "storm_entry e = None" "said_of e = None"
      by (simp_all add: e storm_entry_def failure_of_def said_of_def)
    with None g show ?thesis
      by (auto simp: e guard_step_def record_tool_outcome_verified_def Let_def note_event_def guard_shows_def history_snoc)
  next
    case (Some r)
    then have "failure_of e = None" "storm_entry e = Some None" "said_of e = None"
      by (simp_all add: e storm_entry_def failure_of_def said_of_def)
    with Some g show ?thesis
      by (auto simp: e guard_step_def record_tool_outcome_verified_def record_tool_outcome_def record_receipt_def Let_def
          guard_shows_def history_snoc)
  qed
qed

lemma guard_step_correct:
  assumes g: "guard_shows json g h"
  shows "fst (guard_step json g e) = guard_spec json h e \<and> guard_shows json (snd (guard_step json g e)) (h @ [e])"
proof (cases e)
  case (Outcome tool err rc)
  then show ?thesis
    using outcome_correct [OF g] quiet_outcome_correct [OF g] by (cases err) auto
next
  case (Wrote tool args)
  moreover have "failure_of e = None" "storm_entry e = None" "said_of e = None"
    by (simp_all add: Wrote storm_entry_def failure_of_def said_of_def)
  ultimately show ?thesis using g
    by (auto simp: guard_step_def record_write_success_def Let_def note_event_def guard_shows_def history_snoc
        guard_spec_def guard_constants)
next
  case (Looked tool args)
  moreover have "failure_of e = None" "storm_entry e = None" "said_of e = None"
    by (simp_all add: Looked storm_entry_def failure_of_def said_of_def)
  ultimately show ?thesis using g
    by (auto simp: guard_step_def record_read_success_def Let_def note_event_def guard_shows_def history_snoc
        guard_spec_def guard_constants)
next
  case (Said content)
  moreover have "failure_of e = None" "storm_entry e = None" "said_of e = (if text_trim content = [] then None else Some content)"
    by (simp_all add: Said storm_entry_def failure_of_def said_of_def)
  ultimately show ?thesis using g
    by (auto simp: guard_step_def check_text_repetition_def Let_def note_event_def guard_shows_def history_snoc
        guard_spec_def split: option.splits)
next
  case (Answered answer)
  moreover have "failure_of e = None" "storm_entry e = None" "said_of e = None"
    by (simp_all add: Answered storm_entry_def failure_of_def said_of_def)
  ultimately show ?thesis using g
    by (auto simp: guard_step_def check_final_answer_def Let_def guard_shows_def history_snoc
        guard_spec_def guard_constants)
next
  case (Approved s)
  moreover have "failure_of e = None" "storm_entry e = None" "said_of e = None"
    by (simp_all add: Approved storm_entry_def failure_of_def said_of_def)
  ultimately show ?thesis using g
    by (auto simp: guard_step_def clear_signature_def guard_shows_def history_snoc guard_spec_def)
qed

lemma guard_run_snoc: "guard_run json (h @ [e]) = snd (guard_step json (guard_run json h) e)"
  by (simp add: guard_run_def run_events_append)

lemma guard_run_shows: "guard_shows json (guard_run json h) h"
proof (induction h rule: rev_induct)
  case Nil
  then show ?case using guard_shows_new by (simp add: guard_run_def)
next
  case (snoc e h)
  then show ?case by (simp add: guard_run_snoc guard_step_correct)
qed

section \<open>What the comments promise\<close>

text \<open>
  The contract as the comments of the file state it. When a failure is both the third of an unbroken run and the third
  in all, one comment prefers the first nudge and another one ranks it lower, so either is allowed.
\<close>

definition ladder_level :: "nat \<Rightarrow> nat" where
  "ladder_level n = (if n \<le> 5 then 0 else if n \<le> 11 then 1 else if n \<le> 17 then 2 else 3)"

definition promised_answers :: "(utext \<Rightarrow> utext option) \<Rightarrow> guard_event list \<Rightarrow> guard_event \<Rightarrow> guard_answer list" where
  "promised_answers json h e =
     (case e of
        Outcome tool None _ \<Rightarrow> [Nudge None]
      | Outcome tool (Some err) _ \<Rightarrow>
          let run = Suc (storm_run (error_signature tool err) h); n = Suc (failures (error_signature tool err) h);
              nudges = (if 3 \<le> run then [Nudge (Some (Storm tool run))] else [])
                @ (if 3 \<le> n then [Nudge (Some (Ladder (ladder_level n) tool n))] else []) in
          if nudges = [] then [Nudge None] else nudges
      | Wrote tool args \<Rightarrow>
          let n = Suc (writes_of json (call_signature json tool args) h) in
          [Nudge (if is_write_like_tool tool \<and> 2 < n then Some (Write_Repeat tool n) else None)]
      | Looked tool args \<Rightarrow>
          let n = Suc (looks_of json (call_signature json tool args) h) in
          [Nudge (if \<not> is_write_like_tool tool \<and> 3 \<le> n then Some (Read_Repeat tool n) else None)]
      | Said content \<Rightarrow>
          [Nudge (if text_trim content \<noteq> [] \<and> (\<exists>prev. last_said h = Some prev \<and> similar_text prev content)
                  then Some Text_Repeat else None)]
      | Answered answer \<Rightarrow>
          [Verdict (if text_trim answer \<noteq> [] then Accept
                    else if 3 \<le> Suc (empty_answers h) then Give_Up else Retry_With_Nudge)]
      | Approved s \<Rightarrow> [Nudge None])"

text \<open>
  Where the comments do not say one thing: a success without a receipt (said to feed both counters of failures), what
  comes after an accepted answer (the empty answers are said to be consecutive ones), the second identical write (the
  constant is 2, the test is for more than 2), the first similar round (said to only record the text), the failures
  from the 24th on (said not to be nudged any more), and a run of failures that an approval falls into (said to be
  counted from zero again, while the run goes on).
\<close>

definition similar_before :: "guard_event list \<Rightarrow> bool" where
  "similar_before h = (case rev (List.map_filter said_of h) of c # b # _ \<Rightarrow> similar_text b c | _ \<Rightarrow> False)"

definition unproved_success :: "guard_event \<Rightarrow> bool" where
  "unproved_success e = (case e of Outcome _ None None \<Rightarrow> True | _ \<Rightarrow> False)"

definition accepted_answer :: "guard_event \<Rightarrow> bool" where
  "accepted_answer e = (case e of Answered a \<Rightarrow> text_trim a \<noteq> [] | _ \<Rightarrow> False)"

definition comments_agree :: "(utext \<Rightarrow> utext option) \<Rightarrow> guard_event list \<Rightarrow> guard_event \<Rightarrow> bool" where
  "comments_agree json h e \<longleftrightarrow> list_all (\<lambda>x. \<not> unproved_success x) (h @ [e]) \<and> list_all (\<lambda>x. \<not> accepted_answer x) h \<and>
     (case e of
        Outcome tool (Some err) _ \<Rightarrow> failures (error_signature tool err) h < 23
          \<and> storm_run (error_signature tool err) h \<le> failures (error_signature tool err) h
      | Wrote tool args \<Rightarrow> writes_of json (call_signature json tool args) h \<noteq> 1
      | Said content \<Rightarrow> similar_before h \<or> (case last_said h of Some prev \<Rightarrow> \<not> similar_text prev content | None \<Rightarrow> True)
      | _ \<Rightarrow> True)"

lemma spec_is_promised:
  assumes "comments_agree json h e"
  shows "guard_spec json h e \<in> set (promised_answers json h e)"
proof (cases e)
  case (Outcome tool err rc)
  then show ?thesis
    using assms
    by (cases err; cases rc)
      (auto simp: comments_agree_def unproved_success_def guard_spec_def promised_answers_def Let_def alternating_nudge_def
        ladder_level_bounds_def ladder_level_def)
qed (auto simp: guard_spec_def promised_answers_def Let_def)

text \<open>
  C33. The guards of a turn keep the contract of their comments: after any sequence of tool outcomes, writes, reads,
  prose, final answers and approvals, the answer to the next event is one the contract allows. A failure is nudged when
  it is the third of an unbroken run or the third since the last approval of its signature, whatever lies between, with
  the level of the ladder the count gives; a write of the same arguments from the third on, a read from the third on;
  prose that is similar to the last one; of the empty answers the first two are retried and the third gives up; all
  else passes silently. The event counter goes up exactly when there is an answer. Left out are the cases in which the
  comments do not say one thing (\<open>comments_agree\<close>).
\<close>

theorem guard_refines_history:
  assumes "comments_agree json h e"
  shows "fst (guard_step json (guard_run json h) e) \<in> set (promised_answers json h e) \<and>
   tg_guard_events (guard_run json (h @ [e])) = tg_guard_events (guard_run json h) +
     (if fst (guard_step json (guard_run json h) e) \<in> {Nudge None, Verdict Accept} then 0 else 1)"
proof -
  have spec: "fst (guard_step json (guard_run json h) e) = guard_spec json h e"
    using guard_step_correct [OF guard_run_shows] by blast
  have "tg_guard_events (snd (guard_step json g e)) = tg_guard_events g +
      (if fst (guard_step json g e) = Nudge None \<or> fst (guard_step json g e) = Verdict Accept then 0 else 1)" for g
    by (cases e) (auto simp: guard_step_def record_tool_outcome_verified_def record_tool_outcome_def record_receipt_def
        record_write_success_def record_read_success_def check_text_repetition_def check_final_answer_def
        clear_signature_def note_event_def Let_def split: option.splits)
  from this [of "guard_run json h"] spec spec_is_promised [OF assms] show ?thesis by (simp add: guard_run_snoc)
qed

lemma guard_refines_history_witness:
  "fst (guard_step (\<lambda>_. None) (guard_run (\<lambda>_. None)
      [Wrote (of_str ''edit_file'') [1], Said [65], Wrote (of_str ''edit_file'') [1]]) (Wrote (of_str ''edit_file'') [1]))
   = Nudge (Some (Write_Repeat (of_str ''edit_file'') 3))"
proof -
  let ?h = "[Wrote (of_str ''edit_file'') [1], Said [65], Wrote (of_str ''edit_file'') [1]]"
  let ?e = "Wrote (of_str ''edit_file'') [1]"
  have w: "is_write_like_tool (of_str ''edit_file'')" by code_simp
  then have "writes_of (\<lambda>_. None) (call_signature (\<lambda>_. None) (of_str ''edit_file'') [1]) ?h = 2"
    by (simp add: writes_of_def)
  moreover from this have "comments_agree (\<lambda>_. None) ?h ?e"
    by (simp add: comments_agree_def unproved_success_def accepted_answer_def)
  ultimately show ?thesis
    using guard_refines_history [of "\<lambda>_. None" ?h ?e] w by (simp add: promised_answers_def Let_def)
qed

lemma escalation_exact:
  assumes "\<forall>s. tg_fail_freq g s \<noteq> None \<longrightarrow> s \<in> set order" "\<forall>s. count_of (tg_fail_freq g) s = failures s h"
  shows "(escalating_signature order g = None \<longleftrightarrow> (\<forall>s. failures s h < 24))"
    and "escalating_signature order g = Some (s, n) \<Longrightarrow> 24 \<le> n \<and> n = failures s h"
proof -
  have "s \<in> set order" if "24 \<le> failures s h" for s
  proof -
    have "count_of (tg_fail_freq g) s \<noteq> 0" using assms(2) that by simp
    then have "tg_fail_freq g s \<noteq> None" by (cases "tg_fail_freq g s") (auto simp: count_of_def)
    with assms(1) show ?thesis by blast
  qed
  then show "escalating_signature order g = None \<longleftrightarrow> (\<forall>s. failures s h < 24)"
    using assms(2) by (auto simp: escalating_signature_def find_None_iff guard_constants not_le) (metis not_less)
  show "escalating_signature order g = Some (s, n) \<Longrightarrow> 24 \<le> n \<and> n = failures s h"
    using assms(2) by (auto simp: escalating_signature_def guard_constants dest: find_SomeD)
qed

text \<open>
  C34. No loop of failures stays silent: whatever lies between them, the third to the 23rd failure of a tool with one
  error signature since the last approval of this signature is answered with a nudge, and the turn is to be stopped
  exactly when some signature has failed 24 times since its last approval; the signature and the count that are
  reported are such a one and its count. The table of counts is searched in some order that lists all its signatures.
\<close>

theorem no_silent_loop:
  assumes "\<forall>s. tg_fail_freq (guard_run json h) s \<noteq> None \<longrightarrow> s \<in> set order"
  shows "(2 \<le> failures (error_signature tool err) h \<and> failures (error_signature tool err) h < 23 \<longrightarrow>
      fst (guard_step json (guard_run json h) (Outcome tool (Some err) rc)) \<noteq> Nudge None) \<and>
    (escalating_signature order (guard_run json h) \<noteq> None \<longleftrightarrow> (\<exists>s. 24 \<le> failures s h)) \<and>
    (escalating_signature order (guard_run json h) = Some (s, n) \<longrightarrow> 24 \<le> n \<and> n = failures s h)"
proof -
  have shows_g: "\<forall>s. count_of (tg_fail_freq (guard_run json h)) s = failures s h"
    using guard_run_shows [of json h] by (simp add: guard_shows_def)
  have "fst (guard_step json (guard_run json h) (Outcome tool (Some err) rc)) = guard_spec json h (Outcome tool (Some err) rc)"
    using guard_step_correct [OF guard_run_shows] by blast
  moreover have "guard_spec json h (Outcome tool (Some err) rc) \<noteq> Nudge None" if "2 \<le> failures (error_signature tool err) h"
    using that by (simp add: guard_spec_def Let_def)
  ultimately show ?thesis using escalation_exact [OF assms shows_g] by (auto simp: not_less)
qed

lemma counted_happened:
  "tg_fail_freq (guard_run json h) s \<noteq> None \<Longrightarrow> \<exists>e \<in> set h. failure_of e = Some s"
proof (induction h rule: rev_induct)
  case Nil
  then show ?case by (simp add: guard_run_def guard_new_def)
next
  case (snoc e h)
  have "tg_fail_freq (snd (guard_step json g e)) s \<noteq> None \<Longrightarrow> tg_fail_freq g s \<noteq> None \<or> failure_of e = Some s" for g
    by (cases e; cases "case e of Outcome _ err _ \<Rightarrow> err | _ \<Rightarrow> None")
      (auto simp: guard_step_def record_tool_outcome_verified_def record_tool_outcome_def record_receipt_def failure_of_def
        record_write_success_def record_read_success_def check_text_repetition_def check_final_answer_def
        clear_signature_def note_event_def Let_def bump_def split: option.splits if_splits)
  with snoc show ?case unfolding guard_run_snoc by auto
qed

definition sample_failure :: guard_event where
  "sample_failure = Outcome (of_str ''exec'') (Some (of_str ''Exit code: 1'' @ 10 # of_str ''stderr: boom'')) (Some ([1], 5))"

definition sample_success :: guard_event where
  "sample_success = Outcome (of_str ''edit'') None (Some ([2], 6))"

lemma sample_signature: "failure_of sample_failure = Some (of_str ''exec'' @ 0 # of_str ''boom'')"
  "failure_of sample_success = None"
  by code_simp+

theorem no_silent_loop_witness:
  "fst (guard_step (\<lambda>_. None) (guard_run (\<lambda>_. None) [sample_failure, sample_success, sample_failure]) sample_failure)
     \<noteq> Nudge None \<and>
   escalating_signature [of_str ''exec'' @ 0 # of_str ''boom'']
     (guard_run (\<lambda>_. None) [sample_failure, sample_success, sample_failure]) = None"
proof -
  let ?err = "of_str ''Exit code: 1'' @ 10 # of_str ''stderr: boom''"
  let ?h = "[sample_failure, sample_success, sample_failure]"
  have sig: "error_signature (of_str ''exec'') ?err = of_str ''exec'' @ 0 # of_str ''boom''" by code_simp
  have plain: "sample_failure \<noteq> Approved s" "sample_success \<noteq> Approved s" for s
    by (simp_all add: sample_failure_def sample_success_def)
  have count: "failures s ?h = (if s = of_str ''exec'' @ 0 # of_str ''boom'' then 2 else 0)" for s
    using plain sample_signature by (auto simp: failures_def)
  have order: "\<forall>s. tg_fail_freq (guard_run (\<lambda>_. None) ?h) s \<noteq> None \<longrightarrow> s \<in> set [of_str ''exec'' @ 0 # of_str ''boom'']"
    using counted_happened [of "\<lambda>_. None" ?h] sample_signature by fastforce
  have "sample_failure = Outcome (of_str ''exec'') (Some ?err) (Some ([1], 5))" by (simp add: sample_failure_def)
  moreover have "\<not> (\<exists>s. 24 \<le> failures s ?h)" unfolding count by simp
  moreover have "2 \<le> failures (error_signature (of_str ''exec'') ?err) ?h"
    "failures (error_signature (of_str ''exec'') ?err) ?h < 23" unfolding count sig by simp_all
  ultimately show ?thesis
    using no_silent_loop [OF order, of "of_str ''exec''" ?err "Some ([1], 5)"] by metis
qed

section \<open>Where comments and code part\<close>

text \<open>A run of the same failure is always answered by the storm guard, so the levels of the ladder are never shown.\<close>

lemma storm_hides_ladder:
  assumes "2 \<le> n"
  shows "guard_spec json (replicate n (Outcome tool (Some err) rc)) (Outcome tool (Some err) rc)
    = Nudge (Some (Storm tool (Suc n)))"
proof -
  have "storm_run (error_signature tool err) (replicate n (Outcome tool (Some err) rc)) = n"
  proof (induction n)
    case (Suc n)
    have "replicate (Suc n) (Outcome tool (Some err) rc)
        = replicate n (Outcome tool (Some err) rc) @ [Outcome tool (Some err) rc]"
      by (simp add: replicate_append_same)
    then show ?case using Suc by (simp only: storm_run_snoc) (simp add: storm_entry_def)
  qed (simp add: storm_run_def List.map_filter_def)
  with assms show ?thesis by (simp add: guard_spec_def Let_def)
qed

text \<open>A success without a receipt counts as a failure for the ladder but neither feeds nor ends a storm.\<close>

lemma missing_receipt_skips_storm: "storm_run s (h @ [Outcome tool None None]) = storm_run s h"
  by (simp add: storm_run_snoc storm_entry_def)

text \<open>The first repetition of a text is nudged already.\<close>

lemma first_similar_round_nudged:
  "text_trim c \<noteq> [] \<Longrightarrow> guard_spec json [Said c] (Said c) = Nudge (Some Text_Repeat)"
  by (simp add: guard_spec_def last_said_def said_of_def List.map_filter_def similar_text_def Let_def)

text \<open>The failures from the 24th on are nudged like the others.\<close>

lemma nudged_beyond_hard_stop:
  "24 \<le> failures (error_signature tool err) h \<Longrightarrow> guard_spec json h (Outcome tool (Some err) rc) \<noteq> Nudge None"
  by (simp add: guard_spec_def Let_def)

text \<open>The second identical write is not nudged, although the threshold is two.\<close>

lemma second_write_not_nudged: "guard_spec json [Wrote tool args] (Wrote tool args) = Nudge None"
  by (auto simp: guard_spec_def writes_of_def Let_def)

end
