(* ===== verification/Board_Status.thy ===== *)
theory Board_Status
  imports Unicode_Text Prelude
begin

text \<open>
  The vocabulary of the board and its two state machines (\<open>crates/nemesis-board/src\<close>): \<open>models.rs\<close> (status,
  comment types, states of a dispatch), \<open>state_machine.rs\<close>, \<open>project_state.rs\<close> and \<open>assignment.rs\<close>.
\<close>

section \<open>Issues\<close>

datatype issue_status = Backlog | Todo | In_Progress | In_Review | Done | Blocked | Cancelled

definition all_statuses :: "issue_status list" where
  "all_statuses = [Backlog, Todo, In_Progress, In_Review, Done, Blocked, Cancelled]"

fun status_str :: "issue_status \<Rightarrow> string" where
  "status_str Backlog = ''backlog''"
| "status_str Todo = ''todo''"
| "status_str In_Progress = ''in_progress''"
| "status_str In_Review = ''in_review''"
| "status_str Done = ''done''"
| "status_str Blocked = ''blocked''"
| "status_str Cancelled = ''cancelled''"

definition status_of_str :: "string \<Rightarrow> issue_status option" where
  "status_of_str s =
     (if s = ''backlog'' then Some Backlog else if s = ''todo'' then Some Todo
      else if s = ''in_progress'' then Some In_Progress else if s = ''in_review'' then Some In_Review
      else if s = ''done'' then Some Done else if s = ''blocked'' then Some Blocked
      else if s = ''cancelled'' then Some Cancelled else None)"

definition status_terminal :: "issue_status \<Rightarrow> bool" where
  "status_terminal s \<longleftrightarrow> s = Done \<or> s = Cancelled"

text \<open>The hint of an error message. (The two texts in Chinese are code points.)\<close>

fun allowed_targets :: "issue_status \<Rightarrow> utext" where
  "allowed_targets Backlog = of_str ''todo/in_progress/done/blocked/cancelled''"
| "allowed_targets Todo = of_str ''in_progress/done/blocked/cancelled''"
| "allowed_targets In_Progress = of_str ''in_review/done/blocked/cancelled''"
| "allowed_targets In_Review = of_str ''in_progress/done/blocked/cancelled''"
| "allowed_targets Blocked = of_str ''todo/in_progress/cancelled''"
| "allowed_targets Done = [65288, 32456, 24577, 65289]"
| "allowed_targets Cancelled = of_str ''backlog'' @ 65288 # of_str ''issue.reopen'' @ [65289]"

definition can_transition :: "issue_status \<Rightarrow> issue_status \<Rightarrow> bool" where
  "can_transition s t =
     (if s = t then False
      else case s of
        Backlog \<Rightarrow> t \<in> {Todo, In_Progress, Done, Blocked, Cancelled}
      | Todo \<Rightarrow> t \<in> {In_Progress, Done, Blocked, Cancelled}
      | In_Progress \<Rightarrow> t \<in> {In_Review, Done, Blocked, Cancelled}
      | In_Review \<Rightarrow> t \<in> {In_Progress, Done, Blocked, Cancelled}
      | Blocked \<Rightarrow> t \<in> {Todo, In_Progress, Cancelled}
      | Cancelled \<Rightarrow> t = Backlog
      | Done \<Rightarrow> False)"

datatype transition_error = Already issue_status | Illegal issue_status issue_status

definition validate_transition :: "issue_status \<Rightarrow> issue_status \<Rightarrow> transition_error option" where
  "validate_transition s t =
     (if s = t then Some (Already s)
      else if can_transition s t then None
      else Some (Illegal s t))"

lemma validate_transition_None: "validate_transition s t = None \<longleftrightarrow> can_transition s t"
  by (auto simp: validate_transition_def can_transition_def)

lemma status_of_status_str [simp]: "status_of_str (status_str s) = Some s"
  by (cases s) (simp_all add: status_of_str_def)

lemma status_str_of_status: "status_of_str t = Some s \<Longrightarrow> t = status_str s"
  by (auto simp: status_of_str_def split: if_splits)

text \<open>\<open>s\<close> begins the hint, its pieces between strokes are words.\<close>

fun text_pieces :: "nat \<Rightarrow> utext \<Rightarrow> utext list" where
  "text_pieces c [] = [[]]"
| "text_pieces c (d # s) = (if d = c then [] # text_pieces c s
     else case text_pieces c s of w # ws \<Rightarrow> (d # w) # ws | [] \<Rightarrow> [[d]])"

text \<open>
  For every status that is not final the hint of the error message names exactly the targets the machine allows; a
  done issue has none, and a cancelled one only the backlog.
\<close>

lemma hint_names_targets:
  "(\<not> status_terminal s \<longrightarrow> map of_str (map status_str (filter (can_transition s) all_statuses))
      = text_pieces 47 (allowed_targets s)) \<and>
   filter (can_transition Done) all_statuses = [] \<and> filter (can_transition Cancelled) all_statuses = [Backlog]"
  by (cases s) (simp_all add: all_statuses_def can_transition_def of_str_def status_terminal_def)

text \<open>Nothing but the backlog is reached from a cancelled issue, and every status is reached from a new one.\<close>

inductive status_reaches :: "issue_status \<Rightarrow> issue_status \<Rightarrow> bool" where
  sr_here: "status_reaches s s"
| sr_step: "can_transition s t \<Longrightarrow> status_reaches t u \<Longrightarrow> status_reaches s u"

inductive_cases status_reachesE: "status_reaches s u"

lemma backlog_reaches_all: "status_reaches Backlog s"
proof -
  have "can_transition Backlog t \<Longrightarrow> status_reaches Backlog t" for t
    by (blast intro: status_reaches.intros)
  moreover have "status_reaches Backlog In_Review"
    by (rule sr_step [of _ In_Progress], simp add: can_transition_def,
        rule sr_step [of _ In_Review], simp add: can_transition_def, rule sr_here)
  ultimately show ?thesis by (cases s) (auto simp: can_transition_def intro: sr_here)
qed

lemma done_is_final: "status_reaches Done s \<Longrightarrow> s = Done"
  by (erule status_reachesE) (simp_all add: can_transition_def split: if_splits)

section \<open>Projects\<close>

datatype project_status = P_Active | P_In_Progress | P_Completed | P_Archived

fun project_status_str :: "project_status \<Rightarrow> string" where
  "project_status_str P_Active = ''active''"
| "project_status_str P_In_Progress = ''in_progress''"
| "project_status_str P_Completed = ''completed''"
| "project_status_str P_Archived = ''archived''"

definition project_status_of_str :: "string \<Rightarrow> project_status option" where
  "project_status_of_str s =
     (if s = ''active'' then Some P_Active else if s = ''in_progress'' then Some P_In_Progress
      else if s = ''completed'' then Some P_Completed else if s = ''archived'' then Some P_Archived else None)"

definition project_can_transition :: "project_status \<Rightarrow> project_status \<Rightarrow> bool" where
  "project_can_transition s t =
     (if s = t then False
      else case s of
        P_Active \<Rightarrow> t \<in> {P_In_Progress, P_Archived}
      | P_In_Progress \<Rightarrow> t \<in> {P_Completed, P_Archived}
      | P_Completed \<Rightarrow> t \<in> {P_Archived, P_In_Progress}
      | P_Archived \<Rightarrow> t = P_Active)"

datatype project_transition_error = P_Already project_status | P_Illegal project_status project_status

definition project_validate_transition ::
    "project_status \<Rightarrow> project_status \<Rightarrow> project_transition_error option" where
  "project_validate_transition s t =
     (if s = t then Some (P_Already s)
      else if project_can_transition s t then None
      else Some (P_Illegal s t))"

lemma project_status_roundtrip [simp]: "project_status_of_str (project_status_str s) = Some s"
  by (cases s) (simp_all add: project_status_of_str_def)

text \<open>A project is completed only from the state in which work is in progress.\<close>

lemma completed_after_progress:
  "project_validate_transition s P_Completed = None \<Longrightarrow> s = P_In_Progress"
  by (cases s) (auto simp: project_validate_transition_def project_can_transition_def split: if_splits)

section \<open>Actors, comments, dispatches\<close>

datatype assignment_type = Manager_Self | Worker

fun assignment_str :: "assignment_type \<Rightarrow> string" where
  "assignment_str Manager_Self = ''manager_self''"
| "assignment_str Worker = ''worker''"

definition assignment_of_str :: "string \<Rightarrow> assignment_type option" where
  "assignment_of_str s = (if s = ''manager_self'' then Some Manager_Self
     else if s = ''worker'' then Some Worker else None)"

lemma assignment_roundtrip [simp]: "assignment_of_str (assignment_str a) = Some a"
  by (cases a) (simp_all add: assignment_of_str_def)

record actor =
  ac_kind :: utext
  ac_id :: utext

definition system_actor :: "string \<Rightarrow> actor" where
  "system_actor i = \<lparr> ac_kind = of_str ''system'', ac_id = of_str i \<rparr>"

datatype comment_type = C_Comment | C_Status_Change | C_System | C_Discussion | C_Question | C_Delivery

fun comment_type_str :: "comment_type \<Rightarrow> string" where
  "comment_type_str C_Comment = ''comment''"
| "comment_type_str C_Status_Change = ''status_change''"
| "comment_type_str C_System = ''system''"
| "comment_type_str C_Discussion = ''discussion''"
| "comment_type_str C_Question = ''question''"
| "comment_type_str C_Delivery = ''delivery''"

definition comment_type_of_str :: "string \<Rightarrow> comment_type option" where
  "comment_type_of_str s =
     (if s = ''comment'' then Some C_Comment else if s = ''status_change'' then Some C_Status_Change
      else if s = ''system'' then Some C_System else if s = ''discussion'' then Some C_Discussion
      else if s = ''question'' then Some C_Question else if s = ''delivery'' then Some C_Delivery else None)"

lemma comment_type_roundtrip [simp]: "comment_type_of_str (comment_type_str c) = Some c"
  by (cases c) (simp_all add: comment_type_of_str_def)

datatype dispatch_state = DS_Dispatched | DS_Running | DS_Done | DS_Failed | DS_Cancelled

definition dispatch_active :: "dispatch_state \<Rightarrow> bool" where
  "dispatch_active s \<longleftrightarrow> s = DS_Dispatched \<or> s = DS_Running"

end
