(* ===== verification/Board_Store.thy ===== *)
theory Board_Store
  imports Board_Status
begin

text \<open>
  The database of the board (\<open>crates/nemesis-board/src/store.rs\<close>): issues, their dependencies,
      subscribers,
  comments, activities and notifications, and the operations that change them. A table is the list of its rows in
  the order of their row ids. A transaction either commits all it did or leaves the database as it was; the
  database itself is assumed to answer (no disk errors). The clock is an argument.
\<close>

section \<open>Rows\<close>

record issue =
  is_id :: int
  is_number :: utext
  is_title :: utext
  is_description :: utext
  is_status :: issue_status
  is_priority :: int
  is_assignee :: "assignment_type option"
  is_assignee_id :: "utext option"
  is_creator :: actor
  is_parent :: "int option"
  is_project :: "int option"
  is_due :: "int option"
  is_position :: int
  is_criteria :: "utext option"
  is_origin :: "(utext \<times> utext \<times> (utext \<times> utext) list) option"
  is_role :: "utext option"
  is_tags :: "utext list"
  is_profession :: "utext option"
  is_capabilities :: "utext list"
  is_backend :: "utext option"
  is_hidden :: bool
  is_created :: int
  is_updated :: int

record comment =
  cm_id :: int
  cm_issue :: int
  cm_author :: actor
  cm_content :: utext
  cm_parent :: "int option"
  cm_type :: comment_type
  cm_at :: int

record activity =
  av_id :: int
  av_issue :: int
  av_actor :: actor
  av_action :: string
  av_details :: "utext option"
  av_at :: int

record subscriber =
  sb_issue :: int
  sb_who :: actor
  sb_reason :: string

record notification =
  nt_to :: actor
  nt_kind :: string
  nt_title :: utext
  nt_content :: utext
  nt_issue :: "int option"
  nt_at :: int

record dispatch =
  ds_task :: utext
  ds_issue :: int
  ds_worker :: utext
  ds_state :: dispatch_state
  ds_at :: int
  ds_completed :: "int option"
  ds_generation :: int

record board =
  b_prefix :: utext
  b_counter :: int
  b_issues :: "issue list"
  b_deps :: "(int \<times> int) list"
  b_projects :: "(int \<times> project_status) list"
  b_subs :: "subscriber list"
  b_comments :: "comment list"
  b_activity :: "activity list"
  b_notes :: "notification list"
  b_dispatches :: "dispatch list"

definition board_open :: "utext \<Rightarrow> board" where
  "board_open pre = \<lparr> b_prefix = pre, b_counter = 0, b_issues = [], b_deps = [], b_projects = [],
     b_subs = [], b_comments = [], b_activity = [], b_notes = [], b_dispatches = [] \<rparr>"

datatype store_error =
    No_Issue int
  | Bad_Transition transition_error
  | Constraint_Failed
  | Empty_Title
  | Empty_Content
  | Needs_Assignee_Id assignment_type
  | Only_Together
  | Empty_Claimer
  | Claimed_By utext
  | Claim_Lost int
  | Not_Cancelled utext issue_status
  | Parent_Cancelled utext
  | Upstream_Cancelled utext
  | Not_Claimable issue_status
  | Is_Container
  | In_Flight
  | Dependency_Open utext utext issue_status
  | No_Activity int
  | Not_A_Decision int string
  | Not_Done utext issue_status
  | Own_Parent int
  | No_Parent int
  | Parent_Cycle int
  | No_Project int
  | Invalid_State dispatch_state

text \<open>What an operation returns, with the database it leaves.\<close>

type_synonym 'a reply = "board \<times> (store_error + 'a)"

fun and_then :: "(store_error + 'a) \<Rightarrow> ('a \<Rightarrow> store_error + 'b) \<Rightarrow> store_error + 'b" where
  "and_then (Inl e) f = Inl e"
| "and_then (Inr x) f = f x"

lemma and_then_Inr: "and_then m f = Inr y \<longleftrightarrow> (\<exists>x. m = Inr x \<and> f x = Inr y)"
  by (cases m) auto

lemma and_then_Inl: "and_then m f = Inl e \<longleftrightarrow> m = Inl e \<or> (\<exists>x. m = Inr x \<and> f x = Inl e)"
  by (cases m) auto

section \<open>Texts of the log\<close>

text \<open>An object of \<open>serde_json\<close> is written with its keys in alphabetical order.\<close>

definition int_text :: "int \<Rightarrow> utext" where
  "int_text n = (if n < 0 then 45 # of_nat_text (nat (- n)) else of_nat_text (nat n))"

definition status_text :: "issue_status \<Rightarrow> utext" where
  "status_text s = of_str (status_str s)"

definition status_note :: "issue_status \<Rightarrow> issue_status \<Rightarrow> utext" where
  "status_note s t = status_text s @ (of_str '' '' @ [8594] @ of_str '' '') @ status_text t"

definition status_details :: "issue_status \<Rightarrow> issue_status \<Rightarrow> utext" where
  "status_details s t = (of_str ''{'' @ [34] @ of_str ''from'' @ [34] @ of_str '':'' @ [34]) @ status_text s
      @ ([34] @ of_str '','' @ [34] @ of_str ''to'' @ [34] @ of_str '':'' @ [34]) @ status_text t @ ([34]
      @ of_str ''}'')"

definition moved_details :: "issue_status \<Rightarrow> issue_status \<Rightarrow> int \<Rightarrow> utext" where
  "moved_details s t p =
     (of_str ''{'' @ [34] @ of_str ''from'' @ [34] @ of_str '':'' @ [34]) @ status_text s @ ([34] @ of_str '',''
      @ [34] @ of_str ''position'' @ [34] @ of_str '':'') @ int_text p @ (of_str '','' @ [34] @ of_str ''to''
      @ [34] @ of_str '':'' @ [34]) @ status_text t @ ([34] @ of_str ''}'')"

section \<open>Reading\<close>

definition find_issue :: "int \<Rightarrow> board \<Rightarrow> issue option" where
  "find_issue i b = find (\<lambda>r. is_id r = i) (b_issues b)"

definition get_issue :: "int \<Rightarrow> board \<Rightarrow> store_error + issue" where
  "get_issue i b = (case find_issue i b of None \<Rightarrow> Inl (No_Issue i) | Some r \<Rightarrow> Inr r)"

definition get_issue_by_number :: "utext \<Rightarrow> board \<Rightarrow> issue option" where
  "get_issue_by_number n b = find (\<lambda>r. is_number r = n) (b_issues b)"

definition dependencies_of :: "int \<Rightarrow> board \<Rightarrow> int list" where
  "dependencies_of i b = sort (map snd (filter (\<lambda>d. fst d = i) (b_deps b)))"

definition dependents_of :: "int \<Rightarrow> board \<Rightarrow> int list" where
  "dependents_of i b = sort (map fst (filter (\<lambda>d. snd d = i) (b_deps b)))"

definition list_children :: "int \<Rightarrow> board \<Rightarrow> issue list" where
  "list_children p b = sort_key is_id (filter (\<lambda>r. is_parent r = Some p) (b_issues b))"

definition list_comments :: "int \<Rightarrow> board \<Rightarrow> comment list" where
  "list_comments i b = filter (\<lambda>c. cm_issue c = i) (b_comments b)"

definition list_activity :: "int \<Rightarrow> board \<Rightarrow> activity list" where
  "list_activity i b = filter (\<lambda>a. av_issue a = i) (b_activity b)"

definition self_subscribers :: "int \<Rightarrow> board \<Rightarrow> actor list" where
  "self_subscribers i b = map sb_who (filter (\<lambda>s. sb_issue s = i) (b_subs b))"

section \<open>Statements\<close>

definition has_issue :: "int \<Rightarrow> board \<Rightarrow> bool" where
  "has_issue i b \<longleftrightarrow> list_ex (\<lambda>r. is_id r = i) (b_issues b)"

definition update_row :: "int \<Rightarrow> (issue \<Rightarrow> issue) \<Rightarrow> board \<Rightarrow> board" where
  "update_row i f b = b\<lparr> b_issues := map (\<lambda>r. if is_id r = i then f r else r) (b_issues b) \<rparr>"

definition insert_comment ::
    "int \<Rightarrow> int \<Rightarrow> actor \<Rightarrow> utext \<Rightarrow> int option \<Rightarrow> comment_type \<Rightarrow> board \<Rightarrow> store_error + board" where
  "insert_comment now i author content parent ct b =
     (if has_issue i b
      then Inr (b\<lparr> b_comments := b_comments b @ [\<lparr> cm_id = int (length (b_comments b)) + 1,
      cm_issue = i,
        cm_author = author, cm_content = content, cm_parent = parent, cm_type = ct, cm_at = now \<rparr>] \<rparr>)
      else Inl Constraint_Failed)"

definition insert_activity ::
    "int \<Rightarrow> int \<Rightarrow> actor \<Rightarrow> string \<Rightarrow> utext option \<Rightarrow> board \<Rightarrow> store_error + board" where
  "insert_activity now i actor action details b =
     (if has_issue i b
      then Inr (b\<lparr> b_activity := b_activity b @ [\<lparr> av_id = int (length (b_activity b)) + 1,
      av_issue = i,
        av_actor = actor, av_action = action, av_details = details, av_at = now \<rparr>] \<rparr>)
      else Inl Constraint_Failed)"

definition insert_subscriber :: "int \<Rightarrow> actor \<Rightarrow> string \<Rightarrow> board \<Rightarrow> store_error + board" where
  "insert_subscriber i who reason b =
     (if \<not> has_issue i b then Inl Constraint_Failed
      else if list_ex (\<lambda>s. sb_issue s = i \<and> sb_who s = who) (b_subs b)
      then Inr (b\<lparr> b_subs := map (\<lambda>s. if sb_issue s = i \<and> sb_who s = who then s\<lparr> sb_reason := reason \<rparr> else s)
             (b_subs b) \<rparr>)
      else Inr (b\<lparr> b_subs := b_subs b @ [\<lparr> sb_issue = i, sb_who = who,
      sb_reason = reason \<rparr>] \<rparr>))"

definition insert_notification ::
    "int \<Rightarrow> actor \<Rightarrow> string \<Rightarrow> utext \<Rightarrow> utext \<Rightarrow> int option \<Rightarrow> board \<Rightarrow> board" where
  "insert_notification now who kind title content i b =
     b\<lparr> b_notes := b_notes b @ [\<lparr> nt_to = who, nt_kind = kind, nt_title = title, nt_content = content,
        nt_issue = i, nt_at = now \<rparr>] \<rparr>"

text \<open>The end of a transaction, and the row that is read again after it.\<close>

definition commit :: "(board \<Rightarrow> store_error + board) \<Rightarrow> board \<Rightarrow> board \<times> (store_error + unit)" where
  "commit f b = (case f b of Inl e \<Rightarrow> (b, Inl e) | Inr b' \<Rightarrow> (b', Inr ()))"

definition commit_with :: "(board \<Rightarrow> store_error + board \<times> 'a) \<Rightarrow> board \<Rightarrow> 'a reply" where
  "commit_with f b = (case f b of Inl e \<Rightarrow> (b, Inl e) | Inr (b', x) \<Rightarrow> (b', Inr x))"

definition reread :: "int \<Rightarrow> board \<times> (store_error + unit) \<Rightarrow> issue reply" where
  "reread i r = (fst r, case snd r of Inl e \<Rightarrow> Inl e | Inr _ \<Rightarrow> get_issue i (fst r))"

definition actor_of :: "issue \<Rightarrow> actor option" where
  "actor_of r = (case (is_assignee r, is_assignee_id r) of
     (Some a, Some i) \<Rightarrow> Some \<lparr> ac_kind = of_str (assignment_str a),
      ac_id = i \<rparr> | _ \<Rightarrow> None)"

definition issue_heading :: "issue \<Rightarrow> utext" where
  "issue_heading r = is_number r @ 32 # is_title r"

text \<open>The assignee hears of it, unless the actor is the assignee.\<close>

definition notify_assignee :: "int \<Rightarrow> issue \<Rightarrow> actor \<Rightarrow> utext \<Rightarrow> board \<Rightarrow> board" where
  "notify_assignee now r actor content b =
     (case actor_of r of
        Some a \<Rightarrow> if a \<noteq> actor
          then insert_notification now a ''status_changed'' (issue_heading r) content (Some (is_id r)) b else b
      | None \<Rightarrow> b)"

section \<open>Status\<close>

definition transition_issue_in_tx ::
    "int \<Rightarrow> issue \<Rightarrow> int \<Rightarrow> issue_status \<Rightarrow> actor \<Rightarrow> board \<Rightarrow> store_error + board" where
  "transition_issue_in_tx now r i t actor b =
     (case validate_transition (is_status r) t of Some e \<Rightarrow> Inl (Bad_Transition e) | None \<Rightarrow>
      (let b = update_row i (\<lambda>r. r\<lparr> is_status := t, is_updated := now \<rparr>) b;
           note = status_note (is_status r) t in
       and_then (insert_comment now i actor note None C_Status_Change b) (\<lambda>b.
       let b = (if t = Done \<and> is_status r \<noteq> In_Review \<and> ac_kind actor \<noteq> of_str ''agent''
                then case insert_comment now i (system_actor ''audit'')
                    (([9888] @ of_str '' '' @ [36339, 36807, 35780, 23457, 30452, 36798, 23436, 25104, 65306])
      @ status_text (is_status r) @ (of_str '' '' @ [8594] @ of_str '' done'' @ [65288, 25805, 20316, 32773]
      @ of_str '' '') @ ac_kind actor @ (of_str ''/'')
                       @ ac_id actor @ ([65289, 12290, 26412, 21333, 26410, 32463, 39564, 25910, 38142, 65292,
      22914, 38656, 27491, 24335, 39564, 25910, 35831, 36208] @ of_str '' in_review'' @ [12290])) None C_System b of
                  Inr b' \<Rightarrow> b' | Inl _ \<Rightarrow> b
                else b) in
       and_then (insert_activity now i actor ''status_changed'' (Some (status_details (is_status r) t)) b) (\<lambda>b.
       Inr (notify_assignee now r actor note b)))))"

definition transition_issue :: "int \<Rightarrow> int \<Rightarrow> issue_status \<Rightarrow> actor \<Rightarrow> board \<Rightarrow> issue reply" where
  "transition_issue now i t actor b =
     reread i (commit (\<lambda>b. and_then (get_issue i b) (\<lambda>r. transition_issue_in_tx now r i t actor b)) b)"

definition move_issue :: "int \<Rightarrow> int \<Rightarrow> issue_status \<Rightarrow> int \<Rightarrow> actor \<Rightarrow> board \<Rightarrow> issue reply" where
  "move_issue now i t position actor b =
     reread i (commit (\<lambda>b. and_then (get_issue i b) (\<lambda>r.
       let changed = (is_status r \<noteq> t);
           b' = update_row i (\<lambda>r. r\<lparr> is_status := t, is_position := position,
      is_updated := now \<rparr>) b in
       case (if changed then validate_transition (is_status r) t else None) of Some e \<Rightarrow> Inl (Bad_Transition e)
       | None \<Rightarrow>
         if changed then
           (let note = status_note (is_status r) t in
            and_then (insert_comment now i actor note None C_Status_Change b') (\<lambda>b.
            and_then (insert_activity now i actor ''status_changed''
                (Some (moved_details (is_status r) t position)) b) (\<lambda>b.
            Inr (notify_assignee now r actor note b))))
         else insert_activity now i actor ''reordered'' (Some ((of_str ''{'' @ [34] @ of_str ''position'' @ [34]
      @ of_str '':'') @ int_text position @ (of_str ''}''))) b')) b)"

definition in_flight :: "int \<Rightarrow> board \<Rightarrow> bool" where
  "in_flight i b \<longleftrightarrow> list_ex (\<lambda>d. ds_issue d = i \<and> dispatch_active (ds_state d)) (b_dispatches b)"

definition rolled_key :: utext where "rolled_key = ([36865, 36798, 22833, 36133, 22238, 36864, 65306]
      @ of_str ''in_progress '' @ [8594] @ of_str '' '')"

definition rolled_back_details :: "issue_status \<Rightarrow> utext option \<Rightarrow> utext" where
  "rolled_back_details s a = rolled_key @ status_text s @ ([65288, 25351, 27966, 24674, 22797, 20026] @ of_str '' '')
     @ (case a of Some x \<Rightarrow> x | None \<Rightarrow> ([65288, 26080, 65289])) @ ([65289])"

definition rollback_dispatch_failure ::
    "int \<Rightarrow> int \<Rightarrow> issue_status \<Rightarrow> assignment_type option \<Rightarrow> utext option \<Rightarrow> actor \<Rightarrow> board \<Rightarrow> bool reply" where
  "rollback_dispatch_failure now i prev pa pai actor b =
     (case get_issue i b of Inl e \<Rightarrow> (b, Inl e) | Inr r \<Rightarrow>
      if is_status r \<noteq> In_Progress \<or> prev = In_Progress \<or> in_flight i b then (b, Inr False)
      else case insert_activity now i actor ''dispatch_rolled_back'' (Some (rolled_back_details prev pai))
          (update_row i (\<lambda>r. r\<lparr> is_status := prev, is_assignee := pa, is_assignee_id := pai,
      is_updated := now \<rparr>) b)
        of Inl e \<Rightarrow> (b, Inl e) | Inr b' \<Rightarrow> (b', Inr True))"

definition upstream_check :: "board \<Rightarrow> int \<Rightarrow> store_error option" where
  "upstream_check b u = (case find_issue u b of None \<Rightarrow> Some (No_Issue u)
     | Some r \<Rightarrow> if is_status r = Cancelled then Some (Upstream_Cancelled (is_number r)) else None)"

definition parent_check :: "board \<Rightarrow> issue \<Rightarrow> store_error option" where
  "parent_check b r = (case is_parent r of None \<Rightarrow> None | Some p \<Rightarrow>
     (case find_issue p b of None \<Rightarrow> Some (No_Issue p)
      | Some q \<Rightarrow> if is_status q = Cancelled then Some (Parent_Cancelled (is_number q)) else None))"

definition reopen_issue :: "int \<Rightarrow> int \<Rightarrow> actor \<Rightarrow> board \<Rightarrow> issue reply" where
  "reopen_issue now i actor b =
     reread i (commit (\<lambda>b. and_then (get_issue i b) (\<lambda>r.
       if is_status r \<noteq> Cancelled then Inl (Not_Cancelled (is_number r) (is_status r))
       else case parent_check b r of Some e \<Rightarrow> Inl e | None \<Rightarrow>
       (case first_some (upstream_check b) (dependencies_of i b) of Some e \<Rightarrow> Inl e | None \<Rightarrow>
        and_then (transition_issue_in_tx now r i Backlog actor b) (\<lambda>b.
        insert_comment now i (system_actor ''board'')
          (([9851] @ of_str '' '') @ is_number r @ ([12300]) @ is_title r @ ([12301, 30001] @ of_str '' '')
      @ ac_kind actor @ (of_str ''/'') @ ac_id actor
             @ (of_str '' reopen'' @ [65306] @ of_str ''cancelled '' @ [8594] @ of_str '' backlog'' @ [65288,
      26102, 38388, 35265, 26412, 26465, 35780, 35770, 26102, 38388, 25139, 65289])) None C_System
          (update_row i (\<lambda>r. if is_hidden r then r\<lparr> is_hidden := False,
      is_updated := now \<rparr> else r) b))))) b)"

definition audit_rollback_key :: utext where "audit_rollback_key = (of_str ''audit_rollback:done'' @ [8594]
      @ of_str ''in_review:activity_id='')"
definition done_rollback_key :: utext where "done_rollback_key = (of_str ''done_rollback:done'' @ [8594]
      @ of_str ''in_review:'')"

definition rollback_decision :: "int \<Rightarrow> int \<Rightarrow> board \<Rightarrow> issue reply" where
  "rollback_decision now a b = commit_with (\<lambda>b.
     case find (\<lambda>v. av_id v = a) (b_activity b) of None \<Rightarrow> Inl (No_Activity a) | Some v \<Rightarrow>
     if av_action v \<noteq> ''auto_decide'' then Inl (Not_A_Decision a (av_action v))
     else and_then (get_issue (av_issue v) b) (\<lambda>r.
       if is_status r \<noteq> Done then Inl (Not_Done (is_number r) (is_status r))
       else and_then (insert_comment now (is_id r) (system_actor ''board-audit'')
           ([8617] @ of_str '' '' @ [23457, 35745, 22238, 28378, 65306, 25764, 38144, 27492, 21069, 12300]
      @ of_str ''agent '' @ [39564, 25910, 36890, 36807, 24182, 33258, 21160, 25910, 36135, 12301, 30340, 20915,
      31574, 65292, 21333, 25454, 36864, 22238] @ of_str '' in_review '' @ [31561, 24453, 37325, 26032, 22788,
      32622, 12290]) None C_System
           (update_row (is_id r) (\<lambda>r. r\<lparr> is_status := In_Review,
      is_updated := now \<rparr>) b)) (\<lambda>b.
         and_then (insert_activity now (is_id r) (system_actor ''board-audit'') ''status_changed''
           (Some (audit_rollback_key @ int_text a)) b) (\<lambda>b.
         Inr (b, r\<lparr> is_status := In_Review \<rparr>))))) b"

definition rollback_done_to_in_review :: "int \<Rightarrow> int \<Rightarrow> utext \<Rightarrow> board \<Rightarrow> bool reply" where
  "rollback_done_to_in_review now i reason b = commit_with (\<lambda>b.
     and_then (get_issue i b) (\<lambda>r.
       if is_status r \<noteq> Done then Inr (b, False)
       else and_then (insert_comment now i (system_actor ''board-archive'')
           (([8617] @ of_str '' '' @ [32456, 24577, 22238, 28378, 65306]) @ reason @ ([8212, 8212, 21333, 25454,
      36864, 22238] @ of_str '' in_review '' @ [31561, 24453, 20154, 24037, 22788, 32622, 12290])) None C_System
           (update_row i (\<lambda>r. r\<lparr> is_status := In_Review, is_updated := now \<rparr>) b)) (\<lambda>b.
         and_then (insert_activity now i (system_actor ''board-archive'') ''status_changed''
           (Some (done_rollback_key @ reason)) b) (\<lambda>b. Inr (b, True))))) b"

fun archive_rows :: "int \<Rightarrow> actor \<Rightarrow> int list \<Rightarrow> board \<Rightarrow> store_error + board \<times> issue list" where
  "archive_rows now actor [] b = Inr (b, [])"
| "archive_rows now actor (i # is) b =
     and_then (get_issue i b) (\<lambda>r.
       if is_status r \<noteq> Cancelled then Inl (Not_Cancelled (is_number r) (is_status r))
       else and_then (insert_activity now i actor ''issue_bulk_archive''
           (Some (([21462, 28040, 21333, 28165, 29702, 65306]) @ is_number r @ ([12300]) @ is_title r @ ([12301,
      27704, 20037, 25910, 36215, 65288] @ of_str ''hidden'' @ [65289])))
           (update_row i (\<lambda>r. r\<lparr> is_hidden := True, is_updated := now \<rparr>) b)) (\<lambda>b.
         and_then (archive_rows now actor is b) (\<lambda>(b, out). Inr (b,
      r\<lparr> is_hidden := True \<rparr> # out))))"

definition bulk_archive_cancelled :: "int \<Rightarrow> int list \<Rightarrow> actor \<Rightarrow> board \<Rightarrow> issue list reply" where
  "bulk_archive_cancelled now is actor b = commit_with (archive_rows now actor is) b"

end
