(* ===== verification/Board_Work.thy ===== *)
theory Board_Work
  imports Board_Store
begin

text \<open>
  The other operations of the board's database (\<open>crates/nemesis-board/src/store.rs\<close>): creating and editing issues
  (with \<open>ac_gen.rs\<close>), dependencies, assignment and claims, comments with their notifications,
      and the table of
  dispatches. Lists that are stored as JSON are read back as they were. Of an issue the column
  \<open>requires_evidence\<close> is left out.
\<close>

section \<open>Acceptance criteria that nobody wrote\<close>

definition bug_signals :: "utext list" where
  "bug_signals = [of_str ''bug'', ([32570, 38519]), ([38169, 35823]), ([25253, 38169]), ([23849, 28291]), ([24322,
      24120]), ([22833, 36133]), ([26080, 27861]), ([19981, 33021]),
     ([19981, 29983, 25928]), ([19981, 36215, 20316, 29992]), ([19981, 23545]), ([20462, 22797]), of_str ''fix'',
      of_str ''error'', of_str ''crash'', of_str ''broken'',
     of_str ''fail'']"

definition bug_criteria :: utext where
  "bug_criteria = ([65288, 31995, 32479, 33258, 21160, 29983, 25104, 65289, 20219, 21153, 26631, 39064]
      @ of_str ''/'' @ [32972, 26223, 20013, 25253, 21578, 30340, 38382, 39064, 24050, 34987, 20462, 22797, 24182,
      39564, 35777, 65306] @ of_str ''1) '' @ [25353, 32972, 26223, 25551, 36848, 30340, 21407, 22330, 26223,
      25805, 20316, 65292, 21407, 38382, 39064, 19981, 20877, 20986, 29616, 65292, 30456, 20851, 21151, 33021,
      24674, 22797, 27491, 24120, 65307] @ of_str ''2) '' @ [38468, 21487, 37325, 25918, 30340, 23458, 35266,
      35777, 25454, 65288, 33258, 21160, 21270, 27979, 35797] @ of_str ''/'' @ [33050, 26412, 36755, 20986]
      @ of_str ''/'' @ [23454, 27979, 35760, 24405, 65289, 35777, 26126, 20462, 22797, 25928, 26524, 12290, 20165,
      23450, 20301, 25110, 20998, 26512, 38382, 39064, 19981, 31639, 23436, 25104, 8212, 8212, 24517, 39035, 26377,
      20462, 22797, 33853, 22320, 19982, 39564, 35777, 35777, 25454, 12290])"

definition task_criteria :: utext where
  "task_criteria = ([65288, 31995, 32479, 33258, 21160, 29983, 25104, 65289, 20219, 21153, 26631, 39064]
      @ of_str ''/'' @ [32972, 26223, 20013, 25551, 36848, 30340, 30446, 26631, 24050, 36798, 25104, 24182, 39564,
      35777, 65306] @ of_str ''1) '' @ [20132, 20184, 29289, 25353, 32972, 26223, 25551, 36848, 21487, 27491,
      24120, 20351, 29992] @ of_str ''/'' @ [36816, 34892, 65292, 34892, 20026, 31526, 21512, 25551, 36848, 39044,
      26399, 65307] @ of_str ''2) '' @ [38468, 23458, 35266, 35777, 25454, 65288, 27979, 35797, 36755, 20986]
      @ of_str ''/'' @ [36816, 34892, 32467, 26524] @ of_str ''/'' @ [20132, 20184, 29289, 26680, 39564, 65289,
      35777, 26126, 12290, 20165, 20998, 26512, 25110, 32473, 20986, 26041, 26696, 19981, 31639, 23436, 25104,
      8212, 8212, 24517, 39035, 26377, 21487, 39564, 35777, 30340, 33853, 22320, 32467, 26524, 12290])"

definition generate_acceptance_criteria :: "unicode \<Rightarrow> utext \<Rightarrow> utext \<Rightarrow> utext option" where
  "generate_acceptance_criteria uni title description =
     (let t = text_trim title; d = text_trim description in
      if t = [] \<and> d = [] then None
      else if list_ex (text_contains (uni_lower uni (t @ 10 # d))) bug_signals then Some bug_criteria
      else Some task_criteria)"

section \<open>Creating and editing\<close>

record new_issue =
  ni_title :: utext
  ni_description :: utext
  ni_priority :: int
  ni_assignee :: "assignment_type option"
  ni_assignee_id :: "utext option"
  ni_creator :: actor
  ni_parent :: "int option"
  ni_project :: "int option"
  ni_due :: "int option"
  ni_criteria :: "utext option"
  ni_origin :: "(utext \<times> utext \<times> (utext \<times> utext) list) option"
  ni_role :: "utext option"
  ni_tags :: "utext list"
  ni_profession :: "utext option"
  ni_capabilities :: "utext list"
  ni_backend :: "utext option"

text \<open>The chain of parents above \<open>cursor\<close>, at most the given number of steps.\<close>

fun parent_chain :: "board \<Rightarrow> int option \<Rightarrow> int \<Rightarrow> nat \<Rightarrow> int \<Rightarrow> store_error option" where
  "parent_chain b self p 0 cursor = None"
| "parent_chain b self p (Suc n) cursor =
     (case Option.bind (find_issue cursor b) is_parent of
        None \<Rightarrow> None
      | Some q \<Rightarrow> if Some q = self then Some (Parent_Cycle p) else parent_chain b self p n q)"

definition validate_issue_refs_on :: "board \<Rightarrow> int option \<Rightarrow> int option \<Rightarrow> int option \<Rightarrow> store_error option" where
  "validate_issue_refs_on b parent project self =
     (case (case parent of None \<Rightarrow> None
        | Some p \<Rightarrow> if Some p = self then Some (Own_Parent p)
            else if \<not> has_issue p b then Some (No_Parent p)
            else parent_chain b self p 64 p) of
        Some e \<Rightarrow> Some e
      | None \<Rightarrow> (case project of None \<Rightarrow> None
          | Some j \<Rightarrow> if list_ex (\<lambda>x. fst x = j) (b_projects b) then None else Some (No_Project j)))"

definition not_blank :: "utext option \<Rightarrow> utext option" where
  "not_blank t = (case t of Some s \<Rightarrow> if text_trim s = [] then None else Some s | None \<Rightarrow> None)"

definition new_row :: "int \<Rightarrow> unicode \<Rightarrow> new_issue \<Rightarrow> int \<Rightarrow> utext \<Rightarrow> int \<Rightarrow> issue" where
  "new_row now uni n i number position =
     \<lparr> is_id = i, is_number = number, is_title = ni_title n, is_description = ni_description n,
      is_status = Backlog,
       is_priority = ni_priority n, is_assignee = ni_assignee n, is_assignee_id = ni_assignee_id n,
       is_creator = ni_creator n, is_parent = ni_parent n, is_project = ni_project n, is_due = ni_due n,
       is_position = position,
       is_criteria = (if text_trim (case ni_criteria n of Some c \<Rightarrow> c | None \<Rightarrow> []) = []
         then generate_acceptance_criteria uni (text_trim (ni_title n)) (text_trim (ni_description n))
         else ni_criteria n),
       is_origin = ni_origin n, is_role = not_blank (ni_role n), is_tags = ni_tags n,
       is_profession = not_blank (ni_profession n), is_capabilities = ni_capabilities n,
       is_backend = not_blank (map_option text_trim (ni_backend n)), is_hidden = False, is_created = now,
      is_updated = now \<rparr>"

definition blank_id :: "utext option \<Rightarrow> bool" where
  "blank_id i \<longleftrightarrow> text_trim (case i of Some x \<Rightarrow> x | None \<Rightarrow> []) = []"

definition create_issue :: "int \<Rightarrow> unicode \<Rightarrow> new_issue \<Rightarrow> board \<Rightarrow> issue reply" where
  "create_issue now uni n b =
     (case (if text_trim (ni_title n) = [] then Some Empty_Title
            else case ni_assignee n of Some a \<Rightarrow> if blank_id (ni_assignee_id n) then Some (Needs_Assignee_Id a) else None
              | None \<Rightarrow> None) of
        Some e \<Rightarrow> (b, Inl e)
      | None \<Rightarrow>
        (let i = int (length (b_issues b)) + 1 in
         reread i (commit (\<lambda>b.
           let c = b_counter b + 1;
               b = b\<lparr> b_counter := c \<rparr>;
               number = b_prefix b @ 45 # int_text c in
           case validate_issue_refs_on b (ni_parent n) (ni_project n) None of Some e \<Rightarrow> Inl e | None \<Rightarrow>
           and_then (insert_activity now i (ni_creator n) ''created'' (Some ((of_str ''issue '') @ number
      @ (of_str '' created'')))
             (b\<lparr> b_issues := b_issues b @ [new_row now uni n i number c] \<rparr>)) (\<lambda>b.
           and_then (insert_subscriber i (ni_creator n) ''creator'' b) (\<lambda>b.
           case (ni_assignee n, ni_assignee_id n) of
             (Some a, Some x) \<Rightarrow>
               and_then (insert_activity now i (ni_creator n) ''assigned'' (Some (ac_id (ni_creator n)
      @ (of_str '' '' @ [8594] @ of_str '' '')
                   @ of_str (assignment_str a) @ 47 # x)) b)
                 (insert_subscriber i \<lparr> ac_kind = of_str (assignment_str a), ac_id = x \<rparr> ''assignee'')
           | _ \<Rightarrow> Inr b))) b)))"

record issue_patch =
  pt_title :: "utext option"
  pt_description :: "utext option"
  pt_priority :: "int option"
  pt_project :: "int option"
  pt_due :: "int option"
  pt_position :: "int option"
  pt_criteria :: "utext option"
  pt_parent :: "int option"

definition apply_patch :: "string \<Rightarrow> 'a \<Rightarrow> 'a option \<Rightarrow> 'a \<times> string list" where
  "apply_patch name old new = (case new of Some v \<Rightarrow> if v \<noteq> old then (v, [name]) else (old,
      []) | None \<Rightarrow> (old, []))"

definition apply_set_opt :: "string \<Rightarrow> 'a option \<Rightarrow> 'a option \<Rightarrow> 'a option \<times> string list" where
  "apply_set_opt name old new =
     (case new of Some v \<Rightarrow> if old \<noteq> Some v then (Some v, [name]) else (old,
      []) | None \<Rightarrow> (old, []))"

fun names_json :: "string list \<Rightarrow> utext" where
  "names_json [] = []"
| "names_json [n] = 34 # of_str n @ [34]"
| "names_json (n # ns) = 34 # of_str n @ [34, 44] @ names_json ns"

definition patched :: "issue_patch \<Rightarrow> issue \<Rightarrow> issue \<times> string list" where
  "patched p r =
     (let (title, c1) = apply_patch ''title'' (is_title r) (pt_title p);
          (description, c2) = apply_patch ''description'' (is_description r) (pt_description p);
          (prio, c3) = apply_patch ''priority'' (is_priority r) (pt_priority p);
          (project, c4) = apply_set_opt ''project_id'' (is_project r) (pt_project p);
          (due, c5) = apply_set_opt ''due_date'' (is_due r) (pt_due p);
          (position, c6) = apply_patch ''position'' (is_position r) (pt_position p);
          (criteria, c7) = apply_set_opt ''acceptance_criteria'' (is_criteria r) (pt_criteria p);
          (parent, c8) = apply_set_opt ''parent_issue_id'' (is_parent r) (pt_parent p) in
      (r\<lparr> is_title := title, is_description := description, is_priority := prio, is_project := project,
         is_due := due, is_position := position, is_criteria := criteria, is_parent := parent \<rparr>,
       c1 @ c2 @ c3 @ c4 @ c5 @ c6 @ c7 @ c8))"

definition update_issue :: "int \<Rightarrow> int \<Rightarrow> issue_patch \<Rightarrow> actor \<Rightarrow> board \<Rightarrow> issue reply" where
  "update_issue now i p actor b =
     reread i (commit (\<lambda>b. and_then (get_issue i b) (\<lambda>r.
       let (r', changes) = patched p r in
       case (if ''parent_issue_id'' \<in> set changes \<or> ''project_id'' \<in> set changes
             then validate_issue_refs_on b (is_parent r') (is_project r') (Some i) else None) of
         Some e \<Rightarrow> Inl e
       | None \<Rightarrow>
         (let b' = update_row i (\<lambda>x. x\<lparr> is_title := is_title r', is_description := is_description r',
                is_priority := is_priority r', is_project := is_project r', is_due := is_due r',
                is_position := is_position r', is_criteria := is_criteria r', is_parent := is_parent r',
                is_updated := now \<rparr>) b in
          if changes = [] then Inr b'
          else insert_activity now i actor ''updated'' (Some (91 # names_json changes @ [93])) b'))) b)"

definition insert_dependency :: "int \<Rightarrow> int \<Rightarrow> board \<Rightarrow> store_error + board" where
  "insert_dependency i d b =
     (if (i, d) \<in> set (b_deps b) then Inr b
      else if has_issue i b \<and> has_issue d b then Inr (b\<lparr> b_deps := b_deps b @ [(i, d)] \<rparr>)
      else Inl Constraint_Failed)"

fun insert_dependencies :: "int \<Rightarrow> int list \<Rightarrow> board \<Rightarrow> store_error + board" where
  "insert_dependencies i [] b = Inr b"
| "insert_dependencies i (d # ds) b = and_then (insert_dependency i d b) (insert_dependencies i ds)"

definition set_issue_dependencies :: "int \<Rightarrow> int list \<Rightarrow> board \<Rightarrow> unit reply" where
  "set_issue_dependencies i ds b =
     commit (\<lambda>b. insert_dependencies i ds (b\<lparr> b_deps := filter (\<lambda>e. fst e \<noteq> i) (b_deps b) \<rparr>)) b"

section \<open>Assignment and claims\<close>

definition display_assignee :: "issue \<Rightarrow> utext" where
  "display_assignee r = (case (is_assignee r, is_assignee_id r) of
     (Some a, Some x) \<Rightarrow> of_str (assignment_str a) @ 47 # x | _ \<Rightarrow> ([65288, 26080, 65289]))"

definition assign_issue ::
    "int \<Rightarrow> int \<Rightarrow> assignment_type option \<Rightarrow> utext option \<Rightarrow> actor \<Rightarrow> board \<Rightarrow> issue reply" where
  "assign_issue now i a x actor b =
     (case (case a of Some t \<Rightarrow> if blank_id x then Some (Needs_Assignee_Id t) else None | None \<Rightarrow> None) of
        Some e \<Rightarrow> (b, Inl e)
      | None \<Rightarrow>
        if (a = None) \<noteq> (x = None) then (b, Inl Only_Together)
        else reread i (commit (\<lambda>b. and_then (get_issue i b) (\<lambda>r.
          and_then (insert_activity now i actor ''assigned'' (Some (ac_id actor @ (of_str '': '')
      @ display_assignee r @ (of_str '' '' @ [8594] @ of_str '' '')
              @ (case (a, x) of (Some t, Some y) \<Rightarrow> of_str (assignment_str t)
      @ 47 # y | _ \<Rightarrow> ([65288, 28165, 31354, 65289]))))
            (update_row i (\<lambda>r. r\<lparr> is_assignee := a, is_assignee_id := x,
      is_updated := now \<rparr>) b)) (\<lambda>b.
          case (a, x) of
            (Some t, Some y) \<Rightarrow>
              (let who = \<lparr> ac_kind = of_str (assignment_str t), ac_id = y \<rparr> in
               and_then (insert_subscriber i who ''assignee'' b) (\<lambda>b.
               Inr (if (is_assignee r \<noteq> a \<or> is_assignee_id r \<noteq> x) \<and> who \<noteq> actor
                 then insert_notification now who ''assigned'' (issue_heading r)
                   (ac_kind actor @ (of_str ''/'') @ ac_id actor @ (of_str '' '' @ [25226, 20219, 21153, 25351,
      27966, 32473, 20102, 20320])) (Some i) b
                 else b)))
          | _ \<Rightarrow> Inr b))) b))"

definition claim_issue :: "int \<Rightarrow> int \<Rightarrow> utext \<Rightarrow> actor \<Rightarrow> board \<Rightarrow> issue reply" where
  "claim_issue now i claimer actor b =
     (let claimer = text_trim claimer in
      if claimer = [] then (b, Inl Empty_Claimer)
      else reread i (commit (\<lambda>b. and_then (get_issue i b) (\<lambda>r.
        if is_assignee_id r \<noteq> None
        then Inl (case is_assignee_id r of Some a \<Rightarrow> Claimed_By a | None \<Rightarrow> Claim_Lost i)
        else and_then (insert_activity now i actor ''claimed'' (Some (ac_id actor @ (of_str '': '')
      @ display_assignee r
            @ (of_str '' '' @ [8594] @ of_str '' worker/'') @ claimer))
          (update_row i (\<lambda>r. r\<lparr> is_assignee := Some Worker, is_assignee_id := Some claimer,
      is_updated := now \<rparr>) b))
          (\<lambda>b. let who = \<lparr> ac_kind = of_str ''worker'', ac_id = claimer \<rparr> in
            and_then (insert_subscriber i who ''assignee'' b) (\<lambda>b.
            Inr (if who \<noteq> actor
              then insert_notification now who ''assigned'' (issue_heading r)
                (([20320, 35748, 39046, 20102, 36825, 20010, 20219, 21153, 65288]) @ ac_kind actor
      @ (of_str ''/'') @ ac_id actor @ ([65289])) (Some i) b
              else b))))) b))"

definition open_dependency :: "board \<Rightarrow> int \<Rightarrow> store_error option" where
  "open_dependency b d = (case get_issue d b of Inl e \<Rightarrow> Some e
     | Inr r \<Rightarrow> if is_status r \<noteq> Done then Some (Dependency_Open (is_number r) (is_title r) (is_status r)) else None)"

definition claimable_check :: "int \<Rightarrow> board \<Rightarrow> store_error + issue" where
  "claimable_check i b =
     and_then (get_issue i b) (\<lambda>r.
       if is_status r \<noteq> Backlog \<and> is_status r \<noteq> Todo then Inl (Not_Claimable (is_status r))
       else case is_assignee_id r of Some a \<Rightarrow> Inl (Claimed_By a) | None \<Rightarrow>
       if list_children (is_id r) b \<noteq> [] then Inl Is_Container
       else if in_flight (is_id r) b then Inl In_Flight
       else case first_some (open_dependency b) (dependencies_of (is_id r) b) of Some e \<Rightarrow> Inl e
         | None \<Rightarrow> Inr r)"

definition rollback_claim :: "int \<Rightarrow> int \<Rightarrow> utext \<Rightarrow> actor \<Rightarrow> board \<Rightarrow> bool reply" where
  "rollback_claim now i claimer actor b =
     (if list_ex (\<lambda>r. is_id r = i \<and> is_assignee r = Some Worker \<and> is_assignee_id r = Some claimer) (b_issues b)
      then case insert_activity now i actor ''assigned'' (Some (([35748, 39046, 27966, 21457, 22833, 36133, 22238,
      28378, 65306] @ of_str ''worker/'') @ claimer @ (of_str '' '' @ [8594] @ of_str '' '' @ [65288, 28165, 31354,
      65289])))
          (update_row i (\<lambda>r. r\<lparr> is_assignee := None, is_assignee_id := None,
      is_updated := now \<rparr>) b)
        of Inl e \<Rightarrow> (b, Inl e) | Inr b' \<Rightarrow> (b', Inr True)
      else (b, Inr False))"

section \<open>Comments\<close>

definition mention_token :: "unicode \<Rightarrow> utext \<Rightarrow> utext option" where
  "mention_token uni token =
     (case rev (dropWhile (\<lambda>c. \<not> uni_alnum uni c \<and> c \<noteq> 95 \<and> c \<noteq> 45) (rev (dropWhile (\<lambda>c. c \<noteq> 64) token))) of
        c # name \<Rightarrow> if c = 64 \<and> name \<noteq> [] then Some name else None
      | [] \<Rightarrow> None)"

definition add_hit :: "unicode \<Rightarrow> actor list \<Rightarrow> actor list \<Rightarrow> utext \<Rightarrow> actor list" where
  "add_hit uni candidates hits token =
     (case Option.bind (mention_token uni token) (\<lambda>m. find (\<lambda>a. ac_id a = m) candidates) of
        Some a \<Rightarrow> if list_ex (\<lambda>h. ac_id h = ac_id a) hits then hits else hits @ [a]
      | None \<Rightarrow> hits)"

definition extract_mentions :: "unicode \<Rightarrow> utext \<Rightarrow> actor list \<Rightarrow> actor list" where
  "extract_mentions uni content candidates = foldl (add_hit uni candidates) [] (text_words content)"

record new_comment =
  nc_issue :: int
  nc_author :: actor
  nc_content :: utext
  nc_parent :: "int option"
  nc_type :: comment_type

definition comment_recipients :: "issue \<Rightarrow> board \<Rightarrow> actor list" where
  "comment_recipients r b =
     (let subs = self_subscribers (is_id r) b in
      case actor_of r of Some a \<Rightarrow> if a \<in> set subs then subs else subs
      @ [a] | None \<Rightarrow> subs)"

definition notify_comment :: "int \<Rightarrow> unicode \<Rightarrow> new_comment \<Rightarrow> issue \<Rightarrow> board \<Rightarrow> board" where
  "notify_comment now uni n r b =
     (let recipients = comment_recipients r b;
          mentioned = extract_mentions uni (nc_content n) recipients;
          send = (\<lambda>kind b who. insert_notification now who kind (issue_heading r) (nc_content n) (Some (nc_issue n)) b) in
      foldl (send ''commented'')
        (foldl (send ''mentioned'') b (filter (\<lambda>m. m \<noteq> nc_author n) mentioned))
        (filter (\<lambda>w. w \<noteq> nc_author n \<and> w \<notin> set mentioned) recipients))"

definition add_comment_on :: "int \<Rightarrow> unicode \<Rightarrow> new_comment \<Rightarrow> board \<Rightarrow> store_error + board" where
  "add_comment_on now uni n b =
     and_then (get_issue (nc_issue n) b) (\<lambda>r.
     and_then (insert_comment now (nc_issue n) (nc_author n) (nc_content n) (nc_parent n) (nc_type n) b) (\<lambda>b.
     and_then (insert_subscriber (nc_issue n) (nc_author n) ''commented'' b) (\<lambda>b.
     and_then (insert_activity now (nc_issue n) (nc_author n) ''commented'' None b) (\<lambda>b.
     Inr (if nc_type n = C_Comment then notify_comment now uni n r b else b)))))"

definition add_comment :: "int \<Rightarrow> unicode \<Rightarrow> new_comment \<Rightarrow> board \<Rightarrow> unit reply" where
  "add_comment now uni n b =
     (if text_trim (nc_content n) = [] then (b, Inl Empty_Content) else commit (add_comment_on now uni n) b)"

definition add_activity :: "int \<Rightarrow> int \<Rightarrow> actor \<Rightarrow> string \<Rightarrow> utext option \<Rightarrow> board \<Rightarrow> unit reply" where
  "add_activity now i actor action details b = commit (insert_activity now i actor action details) b"

definition subscribe :: "int \<Rightarrow> actor \<Rightarrow> string \<Rightarrow> board \<Rightarrow> unit reply" where
  "subscribe i who reason b = commit (insert_subscriber i who reason) b"

definition unsubscribe :: "int \<Rightarrow> actor \<Rightarrow> board \<Rightarrow> unit reply" where
  "unsubscribe i who b = (b\<lparr> b_subs := filter (\<lambda>s. \<not> (sb_issue s = i \<and> sb_who s = who)) (b_subs b) \<rparr>, Inr ())"

end
