(* ===== verification/Board_Dispatch.thy ===== *)
theory Board_Dispatch
  imports Board_Work
begin

text \<open>
  The table of dispatches of \<open>crates/nemesis-board/src/store.rs\<close>: which worker was sent which issue under which
  task, and what became of it. Rows are only appended and ended. A client that ends a dispatch learns whether it
  was the one to do so. The quoting of a JSON string is the argument \<open>q\<close>.
\<close>

section \<open>Reading\<close>

definition list_dispatches :: "int \<Rightarrow> board \<Rightarrow> dispatch list" where
  "list_dispatches i b = filter (\<lambda>d. ds_issue d = i) (b_dispatches b)"

definition get_dispatch :: "utext \<Rightarrow> board \<Rightarrow> dispatch option" where
  "get_dispatch task b = find (\<lambda>d. ds_task d = task) (b_dispatches b)"

definition has_active_dispatch :: "int \<Rightarrow> board \<Rightarrow> bool" where
  "has_active_dispatch i b \<longleftrightarrow> 0 < length (filter (\<lambda>d. ds_issue d = i \<and> dispatch_active (ds_state d)) (b_dispatches b))"

definition get_active_dispatch :: "int \<Rightarrow> board \<Rightarrow> dispatch option" where
  "get_active_dispatch i b = find (\<lambda>d. ds_issue d = i \<and> dispatch_active (ds_state d)) (rev (b_dispatches b))"

definition list_active_dispatches :: "board \<Rightarrow> dispatch list" where
  "list_active_dispatches b = filter (\<lambda>d. dispatch_active (ds_state d)) (b_dispatches b)"

definition count_active_dispatch_by_worker :: "board \<Rightarrow> utext \<Rightarrow> nat" where
  "count_active_dispatch_by_worker b w =
     length (filter (\<lambda>d. dispatch_active (ds_state d) \<and> ds_worker d = w) (b_dispatches b))"

definition list_queued_dispatches_excluding :: "utext \<Rightarrow> board \<Rightarrow> dispatch list" where
  "list_queued_dispatches_excluding w b =
     filter (\<lambda>d. ds_state d = DS_Dispatched \<and> ds_worker d \<noteq> w) (b_dispatches b)"

section \<open>Writing\<close>

definition current_generation :: "int \<Rightarrow> board \<Rightarrow> int" where
  "current_generation i b = int (length (filter (\<lambda>d. ds_issue d = i) (b_dispatches b)))"

definition insert_dispatch_locked :: "int \<Rightarrow> (utext \<Rightarrow> utext) \<Rightarrow> utext \<Rightarrow> int \<Rightarrow> utext \<Rightarrow> actor \<Rightarrow> int \<Rightarrow> board
    \<Rightarrow> store_error + board" where
  "insert_dispatch_locked now q task i worker actor g b =
     (if list_ex (\<lambda>d. ds_task d = task) (b_dispatches b) \<or> \<not> has_issue i b then Inl Constraint_Failed
      else insert_activity now i actor ''dispatched''
          (Some ((of_str ''{'' @ [34] @ of_str ''task_id'' @ [34] @ of_str '':'') @ q task @ (of_str '','' @ [34]
      @ of_str ''worker_id'' @ [34] @ of_str '':'') @ q worker @ (of_str ''}'')))
        (b\<lparr> b_dispatches := b_dispatches b @ [\<lparr> ds_task = task, ds_issue = i, ds_worker = worker,
           ds_state = DS_Dispatched, ds_at = now, ds_completed = None, ds_generation = g \<rparr>] \<rparr>))"

definition try_claim_dispatch :: "int \<Rightarrow> (utext \<Rightarrow> utext) \<Rightarrow> utext \<Rightarrow> int \<Rightarrow> utext \<Rightarrow> actor \<Rightarrow> board
    \<Rightarrow> int option reply" where
  "try_claim_dispatch now q task i worker actor b =
     (if has_active_dispatch i b then (b, Inr None)
      else let g = current_generation i b in
      case insert_dispatch_locked now q task i worker actor g b of
        Inl e \<Rightarrow> (b, Inl e) | Inr b' \<Rightarrow> (b', Inr (Some g)))"

text \<open>\<open>UPDATE issue_dispatch SET state,
      completed_at WHERE ...\<close>; the answer is whether a row was changed.\<close>

definition end_rows :: "int \<Rightarrow> dispatch_state \<Rightarrow> (dispatch \<Rightarrow> bool) \<Rightarrow> board \<Rightarrow> bool \<times> board" where
  "end_rows now s P b =
     (list_ex P (b_dispatches b),
      b\<lparr> b_dispatches := map (\<lambda>d. if P d then d\<lparr> ds_state := s,
      ds_completed := Some now \<rparr> else d) (b_dispatches b) \<rparr>)"

definition finish_dispatch :: "int \<Rightarrow> utext \<Rightarrow> dispatch_state \<Rightarrow> board \<Rightarrow> bool reply" where
  "finish_dispatch now task s b =
     (if s \<noteq> DS_Done \<and> s \<noteq> DS_Failed then (b, Inl (Invalid_State s))
      else let (won, b') = end_rows now s (\<lambda>d. ds_task d = task \<and> dispatch_active (ds_state d)) b in (b', Inr won))"

definition mark_dispatch_running :: "utext \<Rightarrow> utext \<Rightarrow> board \<Rightarrow> bool reply" where
  "mark_dispatch_running task worker b =
     (let P = (\<lambda>d. ds_task d = task \<and> ds_worker d = worker \<and> ds_state d = DS_Dispatched) in
      (b\<lparr> b_dispatches := map (\<lambda>d. if P d then d\<lparr> ds_state := DS_Running \<rparr> else d) (b_dispatches b) \<rparr>,
       Inr (list_ex P (b_dispatches b))))"

text \<open>Ending with an entry in the log of the issue, in one transaction.\<close>

definition end_logged :: "int \<Rightarrow> dispatch_state \<Rightarrow> (dispatch \<Rightarrow> bool) \<Rightarrow> utext \<Rightarrow> actor \<Rightarrow> string \<Rightarrow> utext \<Rightarrow> board
    \<Rightarrow> dispatch option reply" where
  "end_logged now s P task actor action details b =
     (case end_rows now s (\<lambda>d. ds_task d = task \<and> dispatch_active (ds_state d) \<and> P d) b of
        (False, _) \<Rightarrow> (b, Inr None)
      | (True, b1) \<Rightarrow>
         (case get_dispatch task b1 of None \<Rightarrow> (b, Inl Constraint_Failed) | Some d \<Rightarrow>
          case insert_activity now (ds_issue d) actor action (Some details) b1 of
            Inl e \<Rightarrow> (b, Inl e) | Inr b2 \<Rightarrow> (b2, Inr (get_dispatch task b2))))"

definition cancel_dispatch :: "int \<Rightarrow> (utext \<Rightarrow> utext) \<Rightarrow> utext \<Rightarrow> actor \<Rightarrow> board \<Rightarrow> dispatch option reply" where
  "cancel_dispatch now q task actor b =
     end_logged now DS_Cancelled (\<lambda>_. True) task actor ''dispatch_cancelled'' ((of_str ''{'' @ [34]
      @ of_str ''task_id'' @ [34] @ of_str '':'') @ q task @ (of_str ''}'')) b"

definition fail_dispatch_inner ::
    "int \<Rightarrow> (utext \<Rightarrow> utext) \<Rightarrow> utext \<Rightarrow> utext \<Rightarrow> int option \<Rightarrow> board \<Rightarrow> dispatch option reply" where
  "fail_dispatch_inner now q task details expected b =
     end_logged now DS_Failed (\<lambda>d. case expected of Some g \<Rightarrow> ds_generation d = g | None \<Rightarrow> True) task
       (system_actor ''board'') ''dispatch_timeout'' ((of_str ''{'' @ [34] @ of_str ''details'' @ [34]
      @ of_str '':'') @ q details @ (of_str '','' @ [34] @ of_str ''task_id'' @ [34] @ of_str '':'') @ q task
      @ (of_str ''}'')) b"

definition fail_dispatch :: "int \<Rightarrow> (utext \<Rightarrow> utext) \<Rightarrow> utext \<Rightarrow> utext \<Rightarrow> board \<Rightarrow> dispatch option reply" where
  "fail_dispatch now q task details b = fail_dispatch_inner now q task details None b"

definition fail_dispatch_checked ::
    "int \<Rightarrow> (utext \<Rightarrow> utext) \<Rightarrow> utext \<Rightarrow> utext \<Rightarrow> int \<Rightarrow> board \<Rightarrow> dispatch option reply" where
  "fail_dispatch_checked now q task details g b = fail_dispatch_inner now q task details (Some g) b"

section \<open>The table\<close>

text \<open>
  What the table keeps: a task occurs once, the rows of an issue are numbered in order, and only the newest of
  them can be active.
\<close>

definition rows_ok :: "dispatch list \<Rightarrow> bool" where
  "rows_ok ds \<longleftrightarrow> distinct (map ds_task ds) \<and>
     (\<forall>i. let rs = filter (\<lambda>d. ds_issue d = i) ds in
        map ds_generation rs = map int [0..<length rs] \<and> (\<forall>d \<in> set (butlast rs). \<not> dispatch_active (ds_state d)))"

text \<open>An update of the state of rows that are active.\<close>

definition touches_active :: "(dispatch \<Rightarrow> dispatch) \<Rightarrow> bool" where
  "touches_active f \<longleftrightarrow> (\<forall>d. ds_task (f d) = ds_task d \<and> ds_issue (f d) = ds_issue d \<and>
     ds_generation (f d) = ds_generation d \<and> (\<not> dispatch_active (ds_state d) \<longrightarrow> f d = d))"

lemma rows_ok_map:
  assumes "rows_ok ds" and f: "touches_active f"
  shows "rows_ok (map f ds)"
proof -
  have fi: "filter (\<lambda>d. ds_issue d = i) (map f ds) = map f (filter (\<lambda>d. ds_issue d = i) ds)" for i
    using f by (simp add: touches_active_def filter_map o_def)
  have t: "map ds_task (map f ds) = map ds_task ds" using f by (simp add: touches_active_def)
  have g: "map ds_generation (map f rs) = map ds_generation rs" for rs
    using f by (simp add: touches_active_def)
  have a: "\<not> dispatch_active (ds_state (f d))" if "\<not> dispatch_active (ds_state d)" for d
    using f that by (metis touches_active_def)
  show ?thesis
    using assms(1) a unfolding rows_ok_def Let_def t fi g
    by (simp add: map_butlast [symmetric])
qed

lemma rows_ok_snoc:
  assumes ok: "rows_ok ds" and new: "ds_task d \<notin> ds_task ` set ds"
    and idle: "\<forall>r \<in> set ds. ds_issue r = ds_issue d \<longrightarrow> \<not> dispatch_active (ds_state r)"
    and gen: "ds_generation d = int (length (filter (\<lambda>r. ds_issue r = ds_issue d) ds))"
  shows "rows_ok (ds @ [d])"
  using assms unfolding rows_ok_def Let_def
  by (auto simp: butlast_append)

lemma end_rows_map:
  "end_rows now s (\<lambda>d. ds_task d = task \<and> dispatch_active (ds_state d) \<and> P d) b
     = (list_ex (\<lambda>d. ds_task d = task \<and> dispatch_active (ds_state d) \<and> P d) (b_dispatches b),
        b\<lparr> b_dispatches := map (\<lambda>d. if ds_task d = task \<and> dispatch_active (ds_state d) \<and> P d
             then d\<lparr> ds_state := s, ds_completed := Some now \<rparr> else d) (b_dispatches b) \<rparr>)"
  by (simp add: end_rows_def)

lemma touches_end [simp]:
  "touches_active (\<lambda>d. if ds_task d = task \<and> dispatch_active (ds_state d) \<and> P d
     then d\<lparr> ds_state := s, ds_completed := Some now \<rparr> else d)"
  "touches_active (\<lambda>d. if ds_task d = task \<and> dispatch_active (ds_state d)
     then d\<lparr> ds_state := s, ds_completed := Some now \<rparr> else d)"
  "touches_active (\<lambda>d. if ds_task d = task \<and> ds_worker d = w \<and> ds_state d = DS_Dispatched
     then d\<lparr> ds_state := DS_Running \<rparr> else d)"
  by (auto simp: touches_active_def dispatch_active_def)

end
