(* ===== verification/Board_Trail.thy ===== *)
theory Board_Trail
  imports Board_Dispatch
begin

text \<open>
  What holds of the board's database after any sequence of operations: the log of an issue explains its status, and
  the table of dispatches is in order. Every operation is a run of a small audit machine whose state is the list of
  statuses and the log.
\<close>

section \<open>Operations\<close>

datatype board_op =
    Create new_issue
  | Update int issue_patch actor
  | Transition int issue_status actor
  | Move int issue_status int actor
  | Roll_Dispatch int issue_status "assignment_type option" "utext option" actor
  | Reopen int actor
  | Roll_Decision int
  | Roll_Done int utext
  | Archive "int list" actor
  | Set_Deps int "int list"
  | Assign int "assignment_type option" "utext option" actor
  | Claim int utext actor
  | Roll_Claim int utext actor
  | Comment new_comment
  | Note int actor string "utext option"
  | Subscribe int actor string
  | Unsubscribe int actor
  | Dispatch utext int utext actor
  | Finish utext dispatch_state
  | Mark_Running utext utext
  | Cancel_Dispatch utext actor
  | Fail_Dispatch utext utext "int option"

fun board_step :: "unicode \<Rightarrow> (utext \<Rightarrow> utext) \<Rightarrow> board \<Rightarrow> int \<times> board_op \<Rightarrow> board" where
  "board_step uni q b (now, Create n) = fst (create_issue now uni n b)"
| "board_step uni q b (now, Update i p a) = fst (update_issue now i p a b)"
| "board_step uni q b (now, Transition i t a) = fst (transition_issue now i t a b)"
| "board_step uni q b (now, Move i t p a) = fst (move_issue now i t p a b)"
| "board_step uni q b (now, Roll_Dispatch i s pa pai a) = fst (rollback_dispatch_failure now i s pa pai a b)"
| "board_step uni q b (now, Reopen i a) = fst (reopen_issue now i a b)"
| "board_step uni q b (now, Roll_Decision v) = fst (rollback_decision now v b)"
| "board_step uni q b (now, Roll_Done i reason) = fst (rollback_done_to_in_review now i reason b)"
| "board_step uni q b (now, Archive is a) = fst (bulk_archive_cancelled now is a b)"
| "board_step uni q b (now, Set_Deps i ds) = fst (set_issue_dependencies i ds b)"
| "board_step uni q b (now, Assign i t x a) = fst (assign_issue now i t x a b)"
| "board_step uni q b (now, Claim i x a) = fst (claim_issue now i x a b)"
| "board_step uni q b (now, Roll_Claim i x a) = fst (rollback_claim now i x a b)"
| "board_step uni q b (now, Comment n) = fst (add_comment now uni n b)"
| "board_step uni q b (now, Note i a action d) = fst (add_activity now i a action d b)"
| "board_step uni q b (now, Subscribe i a r) = fst (subscribe i a r b)"
| "board_step uni q b (now, Unsubscribe i a) = fst (unsubscribe i a b)"
| "board_step uni q b (now, Dispatch task i w a) = fst (try_claim_dispatch now q task i w a b)"
| "board_step uni q b (now, Finish task s) = fst (finish_dispatch now task s b)"
| "board_step uni q b (now, Mark_Running task w) = fst (mark_dispatch_running task w b)"
| "board_step uni q b (now, Cancel_Dispatch task a) = fst (cancel_dispatch now q task a b)"
| "board_step uni q b (now, Fail_Dispatch task d g) =
     (case g of None \<Rightarrow> fst (fail_dispatch now q task d b) | Some g \<Rightarrow> fst (fail_dispatch_checked now q task d g b))"

definition board_run :: "unicode \<Rightarrow> (utext \<Rightarrow> utext) \<Rightarrow> utext \<Rightarrow> (int \<times> board_op) list \<Rightarrow> board" where
  "board_run uni q pre ops = run_events (board_step uni q) (board_open pre) ops"

section \<open>Reading the log\<close>

definition status_of_text :: "utext \<Rightarrow> issue_status option" where
  "status_of_text t = find (\<lambda>s. status_text s = t) all_statuses"

definition after :: "utext \<Rightarrow> utext \<Rightarrow> utext option" where
  "after p d = (if text_starts_with d p then Some (drop (length p) d) else None)"

definition numeral_code :: "nat \<Rightarrow> bool" where
  "numeral_code c \<longleftrightarrow> c = 45 \<or> 48 \<le> c \<and> c \<le> 57"

text \<open>The target a status entry names: after \<open>from\<close>, with or without a position.\<close>

definition named_target :: "issue_status \<Rightarrow> utext \<Rightarrow> issue_status option" where
  "named_target s d = Option.bind (after ((of_str ''{'' @ [34] @ of_str ''from'' @ [34] @ of_str '':'' @ [34])
      @ status_text s @ [34, 44]) d) (\<lambda>r.
     let r = (case after ([34] @ of_str ''position'' @ [34]
      @ of_str '':'') r of Some p \<Rightarrow> drop 1 (dropWhile numeral_code p) | None \<Rightarrow> r) in
     Option.bind (after ([34] @ of_str ''to'' @ [34] @ of_str '':''
      @ [34]) r) (\<lambda>w. status_of_text (takeWhile (\<lambda>c. c \<noteq> 34) w)))"

text \<open>
  The status after an entry, for a reader who knows the one before. No answer: the entry must not be there.
\<close>

definition status_after :: "issue_status \<Rightarrow> string \<Rightarrow> utext option \<Rightarrow> issue_status option" where
  "status_after s action details =
     (if action = ''status_changed'' then
        (case details of None \<Rightarrow> None | Some d \<Rightarrow>
           (case named_target s d of
              Some t \<Rightarrow> if can_transition s t then Some t else None
            | None \<Rightarrow> if s = Done \<and> (text_starts_with d (of_str ''audit_rollback:'') \<or> text_starts_with d (of_str ''done_rollback:''))
                then Some In_Review else None))
      else if action = ''dispatch_rolled_back'' then
        (case Option.bind details (after rolled_key) of None \<Rightarrow> None | Some r \<Rightarrow>
           (case status_of_text (takeWhile (\<lambda>c. c \<noteq> 65288) r) of
              Some t \<Rightarrow> if s = In_Progress \<and> t \<noteq> In_Progress then Some t else None
            | None \<Rightarrow> None))
      else Some s)"

definition replay :: "activity list \<Rightarrow> issue_status option" where
  "replay es = foldl (\<lambda>s a. Option.bind s (\<lambda>s. status_after s (av_action a) (av_details a))) (Some Backlog) es"

lemma status_of_text_status [simp]: "status_of_text (status_text s) = Some s"
  by (cases s) (simp_all add: status_of_text_def all_statuses_def status_text_def)

lemma after_append [simp]: "after p (p @ r) = Some r"
  by (simp add: after_def text_starts_with_def)

lemma takeWhile_status [simp]:
  "takeWhile (\<lambda>c. c \<noteq> 34) (status_text s @ 34 # r) = status_text s"
  "takeWhile (\<lambda>c. c \<noteq> 65288) (status_text s @ 65288 # r) = status_text s"
  by (cases s; simp add: status_text_def of_str_def)+

lemma decimal_codes: "c \<in> set (decimal n) \<Longrightarrow> \<exists>k < 10. c = digit_char k"
proof (induction n rule: decimal.induct)
  case (1 n)
  show ?case
  proof (cases "n < 10")
    case True
    with 1(2) show ?thesis by (auto simp: decimal_small)
  next
    case False
    with 1 show ?thesis by (auto simp: decimal_step intro: exI [of _ "n mod 10"])
  qed
qed

lemma int_text_codes: "c \<in> set (int_text p) \<Longrightarrow> numeral_code c"
proof -
  have d: "numeral_code (of_char (digit_char k))" if "k < 10" for k
    using that by (simp add: digit_char_def numeral_code_def)
  have "numeral_code c" if "c \<in> set (of_nat_text n)" for n
    using that decimal_codes [of _ n] d by (fastforce simp: of_nat_text_def of_str_def)
  then show "c \<in> set (int_text p) \<Longrightarrow> numeral_code c"
    by (auto simp: int_text_def numeral_code_def split: if_splits)
qed

lemma dropWhile_int_text [simp]: "dropWhile numeral_code (int_text p @ 44 # r) = 44 # r"
  using int_text_codes [of _ p] by (subst dropWhile_append2) (simp_all add: numeral_code_def)

text \<open>The fixed pieces of an entry.\<close>

definition from_key :: "issue_status \<Rightarrow> utext" where
  "from_key s = (of_str ''{'' @ [34] @ of_str ''from'' @ [34] @ of_str '':'' @ [34]) @ status_text s @ [34, 44]"

definition position_key :: utext where "position_key = ([34] @ of_str ''position'' @ [34] @ of_str '':'')"
definition to_key :: utext where "to_key = ([34] @ of_str ''to'' @ [34] @ of_str '':'' @ [34])"

lemma key_simps:
  "status_details s t = from_key s @ to_key @ status_text t @ 34 # [125]"
  "moved_details s t p = from_key s @ position_key @ int_text p @ 44 # to_key @ status_text t @ 34 # [125]"
  "after position_key (to_key @ r) = None"
  by (simp_all add: status_details_def moved_details_def from_key_def position_key_def to_key_def of_str_def
      after_def text_starts_with_def)

lemma named_target_key: "named_target s d = Option.bind (after (from_key s) d) (\<lambda>r.
     let r = (case after position_key r of Some p \<Rightarrow> drop 1 (dropWhile numeral_code p) | None \<Rightarrow> r) in
     Option.bind (after to_key r) (\<lambda>w. status_of_text (takeWhile (\<lambda>c. c \<noteq> 34) w)))"
  by (simp add: named_target_def from_key_def position_key_def to_key_def)

lemma named_target_details [simp]:
  "named_target s (status_details s t) = Some t" "named_target s (moved_details s t p) = Some t"
  by (simp_all add: named_target_key key_simps)

lemma status_after_changed [simp]:
  "status_after s ''status_changed'' (Some (status_details s t)) = (if can_transition s t then Some t else None)"
  "status_after s ''status_changed'' (Some (moved_details s t p)) = (if can_transition s t then Some t else None)"
  by (simp_all add: status_after_def)

lemma named_target_other: "c \<noteq> 123 \<Longrightarrow> named_target s (c # d) = None"
  by (simp add: named_target_key after_def text_starts_with_def from_key_def of_str_def)

lemma rolled_details_key: "rolled_back_details s x = rolled_key @ status_text s @ 65288 # (([25351, 27966, 24674,
      22797, 20026] @ of_str '' '')
    @ (case x of Some y \<Rightarrow> y | None \<Rightarrow> ([65288, 26080, 65289])) @ ([65289]))"
  by (simp add: rolled_back_details_def)

lemma rollback_keys:
  "named_target Done (audit_rollback_key @ r) = None" "named_target Done (done_rollback_key @ r) = None"
  "text_starts_with (audit_rollback_key @ r) (of_str ''audit_rollback:'')"
  "text_starts_with (done_rollback_key @ r) (of_str ''done_rollback:'')"
  by (simp_all add: audit_rollback_key_def done_rollback_key_def named_target_other of_str_def text_starts_with_def)

lemma status_after_rolled [simp]:
  "status_after Done ''status_changed'' (Some (audit_rollback_key @ r)) = Some In_Review"
  "status_after Done ''status_changed'' (Some (done_rollback_key @ r)) = Some In_Review"
  "s \<noteq> In_Progress \<Longrightarrow>
     status_after In_Progress ''dispatch_rolled_back'' (Some (rolled_back_details s x)) = Some s"
  by (simp_all add: status_after_def rollback_keys rolled_details_key)

section \<open>The audit machine\<close>

type_synonym entry = "int \<times> string \<times> utext option"
type_synonym audit = "(int \<times> issue_status) list \<times> entry list \<times> dispatch list"

definition set_at :: "int \<Rightarrow> issue_status \<Rightarrow> (int \<times> issue_status) list \<Rightarrow> (int \<times> issue_status) list" where
  "set_at i t ss = map (\<lambda>(j, s). if j = i then (j, t) else (j, s)) ss"

inductive row_step :: "dispatch list \<Rightarrow> dispatch list \<Rightarrow> bool" where
  row_new: "ds_task d \<notin> ds_task ` set ds \<Longrightarrow>
    \<forall>r \<in> set ds. ds_issue r = ds_issue d \<longrightarrow> \<not> dispatch_active (ds_state r) \<Longrightarrow>
    ds_generation d = int (length (filter (\<lambda>r. ds_issue r = ds_issue d) ds)) \<Longrightarrow> row_step ds (ds @ [d])"
| row_upd: "touches_active f \<Longrightarrow> row_step ds (map f ds)"

inductive audit_step :: "audit \<Rightarrow> audit \<Rightarrow> bool" where
  noted: "i \<in> fst ` set ss \<Longrightarrow> \<forall>s. status_after s a d = Some s \<Longrightarrow>
    audit_step (ss, es, ds) (ss, es @ [(i, a, d)], ds)"
| moved: "(i, s) \<in> set ss \<Longrightarrow> status_after s a d = Some t \<Longrightarrow>
    audit_step (ss, es, ds) (set_at i t ss, es @ [(i, a, d)], ds)"
| born: "i = int (length ss) + 1 \<Longrightarrow> \<forall>s. status_after s a d = Some s \<Longrightarrow>
    audit_step (ss, es, ds) (ss @ [(i, Backlog)], es @ [(i, a, d)], ds)"
| worked: "row_step ds ds' \<Longrightarrow> audit_step (ss, es, ds) (ss, es, ds')"

definition replay_entries :: "int \<Rightarrow> entry list \<Rightarrow> issue_status option" where
  "replay_entries i es = foldl (\<lambda>s (j, a, d). Option.bind s (\<lambda>s. status_after s a d)) (Some Backlog)
     (filter (\<lambda>e. fst e = i) es)"

lemma replay_entries_snoc [simp]:
  "replay_entries i (es @ [(j, a, d)]) =
     (if j = i then Option.bind (replay_entries i es) (\<lambda>s. status_after s a d) else replay_entries i es)"
  by (simp add: replay_entries_def)

definition audit_ok :: "audit \<Rightarrow> bool" where
  "audit_ok w \<longleftrightarrow> (case w of (ss, es, ds) \<Rightarrow>
     map fst ss = map (\<lambda>k. int k + 1) [0..<length ss] \<and> fst ` set es \<subseteq> fst ` set ss \<and>
     (\<forall>(i, s) \<in> set ss. replay_entries i es = Some s) \<and> rows_ok ds)"

lemma replay_entries_none: "i \<notin> fst ` set es \<Longrightarrow> replay_entries i es = Some Backlog"
proof -
  assume "i \<notin> fst ` set es"
  then have "filter (\<lambda>e. fst e = i) es = []" by (induction es) auto
  then show ?thesis by (simp add: replay_entries_def)
qed

lemma set_at_fst [simp]: "map fst (set_at i t ss) = map fst ss" "length (set_at i t ss) = length ss"
    "fst ` set (set_at i t ss) = fst ` set ss"
  by (force simp: set_at_def split: prod.splits)+

lemma audit_id_range: "map fst ss = map (\<lambda>k. int k + 1) [0..<length ss] \<Longrightarrow> i \<in> fst ` set ss \<Longrightarrow> i \<le> int (length ss)"
proof -
  assume "map fst ss = map (\<lambda>k. int k + 1) [0..<length ss]" and "i \<in> fst ` set ss"
  then have "i \<in> set (map (\<lambda>k. int k + 1) [0..<length ss])" by (metis list.set_map)
  then show ?thesis by auto
qed

lemma row_step_ok: "row_step ds ds' \<Longrightarrow> rows_ok ds \<Longrightarrow> rows_ok ds'"
  by (induction rule: row_step.induct) (simp_all add: rows_ok_snoc rows_ok_map)

lemma audit_step_ok: "audit_step w w' \<Longrightarrow> audit_ok w \<Longrightarrow> audit_ok w'"
proof (induction rule: audit_step.induct)
  case (noted i ss a d es ds)
  have "replay_entries j (es @ [(i, a, d)]) = Some u" if "(j, u) \<in> set ss" for j u
    using noted that by (auto simp: audit_ok_def)
  then show ?case using noted by (auto simp: audit_ok_def)
next
  case (moved i s ss a d t es ds)
  have "replay_entries j (es @ [(i, a, d)]) = Some u" if "(j, u) \<in> set (set_at i t ss)" for j u
  proof (cases "j = i")
    case True
    with that have "u = t" by (auto simp: set_at_def split: if_splits)
    moreover have "replay_entries i es = Some s" using moved by (auto simp: audit_ok_def)
    ultimately show ?thesis using True moved(2) by simp
  next
    case False
    with that have "(j, u) \<in> set ss" by (auto simp: set_at_def split: if_splits)
    then show ?thesis using False moved(3) by (auto simp: audit_ok_def)
  qed
  then show ?case using moved by (auto simp: audit_ok_def rev_image_eqI)
next
  case (born i ss a d es ds)
  have new: "i \<notin> fst ` set ss" using born audit_id_range [of ss i] by (auto simp: audit_ok_def)
  then have "replay_entries i es = Some Backlog"
    using born by (intro replay_entries_none) (auto simp: audit_ok_def)
  moreover have "replay_entries j (es @ [(i, a, d)]) = Some u" if "(j, u) \<in> set ss" for j u
  proof -
    have "j \<noteq> i" using that new by force
    then show ?thesis using that born by (auto simp: audit_ok_def)
  qed
  ultimately show ?case using born by (auto simp: audit_ok_def)
next
  case (worked ds ds' ss es)
  then show ?case by (auto simp: audit_ok_def dest: row_step_ok)
qed

abbreviation audit_run :: "audit \<Rightarrow> audit \<Rightarrow> bool" where "audit_run \<equiv> audit_step\<^sup>*\<^sup>*"

lemma audit_run_ok: "audit_run w w' \<Longrightarrow> audit_ok w \<Longrightarrow> audit_ok w'"
  by (induction rule: rtranclp_induct) (auto dest: audit_step_ok)

end
