(* ===== verification/Board_History.thy ===== *)
theory Board_History
  imports Board_Trail
begin

text \<open>
  Every operation of the board's database is a run of the audit machine (\<open>Board_Trail\<close>),
      and what follows for every
  sequence of operations: the log explains the status of every issue, and the rows of the dispatches are in order.
\<close>

section \<open>What the audit machine sees of a board\<close>

definition shown :: "board \<Rightarrow> audit" where
  "shown b = (map (\<lambda>r. (is_id r, is_status r)) (b_issues b),
     map (\<lambda>a. (av_issue a, av_action a, av_details a)) (b_activity b), b_dispatches b)"

definition put_status :: "int \<Rightarrow> issue_status \<Rightarrow> audit \<Rightarrow> audit" where
  "put_status i t w = (set_at i t (fst w), snd w)"

definition put_entry :: "entry \<Rightarrow> audit \<Rightarrow> audit" where
  "put_entry e w = (fst w, fst (snd w) @ [e], snd (snd w))"

definition silent :: "string \<Rightarrow> bool" where
  "silent a \<longleftrightarrow> a \<noteq> ''status_changed'' \<and> a \<noteq> ''dispatch_rolled_back''"

lemma silent_keeps: "silent a \<Longrightarrow> status_after s a d = Some s"
  by (simp add: silent_def status_after_def)

lemma shown_simps [simp]:
  "shown (b\<lparr> b_comments := c \<rparr>) = shown b" "shown (b\<lparr> b_subs := sb \<rparr>) = shown b"
  "shown (b\<lparr> b_notes := n \<rparr>) = shown b" "shown (b\<lparr> b_deps := dp \<rparr>) = shown b"
  "shown (b\<lparr> b_counter := k \<rparr>) = shown b"
  by (simp_all add: shown_def)

lemma shown_update_row:
  "(\<And>r. is_id (f r) = is_id r) \<Longrightarrow> (\<And>r. is_status (f r) = is_status r) \<Longrightarrow> shown (update_row i f b) = shown b"
  "(\<And>r. is_id (f r) = is_id r) \<Longrightarrow> (\<And>r. is_status (f r) = t) \<Longrightarrow> shown (update_row i f b) = put_status i t (shown b)"
  by (auto simp: shown_def update_row_def put_status_def set_at_def)

lemma shown_notify [simp]: "shown (notify_assignee now r actor c b) = shown b"
    "shown (insert_notification now who kind tt c i b) = shown b"
  by (auto simp: notify_assignee_def insert_notification_def split: option.splits)

lemma insert_comment_shown: "insert_comment now i au c p ct b = Inr b' \<Longrightarrow> shown b' = shown b"
  by (auto simp: insert_comment_def split: if_splits)

lemma insert_subscriber_shown: "insert_subscriber i who reason b = Inr b' \<Longrightarrow> shown b' = shown b"
  by (auto simp: insert_subscriber_def split: if_splits)

lemma has_issue_shown: "has_issue i b \<longleftrightarrow> i \<in> fst ` set (fst (shown b))"
  by (force simp: has_issue_def shown_def list_ex_iff)

lemma insert_activity_shown:
  "insert_activity now i actor a d b = Inr b' \<Longrightarrow>
     has_issue i b \<and> shown b' = put_entry (i, a, d) (shown b)"
  by (auto simp: insert_activity_def shown_def put_entry_def split: if_splits)

lemmas prim_shown = insert_comment_shown insert_subscriber_shown insert_activity_shown

lemma get_issue_shown: "get_issue i b = Inr r \<Longrightarrow> (i,
      is_status r) \<in> set (fst (shown b)) \<and> is_id r = i"
  by (auto simp: get_issue_def find_issue_def shown_def find_Some_iff split: option.splits intro!: rev_image_eqI)

section \<open>Runs\<close>

lemma run_note:
  "i \<in> fst ` set (fst w) \<Longrightarrow> silent a \<Longrightarrow> audit_run w (put_entry (i, a, d) w)"
  by (cases w) (auto simp: put_entry_def silent_keeps intro!: r_into_rtranclp noted)

lemma run_move:
  "(i, s) \<in> set (fst w) \<Longrightarrow> status_after s a d = Some t \<Longrightarrow> audit_run w (put_entry (i, a, d) (put_status i t w))"
  by (cases w) (auto simp: put_entry_def put_status_def intro!: r_into_rtranclp moved)

lemma run_activity:
  "insert_activity now i actor a d b = Inr b' \<Longrightarrow> silent a \<Longrightarrow> audit_run (shown b) (shown b')"
  using insert_activity_shown has_issue_shown run_note by metis

lemma run_commit:
  "(\<And>b'. f b = Inr b' \<Longrightarrow> audit_run (shown b) (shown b')) \<Longrightarrow> audit_run (shown b) (shown (fst (commit f b)))"
  by (auto simp: commit_def split: sum.splits)

lemma run_commit_with:
  "(\<And>b' x. f b = Inr (b', x) \<Longrightarrow> audit_run (shown b) (shown b')) \<Longrightarrow>
     audit_run (shown b) (shown (fst (commit_with f b)))"
  by (auto simp: commit_with_def split: sum.splits)

lemma validate_Some: "validate_transition s t = Some e \<Longrightarrow> \<not> can_transition s t"
  by (auto simp: validate_transition_def can_transition_def split: if_splits)

lemma fst_reread [simp]: "fst (reread i r) = fst r"
  by (simp add: reread_def)

lemma transition_in_tx_shown:
  assumes "transition_issue_in_tx now r i t actor b = Inr b'"
  shows "can_transition (is_status r) t \<and>
    shown b' = put_entry (i, ''status_changed'', Some (status_details (is_status r) t)) (put_status i t (shown b))"
  using assms
  by (auto simp: transition_issue_in_tx_def and_then_Inr Let_def shown_update_row validate_transition_None
      dest!: prim_shown split: option.splits if_splits sum.splits)

lemma run_transition_in_tx:
  "get_issue i b = Inr r \<Longrightarrow> transition_issue_in_tx now r i t actor b = Inr b' \<Longrightarrow> audit_run (shown b) (shown b')"
  by (auto dest!: transition_in_tx_shown get_issue_shown intro!: run_move)

section \<open>Every operation is a run\<close>

lemma transition_runs: "audit_run (shown b) (shown (fst (transition_issue now i t actor b)))"
  unfolding transition_issue_def fst_reread
  by (rule run_commit) (auto simp: and_then_Inr intro: run_transition_in_tx)

lemma move_runs: "audit_run (shown b) (shown (fst (move_issue now i t p actor b)))"
  unfolding move_issue_def fst_reread
  by (rule run_commit)
    (auto simp: and_then_Inr Let_def shown_update_row validate_transition_None status_after_def
      dest!: prim_shown get_issue_shown validate_Some split: option.splits if_splits intro!: run_move)

lemma rollback_dispatch_runs: "audit_run (shown b) (shown (fst (rollback_dispatch_failure now i s pa pai actor b)))"
  by (auto simp: rollback_dispatch_failure_def shown_update_row split: sum.splits if_splits
      dest!: prim_shown get_issue_shown intro!: run_move)

lemma reopen_runs: "audit_run (shown b) (shown (fst (reopen_issue now i actor b)))"
  unfolding reopen_issue_def fst_reread
  by (rule run_commit)
    (auto simp: and_then_Inr shown_update_row dest!: insert_comment_shown split: if_splits option.splits
      intro: run_transition_in_tx)

lemma rollback_decision_runs: "audit_run (shown b) (shown (fst (rollback_decision now v b)))"
  unfolding rollback_decision_def
  by (rule run_commit_with)
    (auto simp: and_then_Inr shown_update_row
      dest!: prim_shown get_issue_shown split: option.splits if_splits intro!: run_move)

lemma rollback_done_runs: "audit_run (shown b) (shown (fst (rollback_done_to_in_review now i reason b)))"
  unfolding rollback_done_to_in_review_def
  by (rule run_commit_with)
    (auto simp: and_then_Inr shown_update_row
      dest!: prim_shown get_issue_shown split: if_splits intro!: run_move)

lemma silents [simp]:
  "silent ''issue_bulk_archive''" "silent ''updated''" "silent ''assigned''" "silent ''claimed''" "silent ''created''"
  "silent ''commented''" "silent ''dispatched''" "silent ''dispatch_cancelled''" "silent ''dispatch_timeout''"
  by (simp_all add: silent_def)

lemma archive_runs: "archive_rows now actor is b = Inr (b', out) \<Longrightarrow> audit_run (shown b) (shown b')"
proof (induction "is" arbitrary: b b' out)
  case (Cons i "is")
  let ?up = "update_row i (\<lambda>r. r\<lparr> is_hidden := True, is_updated := now \<rparr>) b"
  from Cons.prems obtain d b1 out' where
    a: "insert_activity now i actor ''issue_bulk_archive'' d ?up = Inr b1"
    and r: "archive_rows now actor is b1 = Inr (b', out')"
    by (auto simp: and_then_Inr split: if_splits)
  have "audit_run (shown b) (shown b1)" using run_activity [OF a] by (simp add: shown_update_row)
  with Cons.IH [OF r] show ?case by simp
qed simp

lemma bulk_archive_runs: "audit_run (shown b) (shown (fst (bulk_archive_cancelled now is actor b)))"
  unfolding bulk_archive_cancelled_def by (rule run_commit_with) (rule archive_runs)

lemma update_runs: "audit_run (shown b) (shown (fst (update_issue now i p actor b)))"
  unfolding update_issue_def fst_reread
proof (rule run_commit, goal_cases)
  case (1 b')
  then obtain r where r: "get_issue i b = Inr r" by (auto simp: and_then_Inr)
  obtain r' changes where p: "patched p r = (r', changes)" by fastforce
  show ?case
    using 1 unfolding r and_then.simps p prod.case
    by (auto simp: Let_def shown_update_row split: option.splits if_splits dest!: run_activity)
qed

lemma dependencies_shown: "insert_dependencies i ds b = Inr b' \<Longrightarrow> shown b' = shown b"
proof (induction ds arbitrary: b)
  case (Cons d ds)
  then obtain b1 where "insert_dependency i d b = Inr b1" and r: "insert_dependencies i ds b1 = Inr b'"
    by (auto simp: and_then_Inr)
  then have "shown b1 = shown b" by (auto simp: insert_dependency_def split: if_splits)
  with Cons.IH [OF r] show ?case by simp
qed simp

lemma run_guards:
  "audit_run (shown b) (shown (fst x)) \<Longrightarrow>
     audit_run (shown b) (shown (fst (case c of Some e \<Rightarrow> (b, Inl e) | None \<Rightarrow> x)))"
  "audit_run (shown b) (shown (fst x)) \<Longrightarrow> audit_run (shown b) (shown (fst (if g then (b, y) else x)))"
  by (auto split: option.splits)

lemma set_deps_runs: "audit_run (shown b) (shown (fst (set_issue_dependencies i ds b)))"
  unfolding set_issue_dependencies_def by (rule run_commit) (auto dest!: dependencies_shown)

lemma assign_runs: "audit_run (shown b) (shown (fst (assign_issue now i t x actor b)))"
  unfolding assign_issue_def
proof (intro run_guards, unfold fst_reread, rule run_commit, goal_cases)
  case (1 b')
  then show ?case
    by (auto simp: and_then_Inr shown_update_row Let_def dest!: insert_subscriber_shown run_activity
        split: option.splits)
qed

lemma roll_claim_runs: "audit_run (shown b) (shown (fst (rollback_claim now i x actor b)))"
  by (auto simp: rollback_claim_def shown_update_row split: sum.splits dest!: run_activity)

lemma claim_runs: "audit_run (shown b) (shown (fst (claim_issue now i x actor b)))"
  unfolding claim_issue_def Let_def
proof (intro run_guards, unfold fst_reread, rule run_commit, goal_cases)
  case (1 b')
  then show ?case
    by (auto simp: and_then_Inr shown_update_row Let_def dest!: insert_subscriber_shown run_activity
        split: if_splits)
qed

lemma notify_fold_shown: "shown (foldl (\<lambda>b who. insert_notification now who kind tt c i b) b ws) = shown b"
  by (induction ws arbitrary: b) auto

lemma comment_runs: "audit_run (shown b) (shown (fst (add_comment now uni n b)))"
proof -
  have "audit_run (shown b) (shown b')" if "add_comment_on now uni n b = Inr b'" for b'
    using that by (auto simp: add_comment_on_def and_then_Inr notify_comment_def notify_fold_shown Let_def
        dest!: insert_comment_shown insert_subscriber_shown run_activity split: if_splits)
  then show ?thesis by (auto simp: add_comment_def intro: run_commit)
qed

lemma note_runs: "silent a \<Longrightarrow> audit_run (shown b) (shown (fst (add_activity now i actor a d b)))"
  unfolding add_activity_def by (rule run_commit) (rule run_activity)

lemma subscribe_runs: "audit_run (shown b) (shown (fst (subscribe i who reason b)))"
  unfolding subscribe_def by (rule run_commit) (auto dest!: insert_subscriber_shown)

lemma unsubscribe_runs: "audit_run (shown b) (shown (fst (unsubscribe i who b)))"
  by (simp add: unsubscribe_def)

lemma create_runs: "audit_run (shown b) (shown (fst (create_issue now uni n b)))"
  unfolding create_issue_def Let_def
proof (intro run_guards, unfold fst_reread, rule run_commit, goal_cases)
  case (1 b')
  let ?i = "int (length (b_issues b)) + 1"
  let ?row = "\<lambda>number. new_row now uni n ?i number (b_counter b + 1)"
  from 1 obtain number d b1 b2 where
    a: "insert_activity now ?i (ni_creator n) ''created'' d (b\<lparr> b_counter := b_counter b + 1,
      b_issues := b_issues b @ [?row number] \<rparr>) = Inr b1"
    and s: "insert_subscriber ?i (ni_creator n) ''creator'' b1 = Inr b2"
    and r: "(case (ni_assignee n, ni_assignee_id n) of
             (Some a, Some x) \<Rightarrow>
               and_then (insert_activity now ?i (ni_creator n) ''assigned'' (Some (ac_id (ni_creator n)
      @ (of_str '' '' @ [8594] @ of_str '' '')
                   @ of_str (assignment_str a) @ 47 # x)) b2)
                 (insert_subscriber ?i \<lparr> ac_kind = of_str (assignment_str a), ac_id = x \<rparr> ''assignee'')
           | _ \<Rightarrow> Inr b2) = Inr b'"
    by (auto simp: and_then_Inr split: option.splits)
  let ?w = "(fst (shown b) @ [(?i, Backlog)], snd (shown b))"
  have "shown b1 = put_entry (?i, ''created'', d) ?w"
    using insert_activity_shown [OF a] by (simp add: shown_def new_row_def)
  moreover have "audit_step (shown b) (put_entry (?i, ''created'', d) ?w)"
    by (simp add: shown_def put_entry_def silent_keeps born)
  ultimately have "audit_run (shown b) (shown b1)" by simp
  moreover have "shown b2 = shown b1" using insert_subscriber_shown [OF s] .
  moreover have "audit_run (shown b2) (shown b')"
    using r by (auto simp: and_then_Inr dest!: insert_subscriber_shown run_activity split: option.splits)
  ultimately show ?case by simp
qed

section \<open>Dispatches\<close>

lemma run_rows: "row_step (b_dispatches b) ds \<Longrightarrow> audit_run (shown b) (shown (b\<lparr> b_dispatches := ds \<rparr>))"
  by (auto simp: shown_def intro!: r_into_rtranclp worked)

lemma dispatch_runs: "audit_run (shown b) (shown (fst (try_claim_dispatch now q task i w actor b)))"
proof (cases "has_active_dispatch i b")
  case False
  let ?g = "current_generation i b"
  let ?d = "\<lparr> ds_task = task, ds_issue = i, ds_worker = w, ds_state = DS_Dispatched, ds_at = now,
      ds_completed = None,
    ds_generation = ?g \<rparr>"
  have "audit_run (shown b) (shown b')" if new: "insert_dispatch_locked now q task i w actor ?g b = Inr b'" for b'
  proof -
    from new obtain d where fresh: "\<not> list_ex (\<lambda>d. ds_task d = task) (b_dispatches b)"
      and a: "insert_activity now i actor ''dispatched'' d (b\<lparr> b_dispatches := b_dispatches b
      @ [?d] \<rparr>) = Inr b'"
      by (auto simp: insert_dispatch_locked_def split: if_splits)
    have idle: "\<forall>r \<in> set (b_dispatches b). ds_issue r = i \<longrightarrow> \<not> dispatch_active (ds_state r)"
      using False by (auto simp: has_active_dispatch_def filter_empty_conv)
    have "row_step (b_dispatches b) (b_dispatches b @ [?d])"
      by (rule row_new) (use fresh idle in \<open>auto simp: list_ex_iff current_generation_def\<close>)
    then show ?thesis using run_rows run_activity [OF a] by fastforce
  qed
  with False show ?thesis by (auto simp: try_claim_dispatch_def Let_def split: sum.splits)
qed (simp add: try_claim_dispatch_def)

lemma finish_runs: "audit_run (shown b) (shown (fst (finish_dispatch now task s b)))"
  by (auto simp: finish_dispatch_def end_rows_def intro!: run_rows row_upd)

lemma mark_runs: "audit_run (shown b) (shown (fst (mark_dispatch_running task w b)))"
  by (auto simp: mark_dispatch_running_def Let_def intro!: run_rows row_upd)

lemma end_logged_runs: "silent action \<Longrightarrow> audit_run (shown b) (shown (fst (end_logged now s P task actor action d b)))"
proof -
  assume a: "silent action"
  obtain won b1 where e: "end_rows now s (\<lambda>d. ds_task d = task \<and> dispatch_active (ds_state d) \<and> P d) b = (won, b1)"
    by fastforce
  then have "audit_run (shown b) (shown b1)" by (auto simp: end_rows_def intro!: run_rows row_upd)
  then show ?thesis
    by (auto simp: end_logged_def e split: bool.splits option.splits sum.splits
        intro: rtranclp_trans dest!: run_activity [OF _ a])
qed

lemmas op_runs = create_runs update_runs transition_runs move_runs rollback_dispatch_runs reopen_runs
  rollback_decision_runs rollback_done_runs bulk_archive_runs set_deps_runs assign_runs claim_runs roll_claim_runs
  comment_runs note_runs subscribe_runs unsubscribe_runs dispatch_runs finish_runs mark_runs

text \<open>Operations of the outside: notes in the log use other actions than those of the statuses.\<close>

fun foreign_ok :: "board_op \<Rightarrow> bool" where
  "foreign_ok (Note i a action d) = silent action"
| "foreign_ok _ = True"

lemma step_runs: "foreign_ok (snd e) \<Longrightarrow> audit_run (shown b) (shown (board_step uni q b e))"
  by (cases "(uni, q, b, e)" rule: board_step.cases)
    (auto simp: op_runs cancel_dispatch_def fail_dispatch_def fail_dispatch_checked_def fail_dispatch_inner_def
      split: option.splits intro: end_logged_runs)

definition board_ok :: "board \<Rightarrow> bool" where
  "board_ok b \<longleftrightarrow> audit_ok (shown b)"

lemma board_open_ok: "board_ok (board_open pre)"
  by (simp add: board_ok_def audit_ok_def shown_def board_open_def rows_ok_def)

lemma board_step_ok: "foreign_ok (snd e) \<Longrightarrow> board_ok b \<Longrightarrow> board_ok (board_step uni q b e)"
  unfolding board_ok_def by (rule audit_run_ok [OF step_runs])

lemma board_run_ok: "\<forall>e \<in> set ops. foreign_ok (snd e) \<Longrightarrow> board_ok b \<Longrightarrow> board_ok (run_events (board_step uni q) b ops)"
  by (induction ops arbitrary: b) (auto simp: board_step_ok)

lemma board_ok_replay:
  assumes "board_ok b" "r \<in> set (b_issues b)"
  shows "replay (list_activity (is_id r) b) = Some (is_status r)"
proof -
  have "(is_id r, is_status r) \<in> set (fst (shown b))" using assms(2) by (auto simp: shown_def)
  then have "replay_entries (is_id r) (fst (snd (shown b))) = Some (is_status r)"
    using assms(1) by (auto simp: board_ok_def audit_ok_def split: prod.splits)
  then show ?thesis
    by (simp add: replay_entries_def replay_def shown_def list_activity_def filter_map o_def foldl_map)
qed

section \<open>The rows of the dispatches\<close>

lemma audit_run_rows: "audit_run w w' \<Longrightarrow> rows_ok (snd (snd w)) \<Longrightarrow> rows_ok (snd (snd w'))"
proof (induction rule: rtranclp_induct)
  case (step w' w'')
  from step.hyps(2) step.IH step.prems show ?case by cases (auto dest: row_step_ok)
qed

lemma shown_rows [simp]: "snd (snd (shown b)) = b_dispatches b"
  by (simp add: shown_def)

lemma step_cases:
  "audit_run (shown b) (shown (board_step uni q b e)) \<or> b_dispatches (board_step uni q b e) = b_dispatches b"
proof (cases "foreign_ok (snd e)")
  case False
  then obtain now i a action d where "e = (now, Note i a action d)"
    by (cases e rule: prod.exhaust, cases "snd e") auto
  then show ?thesis by (auto simp: add_activity_def commit_def insert_activity_def)
qed (simp add: step_runs)

lemma step_rows_ok: "rows_ok (b_dispatches b) \<Longrightarrow> rows_ok (b_dispatches (board_step uni q b e))"
  using step_cases [of b uni q e] audit_run_rows [of "shown b" "shown (board_step uni q b e)"] by auto

interpretation rows: step_invariant "board_step uni q" "\<lambda>b. rows_ok (b_dispatches b)" for uni q
  by unfold_locales (rule step_rows_ok)

text \<open>A row that has ended stays as it is.\<close>

definition ended_rows :: "dispatch list \<Rightarrow> dispatch set" where
  "ended_rows ds = {d \<in> set ds. \<not> dispatch_active (ds_state d)}"

lemma row_step_ended: "row_step ds ds' \<Longrightarrow> ended_rows ds \<subseteq> ended_rows ds'"
proof (induction rule: row_step.induct)
  case (row_upd f ds)
  then have "f d = d" if "\<not> dispatch_active (ds_state d)" for d using that by (simp add: touches_active_def)
  then show ?case by (force simp: ended_rows_def)
qed (auto simp: ended_rows_def)

lemma audit_run_ended: "audit_run w w' \<Longrightarrow> ended_rows (snd (snd w)) \<subseteq> ended_rows (snd (snd w'))"
proof (induction rule: rtranclp_induct)
  case (step w' w'')
  from step.hyps(2) have "ended_rows (snd (snd w')) \<subseteq> ended_rows (snd (snd w''))"
    by cases (auto dest: row_step_ended)
  with step.IH show ?case by blast
qed simp

lemma step_ended: "ended_rows (b_dispatches b) \<subseteq> ended_rows (b_dispatches (board_step uni q b e))"
  using step_cases [of b uni q e] audit_run_ended [of "shown b" "shown (board_step uni q b e)"] by auto

lemma run_ended: "ended_rows (b_dispatches b) \<subseteq> ended_rows (b_dispatches (run_events (board_step uni q) b ops))"
proof (induction ops arbitrary: b)
  case (Cons e ops)
  then show ?case using step_ended [of b uni q e] by fastforce
qed simp

text \<open>Which operations answer that they ended a task.\<close>

fun won_row :: "store_error + dispatch option \<Rightarrow> bool" where
  "won_row (Inr (Some r)) = True"
| "won_row _ = False"

fun ends_task :: "unicode \<Rightarrow> (utext \<Rightarrow> utext) \<Rightarrow> utext \<Rightarrow> board \<Rightarrow> int \<times> board_op \<Rightarrow> bool" where
  "ends_task uni q task b (now, Finish t s) \<longleftrightarrow> t = task \<and> snd (finish_dispatch now t s b) = Inr True"
| "ends_task uni q task b (now, Cancel_Dispatch t a) \<longleftrightarrow> t = task \<and> won_row (snd (cancel_dispatch now q t a b))"
| "ends_task uni q task b (now, Fail_Dispatch t d g) \<longleftrightarrow> t = task \<and>
     won_row (snd (fail_dispatch_inner now q t d g b))"
| "ends_task uni q task b _ \<longleftrightarrow> False"

fun task_ends :: "unicode \<Rightarrow> (utext \<Rightarrow> utext) \<Rightarrow> utext \<Rightarrow> board \<Rightarrow> (int \<times> board_op) list \<Rightarrow> nat" where
  "task_ends uni q task b [] = 0"
| "task_ends uni q task b (e # es) =
     (if ends_task uni q task b e then 1 else 0) + task_ends uni q task (board_step uni q b e) es"

definition task_over :: "utext \<Rightarrow> dispatch list \<Rightarrow> bool" where
  "task_over task ds \<longleftrightarrow> (\<exists>d \<in> ended_rows ds. ds_task d = task)"

lemma over_not_active:
  "rows_ok ds \<Longrightarrow> task_over task ds \<Longrightarrow> d \<in> set ds \<Longrightarrow> ds_task d = task \<Longrightarrow> \<not> dispatch_active (ds_state d)"
  by (auto simp: task_over_def ended_rows_def rows_ok_def distinct_map inj_on_def)

lemma won_row_iff: "won_row x \<longleftrightarrow> (\<exists>r. x = Inr (Some r))"
  by (cases x rule: won_row.cases) auto

text \<open>An update that ends the active row of a task.\<close>

definition ends_row :: "utext \<Rightarrow> dispatch list \<Rightarrow> dispatch list \<Rightarrow> bool" where
  "ends_row task ds ds' \<longleftrightarrow> (\<exists>x \<in> set ds. \<exists>y \<in> set ds'. ds_task x = task \<and> dispatch_active (ds_state x) \<and>
     ds_task y = task \<and> \<not> dispatch_active (ds_state y))"

lemma ends_row_map:
  "s \<notin> {DS_Dispatched, DS_Running} \<Longrightarrow> list_ex (\<lambda>x. ds_task x = task \<and> dispatch_active (ds_state x) \<and> P x) ds \<Longrightarrow>
   ends_row task ds (map (\<lambda>x. if ds_task x = task \<and> dispatch_active (ds_state x) \<and> P x
        then x\<lparr> ds_state := s, ds_completed := Some now \<rparr> else x) ds)"
proof -
  let ?f = "\<lambda>x. if ds_task x = task \<and> dispatch_active (ds_state x) \<and> P x
        then x\<lparr> ds_state := s, ds_completed := Some now \<rparr> else x"
  assume s: "s \<notin> {DS_Dispatched, DS_Running}"
    and "list_ex (\<lambda>x. ds_task x = task \<and> dispatch_active (ds_state x) \<and> P x) ds"
  then obtain x where x: "x \<in> set ds" "ds_task x = task" "dispatch_active (ds_state x)" "P x"
    by (auto simp: list_ex_iff)
  then have "?f x \<in> set (map ?f ds)" "ds_task (?f x) = task" "\<not> dispatch_active (ds_state (?f x))"
    using s by (simp_all add: dispatch_active_def)
  with x show ?thesis unfolding ends_row_def by blast
qed

lemma end_logged_won:
  "won_row (snd (end_logged now s P task actor action d b)) \<Longrightarrow> s \<notin> {DS_Dispatched,
      DS_Running} \<Longrightarrow>
   ends_row task (b_dispatches b) (b_dispatches (fst (end_logged now s P task actor action d b)))"
  by (auto simp: won_row_iff end_logged_def end_rows_def insert_activity_def ends_row_map
      split: bool.splits option.splits sum.splits if_splits)

lemma finish_won:
  "snd (finish_dispatch now task s b) = Inr True \<Longrightarrow>
   ends_row task (b_dispatches b) (b_dispatches (fst (finish_dispatch now task s b)))"
  using ends_row_map [of s task "\<lambda>_. True" "b_dispatches b" now]
  by (auto simp: finish_dispatch_def end_rows_def split: if_splits)

lemma ends_task_row:
  assumes "ends_task uni q task b e"
  shows "ends_row task (b_dispatches b) (b_dispatches (board_step uni q b e))"
  using assms
  by (cases "(uni, q, task, b, e)" rule: ends_task.cases)
    (auto simp: finish_won cancel_dispatch_def fail_dispatch_inner_def fail_dispatch_def fail_dispatch_checked_def
      end_logged_won split: option.splits)

lemma over_no_end: "rows_ok (b_dispatches b) \<Longrightarrow> task_over task (b_dispatches b) \<Longrightarrow> \<not> ends_task uni q task b e"
  using ends_task_row [of uni q task b e] over_not_active by (auto simp: ends_row_def)

lemma end_over: "ends_task uni q task b e \<Longrightarrow> task_over task (b_dispatches (board_step uni q b e))"
  using ends_task_row [of uni q task b e] by (auto simp: ends_row_def task_over_def ended_rows_def)

lemma over_stays: "task_over task (b_dispatches b) \<Longrightarrow> task_over task (b_dispatches (board_step uni q b e))"
  using step_ended [of b uni q e] by (auto simp: task_over_def)

lemma over_no_ends: "rows_ok (b_dispatches b) \<Longrightarrow> task_over task (b_dispatches b) \<Longrightarrow> task_ends uni q task b ops = 0"
  by (induction ops arbitrary: b) (simp_all add: over_no_end over_stays step_rows_ok)

lemma ends_at_most_once: "rows_ok (b_dispatches b) \<Longrightarrow> task_ends uni q task b ops \<le> 1"
proof (induction ops arbitrary: b)
  case (Cons e ops)
  then show ?case
    by (cases "ends_task uni q task b e") (simp_all add: over_no_ends end_over step_rows_ok)
qed simp

section \<open>Properties\<close>

lemma find_conj: "find (\<lambda>x. P x \<and> Q x) xs = find Q (filter P xs)"
  by (induction xs) auto

lemma no_rows [simp]: "rows_ok (b_dispatches (board_open pre))"
  by (simp add: rows_ok_def board_open_def)

text \<open>
  C19. The log explains the status: after any sequence of operations of the board, whoever replays the log of an issue
  from the backlog, accepting only what the state machine allows and the three rollbacks, arrives at the status of the
  issue; ids are unique and every entry belongs to an issue. (Notes that others write use actions of their own.)
\<close>

theorem log_explains_status:
  assumes "\<forall>e \<in> set ops. foreign_ok (snd e)"
  shows "let b = board_run uni q pre ops in
    (\<forall>r \<in> set (b_issues b). replay (list_activity (is_id r) b) = Some (is_status r)) \<and>
    map is_id (b_issues b) = map (\<lambda>k. int k + 1) [0..<length (b_issues b)] \<and>
    (\<forall>a \<in> set (b_activity b). has_issue (av_issue a) b)"
proof -
  have ok: "board_ok (board_run uni q pre ops)"
    unfolding board_run_def by (rule board_run_ok [OF assms board_open_ok])
  then have "map is_id (b_issues b) = map (\<lambda>k. int k + 1) [0..<length (b_issues b)]"
    "\<forall>a \<in> set (b_activity b). has_issue (av_issue a) b" if "b = board_run uni q pre ops" for b
    using that by (auto simp: board_ok_def audit_ok_def shown_def o_def has_issue_def list_ex_iff image_image) force
  then show ?thesis using board_ok_replay [OF ok] by (simp add: Let_def)
qed

definition plain_unicode :: unicode where
  "plain_unicode = \<lparr> uni_lower = (\<lambda>s. s),
      uni_alnum = (\<lambda>c. 48 \<le> c \<and> c \<le> 57 \<or> 97 \<le> c \<and> c \<le> 122) \<rparr>"

definition sample_issue :: new_issue where
  "sample_issue = \<lparr> ni_title = of_str ''fix it'', ni_description = [], ni_priority = 1, ni_assignee = None,
     ni_assignee_id = None, ni_creator = system_actor ''cli'', ni_parent = None, ni_project = None, ni_due = None,
     ni_criteria = Some (of_str ''done''), ni_origin = None, ni_role = None, ni_tags = [], ni_profession = None,
     ni_capabilities = [], ni_backend = None \<rparr>"

definition sample_ops :: "(int \<times> board_op) list" where
  "sample_ops = [(1, Create sample_issue), (2, Transition 1 Done (system_actor ''cli'')),
     (3, Note 1 (system_actor ''review'') ''auto_decide'' None), (4, Roll_Decision 3)]"

lemma sample_ops_foreign: "\<forall>e \<in> set sample_ops. foreign_ok (snd e)"
  by (simp add: sample_ops_def silent_def)

theorem log_explains_status_witness:
  "let b = board_run plain_unicode (\<lambda>s. s) [] sample_ops in
     list_all (\<lambda>r. replay (list_activity (is_id r) b) = Some (is_status r)) (b_issues b) \<and>
     map is_status (b_issues b) = [In_Review]"
proof -
  have "map is_status (b_issues (board_run plain_unicode (\<lambda>s. s) [] sample_ops)) = [In_Review]"
    by code_simp
  then show ?thesis
    using log_explains_status [OF sample_ops_foreign,
      of plain_unicode "\<lambda>s. s" "[]"] by (simp add: Let_def list_all_iff)
qed

text \<open>
  C20. One dispatch at a time: after any sequence of operations a task occurs in one row, the rows of an issue are
  numbered 0, 1, 2, ... in the order they were made, only the newest can be active, and the query for the active one
  finds it.
\<close>

theorem one_active_dispatch:
  "let b = board_run uni q pre ops; rs = list_dispatches i b in
     distinct (map ds_task (b_dispatches b)) \<and> map ds_generation rs = map int [0..<length rs] \<and>
     list_all (\<lambda>d. \<not> dispatch_active (ds_state d)) (butlast rs) \<and>
     get_active_dispatch i b = (if rs = [] then None
       else if dispatch_active (ds_state (last rs)) then Some (last rs) else None)"
proof -
  define b where "b = board_run uni q pre ops"
  define rs where "rs = list_dispatches i b"
  have "rows_ok (b_dispatches b)" unfolding b_def board_run_def by (rule rows.run_keeps) simp
  then have ok: "distinct (map ds_task (b_dispatches b))" "map ds_generation rs = map int [0..<length rs]"
    "\<forall>d \<in> set (butlast rs). \<not> dispatch_active (ds_state d)"
    by (simp_all add: rows_ok_def rs_def list_dispatches_def Let_def)
  have "get_active_dispatch i b = find (\<lambda>d. dispatch_active (ds_state d)) (rev rs)"
    by (simp add: get_active_dispatch_def rs_def list_dispatches_def find_conj rev_filter)
  also have "\<dots> = (if rs = [] then None
       else if dispatch_active (ds_state (last rs)) then Some (last rs) else None)"
    using ok(3) by (cases rs rule: rev_cases) (auto simp: find_None_iff)
  finally show ?thesis using ok by (simp add: Let_def b_def rs_def list_all_iff)
qed

text \<open>
  C21. A task ends once: whichever of finishing, cancelling and the time-out reach the board, in any order and any
  number, at most one of them is told that it ended the task; and a row that has ended never changes again.
\<close>

theorem task_ends_once:
  "task_ends uni q task (board_open pre) ops \<le> 1 \<and>
   ended_rows (b_dispatches (board_run uni q pre ops)) \<subseteq> ended_rows (b_dispatches (board_run uni q pre (ops @ ops')))"
  using ends_at_most_once [of "board_open pre" uni q task ops]
    run_ended [of "run_events (board_step uni q) (board_open pre) ops" uni q ops']
  by (simp add: board_run_def run_events_append)

end
