(* ===== verification/Board_Audit.thy ===== *)
theory Board_Audit
  imports Board_History Profession
begin

text \<open>
  The memory of decisions that were rolled back (\<open>list_rollback_precedents\<close> of \<open>crates/nemesis-board/src/store.rs\<close>),
  and observations on the operations of the board's database.
\<close>

section \<open>Precedents\<close>

text \<open>A pattern of \<open>LIKE\<close> that ends with a per cent sign: \<open>_\<close> is any character,
      ASCII case does not matter.\<close>

fun like_front :: "utext \<Rightarrow> utext \<Rightarrow> bool" where
  "like_front [] t = True"
| "like_front (p # ps) [] = False"
| "like_front (p # ps) (c # cs) \<longleftrightarrow> (p = 95 \<or> ascii_lower_code p = ascii_lower_code c) \<and> like_front ps cs"

record precedent =
  pc_activity :: int
  pc_number :: utext
  pc_title :: utext
  pc_decision :: utext
  pc_reason :: utext

text \<open>\<open>str::parse\<close> of an \<open>i64\<close>.\<close>

definition parse_i64 :: "utext \<Rightarrow> int option" where
  "parse_i64 t =
     (let (neg, d) = (case t of c # r \<Rightarrow> if c = 45 then (True, r) else if c = 43 then (False,
      r) else (False, t)
        | [] \<Rightarrow> (False, []));
          n = foldl (\<lambda>n c. n * 10 + (int c - 48)) 0 d;
          v = (if neg then - n else n) in
      if d \<noteq> [] \<and> list_all (\<lambda>c. 48 \<le> c \<and> c \<le> 57) d \<and> - (2 ^ 63) \<le> v \<and> v < 2 ^ 63 then Some v else None)"

definition text_or_empty :: "utext option \<Rightarrow> utext" where
  "text_or_empty d = (case d of Some t \<Rightarrow> t | None \<Rightarrow> [])"

definition decision_details :: "board \<Rightarrow> int \<Rightarrow> utext" where
  "decision_details b i =
     (case find (\<lambda>v. av_id v = i \<and> av_action v = ''auto_decide'') (b_activity b) of
        Some v \<Rightarrow> text_or_empty (av_details v) | None \<Rightarrow> [])"

definition decision_and_reason :: "board \<Rightarrow> utext \<Rightarrow> utext \<times> utext" where
  "decision_and_reason b details =
     (case after (of_str ''audit_rollback:'') details of
        Some rest \<Rightarrow>
          (case Option.bind (after (of_str ''activity_id='') rest) parse_i64 of
             Some i \<Rightarrow> decision_details b i | None \<Rightarrow> [], [])
      | None \<Rightarrow> ((of_str ''done'' @ [65288, 33258, 21160, 25910, 36135, 65289]),
      text_or_empty (after done_rollback_key details)))"

definition precedent_of :: "board \<Rightarrow> activity \<Rightarrow> precedent option" where
  "precedent_of b v =
     (if av_action v = ''status_changed'' \<and> (case av_details v of None \<Rightarrow> False | Some d \<Rightarrow>
         like_front (of_str ''audit_rollback:'') d \<or> like_front (of_str ''done_rollback:'') d)
      then map_option (\<lambda>r. let (decision, reason) = decision_and_reason b (text_or_empty (av_details v)) in
        \<lparr> pc_activity = av_id v, pc_number = is_number r, pc_title = is_title r, pc_decision = decision,
          pc_reason = reason \<rparr>) (find_issue (av_issue v) b)
      else None)"

definition list_rollback_precedents :: "nat \<Rightarrow> board \<Rightarrow> precedent list" where
  "list_rollback_precedents limit b = take limit (List.map_filter (precedent_of b) (rev (b_activity b)))"

text \<open>
  The entry a rollback of a decision leaves names the status before the id, and the reader looks for the id right
  after the prefix: the decision is never found, whatever the board.
\<close>

lemma rolled_back_decision_forgotten:
  "decision_and_reason b (audit_rollback_key @ int_text v) = ([], [])"
  by (simp add: decision_and_reason_def audit_rollback_key_def after_def text_starts_with_def of_str_def)

definition decided_ops :: "(int \<times> board_op) list" where
  "decided_ops = [(1, Create sample_issue), (2, Transition 1 Done (system_actor ''cli'')),
     (3, Note 1 (system_actor ''review'') ''auto_decide'' (Some (of_str ''accept''))), (4, Roll_Decision 3)]"

lemma precedent_without_decision:
  "map pc_decision (list_rollback_precedents 5 (board_run plain_unicode (\<lambda>s. s) [] decided_ops)) = [[]]"
  by code_simp

text \<open>The reason of the other rollback is found again.\<close>

lemma done_rollback_reason:
  "decision_and_reason b (done_rollback_key @ reason) = ((of_str ''done'' @ [65288, 33258, 21160, 25910, 36135,
      65289]), reason)"
  by (simp add: decision_and_reason_def done_rollback_key_def after_def text_starts_with_def of_str_def
      text_or_empty_def)

section \<open>Observations\<close>

text \<open>
  Changing the status directly brings a hidden issue back without showing it,
      and then \<open>reopen\<close> refuses it.
\<close>

definition revive_ops :: "(int \<times> board_op) list" where
  "revive_ops = [(1, Create sample_issue), (2, Transition 1 Cancelled (system_actor ''cli'')),
     (3, Archive [1] (system_actor ''cli'')), (4, Transition 1 Backlog (system_actor ''cli''))]"

lemma transition_revives_hidden:
  "map (\<lambda>r. (is_status r, is_hidden r)) (b_issues (board_run plain_unicode (\<lambda>s. s) [] revive_ops)) = [(Backlog, True)]"
  "snd (reopen_issue 5 1 (system_actor ''cli'') (board_run plain_unicode (\<lambda>s. s) [] revive_ops))
     = Inl (Not_Cancelled [45, 49] Backlog)"
  by code_simp+

text \<open>A chain of parents, the issue with id 1 on top.\<close>

definition chain_row :: "nat \<Rightarrow> issue" where
  "chain_row k = (new_row 0 plain_unicode sample_issue (int k) [] 0)
     \<lparr> is_parent := (if k = 1 then None else Some (int k - 1)) \<rparr>"

definition chain_board :: "nat \<Rightarrow> board" where
  "chain_board n = (board_open [])\<lparr> b_issues := map chain_row [1..<Suc n] \<rparr>"

definition new_parent :: "int \<Rightarrow> issue_patch" where
  "new_parent p = \<lparr> pt_title = None, pt_description = None, pt_priority = None, pt_project = None,
      pt_due = None,
     pt_position = None, pt_criteria = None, pt_parent = Some p \<rparr>"

definition parent_after :: "nat \<Rightarrow> int option" where
  "parent_after n = Option.bind
     (find_issue 1 (fst (update_issue 0 1 (new_parent (int n)) (system_actor ''cli'') (chain_board n)))) is_parent"

lemma long_cycle_accepted: "parent_after 65 = None" "parent_after 66 = Some 66"
  by code_simp+

end
