(* ===== verification/Board_Tree.thy ===== *)
theory Board_Tree
  imports Board_History
begin

text \<open>
  The issues of the board as a graph: everything below an issue (\<open>BoardStore::descendants\<close> of
  \<open>crates/nemesis-board/src/store.rs\<close>),
      the gate in front of the review of a parent (\<open>finish.rs\<close>), the parent that
  follows its children and the cascade of a cancellation (\<open>sync_parent_status\<close>,
      \<open>cascade_cancel_dependents\<close> of
  \<open>crates/nemesis-web/src/handlers/board/cascade.rs\<close>). Errors of the database and warnings are left out; what is
  handed to other parts (the review hook, the message that cancels a task) is returned.
\<close>

section \<open>Descendants\<close>

datatype descendant_edges = Subtree | Cascade_Union

definition next_ids :: "descendant_edges \<Rightarrow> board \<Rightarrow> int \<Rightarrow> int list" where
  "next_ids ed b c = (if ed = Cascade_Union then dependents_of c b else []) @ map is_id (list_children c b)"

fun note_ids :: "board \<Rightarrow> int list \<Rightarrow> int list \<Rightarrow> int list \<Rightarrow> issue list \<Rightarrow> int list \<times> int list \<times> issue list" where
  "note_ids b [] seen queue out = (seen, queue, out)"
| "note_ids b (i # is) seen queue out =
     (if i \<in> set seen then note_ids b is seen queue out
      else case get_issue i b of
        Inr r \<Rightarrow> note_ids b is (i # seen) (queue @ [i]) (out @ [r])
      | Inl _ \<Rightarrow> note_ids b is (i # seen) queue out)"

definition row_ids :: "board \<Rightarrow> int set" where
  "row_ids b = is_id ` set (b_issues b)"

lemma get_issue_id: "get_issue i b = Inr r \<Longrightarrow> is_id r = i \<and> i \<in> row_ids b"
  by (auto simp: get_issue_def find_issue_def find_Some_iff row_ids_def split: option.splits)

lemma get_issue_ex: "(\<exists>r. get_issue i b = Inr r) \<longleftrightarrow> i \<in> row_ids b"
  by (auto simp: get_issue_def find_issue_def find_Some_iff find_None_iff row_ids_def split: option.splits)

text \<open>Every id that is noted for the first time and has a row is queued; a round without one shortens the queue.\<close>

lemma note_ids_queue:
  "note_ids b is seen queue out = (seen', queue', out') \<Longrightarrow>
     set seen' = set seen \<union> set is \<and>
     (\<exists>new. queue' = queue @ new \<and> map is_id out' = map is_id out @ new \<and> distinct new \<and>
        set new = {i \<in> set is. i \<notin> set seen \<and> i \<in> row_ids b})"
proof (induction b "is" seen queue out rule: note_ids.induct)
  case (2 b i "is" seen queue out)
  consider "i \<in> set seen" | r where "i \<notin> set seen" "get_issue i b = Inr r"
    | e where "i \<notin> set seen" "get_issue i b = Inl e"
    by (cases "get_issue i b") auto
  then show ?case
  proof cases
    case 1
    with 2(1,4) show ?thesis by auto
  next
    case (2 r)
    with "2.prems" obtain new where n: "queue' = (queue @ [i]) @ new" "map is_id out' = map is_id (out @ [r])
      @ new" "distinct new"
      "set new = {j \<in> set is. j \<notin> set (i # seen) \<and> j \<in> row_ids b}" "set seen' = set (i # seen) \<union> set is"
      using "2.IH"(3) by fastforce
    have "is_id r = i" "i \<in> row_ids b" using get_issue_id [OF 2(2)] by auto
    with n 2(1) show ?thesis by (intro conjI exI [of _ "i # new"]) auto
  next
    case (3 e)
    then have "i \<notin> row_ids b" using get_issue_ex [of i b] by auto
    with 3 "2.prems" "2.IH"(2) show ?thesis by fastforce
  qed
qed simp

function bfs :: "descendant_edges \<Rightarrow> board \<Rightarrow> int list \<Rightarrow> int list \<Rightarrow> issue list \<Rightarrow> issue list" where
  "bfs ed b seen [] out = out"
| "bfs ed b seen (c # queue) out =
     (case note_ids b (next_ids ed b c) seen queue out of (seen', queue',
      out') \<Rightarrow> bfs ed b seen' queue' out')"
  by pat_completeness auto
termination
proof (relation "measures [\<lambda>(ed, b, seen, queue, out). card (row_ids b - set seen),
    \<lambda>(ed, b, seen, queue, out). length queue]", goal_cases)
  case (2 ed b seen c queue out seen' y queue' out')
  then obtain new where n: "set seen' = set seen \<union> set (next_ids ed b c)" "queue' = queue @ new"
    "set new = {i \<in> set (next_ids ed b c). i \<notin> set seen \<and> i \<in> row_ids b}"
    using note_ids_queue [of b "next_ids ed b c" seen queue out seen' queue' out'] by auto
  have fin: "finite (row_ids b)" by (simp add: row_ids_def)
  show ?case
  proof (cases "new = []")
    case True
    with n have "row_ids b - set seen' = row_ids b - set seen" by auto
    with True n show ?thesis by simp
  next
    case False
    with n obtain i where "i \<in> row_ids b - set seen" "i \<in> set seen'" by (cases new) auto
    then have "row_ids b - set seen' \<subset> row_ids b - set seen" using n(1) by auto
    then have "card (row_ids b - set seen') < card (row_ids b - set seen)"
      by (simp add: psubset_card_mono fin)
    then show ?thesis by simp
  qed
qed simp

definition descendants :: "int list \<Rightarrow> descendant_edges \<Rightarrow> board \<Rightarrow> issue list" where
  "descendants roots ed b = bfs ed b roots roots []"

text \<open>The edges the search follows: an issue that hangs on another and has a row.\<close>

definition edge :: "descendant_edges \<Rightarrow> board \<Rightarrow> int \<Rightarrow> int \<Rightarrow> bool" where
  "edge ed b c i \<longleftrightarrow> i \<in> set (next_ids ed b c) \<and> i \<in> row_ids b"

definition below :: "descendant_edges \<Rightarrow> board \<Rightarrow> int set \<Rightarrow> int set" where
  "below ed b roots = {i. \<exists>r \<in> roots. (edge ed b)\<^sup>*\<^sup>* r i}"

definition bfs_ok :: "descendant_edges \<Rightarrow> board \<Rightarrow> int set \<Rightarrow> int list \<Rightarrow> int list \<Rightarrow> issue list \<Rightarrow> bool" where
  "bfs_ok ed b roots seen queue out \<longleftrightarrow> roots \<subseteq> set seen \<and> distinct (map is_id out) \<and>
     set (map is_id out) = {i \<in> set seen. i \<in> row_ids b \<and> i \<notin> roots} \<and>
     set queue \<subseteq> roots \<union> set (map is_id out) \<and> roots \<union> set (map is_id out) \<subseteq> below ed b roots \<and>
     (\<forall>c \<in> roots \<union> set (map is_id out). c \<notin> set queue \<longrightarrow> set (next_ids ed b c) \<subseteq> set seen)"

lemma bfs_step_ok:
  assumes ok: "bfs_ok ed b roots seen (c # queue) out"
    and n: "note_ids b (next_ids ed b c) seen queue out = (seen', queue', out')"
  shows "bfs_ok ed b roots seen' queue' out'"
proof -
  obtain new where new: "set seen' = set seen \<union> set (next_ids ed b c)" "queue' = queue @ new"
    "map is_id out' = map is_id out @ new" "distinct new"
    "set new = {i \<in> set (next_ids ed b c). i \<notin> set seen \<and> i \<in> row_ids b}"
    using note_ids_queue [OF n] by auto
  have c: "c \<in> below ed b roots" using ok by (auto simp: bfs_ok_def)
  have "set new \<subseteq> below ed b roots"
  proof
    fix i assume "i \<in> set new"
    then have "edge ed b c i" using new(5) by (auto simp: edge_def)
    with c show "i \<in> below ed b roots" by (auto simp: below_def intro: rtranclp.rtrancl_into_rtrancl)
  qed
  let ?o = "set (map is_id out)" and ?o' = "set (map is_id out')"
  have o': "?o' = ?o \<union> set new" using new(3) by (metis set_append)
  have o: "?o = {i \<in> set seen. i \<in> row_ids b \<and> i \<notin> roots}" "roots \<subseteq> set seen" "distinct (map is_id out)"
    "set (c # queue) \<subseteq> roots \<union> ?o" "roots \<union> ?o \<subseteq> below ed b roots"
    and closed: "\<And>d. d \<in> roots \<union> ?o \<Longrightarrow> d \<notin> set (c # queue) \<Longrightarrow> set (next_ids ed b d) \<subseteq> set seen"
    using ok unfolding bfs_ok_def by auto
  have nr: "set new \<inter> roots = {}" using new(5) o(2) by blast
  have "?o' = {i \<in> set seen'. i \<in> row_ids b \<and> i \<notin> roots}"
    unfolding o' o(1) new(1) using new(5) nr by blast
  moreover have "distinct (map is_id out')" using new(3,4,5) o(1,3) by auto
  moreover have "set (next_ids ed b d) \<subseteq> set seen'" if "d \<in> roots \<union> ?o'" "d \<notin> set queue'" for d
  proof (cases "d = c")
    case False
    with that o' new(2) have "d \<in> roots \<union> ?o" "d \<notin> set (c # queue)" by auto
    then show ?thesis using closed new(1) by blast
  qed (use new(1) in simp)
  moreover have "set queue' \<subseteq> roots \<union> ?o'" using new(2) o(4) o' by auto
  moreover have "roots \<union> ?o' \<subseteq> below ed b roots" using o(5) o' \<open>set new \<subseteq> below ed b roots\<close> by blast
  moreover have "roots \<subseteq> set seen'" using o(2) new(1) by blast
  ultimately show ?thesis unfolding bfs_ok_def by blast
qed

lemma bfs_result_ok: "bfs_ok ed b roots seen queue out \<Longrightarrow>
    \<exists>seen'. bfs_ok ed b roots seen' [] (bfs ed b seen queue out)"
proof (induction ed b seen queue out rule: bfs.induct)
  case (2 ed b seen c queue out)
  obtain seen' queue' out' where n: "note_ids b (next_ids ed b c) seen queue out = (seen', queue', out')"
    by (cases "note_ids b (next_ids ed b c) seen queue out") auto
  with 2 bfs_step_ok [OF "2.prems" n] show ?case by simp
qed auto

lemma bfs_ok_end:
  assumes "bfs_ok ed b roots seen [] out"
  shows "set (map is_id out) = {i \<in> below ed b roots. i \<in> row_ids b \<and> i \<notin> roots}"
proof -
  have "i \<in> roots \<union> set (map is_id out)" if "(edge ed b)\<^sup>*\<^sup>* r i" "r \<in> roots" for r i
    using that
  proof (induction rule: rtranclp_induct)
    case (step c i)
    then have "i \<in> set seen" "i \<in> row_ids b"
      using assms by (auto simp: bfs_ok_def edge_def)
    with assms show ?case by (auto simp: bfs_ok_def)
  qed simp
  then have "below ed b roots \<subseteq> roots \<union> set (map is_id out)" by (auto simp: below_def)
  with assms show ?thesis by (auto simp: bfs_ok_def)
qed

lemma descendants_ids:
  "distinct (map is_id (descendants roots ed b)) \<and>
   set (map is_id (descendants roots ed b)) = {i \<in> below ed b (set roots). i \<in> row_ids b \<and> i \<notin> set roots}"
proof -
  have "bfs_ok ed b (set roots) roots roots []" by (auto simp: bfs_ok_def below_def)
  then obtain seen where "bfs_ok ed b (set roots) seen [] (descendants roots ed b)"
    using bfs_result_ok unfolding descendants_def by blast
  from bfs_ok_end [OF this] this show ?thesis by (simp add: bfs_ok_def)
qed

lemma note_ids_rows:
  "\<forall>r \<in> set out. get_issue (is_id r) b = Inr r \<Longrightarrow> note_ids b is seen queue out = (seen',
      queue', out') \<Longrightarrow>
     \<forall>r \<in> set out'. get_issue (is_id r) b = Inr r"
proof (induction b "is" seen queue out rule: note_ids.induct)
  case (2 b i "is" seen queue out)
  then show ?case by (auto split: if_splits sum.splits dest: get_issue_id)
qed simp

lemma bfs_rows: "\<forall>r \<in> set out. get_issue (is_id r) b = Inr r \<Longrightarrow>
    \<forall>r \<in> set (bfs ed b seen queue out). get_issue (is_id r) b = Inr r"
proof (induction ed b seen queue out rule: bfs.induct)
  case (2 ed b seen c queue out)
  obtain seen' queue' out' where n: "note_ids b (next_ids ed b c) seen queue out = (seen', queue', out')"
    by (cases "note_ids b (next_ids ed b c) seen queue out") auto
  with 2 note_ids_rows [OF "2.prems" n] show ?case by simp
qed auto

lemma descendants_rows: "r \<in> set (descendants roots ed b) \<Longrightarrow> get_issue (is_id r) b = Inr r"
  using bfs_rows [of "[]" b ed roots roots] by (simp add: descendants_def)

end
