(* ===== verification/Board_Cascade.thy ===== *)
theory Board_Cascade
  imports Board_Tree
begin

text \<open>
  What follows when an issue settles: the gate in front of the review of a parent
  (\<open>crates/nemesis-board/src/finish.rs\<close>),
      the parent that follows its children and the cascade of a cancellation
  (\<open>crates/nemesis-web/src/handlers/board/cascade.rs\<close>). The calls on the database are made one after the other;
  what is handed to other parts (the hook that starts a review, the message that cancels a task) is returned.
\<close>

section \<open>The gate of a parent\<close>

fun dispatch_state_str :: "dispatch_state \<Rightarrow> string" where
  "dispatch_state_str DS_Dispatched = ''dispatched''"
| "dispatch_state_str DS_Running = ''running''"
| "dispatch_state_str DS_Done = ''done''"
| "dispatch_state_str DS_Failed = ''failed''"
| "dispatch_state_str DS_Cancelled = ''cancelled''"

fun join_with :: "utext \<Rightarrow> utext list \<Rightarrow> utext" where
  "join_with sep [] = []"
| "join_with sep [t] = t"
| "join_with sep (t # ts) = t @ sep @ join_with sep ts"

definition fmt_issue :: "issue \<Rightarrow> utext" where
  "fmt_issue r = is_number r @ ([65288]) @ status_text (is_status r) @ ([65289])"

definition fmt_nums :: "issue list \<Rightarrow> utext" where
  "fmt_nums rs = join_with ([12289]) (map fmt_issue rs)"

definition has_fail_class :: "board \<Rightarrow> issue \<Rightarrow> bool" where
  "has_fail_class b r \<longleftrightarrow> list_ex (\<lambda>c. list_ex (\<lambda>l. text_starts_with (text_trim l) (of_str ''fail_class: '')) (text_lines (cm_content c)))
     (list_comments (is_id r) b)"

definition closure_gaps :: "board \<Rightarrow> issue list \<Rightarrow> utext list" where
  "closure_gaps b subtree =
     (let open_ones = filter (\<lambda>c. \<not> status_terminal (is_status c)) subtree;
          unwrapped = filter (\<lambda>c. \<not> has_fail_class b c) open_ones in
      (if open_ones = [] then [] else [([9312] @ of_str '' '' @ [23376, 26641, 23384, 22312, 26410, 32456, 24577,
      21333, 25454, 65306]) @ fmt_nums open_ones]) @
      (if unwrapped = [] then []
       else [([9313] @ of_str '' '' @ [23376, 26641, 23384, 22312, 26410, 25910, 23614, 22833, 36133, 21333, 65288,
      26080] @ of_str '' cancelled '' @ [32456, 24577, 20063, 26080] @ of_str '' fail_class '' @ [26631, 35760,
      65289, 65306]) @ fmt_nums unwrapped]))"

definition unknowns_of :: "utext \<Rightarrow> utext list" where
  "unknowns_of content = filter (\<lambda>s. s \<noteq> [])
     (map text_trim (List.map_filter (\<lambda>l. after (of_str ''unknown: '') (text_trim l)) (text_lines content)))"

fun pending_batches :: "comment list \<Rightarrow> utext list" where
  "pending_batches [] = []"
| "pending_batches (c # cs) =
     (let us = unknowns_of (cm_content c) in
      if ac_kind (cm_author c) = of_str ''system'' \<and> us \<noteq> []
         \<and> \<not> list_ex (\<lambda>d. ac_kind (cm_author d) = of_str ''admin'') cs
      then join_with ([65307]) us # pending_batches cs else pending_batches cs)"

definition evaluate_parent_entry_finish :: "board \<Rightarrow> issue list \<Rightarrow> utext list" where
  "evaluate_parent_entry_finish b subtree =
     (let inflight = List.map_filter (\<lambda>c. map_option (\<lambda>d. is_number c @ ([65288]
      @ of_str ''task '') @ ds_task d @ (of_str '' '')
            @ of_str (dispatch_state_str (ds_state d)) @ ([65289])) (get_active_dispatch (is_id c) b)) subtree;
          pending = List.map_filter (\<lambda>c. let ps = pending_batches (list_comments (is_id c) b) in
            if ps = [] then None else Some (is_number c @ ([65306]) @ join_with ([65307]) ps)) subtree;
          cancelled = filter (\<lambda>c. is_status c = Cancelled) subtree in
      (if inflight = [] then [] else [([9314] @ of_str '' '' @ [23376, 26641, 23384, 22312, 27963, 36291, 27966,
      21457, 65288, 31561, 20889, 22238, 25110, 21462, 28040, 21518, 20877, 25910, 21475, 65289, 65306])
      @ join_with ([12289]) inflight]) @
      (if pending = [] then [] else [([9315] @ of_str '' '' @ [23384, 22312, 26410, 35009, 20915]
      @ of_str '' unknown '' @ [28165, 21333, 65288] @ of_str ''admin '' @ [35780, 35770, 22238, 24212, 21363,
      35009, 20915, 65289, 65306]) @ join_with [32, 124, 32] pending]) @
      (if cancelled = [] then [] else [([9316] @ of_str '' '' @ [23376, 26641, 23384, 22312]
      @ of_str '' cancelled '' @ [32570, 21475, 65288, 33539, 22260, 32570, 21475, 38656, 20154, 24037, 35009,
      20915, 65289, 65306]) @ fmt_nums cancelled]))"

definition evaluate_parent_finish :: "board \<Rightarrow> issue list \<Rightarrow> utext list" where
  "evaluate_parent_finish b subtree = closure_gaps b subtree @ evaluate_parent_entry_finish b subtree"

definition board_comment :: "int \<Rightarrow> utext \<Rightarrow> new_comment" where
  "board_comment i content = \<lparr> nc_issue = i, nc_author = system_actor ''board'', nc_content = content,
      nc_parent = None,
     nc_type = C_System \<rparr>"

text \<open>The newest system comment that begins with the mark already says this.\<close>

definition already_said :: "utext \<Rightarrow> utext \<Rightarrow> int \<Rightarrow> board \<Rightarrow> bool" where
  "already_said mark content i b =
     (case find (\<lambda>c. cm_type c = C_System \<and> text_starts_with (cm_content c) mark) (rev (list_comments i b)) of
        Some c \<Rightarrow> cm_content c = content | None \<Rightarrow> False)"

definition finish_gap_prefix :: utext where "finish_gap_prefix = ([9888] @ of_str '' FINISH '' @ [25910, 21475,
      38392, 26410, 28385, 36275, 65306])"

definition write_finish_gap_comment :: "int \<Rightarrow> unicode \<Rightarrow> int \<Rightarrow> utext list \<Rightarrow> board \<Rightarrow> unit reply" where
  "write_finish_gap_comment now uni i gaps b =
     (let content = finish_gap_prefix @ [10, 45, 32] @ join_with [10, 45, 32] gaps in
      if gaps = [] \<or> already_said finish_gap_prefix content i b then (b, Inr ())
      else add_comment now uni (board_comment i content) b)"

section \<open>The parent follows\<close>

definition then_do :: "'a reply \<Rightarrow> (board \<Rightarrow> 'a \<Rightarrow> 'b reply) \<Rightarrow> 'b reply" where
  "then_do r f = (case r of (b, Inl e) \<Rightarrow> (b, Inl e) | (b, Inr x) \<Rightarrow> f b x)"

definition gap_mark :: utext where "gap_mark = ([9888] @ of_str '' '' @ [23376, 20219, 21153, 23384, 22312, 26410,
      23436, 25104, 39033])"

definition gap_content :: "issue list \<Rightarrow> utext" where
  "gap_content subtree = gap_mark @ ([65292, 29238, 20219, 21153, 25910, 21475, 36827, 35780, 23457, 31561, 24453,
      20154, 24037, 35009, 20915, 65306])
     @ fmt_nums (filter (\<lambda>c. is_status c \<noteq> Done) subtree)"

definition write_gap :: "int \<Rightarrow> unicode \<Rightarrow> int \<Rightarrow> issue list \<Rightarrow> board \<Rightarrow> unit reply" where
  "write_gap now uni pid subtree b =
     (let content = gap_content subtree in
      if already_said gap_mark content pid b then (b, Inr ())
      else add_comment now uni (board_comment pid content) b)"

text \<open>One level; the answer is the parent of the parent, and the parents whose review was started.\<close>

definition sync_one_parent :: "int \<Rightarrow> unicode \<Rightarrow> int \<Rightarrow> actor \<Rightarrow> board \<Rightarrow> (int option \<times> int list) reply" where
  "sync_one_parent now uni pid actor b =
     (case get_issue pid b of Inl e \<Rightarrow> (b, Inl e) | Inr parent \<Rightarrow>
      (let up = is_parent parent; st = is_status parent; over = status_terminal st;
           subtree = descendants [pid] Subtree b;
           all_done = list_all (\<lambda>c. is_status c = Done) subtree;
           any_cancelled = list_ex (\<lambda>c. is_status c = Cancelled) subtree in
       if subtree = [] \<or> \<not> all_done \<and> \<not> any_cancelled then (b, Inr (up, []))
       else if all_done \<and> \<not> over \<and> evaluate_parent_finish b subtree \<noteq> []
       then (fst (write_finish_gap_comment now uni pid (evaluate_parent_finish b subtree) b), Inr (up, []))
       else
         then_do (if \<not> over \<and> st \<in> {Backlog, Todo, Blocked}
           then transition_issue now pid In_Progress actor b else (b, Inr parent)) (\<lambda>b _.
         then_do (if \<not> over \<and> st \<noteq> In_Review then transition_issue now pid In_Review actor b else (b, Inr parent)) (\<lambda>b _.
         let hooks = (if all_done \<and> \<not> over then [pid] else []) in
         then_do (if \<not> all_done \<and> (over \<or> st \<noteq> In_Review) then write_gap now uni pid subtree b else (b, Inr ())) (\<lambda>b _.
         (b, Inr (up, hooks)))))))"

section \<open>Nothing else changes\<close>

text \<open>What the graph and the search see of a board.\<close>

definition skeleton :: "board \<Rightarrow> (int \<times> int option \<times> utext) list \<times> (int \<times> int) list" where
  "skeleton b = (map (\<lambda>r. (is_id r, is_parent r, is_number r)) (b_issues b), b_deps b)"

lemma skeleton_ids: "skeleton b' = skeleton b \<Longrightarrow> row_ids b' = row_ids b"
proof -
  have "row_ids b = fst ` set (fst (skeleton b))" for b by (force simp: row_ids_def skeleton_def)
  then show "skeleton b' = skeleton b \<Longrightarrow> row_ids b' = row_ids b" by simp
qed

lemma skeleton_simps [simp]:
  "skeleton (b\<lparr> b_comments := c \<rparr>) = skeleton b" "skeleton (b\<lparr> b_subs := sb \<rparr>) = skeleton b"
  "skeleton (b\<lparr> b_notes := n \<rparr>) = skeleton b" "skeleton (b\<lparr> b_activity := a \<rparr>) = skeleton b"
  "skeleton (b\<lparr> b_dispatches := d \<rparr>) = skeleton b"
  by (simp_all add: skeleton_def)

definition status_at :: "int \<Rightarrow> board \<Rightarrow> issue_status option" where
  "status_at i b = map_option is_status (find_issue i b)"

text \<open>What a board says about its issues and its dispatches,
      apart from the status of the issue \<open>i\<close>.\<close>

definition same_rows :: "board \<Rightarrow> board \<Rightarrow> bool" where
  "same_rows b b' \<longleftrightarrow> skeleton b' = skeleton b \<and> b_dispatches b' = b_dispatches b"

lemma insert_comment_rows: "insert_comment now i au c p ct b = Inr b' \<Longrightarrow>
    b_issues b' = b_issues b \<and> b_deps b' = b_deps b \<and> b_dispatches b' = b_dispatches b"
  by (auto simp: insert_comment_def split: if_splits)

lemma insert_activity_rows: "insert_activity now i actor a d b = Inr b' \<Longrightarrow>
    b_issues b' = b_issues b \<and> b_deps b' = b_deps b \<and> b_dispatches b' = b_dispatches b"
  by (auto simp: insert_activity_def split: if_splits)

lemma insert_subscriber_rows: "insert_subscriber i who reason b = Inr b' \<Longrightarrow>
    b_issues b' = b_issues b \<and> b_deps b' = b_deps b \<and> b_dispatches b' = b_dispatches b"
  by (auto simp: insert_subscriber_def split: if_splits)

lemmas insert_rows = insert_comment_rows insert_activity_rows insert_subscriber_rows

lemma notify_rows [simp]:
  "b_issues (notify_assignee now r actor c b) = b_issues b" "b_deps (notify_assignee now r actor c b) = b_deps b"
  "b_dispatches (notify_assignee now r actor c b) = b_dispatches b"
  "b_issues (insert_notification now who kind tt c i b) = b_issues b"
  "b_deps (insert_notification now who kind tt c i b) = b_deps b"
  "b_dispatches (insert_notification now who kind tt c i b) = b_dispatches b"
  by (auto simp: notify_assignee_def insert_notification_def split: option.splits)

lemma notify_fold_rows [simp]:
  "b_issues (foldl (\<lambda>b who. insert_notification now who kind tt c i b) b ws) = b_issues b"
  "b_deps (foldl (\<lambda>b who. insert_notification now who kind tt c i b) b ws) = b_deps b"
  "b_dispatches (foldl (\<lambda>b who. insert_notification now who kind tt c i b) b ws) = b_dispatches b"
  by (induction ws arbitrary: b) auto

lemma add_comment_rows:
  "b_issues (fst (add_comment now uni n b)) = b_issues b \<and> b_deps (fst (add_comment now uni n b)) = b_deps b \<and>
   b_dispatches (fst (add_comment now uni n b)) = b_dispatches b"
proof -
  have "b_issues b' = b_issues b \<and> b_deps b' = b_deps b \<and> b_dispatches b' = b_dispatches b"
    if "add_comment_on now uni n b = Inr b'" for b'
    using that by (auto simp: add_comment_on_def and_then_Inr notify_comment_def Let_def dest!: insert_rows split: if_splits)
  then show ?thesis by (auto simp: add_comment_def commit_def split: sum.splits)
qed

lemma find_update:
  "(\<And>r. is_id (f r) = is_id r) \<Longrightarrow>
     find_issue j (update_row i f b) = map_option (\<lambda>r. if is_id r = i then f r else r) (find_issue j b)"
proof -
  assume f: "\<And>r. is_id (f r) = is_id r"
  have "find (\<lambda>r. is_id r = j) (map (\<lambda>r. if is_id r = i then f r else r) rs)
      = map_option (\<lambda>r. if is_id r = i then f r else r) (find (\<lambda>r. is_id r = j) rs)" for rs
    by (induction rs) (auto simp: f)
  then show ?thesis by (simp add: find_issue_def update_row_def)
qed

lemma has_issue_find: "has_issue i b \<longleftrightarrow> find_issue i b \<noteq> None"
  by (auto simp: has_issue_def find_issue_def list_ex_iff find_None_iff)

lemma find_issue_cong: "b_issues b' = b_issues b \<Longrightarrow> find_issue i b' = find_issue i b"
  by (simp add: find_issue_def)

lemma has_issue_cong: "b_issues b' = b_issues b \<Longrightarrow> has_issue i b' = has_issue i b"
  by (simp add: has_issue_def)

lemma has_issue_update: "(\<And>r. is_id (f r) = is_id r) \<Longrightarrow> has_issue j (update_row i f b) = has_issue j b"
  by (auto simp: has_issue_def update_row_def list_ex_iff)

lemma insert_total:
  "has_issue i b \<Longrightarrow> \<exists>b'. insert_comment now i au c p ct b = Inr b' \<and> b_issues b' = b_issues b"
  "has_issue i b \<Longrightarrow> \<exists>b'. insert_activity now i actor a d b = Inr b' \<and> b_issues b' = b_issues b"
  "has_issue i b \<Longrightarrow> \<exists>b'. insert_subscriber i who reason b = Inr b' \<and> b_issues b' = b_issues b"
  by (simp_all add: insert_comment_def insert_activity_def insert_subscriber_def)

lemma transition_tx_total:
  assumes "has_issue i b" and "can_transition (is_status r) t"
  shows "\<exists>b'. transition_issue_in_tx now r i t actor b = Inr b'"
proof -
  have "has_issue i (update_row i (\<lambda>r. r\<lparr> is_status := t, is_updated := now \<rparr>) b)"
    using assms(1) by (simp add: has_issue_update)
  moreover have "validate_transition (is_status r) t = None"
    using assms(2) by (simp add: validate_transition_None)
  ultimately show ?thesis
    by (cases "t = Done") (simp_all add: transition_issue_in_tx_def insert_comment_def insert_activity_def Let_def has_issue_def)
qed

lemma transition_tx_rows:
  assumes "transition_issue_in_tx now r i t actor b = Inr b'"
  shows "b_issues b' = b_issues (update_row i (\<lambda>r. r\<lparr> is_status := t,
      is_updated := now \<rparr>) b) \<and>
    b_deps b' = b_deps b \<and> b_dispatches b' = b_dispatches b"
  using assms
  by (auto simp: transition_issue_in_tx_def and_then_Inr Let_def update_row_def
      dest!: insert_rows split: option.splits if_splits sum.splits)

lemma transition_effect:
  assumes "get_issue i b = Inr r" and can: "can_transition (is_status r) t"
  shows "\<exists>b' r'. transition_issue now i t actor b = (b', Inr r') \<and> skeleton b' = skeleton b \<and>
    b_dispatches b' = b_dispatches b \<and> (\<forall>j. status_at j b' = (if j = i then Some t else status_at j b))"
proof -
  let ?u = "update_row i (\<lambda>r. r\<lparr> is_status := t, is_updated := now \<rparr>) b"
  have f: "find_issue i b = Some r" using assms(1) by (simp add: get_issue_def split: option.splits)
  then obtain b' where tx: "transition_issue_in_tx now r i t actor b = Inr b'"
    using transition_tx_total [OF _ can, of i b] by (auto simp: has_issue_find)
  note rows = transition_tx_rows [OF tx]
  have st: "find_issue j b' = map_option (\<lambda>r. if is_id r = i then r\<lparr> is_status := t,
      is_updated := now \<rparr> else r) (find_issue j b)" for j
    using find_issue_cong [of b' ?u j] rows by (simp add: find_update)
  have "is_id x = j" if "find_issue j b = Some x" for j x
    using that by (auto simp: find_issue_def find_Some_iff)
  then have "status_at j b' = (if j = i then Some t else status_at j b)" for j
    using f by (cases "find_issue j b") (auto simp: status_at_def st)
  moreover have "skeleton b' = skeleton b" using rows by (auto simp: skeleton_def update_row_def)
  moreover have "transition_issue now i t actor b = (b', get_issue i b')"
    by (simp add: transition_issue_def reread_def commit_def assms(1) tx)
  moreover have "\<exists>r'. get_issue i b' = Inr r'" using f by (simp add: get_issue_def st)
  ultimately show ?thesis using rows by auto
qed

lemma transition_refused:
  "get_issue i b = Inr r \<Longrightarrow> \<not> can_transition (is_status r) t \<Longrightarrow>
     \<exists>e. transition_issue now i t actor b = (b, Inl e)"
  by (auto simp: transition_issue_def reread_def commit_def transition_issue_in_tx_def
      validate_transition_None [symmetric] split: option.splits)

text \<open>Statuses that have not ended stay so, the others stay as they are.\<close>

definition calm :: "board \<Rightarrow> board \<Rightarrow> bool" where
  "calm b b' \<longleftrightarrow> same_rows b b' \<and> (\<forall>j. status_at j b' = status_at j b \<or>
     (\<exists>s t. status_at j b = Some s \<and> status_at j b' = Some t \<and> \<not> status_terminal s \<and> \<not> status_terminal t))"

lemma calm_refl [simp]: "calm b b"
  by (simp add: calm_def same_rows_def)

lemma calm_trans: "calm b b1 \<Longrightarrow> calm b1 b2 \<Longrightarrow> calm b b2"
  unfolding calm_def same_rows_def by (metis option.inject)

lemma calm_comment: "calm b (fst (add_comment now uni n b))"
  using add_comment_rows [of now uni n b]
  by (auto simp: calm_def same_rows_def skeleton_def status_at_def find_issue_def)

lemma get_issue_status: "get_issue i b = Inr r \<Longrightarrow> status_at i b = Some (is_status r)"
  by (auto simp: get_issue_def status_at_def split: option.splits)

lemma calm_transition:
  assumes "get_issue i b = Inr r" "\<not> status_terminal (is_status r)" "\<not> status_terminal t"
  shows "calm b (fst (transition_issue now i t actor b))"
proof (cases "can_transition (is_status r) t")
  case True
  from transition_effect [OF assms(1) True, of now actor] get_issue_status [OF assms(1)] assms
  show ?thesis by (auto simp: calm_def same_rows_def)
next
  case False
  from transition_refused [OF assms(1) False, of now actor] show ?thesis by auto
qed

lemma calm_gap: "calm b (fst (write_finish_gap_comment now uni i gaps b))" "calm b (fst (write_gap now uni i sub b))"
  by (simp_all add: write_finish_gap_comment_def write_gap_def Let_def calm_comment)

lemma calm_get:
  assumes "calm b b'" "get_issue i b = Inr r" "\<not> status_terminal (is_status r)"
  shows "\<exists>r'. get_issue i b' = Inr r' \<and> \<not> status_terminal (is_status r')"
proof -
  have "\<exists>s. status_at i b' = Some s \<and> \<not> status_terminal s"
    using assms(1,3) get_issue_status [OF assms(2)] unfolding calm_def by (metis option.inject)
  then show ?thesis by (auto simp: status_at_def get_issue_def)
qed

lemma then_do_fst: "calm b (fst r) \<Longrightarrow> (\<And>b' x. r = (b',
      Inr x) \<Longrightarrow> calm b' (fst (f b' x))) \<Longrightarrow> calm b (fst (then_do r f))"
  by (auto simp: then_do_def split: prod.splits sum.splits intro: calm_trans)

lemma chain_calm:
  assumes "calm b (fst x)" "\<And>b1. calm b b1 \<Longrightarrow> calm b1 (fst (y b1))" "\<And>b2. calm b2 (fst (z b2))"
  shows "calm b (fst (then_do x (\<lambda>b _. then_do (y b) (\<lambda>b _. then_do (z b) (\<lambda>b _. (b,
      Inr v))))))"
  using assms by (fastforce intro!: then_do_fst)

lemma if_cases_calm:
  "(g \<Longrightarrow> calm b (fst x)) \<Longrightarrow> (\<not> g \<Longrightarrow> calm b (fst y)) \<Longrightarrow> calm b (fst (if g then x else y))"
  by simp

lemma calm_advance:
  "get_issue i b = Inr r \<Longrightarrow> (g \<Longrightarrow> \<not> status_terminal (is_status r)) \<Longrightarrow> \<not> status_terminal t \<Longrightarrow>
     calm b (fst (if g then transition_issue now i t actor b else (b, Inr x)))"
  by (simp add: calm_transition)

lemma sync_one_calm: "calm b (fst (sync_one_parent now uni pid actor b))"
proof (cases "get_issue pid b")
  case (Inr r)
  let ?over = "status_terminal (is_status r)"
  have open_after: "?over \<or> (\<exists>r1. get_issue pid b1 = Inr r1 \<and> \<not> status_terminal (is_status r1))" if "calm b b1" for b1
    using calm_get [OF that Inr] by blast
  have second: "calm b1 (fst (if \<not> ?over \<and> st \<noteq> In_Review then transition_issue now pid In_Review actor b1 else (b1, Inr r)))"
    if "calm b b1" for b1 st
    using open_after [OF that] by (auto simp: status_terminal_def intro: calm_transition)
  have third: "calm b2 (fst (if c then write_gap now uni pid sub b2 else (b2, Inr ())))" for b2 c sub
    by (simp add: calm_gap)
  show ?thesis
    unfolding sync_one_parent_def Inr sum.case Let_def
    by (intro if_cases_calm chain_calm second third calm_transition [OF Inr])
      (simp_all add: calm_gap status_terminal_def)
qed (simp add: sync_one_parent_def)

lemma calm_ids: "calm b b' \<Longrightarrow> row_ids b' = row_ids b"
  using skeleton_ids [of b' b] by (simp add: calm_def same_rows_def)

section \<open>Up to the root\<close>

text \<open>The loop over the parents, with what it has seen; an error ends it and the hooks called before it stay.\<close>

function sync_parents :: "int \<Rightarrow> unicode \<Rightarrow> actor \<Rightarrow> int list \<Rightarrow> int option \<Rightarrow> int list \<Rightarrow> board
    \<Rightarrow> board \<times> int list \<times> store_error option" where
  "sync_parents now uni actor seen None hooks b = (b, hooks, None)"
| "sync_parents now uni actor seen (Some pid) hooks b =
     (if pid \<in> set seen then (b, hooks, None)
      else case sync_one_parent now uni pid actor b of
        (b', Inl e) \<Rightarrow> (b', hooks, Some e)
      | (b', Inr (up, hs)) \<Rightarrow> sync_parents now uni actor (pid # seen) up (hooks @ hs) b')"
  by pat_completeness auto
termination
proof (relation "measure (\<lambda>(now, uni, actor, seen, cur, hooks, b). card (row_ids b - set seen))", goal_cases)
  case (2 now uni actor seen pid hooks b b' r x up hs)
  then have c: "calm b b'" using sync_one_calm [of b now uni pid actor] by (metis fst_conv)
  have "pid \<in> row_ids b"
  proof (rule ccontr)
    assume "pid \<notin> row_ids b"
    then obtain e where "get_issue pid b = Inl e" using get_issue_ex [of pid b] by (cases "get_issue pid b") auto
    with 2 show False by (simp add: sync_one_parent_def)
  qed
  moreover have "finite (row_ids b)" by (simp add: row_ids_def)
  ultimately have "card (row_ids b - insert pid (set seen)) < card (row_ids b - set seen)"
    using 2(1) by (intro psubset_card_mono) auto
  then show ?case by (simp add: calm_ids [OF c])
qed simp

declare sync_parents.simps [simp del]

definition sync_parent_status :: "int \<Rightarrow> unicode \<Rightarrow> int \<Rightarrow> actor \<Rightarrow> board \<Rightarrow> board \<times> int list \<times> store_error option" where
  "sync_parent_status now uni pid actor b = sync_parents now uni actor [] (Some pid) [] b"

lemma sync_parents_calm: "calm b (fst (sync_parents now uni actor seen cur hooks b))"
proof (induction now uni actor seen cur hooks b rule: sync_parents.induct)
  case (2 now uni actor seen pid hooks b)
  obtain b' r where s: "sync_one_parent now uni pid actor b = (b', r)" by fastforce
  then have c: "calm b b'" using sync_one_calm [of b now uni pid actor] by simp
  show ?case
  proof (cases "pid \<in> set seen")
    case True
    then show ?thesis by (simp add: sync_parents.simps(2))
  next
    case False
    show ?thesis
    proof (cases r)
      case (Inl e)
      with s False c show ?thesis by (simp add: sync_parents.simps(2))
    next
      case (Inr u)
      obtain up hs where u: "u = (up, hs)" by fastforce
      have "calm b' (fst (sync_parents now uni actor (pid # seen) up (hooks @ hs) b'))"
        by (rule "2.IH" [OF False s [symmetric] Inr u [symmetric]])
      with s False Inr u show ?thesis using calm_trans [OF c] by (simp add: sync_parents.simps(2))
    qed
  qed
qed (simp add: sync_parents.simps)

lemma sync_parent_calm: "calm b (fst (sync_parent_status now uni pid actor b))"
  by (simp add: sync_parent_status_def sync_parents_calm)

section \<open>The cascade\<close>

record cascade =
  cs_board :: board
  cs_stopped :: "int list"
  cs_cascaded :: "utext list"
  cs_hooks :: "int list"
  cs_sent :: "(int \<times> utext \<times> utext) list"

text \<open>The message that cancels a task: not sent without a cluster, nor for a task that runs here.\<close>

definition spawn_task_cancel :: "bool \<Rightarrow> int \<Rightarrow> dispatch \<Rightarrow> (int \<times> utext \<times> utext) list" where
  "spawn_task_cancel cluster i d =
     (if \<not> cluster \<or> ds_worker d = of_str ''self'' then [] else [(i, ds_worker d, ds_task d)])"

definition cancel_in_flight ::
    "int \<Rightarrow> (utext \<Rightarrow> utext) \<Rightarrow> bool \<Rightarrow> int \<Rightarrow> actor \<Rightarrow> board \<Rightarrow> board \<times> (int \<times> utext \<times> utext) list" where
  "cancel_in_flight now q cluster i actor b =
     (case get_active_dispatch i b of None \<Rightarrow> (b, [])
      | Some d \<Rightarrow> (case cancel_dispatch now q (ds_task d) actor b of
          (b', Inr (Some _)) \<Rightarrow> (b', spawn_task_cancel cluster i d)
        | (b', _) \<Rightarrow> (b', [])))"

definition cascade_content :: "utext \<Rightarrow> utext" where
  "cascade_content number = ([9940] @ of_str '' '') @ number @ (of_str '' '' @ [24050, 21462, 28040, 65292, 26412,
      21333, 32423, 32852, 21462, 28040, 65288, 29238, 21333, 25110, 20381, 36182, 21462, 28040, 21363, 27515,
      38142, 65307, 21487] @ of_str '' issue.reopen '' @ [22797, 27963, 65289])"

definition cascade_one :: "int \<Rightarrow> unicode \<Rightarrow> (utext \<Rightarrow> utext) \<Rightarrow> bool \<Rightarrow> utext \<Rightarrow> actor \<Rightarrow> cascade \<Rightarrow> issue \<Rightarrow> cascade" where
  "cascade_one now uni q cluster number actor c dep =
     (if status_terminal (is_status dep)
         \<or> (case is_parent dep of Some p \<Rightarrow> p \<in> set (cs_stopped c) | None \<Rightarrow> False)
         \<or> list_ex (\<lambda>u. u \<in> set (cs_stopped c)) (dependencies_of (is_id dep) (cs_board c)) then c
      else
        (let b1 = fst (add_comment now uni (board_comment (is_id dep) (cascade_content number)) (cs_board c));
             (b2, sent) = cancel_in_flight now q cluster (is_id dep) actor b1 in
         case transition_issue now (is_id dep) Cancelled actor b2 of
           (b3, Inl _) \<Rightarrow> c\<lparr> cs_board := b3, cs_stopped := is_id dep # cs_stopped c,
      cs_sent := cs_sent c @ sent \<rparr>
         | (b3, Inr _) \<Rightarrow>
             (let (b4, hooks) = (case is_parent dep of None \<Rightarrow> (b3, [])
                | Some p \<Rightarrow> (case sync_parent_status now uni p actor b3 of (b, hs, _) \<Rightarrow> (b,
      hs))) in
              c\<lparr> cs_board := b4, cs_cascaded := cs_cascaded c @ [is_number dep], cs_hooks := cs_hooks c
      @ hooks,
                 cs_sent := cs_sent c @ sent \<rparr>)))"

definition cascade_start :: "board \<Rightarrow> cascade" where
  "cascade_start b = \<lparr> cs_board = b, cs_stopped = [], cs_cascaded = [], cs_hooks = [], cs_sent = [] \<rparr>"

definition cascade_cancel_dependents ::
    "int \<Rightarrow> unicode \<Rightarrow> (utext \<Rightarrow> utext) \<Rightarrow> bool \<Rightarrow> int \<Rightarrow> actor \<Rightarrow> board \<Rightarrow> cascade" where
  "cascade_cancel_dependents now uni q cluster root actor b =
     (case get_issue root b of Inl e \<Rightarrow> cascade_start b
      | Inr r \<Rightarrow> foldl (cascade_one now uni q cluster (is_number r) actor) (cascade_start b)
          (descendants [root] Cascade_Union b))"

end
