(* ===== verification/Board_Settle.thy ===== *)
theory Board_Settle
  imports Board_Cascade
begin

text \<open>
  What a cancellation does to the issues below it (\<open>cascade.rs\<close>): all of them that have not ended are cancelled,
  with the dispatches they have in flight, and nothing else begins or ends.
\<close>

section \<open>The dispatch in flight\<close>

lemma one_active:
  assumes "rows_ok ds" "x \<in> set ds" "y \<in> set ds" "ds_issue x = ds_issue y"
    "dispatch_active (ds_state x)" "dispatch_active (ds_state y)"
  shows "x = y"
proof -
  define rs where "rs = filter (\<lambda>d. ds_issue d = ds_issue y) ds"
  have in_rs: "x \<in> set rs" "y \<in> set rs" using assms by (auto simp: rs_def)
  have idle: "\<forall>d \<in> set (butlast rs). \<not> dispatch_active (ds_state d)"
    using assms(1) by (simp add: rows_ok_def Let_def rs_def)
  have "z = last rs" if "z \<in> set rs" "dispatch_active (ds_state z)" for z
    using that idle by (cases rs rule: rev_cases) auto
  then show ?thesis using in_rs assms(5,6) by metis
qed

lemma in_flight_iff: "in_flight i b \<longleftrightarrow> (\<exists>d \<in> set (b_dispatches b). ds_issue d = i \<and> dispatch_active (ds_state d))"
  by (simp add: in_flight_def list_ex_iff)

lemma find_in: "find P xs = Some x \<Longrightarrow> x \<in> set xs \<and> P x"
  by (auto simp: find_Some_iff)

lemma cancel_in_flight_effect:
  assumes ok: "rows_ok (b_dispatches b)" and i: "has_issue i b"
    and c: "cancel_in_flight now q cluster i actor b = (b', sent)"
  shows "b_issues b' = b_issues b \<and> b_deps b' = b_deps b \<and> rows_ok (b_dispatches b') \<and> \<not> in_flight i b' \<and>
    (\<forall>j. in_flight j b' \<longrightarrow> in_flight j b)"
proof (cases "get_active_dispatch i b")
  case None
  then have "\<not> in_flight i b" by (auto simp: get_active_dispatch_def in_flight_iff find_None_iff)
  with None c ok show ?thesis by (auto simp: cancel_in_flight_def)
next
  case (Some d)
  then have d: "d \<in> set (b_dispatches b)" "ds_issue d = i" "dispatch_active (ds_state d)"
    using find_in unfolding get_active_dispatch_def by fastforce+
  define f :: "dispatch \<Rightarrow> dispatch" where "f = (\<lambda>x. if ds_task x = ds_task d \<and> dispatch_active (ds_state x) \<and> True
    then x\<lparr> ds_state := DS_Cancelled, ds_completed := Some now \<rparr> else x)"
  have f [simp]: "ds_task (f x) = ds_task x" "ds_issue (f x) = ds_issue x" for x by (simp_all add: f_def)
  let ?b1 = "b\<lparr> b_dispatches := map f (b_dispatches b) \<rparr>"
  have e1: "end_rows now DS_Cancelled (\<lambda>x. ds_task x = ds_task d \<and> dispatch_active (ds_state x) \<and> True) b = (True, ?b1)"
    using d unfolding end_rows_def f_def by (auto simp: list_ex_iff)
  have same: "x = d" if "x \<in> set (b_dispatches b)" "ds_task x = ds_task d" for x
    using ok that d(1) by (auto simp: rows_ok_def distinct_map inj_on_def)
  have "find (\<lambda>x. ds_task x = ds_task d) (map f (b_dispatches b)) \<noteq> None"
    using d(1) by (auto simp: find_None_iff)
  then obtain e where g: "get_dispatch (ds_task d) ?b1 = Some e" by (auto simp: get_dispatch_def)
  then obtain y where y: "y \<in> set (b_dispatches b)" "e = f y" "ds_task e = ds_task d"
    using find_in unfolding get_dispatch_def by fastforce
  then have e: "ds_issue e = i" using same [of y] d(2) by simp
  let ?t = "Some ((of_str ''{'' @ [34] @ of_str ''task_id'' @ [34] @ of_str '':'') @ q (ds_task d) @ (of_str ''}''))"
  obtain b2 where b2: "insert_activity now i actor ''dispatch_cancelled'' ?t ?b1 = Inr b2"
    using insert_total(2) [where i = i and b = ?b1 and now = now and actor = actor and a = "''dispatch_cancelled''"
      and d = ?t] i by (auto simp: has_issue_def)
  have r2: "b_issues b2 = b_issues b" "b_deps b2 = b_deps b" "b_dispatches b2 = map f (b_dispatches b)"
    using insert_activity_rows [OF b2] by simp_all
  then have g2: "get_dispatch (ds_task d) b2 = Some e" using g by (simp add: get_dispatch_def)
  have "cancel_dispatch now q (ds_task d) actor b = (b2, Inr (Some e))"
    unfolding cancel_dispatch_def end_logged_def e1 using g g2 e b2 by simp
  with c Some have b': "b' = b2" by (simp add: cancel_in_flight_def)
  have "touches_active f" unfolding f_def by (rule touches_end(1))
  then have "rows_ok (b_dispatches b2)" using rows_ok_map [OF ok] r2(3) by simp
  moreover have act: "dispatch_active (ds_state x) \<and> x \<noteq> d" if "x \<in> set (b_dispatches b)" "dispatch_active (ds_state (f x))" for x
    using that d(3) by (auto simp: f_def dispatch_active_def split: if_splits)
  moreover have "\<not> in_flight i b2"
  proof
    assume "in_flight i b2"
    then obtain x where x: "x \<in> set (b_dispatches b)" "ds_issue x = i" "dispatch_active (ds_state (f x))"
      by (auto simp: in_flight_iff r2(3))
    with act have "dispatch_active (ds_state x)" "x \<noteq> d" by auto
    with one_active [OF ok x(1) d(1)] x(2) d show False by simp
  qed
  moreover have "in_flight j b2 \<Longrightarrow> in_flight j b" for j
    using act by (auto simp: in_flight_iff r2(3))
  ultimately show ?thesis using r2 b' by blast
qed

section \<open>One step and the whole cascade\<close>

text \<open>What may happen to an issue that is not the one at hand.\<close>

definition mild :: "board \<Rightarrow> board \<Rightarrow> int \<Rightarrow> bool" where
  "mild b b' j \<longleftrightarrow> (status_at j b' = status_at j b \<or>
     (\<exists>s t. status_at j b = Some s \<and> status_at j b' = Some t \<and> \<not> status_terminal s \<and> \<not> status_terminal t)) \<and>
     (in_flight j b' \<longrightarrow> in_flight j b)"

lemma mild_refl [simp]: "mild b b = (\<lambda>j. True)"
  by (rule ext) (simp add: mild_def)

lemma mild_trans: "mild b b1 j \<Longrightarrow> mild b1 b2 j \<Longrightarrow> mild b b2 j"
  unfolding mild_def by (metis option.inject)

lemma calm_mild: "calm b b' \<Longrightarrow> mild b b' j"
  by (auto simp: calm_def same_rows_def mild_def in_flight_iff)

lemma mild_ended: "mild b b' j \<Longrightarrow> status_at j b = Some s \<Longrightarrow> status_terminal s \<Longrightarrow> status_at j b' = Some s"
  by (auto simp: mild_def)

lemma mild_open: "mild b b' j \<Longrightarrow> status_at j b = Some s \<Longrightarrow> \<not> status_terminal s \<Longrightarrow>
    \<exists>t. status_at j b' = Some t \<and> \<not> status_terminal t"
  by (auto simp: mild_def)

lemma cascade_one_effect:
  assumes stopped: "cs_stopped c = []" and ok: "rows_ok (b_dispatches (cs_board c))"
    and st: "status_at (is_id d) (cs_board c) = Some s" "\<not> status_terminal s" and d: "\<not> status_terminal (is_status d)"
  shows "let c' = cascade_one now uni q cluster number actor c d in
    cs_stopped c' = [] \<and> rows_ok (b_dispatches (cs_board c')) \<and> cs_cascaded c' = cs_cascaded c
      @ [is_number d] \<and>
    status_at (is_id d) (cs_board c') = Some Cancelled \<and> \<not> in_flight (is_id d) (cs_board c') \<and>
    (\<forall>j. j \<noteq> is_id d \<longrightarrow> mild (cs_board c) (cs_board c') j)"
proof -
  let ?i = "is_id d" and ?b = "cs_board c"
  define b1 where "b1 = fst (add_comment now uni (board_comment ?i (cascade_content number)) ?b)"
  have c1: "calm ?b b1" unfolding b1_def by (rule calm_comment)
  have i1: "b_issues b1 = b_issues ?b" "b_dispatches b1 = b_dispatches ?b" using add_comment_rows by (simp_all add: b1_def)
  obtain b2 sent where b2: "cancel_in_flight now q cluster ?i actor b1 = (b2, sent)" by fastforce
  have h: "has_issue ?i b1"
    using st(1) find_issue_cong [OF i1(1), of ?i] by (auto simp: has_issue_find status_at_def)
  note e2 = cancel_in_flight_effect [OF _ h b2]
  have ok1: "rows_ok (b_dispatches b1)" using ok i1 by simp
  have st2: "status_at j b2 = status_at j ?b" for j
    using e2 [OF ok1] i1 find_issue_cong [of b2 b1 j] find_issue_cong [of b1 ?b j] by (simp add: status_at_def)
  obtain r where r: "get_issue ?i b2 = Inr r" "is_status r = s"
    using st(1) st2 [of ?i] by (auto simp: get_issue_def status_at_def split: option.splits)
  have can: "can_transition (is_status r) Cancelled"
    using st(2) r(2) by (cases s) (simp_all add: can_transition_def status_terminal_def)
  obtain b3 r' where b3: "transition_issue now ?i Cancelled actor b2 = (b3, Inr r')" "skeleton b3 = skeleton b2"
    "b_dispatches b3 = b_dispatches b2" "\<forall>j. status_at j b3 = (if j = ?i then Some Cancelled else status_at j b2)"
    using transition_effect [OF r(1) can, of now actor] by blast
  obtain b4 hooks where b4: "(case is_parent d of None \<Rightarrow> (b3, [])
      | Some p \<Rightarrow> (case sync_parent_status now uni p actor b3 of (b, hs, _) \<Rightarrow> (b,
      hs))) = (b4, hooks)" by fastforce
  have c4: "calm b3 b4"
    using b4 sync_parent_calm [of b3 now uni "the (is_parent d)" actor]
    by (auto split: option.splits prod.splits)
  have c': "cascade_one now uni q cluster number actor c d = c\<lparr> cs_board := b4,
      cs_cascaded := cs_cascaded c @ [is_number d],
      cs_hooks := cs_hooks c @ hooks, cs_sent := cs_sent c @ sent \<rparr>"
    using d stopped b2 b3(1) b4 by (simp add: cascade_one_def b1_def [symmetric] list_ex_iff split: option.splits)
  have m3: "mild ?b b3 j" if "j \<noteq> ?i" for j
    using that e2 [OF ok1] b3 st2 i1 by (auto simp: mild_def in_flight_iff)
  have "mild ?b b4 j" if "j \<noteq> ?i" for j
    using mild_trans [OF m3 [OF that] calm_mild [OF c4]] .
  moreover have "status_at ?i b4 = Some Cancelled"
    using mild_ended [OF calm_mild [OF c4], of ?i Cancelled] b3(4) by (simp add: status_terminal_def)
  moreover have "b_dispatches b4 = b_dispatches b2" using c4 b3(3) by (simp add: calm_def same_rows_def)
  moreover from this have "\<not> in_flight ?i b4" "rows_ok (b_dispatches b4)"
    using e2 [OF ok1] by (auto simp: in_flight_iff)
  ultimately show ?thesis using stopped by (simp add: c' Let_def)
qed

definition settled :: "board \<Rightarrow> issue \<Rightarrow> bool" where
  "settled b d \<longleftrightarrow> (if status_terminal (is_status d) then status_at (is_id d) b = Some (is_status d)
     else status_at (is_id d) b = Some Cancelled \<and> \<not> in_flight (is_id d) b)"

definition fresh_at :: "board \<Rightarrow> issue \<Rightarrow> bool" where
  "fresh_at b d \<longleftrightarrow> (\<exists>s. status_at (is_id d) b = Some s \<and> status_terminal s = status_terminal (is_status d) \<and>
     (status_terminal s \<longrightarrow> s = is_status d))"

lemma mild_fresh: "mild b b' (is_id d) \<Longrightarrow> fresh_at b d \<Longrightarrow> fresh_at b' d"
  unfolding fresh_at_def using mild_ended mild_open by blast

lemma mild_settled: "mild b b' (is_id d) \<Longrightarrow> settled b d \<Longrightarrow> settled b' d"
  by (auto simp: settled_def mild_def status_terminal_def split: if_splits)

lemma cascade_fold:
  assumes "cs_stopped c = []" "rows_ok (b_dispatches (cs_board c))" "distinct (map is_id ds)"
    "\<forall>d \<in> set ds. fresh_at (cs_board c) d"
  shows "let c' = foldl (cascade_one now uni q cluster number actor) c ds in
    cs_stopped c' = [] \<and> cs_cascaded c' = cs_cascaded c
      @ map is_number (filter (\<lambda>d. \<not> status_terminal (is_status d)) ds) \<and>
    (\<forall>d \<in> set ds. settled (cs_board c') d) \<and> (\<forall>j. j \<notin> is_id ` set ds \<longrightarrow> mild (cs_board c) (cs_board c') j)"
  using assms
proof (induction ds arbitrary: c)
  case Nil
  then show ?case by simp
next
  case (Cons d ds)
  let ?c1 = "cascade_one now uni q cluster number actor c d"
  obtain s where s: "status_at (is_id d) (cs_board c) = Some s" "status_terminal s = status_terminal (is_status d)"
    "status_terminal s \<longrightarrow> s = is_status d"
    using Cons.prems(4) by (auto simp: fresh_at_def)
  have "cs_stopped ?c1 = [] \<and> rows_ok (b_dispatches (cs_board ?c1)) \<and>
      cs_cascaded ?c1 = cs_cascaded c @ (if status_terminal (is_status d) then [] else [is_number d]) \<and>
      settled (cs_board ?c1) d \<and> (\<forall>j. j \<noteq> is_id d \<longrightarrow> mild (cs_board c) (cs_board ?c1) j)"
  proof (cases "status_terminal (is_status d)")
    case True
    then have "?c1 = c" by (simp add: cascade_one_def)
    with Cons.prems True s show ?thesis by (auto simp: settled_def)
  next
    case False
    from cascade_one_effect [OF Cons.prems(1,2) s(1) _ False] s(2) False
    show ?thesis by (auto simp: settled_def Let_def)
  qed
  then have one: "cs_stopped ?c1 = []" "rows_ok (b_dispatches (cs_board ?c1))"
    "cs_cascaded ?c1 = cs_cascaded c @ (if status_terminal (is_status d) then [] else [is_number d])"
    "settled (cs_board ?c1) d" "\<And>j. j \<noteq> is_id d \<Longrightarrow> mild (cs_board c) (cs_board ?c1) j"
    by auto
  have "fresh_at (cs_board ?c1) e" if "e \<in> set ds" for e
  proof -
    have "is_id e \<noteq> is_id d" using Cons.prems(3) that by (auto simp: image_iff)
    then show ?thesis using mild_fresh [OF one(5)] Cons.prems(4) that by simp
  qed
  with Cons.IH [OF one(1,2)] Cons.prems(3)
  have rest: "let c' = foldl (cascade_one now uni q cluster number actor) ?c1 ds in
    cs_stopped c' = [] \<and> cs_cascaded c' = cs_cascaded ?c1
      @ map is_number (filter (\<lambda>d. \<not> status_terminal (is_status d)) ds) \<and>
    (\<forall>d \<in> set ds. settled (cs_board c') d) \<and> (\<forall>j. j \<notin> is_id ` set ds \<longrightarrow> mild (cs_board ?c1) (cs_board c') j)"
    by simp
  let ?c2 = "foldl (cascade_one now uni q cluster number actor) ?c1 ds"
  have "is_id d \<notin> is_id ` set ds" using Cons.prems(3) by simp
  then have "settled (cs_board ?c2) d" using rest one(4) by (auto simp: Let_def intro: mild_settled)
  moreover have "mild (cs_board c) (cs_board ?c2) j" if "j \<notin> is_id ` set (d # ds)" for j
    using that rest one(5) [of j] mild_trans [of "cs_board c" "cs_board ?c1" j "cs_board ?c2"] by (simp add: Let_def)
  ultimately show ?case using rest one(3) by (simp add: Let_def)
qed

section \<open>Properties\<close>

lemma comment_status: "status_at i (fst (add_comment now uni n b)) = status_at i b"
  using add_comment_rows [of now uni n b] find_issue_cong [of "fst (add_comment now uni n b)" b i]
  by (simp add: status_at_def)

text \<open>
  C30. The search for descendants ends on every board, cycles included, and returns exactly the issues that can be
  reached from the roots over rows along the chosen edges, without the roots, each of them once and as the database
  has it.
\<close>

theorem descendants_are_reachable:
  "distinct (map is_id (descendants roots ed b)) \<and>
   set (map is_id (descendants roots ed b)) = {i \<in> below ed b (set roots). i \<in> row_ids b} - set roots \<and>
   list_all (\<lambda>r. get_issue (is_id r) b = Inr r) (descendants roots ed b)"
  using descendants_ids [of roots ed b] descendants_rows [of _ roots ed b] by (auto simp: list_all_iff)

text \<open>
  C29. A cancellation takes everything below it along: on every board that operations have made, the cascade cancels
  all descendants that have not ended and ends their dispatches in flight, reports exactly these, in order, leaves the
  ended ones as they were, and outside of the descendants no issue becomes done or cancelled or ceases to be.
\<close>

theorem cascade_cancels_all_below:
  "let b = board_run uni q pre ops; c = cascade_cancel_dependents now uni q cluster root actor b;
       ds = (if has_issue root b then descendants [root] Cascade_Union b else []) in
     cs_cascaded c = map is_number (filter (\<lambda>d. \<not> status_terminal (is_status d)) ds) \<and>
     list_all (\<lambda>d. if status_terminal (is_status d) then status_at (is_id d) (cs_board c) = Some (is_status d)
        else status_at (is_id d) (cs_board c) = Some Cancelled \<and> \<not> in_flight (is_id d) (cs_board c)) ds \<and>
     {j. status_at j (cs_board c) \<noteq> status_at j b \<and>
         (status_at j b \<in> {Some Done, Some Cancelled} \<or> status_at j (cs_board c) \<in> {Some Done,
      Some Cancelled})}
       \<subseteq> is_id ` set ds"
proof -
  define b where "b = board_run uni q pre ops"
  define ds where "ds = (if has_issue root b then descendants [root] Cascade_Union b else [])"
  define c where "c = cascade_cancel_dependents now uni q cluster root actor b"
  have ok: "rows_ok (b_dispatches b)" unfolding b_def board_run_def by (rule rows.run_keeps) simp
  have c: "\<exists>n. c = foldl (cascade_one now uni q cluster n actor) (cascade_start b) ds"
    by (auto simp: c_def ds_def cascade_cancel_dependents_def get_issue_def has_issue_find split: option.splits)
  have dist: "distinct (map is_id ds)" using descendants_ids by (simp add: ds_def)
  have "fresh_at (cs_board (cascade_start b)) d" if "d \<in> set ds" for d
    using that get_issue_status [OF descendants_rows [of d "[root]" Cascade_Union b]]
    by (auto simp: fresh_at_def cascade_start_def ds_def split: if_splits)
  then have eff: "cs_cascaded c = map is_number (filter (\<lambda>d. \<not> status_terminal (is_status d)) ds) \<and>
    (\<forall>d \<in> set ds. settled (cs_board c) d) \<and> (\<forall>j. j \<notin> is_id ` set ds \<longrightarrow> mild b (cs_board c) j)"
    using c cascade_fold [of "cascade_start b" ds now uni q cluster _ actor] ok dist
    by (auto simp: cascade_start_def Let_def)
  have "{j. status_at j (cs_board c) \<noteq> status_at j b \<and>
         (status_at j b \<in> {Some Done, Some Cancelled} \<or> status_at j (cs_board c) \<in> {Some Done,
      Some Cancelled})}
       \<subseteq> is_id ` set ds"
  proof
    fix j assume j: "j \<in> {j. status_at j (cs_board c) \<noteq> status_at j b \<and>
      (status_at j b \<in> {Some Done, Some Cancelled} \<or> status_at j (cs_board c) \<in> {Some Done,
      Some Cancelled})}"
    show "j \<in> is_id ` set ds"
    proof (rule ccontr)
      assume "j \<notin> is_id ` set ds"
      with eff have "mild b (cs_board c) j" by blast
      with j show False by (auto simp: mild_def status_terminal_def)
    qed
  qed
  with eff show ?thesis by (simp add: Let_def b_def c_def ds_def list_all_iff settled_def)
qed

text \<open>
  C31. The parent follows: when a parent that has not ended has all issues below it done, and the gate has nothing to
  object, it is in review afterwards and its review is started; if the gate objects it stays where it is.
\<close>

theorem parent_goes_to_review:
  assumes parent: "get_issue pid b = Inr r" "\<not> status_terminal (is_status r)"
    and below: "descendants [pid] Subtree b \<noteq> []" "\<forall>c \<in> set (descendants [pid] Subtree b). is_status c = Done"
  shows "if evaluate_parent_finish b (descendants [pid] Subtree b) = []
    then snd (sync_one_parent now uni pid actor b) = Inr (is_parent r, [pid]) \<and>
      status_at pid (fst (sync_one_parent now uni pid actor b)) = Some In_Review
    else snd (sync_one_parent now uni pid actor b) = Inr (is_parent r, []) \<and>
      status_at pid (fst (sync_one_parent now uni pid actor b)) = Some (is_status r)"
proof -
  let ?s = "is_status r" and ?ds = "descendants [pid] Subtree b"
  have all: "list_all (\<lambda>c. is_status c = Done) ?ds" "\<not> list_ex (\<lambda>c. is_status c = Cancelled) ?ds"
    using below(2) by (auto simp: list_all_iff list_ex_iff)
  show ?thesis
  proof (cases "evaluate_parent_finish b ?ds = []")
    case False
    have "status_at pid (fst (write_finish_gap_comment now uni pid (evaluate_parent_finish b ?ds) b)) = status_at pid b"
      by (simp add: write_finish_gap_comment_def Let_def comment_status)
    with False all below(1) parent get_issue_status [OF parent(1)] show ?thesis
      by (simp add: sync_one_parent_def)
  next
    case True
    have to_review: "\<exists>b2 r2. transition_issue now pid In_Review actor b1 = (b2,
      Inr r2) \<and> status_at pid b2 = Some In_Review"
      if "get_issue pid b1 = Inr r1" "is_status r1 = In_Progress" for b1 r1
      using transition_effect [OF that(1), of In_Review now actor] that(2) by (auto simp: can_transition_def)
    consider "?s = In_Review" | "?s = In_Progress" | "?s \<in> {Backlog, Todo, Blocked}"
      using parent(2) by (cases ?s) (simp_all add: status_terminal_def)
    then show ?thesis
    proof cases
      case 1
      with True all below(1) parent get_issue_status [OF parent(1)] show ?thesis
        by (simp add: sync_one_parent_def then_do_def)
    next
      case 2
      with to_review [OF parent(1)] obtain b2 r2 where
        "transition_issue now pid In_Review actor b = (b2, Inr r2)" "status_at pid b2 = Some In_Review" by auto
      with 2 True all below(1) parent show ?thesis by (simp add: sync_one_parent_def then_do_def)
    next
      case 3
      then have "can_transition ?s In_Progress" by (auto simp: can_transition_def)
      with transition_effect [OF parent(1), of In_Progress now actor] obtain b1 r1 where
        t1: "transition_issue now pid In_Progress actor b = (b1,
      Inr r1)" "status_at pid b1 = Some In_Progress" by auto
      then obtain r1' where "get_issue pid b1 = Inr r1'" "is_status r1' = In_Progress"
        by (auto simp: status_at_def get_issue_def)
      with to_review obtain b2 r2 where
        "transition_issue now pid In_Review actor b1 = (b2, Inr r2)" "status_at pid b2 = Some In_Review" by blast
      with 3 t1 True all below(1) parent show ?thesis
        by (auto simp: sync_one_parent_def then_do_def)
    qed
  qed
qed

definition family_ops :: "(int \<times> board_op) list" where
  "family_ops = [(1, Create sample_issue), (2, Create (sample_issue\<lparr> ni_parent := Some 1 \<rparr>)),
     (3, Transition 2 Done (system_actor ''cli''))]"

definition family_board :: board where
  "family_board = board_run plain_unicode (\<lambda>s. s) [] family_ops"

theorem parent_goes_to_review_witness:
  "snd (sync_one_parent 4 plain_unicode 1 (system_actor ''board'') family_board) = Inr (None, [1]) \<and>
   status_at 1 (fst (sync_one_parent 4 plain_unicode 1 (system_actor ''board'') family_board)) = Some In_Review"
proof -
  have up: "map_option is_parent (find_issue 1 family_board) = Some None"
    "map_option (status_terminal \<circ> is_status) (find_issue 1 family_board) = Some False"
    by code_simp+
  then obtain r where r: "get_issue 1 family_board = Inr r" "is_parent r = None" "\<not> status_terminal (is_status r)"
    by (auto simp: get_issue_def)
  have below: "descendants [1] Subtree family_board \<noteq> []"
    "\<forall>c \<in> set (descendants [1] Subtree family_board). is_status c = Done"
    "evaluate_parent_finish family_board (descendants [1] Subtree family_board) = []"
    by code_simp+
  from parent_goes_to_review [OF r(1,3) below(1,2), of 4 plain_unicode "system_actor ''board''"] below(3) r(2)
  show ?thesis by simp
qed

end
