(* ===== verification/Board_Links.thy ===== *)
theory Board_Links
  imports Board_History
begin

text \<open>
  The references between the tables of the board (\<open>crates/nemesis-board/src/store.rs\<close>, schema in \<open>db.rs\<close>): what a
  database is that has them all, and how a database can grow. Every operation is a growth (\<open>grows\<close>), statement by
  statement: the names of the issues and the comments stay as a prefix, and the references stay whole.
\<close>

section \<open>Whole references\<close>

definition issue_name :: "issue \<Rightarrow> int \<times> utext" where
  "issue_name r = (is_id r, is_number r)"

definition ids_of :: "board \<Rightarrow> int set" where
  "ids_of b = is_id ` set (b_issues b)"

definition nth_name :: "utext \<Rightarrow> nat \<Rightarrow> int \<times> utext" where
  "nth_name pre k = (int k + 1, pre @ 45 # int_text (int k + 1))"

definition counted :: "int list \<Rightarrow> bool" where
  "counted is \<longleftrightarrow> is = map (\<lambda>k. int k + 1) [0..<length is]"

definition named :: "board \<Rightarrow> bool" where
  "named b \<longleftrightarrow> b_counter b = int (length (b_issues b)) \<and>
     map issue_name (b_issues b) = map (nth_name (b_prefix b)) [0..<length (b_issues b)]"

definition parent_ok :: "int set \<Rightarrow> issue \<Rightarrow> bool" where
  "parent_ok is r \<longleftrightarrow> (case is_parent r of None \<Rightarrow> True | Some p \<Rightarrow> p \<in> is \<and> p \<noteq> is_id r)"

definition linked :: "board \<Rightarrow> bool" where
  "linked b \<longleftrightarrow> named b \<and> list_all (parent_ok (ids_of b)) (b_issues b) \<and>
     counted (map cm_id (b_comments b)) \<and> set (map cm_issue (b_comments b)) \<subseteq> ids_of b \<and>
     counted (map av_id (b_activity b)) \<and> set (map av_issue (b_activity b)) \<subseteq> ids_of b \<and>
     distinct (map (\<lambda>s. (sb_issue s, sb_who s)) (b_subs b)) \<and> set (map sb_issue (b_subs b)) \<subseteq> ids_of b \<and>
     distinct (b_deps b) \<and> set (b_deps b) \<subseteq> ids_of b \<times> ids_of b \<and>
     distinct (map ds_task (b_dispatches b)) \<and> set (map ds_issue (b_dispatches b)) \<subseteq> ids_of b"

definition grows :: "board \<Rightarrow> board \<Rightarrow> bool" where
  "grows b b' \<longleftrightarrow> prefix (map issue_name (b_issues b)) (map issue_name (b_issues b')) \<and>
     prefix (b_comments b) (b_comments b') \<and> (linked b \<longrightarrow> linked b')"

lemma grows_refl [simp, intro]: "grows b b"
  by (simp add: grows_def)

lemma grows_trans [trans]: "grows b c \<Longrightarrow> grows c d \<Longrightarrow> grows b d"
  by (auto simp: grows_def intro: prefix_order.trans)

lemma counted_snoc [simp]: "counted is \<Longrightarrow> n = int (length is) + 1 \<Longrightarrow> counted (is @ [n])"
  by (simp add: counted_def)

lemma other_tables [simp]:
  "ids_of (b\<lparr> b_comments := cs \<rparr>) = ids_of b" "named (b\<lparr> b_comments := cs \<rparr>) = named b"
  "ids_of (b\<lparr> b_activity := vs \<rparr>) = ids_of b" "named (b\<lparr> b_activity := vs \<rparr>) = named b"
  "ids_of (b\<lparr> b_subs := ss \<rparr>) = ids_of b" "named (b\<lparr> b_subs := ss \<rparr>) = named b"
  "ids_of (b\<lparr> b_notes := ns \<rparr>) = ids_of b" "named (b\<lparr> b_notes := ns \<rparr>) = named b"
  "ids_of (b\<lparr> b_deps := ds \<rparr>) = ids_of b" "named (b\<lparr> b_deps := ds \<rparr>) = named b"
  "ids_of (b\<lparr> b_dispatches := rs \<rparr>) = ids_of b" "named (b\<lparr> b_dispatches := rs \<rparr>) = named b"
  by (simp_all add: ids_of_def named_def)

lemma has_issue_ids: "has_issue i b \<longleftrightarrow> i \<in> ids_of b"
  by (auto simp: has_issue_def ids_of_def list_ex_iff)

lemma linked_open: "linked (board_open pre)"
  by (simp add: linked_def board_open_def named_def counted_def)

section \<open>Statements\<close>

lemma update_row_fields:
  "b_counter (update_row i f b) = b_counter b" "b_prefix (update_row i f b) = b_prefix b"
  "b_comments (update_row i f b) = b_comments b" "b_activity (update_row i f b) = b_activity b"
  "b_subs (update_row i f b) = b_subs b" "b_deps (update_row i f b) = b_deps b"
  "b_dispatches (update_row i f b) = b_dispatches b" "length (b_issues (update_row i f b)) = length (b_issues b)"
  by (simp_all add: update_row_def)

lemma ids_update_row:
  assumes "\<And>r. is_id (f r) = is_id r"
  shows "ids_of (update_row i f b) = ids_of b"
proof -
  have "map is_id (b_issues (update_row i f b)) = map is_id (b_issues b)"
    using assms by (simp add: update_row_def)
  then show ?thesis unfolding ids_of_def by (metis set_map)
qed

lemma grows_update_row:
  assumes f: "\<And>r. issue_name (f r) = issue_name r"
    and p: "\<And>r. linked b \<Longrightarrow> is_id r = i \<Longrightarrow> parent_ok (ids_of b) r \<Longrightarrow> parent_ok (ids_of b) (f r)"
  shows "grows b (update_row i f b)"
proof -
  have i: "\<And>r. is_id (f r) = is_id r" using f by (simp add: issue_name_def)
  have n: "map issue_name (b_issues (update_row i f b)) = map issue_name (b_issues b)"
    using f by (simp add: update_row_def)
  have "linked (update_row i f b)" if l: "linked b"
  proof -
    have "list_all (parent_ok (ids_of b)) (b_issues (update_row i f b))"
      using l p [OF l] by (auto simp: linked_def update_row_def list_all_iff)
    with l n show ?thesis unfolding linked_def named_def by (simp add: update_row_fields ids_update_row [OF i])
  qed
  with n show ?thesis by (simp add: grows_def update_row_fields)
qed

lemma grows_status_row:
  assumes "\<And>r. issue_name (f r) = issue_name r" "\<And>r. is_parent (f r) = is_parent r"
  shows "grows b (update_row i f b)"
  by (rule grows_update_row [OF assms(1)])
    (use assms(1) in \<open>auto simp: parent_ok_def assms(2) issue_name_def split: option.splits\<close>)

lemma ids_of_cong: "b_issues b' = b_issues b \<Longrightarrow> ids_of b' = ids_of b"
  by (simp add: ids_of_def)

lemma grows_insert_comment: "insert_comment now i au c p ct b = Inr b' \<Longrightarrow> grows b b'"
  by (auto simp: insert_comment_def grows_def linked_def has_issue_ids image_subset_iff split: if_splits)

lemma grows_insert_activity: "insert_activity now i actor a d b = Inr b' \<Longrightarrow> grows b b'"
  by (auto simp: insert_activity_def grows_def linked_def has_issue_ids image_subset_iff split: if_splits)

lemma grows_insert_subscriber:
  assumes "insert_subscriber i who reason b = Inr b'"
  shows "grows b b'"
proof (cases "list_ex (\<lambda>s. sb_issue s = i \<and> sb_who s = who) (b_subs b)")
  case True
  let ?f = "\<lambda>s. if sb_issue s = i \<and> sb_who s = who then s\<lparr> sb_reason := reason \<rparr> else s"
  from True assms have b': "b' = b\<lparr> b_subs := map ?f (b_subs b) \<rparr>"
    by (simp add: insert_subscriber_def split: if_splits)
  have "map (\<lambda>s. (sb_issue s, sb_who s)) (map ?f (b_subs b)) = map (\<lambda>s. (sb_issue s, sb_who s)) (b_subs b)"
    and "map sb_issue (map ?f (b_subs b)) = map sb_issue (b_subs b)"
    by simp_all
  then show ?thesis unfolding b' grows_def linked_def by (simp del: map_map set_map)
next
  case False
  with assms show ?thesis
    by (auto simp: insert_subscriber_def grows_def linked_def has_issue_ids list_ex_iff image_subset_iff split: if_splits)
qed

lemma grows_notification [simp]: "grows b (insert_notification now who kind tt c i b)"
  by (auto simp: insert_notification_def grows_def linked_def image_subset_iff)

text \<open>The same in the form the simplifier chains: whatever led to the database before leads to the one after.\<close>

lemma prim_grows:
  "insert_comment now i au c p ct b = Inr b' \<Longrightarrow> \<forall>a. grows a b \<longrightarrow> grows a b'"
  "insert_activity now i actor ac d b = Inr b' \<Longrightarrow> \<forall>a. grows a b \<longrightarrow> grows a b'"
  "insert_subscriber i who reason b = Inr b' \<Longrightarrow> \<forall>a. grows a b \<longrightarrow> grows a b'"
  by (intro allI impI, erule grows_trans, erule grows_insert_comment grows_insert_activity grows_insert_subscriber)+

lemma grows_notify [simp]: "grows b (notify_assignee now r actor c b)"
  by (auto simp: notify_assignee_def split: option.splits)

lemma grows_notify_fold: "grows b (foldl (\<lambda>b who. insert_notification now who kind tt c i b) b ws)"
proof (induction ws arbitrary: b)
  case (Cons w ws)
  show ?case using grows_trans [OF grows_notification Cons.IH] by simp
qed simp

lemma grows_commit:
  "(\<And>b'. f b = Inr b' \<Longrightarrow> grows b b') \<Longrightarrow> grows b (fst (commit f b))"
  by (auto simp: commit_def split: sum.splits)

lemma grows_commit_with:
  "(\<And>b' x. f b = Inr (b', x) \<Longrightarrow> grows b b') \<Longrightarrow> grows b (fst (commit_with f b))"
  by (auto simp: commit_with_def split: sum.splits)

lemma grows_dispatches:
  assumes "linked b \<Longrightarrow> distinct (map ds_task ds) \<and> ds_issue ` set ds \<subseteq> ids_of b"
  shows "grows b (b\<lparr> b_dispatches := ds \<rparr>)"
  using assms by (auto simp: grows_def linked_def image_subset_iff)

lemma grows_deps:
  assumes "linked b \<Longrightarrow> distinct ds \<and> set ds \<subseteq> ids_of b \<times> ids_of b"
  shows "grows b (b\<lparr> b_deps := ds \<rparr>)"
  using assms by (auto simp: grows_def linked_def image_subset_iff)

lemma grows_rows:
  assumes "\<And>d. ds_task (f d) = ds_task d" "\<And>d. ds_issue (f d) = ds_issue d"
  shows "grows b (b\<lparr> b_dispatches := map f (b_dispatches b) \<rparr>)"
  by (rule grows_dispatches) (use assms in \<open>simp add: linked_def o_def image_image\<close>)

text \<open>A row whose status, assignee or marks change.\<close>

lemma grows_status_row_on:
  assumes "\<And>r. issue_name (f r) = issue_name r" "\<And>r. is_parent (f r) = is_parent r"
  shows "grows a b \<Longrightarrow> grows a (update_row i f b)"
  by (erule grows_trans) (rule grows_status_row [OF assms])

lemma grows_marks [simp]:
  "grows a b \<Longrightarrow> grows a (update_row i (\<lambda>r. r\<lparr> is_status := s, is_updated := now \<rparr>) b)"
  "grows a b \<Longrightarrow> grows a (update_row i (\<lambda>r. r\<lparr> is_status := s, is_position := p, is_updated := now \<rparr>) b)"
  "grows a b \<Longrightarrow> grows a (update_row i (\<lambda>r. r\<lparr> is_status := s, is_assignee := x, is_assignee_id := y, is_updated := now \<rparr>) b)"
  "grows a b \<Longrightarrow> grows a (update_row i (\<lambda>r. r\<lparr> is_assignee := x, is_assignee_id := y, is_updated := now \<rparr>) b)"
  "grows a b \<Longrightarrow> grows a (update_row i (\<lambda>r. r\<lparr> is_hidden := h, is_updated := now \<rparr>) b)"
  "grows a b \<Longrightarrow> grows a (update_row i (\<lambda>r. if is_hidden r then r\<lparr> is_hidden := h, is_updated := now \<rparr> else r) b)"
  by (rule grows_status_row_on; simp add: issue_name_def)+

lemma grows_notices [simp]:
  "grows a b \<Longrightarrow> grows a (notify_assignee now r actor c b)"
  "grows a b \<Longrightarrow> grows a (insert_notification now who kind tt c i b)"
  "grows a b \<Longrightarrow> grows a (foldl (\<lambda>b who. insert_notification now who kind tt c i b) b ws)"
  by (erule grows_trans, rule grows_notify grows_notification grows_notify_fold)+

section \<open>Every operation is a growth\<close>

lemma grows_transition_in_tx: "transition_issue_in_tx now r i t actor b = Inr b' \<Longrightarrow> \<forall>a. grows a b \<longrightarrow> grows a b'"
  by (auto simp: transition_issue_in_tx_def and_then_Inr Let_def
      dest!: prim_grows split: option.splits if_splits sum.splits)

lemma transition_grows: "grows b (fst (transition_issue now i t actor b))"
  unfolding transition_issue_def fst_reread
  by (rule grows_commit) (auto simp: and_then_Inr dest!: grows_transition_in_tx)

lemma move_grows: "grows b (fst (move_issue now i t p actor b))"
  unfolding move_issue_def fst_reread
  by (rule grows_commit)
    (auto simp: and_then_Inr Let_def dest!: prim_grows split: option.splits if_splits)

lemma rollback_dispatch_grows: "grows b (fst (rollback_dispatch_failure now i s pa pai actor b))"
  by (auto simp: rollback_dispatch_failure_def split: sum.splits if_splits dest!: prim_grows)

lemma reopen_grows: "grows b (fst (reopen_issue now i actor b))"
  unfolding reopen_issue_def fst_reread
  by (rule grows_commit)
    (auto simp: and_then_Inr dest!: prim_grows grows_transition_in_tx split: if_splits option.splits)

lemma rollback_decision_grows: "grows b (fst (rollback_decision now v b))"
  unfolding rollback_decision_def
  by (rule grows_commit_with)
    (auto simp: and_then_Inr dest!: prim_grows split: option.splits if_splits)

lemma rollback_done_grows: "grows b (fst (rollback_done_to_in_review now i reason b))"
  unfolding rollback_done_to_in_review_def
  by (rule grows_commit_with)
    (auto simp: and_then_Inr dest!: prim_grows split: if_splits)

lemma archive_grows: "archive_rows now actor is b = Inr (b', out) \<Longrightarrow> grows b b'"
proof (induction "is" arbitrary: b b' out)
  case (Cons i "is")
  let ?up = "update_row i (\<lambda>r. r\<lparr> is_hidden := True, is_updated := now \<rparr>) b"
  from Cons.prems obtain d b1 out' where
    a: "insert_activity now i actor ''issue_bulk_archive'' d ?up = Inr b1"
    and r: "archive_rows now actor is b1 = Inr (b', out')"
    by (auto simp: and_then_Inr split: if_splits)
  have "grows b b1" using prim_grows(2) [OF a] by simp
  then show ?case using Cons.IH [OF r] by (rule grows_trans)
qed simp

lemma bulk_archive_grows: "grows b (fst (bulk_archive_cancelled now is actor b))"
  unfolding bulk_archive_cancelled_def by (rule grows_commit_with) (rule archive_grows)

lemma grows_guards:
  "grows a (fst x) \<Longrightarrow> grows a b \<Longrightarrow> grows a (fst (case c of Some e \<Rightarrow> (b, Inl e) | None \<Rightarrow> x))"
  "grows a (fst x) \<Longrightarrow> grows a b \<Longrightarrow> grows a (fst (if g then (b, y) else x))"
  by (auto split: option.splits)

lemma validate_parent:
  "validate_issue_refs_on b p j self = None \<Longrightarrow> p = Some q \<Longrightarrow> q \<in> ids_of b \<and> self \<noteq> Some q"
  by (auto simp: validate_issue_refs_on_def has_issue_ids split: option.splits if_splits)

lemma apply_set_opt_same: "apply_set_opt n old new = (v, cs) \<Longrightarrow> cs = [] \<and> v = old \<or> cs = [n]"
  by (auto simp: apply_set_opt_def split: option.splits if_splits)

lemma patched_parent:
  assumes "patched p r = (r', cs)" "''parent_issue_id'' \<notin> set cs"
  shows "is_parent r' = is_parent r"
  using assms by (auto simp: patched_def Let_def apply_set_opt_def split: prod.splits option.splits if_splits)

lemma update_grows: "grows b (fst (update_issue now i p actor b))"
  unfolding update_issue_def fst_reread
proof (rule grows_commit, goal_cases)
  case (1 b')
  then obtain r where r: "get_issue i b = Inr r" by (auto simp: and_then_Inr)
  obtain r' cs where p: "patched p r = (r', cs)" by fastforce
  let ?f = "\<lambda>x. x\<lparr> is_title := is_title r', is_description := is_description r',
                is_priority := is_priority r', is_project := is_project r', is_due := is_due r',
                is_position := is_position r', is_criteria := is_criteria r', is_parent := is_parent r',
                is_updated := now \<rparr>"
  have ok: "(if ''parent_issue_id'' \<in> set cs \<or> ''project_id'' \<in> set cs
             then validate_issue_refs_on b (is_parent r') (is_project r') (Some i) else None) = None"
    using 1 unfolding r and_then.simps p prod.case by (auto split: option.splits)
  have "parent_ok (ids_of b) (?f x)" if l: "linked b" and x: "is_id x = i" for x
  proof (cases "''parent_issue_id'' \<in> set cs")
    case True
    with ok x show ?thesis by (auto simp: parent_ok_def split: option.splits dest: validate_parent)
  next
    case False
    have "r \<in> set (b_issues b)" "is_id r = i"
      using r by (auto simp: get_issue_def find_issue_def find_Some_iff split: option.splits)
    with l x patched_parent [OF p False] show ?thesis
      by (auto simp: linked_def list_all_iff parent_ok_def split: option.splits)
  qed
  then have u: "grows b (update_row i ?f b)" by (intro grows_update_row) (auto simp: issue_name_def)
  with 1 ok show ?case
    unfolding r and_then.simps p prod.case by (auto simp: Let_def split: if_splits dest!: prim_grows)
qed

lemma dependencies_grow:
  "insert_dependencies i ds b = Inr b' \<Longrightarrow> grows b b'"
proof (induction ds arbitrary: b)
  case (Cons d ds)
  then obtain b1 where one: "insert_dependency i d b = Inr b1" and r: "insert_dependencies i ds b1 = Inr b'"
    by (auto simp: and_then_Inr)
  then have "grows b b1"
    by (auto simp: insert_dependency_def has_issue_ids linked_def split: if_splits intro!: grows_deps)
  then show ?case using Cons.IH [OF r] by (rule grows_trans)
qed simp

lemma set_deps_grows: "grows b (fst (set_issue_dependencies i ds b))"
  unfolding set_issue_dependencies_def
proof (rule grows_commit)
  fix b'
  assume new: "insert_dependencies i ds (b\<lparr> b_deps := filter (\<lambda>e. fst e \<noteq> i) (b_deps b) \<rparr>) = Inr b'"
  have "grows b (b\<lparr> b_deps := filter (\<lambda>e. fst e \<noteq> i) (b_deps b) \<rparr>)"
    by (rule grows_deps) (auto simp: linked_def)
  then show "grows b b'" using dependencies_grow [OF new] by (rule grows_trans)
qed

lemma assign_grows: "grows b (fst (assign_issue now i t x actor b))"
  unfolding assign_issue_def
proof (intro grows_guards grows_refl, unfold fst_reread, rule grows_commit, goal_cases)
  case (1 b')
  then show ?case by (auto simp: and_then_Inr Let_def dest!: prim_grows split: option.splits)
qed

lemma roll_claim_grows: "grows b (fst (rollback_claim now i x actor b))"
  by (auto simp: rollback_claim_def split: sum.splits dest!: prim_grows)

lemma claim_grows: "grows b (fst (claim_issue now i x actor b))"
  unfolding claim_issue_def Let_def
proof (intro grows_guards grows_refl, unfold fst_reread, rule grows_commit, goal_cases)
  case (1 b')
  then show ?case by (auto simp: and_then_Inr Let_def dest!: prim_grows split: if_splits)
qed

lemma comment_on_grows: "add_comment_on now uni n b = Inr b' \<Longrightarrow> grows b b'"
  by (auto simp: add_comment_on_def and_then_Inr notify_comment_def Let_def dest!: prim_grows split: if_splits)

lemma comment_grows: "grows b (fst (add_comment now uni n b))"
  by (auto simp: add_comment_def intro: grows_commit comment_on_grows)

lemma note_grows: "grows b (fst (add_activity now i actor a d b))"
  unfolding add_activity_def by (rule grows_commit) (rule grows_insert_activity)

lemma subscribe_grows: "grows b (fst (subscribe i who reason b))"
  unfolding subscribe_def by (rule grows_commit) (rule grows_insert_subscriber)

lemma unsubscribe_grows: "grows b (fst (unsubscribe i who b))"
  by (auto simp: unsubscribe_def grows_def linked_def image_subset_iff intro: distinct_map_filter)

lemma grows_new_issue:
  assumes number: "number = b_prefix b @ 45 # int_text (b_counter b + 1)"
    and refs: "validate_issue_refs_on b1 (ni_parent n) (ni_project n) None = None" and b1: "b_issues b1 = b_issues b"
  shows "grows b (b\<lparr> b_counter := b_counter b + 1,
     b_issues := b_issues b @ [new_row now uni n (int (length (b_issues b)) + 1) number pos] \<rparr>)"
proof -
  let ?r = "new_row now uni n (int (length (b_issues b)) + 1) number pos"
  let ?b = "b\<lparr> b_counter := b_counter b + 1, b_issues := b_issues b @ [?r] \<rparr>"
  have ids: "ids_of ?b = insert (int (length (b_issues b)) + 1) (ids_of b)"
    by (simp add: ids_of_def new_row_def)
  have named: "named ?b" "int (length (b_issues b)) + 1 \<notin> ids_of b" if "named b"
  proof -
    have "issue_name r \<in> nth_name (b_prefix b) ` {0..<length (b_issues b)}" if "r \<in> set (b_issues b)" for r
      using \<open>named b\<close> that unfolding named_def by (metis set_map set_upt imageI)
    then show "int (length (b_issues b)) + 1 \<notin> ids_of b" by (fastforce simp: ids_of_def issue_name_def nth_name_def)
    show "named ?b" using that by (simp add: named_def issue_name_def nth_name_def new_row_def number)
  qed
  have par: "parent_ok (ids_of ?b) ?r" if "named b"
    using named(2) [OF that] validate_parent [OF refs] unfolding ids
    by (auto simp: parent_ok_def new_row_def ids_of_def b1 split: option.splits)
  have "linked ?b" if l: "linked b"
  proof -
    have "named b" using l by (simp add: linked_def)
    moreover have "parent_ok (ids_of ?b) r" if "r \<in> set (b_issues b)" for r
      using l that unfolding ids by (auto simp: linked_def list_all_iff parent_ok_def split: option.splits)
    ultimately show ?thesis
      using l named par unfolding linked_def ids by (auto simp: list_all_iff image_subset_iff)
  qed
  then show ?thesis by (simp add: grows_def)
qed

lemma create_grows: "grows b (fst (create_issue now uni n b))"
  unfolding create_issue_def Let_def
proof (intro grows_guards grows_refl, unfold fst_reread, rule grows_commit, goal_cases)
  case (1 b')
  let ?i = "int (length (b_issues b)) + 1" and ?number = "b_prefix b @ 45 # int_text (b_counter b + 1)"
  let ?b = "b\<lparr> b_counter := b_counter b + 1, b_issues := b_issues b @ [new_row now uni n ?i ?number (b_counter b + 1)] \<rparr>"
  from 1 have "grows b ?b" by (auto intro: grows_new_issue split: option.splits)
  with 1 show ?case
    by (cases "ni_assignee n"; cases "ni_assignee_id n")
      (auto simp: and_then_Inr dest!: prim_grows split: option.splits)
qed

lemma dispatch_grows: "grows b (fst (try_claim_dispatch now q task i w actor b))"
proof -
  have "grows b b'" if new: "insert_dispatch_locked now q task i w actor g b = Inr b'" for b' g
  proof -
    let ?b = "b\<lparr> b_dispatches := b_dispatches b @ [\<lparr> ds_task = task, ds_issue = i, ds_worker = w,
           ds_state = DS_Dispatched, ds_at = now, ds_completed = None, ds_generation = g \<rparr>] \<rparr>"
    have "grows b ?b"
      by (rule grows_dispatches)
        (use new in \<open>auto simp: insert_dispatch_locked_def has_issue_ids list_ex_iff linked_def split: if_splits\<close>)
    with new show ?thesis by (auto simp: insert_dispatch_locked_def split: if_splits dest!: prim_grows)
  qed
  then show ?thesis by (auto simp: try_claim_dispatch_def Let_def split: sum.splits)
qed

lemma end_rows_grows: "end_rows now s P b = (won, b') \<Longrightarrow> grows b b'"
  by (auto simp: end_rows_def intro!: grows_rows)

lemma finish_grows: "grows b (fst (finish_dispatch now task s b))"
  by (auto simp: finish_dispatch_def intro: end_rows_grows split: prod.splits)

lemma mark_grows: "grows b (fst (mark_dispatch_running task w b))"
  by (auto simp: mark_dispatch_running_def Let_def intro!: grows_rows)

lemma end_logged_grows: "grows b (fst (end_logged now s P task actor action d b))"
  by (auto simp: end_logged_def split: prod.splits bool.splits option.splits sum.splits
      dest!: end_rows_grows prim_grows)

lemmas op_grows = create_grows update_grows transition_grows move_grows rollback_dispatch_grows reopen_grows
  rollback_decision_grows rollback_done_grows bulk_archive_grows set_deps_grows assign_grows claim_grows
  roll_claim_grows comment_grows note_grows subscribe_grows unsubscribe_grows dispatch_grows finish_grows mark_grows
  end_logged_grows

lemma step_grows: "grows b (board_step uni q b e)"
  by (cases "(uni, q, b, e)" rule: board_step.cases)
    (auto simp: op_grows cancel_dispatch_def fail_dispatch_def fail_dispatch_checked_def fail_dispatch_inner_def
      split: option.splits)

lemma run_grows: "grows b (run_events (board_step uni q) b es)"
proof (induction es arbitrary: b)
  case (Cons e es)
  show ?case using grows_trans [OF step_grows Cons.IH] by simp
qed simp

interpretation links: step_invariant "board_step uni q" linked for uni q
  by unfold_locales (use step_grows in \<open>auto simp: grows_def\<close>)

section \<open>Numbers\<close>

lemma decimal_inject: "decimal m = decimal n \<Longrightarrow> m = n"
  by (metis parse_unsigned_decimal max.cobounded1 max.cobounded2 option.inject)

lemma int_text_inject: "0 \<le> m \<Longrightarrow> 0 \<le> n \<Longrightarrow> int_text m = int_text n \<Longrightarrow> m = n"
  by (auto simp: int_text_def of_nat_text_def dest: decimal_inject)

lemma named_distinct:
  assumes "named b"
  shows "distinct (map is_id (b_issues b))" "distinct (map is_number (b_issues b))"
proof -
  have n: "map issue_name (b_issues b) = map (nth_name (b_prefix b)) [0..<length (b_issues b)]"
    using assms by (simp add: named_def)
  have i: "map is_id (b_issues b) = map fst (map issue_name (b_issues b))"
    and t: "map is_number (b_issues b) = map snd (map issue_name (b_issues b))"
    by (simp_all add: issue_name_def)
  show "distinct (map is_id (b_issues b))" unfolding i n by (simp add: distinct_map inj_on_def nth_name_def)
  show "distinct (map is_number (b_issues b))" unfolding t n
    by (auto simp: distinct_map inj_on_def nth_name_def dest!: int_text_inject [rotated 2])
qed

text \<open>
  C28. The tables of the board refer to each other correctly, whatever operations are called in whatever order and
  whether they succeed or fail: issues are numbered without gaps under their prefix and no number occurs twice; the
  parent of an issue is another issue that exists; every comment, every entry of the log, every subscription, both ends
  of every dependency and every dispatch belong to issues that exist; subscriptions, dependencies and tasks occur
  once. No operation removes an issue, changes its number, or removes or changes a comment.
\<close>

theorem references_stay_whole:
  "let b = board_run uni q pre ops; b0 = board_run uni q pre (take k ops) in
     linked b \<and> distinct (map is_number (b_issues b)) \<and>
     prefix (map issue_name (b_issues b0)) (map issue_name (b_issues b)) \<and> prefix (b_comments b0) (b_comments b)"
proof -
  have l: "linked (board_run uni q pre ops)"
    unfolding board_run_def by (rule links.run_keeps [OF linked_open])
  then have "named (board_run uni q pre ops)" by (simp add: linked_def)
  moreover have "board_run uni q pre ops = run_events (board_step uni q) (board_run uni q pre (take k ops)) (drop k ops)"
    unfolding board_run_def run_events_append [symmetric] by simp
  then have "grows (board_run uni q pre (take k ops)) (board_run uni q pre ops)"
    using run_grows by metis
  ultimately show ?thesis using l named_distinct(2) by (simp add: grows_def Let_def)
qed

end
