(* ===== verification/Board_Talk.thy ===== *)
theory Board_Talk
  imports Board_Links "HOL-Library.List_Lexorder" "HOL-Library.Product_Lexorder"
begin

text \<open>
  Discussions on the board (\<open>crates/nemesis-board/src/store.rs\<close>, rows in \<open>models.rs\<close>): channels with their members
  and messages, the claims that make a post with a client's message id happen once, and the ledger that numbers every
  post on an issue or in a channel. The tables of the issues are those of \<open>Board_Store\<close>. Row ids of channels and
  messages come from counters that never go back; an insertion that is ignored because the row exists may use one up
  (\<open>burn\<close>), as SQLite documents. The cached answer of a claim is read back as it was written.
\<close>

section \<open>Rows\<close>

record channel =
  ch_id :: int
  ch_name :: utext
  ch_topic :: utext
  ch_at :: int

record channel_member =
  me_channel :: int
  me_who :: actor
  me_seen :: int

record channel_message =
  ms_id :: int
  ms_channel :: int
  ms_sender :: actor
  ms_content :: utext
  ms_parent :: "int option"
  ms_type :: utext
  ms_at :: int

record new_message =
  nm_channel :: int
  nm_sender :: actor
  nm_content :: utext
  nm_parent :: "int option"
  nm_type :: utext

datatype thread_kind = Issue_Thread | Channel_Thread

record ledger_row =
  lg_seq :: int
  lg_kind :: thread_kind
  lg_thread :: int
  lg_message :: int
  lg_sender :: utext
  lg_at :: int

record ledger_entry =
  le_seq :: int
  le_kind :: thread_kind
  le_thread :: int
  le_message :: int
  le_sender_type :: utext
  le_sender :: utext
  le_content :: utext
  le_parent :: "int option"
  le_tag :: utext
  le_at :: int

text \<open>The answer to a first post: the id of the comment or message, and its number in the ledger.\<close>

datatype first_response = Comment_Posted int int | Message_Posted int int

record claim_row =
  cl_origin :: utext
  cl_client :: utext
  cl_response :: "first_response option"
  cl_at :: int

record posted_message =
  pm_new :: bool
  pm_id :: int
  pm_seq :: int
  pm_response :: "first_response option"

record talk =
  tk_board :: board
  tk_channels :: "channel list"
  tk_channel_seq :: int
  tk_members :: "channel_member list"
  tk_messages :: "channel_message list"
  tk_message_seq :: int
  tk_claims :: "claim_row list"
  tk_ledger :: "ledger_row list"

definition talk_open :: "board \<Rightarrow> talk" where
  "talk_open b = \<lparr> tk_board = b, tk_channels = [], tk_channel_seq = 0, tk_members = [], tk_messages = [],
     tk_message_seq = 0, tk_claims = [], tk_ledger = [] \<rparr>"

datatype talk_error =
    Blank_Content
  | Blank_Client_Id
  | Blank_Message
  | Blank_Channel_Name
  | Channel_Exists utext
  | No_Channel int
  | Foreign_Key_Failed
  | Unknown_Thread_Kind utext
  | Store_Failed store_error

type_synonym 'a talk_reply = "talk \<times> (talk_error + 'a)"

section \<open>Channels and members\<close>

definition normalize_channel_name :: "utext \<Rightarrow> talk_error + utext" where
  "normalize_channel_name name =
     (let t = text_trim name in
      if t = [] then Inl Blank_Channel_Name else Inr (if text_starts_with t [35] then t else 35 # t))"

definition has_channel :: "int \<Rightarrow> talk \<Rightarrow> bool" where
  "has_channel c s \<longleftrightarrow> list_ex (\<lambda>x. ch_id x = c) (tk_channels s)"

definition channel_taken :: "utext \<Rightarrow> talk \<Rightarrow> bool" where
  "channel_taken name s \<longleftrightarrow> list_ex (\<lambda>x. ch_name x = name) (tk_channels s)"

definition insert_channel :: "int \<Rightarrow> utext \<Rightarrow> utext \<Rightarrow> talk \<Rightarrow> talk" where
  "insert_channel now name topic s =
     (let i = tk_channel_seq s + 1 in
      s\<lparr> tk_channel_seq := i,
         tk_channels := tk_channels s @ [\<lparr> ch_id = i, ch_name = name, ch_topic = topic, ch_at = now \<rparr>] \<rparr>)"

definition default_channels :: "utext list" where
  "default_channels = [of_str ''#dev'', of_str ''#qa'', of_str ''#general'', of_str ''#team'']"

definition ensure_channel :: "bool \<Rightarrow> int \<Rightarrow> utext \<Rightarrow> talk \<Rightarrow> talk" where
  "ensure_channel burn now name s =
     (if channel_taken name s then (if burn then s\<lparr> tk_channel_seq := tk_channel_seq s + 1 \<rparr> else s)
      else insert_channel now name [] s)"

definition ensure_default_channels :: "bool \<Rightarrow> int \<Rightarrow> talk \<Rightarrow> talk" where
  "ensure_default_channels burn now s = fold (ensure_channel burn now) default_channels s"

definition create_channel :: "int \<Rightarrow> utext \<Rightarrow> utext \<Rightarrow> talk \<Rightarrow> channel talk_reply" where
  "create_channel now name topic s =
     (case normalize_channel_name name of Inl e \<Rightarrow> (s, Inl e)
      | Inr n \<Rightarrow>
        if channel_taken n s then (s, Inl (Channel_Exists n))
        else (insert_channel now n topic s,
          Inr \<lparr> ch_id = tk_channel_seq s + 1, ch_name = n, ch_topic = topic, ch_at = now \<rparr>))"

definition list_channels :: "talk \<Rightarrow> channel list" where
  "list_channels s = sort_key ch_id (tk_channels s)"

definition get_channel_by_name :: "utext \<Rightarrow> talk \<Rightarrow> talk_error + channel option" where
  "get_channel_by_name name s =
     (case normalize_channel_name name of Inl e \<Rightarrow> Inl e
      | Inr n \<Rightarrow> Inr (find (\<lambda>x. ch_name x = n) (tk_channels s)))"

definition is_member :: "int \<Rightarrow> actor \<Rightarrow> channel_member \<Rightarrow> bool" where
  "is_member c who m \<longleftrightarrow> me_channel m = c \<and> me_who m = who"

definition join_channel :: "int \<Rightarrow> actor \<Rightarrow> talk \<Rightarrow> unit talk_reply" where
  "join_channel c who s =
     (if \<not> has_channel c s then (s, Inl (No_Channel c))
      else if list_ex (is_member c who) (tk_members s) then (s, Inr ())
      else (s\<lparr> tk_members := tk_members s @ [\<lparr> me_channel = c, me_who = who, me_seen = 0 \<rparr>] \<rparr>, Inr ()))"

definition leave_channel :: "int \<Rightarrow> actor \<Rightarrow> talk \<Rightarrow> talk" where
  "leave_channel c who s = s\<lparr> tk_members := filter (\<lambda>m. \<not> is_member c who m) (tk_members s) \<rparr>"

definition has_any_channel_membership :: "actor \<Rightarrow> talk \<Rightarrow> bool" where
  "has_any_channel_membership who s \<longleftrightarrow> 0 < length (filter (\<lambda>m. me_who m = who) (tk_members s))"

definition list_channel_members :: "int \<Rightarrow> talk \<Rightarrow> channel_member list" where
  "list_channel_members c s =
     sort_key (\<lambda>m. (ac_kind (me_who m), ac_id (me_who m))) (filter (\<lambda>m. me_channel m = c) (tk_members s))"

definition mark_channel_seen :: "int \<Rightarrow> actor \<Rightarrow> int \<Rightarrow> talk \<Rightarrow> talk" where
  "mark_channel_seen c who i s =
     s\<lparr> tk_members := map (\<lambda>m. if is_member c who m then m\<lparr> me_seen := max (me_seen m) i \<rparr> else m) (tk_members s) \<rparr>"

section \<open>Messages\<close>

definition append_channel_message_on :: "int \<Rightarrow> new_message \<Rightarrow> talk \<Rightarrow> channel_message talk_reply" where
  "append_channel_message_on now n s =
     (if text_trim (nm_content n) = [] then (s, Inl Blank_Message)
      else if \<not> has_channel (nm_channel n) s then (s, Inl Foreign_Key_Failed)
      else (let m = \<lparr> ms_id = tk_message_seq s + 1, ms_channel = nm_channel n, ms_sender = nm_sender n,
                 ms_content = nm_content n, ms_parent = nm_parent n,
                 ms_type = (if text_trim (nm_type n) = [] then of_str ''text'' else nm_type n), ms_at = now \<rparr> in
        (s\<lparr> tk_message_seq := ms_id m, tk_messages := tk_messages s @ [m] \<rparr>, Inr m)))"

definition append_channel_message :: "int \<Rightarrow> new_message \<Rightarrow> talk \<Rightarrow> channel_message talk_reply" where
  "append_channel_message now n s = append_channel_message_on now n s"

text \<open>\<open>LIMIT\<close> of SQLite: a negative bound is none.\<close>

definition limited :: "int \<Rightarrow> 'a list \<Rightarrow> 'a list" where
  "limited k xs = (if k < 0 then xs else take (nat k) xs)"

definition list_channel_messages :: "int \<Rightarrow> int \<Rightarrow> int \<Rightarrow> talk \<Rightarrow> channel_message list" where
  "list_channel_messages c after_id limit s =
     limited limit (sort_key ms_id (filter (\<lambda>m. ms_channel m = c \<and> after_id < ms_id m) (tk_messages s)))"

definition sweep_channel_messages :: "int \<Rightarrow> int \<Rightarrow> talk \<Rightarrow> talk \<times> nat" where
  "sweep_channel_messages now retention_days s =
     (if retention_days \<le> 0 then (s, 0)
      else (let cutoff = now - min (retention_days * (24 * 3600)) (2 ^ 63 - 1);
                kept = filter (\<lambda>m. \<not> ms_at m < cutoff) (tk_messages s) in
        (s\<lparr> tk_messages := kept \<rparr>, length (tk_messages s) - length kept)))"

section \<open>Posting once\<close>

definition is_claim :: "utext \<Rightarrow> utext \<Rightarrow> claim_row \<Rightarrow> bool" where
  "is_claim origin client r \<longleftrightarrow> cl_origin r = origin \<and> cl_client r = client"

definition claim_message :: "int \<Rightarrow> utext \<Rightarrow> utext \<Rightarrow> talk \<Rightarrow> talk" where
  "claim_message now origin client s =
     s\<lparr> tk_claims := tk_claims s @ [\<lparr> cl_origin = origin, cl_client = client, cl_response = None, cl_at = now \<rparr>] \<rparr>"

definition unclaim_message :: "utext \<Rightarrow> utext \<Rightarrow> talk \<Rightarrow> talk" where
  "unclaim_message origin client s = s\<lparr> tk_claims := filter (\<lambda>r. \<not> is_claim origin client r) (tk_claims s) \<rparr>"

definition answer_claim :: "utext \<Rightarrow> utext \<Rightarrow> first_response option \<Rightarrow> talk \<Rightarrow> talk" where
  "answer_claim origin client x s =
     s\<lparr> tk_claims := map (\<lambda>r. if is_claim origin client r then r\<lparr> cl_response := x \<rparr> else r) (tk_claims s) \<rparr>"

definition comment_type_of_text :: "utext \<Rightarrow> comment_type option" where
  "comment_type_of_text t = find (\<lambda>c. of_str (comment_type_str c) = t)
     [C_Comment, C_Status_Change, C_System, C_Discussion, C_Question, C_Delivery]"

record envelope =
  ev_origin :: utext
  ev_client :: utext
  ev_kind :: utext
  ev_target :: int
  ev_sender :: actor
  ev_content :: utext
  ev_reply :: "int option"
  ev_tag :: utext

text \<open>The comment or the message is stored; the answer is its kind and its row id.\<close>

definition store_post :: "int \<Rightarrow> unicode \<Rightarrow> envelope \<Rightarrow> talk \<Rightarrow> (thread_kind \<times> int) talk_reply" where
  "store_post now uni e s =
     (if ev_kind e = of_str ''issue'' then
        (case add_comment_on now uni \<lparr> nc_issue = ev_target e, nc_author = ev_sender e, nc_content = ev_content e,
            nc_parent = ev_reply e,
            nc_type = (case comment_type_of_text (ev_tag e) of Some c \<Rightarrow> c | None \<Rightarrow> C_Comment) \<rparr> (tk_board s) of
           Inl x \<Rightarrow> (s, Inl (Store_Failed x))
         | Inr b \<Rightarrow> (s\<lparr> tk_board := b \<rparr>, Inr (Issue_Thread, int (length (b_comments (tk_board s))) + 1)))
      else if ev_kind e = of_str ''channel'' then
        (case append_channel_message_on now \<lparr> nm_channel = ev_target e, nm_sender = ev_sender e,
            nm_content = ev_content e, nm_parent = ev_reply e, nm_type = ev_tag e \<rparr> s of
           (s, Inl x) \<Rightarrow> (s, Inl x)
         | (s, Inr m) \<Rightarrow> (s, Inr (Channel_Thread, ms_id m)))
      else (s, Inl (Unknown_Thread_Kind (ev_kind e))))"

definition log_post :: "int \<Rightarrow> envelope \<Rightarrow> thread_kind \<Rightarrow> int \<Rightarrow> talk \<Rightarrow> int \<times> talk" where
  "log_post now e kind i s =
     (let q = int (length (tk_ledger s)) + 1 in
      (q, s\<lparr> tk_ledger := tk_ledger s @ [\<lparr> lg_seq = q, lg_kind = kind, lg_thread = ev_target e, lg_message = i,
         lg_sender = ac_id (ev_sender e), lg_at = now \<rparr>] \<rparr>))"

definition response_of :: "thread_kind \<Rightarrow> int \<Rightarrow> int \<Rightarrow> first_response" where
  "response_of kind i q = (case kind of Issue_Thread \<Rightarrow> Comment_Posted i q | Channel_Thread \<Rightarrow> Message_Posted i q)"

definition post_discussion_envelope :: "int \<Rightarrow> unicode \<Rightarrow> envelope \<Rightarrow> talk \<Rightarrow> posted_message talk_reply" where
  "post_discussion_envelope now uni e s =
     (if text_trim (ev_content e) = [] then (s, Inl Blank_Content)
      else if text_trim (ev_client e) = [] then (s, Inl Blank_Client_Id)
      else case find (is_claim (ev_origin e) (ev_client e)) (tk_claims s) of
        Some r \<Rightarrow> (s, Inr \<lparr> pm_new = False, pm_id = 0, pm_seq = 0, pm_response = cl_response r \<rparr>)
      | None \<Rightarrow>
        (case store_post now uni e (claim_message now (ev_origin e) (ev_client e) s) of
           (s', Inl x) \<Rightarrow> (unclaim_message (ev_origin e) (ev_client e) s', Inl x)
         | (s', Inr (kind, i)) \<Rightarrow>
           (case log_post now e kind i s' of (q, s'') \<Rightarrow>
             (answer_claim (ev_origin e) (ev_client e) (Some (response_of kind i q)) s'',
              Inr \<lparr> pm_new = True, pm_id = i, pm_seq = q, pm_response = Some (response_of kind i q) \<rparr>))))"

definition check_duplicate :: "utext \<Rightarrow> utext \<Rightarrow> talk \<Rightarrow> first_response option" where
  "check_duplicate origin client s =
     Option.bind (find (is_claim origin client) (tk_claims s)) cl_response"

section \<open>Catching up\<close>

definition comment_row :: "int \<Rightarrow> talk \<Rightarrow> comment option" where
  "comment_row i s = find (\<lambda>c. cm_id c = i) (b_comments (tk_board s))"

definition message_row :: "int \<Rightarrow> talk \<Rightarrow> channel_message option" where
  "message_row i s = find (\<lambda>m. ms_id m = i) (tk_messages s)"

definition bare_entry :: "ledger_row \<Rightarrow> ledger_entry" where
  "bare_entry l = \<lparr> le_seq = lg_seq l, le_kind = lg_kind l, le_thread = lg_thread l, le_message = lg_message l,
     le_sender_type = [], le_sender = [], le_content = [], le_parent = None, le_tag = [], le_at = lg_at l \<rparr>"

definition join_entry :: "talk \<Rightarrow> ledger_row \<Rightarrow> ledger_entry" where
  "join_entry s l = (case lg_kind l of
     Issue_Thread \<Rightarrow> (case comment_row (lg_message l) s of None \<Rightarrow> bare_entry l
       | Some c \<Rightarrow> (bare_entry l)\<lparr> le_sender_type := ac_kind (cm_author c), le_sender := ac_id (cm_author c),
           le_content := cm_content c, le_parent := cm_parent c, le_tag := of_str (comment_type_str (cm_type c)),
           le_at := cm_at c \<rparr>)
   | Channel_Thread \<Rightarrow> (case message_row (lg_message l) s of None \<Rightarrow> bare_entry l
       | Some m \<Rightarrow> (bare_entry l)\<lparr> le_sender_type := ac_kind (ms_sender m), le_sender := ac_id (ms_sender m),
           le_content := ms_content m, le_parent := ms_parent m, le_tag := ms_type m, le_at := ms_at m \<rparr>))"

definition list_messages_since :: "int \<Rightarrow> int \<Rightarrow> talk \<Rightarrow> ledger_entry list" where
  "list_messages_since since limit s =
     limited limit (map (join_entry s) (sort_key lg_seq (filter (\<lambda>l. since < lg_seq l) (tk_ledger s))))"

definition latest_seq :: "talk \<Rightarrow> int" where
  "latest_seq s = (if tk_ledger s = [] then 0 else Max (set (map lg_seq (tk_ledger s))))"

end
