(* ===== verification/Board_Once.thy ===== *)
theory Board_Once
  imports Board_Talk
begin

text \<open>
  What discussions promise: a post with a client's message id happens once and every repetition gets the first
  answer (the contract \<open>first_answer\<close>), and the ledger numbers the posts without gaps.
\<close>

section \<open>Operations\<close>

datatype talk_op =
    On_Board board_op
  | Ensure_Defaults bool
  | New_Channel utext utext
  | Join_Channel int actor
  | Leave_Channel int actor
  | Mark_Seen int actor int
  | Say new_message
  | Sweep int
  | Post envelope

fun talk_step :: "unicode \<Rightarrow> (utext \<Rightarrow> utext) \<Rightarrow> talk \<Rightarrow> int \<times> talk_op \<Rightarrow> talk" where
  "talk_step uni q s (now, On_Board x) = s\<lparr> tk_board := board_step uni q (tk_board s) (now, x) \<rparr>"
| "talk_step uni q s (now, Ensure_Defaults burn) = ensure_default_channels burn now s"
| "talk_step uni q s (now, New_Channel name topic) = fst (create_channel now name topic s)"
| "talk_step uni q s (now, Join_Channel c who) = fst (join_channel c who s)"
| "talk_step uni q s (now, Leave_Channel c who) = leave_channel c who s"
| "talk_step uni q s (now, Mark_Seen c who i) = mark_channel_seen c who i s"
| "talk_step uni q s (now, Say n) = fst (append_channel_message now n s)"
| "talk_step uni q s (now, Sweep days) = fst (sweep_channel_messages now days s)"
| "talk_step uni q s (now, Post e) = fst (post_discussion_envelope now uni e s)"

definition talk_run :: "unicode \<Rightarrow> (utext \<Rightarrow> utext) \<Rightarrow> utext \<Rightarrow> (int \<times> talk_op) list \<Rightarrow> talk" where
  "talk_run uni q pre ops = run_events (talk_step uni q) (talk_open (board_open pre)) ops"

section \<open>The first answer\<close>

text \<open>
  An object whose state remembers, for a request, the answer it gave: other requests do not make it forget, and a
  request whose answer is remembered changes nothing and is answered alike.
\<close>

locale first_answer =
  fixes step :: "'s \<Rightarrow> 'e \<Rightarrow> 's"
    and recall :: "'k \<Rightarrow> 's \<Rightarrow> 'a option"
  assumes recall_stays: "recall k s = Some x \<Longrightarrow> recall k (step s e) = Some x"
begin

lemma recall_run: "recall k s = Some x \<Longrightarrow> recall k (run_events step s es) = Some x"
  by (induction es arbitrary: s) (auto dest: recall_stays)

end

definition claim_of :: "utext \<times> utext \<Rightarrow> talk \<Rightarrow> claim_row option" where
  "claim_of k s = find (is_claim (fst k) (snd k)) (tk_claims s)"

lemma claim_of_board [simp]: "claim_of k (s\<lparr> tk_board := b \<rparr>) = claim_of k s"
  by (simp add: claim_of_def)

lemma claim_of_messages [simp]:
  "claim_of k (s\<lparr> tk_message_seq := i, tk_messages := ms \<rparr>) = claim_of k s"
  "claim_of k (s\<lparr> tk_messages := ms \<rparr>) = claim_of k s"
  "claim_of k (s\<lparr> tk_ledger := ls \<rparr>) = claim_of k s"
  by (simp_all add: claim_of_def)

lemma find_append: "find P (xs @ ys) = (case find P xs of Some x \<Rightarrow> Some x | None \<Rightarrow> find P ys)"
  by (induction xs) auto

lemma find_filter_not: "(\<And>x. P x \<Longrightarrow> \<not> Q x) \<Longrightarrow> find P (filter (\<lambda>x. \<not> Q x) xs) = find P xs"
  by (induction xs) auto

lemma find_map_other:
  "(\<And>x. P x \<Longrightarrow> \<not> Q x) \<Longrightarrow> (\<And>x. P (f x) = P x) \<Longrightarrow> find P (map (\<lambda>x. if Q x then f x else x) xs) = find P xs"
  by (induction xs) auto

lemma is_claim_other: "(a, c) \<noteq> (a', c') \<Longrightarrow> is_claim a c r \<Longrightarrow> \<not> is_claim a' c' r"
  by (auto simp: is_claim_def)

lemma claim_of_other:
  assumes "k \<noteq> (a, c)"
  shows "claim_of k (claim_message now a c s) = claim_of k s"
    "claim_of k (unclaim_message a c s) = claim_of k s"
    "claim_of k (answer_claim a c x s) = claim_of k s"
proof -
  have o: "is_claim (fst k) (snd k) r \<Longrightarrow> \<not> is_claim a c r" for r
    by (rule is_claim_other [of "fst k" "snd k"]) (use assms in auto)
  show "claim_of k (claim_message now a c s) = claim_of k s"
    using assms by (cases k) (auto simp: claim_of_def claim_message_def find_append is_claim_def split: option.splits)
  show "claim_of k (unclaim_message a c s) = claim_of k s"
    unfolding claim_of_def unclaim_message_def by (simp add: find_filter_not o)
  show "claim_of k (answer_claim a c x s) = claim_of k s"
    unfolding claim_of_def answer_claim_def
    by (simp, rule find_map_other) (use o in \<open>auto simp: is_claim_def\<close>)
qed

lemma store_post_claims: "store_post now uni e s = (s', r) \<Longrightarrow> tk_claims s' = tk_claims s"
  by (auto simp: store_post_def append_channel_message_on_def Let_def split: if_splits sum.splits prod.splits)

lemma post_claimed:
  assumes "claim_of (ev_origin e, ev_client e) s = Some r" "text_trim (ev_content e) \<noteq> []" "text_trim (ev_client e) \<noteq> []"
  shows "post_discussion_envelope now uni e s
    = (s, Inr \<lparr> pm_new = False, pm_id = 0, pm_seq = 0, pm_response = cl_response r \<rparr>)"
  using assms by (simp add: post_discussion_envelope_def claim_of_def)

lemma post_keeps_claim:
  assumes "claim_of k s = Some r"
  shows "claim_of k (fst (post_discussion_envelope now uni e s)) = Some r"
proof (cases "find (is_claim (ev_origin e) (ev_client e)) (tk_claims s)")
  case None
  then have k: "k \<noteq> (ev_origin e, ev_client e)" using assms by (auto simp: claim_of_def)
  obtain s1 x where st: "store_post now uni e (claim_message now (ev_origin e) (ev_client e) s) = (s1, x)"
    by fastforce
  have "claim_of k s1 = Some r"
    using store_post_claims [OF st] claim_of_other(1) [OF k, of now s] assms by (simp add: claim_of_def)
  then show ?thesis using claim_of_other [OF k] assms
    by (auto simp: post_discussion_envelope_def None st log_post_def Let_def split: sum.splits prod.splits)
next
  case (Some r')
  then show ?thesis using assms by (simp add: post_discussion_envelope_def)
qed

lemma ensure_claims: "tk_claims (ensure_default_channels burn now s) = tk_claims s"
proof -
  have one: "tk_claims (ensure_channel burn now n s) = tk_claims s" for n s
    by (simp add: ensure_channel_def insert_channel_def Let_def)
  show ?thesis by (simp add: ensure_default_channels_def default_channels_def one)
qed

lemma step_keeps_claim:
  assumes "claim_of k s = Some r"
  shows "claim_of k (talk_step uni q s e) = Some r"
  using assms
  by (cases "(uni, q, s, e)" rule: talk_step.cases)
    (auto simp: post_keeps_claim,
      auto simp: claim_of_def ensure_claims create_channel_def insert_channel_def join_channel_def
        leave_channel_def mark_channel_seen_def append_channel_message_def append_channel_message_on_def
        sweep_channel_messages_def Let_def split: sum.splits)

interpretation posts: first_answer "talk_step uni q" claim_of for uni q
  by unfold_locales (rule step_keeps_claim)

lemma post_leaves_claim:
  assumes "post_discussion_envelope now uni e s = (s', Inr p)"
  shows "\<exists>r. claim_of (ev_origin e, ev_client e) s' = Some r \<and> cl_response r = pm_response p \<and> text_trim (ev_client e) \<noteq> []"
proof (cases "find (is_claim (ev_origin e) (ev_client e)) (tk_claims s)")
  case None
  have c: "text_trim (ev_content e) \<noteq> []" "text_trim (ev_client e) \<noteq> []"
    using assms by (auto simp: post_discussion_envelope_def split: if_splits)
  obtain s1 x where st: "store_post now uni e (claim_message now (ev_origin e) (ev_client e) s) = (s1, x)" by fastforce
  then obtain kind i where x: "x = Inr (kind, i)"
    using assms c None by (cases x) (auto simp: post_discussion_envelope_def)
  have cl: "tk_claims s1 = tk_claims s @ [\<lparr> cl_origin = ev_origin e, cl_client = ev_client e, cl_response = None, cl_at = now \<rparr>]"
    using store_post_claims [OF st] by (simp add: claim_message_def)
  have free: "\<not> is_claim (ev_origin e) (ev_client e) r" if "r \<in> set (tk_claims s)" for r
    using None that by (auto simp: find_None_iff)
  have "map (\<lambda>r. if is_claim (ev_origin e) (ev_client e) r then r\<lparr> cl_response := y \<rparr> else r) (tk_claims s) = tk_claims s" for y
    by (rule map_idI) (use free in auto)
  then show ?thesis
    using assms c None
    by (auto simp: post_discussion_envelope_def st x log_post_def Let_def claim_of_def answer_claim_def cl
        find_append is_claim_def)
next
  case (Some r)
  then show ?thesis using assms by (auto simp: post_discussion_envelope_def claim_of_def split: if_splits)
qed

section \<open>The tables of the discussions\<close>

definition rooms_ok :: "talk \<Rightarrow> bool" where
  "rooms_ok s \<longleftrightarrow> distinct (map ch_id (tk_channels s)) \<and> distinct (map ch_name (tk_channels s)) \<and>
     list_all (\<lambda>c. ch_id c \<le> tk_channel_seq s \<and> text_starts_with (ch_name c) [35]) (tk_channels s) \<and>
     distinct (map (\<lambda>m. (me_channel m, me_who m)) (tk_members s)) \<and>
     list_all (\<lambda>m. has_channel (me_channel m) s) (tk_members s) \<and>
     sorted_wrt (<) (map ms_id (tk_messages s)) \<and>
     list_all (\<lambda>m. ms_id m \<le> tk_message_seq s \<and> has_channel (ms_channel m) s) (tk_messages s)"

definition refers :: "talk \<Rightarrow> ledger_row \<Rightarrow> bool" where
  "refers s l \<longleftrightarrow> (case lg_kind l of
     Issue_Thread \<Rightarrow> list_ex (\<lambda>c. cm_id c = lg_message l \<and> cm_issue c = lg_thread l \<and> ac_id (cm_author c) = lg_sender l)
       (b_comments (tk_board s))
   | Channel_Thread \<Rightarrow> lg_message l \<le> tk_message_seq s \<and>
       list_all (\<lambda>m. ms_id m \<noteq> lg_message l \<or> ms_channel m = lg_thread l \<and> ac_id (ms_sender m) = lg_sender l) (tk_messages s))"

definition posts_ok :: "talk \<Rightarrow> bool" where
  "posts_ok s \<longleftrightarrow> distinct (map (\<lambda>r. (cl_origin r, cl_client r)) (tk_claims s)) \<and>
     map cl_response (tk_claims s) = map (\<lambda>l. Some (response_of (lg_kind l) (lg_message l) (lg_seq l))) (tk_ledger s) \<and>
     counted (map lg_seq (tk_ledger s)) \<and> distinct (map (\<lambda>l. (lg_kind l, lg_message l)) (tk_ledger s)) \<and>
     list_all (refers s) (tk_ledger s)"

definition talk_ok :: "talk \<Rightarrow> bool" where
  "talk_ok s \<longleftrightarrow> linked (tk_board s) \<and> rooms_ok s \<and> posts_ok s"

text \<open>Comments stay, and a message that appears has an id that was never used.\<close>

definition talk_grows :: "talk \<Rightarrow> talk \<Rightarrow> bool" where
  "talk_grows s s' \<longleftrightarrow> prefix (b_comments (tk_board s)) (b_comments (tk_board s')) \<and>
     tk_message_seq s \<le> tk_message_seq s' \<and>
     (\<forall>m \<in> set (tk_messages s'). m \<in> set (tk_messages s) \<or> tk_message_seq s < ms_id m)"

lemma talk_grows_refl [simp]: "talk_grows s s"
  by (simp add: talk_grows_def)

lemma refers_grows: "talk_grows s s' \<Longrightarrow> refers s l \<Longrightarrow> refers s' l"
  by (cases "lg_kind l") (fastforce simp: refers_def talk_grows_def prefix_def list_all_iff list_ex_iff)+

lemma posts_ok_frame:
  assumes "talk_grows s s'" "tk_claims s' = tk_claims s" "tk_ledger s' = tk_ledger s" "posts_ok s"
  shows "posts_ok s'"
  using assms refers_grows [OF assms(1)] by (auto simp: posts_ok_def list_all_iff)

section \<open>Channels keep their tables\<close>

lemma rooms_insert:
  assumes "rooms_ok s" "\<not> channel_taken n s" "text_starts_with n [35]"
  shows "rooms_ok (insert_channel now n topic s)"
proof -
  have "tk_channel_seq s + 1 \<notin> ch_id ` set (tk_channels s)" "n \<notin> ch_name ` set (tk_channels s)"
    using assms by (fastforce simp: rooms_ok_def list_all_iff channel_taken_def list_ex_iff)+
  with assms show ?thesis
    by (auto simp: rooms_ok_def insert_channel_def Let_def list_all_iff has_channel_def)
qed

lemma rooms_ensure: "rooms_ok s \<Longrightarrow> rooms_ok (ensure_default_channels burn now s)"
proof -
  have burn: "rooms_ok s \<Longrightarrow> rooms_ok (s\<lparr> tk_channel_seq := tk_channel_seq s + 1 \<rparr>)" for s
    by (auto simp: rooms_ok_def list_all_iff has_channel_def)
  have "rooms_ok s \<Longrightarrow> text_starts_with n [35] \<Longrightarrow> rooms_ok (ensure_channel burn now n s)" for n s
    by (auto simp: ensure_channel_def burn intro: rooms_insert)
  then show "rooms_ok s \<Longrightarrow> rooms_ok (ensure_default_channels burn now s)"
    by (simp add: ensure_default_channels_def default_channels_def) (simp add: of_str_def text_starts_with_def)
qed

lemma normalized: "normalize_channel_name n = Inr m \<Longrightarrow> text_starts_with m [35]"
  by (auto simp: normalize_channel_name_def Let_def text_starts_with_def split: if_splits)

lemma rooms_create: "rooms_ok s \<Longrightarrow> rooms_ok (fst (create_channel now n topic s))"
  by (auto simp: create_channel_def intro: rooms_insert normalized split: sum.splits)

lemma rooms_join: "rooms_ok s \<Longrightarrow> rooms_ok (fst (join_channel c who s))"
  by (auto simp: join_channel_def rooms_ok_def list_all_iff list_ex_iff is_member_def has_channel_def)

lemma rooms_leave: "rooms_ok s \<Longrightarrow> rooms_ok (leave_channel c who s)"
  by (auto simp: leave_channel_def rooms_ok_def list_all_iff has_channel_def intro: distinct_map_filter)

lemma rooms_seen:
  assumes "rooms_ok s"
  shows "rooms_ok (mark_channel_seen c who i s)"
proof -
  let ?f = "\<lambda>m. if is_member c who m then m\<lparr> me_seen := max (me_seen m) i \<rparr> else m"
  have "map (\<lambda>m. (me_channel m, me_who m)) (map ?f (tk_members s)) = map (\<lambda>m. (me_channel m, me_who m)) (tk_members s)"
    by simp
  with assms show ?thesis
    unfolding rooms_ok_def mark_channel_seen_def by (auto simp del: map_map simp: list_all_iff has_channel_def)
qed

lemma rooms_append: "rooms_ok s \<Longrightarrow> rooms_ok (fst (append_channel_message_on now n s))"
  by (auto simp: append_channel_message_on_def Let_def rooms_ok_def list_all_iff has_channel_def sorted_wrt_append)

lemma rooms_sweep: "rooms_ok s \<Longrightarrow> rooms_ok (fst (sweep_channel_messages now d s))"
  by (auto simp: sweep_channel_messages_def Let_def rooms_ok_def list_all_iff has_channel_def sorted_wrt_map
      intro: sorted_wrt_filter)

section \<open>Posts keep the ledger\<close>

lemma add_comment_on_first:
  assumes "add_comment_on now uni n b = Inr b'"
  shows "\<exists>b1. insert_comment now (nc_issue n) (nc_author n) (nc_content n) (nc_parent n) (nc_type n) b = Inr b1 \<and>
    prefix (b_comments b1) (b_comments b')"
proof -
  from assms obtain b1 where one: "insert_comment now (nc_issue n) (nc_author n) (nc_content n) (nc_parent n) (nc_type n) b = Inr b1"
    by (auto simp: add_comment_on_def and_then_Inr)
  have "grows b1 b'"
    using assms unfolding add_comment_on_def one
    by (auto simp: and_then_Inr one notify_comment_def Let_def dest!: prim_grows split: if_splits)
  with one show ?thesis by (auto simp: grows_def)
qed

lemma store_post_ok:
  assumes st: "store_post now uni e s = (s', Inr (kind, i))" and ok: "linked (tk_board s)" "rooms_ok s"
  shows "linked (tk_board s') \<and> rooms_ok s' \<and> talk_grows s s' \<and> tk_claims s' = tk_claims s \<and>
    tk_ledger s' = tk_ledger s \<and>
    refers s' \<lparr> lg_seq = q, lg_kind = kind, lg_thread = ev_target e, lg_message = i, lg_sender = ac_id (ev_sender e), lg_at = t \<rparr> \<and>
    (case kind of Issue_Thread \<Rightarrow> i = int (length (b_comments (tk_board s))) + 1 | Channel_Thread \<Rightarrow> i = tk_message_seq s + 1)"
proof (cases "ev_kind e = of_str ''issue''")
  case True
  let ?n = "\<lparr> nc_issue = ev_target e, nc_author = ev_sender e, nc_content = ev_content e, nc_parent = ev_reply e,
     nc_type = (case comment_type_of_text (ev_tag e) of Some c \<Rightarrow> c | None \<Rightarrow> C_Comment) \<rparr>"
  from True st obtain b where b: "add_comment_on now uni ?n (tk_board s) = Inr b" and s': "s' = s\<lparr> tk_board := b \<rparr>"
    and k: "kind = Issue_Thread" "i = int (length (b_comments (tk_board s))) + 1"
    by (auto simp: store_post_def split: sum.splits)
  have g: "grows (tk_board s) b" by (rule comment_on_grows [OF b])
  obtain b1 where "insert_comment now (ev_target e) (ev_sender e) (ev_content e) (ev_reply e) (nc_type ?n) (tk_board s) = Inr b1"
    and p: "prefix (b_comments b1) (b_comments b)"
    using add_comment_on_first [OF b] by auto
  then have "refers s' \<lparr> lg_seq = q, lg_kind = kind, lg_thread = ev_target e, lg_message = i,
      lg_sender = ac_id (ev_sender e), lg_at = t \<rparr>"
    by (auto simp: refers_def s' k insert_comment_def prefix_def split: if_splits)
  with g ok s' k show ?thesis by (auto simp: grows_def rooms_ok_def talk_grows_def has_channel_def)
next
  case False
  let ?n = "\<lparr> nm_channel = ev_target e, nm_sender = ev_sender e, nm_content = ev_content e,
     nm_parent = ev_reply e, nm_type = ev_tag e \<rparr>"
  from False st obtain m where a: "append_channel_message_on now ?n s = (s', Inr m)"
    and k: "kind = Channel_Thread" "i = ms_id m"
    by (auto simp: store_post_def split: if_splits prod.splits sum.splits)
  have "rooms_ok s'" using rooms_append [OF ok(2), of now ?n] a by simp
  moreover have "\<forall>m \<in> set (tk_messages s). ms_id m \<noteq> tk_message_seq s + 1"
    using ok(2) by (fastforce simp: rooms_ok_def list_all_iff)
  moreover have "ms_id m = tk_message_seq s + 1" "ms_channel m = ev_target e" "ms_sender m = ev_sender e"
    and "s' = s\<lparr> tk_message_seq := tk_message_seq s + 1, tk_messages := tk_messages s @ [m] \<rparr>"
    using a by (auto simp: append_channel_message_on_def Let_def split: if_splits)
  ultimately show ?thesis
    using k ok(1) by (auto simp: refers_def talk_grows_def list_all_iff)
qed

lemma posts_ok_new:
  assumes ok: "linked (tk_board s)" "rooms_ok s" "posts_ok s"
    and free: "claim_of (ev_origin e, ev_client e) s = None"
    and st: "store_post now uni e (claim_message now (ev_origin e) (ev_client e) s) = (s', Inr (kind, i))"
    and lg: "log_post now e kind i s' = (q, s2)"
  shows "talk_ok (answer_claim (ev_origin e) (ev_client e) (Some (response_of kind i q)) s2)"
proof -
  let ?s = "claim_message now (ev_origin e) (ev_client e) s"
  let ?l = "\<lparr> lg_seq = q, lg_kind = kind, lg_thread = ev_target e, lg_message = i, lg_sender = ac_id (ev_sender e), lg_at = now \<rparr>"
  let ?s3 = "answer_claim (ev_origin e) (ev_client e) (Some (response_of kind i q)) s2"
  have "linked (tk_board ?s)" "rooms_ok ?s" using ok by (simp_all add: claim_message_def rooms_ok_def has_channel_def)
  from store_post_ok [OF st this, of q now] have new: "linked (tk_board s')" "rooms_ok s'" "talk_grows ?s s'"
    "tk_claims s' = tk_claims ?s" "tk_ledger s' = tk_ledger s" "refers s' ?l"
    and i: "case kind of Issue_Thread \<Rightarrow> i = int (length (b_comments (tk_board s))) + 1 | Channel_Thread \<Rightarrow> i = tk_message_seq s + 1"
    by (auto simp: claim_message_def split: thread_kind.splits)
  have q: "q = int (length (tk_ledger s)) + 1" and s2: "s2 = s'\<lparr> tk_ledger := tk_ledger s @ [?l] \<rparr>"
    using lg new(5) by (auto simp: log_post_def Let_def)
  have g: "talk_grows s s'" using new(3) by (simp add: talk_grows_def claim_message_def)
  have free': "\<not> is_claim (ev_origin e) (ev_client e) r" if "r \<in> set (tk_claims s)" for r
    using free that by (auto simp: claim_of_def find_None_iff)
  have "map (\<lambda>r. if is_claim (ev_origin e) (ev_client e) r then r\<lparr> cl_response := y \<rparr> else r) (tk_claims s) = tk_claims s" for y
    by (rule map_idI) (use free' in auto)
  then have cl: "tk_claims ?s3 = tk_claims s @ [\<lparr> cl_origin = ev_origin e, cl_client = ev_client e,
      cl_response = Some (response_of kind i q), cl_at = now \<rparr>]"
    using new(4) by (simp add: answer_claim_def s2 claim_message_def is_claim_def)
  have fresh: "(lg_kind l, lg_message l) \<noteq> (kind, i)" if l: "l \<in> set (tk_ledger s)" for l
  proof -
    have r: "refers s l" using ok(3) l by (simp add: posts_ok_def list_all_iff)
    have "cm_id c \<le> int (length (b_comments (tk_board s)))" if "c \<in> set (b_comments (tk_board s))" for c
    proof -
      have "cm_id c \<in> set (map cm_id (b_comments (tk_board s)))" using that by simp
      moreover have "map cm_id (b_comments (tk_board s)) = map (\<lambda>k. int k + 1) [0..<length (b_comments (tk_board s))]"
        using ok(1) by (simp add: linked_def counted_def)
      ultimately show ?thesis by auto
    qed
    with r i show ?thesis by (fastforce simp: refers_def list_ex_iff split: thread_kind.splits)
  qed
  have same: "rooms_ok ?s3 = rooms_ok s'" "tk_board ?s3 = tk_board s'" "refers ?s3 = refers s'"
    by (simp_all add: answer_claim_def s2 rooms_ok_def has_channel_def refers_def fun_eq_iff cong: thread_kind.case_cong)
  have "tk_ledger ?s3 = tk_ledger s @ [?l]" by (simp add: answer_claim_def s2)
  moreover have "(ev_origin e, ev_client e) \<notin> (\<lambda>r. (cl_origin r, cl_client r)) ` set (tk_claims s)"
    by (auto simp: is_claim_def dest!: free')
  moreover have "(kind, i) \<notin> (\<lambda>l. (lg_kind l, lg_message l)) ` set (tk_ledger s)" using fresh by force
  moreover have "list_all (refers s') (tk_ledger s)"
    using ok(3) refers_grows [OF g] by (auto simp: posts_ok_def list_all_iff)
  ultimately have "posts_ok ?s3" using ok(3) new(6) cl q unfolding posts_ok_def same by simp
  with new(1,2) same show ?thesis by (simp add: talk_ok_def)
qed

lemma unclaim_fresh:
  "claim_of (a, c) s = None \<Longrightarrow> tk_claims s' = tk_claims (claim_message now a c s) \<Longrightarrow>
     unclaim_message a c s' = s'\<lparr> tk_claims := tk_claims s \<rparr>"
  by (auto simp: unclaim_message_def claim_message_def claim_of_def find_None_iff is_claim_def filter_id_conv)

lemma store_post_failed:
  "store_post now uni e s = (s', Inl x) \<Longrightarrow> s' = s"
  by (auto simp: store_post_def append_channel_message_on_def Let_def split: if_splits prod.splits sum.splits)

lemma post_cases:
  assumes "post_discussion_envelope now uni e s = (s', r)"
  obtains (refused) x where "r = Inl x" "s' = s"
  | (repeated) cl where "claim_of (ev_origin e, ev_client e) s = Some cl" "s' = s"
      "r = Inr \<lparr> pm_new = False, pm_id = 0, pm_seq = 0, pm_response = cl_response cl \<rparr>"
  | (posted) kind i q s1 s2 where "claim_of (ev_origin e, ev_client e) s = None"
      "store_post now uni e (claim_message now (ev_origin e) (ev_client e) s) = (s1, Inr (kind, i))"
      "log_post now e kind i s1 = (q, s2)" "s' = answer_claim (ev_origin e) (ev_client e) (Some (response_of kind i q)) s2"
      "r = Inr \<lparr> pm_new = True, pm_id = i, pm_seq = q, pm_response = Some (response_of kind i q) \<rparr>"
proof (cases "text_trim (ev_content e) = [] \<or> text_trim (ev_client e) = []")
  case True
  with assms have "\<exists>x. r = Inl x" "s' = s" by (auto simp: post_discussion_envelope_def split: if_splits)
  with refused show ?thesis by blast
next
  case False
  show ?thesis
  proof (cases "claim_of (ev_origin e, ev_client e) s")
    case (Some cl)
    with assms post_claimed [OF Some] False have "s' = s"
      "r = Inr \<lparr> pm_new = False, pm_id = 0, pm_seq = 0, pm_response = cl_response cl \<rparr>" by simp_all
    with Some show ?thesis by (rule repeated)
  next
    case None
    let ?s = "claim_message now (ev_origin e) (ev_client e) s"
    obtain s1 x where st: "store_post now uni e ?s = (s1, x)" by fastforce
    show ?thesis
    proof (cases x)
      case (Inl err)
      with st have "s1 = ?s" by (blast dest: store_post_failed)
      with None have "unclaim_message (ev_origin e) (ev_client e) s1 = s"
        using unclaim_fresh [OF None, of s1 now] by (simp add: claim_message_def)
      then have "post_discussion_envelope now uni e s = (s, Inl err)"
        using False None unfolding post_discussion_envelope_def claim_of_def st Inl by simp
      with assms have "r = Inl err" "s' = s" by simp_all
      then show ?thesis by (rule refused)
    next
      case (Inr ki)
      obtain kind i where ki: "ki = (kind, i)" by fastforce
      obtain q s2 where log: "log_post now e kind i s1 = (q, s2)" by fastforce
      then have "post_discussion_envelope now uni e s = (answer_claim (ev_origin e) (ev_client e) (Some (response_of kind i q)) s2,
          Inr \<lparr> pm_new = True, pm_id = i, pm_seq = q, pm_response = Some (response_of kind i q) \<rparr>)"
        using False None unfolding post_discussion_envelope_def claim_of_def st Inr ki by simp
      with assms have out: "s' = answer_claim (ev_origin e) (ev_client e) (Some (response_of kind i q)) s2"
        "r = Inr \<lparr> pm_new = True, pm_id = i, pm_seq = q, pm_response = Some (response_of kind i q) \<rparr>" by simp_all
      show ?thesis by (rule posted [OF None st [unfolded Inr ki] log out])
    qed
  qed
qed

lemma post_keeps_ok: "talk_ok s \<Longrightarrow> talk_ok (fst (post_discussion_envelope now uni e s))"
proof -
  assume ok: "talk_ok s"
  obtain s' r where p: "post_discussion_envelope now uni e s = (s', r)" by fastforce
  then show ?thesis
  proof (cases rule: post_cases)
    case (posted kind i q s1 s2)
    then show ?thesis using p posts_ok_new ok by (auto simp: talk_ok_def)
  qed (use p ok in auto)
qed

end
