(* ===== verification/Board_Posts.thy ===== *)
theory Board_Posts
  imports Board_Once
begin

text \<open>
  Properties of the discussions: posts happen once, the ledger numbers them, and one call posts one entry or nothing.
\<close>

section \<open>Every operation keeps the tables\<close>

lemma talk_grows_trans_frame:
  assumes "talk_ok s" "linked (tk_board s')" "rooms_ok s'" "talk_grows s s'" "tk_claims s' = tk_claims s" "tk_ledger s' = tk_ledger s"
  shows "talk_ok s'"
  using assms posts_ok_frame by (simp add: talk_ok_def)

lemma ensure_frame:
  "tk_board (ensure_default_channels burn now s) = tk_board s \<and> tk_messages (ensure_default_channels burn now s) = tk_messages s \<and>
   tk_message_seq (ensure_default_channels burn now s) = tk_message_seq s \<and> tk_ledger (ensure_default_channels burn now s) = tk_ledger s"
proof -
  have "tk_board (ensure_channel burn now n s) = tk_board s" "tk_messages (ensure_channel burn now n s) = tk_messages s"
    "tk_message_seq (ensure_channel burn now n s) = tk_message_seq s" "tk_ledger (ensure_channel burn now n s) = tk_ledger s" for n s
    by (simp_all add: ensure_channel_def insert_channel_def Let_def)
  then show ?thesis by (simp add: ensure_default_channels_def default_channels_def)
qed

lemma append_frame:
  "talk_grows s (fst (append_channel_message_on now n s)) \<and> tk_board (fst (append_channel_message_on now n s)) = tk_board s \<and>
   tk_claims (fst (append_channel_message_on now n s)) = tk_claims s \<and> tk_ledger (fst (append_channel_message_on now n s)) = tk_ledger s"
  by (auto simp: append_channel_message_on_def Let_def talk_grows_def)

lemma step_keeps_ok:
  assumes ok: "talk_ok s"
  shows "talk_ok (talk_step uni q s e)"
proof -
  note frame = talk_grows_trans_frame [OF ok]
  have r: "rooms_ok s" and l: "linked (tk_board s)" using ok by (simp_all add: talk_ok_def)
  obtain now x where e: "e = (now, x)" by fastforce
  show ?thesis
  proof (cases x)
    case (On_Board y)
    have "grows (tk_board s) (board_step uni q (tk_board s) (now, y))" by (rule step_grows)
    then show ?thesis unfolding e On_Board
      by (intro frame) (use l r in \<open>auto simp: talk_grows_def grows_def rooms_ok_def has_channel_def\<close>)
  next
    case (Ensure_Defaults burn)
    show ?thesis unfolding e Ensure_Defaults
      by (intro frame) (use l rooms_ensure [OF r] in \<open>auto simp: ensure_frame ensure_claims talk_grows_def\<close>)
  next
    case (New_Channel n t)
    show ?thesis unfolding e New_Channel
      by (intro frame) (use l rooms_create [OF r] in
        \<open>auto simp: talk_grows_def create_channel_def insert_channel_def Let_def split: sum.splits\<close>)
  next
    case (Join_Channel c who)
    show ?thesis unfolding e Join_Channel
      by (intro frame) (use l rooms_join [OF r] in \<open>auto simp: talk_grows_def join_channel_def\<close>)
  next
    case (Leave_Channel c who)
    show ?thesis unfolding e Leave_Channel
      by (intro frame) (use l rooms_leave [OF r] in \<open>auto simp: talk_grows_def leave_channel_def\<close>)
  next
    case (Mark_Seen c who i)
    show ?thesis unfolding e Mark_Seen
      by (intro frame) (use l rooms_seen [OF r] in \<open>auto simp: talk_grows_def mark_channel_seen_def\<close>)
  next
    case (Say n)
    show ?thesis unfolding e Say
      by (intro frame) (use l rooms_append [OF r] append_frame in \<open>auto simp: append_channel_message_def\<close>)
  next
    case (Sweep d)
    show ?thesis unfolding e Sweep
      by (intro frame) (use l rooms_sweep [OF r] in \<open>auto simp: talk_grows_def sweep_channel_messages_def Let_def\<close>)
  next
    case (Post y)
    show ?thesis unfolding e Post using post_keeps_ok [OF ok] by simp
  qed
qed

interpretation discussions: step_invariant "talk_step uni q" talk_ok for uni q
  by unfold_locales (rule step_keeps_ok)

lemma talk_open_ok: "linked b \<Longrightarrow> talk_ok (talk_open b)"
  by (simp add: talk_ok_def talk_open_def rooms_ok_def posts_ok_def counted_def)

lemma talk_run_ok: "talk_ok (talk_run uni q pre ops)"
  unfolding talk_run_def by (rule discussions.run_keeps [OF talk_open_ok [OF linked_open]])

section \<open>The ledger as it is read\<close>

lemma counted_sorted: "counted is \<Longrightarrow> sorted is"
  unfolding counted_def by (metis (no_types, lifting) sorted_map_mono sorted_upt mono_onI of_nat_le_iff add_right_mono)

lemma counted_less: "counted is \<Longrightarrow> i \<in> set is \<Longrightarrow> 0 < i \<and> i \<le> int (length is)"
proof -
  assume c: "counted is" and "i \<in> set is"
  then have "i \<in> set (map (\<lambda>k. int k + 1) [0..<length is])" unfolding counted_def by metis
  then show ?thesis by auto
qed

lemma latest_counted:
  assumes "counted (map lg_seq (tk_ledger s))"
  shows "latest_seq s = int (length (tk_ledger s))"
proof (cases "tk_ledger s = []")
  case False
  let ?n = "length (tk_ledger s)"
  have "set (map lg_seq (tk_ledger s)) = (\<lambda>k. int k + 1) ` {0..<?n}"
    using assms unfolding counted_def by (metis length_map set_map set_upt)
  moreover have "Max ((\<lambda>k. int k + 1) ` {0..<?n}) = int ?n"
    by (rule Max_eqI) (use False in \<open>auto simp: of_nat_diff Suc_leI intro!: image_eqI [of _ _ "?n - 1"]\<close>)
  ultimately show ?thesis using False by (simp add: latest_seq_def)
qed (simp add: latest_seq_def)

lemma since_counted:
  assumes "counted (map lg_seq (tk_ledger s))"
  shows "list_messages_since c k s = limited k (map (join_entry s) (filter (\<lambda>l. c < lg_seq l) (tk_ledger s)))"
proof -
  have "sorted (map lg_seq (filter (\<lambda>l. c < lg_seq l) (tk_ledger s)))"
    using counted_sorted [OF assms] by (rule sorted_filter)
  then show ?thesis by (simp add: list_messages_since_def sort_key_id_if_sorted)
qed

text \<open>An entry that is there reads the same after the tables have grown, unless its message was swept.\<close>

lemma join_grows:
  assumes g: "talk_grows s s'" and r: "refers s l" and l: "linked (tk_board s')"
    and keep: "tk_messages s = tk_messages s' \<or> (\<exists>m. tk_messages s' = tk_messages s @ [m] \<and> tk_message_seq s < ms_id m)"
  shows "join_entry s' l = join_entry s l"
proof (cases "lg_kind l")
  case Issue_Thread
  from g obtain cs where p: "b_comments (tk_board s') = b_comments (tk_board s) @ cs"
    by (auto simp: talk_grows_def prefix_def)
  have "comment_row (lg_message l) s' = comment_row (lg_message l) s"
    using r Issue_Thread unfolding comment_row_def p find_append
    by (auto simp: refers_def list_ex_iff find_None_iff split: option.splits)
  then show ?thesis by (simp add: join_entry_def Issue_Thread)
next
  case Channel_Thread
  have "message_row (lg_message l) s' = message_row (lg_message l) s"
    using keep r Channel_Thread unfolding message_row_def
    by (auto simp: refers_def find_append split: option.splits)
  then show ?thesis by (simp add: join_entry_def Channel_Thread)
qed

lemma linked_comment:
  assumes "linked b" "b_comments b = xs @ c # ys" "int (length xs) + 1 = i"
  shows "find (\<lambda>c. cm_id c = i) (b_comments b) = Some c"
proof -
  have c: "map cm_id (b_comments b) = map (\<lambda>k. int k + 1) [0..<length (b_comments b)]"
    using assms(1) by (simp add: linked_def counted_def)
  have at: "cm_id (b_comments b ! k) = int k + 1" if "k < length (b_comments b)" for k
    using arg_cong [OF c, of "\<lambda>is. is ! k"] that by simp
  have "cm_id x \<noteq> i" if "x \<in> set xs" for x
  proof -
    from that obtain k where "k < length xs" "xs ! k = x" by (auto simp: in_set_conv_nth)
    with at [of k] assms(2,3) show ?thesis by (auto simp: nth_append)
  qed
  then have "find (\<lambda>c. cm_id c = i) xs = None" by (auto simp: find_None_iff)
  moreover have "cm_id c = i" using at [of "length xs"] assms(2,3) by simp
  ultimately show ?thesis unfolding assms(2) by (simp add: find_append)
qed

text \<open>What the entry of a new post shows.\<close>

definition shows_post :: "envelope \<Rightarrow> ledger_entry \<Rightarrow> bool" where
  "shows_post e x \<longleftrightarrow> le_content x = ev_content e \<and> le_sender_type x = ac_kind (ev_sender e) \<and>
     le_sender x = ac_id (ev_sender e) \<and> le_thread x = ev_target e \<and> le_parent x = ev_reply e \<and>
     (case le_kind x of
        Issue_Thread \<Rightarrow> ev_kind e = of_str ''issue'' \<and> le_tag x = of_str (comment_type_str
          (case comment_type_of_text (ev_tag e) of Some c \<Rightarrow> c | None \<Rightarrow> C_Comment))
      | Channel_Thread \<Rightarrow> ev_kind e = of_str ''channel'' \<and>
          le_tag x = (if text_trim (ev_tag e) = [] then of_str ''text'' else ev_tag e))"

lemma store_post_entry:
  assumes st: "store_post now uni e s = (s', Inr (kind, i))" and ok: "linked (tk_board s')" "rooms_ok s'"
  shows "shows_post e (join_entry s' \<lparr> lg_seq = q, lg_kind = kind, lg_thread = ev_target e, lg_message = i,
       lg_sender = ac_id (ev_sender e), lg_at = t \<rparr>)"
    and "tk_messages s = tk_messages s' \<or> (\<exists>m. tk_messages s' = tk_messages s @ [m] \<and> tk_message_seq s < ms_id m)"
proof -
  have "shows_post e (join_entry s' \<lparr> lg_seq = q, lg_kind = kind, lg_thread = ev_target e, lg_message = i,
       lg_sender = ac_id (ev_sender e), lg_at = t \<rparr>) \<and>
    (tk_messages s = tk_messages s' \<or> (\<exists>m. tk_messages s' = tk_messages s @ [m] \<and> tk_message_seq s < ms_id m))"
  proof (cases "ev_kind e = of_str ''issue''")
    case True
    let ?n = "\<lparr> nc_issue = ev_target e, nc_author = ev_sender e, nc_content = ev_content e, nc_parent = ev_reply e,
       nc_type = (case comment_type_of_text (ev_tag e) of Some c \<Rightarrow> c | None \<Rightarrow> C_Comment) \<rparr>"
    from True st obtain b where b: "add_comment_on now uni ?n (tk_board s) = Inr b" and s': "s' = s\<lparr> tk_board := b \<rparr>"
      and k: "kind = Issue_Thread" "i = int (length (b_comments (tk_board s))) + 1"
      by (auto simp: store_post_def split: sum.splits)
    from add_comment_on_first [OF b] obtain c cs where c: "b_comments b = b_comments (tk_board s) @ c # cs"
      "cm_content c = ev_content e" "cm_author c = ev_sender e" "cm_parent c = ev_reply e" "cm_type c = nc_type ?n"
      by (auto simp: insert_comment_def prefix_def split: if_splits)
    have "comment_row i s' = Some c"
      unfolding comment_row_def using linked_comment [OF ok(1), of "b_comments (tk_board s)" c cs i] c k s' by simp
    with c k s' True show ?thesis by (simp add: shows_post_def join_entry_def bare_entry_def)
  next
    case False
    let ?n = "\<lparr> nm_channel = ev_target e, nm_sender = ev_sender e, nm_content = ev_content e,
       nm_parent = ev_reply e, nm_type = ev_tag e \<rparr>"
    from False st obtain m where a: "append_channel_message_on now ?n s = (s', Inr m)"
      and k: "kind = Channel_Thread" "i = ms_id m" "ev_kind e = of_str ''channel''"
      by (auto simp: store_post_def split: if_splits prod.splits sum.splits)
    have m: "ms_id m = tk_message_seq s + 1" "ms_sender m = ev_sender e" "ms_content m = ev_content e"
      "ms_parent m = ev_reply e" "ms_type m = (if text_trim (ev_tag e) = [] then of_str ''text'' else ev_tag e)" "tk_messages s' = tk_messages s @ [m]"
      using a by (auto simp: append_channel_message_on_def Let_def split: if_splits)
    have "find (\<lambda>x. ms_id x = i) (tk_messages s) = None"
      using ok(2) m(6) k by (auto simp: rooms_ok_def sorted_wrt_append find_None_iff)
    then have "message_row i s' = Some m" unfolding message_row_def using m k by (simp add: find_append)
    with m k show ?thesis by (simp add: shows_post_def join_entry_def bare_entry_def)
  qed
  then show "shows_post e (join_entry s' \<lparr> lg_seq = q, lg_kind = kind, lg_thread = ev_target e, lg_message = i,
       lg_sender = ac_id (ev_sender e), lg_at = t \<rparr>)"
    and "tk_messages s = tk_messages s' \<or> (\<exists>m. tk_messages s' = tk_messages s @ [m] \<and> tk_message_seq s < ms_id m)"
    by blast+
qed

section \<open>Properties\<close>

text \<open>
  C22. A post is made once. When a post with a client's message id was answered, then whatever happens on the board
  afterwards (any operations on issues, channels and messages, any other posts, sweeps), a repetition of that id from
  that node changes nothing at all and gets the first answer again, also when its content, target or time differ.
\<close>

theorem retry_gets_first_answer:
  assumes first: "post_discussion_envelope now uni e s = (s1, Inr p)"
    and again: "ev_origin e' = ev_origin e" "ev_client e' = ev_client e" "text_trim (ev_content e') \<noteq> []"
    and s2: "s2 = run_events (talk_step uni q) s1 ops"
  shows "post_discussion_envelope now' uni e' s2
    = (s2, Inr \<lparr> pm_new = False, pm_id = 0, pm_seq = 0, pm_response = pm_response p \<rparr>)"
proof -
  from post_leaves_claim [OF first] obtain r where r: "claim_of (ev_origin e, ev_client e) s1 = Some r"
    "cl_response r = pm_response p" "text_trim (ev_client e) \<noteq> []" by blast
  then have "claim_of (ev_origin e', ev_client e') s2 = Some r"
    using posts.recall_run again(1,2) unfolding s2 by simp
  from post_claimed [OF this again(3)] r again(2) show ?thesis by simp
qed

definition sample_envelope :: envelope where
  "sample_envelope = \<lparr> ev_origin = of_str ''n1'', ev_client = of_str ''m1'', ev_kind = of_str ''channel'', ev_target = 1,
     ev_sender = \<lparr> ac_kind = of_str ''agent'', ac_id = of_str ''n1'' \<rparr>, ev_content = of_str ''hello'', ev_reply = None,
     ev_tag = [] \<rparr>"

definition sample_talk :: talk where
  "sample_talk = talk_run plain_unicode (\<lambda>s. s) (of_str ''NB'') [(5, Ensure_Defaults False)]"

lemma retry_gets_first_answer_witness:
  "let p = \<lparr> pm_new = True, pm_id = 1, pm_seq = 1, pm_response = Some (Message_Posted 1 1) \<rparr>;
       s1 = fst (post_discussion_envelope 6 plain_unicode sample_envelope sample_talk);
       s2 = run_events (talk_step plain_unicode (\<lambda>s. s)) s1
         [(7, Post (sample_envelope\<lparr> ev_client := of_str ''m2'' \<rparr>)), (9000000, Sweep 1)] in
     snd (post_discussion_envelope 6 plain_unicode sample_envelope sample_talk) = Inr p \<and>
     length (tk_ledger s2) = 2 \<and> tk_messages s2 = [] \<and>
     post_discussion_envelope 9000001 plain_unicode (sample_envelope\<lparr> ev_content := of_str ''again'' \<rparr>) s2
       = (s2, Inr \<lparr> pm_new = False, pm_id = 0, pm_seq = 0, pm_response = pm_response p \<rparr>)"
proof -
  let ?p = "\<lparr> pm_new = True, pm_id = 1, pm_seq = 1, pm_response = Some (Message_Posted 1 1) \<rparr>"
  let ?s1 = "fst (post_discussion_envelope 6 plain_unicode sample_envelope sample_talk)"
  let ?ops = "[(7, Post (sample_envelope\<lparr> ev_client := of_str ''m2'' \<rparr>)), (9000000, Sweep 1)]"
  have p: "snd (post_discussion_envelope 6 plain_unicode sample_envelope sample_talk) = Inr ?p" by code_simp
  then have "post_discussion_envelope 6 plain_unicode sample_envelope sample_talk = (?s1, Inr ?p)"
    by (metis prod.collapse)
  moreover have "text_trim (ev_content (sample_envelope\<lparr> ev_content := of_str ''again'' \<rparr>)) \<noteq> []" by code_simp
  ultimately have "post_discussion_envelope 9000001 plain_unicode (sample_envelope\<lparr> ev_content := of_str ''again'' \<rparr>)
      (run_events (talk_step plain_unicode (\<lambda>s. s)) ?s1 ?ops)
    = (run_events (talk_step plain_unicode (\<lambda>s. s)) ?s1 ?ops,
       Inr \<lparr> pm_new = False, pm_id = 0, pm_seq = 0, pm_response = pm_response ?p \<rparr>)"
    by (intro retry_gets_first_answer [OF _ _ _ _ refl]) simp_all
  moreover have "length (tk_ledger (run_events (talk_step plain_unicode (\<lambda>s. s)) ?s1 ?ops)) = 2"
    and "tk_messages (run_events (talk_step plain_unicode (\<lambda>s. s)) ?s1 ?ops) = []" by code_simp+
  ultimately show ?thesis using p unfolding Let_def by blast
qed

text \<open>
  C23. Posts are numbered once. After any sequence of operations the entries of the ledger are numbered 1, 2, 3 without
  gaps, no comment or message stands in it twice, and the entries are exactly the first answers of the claims, in
  order, one claim for each message id of a node. Every entry belongs to a comment of that issue and author, or to a
  message of that channel and sender (which may have been swept, but whose id was never given again). Channels have
  distinct ids and names that begin with a number sign, members and messages belong to channels that exist.
\<close>

theorem posts_are_numbered_once:
  "let s = talk_run uni q pre ops in
     map lg_seq (tk_ledger s) = map (\<lambda>k. int k + 1) [0..<length (tk_ledger s)] \<and>
     latest_seq s = int (length (tk_ledger s)) \<and>
     distinct (map (\<lambda>l. (lg_kind l, lg_message l)) (tk_ledger s)) \<and>
     distinct (map (\<lambda>r. (cl_origin r, cl_client r)) (tk_claims s)) \<and>
     map cl_response (tk_claims s) = map (\<lambda>l. Some (response_of (lg_kind l) (lg_message l) (lg_seq l))) (tk_ledger s) \<and>
     list_all (refers s) (tk_ledger s) \<and> rooms_ok s \<and> linked (tk_board s)"
proof -
  define s where "s = talk_run uni q pre ops"
  have ok: "talk_ok s" unfolding s_def by (rule talk_run_ok)
  then have "counted (map lg_seq (tk_ledger s))" by (simp add: talk_ok_def posts_ok_def)
  then have "map lg_seq (tk_ledger s) = map (\<lambda>k. int k + 1) [0..<length (tk_ledger s)]"
    and "latest_seq s = int (length (tk_ledger s))"
    by (simp_all add: counted_def latest_counted)
  with ok show ?thesis unfolding s_def [symmetric] Let_def by (simp add: talk_ok_def posts_ok_def)
qed

text \<open>
  C24. One call, one entry. On tables in order, a call to post either leaves everything as it was (it was refused, or
  the message id was claimed before), or it adds exactly one entry with the next number. Whoever pulls the ledger
  then gets from any earlier number what he would have got before, and after it the new entry, which shows content,
  sender, thread and parent as they were posted.
\<close>

theorem one_call_one_entry:
  assumes "talk_ok s" and p: "post_discussion_envelope now uni e s = (s', r)"
  shows "talk_ok s' \<and>
    (case r of
       Inl _ \<Rightarrow> s' = s
     | Inr p \<Rightarrow> if \<not> pm_new p then s' = s
         else pm_seq p = latest_seq s + 1 \<and> latest_seq s' = pm_seq p \<and>
           (\<exists>x. le_seq x = pm_seq p \<and> le_message x = pm_id p \<and> shows_post e x \<and>
             (\<forall>c \<le> latest_seq s. list_messages_since c (- 1) s' = list_messages_since c (- 1) s @ [x])))"
  using p
proof (cases rule: post_cases)
  case (posted kind i q s1 s2)
  let ?s = "claim_message now (ev_origin e) (ev_client e) s"
  let ?l = "\<lparr> lg_seq = q, lg_kind = kind, lg_thread = ev_target e, lg_message = i, lg_sender = ac_id (ev_sender e), lg_at = now \<rparr>"
  have ok': "talk_ok s'" using post_keeps_ok [OF assms(1), of now uni e] p by simp
  have pre: "linked (tk_board ?s)" "rooms_ok ?s" "refers ?s = refers s" "tk_ledger ?s = tk_ledger s" "join_entry ?s = join_entry s"
    using assms(1) by (simp_all add: talk_ok_def claim_message_def rooms_ok_def has_channel_def refers_def join_entry_def
        comment_row_def message_row_def fun_eq_iff cong: thread_kind.case_cong)
  note st = store_post_ok [OF posted(2) pre(1,2), of q now]
  then have ok1: "linked (tk_board s1)" "rooms_ok s1" and g: "talk_grows ?s s1" and led: "tk_ledger s1 = tk_ledger s"
    using pre by simp_all
  have c: "counted (map lg_seq (tk_ledger s))" and refs: "list_all (refers s) (tk_ledger s)"
    using assms(1) by (simp_all add: talk_ok_def posts_ok_def)
  have q: "q = latest_seq s + 1" and s2: "s2 = s1\<lparr> tk_ledger := tk_ledger s @ [?l] \<rparr>"
    using posted(3) led latest_counted [OF c] by (auto simp: log_post_def Let_def)
  have led': "tk_ledger s' = tk_ledger s @ [?l]" by (simp add: posted(4) answer_claim_def s2)
  have join: "join_entry s' = join_entry s1"
    by (simp add: posted(4) answer_claim_def s2 join_entry_def comment_row_def message_row_def fun_eq_iff cong: thread_kind.case_cong)
  have c': "counted (map lg_seq (tk_ledger s'))" using ok' by (simp add: talk_ok_def posts_ok_def)
  note entry = store_post_entry(1) [OF posted(2) ok1, of q now]
  have old: "join_entry s1 l = join_entry s l" if "l \<in> set (tk_ledger s)" for l
    using join_grows [OF g _ ok1(1) store_post_entry(2) [OF posted(2) ok1], of l] refs that pre by (simp add: list_all_iff)
  have "list_messages_since c (- 1) s' = list_messages_since c (- 1) s @ [join_entry s1 ?l]" if "c \<le> latest_seq s" for c
    unfolding since_counted [OF c'] since_counted [OF c] led' join using that q old by (simp add: limited_def)
  moreover have "le_seq (join_entry s1 ?l) = q" "le_message (join_entry s1 ?l) = i"
    by (simp_all add: join_entry_def bare_entry_def split: thread_kind.splits option.splits)
  moreover have "latest_seq s' = q" using latest_counted [OF c'] latest_counted [OF c] led' q by simp
  ultimately show ?thesis using ok' posted(5) q entry by auto
qed (use assms in auto)

lemma one_call_one_entry_witness:
  "let s' = fst (post_discussion_envelope 6 plain_unicode sample_envelope sample_talk) in
   latest_seq s' = 1 \<and> (\<exists>x. shows_post sample_envelope x \<and>
     list_messages_since 0 (- 1) s' = list_messages_since 0 (- 1) sample_talk @ [x])"
proof -
  let ?p = "\<lparr> pm_new = True, pm_id = 1, pm_seq = 1, pm_response = Some (Message_Posted 1 1) \<rparr>"
  let ?s' = "fst (post_discussion_envelope 6 plain_unicode sample_envelope sample_talk)"
  have "snd (post_discussion_envelope 6 plain_unicode sample_envelope sample_talk) = Inr ?p" by code_simp
  then have p: "post_discussion_envelope 6 plain_unicode sample_envelope sample_talk = (?s', Inr ?p)"
    by (metis prod.collapse)
  have "talk_ok sample_talk" unfolding sample_talk_def by (rule talk_run_ok)
  from one_call_one_entry [OF this p] have "latest_seq ?s' = 1"
    and "\<exists>x. shows_post sample_envelope x \<and> (\<forall>c \<le> latest_seq sample_talk.
      list_messages_since c (- 1) ?s' = list_messages_since c (- 1) sample_talk @ [x])" by auto
  moreover have "0 \<le> latest_seq sample_talk" by code_simp
  ultimately show ?thesis unfolding Let_def by blast
qed

section \<open>A crash between two statements\<close>

text \<open>
  The claim, the post and the answer are statements of their own, not one transaction. When the process stops after
  the claim, the message is never stored: every later attempt with that id is taken for a repetition, adds nothing
  and is answered with an empty response, while \<open>check_duplicate\<close> calls the request new.
\<close>

lemma crash_after_claim:
  assumes "claim_of (ev_origin e, ev_client e) s = None" "text_trim (ev_content e) \<noteq> []" "text_trim (ev_client e) \<noteq> []"
  shows "let s1 = claim_message now (ev_origin e) (ev_client e) s in
    check_duplicate (ev_origin e) (ev_client e) s1 = None \<and>
    post_discussion_envelope now' uni e s1 = (s1, Inr \<lparr> pm_new = False, pm_id = 0, pm_seq = 0, pm_response = None \<rparr>) \<and>
    tk_ledger s1 = tk_ledger s"
proof -
  let ?s1 = "claim_message now (ev_origin e) (ev_client e) s"
  let ?r = "\<lparr> cl_origin = ev_origin e, cl_client = ev_client e, cl_response = None, cl_at = now \<rparr>"
  have "claim_of (ev_origin e, ev_client e) ?s1 = Some ?r"
    using assms(1) by (simp add: claim_of_def claim_message_def find_append is_claim_def)
  from post_claimed [OF this assms(2,3)] this show ?thesis
    by (simp add: check_duplicate_def claim_of_def claim_message_def)
qed

text \<open>
  A listing that starts from the beginning and is bounded shows the oldest messages of a channel: with more of them
  than the bound, the newest is not shown.
\<close>

lemma bounded_listing_shows_oldest:
  "let say = (\<lambda>t. (t, Say \<lparr> nm_channel = 1, nm_sender = system_actor ''a'', nm_content = [65], nm_parent = None, nm_type = [] \<rparr>));
       s = talk_run plain_unicode (\<lambda>s. s) [] [(0, Ensure_Defaults False), say 1, say 2, say 3] in
   map ms_id (tk_messages s) = [1, 2, 3] \<and> map ms_id (list_channel_messages 1 0 2 s) = [1, 2]"
  by code_simp

end
