(* ===== verification/Board_Bus.thy ===== *)
theory Board_Bus
  imports Board_Posts Board_Wake Board_Quota
begin

text \<open>
  The master's side of the message bus of the board (\<open>src/nemesisbot/src/board_bus.rs\<close>): a worker posts, lists and
  pulls, the master posts, decides who is woken and sends the wake messages. The parts of a request's body are what
  could be read from the JSON (\<open>None\<close>: missing, or of another type). Deliveries are made by a task of their own;
  here they are the list of what it sends.
\<close>

record bus =
  bu_talk :: talk
  bu_quota :: quota_ledger

record bus_env =
  be_cfg :: quota_config
  be_nodes :: "node_candidate list"
  be_self :: utext

datatype post_error = Quota_Refused quota_denied | Store_Refused talk_error

text \<open>The answer to a post: the store's answer, the summary of the wake plan if the answer is an object, and whether
  a delivery is started.\<close>

record core_answer =
  ca_posted :: posted_message
  ca_wake :: "wake_plan option"
  ca_deliver :: bool

section \<open>Posting\<close>

text \<open>The assignee of an issue thread, if it is a worker.\<close>

definition thread_assignee :: "utext \<Rightarrow> int \<Rightarrow> talk \<Rightarrow> utext option" where
  "thread_assignee kind i s =
     (if kind = of_str ''issue''
      then (case find_issue i (tk_board s) of
          Some r \<Rightarrow> if is_assignee r = Some Worker then is_assignee_id r else None
        | None \<Rightarrow> None)
      else None)"

definition thread_key :: "utext \<Rightarrow> int \<Rightarrow> utext" where
  "thread_key kind i = kind @ 58 # int_text i"

definition core_plan :: "unicode \<Rightarrow> bus_env \<Rightarrow> envelope \<Rightarrow> talk \<Rightarrow> wake_plan" where
  "core_plan uni env e s = resolve_wake_targets uni
     \<lparr> wi_thread_kind = ev_kind e, wi_content = ev_content e, wi_sender = ac_id (ev_sender e),
       wi_assignee = thread_assignee (ev_kind e) (ev_target e) s, wi_moderator = be_self env \<rparr> (be_nodes env)"

definition with_wake :: "wake_plan \<Rightarrow> posted_message \<Rightarrow> core_answer" where
  "with_wake plan p = \<lparr> ca_posted = p, ca_wake = (if pm_response p = None then None else Some plan), ca_deliver = pm_new p \<rparr>"

text \<open>The origin of a post is the id of its sender.\<close>

definition post_discussion_core :: "int \<Rightarrow> unicode \<Rightarrow> bus_env \<Rightarrow> envelope \<Rightarrow> bus \<Rightarrow> bus \<times> (post_error + core_answer)" where
  "post_discussion_core now uni env e s =
     (let e = e\<lparr> ev_origin := ac_id (ev_sender e) \<rparr>; plan = core_plan uni env e (bu_talk s) in
      case check_duplicate (ev_origin e) (ev_client e) (bu_talk s) of
        Some r \<Rightarrow> (s, Inr (with_wake plan \<lparr> pm_new = False, pm_id = 0, pm_seq = 0, pm_response = Some r \<rparr>))
      | None \<Rightarrow>
        (case try_consume_post (be_cfg env) (thread_key (ev_kind e) (ev_target e)) (ac_id (ev_sender e)) now (bu_quota s) of
           (Inl d, l) \<Rightarrow> (s\<lparr> bu_quota := l \<rparr>, Inl (Quota_Refused d))
         | (Inr _, l) \<Rightarrow>
           (case post_discussion_envelope now uni e (bu_talk s) of
              (t, Inl x) \<Rightarrow> (s\<lparr> bu_talk := t, bu_quota := l \<rparr>, Inl (Store_Refused x))
            | (t, Inr p) \<Rightarrow> (s\<lparr> bu_talk := t, bu_quota := l \<rparr>, Inr (with_wake plan p)))))"

record post_body =
  pb_client :: "utext option"
  pb_kind :: "utext option"
  pb_thread :: "int option"
  pb_sender_type :: "utext option"
  pb_sender_id :: "utext option"
  pb_content :: "utext option"
  pb_reply :: "int option"
  pb_tag :: "utext option"

datatype refusal =
    No_From
  | No_Client_Id
  | No_Kind
  | No_Thread
  | No_Sender
  | Wrong_Sender utext utext
  | No_Content
  | Reserved_Tag utext
  | Core_Refused post_error

definition client_msg_id :: "post_body \<Rightarrow> utext option" where
  "client_msg_id b = (case pb_client b of Some [] \<Rightarrow> None | x \<Rightarrow> x)"

definition reserved_tags :: "utext list" where
  "reserved_tags = [of_str ''system'', of_str ''status_change'', of_str ''comment'']"

definition handle_comment_post ::
    "int \<Rightarrow> unicode \<Rightarrow> bus_env \<Rightarrow> post_body \<Rightarrow> utext \<Rightarrow> bus \<Rightarrow> bus \<times> (refusal + core_answer)" where
  "handle_comment_post now uni env b from_node s =
     (if from_node = [] then (s, Inl No_From) else
      case client_msg_id b of None \<Rightarrow> (s, Inl No_Client_Id) | Some client \<Rightarrow>
      (case pb_kind b of None \<Rightarrow> (s, Inl No_Kind) | Some kind \<Rightarrow>
      (case pb_thread b of None \<Rightarrow> (s, Inl No_Thread) | Some i \<Rightarrow>
       let sender_type = (case pb_sender_type b of Some t \<Rightarrow> t | None \<Rightarrow> of_str ''agent'') in
      (case pb_sender_id b of None \<Rightarrow> (s, Inl No_Sender) | Some sender_id \<Rightarrow>
       if sender_type \<noteq> of_str ''agent'' \<or> sender_id \<noteq> from_node then (s, Inl (Wrong_Sender sender_type sender_id)) else
      (case pb_content b of None \<Rightarrow> (s, Inl No_Content) | Some content \<Rightarrow>
       let tag = (case pb_tag b of Some t \<Rightarrow> t | None \<Rightarrow> []) in
       if tag \<in> set reserved_tags then (s, Inl (Reserved_Tag tag)) else
       (case post_discussion_core now uni env \<lparr> ev_origin = sender_id, ev_client = client, ev_kind = kind, ev_target = i,
            ev_sender = \<lparr> ac_kind = sender_type, ac_id = sender_id \<rparr>, ev_content = content, ev_reply = pb_reply b,
            ev_tag = tag \<rparr> s of
          (s', Inl x) \<Rightarrow> (s', Inl (Core_Refused x))
        | (s', Inr a) \<Rightarrow> (s', Inr a)))))))"

section \<open>Reading\<close>

record listed_message =
  lm_id :: int
  lm_sender :: actor
  lm_content :: utext
  lm_reply :: "int option"
  lm_tag :: utext
  lm_at :: int

definition listed_comment :: "comment \<Rightarrow> listed_message" where
  "listed_comment c = \<lparr> lm_id = cm_id c, lm_sender = cm_author c, lm_content = cm_content c, lm_reply = cm_parent c,
     lm_tag = of_str (comment_type_str (cm_type c)), lm_at = cm_at c \<rparr>"

definition listed_channel :: "channel_message \<Rightarrow> listed_message" where
  "listed_channel m = \<lparr> lm_id = ms_id m, lm_sender = ms_sender m, lm_content = ms_content m, lm_reply = ms_parent m,
     lm_tag = ms_type m, lm_at = ms_at m \<rparr>"

definition clamp :: "int \<Rightarrow> int \<Rightarrow> int \<Rightarrow> int" where
  "clamp lo hi x = (if x < lo then lo else if hi < x then hi else x)"

definition keep_last :: "nat \<Rightarrow> 'a list \<Rightarrow> 'a list" where
  "keep_last n xs = drop (length xs - n) xs"

datatype list_error = List_No_Kind | List_No_Thread | List_Unknown_Kind utext

definition handle_comment_list :: "utext option \<Rightarrow> int option \<Rightarrow> int option \<Rightarrow> talk \<Rightarrow> list_error + listed_message list" where
  "handle_comment_list kind thread limit s =
     (case kind of None \<Rightarrow> Inl List_No_Kind | Some k \<Rightarrow>
     (case thread of None \<Rightarrow> Inl List_No_Thread | Some i \<Rightarrow>
      let limit = clamp 1 500 (case limit of Some x \<Rightarrow> x | None \<Rightarrow> 200) in
      if k = of_str ''issue'' then Inr (keep_last (nat limit) (map listed_comment (list_comments i (tk_board s))))
      else if k = of_str ''channel'' then Inr (keep_last (nat limit) (map listed_channel (list_channel_messages i 0 limit s)))
      else Inl (List_Unknown_Kind k)))"

definition handle_sync :: "int option \<Rightarrow> nat option \<Rightarrow> talk \<Rightarrow> ledger_entry list \<times> int" where
  "handle_sync since limit s =
     (let since = (case since of Some x \<Rightarrow> x | None \<Rightarrow> 0);
          limit = clamp 1 2000 (int (case limit of Some x \<Rightarrow> x | None \<Rightarrow> 500)) in
      (list_messages_since since limit s, latest_seq s))"

datatype started_answer = Running | No_Task_Id | Started_No_From | Not_Stored_Yet utext | Not_Dispatched utext

definition handle_task_started :: "utext option \<Rightarrow> utext \<Rightarrow> board \<Rightarrow> board \<times> started_answer" where
  "handle_task_started task from_node b =
     (case task of None \<Rightarrow> (b, No_Task_Id) | Some t \<Rightarrow>
      if from_node = [] then (b, Started_No_From)
      else case mark_dispatch_running t from_node b of
        (b', Inr True) \<Rightarrow> (b', Running)
      | (b', _) \<Rightarrow> (b', case get_dispatch t b' of None \<Rightarrow> Not_Stored_Yet t | Some _ \<Rightarrow> Not_Dispatched t))"

section \<open>Waking\<close>

definition wake_context_messages :: nat where
  "wake_context_messages = 20"

record context_message =
  cx_sender :: utext
  cx_kind :: utext
  cx_content :: utext
  cx_at :: int

definition thread_context :: "utext \<Rightarrow> int \<Rightarrow> talk \<Rightarrow> context_message list" where
  "thread_context kind i s = keep_last wake_context_messages
     (if kind = of_str ''issue''
      then map (\<lambda>c. \<lparr> cx_sender = ac_id (cm_author c), cx_kind = ac_kind (cm_author c), cx_content = cm_content c,
        cx_at = cm_at c \<rparr>) (list_comments i (tk_board s))
      else map (\<lambda>m. \<lparr> cx_sender = ac_id (ms_sender m), cx_kind = ac_kind (ms_sender m), cx_content = ms_content m,
        cx_at = ms_at m \<rparr>) (list_channel_messages i 0 (2 ^ 63 - 1) s))"

definition actor_label :: "utext \<Rightarrow> utext \<Rightarrow> utext" where
  "actor_label kind i =
     (if kind = of_str ''admin'' then i @ of_str '' (human user)''
      else if kind = of_str ''agent'' then i @ of_str '' (agent node)''
      else if kind = of_str ''system'' then i @ of_str '' (system)''
      else i)"

definition clip_chars :: "utext \<Rightarrow> nat \<Rightarrow> utext" where
  "clip_chars s n = (if length s \<le> n then s else take n s @ [8230])"

record wake_packet =
  wk_event :: string
  wk_kind :: utext
  wk_thread :: int
  wk_title :: utext
  wk_summary :: utext
  wk_messages :: "context_message list"
  wk_sender :: utext
  wk_sender_kind :: utext
  wk_content :: utext
  wk_at :: int
  wk_reply :: "int option"
  wk_turns :: "32 word"
  wk_seq :: int

record wake_context =
  wx_kind :: utext
  wx_thread :: int
  wx_sender :: actor
  wx_content :: utext
  wx_reply :: "int option"
  wx_seq :: int
  wx_at :: int

definition wake_title :: "utext \<Rightarrow> int \<Rightarrow> talk \<Rightarrow> utext \<times> utext" where
  "wake_title kind i s =
     (if kind = of_str ''issue''
      then (case find_issue i (tk_board s) of
          Some r \<Rightarrow> (is_title r, clip_chars (is_description r) 500) | None \<Rightarrow> ([], []))
      else (case find (\<lambda>c. ch_id c = i) (list_channels s) of Some c \<Rightarrow> (35 # ch_name c, []) | None \<Rightarrow> ([], [])))"

definition build_wake_envelope :: "wake_context \<Rightarrow> 32 word \<Rightarrow> string \<Rightarrow> talk \<Rightarrow> wake_packet" where
  "build_wake_envelope ctx turns label s =
     (let (title, summary) = wake_title (wx_kind ctx) (wx_thread ctx) s in
      \<lparr> wk_event = label, wk_kind = wx_kind ctx, wk_thread = wx_thread ctx, wk_title = title, wk_summary = summary,
        wk_messages = thread_context (wx_kind ctx) (wx_thread ctx) s, wk_sender = ac_id (wx_sender ctx),
        wk_sender_kind = ac_kind (wx_sender ctx), wk_content = wx_content ctx, wk_at = wx_at ctx,
        wk_reply = wx_reply ctx, wk_turns = turns, wk_seq = wx_seq ctx \<rparr>)"

text \<open>What a delivery sends, and whether the moderator speaks (as one who is addressed or as a judge). Without a
  client for remote calls a plan with targets ends at once.\<close>

record delivery =
  dl_wakes :: "(utext \<times> wake_packet) list"
  dl_moderator :: "bool option"

definition deliver_wakeups :: "unicode \<Rightarrow> bus_env \<Rightarrow> bool \<Rightarrow> wake_context \<Rightarrow> wake_plan \<Rightarrow> bus \<Rightarrow> delivery" where
  "deliver_wakeups uni env rpc ctx plan s =
     (let turns = turns_left (be_cfg env) (thread_key (wx_kind ctx) (wx_thread ctx)) (bu_quota s) in
      if turns = 0 then \<lparr> dl_wakes = [], dl_moderator = None \<rparr>
      else (let label = (if wx_kind ctx = of_str ''issue''
                  \<and> thread_assignee (wx_kind ctx) (wx_thread ctx) (bu_talk s) \<noteq> None
                  \<and> \<not> has_mentions uni (wx_content ctx) then ''assignee_comment'' else ''mention'');
                others = filter (\<lambda>t. t \<noteq> be_self env) (wp_targets plan);
                self_woken = (be_self env \<in> set (wp_targets plan)) in
        if wp_targets plan \<noteq> [] \<and> \<not> rpc then \<lparr> dl_wakes = [], dl_moderator = None \<rparr>
        else \<lparr> dl_wakes = map (\<lambda>t. (t, build_wake_envelope ctx turns label (bu_talk s))) others,
               dl_moderator = (if wp_to_moderator plan \<or> self_woken then Some self_woken else None) \<rparr>))"

end
