(* ===== verification/Board_Sync.thy ===== *)
theory Board_Sync
  imports Board_Bus
begin

text \<open>
  The worker's side of the message bus (\<open>src/nemesisbot/src/board_bus.rs\<close>): the marks that make a wake message be
  handled once, the wake message itself, and the pull that catches up with what was missed. The handlers are given
  twice: first as functions, for a run nobody interrupts (whether the inbox of the agent loop takes an event is the
  argument \<open>up\<close>; the events it took are the list they return), and then step by step, each lock and each write of the
  snapshot a step of its own, with any number of handlers at once, writes that fail and crashes. The functions are
  shown to be the uninterrupted runs. The RPC is not modelled: a pull gets what \<open>handle_sync\<close> of the master answers.
\<close>

definition board_sync_pull_limit :: nat where
  "board_sync_pull_limit = 500"

record discussion_event =
  de_kind :: utext
  de_thread :: int
  de_title :: utext
  de_messages :: "context_message list"
  de_event :: utext
  de_from :: utext
  de_sender :: utext
  de_sender_kind :: utext
  de_content :: utext
  de_at :: int
  de_reply :: "int option"
  de_turns :: "32 word"
  de_seq :: int

record wake_state =
  ws_threads :: "(utext, int) map"
  ws_participated :: "utext \<Rightarrow> bool"
  ws_watermark :: int

definition wake_state_new :: wake_state where
  "wake_state_new = \<lparr> ws_threads = Map.empty, ws_participated = (\<lambda>_. False), ws_watermark = 0 \<rparr>"

text \<open>What is written to disk after each change, and what is made of it after a restart.\<close>

record wake_snapshot =
  wn_threads :: "(utext, int) map"
  wn_watermark :: int

definition snapshot_of :: "wake_state \<Rightarrow> wake_snapshot" where
  "snapshot_of w = \<lparr> wn_threads = ws_threads w, wn_watermark = ws_watermark w \<rparr>"

definition load_or_create :: "wake_snapshot option \<Rightarrow> wake_state" where
  "load_or_create snap =
     (case snap of
        None \<Rightarrow> wake_state_new
      | Some n \<Rightarrow> \<lparr> ws_threads = wn_threads n, ws_participated = (\<lambda>k. wn_threads n k \<noteq> None), ws_watermark = wn_watermark n \<rparr>)"

definition mark_of :: "utext \<Rightarrow> wake_state \<Rightarrow> int" where
  "mark_of k w = (case ws_threads w k of Some x \<Rightarrow> x | None \<Rightarrow> 0)"

definition peek_seq :: "utext \<Rightarrow> int \<Rightarrow> wake_state \<Rightarrow> bool" where
  "peek_seq k q w \<longleftrightarrow> mark_of k w < q"

definition commit_seq :: "utext \<Rightarrow> int \<Rightarrow> wake_state \<Rightarrow> wake_state" where
  "commit_seq k q w = w\<lparr> ws_threads := (ws_threads w)(k \<mapsto> (if mark_of k w < q then q else mark_of k w)),
     ws_participated := (ws_participated w)(k := True) \<rparr>"

definition advance_watermark :: "int \<Rightarrow> wake_state \<Rightarrow> wake_state" where
  "advance_watermark q w = (if ws_watermark w < q then w\<lparr> ws_watermark := q \<rparr> else w)"

definition is_participated :: "utext \<Rightarrow> wake_state \<Rightarrow> bool" where
  "is_participated k w = ws_participated w k"

definition ws_joined :: "wake_state \<Rightarrow> utext set" where
  "ws_joined w = Collect (ws_participated w)"

lemma ws_joined_simps [simp]:
  "ws_joined wake_state_new = {}" "ws_joined (commit_seq k q w) = insert k (ws_joined w)"
  "ws_joined (advance_watermark q w) = ws_joined w"
  by (auto simp: ws_joined_def wake_state_new_def commit_seq_def advance_watermark_def)

lemma participated_joined: "is_participated k w \<longleftrightarrow> k \<in> ws_joined w"
  by (simp add: is_participated_def ws_joined_def)

record worker_env =
  we_self :: utext
  we_name :: utext
  we_role :: utext
  we_category :: utext

section \<open>Wake messages\<close>

record wake_body =
  wb_kind :: "utext option"
  wb_thread :: "int option"
  wb_sender :: "utext option"
  wb_content :: "utext option"
  wb_seq :: "int option"
  wb_messages :: "context_message list"
  wb_event :: "utext option"
  wb_title :: "utext option"
  wb_at :: "int option"
  wb_reply :: "int option"
  wb_turns :: "64 word option"
  wb_sender_kind :: "utext option"

datatype wake_error = Wake_No_Kind | Wake_No_Thread | Wake_No_Sender | Wake_No_Content | Wake_No_Seq

definition or_else :: "'a option \<Rightarrow> 'a \<Rightarrow> 'a" where
  "or_else x d = (case x of Some y \<Rightarrow> y | None \<Rightarrow> d)"

text \<open>The number of turns left is cut to 32 bits.\<close>

definition parse_wake_body :: "wake_body \<Rightarrow> utext \<Rightarrow> wake_error + discussion_event" where
  "parse_wake_body b from_node =
     (case wb_kind b of None \<Rightarrow> Inl Wake_No_Kind | Some kind \<Rightarrow>
     (case wb_thread b of None \<Rightarrow> Inl Wake_No_Thread | Some i \<Rightarrow>
     (case wb_sender b of None \<Rightarrow> Inl Wake_No_Sender | Some sender \<Rightarrow>
     (case wb_content b of None \<Rightarrow> Inl Wake_No_Content | Some content \<Rightarrow>
     (case wb_seq b of None \<Rightarrow> Inl Wake_No_Seq | Some q \<Rightarrow>
       Inr \<lparr> de_kind = kind, de_thread = i, de_title = or_else (wb_title b) [], de_messages = wb_messages b,
         de_event = or_else (wb_event b) (of_str ''mention''), de_from = from_node, de_sender = sender,
         de_sender_kind = or_else (wb_sender_kind b) [], de_content = content, de_at = or_else (wb_at b) 0,
         de_reply = wb_reply b, de_turns = ucast (or_else (wb_turns b) 4294967295), de_seq = q \<rparr>)))))"

datatype wake_answer = Wake_Invalid wake_error | Wake_Duplicate | Wake_Queued | Wake_Unavailable

definition handle_wake_event ::
    "(discussion_event \<Rightarrow> bool) \<Rightarrow> discussion_event \<Rightarrow> wake_state \<Rightarrow> wake_state \<times> discussion_event list \<times> wake_answer" where
  "handle_wake_event up e w =
     (let k = thread_key (de_kind e) (de_thread e) in
      if \<not> peek_seq k (de_seq e) w then (w, [], Wake_Duplicate)
      else if up e then (commit_seq k (de_seq e) w, [e], Wake_Queued)
      else (w, [], Wake_Unavailable))"

definition handle_wake_post ::
    "(discussion_event \<Rightarrow> bool) \<Rightarrow> wake_body \<Rightarrow> utext \<Rightarrow> wake_state \<Rightarrow> wake_state \<times> discussion_event list \<times> wake_answer" where
  "handle_wake_post up b from_node w =
     (case parse_wake_body b from_node of
        Inl x \<Rightarrow> (w, [], Wake_Invalid x)
      | Inr e \<Rightarrow> handle_wake_event up e w)"

section \<open>Catching up\<close>

definition sync_entry_targets_me :: "unicode \<Rightarrow> worker_env \<Rightarrow> utext \<Rightarrow> utext \<Rightarrow> utext \<Rightarrow> wake_state \<Rightarrow> bool" where
  "sync_entry_targets_me uni me content sender k w \<longleftrightarrow>
     sender \<noteq> we_self me \<and>
     (is_participated k w \<or> mentions_node uni content (we_self me) (we_name me) (we_role me) (we_category me))"

definition kind_text :: "thread_kind \<Rightarrow> utext" where
  "kind_text k = (case k of Issue_Thread \<Rightarrow> of_str ''issue'' | Channel_Thread \<Rightarrow> of_str ''channel'')"

definition entry_key :: "ledger_entry \<Rightarrow> utext" where
  "entry_key x = thread_key (kind_text (le_kind x)) (le_thread x)"

definition backfill_event :: "utext \<Rightarrow> ledger_entry \<Rightarrow> discussion_event" where
  "backfill_event master x = \<lparr> de_kind = kind_text (le_kind x), de_thread = le_thread x, de_title = [], de_messages = [],
     de_event = of_str ''sync_backfill'', de_from = master, de_sender = le_sender x, de_sender_kind = le_sender_type x,
     de_content = le_content x, de_at = le_at x, de_reply = None, de_turns = - 1, de_seq = le_seq x \<rparr>"

text \<open>The loop over the entries: the state, the events that were taken, and the smallest number that was not.\<close>

type_synonym sync_acc = "wake_state \<times> discussion_event list \<times> int option"

definition sync_entry ::
    "unicode \<Rightarrow> worker_env \<Rightarrow> utext \<Rightarrow> (discussion_event \<Rightarrow> bool) \<Rightarrow> ledger_entry \<Rightarrow> sync_acc \<Rightarrow> sync_acc" where
  "sync_entry uni me master up x a =
     (case a of (w, out, missed) \<Rightarrow>
        if \<not> sync_entry_targets_me uni me (le_content x) (le_sender x) (entry_key x) w then a
        else if \<not> peek_seq (entry_key x) (le_seq x) w then a
        else if up (backfill_event master x)
        then (commit_seq (entry_key x) (le_seq x) w, out @ [backfill_event master x], missed)
        else (w, out, Some (case missed of Some m \<Rightarrow> min m (le_seq x) | None \<Rightarrow> le_seq x)))"

definition sync_advance_target :: "int option \<Rightarrow> int \<Rightarrow> int" where
  "sync_advance_target missed newest = (case missed of Some f \<Rightarrow> min (f - 1) newest | None \<Rightarrow> newest)"

definition worker_sync_once ::
    "unicode \<Rightarrow> worker_env \<Rightarrow> utext \<Rightarrow> (discussion_event \<Rightarrow> bool) \<Rightarrow> ledger_entry list \<times> int \<Rightarrow> wake_state
       \<Rightarrow> wake_state \<times> discussion_event list" where
  "worker_sync_once uni me master up response w =
     (case fold (sync_entry uni me master up) (fst response) (w, [], None) of
        (w', out, missed) \<Rightarrow> (advance_watermark (sync_advance_target missed (snd response)) w', out))"

text \<open>A pull from the master's tables.\<close>

definition sync_from :: "unicode \<Rightarrow> worker_env \<Rightarrow> utext \<Rightarrow> (discussion_event \<Rightarrow> bool) \<Rightarrow> talk \<Rightarrow> wake_state
    \<Rightarrow> wake_state \<times> discussion_event list" where
  "sync_from uni me master up s w =
     worker_sync_once uni me master up (handle_sync (Some (ws_watermark w)) (Some board_sync_pull_limit) s) w"

section \<open>Handlers step by step\<close>

definition event_key :: "discussion_event \<Rightarrow> utext" where
  "event_key e = thread_key (de_kind e) (de_thread e)"

text \<open>
  A running handler is between two entries, has chosen an event, has found it above the mark of its thread, has given it
  to the agent loop, or is about to write the snapshot it took when it changed the marks. A pull has the entries still
  to come, the smallest number that was not taken and, until it has moved the watermark, the newest number.
\<close>

datatype job_stage =
    Between
  | Chosen discussion_event
  | Fresh discussion_event
  | Taken discussion_event
  | Saving wake_snapshot

record job =
  jb_stage :: job_stage
  jb_rest :: "ledger_entry list"
  jb_missed :: "int option"
  jb_newest :: "int option"
  jb_master :: utext

record worker =
  wk_state :: wake_state
  wk_disk :: "wake_snapshot option"
  wk_jobs :: "(nat, job) map"
  wk_given :: "discussion_event list" \<comment> \<open>to the agent loop, since ever\<close>

definition worker_start :: "wake_snapshot option \<Rightarrow> worker" where
  "worker_start disk = \<lparr> wk_state = load_or_create disk, wk_disk = disk, wk_jobs = Map.empty, wk_given = [] \<rparr>"

definition put_job :: "nat \<Rightarrow> job \<Rightarrow> worker \<Rightarrow> worker" where
  "put_job j b w = w\<lparr> wk_jobs := (wk_jobs w)(j \<mapsto> b) \<rparr>"

text \<open>The next step of a handler. \<open>ok\<close> tells whether the agent loop takes the event, or whether the write succeeds.\<close>

definition job_step :: "unicode \<Rightarrow> worker_env \<Rightarrow> nat \<Rightarrow> bool \<Rightarrow> job \<Rightarrow> worker \<Rightarrow> worker" where
  "job_step uni me j ok b w =
     (case jb_stage b of
        Between \<Rightarrow>
          (case jb_rest b of
             x # xs \<Rightarrow>
               put_job j (b\<lparr> jb_rest := xs, jb_stage :=
                 (if sync_entry_targets_me uni me (le_content x) (le_sender x) (entry_key x) (wk_state w)
                  then Chosen (backfill_event (jb_master b) x) else Between) \<rparr>) w
           | [] \<Rightarrow>
               (case jb_newest b of
                  Some q \<Rightarrow>
                    let s = advance_watermark (sync_advance_target (jb_missed b) q) (wk_state w) in
                    put_job j (b\<lparr> jb_newest := None, jb_stage := Saving (snapshot_of s) \<rparr>) (w\<lparr> wk_state := s \<rparr>)
                | None \<Rightarrow> w\<lparr> wk_jobs := (wk_jobs w)(j := None) \<rparr>))
      | Chosen e \<Rightarrow> put_job j (b\<lparr> jb_stage := (if peek_seq (event_key e) (de_seq e) (wk_state w) then Fresh e else Between) \<rparr>) w
      | Fresh e \<Rightarrow>
          if ok then put_job j (b\<lparr> jb_stage := Taken e \<rparr>) (w\<lparr> wk_given := wk_given w @ [e] \<rparr>)
          else put_job j (b\<lparr> jb_stage := Between,
                 jb_missed := Some (case jb_missed b of Some m \<Rightarrow> min m (de_seq e) | None \<Rightarrow> de_seq e) \<rparr>) w
      | Taken e \<Rightarrow>
          let s = commit_seq (event_key e) (de_seq e) (wk_state w) in
          put_job j (b\<lparr> jb_stage := Saving (snapshot_of s) \<rparr>) (w\<lparr> wk_state := s \<rparr>)
      | Saving n \<Rightarrow> put_job j (b\<lparr> jb_stage := Between \<rparr>) (if ok then w\<lparr> wk_disk := Some n \<rparr> else w))"

text \<open>
  What happens to a worker: a wake message or the answer to a pull starts a handler under a free number, a handler takes
  a step, or the process ends at any point and starts again from what is on disk.
\<close>

datatype worker_op =
    Wake_Arrives nat wake_body utext
  | Pull_Answered nat utext "ledger_entry list \<times> int"
  | Job_Step nat bool
  | Crash

definition wake_job :: "discussion_event \<Rightarrow> job" where
  "wake_job e = \<lparr> jb_stage = Chosen e, jb_rest = [], jb_missed = None, jb_newest = None, jb_master = [] \<rparr>"

definition pull_job :: "utext \<Rightarrow> ledger_entry list \<times> int \<Rightarrow> job" where
  "pull_job master r = \<lparr> jb_stage = Between, jb_rest = fst r, jb_missed = None, jb_newest = Some (snd r), jb_master = master \<rparr>"

fun worker_step :: "unicode \<Rightarrow> worker_env \<Rightarrow> worker \<Rightarrow> worker_op \<Rightarrow> worker" where
  "worker_step uni me w (Wake_Arrives j b from_node) =
     (case parse_wake_body b from_node of
        Inl _ \<Rightarrow> w
      | Inr e \<Rightarrow> if wk_jobs w j = None then put_job j (wake_job e) w else w)"
| "worker_step uni me w (Pull_Answered j master r) = (if wk_jobs w j = None then put_job j (pull_job master r) w else w)"
| "worker_step uni me w (Job_Step j ok) = (case wk_jobs w j of None \<Rightarrow> w | Some b \<Rightarrow> job_step uni me j ok b w)"
| "worker_step uni me w Crash = w\<lparr> wk_state := load_or_create (wk_disk w), wk_jobs := Map.empty \<rparr>"

definition worker_run :: "unicode \<Rightarrow> worker_env \<Rightarrow> worker \<Rightarrow> worker_op list \<Rightarrow> worker" where
  "worker_run uni me = run_events (worker_step uni me)"

lemma mark_commit: "mark_of k' (commit_seq k q w) = (if k' = k then max (mark_of k w) q else mark_of k' w)"
  by (auto simp: mark_of_def commit_seq_def)

lemma mark_advance [simp]: "mark_of k (advance_watermark q w) = mark_of k w"
  by (simp add: mark_of_def advance_watermark_def)

lemma mark_snapshot [simp]: "mark_of k (load_or_create (Some (snapshot_of w))) = mark_of k w"
  by (simp add: mark_of_def load_or_create_def snapshot_of_def)

lemma key_backfill [simp]: "event_key (backfill_event m x) = entry_key x" "de_seq (backfill_event m x) = le_seq x"
  by (simp_all add: event_key_def backfill_event_def entry_key_def)

section \<open>The functions are the uninterrupted runs\<close>

lemma run_Nil [simp]: "worker_run uni me w [] = w"
  by (simp add: worker_run_def)

lemma run_Cons [simp]: "worker_run uni me w (x # ops) = worker_run uni me (worker_step uni me w x) ops"
  by (simp add: worker_run_def)

lemma run_append: "worker_run uni me w (xs @ ys) = worker_run uni me (worker_run uni me w xs) ys"
  by (simp add: worker_run_def run_events_append)

text \<open>A worker with one more handler.\<close>

lemma put_job_simps [simp]:
  "wk_jobs (put_job j b w) = (wk_jobs w)(j \<mapsto> b)" "wk_state (put_job j b w) = wk_state w"
  "wk_disk (put_job j b w) = wk_disk w" "wk_given (put_job j b w) = wk_given w"
  by (simp_all add: put_job_def)

lemmas one_step = job_step_def event_key_def [symmetric]

text \<open>A wake message handled alone, whatever the writes of the snapshot do.\<close>

lemma wake_alone:
  assumes "parse_wake_body b from_node = Inr e" "wk_jobs w j = None"
  shows "\<exists>ops. let w' = worker_run uni me w (Wake_Arrives j b from_node # ops); r = handle_wake_event up e (wk_state w) in
    wk_state w' = fst r \<and> wk_given w' = wk_given w @ fst (snd r) \<and> wk_jobs w' = wk_jobs w"
proof -
  have fin: "(wk_jobs w)(j := None) = wk_jobs w" using assms(2) by auto
  consider "\<not> peek_seq (event_key e) (de_seq e) (wk_state w)" | "peek_seq (event_key e) (de_seq e) (wk_state w)" "up e"
    | "peek_seq (event_key e) (de_seq e) (wk_state w)" "\<not> up e" by blast
  then show ?thesis
  proof cases
    case 1
    then show ?thesis
      by (intro exI [of _ "[Job_Step j True, Job_Step j True]"])
        (simp add: assms one_step wake_job_def handle_wake_event_def Let_def fin)
  next
    case 2
    then show ?thesis
      by (intro exI [of _ "[Job_Step j True, Job_Step j True, Job_Step j True, Job_Step j True, Job_Step j True]"])
        (simp add: assms one_step wake_job_def handle_wake_event_def Let_def fin)
  next
    case 3
    then show ?thesis
      by (intro exI [of _ "[Job_Step j True, Job_Step j False, Job_Step j True]"])
        (simp add: assms one_step wake_job_def handle_wake_event_def Let_def fin)
  qed
qed

text \<open>An entry of a pull, and a whole pull.\<close>

definition at_entries :: "nat \<Rightarrow> utext \<Rightarrow> int \<Rightarrow> ledger_entry list \<Rightarrow> sync_acc \<Rightarrow> worker \<Rightarrow> worker \<Rightarrow> bool" where
  "at_entries j m q xs a w0 w \<longleftrightarrow> wk_state w = fst a \<and> wk_given w = wk_given w0 @ fst (snd a) \<and>
     wk_jobs w = (wk_jobs w0)(j \<mapsto> \<lparr> jb_stage = Between, jb_rest = xs, jb_missed = snd (snd a), jb_newest = Some q, jb_master = m \<rparr>)"

lemma entry_alone:
  assumes "at_entries j m q (x # xs) a w0 w"
  shows "\<exists>ops. at_entries j m q xs (sync_entry uni me m up x a) w0 (worker_run uni me w ops)"
proof -
  obtain s out missed where a: "a = (s, out, missed)" by (metis prod_cases3)
  consider "\<not> sync_entry_targets_me uni me (le_content x) (le_sender x) (entry_key x) s"
    | "sync_entry_targets_me uni me (le_content x) (le_sender x) (entry_key x) s" "\<not> peek_seq (entry_key x) (le_seq x) s"
    | "sync_entry_targets_me uni me (le_content x) (le_sender x) (entry_key x) s" "peek_seq (entry_key x) (le_seq x) s"
      "up (backfill_event m x)"
    | "sync_entry_targets_me uni me (le_content x) (le_sender x) (entry_key x) s" "peek_seq (entry_key x) (le_seq x) s"
      "\<not> up (backfill_event m x)" by blast
  then show ?thesis
  proof cases
    case 1
    then show ?thesis using assms
      by (intro exI [of _ "[Job_Step j True]"]) (simp add: at_entries_def a one_step sync_entry_def)
  next
    case 2
    then show ?thesis using assms
      by (intro exI [of _ "[Job_Step j True, Job_Step j True]"]) (simp add: at_entries_def a one_step sync_entry_def)
  next
    case 3
    then show ?thesis using assms
      by (intro exI [of _ "[Job_Step j True, Job_Step j True, Job_Step j True, Job_Step j True, Job_Step j True]"])
        (simp add: at_entries_def a one_step sync_entry_def Let_def)
  next
    case 4
    then show ?thesis using assms
      by (intro exI [of _ "[Job_Step j True, Job_Step j True, Job_Step j False]"])
        (simp add: at_entries_def a one_step sync_entry_def split: option.splits)
  qed
qed

lemma entries_alone:
  "at_entries j m q xs a w0 w \<Longrightarrow> \<exists>ops. at_entries j m q [] (fold (sync_entry uni me m up) xs a) w0 (worker_run uni me w ops)"
proof (induction xs arbitrary: a w)
  case Nil
  then show ?case by (intro exI [of _ "[]"]) simp
next
  case (Cons x xs)
  from entry_alone [OF Cons.prems] obtain ops where
    "at_entries j m q xs (sync_entry uni me m up x a) w0 (worker_run uni me w ops)" by blast
  from Cons.IH [OF this] show ?case by (metis run_append fold_simps(2))
qed

lemma pull_alone:
  assumes "wk_jobs w j = None"
  shows "\<exists>ops. let w' = worker_run uni me w (Pull_Answered j m r # ops); p = worker_sync_once uni me m up r (wk_state w) in
    wk_state w' = fst p \<and> wk_given w' = wk_given w @ snd p \<and> wk_jobs w' = wk_jobs w"
proof -
  have fin: "(wk_jobs w)(j := None) = wk_jobs w" using assms by auto
  have "at_entries j m (snd r) (fst r) (wk_state w, [], None) w (put_job j (pull_job m r) w)"
    by (simp add: at_entries_def pull_job_def)
  from entries_alone [OF this] obtain ops where e: "at_entries j m (snd r) []
      (fold (sync_entry uni me m up) (fst r) (wk_state w, [], None)) w (worker_run uni me (put_job j (pull_job m r) w) ops)"
    by blast
  show ?thesis
    by (intro exI [of _ "ops @ [Job_Step j True, Job_Step j True, Job_Step j True]"])
      (use e assms fin in \<open>simp add: run_append at_entries_def one_step Let_def worker_sync_once_def split: prod.splits\<close>)
qed

section \<open>What is settled stays settled\<close>

text \<open>
  A thread is settled up to a number if its mark in memory has reached it, the snapshot on disk covers it, every snapshot
  that is still to be written covers it, and no handler is about to give the agent loop an older event of the thread.
  This is stable under every step of every handler, failed writes and crashes.
\<close>

definition job_settled :: "utext \<Rightarrow> int \<Rightarrow> job \<Rightarrow> bool" where
  "job_settled k q b \<longleftrightarrow>
     (case jb_stage b of
        Fresh e \<Rightarrow> event_key e = k \<longrightarrow> q < de_seq e
      | Saving n \<Rightarrow> q \<le> mark_of k (load_or_create (Some n))
      | _ \<Rightarrow> True)"

definition settled :: "utext \<Rightarrow> int \<Rightarrow> worker \<Rightarrow> bool" where
  "settled k q w \<longleftrightarrow> q \<le> mark_of k (wk_state w) \<and> q \<le> mark_of k (load_or_create (wk_disk w)) \<and>
     (\<forall>j b. wk_jobs w j = Some b \<longrightarrow> job_settled k q b)"

text \<open>Events given to the agent loop between two states.\<close>

definition given_since :: "worker \<Rightarrow> worker \<Rightarrow> discussion_event list" where
  "given_since w w' = drop (length (wk_given w)) (wk_given w')"

definition settled_since :: "utext \<Rightarrow> int \<Rightarrow> discussion_event list \<Rightarrow> worker \<Rightarrow> bool" where
  "settled_since k q old w \<longleftrightarrow> settled k q w \<and>
     (\<exists>new. wk_given w = old @ new \<and> list_all (\<lambda>e. event_key e = k \<longrightarrow> q < de_seq e) new)"

lemma settled_put:
  "settled k q w \<Longrightarrow> job_settled k q b \<Longrightarrow> settled k q (put_job j b w)"
  by (simp add: settled_def)

lemma settled_state:
  "settled k q w \<Longrightarrow> q \<le> mark_of k s \<Longrightarrow> settled k q (w\<lparr> wk_state := s \<rparr>)"
  by (simp add: settled_def)

lemma job_step_settled:
  assumes s: "settled_since k q old w" and b: "wk_jobs w j = Some b"
  shows "settled_since k q old (job_step uni me j ok b w)"
proof -
  from s have k: "settled k q w" and m: "q \<le> mark_of k (wk_state w)" and jb: "job_settled k q b"
    using b by (auto simp: settled_since_def settled_def)
  have given: "\<exists>new. wk_given w = old @ new \<and> list_all (\<lambda>e. event_key e = k \<longrightarrow> q < de_seq e) new"
    using s by (simp add: settled_since_def)
  show ?thesis
  proof (cases "jb_stage b")
    case Between
    have "settled k q (w\<lparr> wk_jobs := (wk_jobs w)(j := None) \<rparr>)" using k by (simp add: settled_def)
    moreover have "settled k q (put_job j (b\<lparr> jb_newest := None, jb_stage := Saving (snapshot_of (advance_watermark n (wk_state w))) \<rparr>)
        (w\<lparr> wk_state := advance_watermark n (wk_state w) \<rparr>))" for n
      by (rule settled_put [OF settled_state [OF k]]) (simp_all add: m job_settled_def)
    moreover have "settled k q (put_job j (b\<lparr> jb_rest := xs, jb_stage := (if c then Chosen e else Between) \<rparr>) w)" for xs c e
      by (rule settled_put [OF k]) (simp add: job_settled_def)
    ultimately show ?thesis
      using given by (auto simp: job_step_def Between settled_since_def Let_def split: list.splits option.splits)
  next
    case (Chosen e)
    have "settled k q (put_job j (b\<lparr> jb_stage := (if peek_seq (event_key e) (de_seq e) (wk_state w) then Fresh e else Between) \<rparr>) w)"
      using m by (intro settled_put [OF k]) (auto simp: job_settled_def peek_seq_def)
    then show ?thesis using given by (simp add: job_step_def Chosen settled_since_def)
  next
    case (Fresh e)
    then have e: "event_key e = k \<longrightarrow> q < de_seq e" using jb by (simp add: job_settled_def)
    from k have "settled k q (w\<lparr> wk_given := wk_given w @ [e] \<rparr>)" by (simp add: settled_def)
    then have "settled k q (put_job j (b\<lparr> jb_stage := Taken e \<rparr>) (w\<lparr> wk_given := wk_given w @ [e] \<rparr>))"
      by (rule settled_put) (simp add: job_settled_def)
    moreover have "settled k q (put_job j (b\<lparr> jb_stage := Between, jb_missed := x \<rparr>) w)" for x
      by (rule settled_put [OF k]) (simp add: job_settled_def)
    ultimately show ?thesis using given e by (auto simp: job_step_def Fresh settled_since_def)
  next
    case (Taken e)
    have "q \<le> mark_of k (commit_seq (event_key e) (de_seq e) (wk_state w))" using m by (auto simp: mark_commit le_max_iff_disj)
    then have "settled k q (put_job j (b\<lparr> jb_stage := Saving (snapshot_of (commit_seq (event_key e) (de_seq e) (wk_state w))) \<rparr>)
        (w\<lparr> wk_state := commit_seq (event_key e) (de_seq e) (wk_state w) \<rparr>))"
      by (intro settled_put [OF settled_state [OF k]]) (simp_all add: job_settled_def)
    then show ?thesis using given by (simp add: job_step_def Taken settled_since_def Let_def)
  next
    case (Saving n)
    then have "q \<le> mark_of k (load_or_create (Some n))" using jb by (simp add: job_settled_def)
    then have "settled k q (if ok then w\<lparr> wk_disk := Some n \<rparr> else w)" using k by (simp add: settled_def)
    then have "settled k q (put_job j (b\<lparr> jb_stage := Between \<rparr>) (if ok then w\<lparr> wk_disk := Some n \<rparr> else w))"
      by (rule settled_put) (simp add: job_settled_def)
    then show ?thesis using given by (auto simp: job_step_def Saving settled_since_def)
  qed
qed

lemma step_settled: "settled_since k q old w \<Longrightarrow> settled_since k q old (worker_step uni me w x)"
proof (induction uni me w x rule: worker_step.induct)
  case (3 uni me w j ok)
  then show ?case by (auto intro: job_step_settled split: option.splits)
next
  case (4 uni me w)
  then show ?case by (simp add: settled_since_def settled_def)
qed (auto simp: settled_since_def job_settled_def wake_job_def pull_job_def intro!: settled_put split: sum.splits)

interpretation settled: step_invariant "worker_step uni me" "settled_since k q old" for uni me k q old
  by unfold_locales (rule step_settled)

lemma run_settled:
  assumes "settled k q w"
  shows "settled k q (worker_run uni me w ops) \<and>
    list_all (\<lambda>e. event_key e = k \<longrightarrow> q < de_seq e) (given_since w (worker_run uni me w ops)) \<and>
    wk_given (worker_run uni me w ops) = wk_given w @ given_since w (worker_run uni me w ops)"
proof -
  have "settled_since k q (wk_given w) w" using assms by (simp add: settled_since_def)
  then have "settled_since k q (wk_given w) (worker_run uni me w ops)"
    unfolding worker_run_def by (rule settled.run_keeps)
  then show ?thesis by (auto simp: settled_since_def given_since_def)
qed

end
