(* ===== verification/Board_Relay.thy ===== *)
theory Board_Relay
  imports Board_Sync
begin

text \<open>
  Properties of the message bus between the master and its workers: who a post of a worker is by, that a worker
  handles a message once, and what a pull delivers; and where messages are lost.
\<close>

section \<open>Once\<close>

text \<open>
  C25. A worker with a snapshot file handles a message once. When a thread is settled up to a number (its mark has
  reached it in memory and on disk, no older snapshot is still to be written, and no handler that has already tested an
  older event of the thread is about to give it to the agent loop), then whatever follows (wake messages repeated, out of
  order or forged, answers to pulls, any number of handlers interleaved in their steps, writes of the snapshot that
  fail, crashes at any point and restarts), the agent loop is given no event of the thread up to that number, and the
  thread stays settled. And a wake message above the mark of its thread, handled while no other handler runs and with
  a write that succeeds, is given to the agent loop and leaves its thread settled up to its number.
\<close>

theorem worker_handles_once:
  "(settled k q w \<longrightarrow> settled k q (worker_run uni me w ops) \<and>
      list_all (\<lambda>e. event_key e = k \<longrightarrow> q < de_seq e) (given_since w (worker_run uni me w ops)) \<and>
      wk_given (worker_run uni me w ops) = wk_given w @ given_since w (worker_run uni me w ops)) \<and>
   (parse_wake_body b from_node = Inr e \<and> wk_jobs w = Map.empty \<and> peek_seq (event_key e) (de_seq e) (wk_state w) \<longrightarrow>
      (let w' = worker_run uni me w (Wake_Arrives j b from_node # replicate 5 (Job_Step j True)) in
         given_since w w' = [e] \<and> wk_jobs w' = Map.empty \<and> settled (event_key e) (de_seq e) w'))"
proof (intro conjI impI)
  show "settled k q (worker_run uni me w ops)"
    "list_all (\<lambda>e. event_key e = k \<longrightarrow> q < de_seq e) (given_since w (worker_run uni me w ops))"
    "wk_given (worker_run uni me w ops) = wk_given w @ given_since w (worker_run uni me w ops)" if "settled k q w"
    using run_settled [OF that] by blast+
next
  assume a: "parse_wake_body b from_node = Inr e \<and> wk_jobs w = Map.empty \<and> peek_seq (event_key e) (de_seq e) (wk_state w)"
  then have "worker_run uni me w (Wake_Arrives j b from_node # replicate 5 (Job_Step j True)) =
      w\<lparr> wk_state := commit_seq (event_key e) (de_seq e) (wk_state w), wk_given := wk_given w @ [e], wk_jobs := Map.empty,
         wk_disk := Some (snapshot_of (commit_seq (event_key e) (de_seq e) (wk_state w))) \<rparr>"
    by (simp add: numeral_eq_Suc job_step_def wake_job_def put_job_def Let_def)
  then show "let w' = worker_run uni me w (Wake_Arrives j b from_node # replicate 5 (Job_Step j True)) in
      given_since w w' = [e] \<and> wk_jobs w' = Map.empty \<and> settled (event_key e) (de_seq e) w'"
    by (simp add: Let_def given_since_def settled_def mark_commit)
qed

definition sample_wake :: wake_body where
  "sample_wake = \<lparr> wb_kind = Some (of_str ''channel''), wb_thread = Some 1, wb_sender = Some (of_str ''n1''),
     wb_content = Some (of_str ''hi''), wb_seq = Some 3, wb_messages = [], wb_event = None, wb_title = None, wb_at = None,
     wb_reply = None, wb_turns = None, wb_sender_kind = None \<rparr>"

definition sample_worker :: worker_env where
  "sample_worker = \<lparr> we_self = of_str ''n2'', we_name = of_str ''bob'', we_role = of_str ''worker'', we_category = of_str ''qa'' \<rparr>"

lemma worker_handles_once_witness:
  "let w = worker_run plain_unicode sample_worker (worker_start None) (Wake_Arrives 0 sample_wake (of_str ''m'') # replicate 5 (Job_Step 0 True));
       w' = worker_run plain_unicode sample_worker w [Wake_Arrives 1 sample_wake (of_str ''m''), Job_Step 1 True, Crash,
              Wake_Arrives 1 sample_wake (of_str ''m''), Job_Step 1 True, Job_Step 1 True, Job_Step 1 True]
   in length (wk_given w) = 1 \<and>
     filter (\<lambda>x. event_key x = thread_key (of_str ''channel'') 1 \<and> de_seq x \<le> 3) (given_since w w') = []"
proof -
  obtain e where e: "parse_wake_body sample_wake (of_str ''m'') = Inr e" "de_seq e = 3" "event_key e = thread_key (of_str ''channel'') 1"
    by (simp add: parse_wake_body_def sample_wake_def event_key_def)
  define w where "w = worker_run plain_unicode sample_worker (worker_start None) (Wake_Arrives 0 sample_wake (of_str ''m'') # replicate 5 (Job_Step 0 True))"
  define w' where "w' = worker_run plain_unicode sample_worker w [Wake_Arrives 1 sample_wake (of_str ''m''), Job_Step 1 True, Crash,
              Wake_Arrives 1 sample_wake (of_str ''m''), Job_Step 1 True, Job_Step 1 True, Job_Step 1 True]"
  have "wk_jobs (worker_start None) = Map.empty" "peek_seq (event_key e) (de_seq e) (wk_state (worker_start None))"
    "wk_given (worker_start None) = []"
    by (simp_all add: worker_start_def load_or_create_def wake_state_new_def peek_seq_def mark_of_def e)
  with worker_handles_once [of "[]" 0 "worker_start None" plain_unicode sample_worker "[]" sample_wake "of_str ''m''" e 0] e
  have one: "wk_given w = [e]" "settled (event_key e) 3 w"
    unfolding w_def Let_def given_since_def by auto
  from worker_handles_once [of "event_key e" 3 w plain_unicode sample_worker "[Wake_Arrives 1 sample_wake (of_str ''m''), Job_Step 1 True, Crash,
              Wake_Arrives 1 sample_wake (of_str ''m''), Job_Step 1 True, Job_Step 1 True, Job_Step 1 True]"] one(2)
  have "list_all (\<lambda>x. event_key x = event_key e \<longrightarrow> 3 < de_seq x) (given_since w w')" unfolding w'_def by blast
  then have "filter (\<lambda>x. event_key x = thread_key (of_str ''channel'') 1 \<and> de_seq x \<le> 3) (given_since w w') = []"
    by (auto simp: e list_all_iff filter_empty_conv)
  with one(1) show ?thesis unfolding w'_def [symmetric] w_def [symmetric] Let_def by simp
qed

section \<open>What a pull delivers\<close>

abbreviation names_me :: "unicode \<Rightarrow> worker_env \<Rightarrow> ledger_entry \<Rightarrow> bool" where
  "names_me uni me x \<equiv> mentions_node uni (le_content x) (we_self me) (we_name me) (we_role me) (we_category me)"

text \<open>An entry is meant for a worker if another node or person wrote it in a thread the worker has joined, or that
  has named the worker up to this entry.\<close>

definition meant_for :: "unicode \<Rightarrow> worker_env \<Rightarrow> utext set \<Rightarrow> ledger_entry list \<Rightarrow> nat \<Rightarrow> bool" where
  "meant_for uni me joined xs i \<longleftrightarrow> le_sender (xs ! i) \<noteq> we_self me \<and>
     (entry_key (xs ! i) \<in> joined \<or>
      (\<exists>j \<le> i. entry_key (xs ! j) = entry_key (xs ! i) \<and> le_sender (xs ! j) \<noteq> we_self me \<and> names_me uni me (xs ! j)))"

definition meant_entries :: "unicode \<Rightarrow> worker_env \<Rightarrow> utext set \<Rightarrow> ledger_entry list \<Rightarrow> ledger_entry list" where
  "meant_entries uni me joined xs = map ((!) xs) (filter (meant_for uni me joined xs) [0..<length xs])"

lemma meant_for_snoc: "i < length xs \<Longrightarrow> meant_for uni me joined (xs @ [x]) i = meant_for uni me joined xs i"
proof -
  assume "i < length xs"
  then have "(xs @ [x]) ! j = xs ! j" if "j \<le> i" for j using that by (simp add: nth_append)
  then show ?thesis by (simp add: meant_for_def cong: conj_cong)
qed

lemma meant_entries_snoc:
  "meant_entries uni me joined (xs @ [x]) = meant_entries uni me joined xs
     @ (if meant_for uni me joined (xs @ [x]) (length xs) then [x] else [])"
proof -
  have "filter (meant_for uni me joined (xs @ [x])) [0..<length xs] = filter (meant_for uni me joined xs) [0..<length xs]"
    by (rule filter_cong) (simp_all add: meant_for_snoc)
  moreover have "map ((!) (xs @ [x])) (filter P [0..<length xs]) = map ((!) xs) (filter P [0..<length xs])" for P
    by (rule map_cong) (auto simp: nth_append)
  ultimately show ?thesis by (simp add: meant_entries_def)
qed

lemma meant_last:
  "meant_for uni me joined (xs @ [x]) (length xs) \<longleftrightarrow> le_sender x \<noteq> we_self me \<and>
     (entry_key x \<in> joined \<union> entry_key ` set (meant_entries uni me joined xs) \<or> names_me uni me x)"
proof -
  have "entry_key x \<in> joined \<or>
      (\<exists>j < length xs. entry_key (xs ! j) = entry_key x \<and> le_sender (xs ! j) \<noteq> we_self me \<and> names_me uni me (xs ! j))"
    if k: "entry_key x \<in> entry_key ` set (meant_entries uni me joined xs)"
  proof -
    from k obtain i where i: "i < length xs" "meant_for uni me joined xs i" "entry_key (xs ! i) = entry_key x"
      by (auto simp: meant_entries_def)
    then show ?thesis unfolding meant_for_def i(3) by (meson le_less_trans)
  qed
  moreover have "j < length xs \<Longrightarrow> entry_key (xs ! j) = entry_key x \<Longrightarrow> le_sender (xs ! j) \<noteq> we_self me \<Longrightarrow>
      names_me uni me (xs ! j) \<Longrightarrow> entry_key x \<in> entry_key ` set (meant_entries uni me joined xs)" for j
    by (auto simp: meant_entries_def meant_for_def intro!: image_eqI [of _ _ "xs ! j"])
  ultimately show ?thesis
    by (auto simp: meant_for_def nth_append le_less less_Suc_eq)
qed

text \<open>The entries above the mark their thread had at first.\<close>

abbreviation unhandled :: "wake_state \<Rightarrow> ledger_entry \<Rightarrow> bool" where
  "unhandled w x \<equiv> mark_of (entry_key x) w < le_seq x"

lemma fold_delivers:
  assumes up: "\<forall>e. up e" and hidden: "\<forall>k. lo < mark_of k w \<longrightarrow> k \<in> ws_joined w"
  shows "sorted_wrt (<) (map le_seq xs) \<Longrightarrow> \<forall>x \<in> set xs. lo < le_seq x \<Longrightarrow>
    (case fold (sync_entry uni me m up) xs (w, [], None) of (w', out, missed) \<Rightarrow>
       missed = None \<and> out = map (backfill_event m) (filter (unhandled w) (meant_entries uni me (ws_joined w) xs)) \<and>
       ws_joined w' = ws_joined w \<union> entry_key ` set (meant_entries uni me (ws_joined w) xs) \<and>
       ws_watermark w' = ws_watermark w \<and>
       (\<forall>k. mark_of k w' = mark_of k w \<or> (\<exists>x \<in> set xs. mark_of k w' = le_seq x)))"
proof (induction xs rule: rev_induct)
  case Nil
  then show ?case by (simp add: meant_entries_def)
next
  case (snoc x xs)
  obtain w1 out1 missed1 where f: "fold (sync_entry uni me m up) xs (w, [], None) = (w1, out1, missed1)"
    by (metis prod_cases3)
  have ih: "missed1 = None" "out1 = map (backfill_event m) (filter (unhandled w) (meant_entries uni me (ws_joined w) xs))"
    "ws_joined w1 = ws_joined w \<union> entry_key ` set (meant_entries uni me (ws_joined w) xs)"
    "ws_watermark w1 = ws_watermark w" "\<forall>k. mark_of k w1 = mark_of k w \<or> (\<exists>x \<in> set xs. mark_of k w1 = le_seq x)"
    using snoc by (simp_all add: f sorted_wrt_append)
  have below: "\<forall>y \<in> set xs. le_seq y < le_seq x" and lo: "lo < le_seq x"
    using snoc.prems by (simp_all add: sorted_wrt_append)
  have kept: "mark_of k w \<le> mark_of k w1" for k
  proof -
    have "mark_of k s \<le> mark_of k (fst (fold (sync_entry uni me m up) ys (s, os, ms)))" for ys s os ms
    proof (induction ys arbitrary: s os ms)
      case (Cons y ys)
      obtain s1 os1 ms1 where e: "sync_entry uni me m up y (s, os, ms) = (s1, os1, ms1)" by (metis prod_cases3)
      then have "mark_of k s \<le> mark_of k s1" by (auto simp: sync_entry_def mark_commit split: if_splits)
      with Cons.IH [of s1 os1 ms1] show ?case by (simp add: e)
    qed simp
    from this [of w xs "[]" None] show ?thesis by (simp add: f)
  qed
  have peek: "peek_seq (entry_key x) (le_seq x) w1 \<longleftrightarrow> unhandled w x"
  proof
    assume "peek_seq (entry_key x) (le_seq x) w1"
    then show "unhandled w x" using kept [of "entry_key x"] by (simp add: peek_seq_def)
  next
    assume "unhandled w x"
    with ih(5) below show "peek_seq (entry_key x) (le_seq x) w1" unfolding peek_seq_def by metis
  qed
  have mine: "sync_entry_targets_me uni me (le_content x) (le_sender x) (entry_key x) w1
      \<longleftrightarrow> meant_for uni me (ws_joined w) (xs @ [x]) (length xs)"
    unfolding meant_last sync_entry_targets_me_def participated_joined ih(3) by blast
  have one: "sync_entry uni me m up x (w1, out1, missed1)
      = (if meant_for uni me (ws_joined w) (xs @ [x]) (length xs) \<and> unhandled w x
         then (commit_seq (entry_key x) (le_seq x) w1, out1 @ [backfill_event m x], missed1) else (w1, out1, missed1))"
    using mine peek up by (auto simp: sync_entry_def)
  have known: "entry_key x \<in> ws_joined w" if "\<not> unhandled w x" using hidden lo that by fastforce
  have commit: "ws_joined (commit_seq (entry_key x) (le_seq x) w1) = insert (entry_key x) (ws_joined w1)"
    "ws_watermark (commit_seq (entry_key x) (le_seq x) w1) = ws_watermark w1"
    by (simp_all, simp add: commit_seq_def)
  have mark: "mark_of k (commit_seq (entry_key x) (le_seq x) w1) = (if k = entry_key x then le_seq x else mark_of k w1)"
    if "unhandled w x" for k using that peek by (auto simp: mark_commit peek_seq_def)
  have "fold (sync_entry uni me m up) (xs @ [x]) (w, [], None) = sync_entry uni me m up x (w1, out1, missed1)"
    by (simp add: f)
  then show ?case
    using ih mark known commit unfolding one by (auto simp: meant_entries_snoc)
qed

lemma since_drop:
  "counted (map lg_seq ls) \<Longrightarrow> 0 \<le> c \<Longrightarrow> filter (\<lambda>l. c < lg_seq l) ls = drop (nat c) ls"
proof (induction ls rule: rev_induct)
  case (snoc l ls)
  then have "counted (map lg_seq ls)" "lg_seq l = int (length ls) + 1" by (simp_all add: counted_def)
  with snoc show ?case by auto
qed simp

lemma entry_seq [simp]: "le_seq (join_entry s l) = lg_seq l"
  by (auto simp: join_entry_def bare_entry_def split: thread_kind.splits option.splits)

lemma counted_strict: "counted is \<Longrightarrow> sorted_wrt (<) is"
proof -
  assume "counted is"
  then have "is = map (\<lambda>k. int k + 1) [0..<length is]" by (simp add: counted_def)
  moreover have "sorted_wrt (<) (map (\<lambda>k. int k + 1) [0..<length is])"
    unfolding sorted_wrt_map by (rule sorted_wrt_mono_rel [OF _ sorted_wrt_upt]) simp
  ultimately show ?thesis by metis
qed

lemma since_entries:
  assumes "talk_ok s" "0 \<le> c"
  shows "list_messages_since c k s = limited k (map (join_entry s) (drop (nat c) (tk_ledger s)))"
    and "sorted_wrt (<) (map le_seq (list_messages_since c k s))"
    and "\<forall>x \<in> set (list_messages_since c k s). c < le_seq x"
    and "latest_seq s = int (length (tk_ledger s))"
proof -
  have c: "counted (map lg_seq (tk_ledger s))" using assms(1) by (simp add: talk_ok_def posts_ok_def)
  show "list_messages_since c k s = limited k (map (join_entry s) (drop (nat c) (tk_ledger s)))"
    by (simp add: since_counted [OF c] since_drop [OF c assms(2)])
  have "sorted_wrt (<) (map lg_seq (filter P (tk_ledger s)))" for P
    using counted_strict [OF c] by (simp add: sorted_wrt_map sorted_wrt_filter)
  then show "sorted_wrt (<) (map le_seq (list_messages_since c k s))"
    by (simp add: since_counted [OF c] limited_def take_map [symmetric] o_def sorted_wrt_take)
  show "\<forall>x \<in> set (list_messages_since c k s). c < le_seq x"
    by (auto simp: since_counted [OF c] limited_def dest!: in_set_takeD)
  show "latest_seq s = int (length (tk_ledger s))" by (rule latest_counted [OF c])
qed

lemma pull_shape:
  "sync_from uni me m up s w = worker_sync_once uni me m up (list_messages_since (ws_watermark w) 500 s, latest_seq s) w"
  by (simp add: sync_from_def handle_sync_def board_sync_pull_limit_def clamp_def)

text \<open>
  C26. What a pull delivers. Let the tables of the master be in order, at most 500 entries be new to the worker (behind
  its watermark), the agent loop take every event, no other handler run meanwhile, and let the marks of the threads tell
  exactly which of the new entries were already given to the agent loop (\<open>given\<close>), in threads the worker has joined.
  Then the pull gives the agent loop exactly the new entries that are meant for the worker (written by another one, in a
  thread the worker had joined or in which it has been named by then) and were not given yet, each once and in the order
  of the ledger. Afterwards the watermark is the newest number, and a second pull delivers nothing. (A mark that is ahead
  of an entry nobody was given hides it: \<open>wake_hides_missed_entry\<close>.)
\<close>

theorem pull_delivers_what_is_meant:
  assumes "talk_ok s" "\<forall>e. up e" "0 \<le> ws_watermark w" "\<forall>k. ws_watermark w < mark_of k w \<longrightarrow> k \<in> ws_joined w"
    and handled: "\<forall>x \<in> set (list_messages_since (ws_watermark w) (- 1) s).
      (entry_key x, le_seq x) \<in> set given \<longleftrightarrow> le_seq x \<le> mark_of (entry_key x) w"
    and few: "latest_seq s \<le> ws_watermark w + 500" and behind: "ws_watermark w \<le> latest_seq s"
    and pull: "sync_from uni me m up s w = (w', out)"
  shows "out = map (backfill_event m) (filter (\<lambda>x. (entry_key x, le_seq x) \<notin> set given)
      (meant_entries uni me (ws_joined w) (list_messages_since (ws_watermark w) (- 1) s))) \<and>
    ws_watermark w' = latest_seq s \<and> snd (sync_from uni me m up s w') = []"
proof -
  note since = since_entries [OF assms(1,3)]
  let ?xs = "list_messages_since (ws_watermark w) (- 1) s"
  have xs: "list_messages_since (ws_watermark w) 500 s = ?xs"
    using few since(4) by (simp add: since(1) limited_def)
  obtain w1 out1 missed1 where f: "fold (sync_entry uni me m up) ?xs (w, [], None) = (w1, out1, missed1)"
    by (metis prod_cases3)
  from fold_delivers [OF assms(2,4) since(2) [of "- 1"] since(3), of m uni me]
  have d: "missed1 = None" "out1 = map (backfill_event m) (filter (unhandled w) (meant_entries uni me (ws_joined w) ?xs))"
    "ws_watermark w1 = ws_watermark w" by (simp_all add: f)
  have "filter (unhandled w) (meant_entries uni me (ws_joined w) ?xs)
      = filter (\<lambda>x. (entry_key x, le_seq x) \<notin> set given) (meant_entries uni me (ws_joined w) ?xs)"
    using handled by (intro filter_cong) (auto simp: meant_entries_def)
  with d(2) have o: "out1 = map (backfill_event m) (filter (\<lambda>x. (entry_key x, le_seq x) \<notin> set given)
      (meant_entries uni me (ws_joined w) ?xs))" by simp
  have r: "w' = advance_watermark (latest_seq s) w1" "out = out1"
    using pull d(1) by (simp_all add: pull_shape worker_sync_once_def xs f sync_advance_target_def)
  have wm: "ws_watermark w' = latest_seq s"
    using behind d(3) by (simp add: r advance_watermark_def)
  have "list_messages_since (ws_watermark w') 500 s = []"
    using since_entries(1) [OF assms(1), of "latest_seq s" 500] wm since(4) by (simp add: limited_def)
  then have "snd (sync_from uni me m up s w') = []" by (simp add: pull_shape worker_sync_once_def)
  with o r(2) wm show ?thesis by simp
qed

definition chat :: "string \<Rightarrow> string \<Rightarrow> string \<Rightarrow> int \<times> talk_op" where
  "chat client who words = (6, Post (sample_envelope\<lparr> ev_client := of_str client, ev_content := of_str words,
     ev_sender := \<lparr> ac_kind = of_str ''agent'', ac_id = of_str who \<rparr> \<rparr>))"

definition sample_chat :: talk where
  "sample_chat = talk_run plain_unicode (\<lambda>s. s) [] [(5, Ensure_Defaults False), chat ''a'' ''n1'' ''hello'',
     chat ''b'' ''n1'' ''@bob look'', chat ''c'' ''n2'' ''yes'', chat ''d'' ''n1'' ''thanks'']"

text \<open>The worker was given the second message by a wake message; the pull brings the fourth.\<close>

definition woken_worker :: wake_state where
  "woken_worker = commit_seq (thread_key (of_str ''channel'') 1) 2 wake_state_new"

lemma pull_delivers_what_is_meant_witness:
  "let (w', out) = sync_from plain_unicode sample_worker (of_str ''n1'') (\<lambda>_. True) sample_chat woken_worker in
     map de_seq out = [4] \<and> ws_watermark w' = 4 \<and>
     snd (sync_from plain_unicode sample_worker (of_str ''n1'') (\<lambda>_. True) sample_chat w') = []"
proof -
  let ?k = "thread_key (of_str ''channel'') 1"
  let ?given = "[(?k, 1), (?k, 2)]"
  obtain w' out where p: "sync_from plain_unicode sample_worker (of_str ''n1'') (\<lambda>_. True) sample_chat woken_worker = (w', out)"
    by fastforce
  have ok: "talk_ok sample_chat" unfolding sample_chat_def by (rule talk_run_ok)
  have newest: "latest_seq sample_chat = 4" by code_simp
  have w: "ws_watermark woken_worker = 0" "ws_joined woken_worker = {?k}" "mark_of k woken_worker = (if k = ?k then 2 else 0)" for k
    by (simp_all add: woken_worker_def) (simp_all add: commit_seq_def mark_of_def wake_state_new_def)
  have l: "map (\<lambda>x. (entry_key x, le_seq x)) (list_messages_since 0 (- 1) sample_chat) = [(?k, 1), (?k, 2), (?k, 3), (?k, 4)]"
    by code_simp
  have h: "\<forall>x \<in> set (list_messages_since (ws_watermark woken_worker) (- 1) sample_chat).
      (entry_key x, le_seq x) \<in> set ?given \<longleftrightarrow> le_seq x \<le> mark_of (entry_key x) woken_worker"
  proof
    fix x assume "x \<in> set (list_messages_since (ws_watermark woken_worker) (- 1) sample_chat)"
    then have "(entry_key x, le_seq x) \<in> set [(?k, 1), (?k, 2), (?k, 3), (?k, 4)]"
      unfolding l [symmetric] w(1) by (simp add: rev_image_eqI)
    then consider "entry_key x = ?k \<and> le_seq x \<in> {1, 2}" | "entry_key x = ?k \<and> le_seq x \<in> {3, 4}" by fastforce
    then show "(entry_key x, le_seq x) \<in> set ?given \<longleftrightarrow> le_seq x \<le> mark_of (entry_key x) woken_worker"
      by cases (auto simp: w(3))
  qed
  have "\<forall>k. ws_watermark woken_worker < mark_of k woken_worker \<longrightarrow> k \<in> ws_joined woken_worker" by (simp add: w)
  from pull_delivers_what_is_meant [OF ok _ _ this h _ _ p]
  have "out = map (backfill_event (of_str ''n1'')) (filter (\<lambda>x. (entry_key x, le_seq x) \<notin> set ?given)
      (meant_entries plain_unicode sample_worker {?k} (list_messages_since 0 (- 1) sample_chat))) \<and> ws_watermark w' = 4 \<and>
      snd (sync_from plain_unicode sample_worker (of_str ''n1'') (\<lambda>_. True) sample_chat w') = []"
    unfolding w(1,2) newest by simp
  moreover have "map le_seq (filter (\<lambda>x. (entry_key x, le_seq x) \<notin> set ?given)
      (meant_entries plain_unicode sample_worker {?k} (list_messages_since 0 (- 1) sample_chat))) = [4]"
    by code_simp
  ultimately show ?thesis by (simp add: p o_def)
qed

section \<open>Who a post is by\<close>

definition remote_envelope :: "post_body \<Rightarrow> utext \<Rightarrow> envelope" where
  "remote_envelope b from_node = \<lparr> ev_origin = from_node, ev_client = or_else (pb_client b) [], ev_kind = or_else (pb_kind b) [],
     ev_target = or_else (pb_thread b) 0, ev_sender = \<lparr> ac_kind = of_str ''agent'', ac_id = from_node \<rparr>,
     ev_content = or_else (pb_content b) [], ev_reply = pb_reply b, ev_tag = or_else (pb_tag b) [] \<rparr>"

lemma comment_post_cases:
  assumes "handle_comment_post now uni env b from_node s = (s', r)"
  obtains (refused) x where "r = Inl x" "s' = s"
  | (core) y where "post_discussion_core now uni env (remote_envelope b from_node) s = (s', y)" "from_node \<noteq> []"
      "client_msg_id b = pb_client b" "pb_content b = Some (ev_content (remote_envelope b from_node))"
      "or_else (pb_tag b) [] \<notin> set reserved_tags" "r = (case y of Inl x \<Rightarrow> Inl (Core_Refused x) | Inr a \<Rightarrow> Inr a)"
proof (cases "\<exists>client kind i sender content. client_msg_id b = Some client \<and> pb_kind b = Some kind \<and> pb_thread b = Some i \<and>
    pb_sender_id b = Some sender \<and> pb_content b = Some content")
  case False
  then have "(\<exists>x. r = Inl x) \<and> s' = s"
    using assms by (auto simp: handle_comment_post_def Let_def split: if_splits option.splits)
  with refused show ?thesis by blast
next
  case True
  then obtain client kind i sender content where b: "client_msg_id b = Some client" "pb_kind b = Some kind"
    "pb_thread b = Some i" "pb_sender_id b = Some sender" "pb_content b = Some content" by blast
  have cl: "pb_client b = Some client" using b(1) by (auto simp: client_msg_id_def split: option.splits list.splits)
  define st where "st = (case pb_sender_type b of Some t \<Rightarrow> t | None \<Rightarrow> of_str ''agent'')"
  define tag where "tag = (case pb_tag b of Some t \<Rightarrow> t | None \<Rightarrow> [])"
  define e where "e = \<lparr> ev_origin = sender, ev_client = client, ev_kind = kind, ev_target = i,
            ev_sender = \<lparr> ac_kind = st, ac_id = sender \<rparr>, ev_content = content, ev_reply = pb_reply b, ev_tag = tag \<rparr>"
  have h: "handle_comment_post now uni env b from_node s =
     (if from_node = [] then (s, Inl No_From)
      else if st \<noteq> of_str ''agent'' \<or> sender \<noteq> from_node then (s, Inl (Wrong_Sender st sender))
      else if tag \<in> set reserved_tags then (s, Inl (Reserved_Tag tag))
      else (case post_discussion_core now uni env e s of
          (s', Inl x) \<Rightarrow> (s', Inl (Core_Refused x)) | (s', Inr a) \<Rightarrow> (s', Inr a)))"
    by (simp add: handle_comment_post_def b st_def tag_def e_def Let_def)
  show ?thesis
  proof (cases "from_node = [] \<or> st \<noteq> of_str ''agent'' \<or> sender \<noteq> from_node \<or> tag \<in> set reserved_tags")
    case True
    with assms h have "(\<exists>x. r = Inl x) \<and> s' = s" by (auto split: if_splits)
    with refused show ?thesis by blast
  next
    case False
    then have e: "remote_envelope b from_node = e"
      by (simp add: remote_envelope_def e_def or_else_def cl b tag_def)
    obtain y where y: "post_discussion_core now uni env e s = (s', y)"
      "r = (case y of Inl x \<Rightarrow> Inl (Core_Refused x) | Inr a \<Rightarrow> Inr a)"
      using assms h False by (auto split: prod.splits sum.splits)
    show ?thesis
      by (rule core) (use y False b cl in \<open>auto simp: e\<close>, simp_all add: e_def or_else_def tag_def)
  qed
qed

lemma core_cases:
  assumes "post_discussion_core now uni env e s = (s', y)" and o: "ev_origin e = ac_id (ev_sender e)"
  obtains (repeated) "check_duplicate (ev_origin e) (ev_client e) (bu_talk s) \<noteq> None" "s' = s"
  | (denied) "bu_talk s' = bu_talk s" "check_duplicate (ev_origin e) (ev_client e) (bu_talk s) = None"
  | (stored) z where "post_discussion_envelope now uni e (bu_talk s) = (bu_talk s', z)"
      "check_duplicate (ev_origin e) (ev_client e) (bu_talk s) = None"
      "case z of Inl x \<Rightarrow> y = Inl (Store_Refused x) | Inr p \<Rightarrow> \<exists>a. y = Inr a \<and> ca_deliver a = pm_new p"
proof -
  have e: "e\<lparr> ev_origin := ac_id (ev_sender e) \<rparr> = e" using o by simp
  show ?thesis
  proof (cases "check_duplicate (ev_origin e) (ev_client e) (bu_talk s)")
    case (Some c)
    with assms(1) have "s' = s" by (simp add: post_discussion_core_def e Let_def)
    with Some show ?thesis by (intro repeated) simp_all
  next
    case None
    obtain d l where q: "try_consume_post (be_cfg env) (thread_key (ev_kind e) (ev_target e)) (ac_id (ev_sender e)) now (bu_quota s) = (d, l)"
      by fastforce
    show ?thesis
    proof (cases d)
      case (Inl x)
      with assms(1) None q have "bu_talk s' = bu_talk s" by (auto simp: post_discussion_core_def e Let_def)
      then show ?thesis using None by (rule denied)
    next
      case (Inr left)
      obtain t z where t: "post_discussion_envelope now uni e (bu_talk s) = (t, z)" by fastforce
      with assms(1) None q Inr have "bu_talk s' = t \<and>
          (case z of Inl x \<Rightarrow> y = Inl (Store_Refused x) | Inr p \<Rightarrow> \<exists>a. y = Inr a \<and> ca_deliver a = pm_new p)"
        by (auto simp: post_discussion_core_def e Let_def with_wake_def split: sum.splits)
      with t None show ?thesis by (intro stored [of z]) simp_all
    qed
  qed
qed

lemma tag_not_reserved:
  assumes "shows_post e x" "ev_tag e \<notin> set reserved_tags"
  shows "le_tag x \<noteq> of_str ''system'' \<and> le_tag x \<noteq> of_str ''status_change''"
  using assms
  by (auto simp: shows_post_def reserved_tags_def comment_type_of_text_def split: thread_kind.splits option.splits if_splits)

text \<open>
  C27. A worker speaks only for itself. Whatever a worker sends as a post: it is refused without changing any table, or
  it is a repetition and changes nothing, not even its quota, or exactly one entry is added to the ledger, which is by
  an agent with the node id of the connection, has the content that was sent and is neither a system message nor a
  change of status.
\<close>

theorem worker_speaks_for_itself:
  assumes ok: "talk_ok (bu_talk s)" and p: "handle_comment_post now uni env b from_node s = (s', r)"
  shows "talk_ok (bu_talk s') \<and>
    (pb_client b \<noteq> None \<and> check_duplicate from_node (or_else (pb_client b) []) (bu_talk s) \<noteq> None \<longrightarrow> s' = s) \<and>
    (bu_talk s' = bu_talk s \<or>
      (\<exists>a x. r = Inr a \<and> ca_deliver a \<and> from_node \<noteq> [] \<and> le_sender x = from_node \<and> le_sender_type x = of_str ''agent'' \<and>
        pb_content b = Some (le_content x) \<and> le_tag x \<noteq> of_str ''system'' \<and> le_tag x \<noteq> of_str ''status_change'' \<and>
        list_messages_since 0 (- 1) (bu_talk s') = list_messages_since 0 (- 1) (bu_talk s) @ [x]))"
  using p
proof (cases rule: comment_post_cases)
  case (refused x)
  with ok show ?thesis by simp
next
  case (core y)
  let ?e = "remote_envelope b from_node"
  have keys: "ev_origin ?e = ac_id (ev_sender ?e)" "ev_origin ?e = from_node" "ev_client ?e = or_else (pb_client b) []"
    "ev_tag ?e = or_else (pb_tag b) []" "ac_kind (ev_sender ?e) = of_str ''agent''" "ac_id (ev_sender ?e) = from_node"
    by (simp_all add: remote_envelope_def)
  from core(1) keys(1) show ?thesis
  proof (cases rule: core_cases)
    case (stored z)
    note one = one_call_one_entry [OF ok stored(1)]
    show ?thesis
    proof (cases z)
      case (Inl x)
      with one ok stored(2) keys show ?thesis by simp
    next
      case (Inr q)
      show ?thesis
      proof (cases "pm_new q")
        case False
        with one ok stored(2) keys Inr show ?thesis by simp
      next
        case True
        have "0 \<le> latest_seq (bu_talk s)"
          using latest_counted [of "bu_talk s"] ok by (simp add: talk_ok_def posts_ok_def)
        with one Inr True obtain x where x: "shows_post ?e x"
          "list_messages_since 0 (- 1) (bu_talk s') = list_messages_since 0 (- 1) (bu_talk s) @ [x]" by auto
        from stored(3) Inr obtain a where a: "y = Inr a" "ca_deliver a" using True by auto
        have "le_sender x = from_node" "le_sender_type x = of_str ''agent''" "pb_content b = Some (le_content x)"
          using x(1) keys core(4) by (simp_all add: shows_post_def)
        with one Inr True x(2) a core tag_not_reserved [OF x(1)] keys stored(2) show ?thesis by auto
      qed
    qed
  qed (use ok keys in auto)
qed

definition sample_env :: bus_env where
  "sample_env = \<lparr> be_cfg = default_quota, be_nodes = [], be_self = of_str ''m'' \<rparr>"

definition sample_body :: post_body where
  "sample_body = \<lparr> pb_client = Some (of_str ''c1''), pb_kind = Some (of_str ''channel''), pb_thread = Some 1,
     pb_sender_type = None, pb_sender_id = Some (of_str ''n1''), pb_content = Some (of_str ''hi''), pb_reply = None,
     pb_tag = None \<rparr>"

lemma worker_speaks_for_itself_witness:
  "let s = \<lparr> bu_talk = sample_talk, bu_quota = quota_new \<rparr>;
       (s', r) = handle_comment_post 9 plain_unicode sample_env sample_body (of_str ''n1'') s in
     bu_talk s' \<noteq> bu_talk s \<and>
     (\<exists>x. le_sender x = of_str ''n1'' \<and> le_sender_type x = of_str ''agent'' \<and> le_content x = of_str ''hi'' \<and>
        list_messages_since 0 (- 1) (bu_talk s') = list_messages_since 0 (- 1) sample_talk @ [x])"
proof -
  let ?s = "\<lparr> bu_talk = sample_talk, bu_quota = quota_new \<rparr>"
  obtain s' r where p: "handle_comment_post 9 plain_unicode sample_env sample_body (of_str ''n1'') ?s = (s', r)" by fastforce
  have ok: "talk_ok (bu_talk ?s)" unfolding sample_talk_def using talk_run_ok by simp
  have "length (tk_ledger (bu_talk (fst (handle_comment_post 9 plain_unicode sample_env sample_body (of_str ''n1'') ?s)))) = 1"
    "tk_ledger sample_talk = []" "pb_content sample_body = Some (of_str ''hi'')" by code_simp+
  then have "bu_talk s' \<noteq> bu_talk ?s" and c: "pb_content sample_body = Some (of_str ''hi'')" using p by auto
  with worker_speaks_for_itself [OF ok p] show ?thesis by (auto simp: p)
qed

end
