(* ===== verification/Board_Lost.thy ===== *)
theory Board_Lost
  imports Board_Relay
begin

text \<open>
  Where the message bus loses messages or does what its comments do not say: consequences of the model, each for the
  code as it is.
\<close>

section \<open>The pull forgets what it was not given\<close>

text \<open>
  A pull is answered with at most 500 entries, but the watermark goes to the newest number of the ledger: a worker that
  missed more than 500 entries never gets those behind the first 500, neither with this pull nor with a later one.
\<close>

lemma pull_skips_beyond_limit:
  assumes "talk_ok s" "0 \<le> ws_watermark w" "ws_watermark w + 500 < latest_seq s" "\<forall>e. up e"
    and marks: "\<forall>k. mark_of k w \<le> ws_watermark w" and pull: "sync_from uni me m up s w = (w', out)"
  shows "ws_watermark w' = latest_seq s \<and> list_all (\<lambda>e. de_seq e \<le> ws_watermark w + 500) out \<and>
    (talk_ok s2 \<longrightarrow> list_all (\<lambda>x. latest_seq s < le_seq x) (list_messages_since (ws_watermark w') 500 s2))"
proof -
  note since = since_entries [OF assms(1,2)]
  let ?xs = "list_messages_since (ws_watermark w) 500 s"
  obtain w1 out1 missed1 where f: "fold (sync_entry uni me m up) ?xs (w, [], None) = (w1, out1, missed1)"
    by (metis prod_cases3)
  have "\<forall>k. ws_watermark w < mark_of k w \<longrightarrow> k \<in> ws_joined w" using marks by (simp add: not_less [symmetric])
  from fold_delivers [OF assms(4) this since(2) [of 500] since(3), of m uni me]
  have d: "missed1 = None" "out1 = map (backfill_event m) (filter (unhandled w) (meant_entries uni me (ws_joined w) ?xs))"
    "ws_watermark w1 = ws_watermark w" by (simp_all add: f)
  have r: "w' = advance_watermark (latest_seq s) w1" "out = out1"
    using pull d(1) by (simp_all add: pull_shape worker_sync_once_def f sync_advance_target_def)
  have wm: "ws_watermark w' = latest_seq s"
    using assms(3) d(3) by (simp add: r advance_watermark_def)
  have c: "counted (map lg_seq (tk_ledger s))" using assms(1) by (simp add: talk_ok_def posts_ok_def)
  have "le_seq x \<le> ws_watermark w + 500" if "x \<in> set ?xs" for x
  proof -
    let ?n = "nat (ws_watermark w)"
    from that have "le_seq x \<in> lg_seq ` set (take 500 (drop ?n (tk_ledger s)))"
      by (auto simp: since(1) limited_def take_map)
    then have "le_seq x \<in> set (take 500 (drop ?n (map lg_seq (tk_ledger s))))" by (simp add: take_map drop_map)
    moreover have "map lg_seq (tk_ledger s) = map (\<lambda>k. int k + 1) [0..<length (tk_ledger s)]"
      using c by (simp add: counted_def)
    ultimately show ?thesis using assms(2) by (auto simp: take_map drop_map in_set_conv_nth)
  qed
  then have "list_all (\<lambda>e. de_seq e \<le> ws_watermark w + 500) out"
    unfolding r d(2) by (auto simp: list_all_iff meant_entries_def)
  moreover have "talk_ok s2 \<Longrightarrow> list_all (\<lambda>x. latest_seq s < le_seq x) (list_messages_since (ws_watermark w') 500 s2)"
    using since_entries(3) [of s2 "ws_watermark w'" 500] wm assms(2,3) by (simp add: list_all_iff)
  ultimately show ?thesis using wm by blast
qed

section \<open>A mark hides what came before\<close>

text \<open>
  An entry the agent loop does not take is to be pulled again; but when a later entry of the same thread is taken in
  the same pull, the mark of the thread is ahead, and the retry is dropped as already handled. Here the loop is not
  ready for the first of two messages that name the worker: the next pull, with the loop ready, delivers nothing.
\<close>

definition two_calls :: talk where
  "two_calls = talk_run plain_unicode (\<lambda>s. s) [] [(5, Ensure_Defaults False), chat ''a'' ''n1'' ''@bob one'',
     chat ''b'' ''n1'' ''@bob two'']"

lemma failed_entry_is_not_retried:
  "let (w1, out1) = sync_from plain_unicode sample_worker (of_str ''n1'') (\<lambda>e. de_seq e \<noteq> 1) two_calls wake_state_new;
       (w2, out2) = sync_from plain_unicode sample_worker (of_str ''n1'') (\<lambda>_. True) two_calls w1 in
     map de_seq out1 = [2] \<and> ws_watermark w1 = 0 \<and> out2 = [] \<and> ws_watermark w2 = 2"
  by code_simp

text \<open>
  The same with a wake message: the worker missed the first message, the second one reaches it as a wake message, and
  the pull that should bring the first drops it.
\<close>

lemma wake_hides_missed_entry:
  "let b = \<lparr> wb_kind = Some (of_str ''channel''), wb_thread = Some 1, wb_sender = Some (of_str ''n1''),
             wb_content = Some (of_str ''@bob two''), wb_seq = Some 2, wb_messages = [], wb_event = None, wb_title = None,
             wb_at = None, wb_reply = None, wb_turns = None, wb_sender_kind = None \<rparr>;
       (w1, out1, a) = handle_wake_post (\<lambda>_. True) b (of_str ''n1'') wake_state_new;
       (w2, out2) = sync_from plain_unicode sample_worker (of_str ''n1'') (\<lambda>_. True) two_calls w1 in
     a = Wake_Queued \<and> map de_seq out1 = [2] \<and> out2 = [] \<and> ws_watermark w2 = 2"
  by code_simp

section \<open>Twice after all\<close>

text \<open>
  Test, delivery and mark are three steps under two locks: two handlers that have the same message, here two wake
  messages, both find it new and both give it to the agent loop.
\<close>

lemma overlap_delivers_twice:
  "let w = worker_run plain_unicode sample_worker (worker_start None)
     [Wake_Arrives 0 sample_wake (of_str ''m''), Wake_Arrives 1 sample_wake (of_str ''m''), Job_Step 0 True, Job_Step 1 True,
      Job_Step 0 True, Job_Step 1 True]
   in map de_seq (wk_given w) = [3, 3]"
  by code_simp

text \<open>A crash between delivery and snapshot, or a write of the snapshot that fails: after the restart it comes again.\<close>

lemma unsaved_delivers_twice:
  "let start = [Wake_Arrives 0 sample_wake (of_str ''m''), Job_Step 0 True, Job_Step 0 True];
       again = Crash # start;
       run = worker_run plain_unicode sample_worker (worker_start None)
   in map de_seq (wk_given (run (start @ again))) = [3, 3] \<and>
      map de_seq (wk_given (run (start @ [Job_Step 0 True, Job_Step 0 False] @ again))) = [3, 3]"
  by code_simp

text \<open>
  The snapshot is taken under the lock but written outside it, so an older one can be written last: after both
  handlers are done and both writes succeeded, a restart brings one of the messages again.
\<close>

lemma older_snapshot_wins:
  "let other = sample_wake\<lparr> wb_thread := Some 2 \<rparr>;
       w = worker_run plain_unicode sample_worker (worker_start None)
         ([Wake_Arrives 0 sample_wake (of_str ''m''), Wake_Arrives 1 other (of_str ''m'')]
          @ replicate 3 (Job_Step 0 True) @ replicate 5 (Job_Step 1 True) @ replicate 2 (Job_Step 0 True));
       w1 = worker_run plain_unicode sample_worker (worker_start None)
         ([Wake_Arrives 0 sample_wake (of_str ''m''), Wake_Arrives 1 other (of_str ''m'')]
          @ replicate 4 (Job_Step 0 True) @ replicate 5 (Job_Step 1 True) @ replicate 1 (Job_Step 0 True));
       again = [Crash, Wake_Arrives 1 other (of_str ''m''), Job_Step 1 True, Job_Step 1 True]
   in length (wk_given w) = 2 \<and> length (wk_given w1) = 2 \<and>
      length (wk_given (worker_run plain_unicode sample_worker w again)) = 3 \<and>
      length (wk_given (worker_run plain_unicode sample_worker w1 again)) = 2"
  by code_simp

section \<open>Tags, titles and lists\<close>

text \<open>
  A worker may not ask for the tag of an ordinary comment by name, but any tag the table does not know, and none at
  all, makes one.
\<close>

definition issue_talk :: talk where
  "issue_talk = talk_run plain_unicode (\<lambda>s. s) (of_str ''NB'') [(1, On_Board (Create
     \<lparr> ni_title = of_str ''t'', ni_description = [], ni_priority = 0, ni_assignee = None, ni_assignee_id = None,
       ni_creator = system_actor ''cli'', ni_parent = None, ni_project = None, ni_due = None, ni_criteria = None,
       ni_origin = None, ni_role = None, ni_tags = [], ni_profession = None, ni_capabilities = [], ni_backend = None \<rparr>))]"

lemma unknown_tag_is_a_comment:
  "let s = \<lparr> bu_talk = issue_talk, bu_quota = quota_new \<rparr>;
       b = sample_body\<lparr> pb_kind := Some (of_str ''issue'') \<rparr> in
     snd (handle_comment_post 9 plain_unicode sample_env (b\<lparr> pb_tag := Some (of_str ''comment'') \<rparr>) (of_str ''n1'') s)
       = Inl (Reserved_Tag (of_str ''comment'')) \<and>
     map cm_type (b_comments (tk_board (bu_talk (fst (handle_comment_post 9 plain_unicode sample_env b (of_str ''n1'') s))))) = [C_Comment]"
  by code_simp

text \<open>
  The title a wake message gives to a channel has a second number sign in front of the one every name begins with.
\<close>

lemma channel_title_doubled:
  assumes "talk_ok s" "k \<noteq> of_str ''issue''" "has_channel i s"
  shows "text_starts_with (fst (wake_title k i s)) [35, 35]"
proof -
  obtain c where c: "find (\<lambda>c. ch_id c = i) (list_channels s) = Some c"
    using assms(3) by (cases "find (\<lambda>c. ch_id c = i) (list_channels s)")
      (auto simp: find_None_iff list_channels_def has_channel_def list_ex_iff)
  then have "c \<in> set (tk_channels s)" by (auto simp: list_channels_def dest!: find_SomeD)
  then have "text_starts_with (ch_name c) [35]" using assms(1) by (simp add: talk_ok_def rooms_ok_def list_all_iff)
  then show ?thesis using c assms(2) by (simp add: wake_title_def text_starts_with_def)
qed

text \<open>
  The listing for workers promises the newest messages of a thread. For an issue it keeps that, for a channel the bound
  has already cut the list at the other end: only the oldest are shown.
\<close>

lemma channel_listing_is_oldest:
  "map (map lm_id) (case handle_comment_list (Some (of_str ''channel'')) (Some 1) (Some 1) two_calls of Inr xs \<Rightarrow> [xs] | Inl _ \<Rightarrow> [])
     = [[1]] \<and> map ms_id (tk_messages two_calls) = [1, 2]"
  by code_simp

end
