(* ===== verification/Spec2Isabelle.thy ===== *)
theory Spec2Isabelle
  imports Auditor_Safety Audit_Chain Merkle Ssrf Workflow_Run Routing Fallback_Chain Frames Conversation Turn_Wal Inbox Profession Board_Plan Board_Parsers Board_Quota Board_Wake Turn_Guard Board_Status Board_Store Board_Work Board_Dispatch Board_Trail Board_History Board_Audit Board_Tree Board_Cascade Board_Settle Board_Links Board_Talk Board_Once Board_Posts Board_Bus Board_Sync Board_Relay Board_Lost
begin

text \<open>
  Verification library for NemesisBot: the security layer, the workflow scheduler, message routing, the
  conversation of the agent, the board that splits tasks, the failover between model providers and the frames of the cluster protocol.

  \<^bold>\<open>The program.\<close> NemesisBot is an agent. A message that comes in over a channel is routed to a configured
  agent and a session (crate \<open>nemesis-routing\<close>). The agent builds a request from the stored conversation
  (\<open>nemesis-agent\<close>), asks a chain of language model providers and
  goes on to the next when one is exhausted or broken (\<open>nemesis-providers\<close>). The model proposes tool calls,
  and the security layer (\<open>nemesis-security\<close>) decides whether a call may run: a tool call becomes an
  operation with a target (\<open>types.rs\<close>), the policy engine judges it against rule tables (\<open>auditor.rs\<close> with
  \<open>matcher.rs\<close> and \<open>command_arity.rs\<close>), a judgement that asks for approval passes the remembered rules, the
  session switch, the automatic switch and finally a human (\<open>approval_rules.rs\<close>, \<open>session_allow_all.rs\<close>,
  \<open>approval_auto.rs\<close>, \<open>editor_access.rs\<close>), and the decision is logged (\<open>auditor.rs\<close>, and tamper-evidently
  by \<open>integrity.rs\<close> and \<open>merkle.rs\<close>). Outgoing requests are checked by a guard against forged internal
  addresses (\<open>ssrf.rs\<close>, \<open>resolver.rs\<close>). Longer tasks are workflows: graphs of nodes that are validated,
  sorted into levels and run level by level with conditions on the edges, retries and pauses
  (\<open>nemesis-workflow\<close>). Several bots form a cluster and exchange length-prefixed frames
  (\<open>nemesis-cluster\<close>).

  \<^bold>\<open>Theories and sources: shared.\<close>
  \<^item> \<open>Prelude\<close>: event-driven machines (locale \<open>step_invariant\<close>), keyed tables (locale \<open>keyed_table\<close>),
    first-match scans. \<open>Rust_Str\<close>: the string methods of the standard library. \<open>Json\<close>: the value type of
    \<open>serde_json\<close> and its accessors.

  \<^bold>\<open>Security\<close> (\<open>crates/nemesis-security/src\<close>).
  \<^item> \<open>Security_Types\<close>: \<open>types.rs\<close>, operations, danger levels, tool table, target extraction.
  \<^item> \<open>Command_Arity\<close>: \<open>command_arity.rs\<close>, tokeniser, segments, arity reduction.
  \<^item> \<open>Matcher\<close>, \<open>Glob_Spec\<close>: \<open>matcher.rs\<close>, and the languages its patterns denote.
  \<^item> \<open>Approval_Rules\<close>: \<open>approval_rules.rs\<close>. \<open>Approval_State\<close>: \<open>session_allow_all.rs\<close>,
    \<open>approval_auto.rs\<close>, \<open>editor_access.rs\<close>.
  \<^item> \<open>Policy\<close>: \<open>evaluate_request\<close> and \<open>evaluate_request_inner\<close> of \<open>auditor.rs\<close>, one definition per stage,
    and the order-free specification they are proved equal to.
  \<^item> \<open>Auditor\<close>, \<open>Reviews\<close>: the state \<open>auditor\<close>, permission requests, the pending table, the audit log and
    the direct reviews of \<open>auditor.rs\<close>. \<open>Auditor_Safety\<close>: what holds over all sequences of operations.
  \<^item> \<open>Audit_Chain\<close>: \<open>integrity.rs\<close>; a segment file is its lines and what stands behind the last line feed, so that a
    write that fails in the middle of a line shows. \<open>Merkle\<close>: \<open>merkle.rs\<close>.
  \<^item> \<open>Ip_Address\<close>: \<open>std::net\<close> and the address tests of \<open>resolver.rs\<close>. \<open>Ssrf\<close>: \<open>ssrf.rs\<close> and \<open>parse_url\<close>,
    compared with the address blocks the comments of \<open>resolver.rs\<close> name (\<open>documented_tables\<close>); \<open>between_tables\<close> are
    the addresses where tests and comments differ.

  \<^bold>\<open>Workflows\<close> (\<open>crates/nemesis-workflow/src\<close>).
  \<^item> \<open>Workflow_Graph\<close>: \<open>build_graph\<close> and \<open>topological_sort\<close> of \<open>scheduler.rs\<close>; a sort succeeds exactly on an
    acyclic graph and its levels follow the edges, whatever the order of the hash tables.
  \<^item> \<open>Workflow_Parser\<close>: \<open>parser.rs\<close>, the data and durations of \<open>types.rs\<close>, \<open>call_stack.rs\<close>, the output of
    a run. \<open>Workflow_Conditions\<close>: placeholders, conditions on edges, the condition node.
  \<^item> \<open>Workflow_Run\<close>: the run of \<open>scheduler.rs\<close>, with retries, gates, waiting nodes, skip sets and
    cancellation, and what holds of it for all node executors.

  \<^bold>\<open>Agent\<close> (\<open>crates/nemesis-agent/src\<close>).
  \<^item> \<open>Unicode_Text\<close>: text of the conversation as code points. \<open>Tool_Pairs\<close>: turns and the repair of calls
    and results of \<open>types.rs\<close>. \<open>Tool_Prune\<close>: \<open>prune.rs\<close>. \<open>Conversation\<close>: the projection of a turn, the
    boundary of compaction and the request built from history and summary (\<open>loop/compact.rs\<close>).
  \<^item> \<open>Turn_Wal\<close>: \<open>turn_wal.rs\<close>, the write-ahead log of tool calls, its rotation and the recovery after a crash.
  \<^item> \<open>Inbox\<close>: \<open>inbox.rs\<close>, the queues of a busy session and the three plain queues they implement.
  \<^item> \<open>Turn_Guard\<close>: \<open>turn_guard.rs\<close>, the counters against loops of a turn, a specification on the
    history of the turn, and the contract of the comments it keeps (\<open>promised_answers\<close>) wherever they say one thing
    (\<open>comments_agree\<close>).

  \<^bold>\<open>Board\<close> (\<open>crates/nemesis-board/src\<close>), where a manager splits a task among the nodes of the cluster.
  \<^item> \<open>Profession\<close>: slugs, catalogue and tiers (\<open>professions/meta.rs\<close>, \<open>subagents.rs\<close> of
    \<open>crates/nemesis-prompts/src\<close>). \<open>Board_Plan\<close>: \<open>planner.rs\<close>; its depth-first search is proved exact.
    \<open>Board_Parsers\<close>: what the strict and the lenient parser of \<open>planner.rs\<close> accept.
  \<^item> \<open>Board_Quota\<close>: \<open>quota.rs\<close> and the contract on histories it implements. \<open>Board_Wake\<close>: \<open>arbitrator.rs\<close>.
  \<^item> \<open>Board_Status\<close>: \<open>state_machine.rs\<close>, \<open>project_state.rs\<close>, \<open>assignment.rs\<close> and the enumerations of \<open>models.rs\<close>.
    \<open>Board_Store\<close> (rows, status), \<open>Board_Work\<close> (issues, claims, comments) and \<open>Board_Dispatch\<close>: the
    operations of \<open>store.rs\<close>. \<open>Board_Trail\<close>: the log as its reader sees it, and an audit machine that every
    operation is a run of; \<open>Board_History\<close>: that it is, and what holds after any sequence of operations.
    \<open>Board_Audit\<close>: precedents, and what is wrong with some operations.
  \<^item> \<open>Board_Tree\<close>: \<open>descendants\<close> of \<open>store.rs\<close>. \<open>Board_Cascade\<close>: \<open>finish.rs\<close> and, from
    \<open>crates/nemesis-web/src/handlers/board/cascade.rs\<close>, the parent that follows its children and the cascade of
    a cancellation. \<open>Board_Settle\<close>: what they do, for every board that operations have made.
  \<^item> \<open>Board_Links\<close>: that the tables refer to each other correctly after any operations. \<open>Board_Talk\<close>: channels,
    messages, the claims that make a post happen once and its ledger (\<open>store.rs\<close>). \<open>Board_Once\<close>: the tables of the
    discussions, and the contract of an answer that is remembered. \<open>Board_Posts\<close>: what posting promises.
  \<^item> \<open>Board_Bus\<close> and \<open>Board_Sync\<close>: the master's and the worker's side of \<open>src/nemesisbot/src/board_bus.rs\<close> for
    posts, wake messages and pulls, which joins the quotas, the wake plan and the ledger. The worker is there twice: as
    functions for a run nobody interrupts, and step by step (\<open>worker_step\<close>), where every lock and every write of the
    snapshot is a step, any number of handlers interleave, writes fail and the process may end; \<open>wake_alone\<close> and
    \<open>pull_alone\<close> show that the functions are the uninterrupted runs. \<open>Board_Relay\<close>: what
    arrives, and who it is by. \<open>Board_Lost\<close>: what gets lost, and what comes twice.

  \<^bold>\<open>Routing\<close> (\<open>crates/nemesis-routing/src\<close>): \<open>Routing_Keys\<close> for \<open>agent_id.rs\<close> and \<open>session_key.rs\<close>,
  \<open>Routing\<close> for \<open>route.rs\<close>, whose cascade of levels is proved equal to a choice by rank.

  \<^bold>\<open>Providers\<close> (\<open>crates/nemesis-providers/src\<close>): \<open>Failover\<close> for \<open>failover.rs\<close> and the cooldown table of
  \<open>cooldown.rs\<close>, \<open>Fallback_Chain\<close> for \<open>fallback_provider.rs\<close>.

  \<^bold>\<open>Cluster\<close> (\<open>crates/nemesis-cluster/src\<close>): \<open>Frames\<close> for the frames of \<open>rpc_types.rs\<close> and
  \<open>transport/frame.rs\<close>.

  \<^bold>\<open>Conventions.\<close> A definition has the name of the Rust item it translates. Records of the state are passed
  and returned; a lock makes an operation one step, and where the code uses separate atomics
  (\<open>editor_access.rs\<close>) or takes the lock several times (the handlers of a worker in \<open>board_bus.rs\<close>) there are
  separate steps. The operations of \<open>store.rs\<close> are one step each, also where their statements stand outside a
  transaction (\<open>crash_after_claim\<close> shows what that hides). Errors are values of a sum type. Counters are 64-bit
  words. A \<open>char\<close> is a code point U+0000 to U+00FF. Hash tables whose order shows are lists in an order the
  theorems quantify over.

  \<^bold>\<open>Parameters.\<close> The regular expression engine and Unicode folding (record \<open>externals\<close>), the digest \<open>H\<close>
  (crate \<open>sha2\<close>), URL and CIDR parsing (record \<open>net_env\<close>), name resolution, the approval manager, the
  clock, fresh identifiers and the success of a file write (records of the environment); the node executors,
  the order in which tasks finish and the cancellation flag (record \<open>run_env\<close>); floating point numbers and
  the text of JSON values (record \<open>value_env\<close>); what a provider answers (record \<open>chain_env\<close>); the cipher of
  a frame; the text of a log line and the outcome of a write (\<open>Turn_Wal\<close>); the canonical text of a call's
  arguments (\<open>Turn_Guard\<close>); the decoder of a plan
  (\<open>Board_Plan\<close>); Unicode's tables (record \<open>unicode\<close> in \<open>Board_Wake\<close>). The hypotheses on them are named where they are used.

  \<^bold>\<open>Bounds.\<close> Segment files sort by name up to number 9999, so the log theorem asks for fewer than 9999
  operations. The theorems on quotas fix one configuration for the whole run. Recursion of the scanners ends by the length of the text. \<open>evaluate_condition\<close> may recurse
  for ever and is a partial function whose undefined value is \<open>None\<close>; \<open>edge_gate_decided\<close> shows that the
  scheduler never meets it. The search for dependency cycles has as fuel one more than the number of subtasks,
  which \<open>detect_cycle_exact\<close> shows to be enough.

  \<^bold>\<open>Not modelled.\<close> The layers of the security pipeline that are tables of regular expressions or external
  processes (injection, command guard, DLP, credential scan, virus scanner), the vault's cryptography, file
  system canonicalisation, tracing output; the executors of workflow nodes other than the condition node and
  the engine around the scheduler; the classification of provider errors by regular expressions; the sockets
  of the cluster; the board's projects, reviews and archives; and the remaining crates (agent loop, channels,
  memory, web, desktop, plugins),
  which are input and output around these parts.
\<close>

end
